(* ===== verification/Prelude.thy ===== *)
theory Prelude
  imports Main "HOL-Library.AList" "HOL-Library.Multiset" "HOL-Library.Word"
begin

text \<open>
  What every component theory shares: results with errors and panics, hash maps
  whose iteration order is explicit, the machine-integer bounds of the Rust types the
  code uses, and the fact collections that the component proofs extend.

  \<^item> A fallible Rust function returns \<open>'e + 'a\<close>, \<open>Inl\<close> the error. A function that can
    also panic returns \<open>'e fault + 'a\<close>.
  \<^item> A \<open>HashMap\<close> is an association list with distinct keys. The order of the list is the
    iteration order of the map, which Rust leaves unspecified: a theorem that holds for
    every list holds for every iteration order.
  \<^item> A \<open>Uuid\<close> is a natural number: the byte order of a UUID is its numeric order.
\<close>

named_theorems result_simps \<open>unfolding of the result combinators\<close>
named_theorems hmap_simps \<open>lookup laws of the hash-map operations\<close>

section \<open>Results\<close>

datatype 'e fault = Failed 'e | Panic

definition rbind :: "'e + 'a \<Rightarrow> ('a \<Rightarrow> 'e + 'b) \<Rightarrow> 'e + 'b" where
  "rbind m f = (case m of Inl e \<Rightarrow> Inl e | Inr x \<Rightarrow> f x)"

definition map_err :: "('e \<Rightarrow> 'f) \<Rightarrow> 'e + 'a \<Rightarrow> 'f + 'a" where
  "map_err g m = (case m of Inl e \<Rightarrow> Inl (g e) | Inr x \<Rightarrow> Inr x)"

definition ok_or :: "'e \<Rightarrow> 'a option \<Rightarrow> 'e + 'a" where
  "ok_or e m = (case m of None \<Rightarrow> Inl e | Some x \<Rightarrow> Inr x)"

definition is_ok :: "'e + 'a \<Rightarrow> bool" where
  "is_ok m = (case m of Inl _ \<Rightarrow> False | Inr _ \<Rightarrow> True)"

lemma rbind_Inl [simp, result_simps]: "rbind (Inl e) f = Inl e"
  by (simp add: rbind_def)

lemma rbind_Inr [simp, result_simps]: "rbind (Inr x) f = f x"
  by (simp add: rbind_def)

lemma rbind_eq_Inr [result_simps]: "(rbind m f = Inr y) = (\<exists>x. m = Inr x \<and> f x = Inr y)"
  by (cases m) auto

lemma rbind_eq_Inl [result_simps]:
  "(rbind m f = Inl e) = (m = Inl e \<or> (\<exists>x. m = Inr x \<and> f x = Inl e))"
  by (cases m) auto

lemma map_err_simps [simp]: "map_err g (Inl e) = Inl (g e)" "map_err g (Inr x) = Inr x"
  by (simp_all add: map_err_def)

lemma map_err_eq_Inr [simp]: "(map_err g m = Inr y) = (m = Inr y)"
  by (cases m) auto

lemma map_err_eq_Inl: "(map_err g m = Inl e) = (\<exists>e'. m = Inl e' \<and> e = g e')"
  by (cases m) auto

lemma ok_or_simps [simp]: "ok_or e None = Inl e" "ok_or e (Some x) = Inr x"
  by (simp_all add: ok_or_def)

lemma ok_or_eq_Inr [simp]: "(ok_or e m = Inr x) = (m = Some x)"
  by (cases m) auto

lemma ok_or_eq_Inl [simp]: "(ok_or e m = Inl f) = (m = None \<and> f = e)"
  by (cases m) auto

lemma is_ok_simps [simp]: "is_ok (Inr x)" "\<not> is_ok (Inl e)"
  by (simp_all add: is_ok_def)

lemma is_ok_iff: "is_ok m = (\<exists>x. m = Inr x)"
  by (cases m) auto

section \<open>Actions: stateful code with errors\<close>

text \<open>
  An action passes the state explicitly and keeps it when it fails, as a Rust function
  that has already mutated \<open>self\<close> or the disk does when it returns \<open>Err\<close>.
\<close>

type_synonym ('s, 'e, 'a) act = "'s \<Rightarrow> ('e + 'a) \<times> 's"

definition areturn :: "'a \<Rightarrow> ('s, 'e, 'a) act" where
  "areturn x s = (Inr x, s)"

definition athrow :: "'e \<Rightarrow> ('s, 'e, 'a) act" where
  "athrow e s = (Inl e, s)"

definition abind :: "('s, 'e, 'a) act \<Rightarrow> ('a \<Rightarrow> ('s, 'e, 'b) act) \<Rightarrow> ('s, 'e, 'b) act" where
  "abind m f s = (case m s of (Inl e, s') \<Rightarrow> (Inl e, s') | (Inr x, s') \<Rightarrow> f x s')"

definition aresult :: "'e + 'a \<Rightarrow> ('s, 'e, 'a) act" where
  "aresult r s = (r, s)"

definition aupdate :: "('s \<Rightarrow> 's) \<Rightarrow> ('s, 'e, unit) act" where
  "aupdate f s = (Inr (), f s)"

definition aerr :: "('e \<Rightarrow> 'f) \<Rightarrow> ('s, 'e, 'a) act \<Rightarrow> ('s, 'f, 'a) act" where
  "aerr g m s = (case m s of (r, s') \<Rightarrow> (map_err g r, s'))"

lemma areturn_apply [simp]: "areturn x s = (Inr x, s)" by (simp add: areturn_def)
lemma athrow_apply [simp]: "athrow e s = (Inl e, s)" by (simp add: athrow_def)
lemma aresult_apply [simp]: "aresult r s = (r, s)" by (simp add: aresult_def)
lemma aupdate_apply [simp]: "aupdate f s = (Inr (), f s)" by (simp add: aupdate_def)

text \<open>A property of the final state holds for a sequence when both parts keep it.\<close>

lemma abind_preserves:
  assumes "\<And>s. P s \<Longrightarrow> P (snd (m s))" and "\<And>x s. P s \<Longrightarrow> P (snd (f x s))"
  shows "P s \<Longrightarrow> P (snd (abind m f s))"
  using assms by (auto simp: abind_def split: prod.splits sum.splits) (metis snd_conv)+

lemma abind_Inr: "(abind m f s = (Inr y, s'')) = (\<exists>x s'. m s = (Inr x, s') \<and> f x s' = (Inr y, s''))"
  by (auto simp: abind_def split: prod.splits sum.splits)

text \<open>Pre- and postconditions of an action, with a postcondition of the error exit.\<close>

definition ahoare :: "('s \<Rightarrow> bool) \<Rightarrow> ('s, 'e, 'a) act \<Rightarrow> ('a \<Rightarrow> 's \<Rightarrow> bool) \<Rightarrow> ('e \<Rightarrow> 's \<Rightarrow> bool) \<Rightarrow> bool" where
  "ahoare P m Q E = (\<forall>s. P s \<longrightarrow> (case m s of (Inr x, s') \<Rightarrow> Q x s' | (Inl e, s') \<Rightarrow> E e s'))"

lemma ahoare_bind:
  assumes "ahoare P m R E" and "\<And>x. ahoare (R x) (f x) Q E"
  shows "ahoare P (abind m f) Q E"
  using assms by (fastforce simp: ahoare_def abind_def split: prod.splits sum.splits)

lemma ahoare_weaken:
  assumes "ahoare P m Q E" "\<And>s. P' s \<Longrightarrow> P s" "\<And>x s. Q x s \<Longrightarrow> Q' x s" "\<And>e s. E e s \<Longrightarrow> E' e s"
  shows "ahoare P' m Q' E'"
  using assms by (fastforce simp: ahoare_def split: prod.splits sum.splits)

lemma ahoare_return: "(\<And>s. P s \<Longrightarrow> Q x s) \<Longrightarrow> ahoare P (areturn x) Q E"
  by (simp add: ahoare_def)

lemma ahoare_keeps: "ahoare P m (\<lambda>_. P) (\<lambda>_. P) = (\<forall>s. P s \<longrightarrow> P (snd (m s)))"
proof -
  have "(case m s of (Inr x, s') \<Rightarrow> P s' | (Inl e, s') \<Rightarrow> P s') = P (snd (m s))" for s
    by (cases "m s"; cases "fst (m s)") auto
  then show ?thesis by (simp add: ahoare_def)
qed

lemma ahoareD: "ahoare P m Q E \<Longrightarrow> P s \<Longrightarrow> m s = (Inr x, s') \<Longrightarrow> Q x s'"
  by (fastforce simp: ahoare_def)

lemma ahoareD_err: "ahoare P m Q E \<Longrightarrow> P s \<Longrightarrow> m s = (Inl e, s') \<Longrightarrow> E e s'"
  by (fastforce simp: ahoare_def)

section \<open>Hash maps with an explicit iteration order\<close>

type_synonym ('k, 'v) hmap = "('k \<times> 'v) list"

abbreviation hget :: "('k, 'v) hmap \<Rightarrow> 'k \<Rightarrow> 'v option" where
  "hget m k \<equiv> map_of m k"

abbreviation hput :: "'k \<Rightarrow> 'v \<Rightarrow> ('k, 'v) hmap \<Rightarrow> ('k, 'v) hmap" where
  "hput k v m \<equiv> AList.update k v m"

abbreviation hdel :: "'k \<Rightarrow> ('k, 'v) hmap \<Rightarrow> ('k, 'v) hmap" where
  "hdel k m \<equiv> AList.delete k m"

definition hkeys :: "('k, 'v) hmap \<Rightarrow> 'k list" where
  "hkeys m = map fst m"

definition hwf :: "('k, 'v) hmap \<Rightarrow> bool" where
  "hwf m = distinct (map fst m)"

text \<open>The in-place update of the value under a key that is present.\<close>

definition hmodify :: "'k \<Rightarrow> ('v \<Rightarrow> 'v) \<Rightarrow> ('k, 'v) hmap \<Rightarrow> ('k, 'v) hmap" where
  "hmodify k f m = map (\<lambda>(k', v). (k', if k' = k then f v else v)) m"

text \<open>\<open>HashMap\<close> equality: the same keys with the same values, whatever the order.\<close>

definition hmap_eq :: "('k, 'v) hmap \<Rightarrow> ('k, 'v) hmap \<Rightarrow> bool" where
  "hmap_eq m n = list_all (\<lambda>k. map_of m k = map_of n k) (map fst m @ map fst n)"

lemma hmap_eq_iff: "hmap_eq m n = (map_of m = map_of n)"
proof
  assume eq: "hmap_eq m n"
  show "map_of m = map_of n"
  proof
    fix k
    show "map_of m k = map_of n k"
      using eq by (cases "k \<in> set (map fst m @ map fst n)")
        (auto simp: hmap_eq_def list_all_iff map_of_eq_None_iff [symmetric]
          simp del: map_of_eq_None_iff)
  qed
qed (simp add: hmap_eq_def list_all_iff)

lemma hget_hput [simp, hmap_simps]: "hget (hput k v m) k' = (if k' = k then Some v else hget m k')"
  by (simp add: update_conv')

lemma hget_hdel [simp, hmap_simps]: "hget (hdel k m) k' = (if k' = k then None else hget m k')"
  by (simp add: delete_conv')

lemma hget_hmodify [simp, hmap_simps]:
  "hget (hmodify k f m) k' = (if k' = k then map_option f (hget m k') else hget m k')"
  by (induction m) (auto simp: hmodify_def)

lemma fst_hmodify [simp]: "map fst (hmodify k f m) = map fst m"
  by (induction m) (auto simp: hmodify_def)

lemma hwf_hput [simp, intro]: "hwf m \<Longrightarrow> hwf (hput k v m)"
  by (simp add: hwf_def distinct_update)

lemma hwf_hdel [simp, intro]: "hwf m \<Longrightarrow> hwf (hdel k m)"
  by (simp add: hwf_def distinct_delete)

lemma hwf_hmodify [simp]: "hwf (hmodify k f m) = hwf m"
  by (simp add: hwf_def)

lemma hwf_Nil [simp]: "hwf []"
  by (simp add: hwf_def)

lemma set_hkeys [simp]: "set (hkeys m) = dom (map_of m)"
  by (simp add: hkeys_def dom_map_of_conv_image_fst)

lemma hwf_hget_iff: "hwf m \<Longrightarrow> (hget m k = Some v) = ((k, v) \<in> set m)"
  by (simp add: hwf_def)

section \<open>Machine integers\<close>

type_synonym u8 = "8 word"
type_synonym bytes = "u8 list"

definition u32_max :: nat where
  "u32_max = 4294967295"

definition u64_max :: nat where
  "u64_max = 18446744073709551615"

text \<open>Saturating arithmetic of \<open>i32\<close>.\<close>

definition i32_min :: int where
  "i32_min = - 2147483648"

definition i32_max :: int where
  "i32_max = 2147483647"

definition sat_i32 :: "int \<Rightarrow> int" where
  "sat_i32 x = max i32_min (min i32_max x)"

lemma sat_i32_bounds: "i32_min \<le> sat_i32 x \<and> sat_i32 x \<le> i32_max"
  by (simp add: sat_i32_def i32_min_def i32_max_def)

lemma sat_i32_id: "i32_min \<le> x \<Longrightarrow> x \<le> i32_max \<Longrightarrow> sat_i32 x = x"
  by (simp add: sat_i32_def)

section \<open>Options and lists\<close>

lemma option_ext: "(\<And>v. x = Some v \<longleftrightarrow> y = Some v) \<Longrightarrow> x = y"
  by (cases x; cases y) auto

lemma map_fst_filter_fst: "map fst (filter (\<lambda>(k, v). P k) xs) = filter P (map fst xs)"
  by (induction xs) auto

lemma mset_swap_pair:
  "i < length xs \<Longrightarrow> j < length xs \<Longrightarrow> mset (xs[i := xs ! j, j := xs ! i]) = mset xs"
  by (rule mset_swap)

end
