(* ===== verification/Sampling.thy ===== *)
theory Sampling
  imports Prelude
begin

text \<open>
  The unbiased index sampler of \<open>falach-genpw\<close> (\<open>sampling.rs\<close>, \<open>error.rs\<close>): a cursor
  over a buffer of random bytes, four-byte little-endian draws and rejection sampling.
  The locale \<open>index_source\<close> is the interface the password and passphrase generators use;
  it is interpreted on the cursor at the end.
\<close>

datatype gen_error =
    InvalidLength
  | NoClassesEnabled
  | LengthTooShort nat nat
  | AlphabetEmpty
  | InvalidWordCount
  | Csprng

record byte_cursor =
  cur_bytes :: "u8 list"
  cur_pos :: nat

definition bytes_per_draw :: nat where
  "bytes_per_draw = 4"

definition new_cursor :: "u8 list \<Rightarrow> byte_cursor" where
  "new_cursor bs = \<lparr>cur_bytes = bs, cur_pos = 0\<rparr>"

definition u32_from_le :: "u8 list \<Rightarrow> nat" where
  "u32_from_le bs = foldr (\<lambda>b acc. unat b + 256 * acc) bs 0"

definition next_u32 :: "byte_cursor \<Rightarrow> gen_error fault + nat \<times> byte_cursor" where
  "next_u32 c =
     (if cur_pos c + bytes_per_draw > length (cur_bytes c) then Inl (Failed Csprng)
      else Inr (u32_from_le (take bytes_per_draw (drop (cur_pos c) (cur_bytes c))),
                c\<lparr>cur_pos := cur_pos c + bytes_per_draw\<rparr>))"

definition reject_threshold :: "nat \<Rightarrow> nat" where
  "reject_threshold r = u32_max - u32_max mod r"

function uniform_loop :: "nat \<Rightarrow> byte_cursor \<Rightarrow> gen_error fault + nat \<times> byte_cursor" where
  "uniform_loop r c =
     (case next_u32 c of
        Inl e \<Rightarrow> Inl e
      | Inr (v, c') \<Rightarrow>
          if v < reject_threshold r then Inr (v mod r, c') else uniform_loop r c')"
  by pat_completeness auto
termination
  by (relation "measure (\<lambda>(r, c). length (cur_bytes c) - cur_pos c)")
    (auto simp: next_u32_def bytes_per_draw_def split: if_splits)

declare uniform_loop.simps [simp del]

text \<open>
  \<open>uniform_index\<close> asserts a non-empty range and expects it to fit in \<open>u32\<close>; either
  failure is a panic.
\<close>

definition uniform_index :: "byte_cursor \<Rightarrow> nat \<Rightarrow> gen_error fault + nat \<times> byte_cursor" where
  "uniform_index c r = (if r = 0 \<or> u32_max < r then Inl Panic else uniform_loop r c)"

section \<open>The sampler refines a scan over the remaining draws\<close>

fun u32_chunks :: "u8 list \<Rightarrow> nat list" where
  "u32_chunks (b0 # b1 # b2 # b3 # bs) = u32_from_le [b0, b1, b2, b3] # u32_chunks bs"
| "u32_chunks _ = []"

definition draws :: "byte_cursor \<Rightarrow> nat list" where
  "draws c = u32_chunks (drop (cur_pos c) (cur_bytes c))"

fun pick :: "nat \<Rightarrow> nat list \<Rightarrow> (nat \<times> nat list) option" where
  "pick r [] = None"
| "pick r (v # vs) = (if v < reject_threshold r then Some (v mod r, vs) else pick r vs)"

lemma u32_from_le_less: "length bs = 4 \<Longrightarrow> u32_from_le bs \<le> u32_max"
proof -
  assume "length bs = 4"
  then obtain a b c d where bs: "bs = [a, b, c, d]"
    by (auto simp: numeral_eq_Suc length_Suc_conv)
  have "unat x < 2 ^ LENGTH(8)" for x :: u8
    by (rule unsigned_less)
  then have "unat x < 256" for x :: u8
    by simp
  then have "unat a < 256" "unat b < 256" "unat c < 256" "unat d < 256" by auto
  then show ?thesis by (simp add: bs u32_from_le_def u32_max_def)
qed

lemma u32_chunks_bound: "v \<in> set (u32_chunks bs) \<Longrightarrow> v \<le> u32_max"
  by (induction bs rule: u32_chunks.induct) (auto intro: u32_from_le_less)

lemma length_u32_chunks: "length (u32_chunks bs) = length bs div 4"
  by (induction bs rule: u32_chunks.induct) auto

lemma u32_chunks_drop:
  "length bs \<ge> 4 \<Longrightarrow> u32_chunks bs = u32_from_le (take 4 bs) # u32_chunks (drop 4 bs)"
  by (induction bs rule: u32_chunks.induct) (auto simp: numeral_eq_Suc)

lemma next_u32_draws:
  "next_u32 c = (case draws c of
       [] \<Rightarrow> Inl (Failed Csprng)
     | v # vs \<Rightarrow> Inr (v, c\<lparr>cur_pos := cur_pos c + 4\<rparr>))
   \<and> (draws c \<noteq> [] \<longrightarrow> draws (c\<lparr>cur_pos := cur_pos c + 4\<rparr>) = tl (draws c))"
proof (cases "cur_pos c + 4 > length (cur_bytes c)")
  case True
  then have "length (drop (cur_pos c) (cur_bytes c)) div 4 = 0" by simp
  then have "draws c = []"
    unfolding draws_def using length_u32_chunks by (metis length_0_conv)
  with True show ?thesis by (simp add: next_u32_def bytes_per_draw_def)
next
  case False
  then have "length (drop (cur_pos c) (cur_bytes c)) \<ge> 4" by simp
  from u32_chunks_drop [OF this] False show ?thesis
    by (simp add: next_u32_def bytes_per_draw_def draws_def add.commute)
qed

lemma uniform_loop_refines:
  "(case uniform_loop r c of
      Inl e \<Rightarrow> e = Failed Csprng \<and> pick r (draws c) = None
    | Inr (i, c') \<Rightarrow> pick r (draws c) = Some (i, draws c'))"
proof (induction r c rule: uniform_loop.induct)
  case (1 r c)
  show ?case
  proof (cases "draws c")
    case Nil
    with next_u32_draws [of c] show ?thesis by (simp add: uniform_loop.simps [of r c])
  next
    case (Cons v vs)
    let ?c = "c\<lparr>cur_pos := cur_pos c + 4\<rparr>"
    from next_u32_draws [of c] Cons
    have nx: "next_u32 c = Inr (v, ?c)" and dr: "draws ?c = vs" by auto
    from 1 [OF nx refl] dr Cons nx show ?thesis
      by (auto simp: uniform_loop.simps [of r c] split: sum.splits)
  qed
qed

lemma reject_threshold_gt: "0 < r \<Longrightarrow> u32_max < reject_threshold r + r"
proof -
  assume "0 < r"
  then have "u32_max mod r < r" by simp
  moreover have "u32_max mod r \<le> u32_max" by simp
  ultimately show ?thesis unfolding reject_threshold_def by linarith
qed

lemma dvd_reject_threshold: "r dvd reject_threshold r"
  by (simp add: reject_threshold_def dvd_minus_mod)

lemma pick_less: "0 < r \<Longrightarrow> pick r vs = Some (i, vs') \<Longrightarrow> i < r"
  by (induction r vs rule: pick.induct) (auto split: if_splits)

text \<open>Evaluation of a single draw, from the draws that are left.\<close>

lemma uniform_index_eval:
  assumes "draws c = v # vs" "v < reject_threshold r" "0 < r" "r \<le> u32_max"
  shows "uniform_index c r = Inr (v mod r, c\<lparr>cur_pos := cur_pos c + 4\<rparr>)"
  using next_u32_draws [of c] assms by (simp add: uniform_index_def uniform_loop.simps [of r c])

lemma uniform_index_exhausted:
  "draws c = [] \<Longrightarrow> 0 < r \<Longrightarrow> r \<le> u32_max \<Longrightarrow> uniform_index c r = Inl (Failed Csprng)"
  using next_u32_draws [of c] by (simp add: uniform_index_def uniform_loop.simps [of r c])

lemma u32_chunks_zero: "u32_chunks (replicate (4 * n) 0) = replicate n 0"
proof (induction n)
  case 0
  show ?case by simp
next
  case (Suc n)
  have "replicate (4 * Suc n) (0 :: u8) = 0 # 0 # 0 # 0 # replicate (4 * n) 0"
    by (simp add: numeral_eq_Suc)
  with Suc show ?case by (simp add: u32_from_le_def)
qed

section \<open>The sampler's interface\<close>

text \<open>
  A source of indices: a draw for a range the source supports stays inside the range, and
  while good draws are left a draw succeeds and uses up at most one of them.
\<close>

locale index_source =
  fixes uniform :: "'s \<Rightarrow> nat \<Rightarrow> 'e + nat \<times> 's"
    and good :: "'s \<Rightarrow> nat"
    and supported :: "nat \<Rightarrow> bool"
  assumes uniform_less: "supported r \<Longrightarrow> uniform s r = Inr (i, s') \<Longrightarrow> i < r"
    and uniform_good: "supported r \<Longrightarrow> 0 < good s \<Longrightarrow>
      \<exists>i s'. uniform s r = Inr (i, s') \<and> good s \<le> Suc (good s')"

text \<open>
  The loop shape all generators share: for each element, an optional early error, one
  draw for the element's range, one update of the output.
\<close>

fun draw_loop :: "('s \<Rightarrow> nat \<Rightarrow> 'e + nat \<times> 's) \<Rightarrow> ('x \<Rightarrow> 'e option) \<Rightarrow> ('x \<Rightarrow> nat) \<Rightarrow>
    ('x \<Rightarrow> nat \<Rightarrow> 'o \<Rightarrow> 'o) \<Rightarrow> 'x list \<Rightarrow> 's \<Rightarrow> 'o \<Rightarrow> 'e + 'o \<times> 's" where
  "draw_loop u chk rng upd [] s out = Inr (out, s)"
| "draw_loop u chk rng upd (x # xs) s out =
     (case chk x of
        Some e \<Rightarrow> Inl e
      | None \<Rightarrow> rbind (u s (rng x)) (\<lambda>(i, s'). draw_loop u chk rng upd xs s' (upd x i out)))"

context index_source
begin

lemma draw_loop_inv:
  assumes "draw_loop uniform chk rng upd xs s out = Inr (out', s')"
    and "I xs out"
    and "\<And>x ys i o'. x \<in> set xs \<Longrightarrow> i < rng x \<Longrightarrow> I (x # ys) o' \<Longrightarrow> I ys (upd x i o')"
    and "\<And>x. x \<in> set xs \<Longrightarrow> chk x = None \<Longrightarrow> supported (rng x)"
  shows "I [] out'"
  using assms
proof (induction xs arbitrary: s out)
  case Nil
  then show ?case by simp
next
  case (Cons x xs)
  from Cons.prems(1) obtain i s1 where chk: "chk x = None" and u: "uniform s (rng x) = Inr (i, s1)"
    and rest: "draw_loop uniform chk rng upd xs s1 (upd x i out) = Inr (out', s')"
    by (auto simp: rbind_eq_Inr split: option.splits)
  have "i < rng x" using uniform_less u chk Cons.prems(4) by auto
  then have "I xs (upd x i out)" using Cons.prems(2,3) by auto
  from Cons.IH [OF rest this] Cons.prems(3,4) show ?case by auto
qed

lemma draw_loop_ok:
  assumes "length xs \<le> good s"
    and "\<And>x. x \<in> set xs \<Longrightarrow> chk x = None \<and> supported (rng x)"
  shows "\<exists>out' s'. draw_loop uniform chk rng upd xs s out = Inr (out', s')
    \<and> good s \<le> good s' + length xs"
  using assms
proof (induction xs arbitrary: s out)
  case Nil
  then show ?case by simp
next
  case (Cons x xs)
  from uniform_good [of "rng x" s] Cons.prems obtain i s1
    where u: "uniform s (rng x) = Inr (i, s1)" and g: "good s \<le> Suc (good s1)" by auto
  with Cons.prems have "length xs \<le> good s1" by simp
  from Cons.IH [OF this, of "upd x i out"] Cons.prems(2) u g show ?case by fastforce
qed

end

text \<open>A source that fails only because it is exhausted.\<close>

locale exhaustible_source = index_source +
  fixes exhausted :: 'e
  assumes uniform_error: "supported r \<Longrightarrow> uniform s r = Inl e \<Longrightarrow> e = exhausted"
begin

lemma draw_loop_error:
  assumes "draw_loop uniform chk rng upd xs s out = Inl e"
    and "\<And>x. x \<in> set xs \<Longrightarrow> chk x = None \<and> supported (rng x)"
  shows "e = exhausted"
  using assms
proof (induction xs arbitrary: s out)
  case Nil
  then show ?case by simp
next
  case (Cons x xs)
  then have "chk x = None" "supported (rng x)" by auto
  with Cons show ?case by (auto simp: rbind_eq_Inl dest: uniform_error)
qed

end

text \<open>
  A draw below \<open>u32_max - b\<close> is accepted for every range up to \<open>b\<close>: the good draws left
  in a cursor.
\<close>

definition good_draws :: "nat \<Rightarrow> byte_cursor \<Rightarrow> nat" where
  "good_draws b c = length (filter (\<lambda>v. v + b \<le> u32_max) (draws c))"

definition range_upto :: "nat \<Rightarrow> nat \<Rightarrow> bool" where
  "range_upto b r = (0 < r \<and> r \<le> b \<and> r \<le> u32_max)"

lemma pick_good:
  assumes "0 < r" "r \<le> b" "0 < length (filter (\<lambda>v. v + b \<le> u32_max) vs)"
  shows "\<exists>i vs'. pick r vs = Some (i, vs') \<and>
    length (filter (\<lambda>v. v + b \<le> u32_max) vs) \<le> Suc (length (filter (\<lambda>v. v + b \<le> u32_max) vs'))"
  using assms(3)
proof (induction vs)
  case Nil
  then show ?case by simp
next
  case (Cons v vs)
  show ?case
  proof (cases "v < reject_threshold r")
    case True
    then show ?thesis by auto
  next
    case False
    with reject_threshold_gt [OF assms(1)] assms(2) have "\<not> v + b \<le> u32_max" by simp
    with Cons False show ?thesis by auto
  qed
qed

interpretation cursor: index_source uniform_index "good_draws b" "range_upto b" for b
proof
  fix r c i c'
  assume "range_upto b r" and "uniform_index c r = Inr (i, c')"
  then show "i < r"
    using uniform_loop_refines [of r c] pick_less [of r "draws c" i "draws c'"]
    by (auto simp: uniform_index_def range_upto_def split: if_splits)
next
  fix r c
  assume r: "range_upto b r" and g: "0 < good_draws b c"
  then obtain i vs' where "pick r (draws c) = Some (i, vs')"
    and "good_draws b c \<le> Suc (length (filter (\<lambda>v. v + b \<le> u32_max) vs'))"
    using pick_good [of r b "draws c"] by (auto simp: range_upto_def good_draws_def)
  with r uniform_loop_refines [of r c]
  show "\<exists>i s'. uniform_index c r = Inr (i, s') \<and> good_draws b c \<le> Suc (good_draws b s')"
    by (auto simp: uniform_index_def range_upto_def good_draws_def split: sum.splits)
qed

interpretation ecursor: exhaustible_source uniform_index "good_draws b" "range_upto b" "Failed Csprng" for b
proof
  fix r c e
  assume "range_upto b r" and "uniform_index c r = Inl e"
  then show "e = Failed Csprng"
    using uniform_loop_refines [of r c]
    by (auto simp: uniform_index_def range_upto_def split: if_splits)
qed

section \<open>Counting the random buffers\<close>

text \<open>Four bytes and the number they encode determine each other.\<close>

definition quads :: "nat set \<Rightarrow> u8 list set" where
  "quads S = {bs. length bs = 4 \<and> u32_from_le bs \<in> S}"

lemma finite_buffers: "finite {bs :: u8 list. length bs = n}"
  using finite_lists_length_eq [of "UNIV :: u8 set" n] by simp

lemma card_buffers: "card {bs :: u8 list. length bs = n} = 256 ^ n"
proof -
  have "card {bs :: u8 list. set bs \<subseteq> UNIV \<and> length bs = n} = card (UNIV :: u8 set) ^ n"
    by (rule card_lists_length_eq) simp
  then show ?thesis by (simp add: card_word)
qed

lemma u32_from_le_inj: "inj_on u32_from_le {bs. length bs = 4}"
proof (rule inj_onI)
  fix xs ys :: "u8 list"
  assume "xs \<in> {bs. length bs = 4}" "ys \<in> {bs. length bs = 4}" and eq: "u32_from_le xs = u32_from_le ys"
  then obtain a b c d a' b' c' d' where xs: "xs = [a, b, c, d]" and ys: "ys = [a', b', c', d']"
    by (auto simp: numeral_eq_Suc length_Suc_conv)
  have less: "unat x < 256" for x :: u8 using unsigned_less [of x] by simp
  have step: "x = y \<and> m = n" if "unat x + 256 * m = unat y + 256 * n" for x y :: u8 and m n
  proof -
    have eq: "unat x = unat y" using arg_cong [OF that, of "\<lambda>k. k mod 256"] less [of x] less [of y] by simp
    then have "x = y" by (simp add: word_unat_eq_iff)
    with eq show ?thesis using that by simp
  qed
  have "unat a + 256 * (unat b + 256 * (unat c + 256 * unat d)) = unat a' + 256 * (unat b' + 256 * (unat c' + 256 * unat d'))"
    using eq by (simp add: xs ys u32_from_le_def)
  from step [OF this] have a: "a = a'" and "unat b + 256 * (unat c + 256 * unat d) = unat b' + 256 * (unat c' + 256 * unat d')"
    by blast+
  from step [OF this(2)] have b: "b = b'" and "unat c + 256 * unat d = unat c' + 256 * unat d'" by blast+
  from step [OF this(2)] have "c = c'" "unat d = unat d'" by blast+
  then show "xs = ys" using a b by (simp add: xs ys word_unat_eq_iff)
qed

lemma u32_from_le_onto: "u32_from_le ` {bs. length bs = 4} = {..u32_max}"
proof (rule card_subset_eq)
  show "u32_from_le ` {bs. length bs = 4} \<subseteq> {..u32_max}" using u32_from_le_less by auto
  show "card (u32_from_le ` {bs. length bs = 4}) = card {..u32_max}"
    using card_image [OF u32_from_le_inj] card_buffers [of 4] by (simp add: u32_max_def)
qed simp

lemma card_quads: "S \<subseteq> {..u32_max} \<Longrightarrow> card (quads S) = card S"
proof -
  assume S: "S \<subseteq> {..u32_max}"
  have "u32_from_le ` quads S = S"
  proof
    show "S \<subseteq> u32_from_le ` quads S"
    proof
      fix v assume v: "v \<in> S"
      with S have "v \<in> u32_from_le ` {bs. length bs = 4}" unfolding u32_from_le_onto by blast
      with v show "v \<in> u32_from_le ` quads S" by (auto simp: quads_def)
    qed
  qed (auto simp: quads_def)
  moreover have "inj_on u32_from_le (quads S)"
    by (rule inj_on_subset [OF u32_from_le_inj]) (auto simp: quads_def)
  ultimately show ?thesis using card_image by fastforce
qed

lemma finite_quads: "finite (quads S)"
  by (rule finite_subset [OF _ finite_buffers [of 4]]) (auto simp: quads_def)

text \<open>The buffers of \<open>n\<close> bytes on which the sampler answers \<open>i\<close>, and those it runs out of.\<close>

definition buffers_for :: "nat \<Rightarrow> nat \<Rightarrow> nat \<Rightarrow> u8 list set" where
  "buffers_for r n i = {bs. length bs = n \<and> (\<exists>c. uniform_index (new_cursor bs) r = Inr (i, c))}"

definition failing_buffers :: "nat \<Rightarrow> nat \<Rightarrow> u8 list set" where
  "failing_buffers r n = {bs. length bs = n \<and> (\<forall>i c. uniform_index (new_cursor bs) r \<noteq> Inr (i, c))}"

lemma answers_pick:
  assumes "0 < r" "r \<le> u32_max"
  shows "buffers_for r n i = {bs. length bs = n \<and> (\<exists>vs. pick r (u32_chunks bs) = Some (i, vs))}"
    and "failing_buffers r n = {bs. length bs = n \<and> pick r (u32_chunks bs) = None}"
proof -
  have "(\<exists>c. uniform_index (new_cursor bs) r = Inr (i, c)) \<longleftrightarrow> (\<exists>vs. pick r (u32_chunks bs) = Some (i, vs))" for bs i
    using uniform_loop_refines [of r "new_cursor bs"] assms
    by (auto simp: uniform_index_def draws_def new_cursor_def split: sum.splits)
  then show "buffers_for r n i = {bs. length bs = n \<and> (\<exists>vs. pick r (u32_chunks bs) = Some (i, vs))}"
    and "failing_buffers r n = {bs. length bs = n \<and> pick r (u32_chunks bs) = None}"
    by (auto simp: buffers_for_def failing_buffers_def not_Some_eq [symmetric] simp del: not_Some_eq)
qed

text \<open>The first draw of a buffer decides, or it is rejected and the rest of the buffer does.\<close>

lemma appended:
  fixes A :: "u8 list set"
  assumes "A \<subseteq> {bs. length bs = 4}"
  shows "card ((\<lambda>(b, bs). b @ bs) ` (A \<times> B)) = card A * card B"
proof -
  have "inj_on (\<lambda>(b, bs). b @ bs) (A \<times> B)" using assms
    by (auto simp: inj_on_def) (metis (mono_tags, lifting) append_eq_append_conv mem_Collect_eq subsetD)+
  then show ?thesis by (simp add: card_image card_cartesian_product)
qed

lemma split_buffer:
  fixes bs :: "u8 list"
  assumes "length bs = n + 4"
  shows "\<exists>b rest. bs = b @ rest \<and> length b = 4 \<and> length rest = n \<and> u32_chunks bs = u32_from_le b # u32_chunks rest"
  using u32_chunks_drop [of bs] assms by (intro exI [of _ "take 4 bs"] exI [of _ "drop 4 bs"]) simp

lemma u32_chunks_append: "length b = 4 \<Longrightarrow> u32_chunks (b @ rest) = u32_from_le b # u32_chunks rest"
  using u32_chunks_drop [of "b @ rest"] by simp

abbreviation accepted_draws :: "nat \<Rightarrow> nat \<Rightarrow> nat set" where
  "accepted_draws r i \<equiv> {v. v < reject_threshold r \<and> v mod r = i}"

abbreviation rejected_draws :: "nat \<Rightarrow> nat set" where
  "rejected_draws r \<equiv> {v. v \<le> u32_max \<and> \<not> v < reject_threshold r}"

lemma answers_split:
  assumes r: "0 < r" "r \<le> u32_max"
  shows "buffers_for r (n + 4) i = (\<lambda>(b, bs). b @ bs) ` (quads (accepted_draws r i) \<times> {bs. length bs = n})
      \<union> (\<lambda>(b, bs). b @ bs) ` (quads (rejected_draws r) \<times> buffers_for r n i)" (is "_ = ?A \<union> ?B")
    and "failing_buffers r (n + 4) = (\<lambda>(b, bs). b @ bs) ` (quads (rejected_draws r) \<times> failing_buffers r n)" (is "_ = ?F")
proof -
  have le: "length b = 4 \<Longrightarrow> u32_from_le b \<le> u32_max" for b by (rule u32_from_le_less)
  have "bs \<in> ?A \<union> ?B" if "bs \<in> buffers_for r (n + 4) i" for bs
  proof -
    from that split_buffer [of bs n] obtain b rest where "bs = b @ rest" "length b = 4" "length rest = n"
      "u32_chunks bs = u32_from_le b # u32_chunks rest" by (auto simp: answers_pick [OF r])
    with that le [of b] show ?thesis by (auto simp: answers_pick [OF r] quads_def image_iff split: if_splits)
  qed
  then show "buffers_for r (n + 4) i = ?A \<union> ?B"
    by (auto simp: answers_pick [OF r] quads_def u32_chunks_append)
  have "bs \<in> ?F" if "bs \<in> failing_buffers r (n + 4)" for bs
  proof -
    from that split_buffer [of bs n] obtain b rest where "bs = b @ rest" "length b = 4" "length rest = n"
      "u32_chunks bs = u32_from_le b # u32_chunks rest" by (auto simp: answers_pick [OF r])
    with that le [of b] show ?thesis by (auto simp: answers_pick [OF r] quads_def image_iff split: if_splits)
  qed
  then show "failing_buffers r (n + 4) = ?F"
    by (auto simp: answers_pick [OF r] quads_def u32_chunks_append)
qed

lemma card_accepted:
  assumes "0 < r" "i < r"
  shows "card (accepted_draws r i) = reject_threshold r div r"
proof -
  let ?q = "reject_threshold r div r"
  have t: "reject_threshold r = ?q * r" using dvd_reject_threshold by simp
  have "accepted_draws r i = (\<lambda>k. k * r + i) ` {..<?q}"
  proof (rule set_eqI, rule iffI)
    fix v assume v: "v \<in> accepted_draws r i"
    then have "v < ?q * r" using t by simp
    then have "v div r < ?q" by (rule less_mult_imp_div_less)
    moreover have "v = v div r * r + i" using v div_mult_mod_eq [of v r] by simp
    ultimately show "v \<in> (\<lambda>k. k * r + i) ` {..<?q}" by blast
  next
    fix v assume "v \<in> (\<lambda>k. k * r + i) ` {..<?q}"
    then obtain k where k: "k < ?q" and v: "v = k * r + i" by auto
    from k have "Suc k * r \<le> ?q * r" by (intro mult_le_mono1) simp
    with v assms(2) have "v < ?q * r" by simp
    with v assms(2) t show "v \<in> accepted_draws r i" by simp
  qed
  moreover have "inj_on (\<lambda>k. k * r + i) {..<?q}" using assms(1) by (auto simp: inj_on_def)
  ultimately show ?thesis by (simp add: card_image)
qed

lemma card_rejected: "0 < r \<Longrightarrow> card (rejected_draws r) \<le> r"
proof -
  assume "0 < r"
  have "rejected_draws r = {reject_threshold r..u32_max}" by auto
  then show ?thesis using reject_threshold_gt [OF \<open>0 < r\<close>] by simp
qed

lemma finite_answers: "finite (buffers_for r n i)"
  by (rule finite_subset [OF _ finite_buffers [of n]]) (auto simp: buffers_for_def)

lemma card_answers_step:
  assumes r: "0 < r" "r \<le> u32_max" and i: "i < r"
  shows "card (buffers_for r (n + 4) i) = reject_threshold r div r * 256 ^ n + card (rejected_draws r) * card (buffers_for r n i)"
proof -
  let ?app = "\<lambda>(b, bs). b @ bs :: u8 list"
  let ?A = "?app ` (quads (accepted_draws r i) \<times> {bs. length bs = n})" and ?B = "?app ` (quads (rejected_draws r) \<times> buffers_for r n i)"
  have len: "quads S \<subseteq> {bs. length bs = 4}" for S by (auto simp: quads_def)
  have "?A \<inter> ?B = {}" by (auto simp: quads_def append_eq_append_conv)
  moreover have "finite ?A" "finite ?B" using finite_quads finite_buffers finite_answers by auto
  moreover have "card (quads (accepted_draws r i)) = reject_threshold r div r"
    using card_quads [of "accepted_draws r i"] card_accepted [OF r(1) i] by (fastforce simp: reject_threshold_def)
  moreover have "card (quads (rejected_draws r)) = card (rejected_draws r)" by (rule card_quads) auto
  ultimately show ?thesis
    unfolding answers_split(1) [OF r] using appended [OF len] card_buffers [of n] by (simp add: card_Un_disjoint)
qed

lemma short_buffers: "n < 4 \<Longrightarrow> length bs = n \<Longrightarrow> u32_chunks bs = []"
  using length_u32_chunks [of bs] by simp

lemma card_answers_same:
  assumes r: "0 < r" "r \<le> u32_max" and i: "i < r" "j < r"
  shows "card (buffers_for r n i) = card (buffers_for r n j)"
proof (induction n rule: less_induct)
  case (less n)
  show ?case
  proof (cases "n < 4")
    case True
    then have "buffers_for r n k = {}" for k by (auto simp: answers_pick [OF r] short_buffers)
    then show ?thesis by simp
  next
    case False
    then show ?thesis
      using less [of "n - 4"] card_answers_step [OF r i(1), of "n - 4"] card_answers_step [OF r i(2), of "n - 4"] by simp
  qed
qed

lemma card_failures:
  assumes r: "0 < r" "r \<le> u32_max"
  shows "card (failing_buffers r (4 * k)) \<le> r ^ k"
proof (induction k)
  case 0
  have "failing_buffers r 0 \<subseteq> {[]}" by (auto simp: failing_buffers_def)
  then show ?case using card_mono [of "{[] :: u8 list}"] by fastforce
next
  case (Suc k)
  have len: "quads (rejected_draws r) \<subseteq> {bs. length bs = 4}" by (auto simp: quads_def)
  have "card (failing_buffers r (4 * k + 4)) = card (rejected_draws r) * card (failing_buffers r (4 * k))"
    unfolding answers_split(2) [OF r] using len card_quads [of "rejected_draws r"] by (subst appended) auto
  also have "\<dots> \<le> r * r ^ k" using card_rejected [OF r(1)] Suc by (rule mult_le_mono)
  finally show ?case by (simp add: add.commute)
qed

section \<open>Properties\<close>

text \<open>C20: the sampler is unbiased. Over all buffers of \<open>n\<close> random bytes, every index of the range is what
  \<open>uniform_index\<close> answers on equally many, whatever draws its loop had to reject before. It runs out of a buffer of
  \<open>k\<close> draws on at most \<open>r\<^sup>k\<close> of the \<open>2\<^sup>3\<^sup>2\<^sup>k\<close> buffers, and it never fails otherwise.\<close>

theorem uniform_index_unbiased:
  assumes "0 < r" and "r \<le> u32_max" and "i < r" and "j < r"
  shows "card {bs. length bs = n \<and> (\<exists>c. uniform_index (new_cursor bs) r = Inr (i, c))}
      = card {bs. length bs = n \<and> (\<exists>c. uniform_index (new_cursor bs) r = Inr (j, c))}
    \<and> card {bs. length bs = 4 * k \<and> (\<forall>i c. uniform_index (new_cursor bs) r \<noteq> Inr (i, c))} \<le> r ^ k"
  using card_answers_same [OF assms, of n] card_failures [OF assms(1,2), of k] unfolding buffers_for_def failing_buffers_def by blast

theorem uniform_index_unbiased_witness:
  "card {bs. length bs = 8 \<and> (\<exists>c. uniform_index (new_cursor bs) 62 = Inr (5, c))}
      = card {bs. length bs = 8 \<and> (\<exists>c. uniform_index (new_cursor bs) 62 = Inr (61, c))}
    \<and> card {bs. length bs = 4 * 2 \<and> (\<forall>i c. uniform_index (new_cursor bs) 62 \<noteq> Inr (i, c))} \<le> 62 ^ 2"
  by (rule uniform_index_unbiased) (simp_all add: u32_max_def)

end
