(* ===== verification/Passwords.thy ===== *)
theory Passwords
  imports Sampling
begin

text \<open>
  Password and passphrase generation of \<open>falach-genpw\<close>: \<open>charset.rs\<close>, \<open>password.rs\<close>,
  \<open>passphrase.rs\<close>. The word list file embedded by \<open>wordlist.rs\<close> is data: the passphrase
  model takes the list of words as an argument. The operating system's random source
  (\<open>getrandom\<close>) is the argument \<open>rnd\<close>: \<open>None\<close> when it fails, else a buffer.
\<close>

section \<open>Character sets (charset.rs)\<close>

definition lowercase_chars :: string where
  "lowercase_chars = ''abcdefghijklmnopqrstuvwxyz''"

definition uppercase_chars :: string where
  "uppercase_chars = ''ABCDEFGHIJKLMNOPQRSTUVWXYZ''"

definition digit_chars :: string where
  "digit_chars = ''0123456789''"

definition symbol_chars :: string where
  "symbol_chars = ''!@#$%^&*()-_=+[]{};:,.<>?/~''"

definition ambiguous_chars :: string where
  "ambiguous_chars = ''0Oo1lI|`''"

record char_set =
  cs_lowercase :: bool
  cs_uppercase :: bool
  cs_digits :: bool
  cs_symbols :: bool

definition all_classes :: char_set where
  "all_classes = \<lparr>cs_lowercase = True, cs_uppercase = True, cs_digits = True, cs_symbols = True\<rparr>"

definition popcount :: "char_set \<Rightarrow> nat" where
  "popcount cs = of_bool (cs_lowercase cs) + of_bool (cs_uppercase cs)
     + of_bool (cs_digits cs) + of_bool (cs_symbols cs)"

definition filter_ambiguous :: "string \<Rightarrow> bool \<Rightarrow> string" where
  "filter_ambiguous raw exclude =
     (if exclude then filter (\<lambda>c. c \<notin> set ambiguous_chars) raw else raw)"

definition enabled_classes :: "char_set \<Rightarrow> bool \<Rightarrow> (string \<times> string) list" where
  "enabled_classes cs exclude =
     map (\<lambda>(name, _, raw). (name, filter_ambiguous raw exclude))
       (filter (\<lambda>(_, enabled, _). enabled)
         [(''lowercase'', cs_lowercase cs, lowercase_chars),
          (''uppercase'', cs_uppercase cs, uppercase_chars),
          (''digits'', cs_digits cs, digit_chars),
          (''symbols'', cs_symbols cs, symbol_chars)])"

definition alphabet :: "char_set \<Rightarrow> bool \<Rightarrow> string" where
  "alphabet cs exclude = concat (map snd (enabled_classes cs exclude))"

section \<open>The password builder (password.rs)\<close>

record password_builder =
  pb_length :: nat
  pb_classes :: char_set
  pb_exclude_ambiguous :: bool

definition default_builder :: password_builder where
  "default_builder = \<lparr>pb_length = 20, pb_classes = all_classes, pb_exclude_ambiguous = False\<rparr>"

definition validate_password :: "password_builder \<Rightarrow> gen_error fault + unit" where
  "validate_password b =
     (if pb_length b = 0 then Inl (Failed InvalidLength)
      else if popcount (pb_classes b) = 0 then Inl (Failed NoClassesEnabled)
      else if pb_length b < popcount (pb_classes b)
        then Inl (Failed (LengthTooShort (pb_length b) (popcount (pb_classes b))))
      else Inr ())"

definition list_swap :: "nat \<Rightarrow> nat \<Rightarrow> 'a list \<Rightarrow> 'a list" where
  "list_swap i j xs = xs[i := xs ! j, j := xs ! i]"

text \<open>The three loops of \<open>generate_from_bytes\<close>: reserve, fill, Fisher-Yates shuffle.\<close>

definition reserve_loop ::
    "(string \<times> string) list \<Rightarrow> byte_cursor \<Rightarrow> string \<Rightarrow> gen_error fault + string \<times> byte_cursor" where
  "reserve_loop = draw_loop uniform_index
     (\<lambda>(_, cls). if cls = [] then Some (Failed AlphabetEmpty) else None)
     (\<lambda>(_, cls). length cls)
     (\<lambda>(_, cls) idx out. out @ [cls ! idx])"

definition fill_loop ::
    "string \<Rightarrow> nat \<Rightarrow> byte_cursor \<Rightarrow> string \<Rightarrow> gen_error fault + string \<times> byte_cursor" where
  "fill_loop alpha remaining = draw_loop uniform_index (\<lambda>_. None) (\<lambda>_. length alpha)
     (\<lambda>_ idx out. out @ [alpha ! idx]) [0..<remaining]"

definition shuffle_loop ::
    "nat \<Rightarrow> byte_cursor \<Rightarrow> string \<Rightarrow> gen_error fault + string \<times> byte_cursor" where
  "shuffle_loop n = draw_loop uniform_index (\<lambda>_. None) (\<lambda>i. i + 1)
     (\<lambda>i j out. list_swap i j out) (rev [1..<n])"

definition password_from_bytes :: "password_builder \<Rightarrow> u8 list \<Rightarrow> gen_error fault + string" where
  "password_from_bytes b bytes =
     rbind (validate_password b) (\<lambda>_.
       let alpha = alphabet (pb_classes b) (pb_exclude_ambiguous b);
           classes = enabled_classes (pb_classes b) (pb_exclude_ambiguous b)
       in if alpha = [] then Inl (Failed AlphabetEmpty)
          else rbind (reserve_loop classes (new_cursor bytes) []) (\<lambda>(out, c).
               rbind (fill_loop alpha (pb_length b - popcount (pb_classes b)) c out) (\<lambda>(out, c).
               rbind (shuffle_loop (length out) c out) (\<lambda>(out, c). Inr out))))"

definition usize_saturate :: "nat \<Rightarrow> nat" where
  "usize_saturate n = min n u64_max"

definition oversample :: nat where
  "oversample = 64"

definition password_entropy :: "password_builder \<Rightarrow> nat" where
  "password_entropy b =
     usize_saturate (usize_saturate (usize_saturate (pb_length b * 2) + oversample) * bytes_per_draw)"

definition generate_password ::
    "(nat \<Rightarrow> u8 list option) \<Rightarrow> password_builder \<Rightarrow> gen_error fault + string" where
  "generate_password rnd b =
     rbind (validate_password b) (\<lambda>_.
       case rnd (password_entropy b) of
         None \<Rightarrow> Inl (Failed Csprng)
       | Some bytes \<Rightarrow> password_from_bytes b bytes)"

section \<open>The passphrase builder (passphrase.rs)\<close>

record passphrase_builder =
  pp_words :: nat
  pp_separator :: string

definition validate_passphrase :: "passphrase_builder \<Rightarrow> gen_error fault + unit" where
  "validate_passphrase b =
     (if pp_words b = 0 then Inl (Failed InvalidWordCount) else Inr ())"

fun join_with :: "string \<Rightarrow> string list \<Rightarrow> string" where
  "join_with sep [] = []"
| "join_with sep [w] = w"
| "join_with sep (w # ws) = w @ sep @ join_with sep ws"

definition words_loop ::
    "string list \<Rightarrow> nat \<Rightarrow> byte_cursor \<Rightarrow> gen_error fault + string list \<times> byte_cursor" where
  "words_loop wordlist n c = draw_loop uniform_index (\<lambda>_. None) (\<lambda>_. length wordlist)
     (\<lambda>_ idx out. out @ [wordlist ! idx]) [0..<n] c []"

definition passphrase_from_bytes ::
    "string list \<Rightarrow> passphrase_builder \<Rightarrow> u8 list \<Rightarrow> gen_error fault + string" where
  "passphrase_from_bytes wordlist b bytes =
     rbind (validate_passphrase b) (\<lambda>_.
       rbind (words_loop wordlist (pp_words b) (new_cursor bytes)) (\<lambda>(chosen, c).
         Inr (join_with (pp_separator b) chosen)))"

definition passphrase_entropy :: "passphrase_builder \<Rightarrow> nat" where
  "passphrase_entropy b =
     usize_saturate (usize_saturate (pp_words b + oversample) * bytes_per_draw)"

definition generate_passphrase ::
    "(nat \<Rightarrow> u8 list option) \<Rightarrow> string list \<Rightarrow> passphrase_builder \<Rightarrow> gen_error fault + string" where
  "generate_passphrase rnd wordlist b =
     rbind (validate_passphrase b) (\<lambda>_.
       case rnd (passphrase_entropy b) of
         None \<Rightarrow> Inl (Failed Csprng)
       | Some bytes \<Rightarrow> passphrase_from_bytes wordlist b bytes)"

section \<open>Lemmas on the loops\<close>

definition class_union_bound :: nat where
  "class_union_bound = 89"

lemma length_enabled [simp]: "length (enabled_classes cs ex) = popcount cs"
  by (simp add: enabled_classes_def popcount_def)

lemma length_filter_ambiguous: "length (filter_ambiguous raw ex) \<le> length raw"
  by (simp add: filter_ambiguous_def)

lemma filter_ambiguous_nonempty:
  "filter_ambiguous lowercase_chars ex \<noteq> []" "filter_ambiguous uppercase_chars ex \<noteq> []"
  "filter_ambiguous digit_chars ex \<noteq> []" "filter_ambiguous symbol_chars ex \<noteq> []"
  by (simp_all add: filter_ambiguous_def lowercase_chars_def uppercase_chars_def digit_chars_def
      symbol_chars_def ambiguous_chars_def)

lemma length_classes:
  "length lowercase_chars = 26" "length uppercase_chars = 26"
  "length digit_chars = 10" "length symbol_chars = 27"
  by (simp_all add: lowercase_chars_def uppercase_chars_def digit_chars_def symbol_chars_def)

lemma enabled_class_cases:
  "(n, cls) \<in> set (enabled_classes cs ex) \<Longrightarrow>
   \<exists>raw \<in> {lowercase_chars, uppercase_chars, digit_chars, symbol_chars}. cls = filter_ambiguous raw ex"
  by (auto simp: enabled_classes_def split: if_splits)

lemma enabled_class_nonempty:
  assumes "(n, cls) \<in> set (enabled_classes cs ex)"
  shows "0 < length cls \<and> length cls \<le> class_union_bound"
proof -
  from enabled_class_cases [OF assms] obtain raw where
    raw: "raw \<in> {lowercase_chars, uppercase_chars, digit_chars, symbol_chars}"
    and cls: "cls = filter_ambiguous raw ex" by blast
  have "length raw \<le> 27" using raw length_classes by auto
  with length_filter_ambiguous [of raw ex] have "length cls \<le> class_union_bound"
    by (simp add: cls class_union_bound_def)
  moreover have "cls \<noteq> []" using raw filter_ambiguous_nonempty cls by auto
  ultimately show ?thesis by simp
qed

lemma alphabet_alt:
  "alphabet cs ex =
     (if cs_lowercase cs then filter_ambiguous lowercase_chars ex else [])
   @ (if cs_uppercase cs then filter_ambiguous uppercase_chars ex else [])
   @ (if cs_digits cs then filter_ambiguous digit_chars ex else [])
   @ (if cs_symbols cs then filter_ambiguous symbol_chars ex else [])"
  by (simp add: alphabet_def enabled_classes_def)

lemma length_alphabet: "length (alphabet cs ex) \<le> class_union_bound"
  using length_filter_ambiguous [of lowercase_chars ex] length_filter_ambiguous [of uppercase_chars ex]
    length_filter_ambiguous [of digit_chars ex] length_filter_ambiguous [of symbol_chars ex]
  by (simp add: alphabet_alt class_union_bound_def length_classes)

lemma alphabet_nonempty: "0 < popcount cs \<Longrightarrow> alphabet cs ex \<noteq> []"
  using enabled_class_nonempty [of _ _ cs ex] length_enabled [of cs ex]
  by (cases "enabled_classes cs ex") (fastforce simp: alphabet_def)+

lemma mset_list_swap: "i < length xs \<Longrightarrow> j < length xs \<Longrightarrow> mset (list_swap i j xs) = mset xs"
  by (simp add: list_swap_def mset_swap_pair)

lemma reserve_spec:
  assumes "reserve_loop cls c out = Inr (out', c')"
    and "\<forall>(n, s) \<in> set cls. length s \<le> u32_max"
  shows "length out' = length out + length cls
    \<and> set out \<subseteq> set out' \<and> set out' \<subseteq> set out \<union> set (concat (map snd cls))
    \<and> (\<forall>(n, s) \<in> set cls. \<exists>x \<in> set out'. x \<in> set s)"
proof -
  let ?I = "\<lambda>rest o'. length o' + length rest = length out + length cls \<and> set out \<subseteq> set o'
    \<and> set o' \<subseteq> set out \<union> set (concat (map snd cls))
    \<and> (\<forall>(n, s) \<in> set cls. (n, s) \<in> set rest \<or> (\<exists>x \<in> set o'. x \<in> set s))"
  have "?I [] out'"
  proof (rule cursor.draw_loop_inv [OF assms(1) [unfolded reserve_loop_def],
        where b = u32_max and I = ?I])
    show "?I cls out" by auto
  next
    fix x ys i o'
    assume x: "x \<in> set cls" and i: "i < (case x of (_, s) \<Rightarrow> length s)" and I: "?I (x # ys) o'"
    obtain n s where xs: "x = (n, s)" by (cases x)
    with i have "s ! i \<in> set s" by simp
    with x xs I show "?I ys ((case x of (_, s) \<Rightarrow> \<lambda>idx out. out @ [s ! idx]) i o')"
      by fastforce
  next
    fix x
    assume "x \<in> set cls" and "(case x of (_, s) \<Rightarrow> if s = [] then Some (Failed AlphabetEmpty) else None) = None"
    with assms(2) show "range_upto u32_max (case x of (_, s) \<Rightarrow> length s)"
      by (auto simp: range_upto_def split: if_splits)
  qed
  then show ?thesis by auto
qed

lemma fill_spec:
  assumes "fill_loop alpha n c out = Inr (out', c')" and "0 < length alpha" "length alpha \<le> u32_max"
  shows "length out' = length out + n \<and> set out \<subseteq> set out' \<and> set out' \<subseteq> set out \<union> set alpha"
proof -
  let ?I = "\<lambda>(rest :: nat list) o'. length o' + length rest = length out + n \<and> set out \<subseteq> set o'
    \<and> set o' \<subseteq> set out \<union> set alpha"
  have "?I [] out'"
    by (rule cursor.draw_loop_inv [OF assms(1) [unfolded fill_loop_def],
        where b = u32_max and I = ?I])
      (use assms(2,3) in \<open>auto simp: range_upto_def\<close>)
  then show ?thesis by simp
qed

lemma shuffle_spec:
  assumes "shuffle_loop n c out = Inr (out', c')" and "n = length out" "n \<le> u32_max"
  shows "mset out' = mset out"
proof -
  let ?I = "\<lambda>(rest :: nat list) o'. mset o' = mset out"
  have "?I [] out'"
  proof (rule cursor.draw_loop_inv [OF assms(1) [unfolded shuffle_loop_def],
        where b = u32_max and I = ?I])
    fix x :: nat and ys :: "nat list" and i o'
    assume x: "x \<in> set (rev [1..<n])" and i: "i < x + 1" and I: "mset o' = mset out"
    from I have "length o' = length out" by (rule mset_eq_length)
    with x i assms(2) have "x < length o'" "i < length o'" by auto
    with I show "mset (list_swap x i o') = mset out" by (simp add: mset_list_swap)
  qed (use assms(3) in \<open>auto simp: range_upto_def\<close>)
  then show ?thesis .
qed

lemma length_shuffle:
  "shuffle_loop n c out = Inr (out', c') \<Longrightarrow> n = length out \<Longrightarrow> n \<le> u32_max \<Longrightarrow>
   length out' = length out"
  by (rule mset_eq_length) (rule shuffle_spec)


section \<open>Properties\<close>

lemma popcount_pos:
  "validate_password b = Inr () \<Longrightarrow> 0 < popcount (pb_classes b) \<and> popcount (pb_classes b) \<le> pb_length b"
  by (auto simp: validate_password_def split: if_splits)

lemma password_from_bytes_cases:
  "password_from_bytes b bytes = Inr pw \<Longrightarrow>
   \<exists>o1 c1 o2 c2 c3.
     validate_password b = Inr ()
   \<and> reserve_loop (enabled_classes (pb_classes b) (pb_exclude_ambiguous b)) (new_cursor bytes) [] = Inr (o1, c1)
   \<and> fill_loop (alphabet (pb_classes b) (pb_exclude_ambiguous b)) (pb_length b - popcount (pb_classes b)) c1 o1
       = Inr (o2, c2)
   \<and> shuffle_loop (length o2) c2 o2 = Inr (pw, c3)"
  by (auto simp: password_from_bytes_def rbind_eq_Inr Let_def split: if_splits)

lemma set_alphabet: "set (alphabet cs ex) = (\<Union>(n, s) \<in> set (enabled_classes cs ex). set s)"
  by (auto simp: alphabet_def)

lemma alphabet_unambiguous: "set (alphabet cs True) \<inter> set ambiguous_chars = {}"
  by (auto simp: alphabet_alt filter_ambiguous_def)

lemma alphabet_supported:
  "0 < popcount cs \<Longrightarrow> class_union_bound \<le> k \<Longrightarrow> k \<le> u32_max \<Longrightarrow> range_upto k (length (alphabet cs ex))"
  using length_alphabet [of cs ex] alphabet_nonempty [of cs ex] by (auto simp: range_upto_def)

lemma class_supported:
  assumes "x \<in> set (enabled_classes cs ex)" "class_union_bound \<le> k" "k \<le> u32_max"
  shows "(case x of (_, s) \<Rightarrow> if s = [] then Some (Failed AlphabetEmpty) else None) = None
    \<and> range_upto k (case x of (_, s) \<Rightarrow> length s)"
proof -
  obtain n s where x: "x = (n, s)" by (cases x)
  with assms enabled_class_nonempty [of n s cs ex] show ?thesis by (auto simp: range_upto_def)
qed

lemma class_lengths: "\<forall>(n, s) \<in> set (enabled_classes cs ex). length s \<le> u32_max"
  using enabled_class_nonempty by (fastforce simp: class_union_bound_def u32_max_def)

lemma class_bound_u32: "class_union_bound \<le> u32_max"
  by (simp add: class_union_bound_def u32_max_def)

lemma reserve_error:
  "reserve_loop (enabled_classes cs ex) c out = Inl e \<Longrightarrow> e = Failed Csprng"
  unfolding reserve_loop_def
  by (rule ecursor.draw_loop_error [where b = u32_max])
    (assumption, rule class_supported, assumption, rule class_bound_u32, rule order_refl)

lemma fill_error:
  "fill_loop (alphabet cs ex) n c out = Inl e \<Longrightarrow> 0 < popcount cs \<Longrightarrow> e = Failed Csprng"
  unfolding fill_loop_def
  by (rule ecursor.draw_loop_error [where b = u32_max])
    (assumption, simp add: alphabet_supported class_bound_u32)

lemma shuffle_error: "shuffle_loop n c out = Inl e \<Longrightarrow> n \<le> u32_max \<Longrightarrow> e = Failed Csprng"
  unfolding shuffle_loop_def
  by (rule ecursor.draw_loop_error [where b = u32_max]) (assumption, auto simp: range_upto_def)

lemma length_reserve_fill:
  assumes "reserve_loop (enabled_classes cs ex) c [] = Inr (o1, c1)"
    and "fill_loop (alphabet cs ex) (n - popcount cs) c1 o1 = Inr (o2, c2)"
    and "0 < popcount cs" "popcount cs \<le> n"
  shows "length o2 = n"
  using reserve_spec [OF assms(1) class_lengths] fill_spec [OF assms(2)] assms(3,4)
    alphabet_supported [OF assms(3) class_bound_u32 order_refl, of ex]
  by (auto simp: range_upto_def)

text \<open>C21: every generated password has the requested length, uses characters of the enabled
  classes only, contains at least one character of every enabled class, and contains no
  ambiguous character when those are excluded.
\<close>
theorem password_satisfies_policy:
  assumes "password_from_bytes b bytes = Inr pw" and "pb_length b \<le> u32_max"
  shows "length pw = pb_length b
    \<and> set pw \<subseteq> set (alphabet (pb_classes b) (pb_exclude_ambiguous b))
    \<and> (\<forall>(n, cls) \<in> set (enabled_classes (pb_classes b) (pb_exclude_ambiguous b)). set pw \<inter> set cls \<noteq> {})
    \<and> (pb_exclude_ambiguous b \<longrightarrow> set pw \<inter> set ambiguous_chars = {})"
proof -
  let ?cls = "enabled_classes (pb_classes b) (pb_exclude_ambiguous b)"
  let ?alpha = "alphabet (pb_classes b) (pb_exclude_ambiguous b)"
  from password_from_bytes_cases [OF assms(1)] obtain o1 c1 o2 c2 c3
    where v: "validate_password b = Inr ()"
      and r: "reserve_loop ?cls (new_cursor bytes) [] = Inr (o1, c1)"
      and f: "fill_loop ?alpha (pb_length b - popcount (pb_classes b)) c1 o1 = Inr (o2, c2)"
      and s: "shuffle_loop (length o2) c2 o2 = Inr (pw, c3)" by blast
  from reserve_spec [OF r class_lengths]
  have R: "length o1 = popcount (pb_classes b)" "set o1 \<subseteq> set ?alpha"
    "\<forall>(n, s) \<in> set ?cls. \<exists>x \<in> set o1. x \<in> set s" by (auto simp: alphabet_def)
  have "0 < length ?alpha" "length ?alpha \<le> u32_max"
    using length_alphabet [of "pb_classes b" "pb_exclude_ambiguous b"] alphabet_nonempty popcount_pos [OF v]
    by (auto simp: class_union_bound_def u32_max_def)
  from fill_spec [OF f this] R popcount_pos [OF v]
  have F: "length o2 = pb_length b" "set o1 \<subseteq> set o2" "set o2 \<subseteq> set ?alpha" by auto
  from shuffle_spec [OF s refl] F(1) assms(2) have S: "mset pw = mset o2" by simp
  then have "set pw = set o2" "length pw = length o2"
    by (auto dest: mset_eq_setD mset_eq_length)
  with F R alphabet_unambiguous show ?thesis by (fastforce split: prod.splits)
qed

text \<open>once the builder validates, generation fails for one reason only, running out of
  random bytes: the alphabet is never empty and the sampler never panics.
\<close>
theorem password_fails_only_without_entropy:
  assumes v: "validate_password b = Inr ()" and n: "pb_length b \<le> u32_max"
    and err: "password_from_bytes b bytes = Inl e"
  shows "e = Failed Csprng"
proof -
  let ?cls = "enabled_classes (pb_classes b) (pb_exclude_ambiguous b)"
  let ?alpha = "alphabet (pb_classes b) (pb_exclude_ambiguous b)"
  let ?n = "pb_length b - popcount (pb_classes b)"
  note pop = popcount_pos [OF v]
  have ne: "?alpha \<noteq> []" using alphabet_nonempty pop by simp
  consider (reserve) "reserve_loop ?cls (new_cursor bytes) [] = Inl e"
    | (fill) o1 c1 where "fill_loop ?alpha ?n c1 o1 = Inl e"
    | (shuffle) o1 c1 o2 c2 where "reserve_loop ?cls (new_cursor bytes) [] = Inr (o1, c1)"
        "fill_loop ?alpha ?n c1 o1 = Inr (o2, c2)" "shuffle_loop (length o2) c2 o2 = Inl e"
    using err v ne by (auto simp: password_from_bytes_def rbind_eq_Inl Let_def)
  then show ?thesis
  proof cases
    case reserve
    then show ?thesis by (rule reserve_error)
  next
    case fill
    then show ?thesis using pop by (blast intro: fill_error)
  next
    case shuffle
    then show ?thesis using length_reserve_fill [OF shuffle(1,2)] pop n shuffle_error by metis
  qed
qed

text \<open>The draws of a buffer that some range up to \<open>b\<close> could reject.\<close>

definition risky_draws :: "nat \<Rightarrow> u8 list \<Rightarrow> nat" where
  "risky_draws b bytes = length (filter (\<lambda>v. \<not> v + b \<le> u32_max) (u32_chunks bytes))"

lemma good_draws_new:
  "good_draws b (new_cursor bytes) + risky_draws b bytes = length bytes div 4"
  using sum_length_filter_compl [of "\<lambda>v. v + b \<le> u32_max" "u32_chunks bytes"]
  by (simp add: good_draws_def risky_draws_def draws_def new_cursor_def length_u32_chunks)

lemma password_entropy_exact:
  "pb_length b \<le> u32_max \<Longrightarrow> password_entropy b = (2 * pb_length b + 64) * 4"
  by (simp add: password_entropy_def usize_saturate_def oversample_def bytes_per_draw_def
      u32_max_def u64_max_def)

text \<open>C22: the entropy buffer is large enough. With the buffer size \<open>generate\<close> requests, password
  generation succeeds unless more than 64 of its draws lie in the top
  \<open>max length 89\<close> values of \<open>u32\<close>, the only draws the rejection loop can refuse.
\<close>
theorem password_entropy_suffices:
  assumes v: "validate_password b = Inr ()" and n: "pb_length b \<le> u32_max"
    and bytes: "length bytes = password_entropy b"
    and risky: "risky_draws (max (pb_length b) class_union_bound) bytes \<le> oversample"
  shows "\<exists>pw. password_from_bytes b bytes = Inr pw"
proof -
  let ?B = "max (pb_length b) class_union_bound"
  let ?cls = "enabled_classes (pb_classes b) (pb_exclude_ambiguous b)"
  let ?alpha = "alphabet (pb_classes b) (pb_exclude_ambiguous b)"
  have big: "?B \<le> u32_max" using n by (simp add: class_union_bound_def u32_max_def)
  have pop: "0 < popcount (pb_classes b)" "popcount (pb_classes b) \<le> pb_length b"
    using popcount_pos [OF v] by auto
  have ne: "?alpha \<noteq> []" using alphabet_nonempty pop(1) by simp
  have A: "range_upto ?B (length ?alpha)" using alphabet_supported [OF pop(1) _ big] by simp
  have C: "x \<in> set ?cls \<Longrightarrow> (case x of (_, s) \<Rightarrow> if s = [] then Some (Failed AlphabetEmpty) else None) = None
      \<and> range_upto ?B (case x of (_, s) \<Rightarrow> length s)" for x
    by (rule class_supported) (use big in auto)
  have "good_draws ?B (new_cursor bytes) \<ge> 2 * pb_length b"
    using good_draws_new [of ?B bytes] risky bytes password_entropy_exact [OF n]
    by (simp add: oversample_def)
  then have g0: "length ?cls \<le> good_draws ?B (new_cursor bytes)" and
    g0': "2 * pb_length b \<le> good_draws ?B (new_cursor bytes)" using pop by auto
  have "\<exists>o1 c1. reserve_loop ?cls (new_cursor bytes) [] = Inr (o1, c1)
      \<and> good_draws ?B (new_cursor bytes) \<le> good_draws ?B c1 + length ?cls"
    unfolding reserve_loop_def by (rule cursor.draw_loop_ok [OF g0]) (rule C)
  then obtain o1 c1
    where r: "reserve_loop ?cls (new_cursor bytes) [] = Inr (o1, c1)"
      and g1: "good_draws ?B (new_cursor bytes) \<le> good_draws ?B c1 + popcount (pb_classes b)"
    unfolding length_enabled by blast
  let ?n = "pb_length b - popcount (pb_classes b)"
  have "length [0..<?n] \<le> good_draws ?B c1" using g0' g1 pop by simp
  from cursor.draw_loop_ok [OF this, of "\<lambda>_. None" "\<lambda>_. length ?alpha"] A obtain o2 c2
    where f: "fill_loop ?alpha ?n c1 o1 = Inr (o2, c2)" and g2: "good_draws ?B c1 \<le> good_draws ?B c2 + ?n"
    unfolding fill_loop_def length_upt by fastforce
  have len: "length o2 = pb_length b" using length_reserve_fill [OF r f] pop by simp
  have "length (rev [1..<length o2]) \<le> good_draws ?B c2" using g0' g1 g2 pop len by simp
  from cursor.draw_loop_ok [OF this, of "\<lambda>_. None" "\<lambda>i. i + 1"] len big
  obtain pw c3 where s: "shuffle_loop (length o2) c2 o2 = Inr (pw, c3)"
    unfolding shuffle_loop_def by (fastforce simp: range_upto_def)
  from v ne r f s show ?thesis by (simp add: password_from_bytes_def Let_def)
qed

text \<open>A builder and a buffer for the concrete instances: four draws of zero bytes.\<close>

definition pin_builder :: password_builder where
  "pin_builder = \<lparr>pb_length = 2,
     pb_classes = \<lparr>cs_lowercase = False, cs_uppercase = False, cs_digits = True, cs_symbols = False\<rparr>,
     pb_exclude_ambiguous = True\<rparr>"

lemma pin_valid: "validate_password pin_builder = Inr ()"
  by (simp add: validate_password_def pin_builder_def popcount_def)

text \<open>The run on a two-character PIN: one draw to reserve, one to fill, one to shuffle.\<close>

definition pin_bytes :: "u8 list" where
  "pin_bytes = [1, 0, 0, 0, 9, 0, 0, 0, 0, 0, 0, 0]"

lemma pin_classes: "enabled_classes (pb_classes pin_builder) True = [(''digits'', ''23456789'')]"
  by (simp add: pin_builder_def enabled_classes_def filter_ambiguous_def digit_chars_def ambiguous_chars_def)

lemma pin_parts: "pb_exclude_ambiguous pin_builder = True" "pb_length pin_builder = 2"
  "popcount (pb_classes pin_builder) = 1"
  by (simp_all add: pin_builder_def popcount_def)

lemma pin_draws:
  "draws \<lparr>cur_bytes = pin_bytes, cur_pos = 0\<rparr> = [1, 9, 0]"
  "draws \<lparr>cur_bytes = pin_bytes, cur_pos = 4\<rparr> = [9, 0]"
  "draws \<lparr>cur_bytes = pin_bytes, cur_pos = 8\<rparr> = [0]"
  by (simp_all add: draws_def pin_bytes_def u32_from_le_def)

lemma pin_thresholds: "reject_threshold 8 = 4294967288" "reject_threshold 2 = 4294967294"
  by (simp_all add: reject_threshold_def u32_max_def)

lemma pin_indices:
  "uniform_index \<lparr>cur_bytes = pin_bytes, cur_pos = 0\<rparr> 8 = Inr (1, \<lparr>cur_bytes = pin_bytes, cur_pos = 4\<rparr>)"
  "uniform_index \<lparr>cur_bytes = pin_bytes, cur_pos = 4\<rparr> 8 = Inr (1, \<lparr>cur_bytes = pin_bytes, cur_pos = 8\<rparr>)"
  "uniform_index \<lparr>cur_bytes = pin_bytes, cur_pos = 8\<rparr> 2 = Inr (0, \<lparr>cur_bytes = pin_bytes, cur_pos = 12\<rparr>)"
  by (simp_all add: uniform_index_eval [OF pin_draws(1)] uniform_index_eval [OF pin_draws(2)]
      uniform_index_eval [OF pin_draws(3)] pin_thresholds u32_max_def)

lemma pin_lengths: "Suc (Suc (Suc (Suc (Suc (Suc (Suc (Suc 0))))))) = 8" "Suc (Suc 0) = 2"
  "rev [Suc 0..<2] = [Suc 0]"
  by (simp_all add: upt_rec)

lemma pin_run: "password_from_bytes pin_builder pin_bytes = Inr ''33''"
  by (simp add: password_from_bytes_def pin_valid pin_parts pin_classes alphabet_def
      reserve_loop_def fill_loop_def shuffle_loop_def new_cursor_def pin_indices list_swap_def
      pin_lengths Let_def)

theorem password_satisfies_policy_witness:
  "password_from_bytes pin_builder pin_bytes = Inr ''33''
   \<and> length ''33'' = pb_length pin_builder \<and> set ''33'' \<inter> set ambiguous_chars = {}"
  using password_satisfies_policy [OF pin_run] pin_run by (simp add: pin_builder_def u32_max_def)

lemma pin_starved: "password_from_bytes pin_builder [] = Inl (Failed Csprng)"
proof -
  have "draws \<lparr>cur_bytes = [], cur_pos = 0\<rparr> = []" by (simp add: draws_def)
  from uniform_index_exhausted [OF this, of 8] show ?thesis
    by (simp add: password_from_bytes_def pin_valid pin_parts pin_classes alphabet_def
      reserve_loop_def new_cursor_def u32_max_def pin_lengths Let_def)
qed

theorem password_fails_only_without_entropy_witness:
  "\<exists>e. password_from_bytes pin_builder [] = Inl e \<and> e = Failed Csprng"
proof -
  have "pb_length pin_builder \<le> u32_max" by (simp add: pin_builder_def u32_max_def)
  from password_fails_only_without_entropy [OF pin_valid this pin_starved] pin_starved
  show ?thesis by blast
qed

theorem password_entropy_suffices_witness:
  "\<exists>pw. password_from_bytes pin_builder (replicate (password_entropy pin_builder) 0) = Inr pw"
proof (rule password_entropy_suffices [OF pin_valid])
  have e: "password_entropy pin_builder = 4 * 68"
    by (simp add: password_entropy_def pin_builder_def usize_saturate_def u64_max_def
        oversample_def bytes_per_draw_def)
  show "risky_draws (max (pb_length pin_builder) class_union_bound)
      (replicate (password_entropy pin_builder) 0) \<le> oversample"
    unfolding risky_draws_def e u32_chunks_zero
    by (simp add: pin_builder_def class_union_bound_def u32_max_def)
qed (simp_all add: pin_builder_def u32_max_def)

end
