(* ===== verification/Endpoint.thy ===== *)
theory Endpoint
  imports Strings
begin

text \<open>
  Endpoint URLs and ETags of the S3 layer (\<open>falach-sync/src/s3/endpoint.rs\<close>,
  \<open>s3/etag.rs\<close>, and the quoting helpers of \<open>s3/client.rs\<close>): validating an endpoint,
  choosing the addressing style, building object URLs, canonical targets, strong ETags.
\<close>

section \<open>Endpoint configuration\<close>

datatype endpoint_error =
    MissingScheme | UnsupportedScheme string | MissingHost | UserInfoNotAllowed
  | InvalidAuthority | MissingRegion

datatype addressing_style = VirtualHosted | PathStyle

record endpoint_config =
  ec_endpoint :: "string option"
  ec_region :: string
  ec_bucket :: string
  ec_force_path_style :: bool

record endpoint_builder =
  eb_base :: string
  eb_base_host :: string
  eb_style :: addressing_style

definition split_scheme :: "string \<Rightarrow> endpoint_error + string \<times> string" where
  "split_scheme s = (case split_once ''://'' s of
     None \<Rightarrow> Inl MissingScheme
   | Some (scheme, rest) \<Rightarrow>
       let l = ascii_lowercase scheme in
       if l \<noteq> ''https'' \<and> l \<noteq> ''http'' then Inl (UnsupportedScheme scheme)
       else Inr (if l = ''https'' then ''https'' else ''http'', rest))"

definition strip_trailing_slash :: "string \<Rightarrow> string" where
  "strip_trailing_slash s = trim_end (\<lambda>c. c = CHR ''/'') s"

text \<open>
  \<open>Ipv6Addr::from_str\<close>: groups of one to four hexadecimal digits, at most one \<open>::\<close> that
  stands for at least one group, and a dotted IPv4 address as the last two groups.
\<close>

definition ipv4_octet :: "string \<Rightarrow> bool" where
  "ipv4_octet s = (s \<noteq> [] \<and> length s \<le> 3 \<and> list_all is_digit s \<and> decimal_value s \<le> 255
     \<and> (length s = 1 \<or> hd s \<noteq> CHR ''0''))"

definition ipv4 :: "string \<Rightarrow> bool" where
  "ipv4 s = (length (split_on CHR ''.'' s) = 4 \<and> list_all ipv4_octet (split_on CHR ''.'' s))"

definition ipv6_group :: "string \<Rightarrow> bool" where
  "ipv6_group s = (s \<noteq> [] \<and> length s \<le> 4 \<and> list_all is_hex s)"

text \<open>The number of 16-bit groups of a colon-separated part, None when it is malformed.\<close>

fun ipv6_count :: "string list \<Rightarrow> nat option" where
  "ipv6_count [] = Some 0"
| "ipv6_count [g] = (if ipv6_group g then Some 1 else if ipv4 g then Some 2 else None)"
| "ipv6_count (g # gs) = (if ipv6_group g then map_option Suc (ipv6_count gs) else None)"

definition ipv6_part :: "string \<Rightarrow> nat option" where
  "ipv6_part s = (if s = [] then Some 0 else ipv6_count (split_on CHR '':'' s))"

definition has_dot :: "string \<Rightarrow> bool" where
  "has_dot s = (CHR ''.'' \<in> set s)"

definition is_ipv6 :: "string \<Rightarrow> bool" where
  "is_ipv6 s = (case split_once ''::'' s of
     None \<Rightarrow> s \<noteq> [] \<and> ipv6_part s = Some 8
   | Some (a, b) \<Rightarrow> (case (ipv6_part a, ipv6_part b) of
         (Some m, Some n) \<Rightarrow> \<not> has_dot a \<and> m + n \<le> 7
       | _ \<Rightarrow> False))"

definition valid_port :: "string \<Rightarrow> bool" where
  "valid_port p = (p \<noteq> [] \<and> parse_unsigned 65535 p \<noteq> None)"

definition authority_port :: "string \<Rightarrow> endpoint_error + string option" where
  "authority_port authority = (case strip_prefix ''['' authority of
     Some bracketed \<Rightarrow> (case split_once '']'' bracketed of
         None \<Rightarrow> Inl InvalidAuthority
       | Some (host, remainder) \<Rightarrow>
           if host = [] \<or> \<not> is_ipv6 host then Inl InvalidAuthority
           else if remainder = [] then Inr None
           else (case strip_prefix '':'' remainder of None \<Rightarrow> Inl InvalidAuthority | Some p \<Rightarrow> Inr (Some p)))
   | None \<Rightarrow> (case rsplit_once CHR '':'' authority of
         Some (host, port) \<Rightarrow>
           if host = [] \<or> CHR '':'' \<in> set host then Inl InvalidAuthority else Inr (Some port)
       | None \<Rightarrow> if authority = [] then Inl MissingHost else Inr None))"

definition validate_authority :: "string \<Rightarrow> endpoint_error + unit" where
  "validate_authority authority =
     (if list_ex is_space authority then Inl InvalidAuthority
      else rbind (authority_port authority) (\<lambda>port.
        case port of None \<Rightarrow> Inr () | Some p \<Rightarrow> if valid_port p then Inr () else Inl InvalidAuthority))"

definition not_in_origin :: "char \<Rightarrow> bool" where
  "not_in_origin c = (c = CHR ''/'' \<or> c = CHR ''?'' \<or> c = CHR ''#'')"

definition builder_of :: "endpoint_config \<Rightarrow> string \<times> string \<Rightarrow> endpoint_error + endpoint_builder" where
  "builder_of cfg x = (case x of (scheme, rest) \<Rightarrow>
     let base_host = strip_trailing_slash rest in
     if base_host = [] then Inl MissingHost
     else if CHR ''@'' \<in> set base_host then Inl UserInfoNotAllowed
     else if list_ex not_in_origin base_host then Inl InvalidAuthority
     else rbind (validate_authority base_host) (\<lambda>_.
       Inr \<lparr>eb_base = scheme @ ''://'' @ base_host, eb_base_host = base_host,
         eb_style = (if ec_force_path_style cfg \<or> CHR ''.'' \<in> set (ec_bucket cfg) \<or> starts_with ''['' base_host
           then PathStyle else VirtualHosted)\<rparr>))"

definition endpoint_string :: "endpoint_config \<Rightarrow> string" where
  "endpoint_string cfg = (case ec_endpoint cfg of
     Some s \<Rightarrow> s | None \<Rightarrow> ''https://s3.'' @ ec_region cfg @ ''.amazonaws.com'')"

definition from_config :: "endpoint_config \<Rightarrow> endpoint_error + endpoint_builder" where
  "from_config cfg =
     (if ec_region cfg = [] then Inl MissingRegion
      else rbind (split_scheme (endpoint_string cfg)) (builder_of cfg))"

section \<open>URLs\<close>

definition scheme_of :: "string \<Rightarrow> string" where
  "scheme_of base = (case split_once ''://'' base of None \<Rightarrow> ''https'' | Some (s, _) \<Rightarrow> s)"

definition trim_slashes :: "string \<Rightarrow> string" where
  "trim_slashes key = trim_start (\<lambda>c. c = CHR ''/'') key"

definition object_url :: "endpoint_builder \<Rightarrow> string \<Rightarrow> string \<Rightarrow> string" where
  "object_url e bucket key = (let p = trim_slashes key in case eb_style e of
     VirtualHosted \<Rightarrow> scheme_of (eb_base e) @ ''://'' @ bucket @ ''.'' @ eb_base_host e @ ''/'' @ p
   | PathStyle \<Rightarrow> eb_base e @ ''/'' @ bucket @ ''/'' @ p)"

definition host_header :: "endpoint_builder \<Rightarrow> string \<Rightarrow> string" where
  "host_header e bucket = (case eb_style e of
     VirtualHosted \<Rightarrow> bucket @ ''.'' @ eb_base_host e
   | PathStyle \<Rightarrow> eb_base_host e)"

text \<open>The path the signer canonicalises (client.rs).\<close>

definition path_for_request :: "endpoint_builder \<Rightarrow> string \<Rightarrow> string \<Rightarrow> string" where
  "path_for_request e bucket key = (let key = trim_slashes key in case eb_style e of
     VirtualHosted \<Rightarrow> ''/'' @ key
   | PathStyle \<Rightarrow> ''/'' @ bucket @ ''/'' @ key)"

definition canonicalize_endpoint :: "string \<Rightarrow> string" where
  "canonicalize_endpoint s =
     (let l = ascii_lowercase s;
          no_scheme = (case strip_prefix ''https://'' l of
             Some r \<Rightarrow> r
           | None \<Rightarrow> (case strip_prefix ''http://'' l of Some r \<Rightarrow> r | None \<Rightarrow> l))
      in strip_trailing_slash no_scheme)"

text \<open>The duplicate-target key of config.rs.\<close>

definition canonicalize_target :: "string option \<Rightarrow> string \<Rightarrow> string \<Rightarrow> string" where
  "canonicalize_target endpoint bucket key =
     (case endpoint of Some s \<Rightarrow> canonicalize_endpoint s | None \<Rightarrow> ''<aws-default>'') @ ''|'' @ bucket @ ''|'' @ key"

section \<open>ETags\<close>

datatype etag_error = EtagUnquoted | EtagWeak | EtagEmpty

definition quote :: char where
  "quote = char_of (34 :: nat)"

definition etag_parse :: "string \<Rightarrow> etag_error + string" where
  "etag_parse s =
     (let t = trim s in
      if t = [] then Inl EtagEmpty
      else case strip_prefix ''W/'' t of
        Some rest \<Rightarrow> Inl EtagWeak
      | None \<Rightarrow>
          if hd t \<noteq> quote \<or> last t \<noteq> quote \<or> length t < 2 then Inl EtagUnquoted
          else let inner = butlast (tl t) in if inner = [] then Inl EtagEmpty else Inr inner)"

definition etag_header_value :: "string \<Rightarrow> string" where
  "etag_header_value e = quote # e @ [quote]"

definition quote_etag :: "string \<Rightarrow> string" where
  "quote_etag s = (let t = trim s in
     if t \<noteq> [] \<and> hd t = quote \<and> last t = quote \<and> 2 \<le> length t then t else quote # t @ [quote])"

section \<open>Endpoints that are accepted\<close>

lemma from_config_cases:
  assumes "from_config cfg = Inr e"
  shows "\<exists>scheme. scheme \<in> {''https'', ''http''} \<and> eb_base e = scheme @ ''://'' @ eb_base_host e
     \<and> eb_base_host e \<noteq> [] \<and> CHR ''@'' \<notin> set (eb_base_host e)
     \<and> \<not> list_ex not_in_origin (eb_base_host e) \<and> \<not> list_ex is_space (eb_base_host e)
     \<and> (CHR ''.'' \<in> set (ec_bucket cfg) \<longrightarrow> eb_style e = PathStyle)"
proof -
  from assms obtain scheme rest where s: "split_scheme (endpoint_string cfg) = Inr (scheme, rest)"
    and b: "builder_of cfg (scheme, rest) = Inr e"
    by (auto simp: from_config_def rbind_eq_Inr split: if_splits)
  define h where "h = strip_trailing_slash rest"
  have sch: "scheme \<in> {''https'', ''http''}"
    using s by (auto simp: split_scheme_def Let_def split: option.splits if_splits)
  from b have h: "h \<noteq> []" "CHR ''@'' \<notin> set h" "\<not> list_ex not_in_origin h" "validate_authority h = Inr ()"
    "eb_base e = scheme @ ''://'' @ h" "eb_base_host e = h" "CHR ''.'' \<in> set (ec_bucket cfg) \<Longrightarrow> eb_style e = PathStyle"
    by (simp_all add: builder_of_def h_def [symmetric] Let_def rbind_eq_Inr split: if_splits)
      (auto split: if_splits)
  from h(4) have "\<not> list_ex is_space h" by (auto simp: validate_authority_def split: if_splits)
  with h sch show ?thesis by (intro exI [of _ scheme]) simp
qed

text \<open>An accepted endpoint is an origin and nothing more. Its base is a lowercase http or
  https scheme and a non-empty authority without userinfo, path, query, fragment or white
  space, and a bucket with a dot is never addressed as a virtual host.\<close>

theorem endpoint_is_origin:
  assumes "from_config cfg = Inr e"
  shows "\<exists>scheme. scheme \<in> {''https'', ''http''} \<and> eb_base e = scheme @ ''://'' @ eb_base_host e
     \<and> eb_base_host e \<noteq> [] \<and> CHR ''@'' \<notin> set (eb_base_host e)
     \<and> \<not> list_ex not_in_origin (eb_base_host e) \<and> \<not> list_ex is_space (eb_base_host e)
     \<and> (CHR ''.'' \<in> set (ec_bucket cfg) \<longrightarrow> eb_style e = PathStyle)"
  using from_config_cases [OF assms] .

definition minio_config :: endpoint_config where
  "minio_config = \<lparr>ec_endpoint = Some ''http://minio:9000/'', ec_region = ''us-east-1'',
     ec_bucket = ''vaults'', ec_force_path_style = True\<rparr>"

definition minio_builder :: endpoint_builder where
  "minio_builder = \<lparr>eb_base = ''http://minio:9000'', eb_base_host = ''minio:9000'', eb_style = PathStyle\<rparr>"

lemma minio_ok: "from_config minio_config = Inr minio_builder"
proof -
  have split: "split_scheme ''http://minio:9000/'' = Inr (''http'', ''minio:9000/'')"
    by (simp add: split_scheme_def Let_def ascii_lowercase_def to_ascii_lower_def)
  have strip: "strip_trailing_slash ''minio:9000/'' = ''minio:9000''"
    by (simp add: strip_trailing_slash_def trim_end_def)
  have port: "authority_port ''minio:9000'' = Inr (Some ''9000'')"
    by (simp add: authority_port_def rsplit_once_def)
  have "valid_port ''9000''"
    by (simp add: valid_port_def parse_unsigned_def is_digit_def decimal_value_def digit_value_def Let_def)
  with port have auth: "validate_authority ''minio:9000'' = Inr ()"
    by (simp add: validate_authority_def is_space_def)
  show ?thesis
    by (simp add: from_config_def endpoint_string_def builder_of_def minio_config_def minio_builder_def split strip auth not_in_origin_def Let_def)
qed

theorem endpoint_is_origin_witness:
  "\<exists>scheme. scheme \<in> {''https'', ''http''} \<and> eb_base minio_builder = scheme @ ''://'' @ eb_base_host minio_builder
     \<and> eb_base_host minio_builder \<noteq> [] \<and> CHR ''@'' \<notin> set (eb_base_host minio_builder)
     \<and> \<not> list_ex not_in_origin (eb_base_host minio_builder) \<and> \<not> list_ex is_space (eb_base_host minio_builder)
     \<and> (CHR ''.'' \<in> set (ec_bucket minio_config) \<longrightarrow> eb_style minio_builder = PathStyle)"
  by (rule endpoint_is_origin [OF minio_ok])

text \<open>The request that is sent is the request that is signed. The URL of an object is the
  scheme, the \<open>Host\<close> header and the path the signer canonicalises, for both styles.\<close>

theorem object_url_is_signed_request:
  assumes "from_config cfg = Inr e"
  shows "\<exists>scheme. scheme \<in> {''https'', ''http''}
     \<and> object_url e bucket key = scheme @ ''://'' @ host_header e bucket @ path_for_request e bucket key"
proof -
  from from_config_cases [OF assms] obtain scheme where s: "scheme \<in> {''https'', ''http''}"
    and b: "eb_base e = scheme @ ''://'' @ eb_base_host e" by blast
  from s b have "scheme_of (eb_base e) = scheme" by (auto simp: scheme_of_def)
  with s b show ?thesis
    by (intro exI [of _ scheme])
      (auto simp: object_url_def host_header_def path_for_request_def Let_def split: addressing_style.splits)
qed

theorem object_url_is_signed_request_witness:
  "\<exists>scheme. scheme \<in> {''https'', ''http''}
     \<and> object_url minio_builder ''vaults'' ''/work.kdbx''
       = scheme @ ''://'' @ host_header minio_builder ''vaults'' @ path_for_request minio_builder ''vaults'' ''/work.kdbx''"
  by (rule object_url_is_signed_request [OF minio_ok])

section \<open>Canonical targets\<close>

lemma append_bar_inject:
  "CHR ''|'' \<notin> set a \<Longrightarrow> CHR ''|'' \<notin> set a' \<Longrightarrow> a @ ''|'' @ b = a' @ ''|'' @ b' \<longleftrightarrow> a = a' \<and> b = b'"
proof (induction a arbitrary: a')
  case (Cons x a)
  then show ?case by (cases a') auto
next
  case Nil
  then show ?case by (cases a') auto
qed

text \<open>Without a bar in endpoints and bucket names, two targets have the same canonical form
  exactly when endpoints agree up to case, scheme and trailing slashes, and bucket and key are
  equal.\<close>

theorem canonical_target_iff:
  assumes "CHR ''|'' \<notin> set (canonicalize_endpoint s)" "CHR ''|'' \<notin> set (canonicalize_endpoint s')"
    and "CHR ''|'' \<notin> set b" "CHR ''|'' \<notin> set b'"
  shows "canonicalize_target (Some s) b k = canonicalize_target (Some s') b' k'
     \<longleftrightarrow> canonicalize_endpoint s = canonicalize_endpoint s' \<and> b = b' \<and> k = k'"
  using append_bar_inject [OF assms(1,2)] append_bar_inject [OF assms(3,4)]
  by (simp add: canonicalize_target_def)

theorem canonical_target_iff_witness:
  "canonicalize_target (Some ''https://minio:9000/'') ''b'' ''k'' = canonicalize_target (Some ''http://minio:9000'') ''b'' ''k''
     \<longleftrightarrow> canonicalize_endpoint ''https://minio:9000/'' = canonicalize_endpoint ''http://minio:9000'' \<and> ''b'' = ''b'' \<and> ''k'' = ''k''"
  by (rule canonical_target_iff)
    (simp_all add: canonicalize_endpoint_def Let_def ascii_lowercase_def to_ascii_lower_def strip_trailing_slash_def trim_end_def)

text \<open>the canonical form misses targets that are the same object. A key with leading slashes
  is requested at the URL of the key without them, yet its canonical target differs, so the
  duplicate-target check accepts both.\<close>

theorem canonical_target_misses_slash:
  "object_url e b (CHR ''/'' # k) = object_url e b k
     \<and> canonicalize_target ep b (CHR ''/'' # k) \<noteq> canonicalize_target ep b k"
proof -
  have "trim_slashes (CHR ''/'' # k) = trim_slashes k" by (simp add: trim_slashes_def trim_start_def)
  then show ?thesis by (simp add: object_url_def canonicalize_target_def)
qed

section \<open>ETags\<close>

lemma quote_not_space: "\<not> is_space quote"
  by code_simp

lemma trim_quoted: "trim (quote # e @ [quote]) = quote # e @ [quote]"
  by (rule trim_id) (simp_all add: quote_not_space)

lemma etag_parse_header: "e \<noteq> [] \<Longrightarrow> etag_parse (etag_header_value e) = Inr e"
proof -
  have "quote \<noteq> CHR ''W''" by code_simp
  then show "e \<noteq> [] \<Longrightarrow> ?thesis"
    by (simp add: etag_parse_def etag_header_value_def trim_quoted Let_def)
qed

text \<open>ETags round-trip. A header value rendered from a non-empty tag parses back to it, and
  whatever parses is a strong quoted tag whose rendering is the trimmed header; a weak
  validator is never accepted.\<close>

theorem etag_roundtrip:
  "(e \<noteq> [] \<longrightarrow> etag_parse (etag_header_value e) = Inr e)
   \<and> (etag_parse s = Inr e \<longrightarrow> e \<noteq> [] \<and> trim s = etag_header_value e \<and> \<not> starts_with ''W/'' (trim s)
        \<and> quote_etag e = (if 2 \<le> length (trim e) \<and> hd (trim e) = quote \<and> last (trim e) = quote then trim e
            else quote # trim e @ [quote]))"
proof (intro conjI impI)
  assume "e \<noteq> []"
  then show "etag_parse (etag_header_value e) = Inr e" by (rule etag_parse_header)
next
  assume p: "etag_parse s = Inr e"
  then have ne: "trim s \<noteq> []" by (auto simp: etag_parse_def)
  from p ne show "e \<noteq> []" "\<not> starts_with ''W/'' (trim s)"
    by (auto simp: etag_parse_def Let_def starts_with_def split: option.splits if_splits)
  from p ne have q: "hd (trim s) = quote" "last (trim s) = quote" "2 \<le> length (trim s)" "e = butlast (tl (trim s))"
    by (auto simp: etag_parse_def Let_def split: option.splits if_splits)
  then obtain x xs where x: "trim s = x # xs" "xs \<noteq> []" by (cases "trim s"; cases "tl (trim s)") auto
  with q show "trim s = etag_header_value e"
    by (simp add: etag_header_value_def) (metis append_butlast_last_id)
  show "quote_etag e = (if 2 \<le> length (trim e) \<and> hd (trim e) = quote \<and> last (trim e) = quote then trim e
            else quote # trim e @ [quote])"
    by (auto simp: quote_etag_def Let_def)
qed

theorem etag_roundtrip_witness:
  "etag_parse (etag_header_value ''d41d'') = Inr ''d41d''"
  using etag_roundtrip [of "''d41d''" "[]"] by simp

end
