(* ===== verification/Files.thy ===== *)
theory Files
  imports Prelude
begin

text \<open>
  Files, paths and the error type of \<open>falach-core\<close> (\<open>error.rs\<close>), shared by every
  component that touches the disk. A path is the list of its components. The file system
  keeps what a running process sees (\<open>fs_names\<close>, inode data) apart from what a power loss
  may reveal: for each name the bindings it has had since its directory was last synced,
  and for each inode whether its data was synced after the last write.
\<close>

section \<open>Paths\<close>

type_synonym path = "string list"

definition path_parent :: "path \<Rightarrow> path option" where
  "path_parent p = (if p = [] then None else Some (butlast p))"

definition path_file_name :: "path \<Rightarrow> string option" where
  "path_file_name p = (if p = [] then None else Some (last p))"

text \<open>Appending to the path's string appends to its last component.\<close>

definition path_append :: "path \<Rightarrow> string \<Rightarrow> path" where
  "path_append p s = (if p = [] then [s] else butlast p @ [last p @ s])"

lemma path_append_inject: "path_append p s = path_append q s \<Longrightarrow> p \<noteq> [] \<Longrightarrow> q \<noteq> [] \<Longrightarrow> p = q"
  by (simp add: path_append_def) (metis append_butlast_last_id)

lemma path_append_neq: "s \<noteq> [] \<Longrightarrow> path_append p s \<noteq> p"
  by (auto simp: path_append_def) (metis append_butlast_last_id append_same_eq last_snoc append.right_neutral same_append_eq)

lemma path_parent_append [simp]: "p \<noteq> [] \<Longrightarrow> path_parent (path_append p s) = path_parent p"
  by (simp add: path_parent_def path_append_def)

section \<open>Errors (error.rs)\<close>

datatype io_error = IoNotFound | IoAlreadyExists | IoWouldBlock | IoInterrupted | IoInvalidInput | IoOther nat

datatype open_error =
    OpenIo io_error | OpenKey | OpenCryptography | OpenUnexpectedEof | OpenVersionParse
  | OpenUnsupportedVersion | OpenFormat | OpenOther

datatype otp_uri_error =
    NotAnOtpAuthUri | UnsupportedType | MissingSecret | InvalidSecret | UnsupportedAlgorithm
  | InvalidParameter string | InvalidEncoding

datatype vault_error =
    HomeUnresolvable
  | PathExists path
  | FileNotFound path
  | AuthenticationFailed
  | Contended "nat option"
  | InvalidFormat open_error
  | VIo io_error path
  | WriteFailed nat
  | RegistryMalformed "nat option"
  | RegistryChanged
  | RegistrySerializationFailed nat
  | NotRegistered string
  | AlreadyRegistered string
  | NoRecoveryNotConfirmed
  | EntryNotFound nat
  | GroupNotFound nat
  | EntryHasNoTotp nat
  | AttachmentTooLarge nat nat
  | AttachmentNotFound string
  | InvalidOtpUri otp_uri_error
  | InvalidAttachmentCap
  | GroupNotEmpty nat
  | InvalidTag string
  | CannotModifyRoot
  | InvalidGroupTarget string
  | DatabaseIdentityMismatch nat nat

section \<open>The file system\<close>

record inode =
  i_data :: bytes
  i_synced :: bool
  i_held :: bool

record fs =
  fs_names :: "(path, nat) hmap"
  fs_saved :: "path \<Rightarrow> nat option list"
  fs_inodes :: "nat \<Rightarrow> inode"
  fs_next :: nat

definition fs_bind :: "path \<Rightarrow> nat \<Rightarrow> fs \<Rightarrow> fs" where
  "fs_bind p i f = f\<lparr>fs_names := hput p i (fs_names f),
     fs_saved := (fs_saved f)(p := fs_saved f p @ [Some i])\<rparr>"

definition fs_unlink :: "path \<Rightarrow> fs \<Rightarrow> fs" where
  "fs_unlink p f = f\<lparr>fs_names := hdel p (fs_names f),
     fs_saved := (fs_saved f)(p := fs_saved f p @ [None])\<rparr>"

definition fs_create :: "path \<Rightarrow> fs \<Rightarrow> fs" where
  "fs_create p f = fs_bind p (fs_next f)
     (f\<lparr>fs_inodes := (fs_inodes f)(fs_next f := \<lparr>i_data = [], i_synced = False, i_held = False\<rparr>),
        fs_next := Suc (fs_next f)\<rparr>)"

definition fs_inode :: "path \<Rightarrow> (inode \<Rightarrow> inode) \<Rightarrow> fs \<Rightarrow> fs" where
  "fs_inode p g f = (case hget (fs_names f) p of
     None \<Rightarrow> f
   | Some i \<Rightarrow> f\<lparr>fs_inodes := (fs_inodes f)(i := g (fs_inodes f i))\<rparr>)"

definition fs_rename :: "path \<Rightarrow> path \<Rightarrow> fs \<Rightarrow> fs" where
  "fs_rename p q f = (case hget (fs_names f) p of
     None \<Rightarrow> f
   | Some i \<Rightarrow> fs_unlink p (fs_bind q i f))"

definition fs_sync_dir :: "path \<Rightarrow> fs \<Rightarrow> fs" where
  "fs_sync_dir d f = f\<lparr>fs_saved := (\<lambda>p. if path_parent p = Some d then [hget (fs_names f) p] else fs_saved f p)\<rparr>"

text \<open>What a process reads at a path, and what it may read after a power loss.\<close>

definition fs_read :: "fs \<Rightarrow> path \<Rightarrow> bytes option" where
  "fs_read f p = map_option (\<lambda>i. i_data (fs_inodes f i)) (hget (fs_names f) p)"

definition crash_reads :: "fs \<Rightarrow> path \<Rightarrow> bytes option \<Rightarrow> bool" where
  "crash_reads f p c = list_ex (\<lambda>b. case b of
       None \<Rightarrow> c = None
     | Some i \<Rightarrow> c \<noteq> None \<and> (i_synced (fs_inodes f i) \<longrightarrow> c = Some (i_data (fs_inodes f i))))
     (fs_saved f p)"

text \<open>Names refer to allocated inodes, and no two names share one.\<close>

definition fs_wf :: "fs \<Rightarrow> bool" where
  "fs_wf f = (inj_on (hget (fs_names f)) (dom (hget (fs_names f)))
     \<and> (\<forall>p. \<forall>i. hget (fs_names f) p = Some i \<or> Some i \<in> set (fs_saved f p) \<longrightarrow> i < fs_next f))"

lemmas fs_ops = fs_bind_def fs_unlink_def fs_create_def fs_rename_def fs_sync_dir_def

end
