(* ===== verification/Signer.thy ===== *)
theory Signer
  imports Strings "HOL-Library.List_Lexorder" "HOL-Library.Char_ord" "HOL-Library.Product_Lexorder"
begin

text \<open>
  AWS Signature Version 4 (\<open>falach-sync/src/s3/signer.rs\<close>): the canonical request, the string
  to sign, the key derivation and the \<open>Authorization\<close> header. SHA-256, HMAC, hexadecimal
  rendering and the calendar belong to other crates: they are the record \<open>crypto\<close>. Strings are
  byte strings; Rust compares them bytewise, as the list order does.
\<close>

section \<open>Data\<close>

type_synonym headers = "(string \<times> string) list"

record crypto =
  cy_sha256_hex :: "bytes \<Rightarrow> string"
  cy_hmac :: "bytes \<Rightarrow> bytes \<Rightarrow> bytes"
  cy_hex :: "bytes \<Rightarrow> string"
  cy_utc :: "int \<Rightarrow> (string \<times> string) option"

datatype signer_error = TimestampOutOfRange string

record resolved_credentials =
  rc_access_key_id :: string
  rc_secret_access_key :: string
  rc_session_token :: "string option"

record signer =
  sg_region :: string
  sg_service :: string

definition new_signer :: "string \<Rightarrow> signer" where
  "new_signer region = \<lparr>sg_region = region, sg_service = ''s3''\<rparr>"

definition newline :: string where
  "newline = [char_of (10 :: nat)]"

definition as_bytes :: "string \<Rightarrow> bytes" where
  "as_bytes s = map (\<lambda>c. of_nat (of_char c)) s"

section \<open>Percent encoding\<close>

definition is_unreserved :: "char \<Rightarrow> bool" where
  "is_unreserved c = (let b = of_char c :: nat in
     65 \<le> b \<and> b \<le> 90 \<or> 97 \<le> b \<and> b \<le> 122 \<or> 48 \<le> b \<and> b \<le> 57 \<or> b = 45 \<or> b = 46 \<or> b = 95 \<or> b = 126)"

definition hex_upper :: "nat \<Rightarrow> char" where
  "hex_upper n = ''0123456789ABCDEF'' ! (n mod 16)"

definition escape :: "char \<Rightarrow> string" where
  "escape c = (let b = of_char c :: nat in [CHR ''%'', hex_upper (b div 16), hex_upper (b mod 16)])"

definition percent_encode :: "string \<Rightarrow> string" where
  "percent_encode s = concat (map (\<lambda>c. if is_unreserved c then [c] else escape c) s)"

definition canonical_uri :: "string \<Rightarrow> string" where
  "canonical_uri path =
     (if path = [] then ''/''
      else concat (map (\<lambda>c. if is_unreserved c \<or> c = CHR ''/'' \<or> c = CHR ''%'' then [c] else escape c) path))"

section \<open>The canonical request\<close>

definition canonical_query_string :: "(string \<times> string) list \<Rightarrow> string" where
  "canonical_query_string query =
     join ''&'' (map (\<lambda>(k, v). k @ ''='' @ v) (sort (map (\<lambda>(k, v). (percent_encode k, percent_encode v)) query)))"

definition blank :: "char \<Rightarrow> bool" where
  "blank c = (of_char c \<in> {32, 9 :: nat})"

fun collapse :: "bool \<Rightarrow> string \<Rightarrow> string" where
  "collapse prev [] = []"
| "collapse prev (c # cs) =
     (if blank c then (if prev then collapse True cs else CHR '' '' # collapse True cs)
      else c # collapse False cs)"

definition normalize_header_value :: "string \<Rightarrow> string" where
  "normalize_header_value v = collapse False (trim v)"

definition normalize_header :: "string \<times> string \<Rightarrow> string \<times> string" where
  "normalize_header h = (ascii_lowercase (trim (fst h)), normalize_header_value (snd h))"

text \<open>A value joins the group of its name; a new name opens a group at the end.\<close>

fun add_header :: "string \<times> string \<Rightarrow> (string \<times> string list) list \<Rightarrow> (string \<times> string list) list" where
  "add_header (n, v) [] = [(n, [v])]"
| "add_header (n, v) ((m, vs) # gs) = (if m = n then (m, vs @ [v]) # gs else (m, vs) # add_header (n, v) gs)"

definition group_headers :: "headers \<Rightarrow> (string \<times> string list) list" where
  "group_headers hs = fold add_header hs []"

definition canonical_headers_and_signed :: "headers \<Rightarrow> string \<times> string" where
  "canonical_headers_and_signed hs =
     (let grouped = sort_key fst (group_headers (map normalize_header hs))
      in (concat (map (\<lambda>(n, vs). n @ '':'' @ join '','' vs @ newline) grouped), join '';'' (map fst grouped)))"

definition build_canonical_request ::
    "string \<Rightarrow> string \<Rightarrow> (string \<times> string) list \<Rightarrow> headers \<Rightarrow> string \<Rightarrow> string \<times> string" where
  "build_canonical_request meth path query hs payload_hash =
     (case canonical_headers_and_signed hs of (canonical, names) \<Rightarrow>
       (map to_ascii_upper meth @ newline @ canonical_uri path @ newline @ canonical_query_string query @ newline
          @ canonical @ newline @ names @ newline @ payload_hash, names))"

section \<open>The signature\<close>

definition algorithm :: string where
  "algorithm = ''AWS4-HMAC-SHA256''"

definition terminator :: string where
  "terminator = ''aws4_request''"

definition derive_signing_key :: "crypto \<Rightarrow> string \<Rightarrow> string \<Rightarrow> string \<Rightarrow> string \<Rightarrow> bytes" where
  "derive_signing_key K secret date_stamp region service =
     (let k_date = cy_hmac K (as_bytes (''AWS4'' @ secret)) (as_bytes date_stamp);
          k_region = cy_hmac K k_date (as_bytes region);
          k_service = cy_hmac K k_region (as_bytes service)
      in cy_hmac K k_service (as_bytes terminator))"

definition credential_scope :: "signer \<Rightarrow> string \<Rightarrow> string" where
  "credential_scope sg date_stamp = date_stamp @ ''/'' @ sg_region sg @ ''/'' @ sg_service sg @ ''/'' @ terminator"

definition string_to_sign :: "crypto \<Rightarrow> string \<Rightarrow> string \<Rightarrow> string \<Rightarrow> string" where
  "string_to_sign K amz_date scope canonical_request =
     algorithm @ newline @ amz_date @ newline @ scope @ newline @ cy_sha256_hex K (as_bytes canonical_request)"

definition session_header :: "resolved_credentials \<Rightarrow> headers" where
  "session_header cred = (case rc_session_token cred of None \<Rightarrow> [] | Some t \<Rightarrow> [(''x-amz-security-token'', t)])"

definition signature :: "crypto \<Rightarrow> signer \<Rightarrow> resolved_credentials \<Rightarrow> string \<Rightarrow> string \<Rightarrow> string \<Rightarrow> string" where
  "signature K sg cred amz_date date_stamp canonical_request =
     cy_hex K (cy_hmac K (derive_signing_key K (rc_secret_access_key cred) date_stamp (sg_region sg) (sg_service sg))
       (as_bytes (string_to_sign K amz_date (credential_scope sg date_stamp) canonical_request)))"

definition authorization :: "signer \<Rightarrow> resolved_credentials \<Rightarrow> string \<Rightarrow> string \<Rightarrow> string \<Rightarrow> string" where
  "authorization sg cred date_stamp signed_headers sig =
     algorithm @ '' Credential='' @ rc_access_key_id cred @ ''/'' @ credential_scope sg date_stamp
       @ '', SignedHeaders='' @ signed_headers @ '', Signature='' @ sig"

definition sign ::
    "crypto \<Rightarrow> signer \<Rightarrow> string \<Rightarrow> string \<Rightarrow> (string \<times> string) list \<Rightarrow> headers \<Rightarrow> bytes \<Rightarrow> resolved_credentials \<Rightarrow> int \<Rightarrow>
     signer_error + headers" where
  "sign K sg meth path query hs body cred now = (case cy_utc K now of
     None \<Rightarrow> Inl (TimestampOutOfRange ''SystemTime out of range'')
   | Some (amz_date, date_stamp) \<Rightarrow>
       (let payload_hash = cy_sha256_hex K body;
            hs1 = hs @ [(''x-amz-date'', amz_date), (''x-amz-content-sha256'', payload_hash)] @ session_header cred
        in case build_canonical_request meth path query hs1 payload_hash of (canonical_request, names) \<Rightarrow>
          Inr (hs1 @ [(''authorization'', authorization sg cred date_stamp names
            (signature K sg cred amz_date date_stamp canonical_request))])))"

definition debug_sign_components ::
    "crypto \<Rightarrow> signer \<Rightarrow> string \<Rightarrow> string \<Rightarrow> (string \<times> string) list \<Rightarrow> headers \<Rightarrow> bytes \<Rightarrow> resolved_credentials \<Rightarrow>
     string \<times> string \<Rightarrow> string \<times> string \<times> string" where
  "debug_sign_components K sg meth path query hs body cred dates = (case dates of (amz_date, date_stamp) \<Rightarrow>
     (let canonical_request = fst (build_canonical_request meth path query hs (cy_sha256_hex K body))
      in (canonical_request, string_to_sign K amz_date (credential_scope sg date_stamp) canonical_request,
          signature K sg cred amz_date date_stamp canonical_request)))"

section \<open>Percent encoding is lossless\<close>

text \<open>The decoding of a path: an escape of two hexadecimal digits, anything else literally.\<close>

definition hex_digit :: "char \<Rightarrow> nat option" where
  "hex_digit c = (let b = of_char c :: nat in
     if 48 \<le> b \<and> b \<le> 57 then Some (b - 48)
     else if 65 \<le> b \<and> b \<le> 70 then Some (b - 55)
     else if 97 \<le> b \<and> b \<le> 102 then Some (b - 87) else None)"

fun percent_decode :: "string \<Rightarrow> string" where
  "percent_decode [] = []"
| "percent_decode [c] = [c]"
| "percent_decode [c, d] = [c, d]"
| "percent_decode (c # d # e # cs) =
     (case (hex_digit d, hex_digit e) of
        (Some m, Some n) \<Rightarrow> if c = CHR ''%'' then char_of (16 * m + n) # percent_decode cs else c # percent_decode (d # e # cs)
      | _ \<Rightarrow> c # percent_decode (d # e # cs))"

lemma hex_digit_upper: "hex_digit (hex_upper n) = Some (n mod 16)"
proof -
  have "list_all (\<lambda>n. hex_digit (hex_upper n) = Some n) [0..<16]" by code_simp
  then have "hex_digit (hex_upper (n mod 16)) = Some (n mod 16)" by (simp add: list_all_iff)
  then show ?thesis by (simp add: hex_upper_def)
qed

lemma decode_escape: "percent_decode (escape c @ s) = c # percent_decode s"
proof -
  let ?b = "of_char c :: nat"
  have "?b < 256" by simp
  then have "?b div 16 < 16" by (simp add: less_mult_imp_div_less)
  then have "16 * (?b div 16 mod 16) + ?b mod 16 mod 16 = ?b" by simp
  then have "char_of (16 * (?b div 16 mod 16) + ?b mod 16 mod 16) = c" by (metis char_of_char)
  then show ?thesis by (simp add: escape_def Let_def hex_digit_upper del: mod_mod_trivial)
qed

definition encode_by :: "(char \<Rightarrow> bool) \<Rightarrow> string \<Rightarrow> string" where
  "encode_by P s = concat (map (\<lambda>c. if P c then [c] else escape c) s)"

lemma encode_by_simps [simp]: "encode_by P [] = []"
  "encode_by P (c # s) = (if P c then [c] else escape c) @ encode_by P s"
  by (simp_all add: encode_by_def)

fun starts_hex :: "string \<Rightarrow> bool" where
  "starts_hex (d # e # cs) = (hex_digit d \<noteq> None \<and> hex_digit e \<noteq> None)"
| "starts_hex _ = False"

lemma decode_literal: "c \<noteq> CHR ''%'' \<or> \<not> starts_hex s \<Longrightarrow> percent_decode (c # s) = c # percent_decode s"
  by (cases s rule: starts_hex.cases) (auto split: option.splits)

lemma percent_not_hex: "hex_digit CHR ''%'' = None"
  by (simp add: hex_digit_def)

lemma starts_hex_encode:
  assumes "\<And>c. hex_digit c \<noteq> None \<Longrightarrow> P c"
  shows "starts_hex (encode_by P s) = starts_hex s"
proof (cases s rule: starts_hex.cases)
  case (1 d e cs)
  have esc: "\<not> starts_hex (escape c @ t)" "\<not> starts_hex (d # escape c @ t)" for c d t
    by (simp_all add: escape_def Let_def percent_not_hex)
  show ?thesis
  proof (cases "P d")
    case True
    moreover have "\<not> P e \<Longrightarrow> hex_digit e = None" using assms [of e] by blast
    ultimately show ?thesis using 1 esc(2) [of d e] by (cases "P e") auto
  next
    case False
    moreover have "\<not> P d \<Longrightarrow> hex_digit d = None" using assms [of d] by blast
    ultimately show ?thesis using 1 esc(1) by auto
  qed
qed (simp_all add: escape_def Let_def percent_not_hex)

lemma decode_encode_keep:
  assumes "\<And>c. hex_digit c \<noteq> None \<Longrightarrow> P c"
  shows "percent_decode (encode_by P s) = (if P CHR ''%'' then percent_decode s else s)"
proof (induction s rule: length_induct)
  case (1 s)
  show ?case
  proof (cases s)
    case (Cons c t)
    then have IH: "percent_decode (encode_by P t) = (if P CHR ''%'' then percent_decode t else t)" using 1 by simp
    note hex = starts_hex_encode [of P t, OF assms]
    show ?thesis
    proof (cases "P c \<and> c = CHR ''%'' \<and> starts_hex t")
      case True
      then obtain d e cs where t: "t = d # e # cs" and de: "hex_digit d \<noteq> None" "hex_digit e \<noteq> None"
        by (cases t rule: starts_hex.cases) auto
      with 1 Cons have "percent_decode (encode_by P cs) = (if P CHR ''%'' then percent_decode cs else cs)" by simp
      with True Cons t de assms show ?thesis by auto
    next
      case False
      then show ?thesis using Cons IH hex decode_escape [of c "encode_by P t"]
        by (cases "P c"; cases "c = CHR ''%''") (auto simp: decode_literal)
    qed
  qed simp
qed

lemma hex_unreserved: "hex_digit c \<noteq> None \<Longrightarrow> is_unreserved c"
  by (auto simp: hex_digit_def is_unreserved_def Let_def split: if_splits)

lemma percent_reserved: "\<not> is_unreserved CHR ''%''"
  by (simp add: is_unreserved_def)

text \<open>Percent encoding loses nothing. Decoding an encoded query component gives it back, so
  different components have different encodings; decoding a canonical path gives what the path
  itself decodes to, also when it already contains escapes, and the path itself when it has no
  percent sign.\<close>

theorem percent_encoding_lossless:
  "percent_decode (percent_encode s) = s
   \<and> percent_decode (canonical_uri p) = (if p = [] then ''/'' else percent_decode p)"
  using decode_encode_keep [of is_unreserved s, OF hex_unreserved] percent_reserved
    decode_encode_keep [of "\<lambda>c. is_unreserved c \<or> c = CHR ''/'' \<or> c = CHR ''%''" p] hex_unreserved
  by (auto simp: percent_encode_def canonical_uri_def encode_by_def)

section \<open>The canonical headers\<close>

definition values_of :: "string \<Rightarrow> headers \<Rightarrow> string list" where
  "values_of n hs = map snd (filter (\<lambda>h. fst h = n) hs)"

text \<open>Each name once, with its values in input order.\<close>

definition groups_ok :: "headers \<Rightarrow> (string \<times> string list) list \<Rightarrow> bool" where
  "groups_ok hs gs = (distinct (map fst gs)
     \<and> (\<forall>n vs. (n, vs) \<in> set gs \<longleftrightarrow> vs \<noteq> [] \<and> vs = values_of n hs))"

lemma add_header_names: "set (map fst (add_header h gs)) = insert (fst h) (set (map fst gs))"
  by (induction h gs rule: add_header.induct) auto

lemma add_header_distinct: "distinct (map fst gs) \<Longrightarrow> distinct (map fst (add_header h gs))"
proof (induction h gs rule: add_header.induct)
  case (2 n v m vs gs)
  then show ?case using add_header_names [of "(n, v)" gs] by auto
qed simp

lemma add_header_member:
  "distinct (map fst gs) \<Longrightarrow> (m, vs) \<in> set (add_header (n, v) gs) \<longleftrightarrow>
     (if m = n then (\<exists>us. vs = us @ [v] \<and> ((n, us) \<in> set gs \<or> us = [] \<and> n \<notin> set (map fst gs))) else (m, vs) \<in> set gs)"
proof (induction "(n, v)" gs rule: add_header.induct)
  case (2 m' us gs)
  show ?case
  proof (cases "m' = n")
    case True
    with 2 show ?thesis by (force simp: image_iff)
  qed (use 2 in auto)
qed auto

lemma group_headers_ok: "groups_ok hs (group_headers hs)"
proof (induction hs rule: rev_induct)
  case (snoc h hs)
  obtain n v where h: "h = (n, v)" by (cases h)
  let ?G = "group_headers hs"
  have g: "group_headers (hs @ [h]) = add_header (n, v) ?G" by (simp add: group_headers_def h)
  from snoc have d: "distinct (map fst ?G)" and m: "\<And>n vs. (n, vs) \<in> set ?G \<longleftrightarrow> vs \<noteq> [] \<and> vs = values_of n hs"
    by (auto simp: groups_ok_def)
  have "n \<in> set (map fst ?G) \<longleftrightarrow> (\<exists>vs. (n, vs) \<in> set ?G)" by (simp add: image_iff Bex_def)
  then have new: "n \<notin> set (map fst ?G) \<longleftrightarrow> values_of n hs = []" unfolding m by simp
  have one: "values_of k (hs @ [(n, v)]) = values_of k hs @ (if k = n then [v] else [])" for k
    by (simp add: values_of_def)
  have mem: "(k, vs) \<in> set (add_header (n, v) ?G) \<longleftrightarrow> vs \<noteq> [] \<and> vs = values_of k (hs @ [(n, v)])" for k vs
    unfolding add_header_member [OF d] m new one by (cases "k = n") auto
  show ?case unfolding groups_ok_def g unfolding h by (intro conjI allI add_header_distinct d mem)
qed (simp add: groups_ok_def group_headers_def values_of_def)

lemma groups_unique:
  assumes "groups_ok hs gs" "groups_ok hs' gs'" "\<And>n. values_of n hs = values_of n hs'"
    "sorted (map fst gs)" "sorted (map fst gs')"
  shows "gs = gs'"
proof -
  have "set gs = set gs'" using assms(1-3) by (auto simp: groups_ok_def)
  moreover have d: "distinct (map fst gs)" "distinct (map fst gs')" using assms(1,2) by (auto simp: groups_ok_def)
  moreover have "inj_on fst (set gs)" using d(1) by (simp add: distinct_map)
  ultimately show ?thesis using map_sorted_distinct_set_unique [of fst gs gs'] assms(4,5) by simp
qed

lemma sort_key_groups: "groups_ok hs gs \<Longrightarrow> groups_ok hs (sort_key fst gs) \<and> sorted (map fst (sort_key fst gs))"
proof -
  assume g: "groups_ok hs gs"
  have "mset (map fst (sort_key fst gs)) = mset (map fst gs)" by simp
  then have "distinct (map fst (sort_key fst gs)) = distinct (map fst gs)"
    by (rule mset_eq_imp_distinct_iff)
  with g show ?thesis by (simp add: groups_ok_def)
qed

text \<open>The groups of the canonical headers are determined by the values of each name.\<close>

lemma canonical_groups:
  assumes "\<And>n. values_of n (map normalize_header hs) = values_of n (map normalize_header hs')"
  shows "canonical_headers_and_signed hs = canonical_headers_and_signed hs'"
proof -
  have "sort_key fst (group_headers (map normalize_header hs)) = sort_key fst (group_headers (map normalize_header hs'))"
    using sort_key_groups [OF group_headers_ok] assms by (intro groups_unique) blast+
  then show ?thesis by (simp add: canonical_headers_and_signed_def)
qed

text \<open>What is signed does not depend on how the request happens to be assembled. Two header
  lists in which every (trimmed, lowercased) name has the same normalised values in the same order,
  and two permutations of the query parameters, have the same canonical request and the same list of
  signed header names; that list names every header once, in ascending order.\<close>

theorem canonical_request_canonical:
  assumes "\<And>n. values_of n (map normalize_header hs) = values_of n (map normalize_header hs')" "mset q = mset q'"
  shows "build_canonical_request m p q hs h = build_canonical_request m p q' hs' h
    \<and> (\<exists>names. snd (build_canonical_request m p q hs h) = join '';'' names \<and> sorted names \<and> distinct names
         \<and> set names = fst ` set (map normalize_header hs))"
proof
  have "mset (map f q) = mset (map f q')" for f :: "string \<times> string \<Rightarrow> string \<times> string" using assms(2) by simp
  then have "canonical_query_string q = canonical_query_string q'"
    unfolding canonical_query_string_def by (metis sorted_list_of_multiset_mset)
  then show "build_canonical_request m p q hs h = build_canonical_request m p q' hs' h"
    using canonical_groups [OF assms(1)] by (simp add: build_canonical_request_def)
next
  let ?H = "map normalize_header hs"
  let ?gs = "sort_key fst (group_headers ?H)"
  note g = sort_key_groups [OF group_headers_ok, of ?H]
  have "n \<in> fst ` set ?gs \<longleftrightarrow> n \<in> fst ` set ?H" for n
  proof -
    have "n \<in> fst ` set ?gs \<longleftrightarrow> (\<exists>vs. (n, vs) \<in> set ?gs)" by (simp add: image_iff Bex_def)
    also have "\<dots> \<longleftrightarrow> values_of n ?H \<noteq> []" using g by (simp only: groups_ok_def) blast
    also have "\<dots> \<longleftrightarrow> n \<in> fst ` set ?H" by (auto simp: values_of_def filter_empty_conv)
    finally show ?thesis .
  qed
  then have "set (map fst ?gs) = fst ` set ?H" by auto
  moreover have "snd (build_canonical_request m p q hs h) = join '';'' (map fst ?gs)"
    by (simp add: build_canonical_request_def canonical_headers_and_signed_def Let_def)
  ultimately show "\<exists>names. snd (build_canonical_request m p q hs h) = join '';'' names \<and> sorted names \<and> distinct names
         \<and> set names = fst ` set ?H"
    using g by (auto simp: groups_ok_def)
qed

theorem canonical_request_canonical_witness:
  "build_canonical_request ''get'' ''/b'' [(''b'', ''2''), (''a'', ''1'')] [(''x'', ''1''), (''host'', ''h''), (''x'', ''2'')] ''e''
     = build_canonical_request ''get'' ''/b'' [(''a'', ''1''), (''b'', ''2'')] [(''x'', ''1''), (''x'', ''2''), (''host'', ''h'')] ''e''"
proof (rule canonical_request_canonical [THEN conjunct1])
  show "mset [(''b'', ''2''), (''a'', ''1'')] = mset [(''a'', ''1''), (''b'', ''2'')]" by simp
  have "normalize_header (''x'', ''1'') = (''x'', ''1'')" "normalize_header (''x'', ''2'') = (''x'', ''2'')"
    "normalize_header (''host'', ''h'') = (''host'', ''h'')" by code_simp+
  then show "values_of n (map normalize_header [(''x'', ''1''), (''host'', ''h''), (''x'', ''2'')])
      = values_of n (map normalize_header [(''x'', ''1''), (''x'', ''2''), (''host'', ''h'')])" for n
    by (auto simp: values_of_def)
qed

text \<open>Signing keeps the headers it is given and adds its own.\<close>

lemma sign_adds:
  assumes "sign K sg m p q hs body cred now = Inr hs'"
  shows "\<exists>ex. hs' = hs @ ex \<and> fst ` set ex \<subseteq> {''x-amz-date'', ''x-amz-content-sha256'', ''x-amz-security-token'', ''authorization''}"
  using assms by (auto simp: sign_def Let_def session_header_def split: option.splits prod.splits)

end
