(* ===== verification/Transport.thy ===== *)
theory Transport
  imports Endpoint Files Signer
begin

text \<open>
  The transport contract of \<open>falach-sync\<close> (\<open>transport/mod.rs\<close>), its errors
  (\<open>s3/error.rs\<close>, \<open>error.rs\<close>), the in-memory transport (\<open>transport/memory.rs\<close>) and the S3
  transport with its conditional-PUT probe (\<open>transport/s3.rs\<close>). The contract is the locale
  \<open>sync_transport\<close>: it speaks about every version the remote object has had, so that it also
  covers writers that run between two calls.
\<close>

section \<open>Errors\<close>

datatype http_error = InvalidUrl string | HttpIo string | ResponseRead string | HttpConfig string | HttpOther string

datatype s3_error =
    S3NotFound | S3AuthFailed | S3PreconditionFailed | S3RemoteUnreachable string
  | ConditionalPutNotSupported | ConcurrentWriteDetected | WeakEtag | MalformedEtag etag_error
  | SignerFailed signer_error | S3Http http_error | S3Unexpected nat string

text \<open>Failures of the credential discovery (\<open>auth/error.rs\<close>); a credentials file is named by its
  path as a string.\<close>

datatype auth_error =
    RstCred1Decryption | RstCred1Malformed string
  | AwsProfileNotFound string string | AwsCredentialsFileNotFound string
  | AwsProfileMissingKey string string | AwsCredentialsFileReadFailed string io_error
  | EmptyEnvPrefix | MissingEnvVar string | AuthHomeUnresolvable
  | ImdsUnreachable string string | NoIamRole | ImdsMalformedResponse string | ImdsUnexpectedStatus nat

datatype sync_error =
    NotConfigured | RemoteUnreachable string string | AuthFailed string string
  | ConditionalPutExhausted nat | DuplicateTarget "string option" string string string
  | UnsupportedBackend string | MasterPasswordMismatch | Unresolvable string path
  | BackupFailed io_error | CredentialDecryption | SyncAuth auth_error | SyncMerge string
  | SyncS3 s3_error | SyncVault vault_error | VaultIo path io_error

definition is_precondition_failed :: "s3_error \<Rightarrow> bool" where
  "is_precondition_failed e = (e = S3PreconditionFailed \<or> e = ConcurrentWriteDetected)"

definition is_precondition_failure :: "sync_error \<Rightarrow> bool" where
  "is_precondition_failure e = (case e of SyncS3 s \<Rightarrow> is_precondition_failed s | _ \<Rightarrow> False)"

section \<open>The transport interface\<close>

type_synonym version = string
type_synonym snapshot = "version \<times> bytes"

record ('t, 'e) transport =
  tr_head :: "('t, 'e, version option) act"
  tr_fetch :: "version option \<Rightarrow> ('t, 'e, snapshot option) act"
  tr_put :: "bytes \<Rightarrow> version option \<Rightarrow> ('t, 'e, version) act"
  tr_into :: "'e \<Rightarrow> sync_error"

text \<open>
  \<open>past t\<close> lists the versions of the remote object, newest first. Every call may find that
  other writers have added versions. \<open>proper\<close> are the version names the backend can be asked for
  exactly; it only issues such names. A successful conditional PUT is a compare-and-swap: its
  version directly follows the one named by \<open>If-Match\<close>.
\<close>

locale sync_transport =
  fixes T :: "('t, 'e) transport" and past :: "'t \<Rightarrow> snapshot list" and good :: "'t \<Rightarrow> bool"
    and proper :: "version \<Rightarrow> bool"
  assumes head_law: "good t \<Longrightarrow> tr_head T t = (r, t') \<Longrightarrow> good t' \<and> (\<exists>new. past t' = new @ past t)
      \<and> (\<forall>v. r = Inr (Some v) \<longrightarrow> (\<exists>b. hd (past t') = (v, b) \<and> past t' \<noteq> []))
      \<and> (r = Inr None \<longrightarrow> past t' = [])"
    and fetch_law: "good t \<Longrightarrow> tr_fetch T p t = (f, t') \<Longrightarrow> good t' \<and> (\<exists>new. past t' = new @ past t)
      \<and> (\<forall>v b. f = Inr (Some (v, b)) \<longrightarrow> past t' \<noteq> [] \<and> hd (past t') = (v, b) \<and> p \<noteq> Some v)
      \<and> (f = Inr None \<longrightarrow> past t' \<noteq> [] \<and> (\<exists>w. p = Some w \<and> (proper w \<longrightarrow> w = fst (hd (past t')))))"
    and put_law: "good t \<Longrightarrow> tr_put T b m t = (u, t') \<Longrightarrow> good t' \<and> (\<exists>new. past t' = new @ past t)
      \<and> (\<forall>v. u = Inr v \<longrightarrow> (\<exists>pre. past t' = (v, b) # pre
           \<and> (\<forall>w. m = Some w \<longrightarrow> proper w \<longrightarrow> pre \<noteq> [] \<and> fst (hd pre) = w)))"
    and versions_unique: "good t \<Longrightarrow> distinct (map fst (past t))"
    and versions_proper: "good t \<Longrightarrow> (w, b) \<in> set (past t) \<Longrightarrow> proper w"
begin

lemma put_replaces:
  assumes "good t" "tr_put T b (Some w) t = (Inr v, t')" "(w, b0) \<in> set (past t)"
  shows "\<exists>pre. past t' = (v, b) # (w, b0) # pre"
proof -
  note law = put_law [OF assms(1,2)]
  then have g: "good t'" by blast
  from law obtain new where n: "past t' = new @ past t" by blast
  from law versions_proper [OF assms(1,3)] obtain pre where p: "past t' = (v, b) # pre" "pre \<noteq> []" "fst (hd pre) = w" by auto
  from p(2,3) obtain b1 pre' where pre: "pre = (w, b1) # pre'" by (cases pre) auto
  have "(w, b0) \<in> set (past t')" using assms(3) n by simp
  moreover have "(w, b1) \<in> set (past t')" using p(1) pre by simp
  moreover note versions_unique [OF g]
  ultimately have "b0 = b1" by (metis eq_key_imp_eq_value)
  with p(1) pre show ?thesis by simp
qed

lemma grows:
  assumes "good t"
  shows "set (past t) \<subseteq> set (past (snd (tr_head T t)))"
    and "set (past t) \<subseteq> set (past (snd (tr_fetch T p t)))"
    and "set (past t) \<subseteq> set (past (snd (tr_put T b m t)))"
  using head_law [OF assms, of "fst (tr_head T t)" "snd (tr_head T t)"]
    fetch_law [OF assms, of p "fst (tr_fetch T p t)" "snd (tr_fetch T p t)"]
    put_law [OF assms, of b m "fst (tr_put T b m t)" "snd (tr_put T b m t)"] by auto

end

section \<open>The in-memory transport\<close>

datatype memory_error = MemNotFound | MemPreconditionFailed

datatype fault_boundary = AfterBakBeforeFetch | AfterMergeBeforePut

record memory_transport =
  mt_state :: "snapshot option"
  mt_counter :: nat
  mt_panic_after :: "fault_boundary option"
  mt_fail_head :: bool

definition new_memory :: memory_transport where
  "new_memory = \<lparr>mt_state = None, mt_counter = 0, mt_panic_after = None, mt_fail_head = False\<rparr>"

definition mem_version :: "nat \<Rightarrow> version" where
  "mem_version n = ''memv-'' @ show_nat n"

definition next_version :: "memory_transport \<Rightarrow> version \<times> memory_transport" where
  "next_version m = (mem_version (mt_counter m), m\<lparr>mt_counter := Suc (mt_counter m)\<rparr>)"

text \<open>An injected fault is a panic.\<close>

definition mem_head :: "(memory_transport, memory_error fault, version option) act" where
  "mem_head m = (if mt_fail_head m then (Inl (Failed MemNotFound), m) else (Inr (map_option fst (mt_state m)), m))"

definition mem_fetch :: "version option \<Rightarrow> (memory_transport, memory_error fault, snapshot option) act" where
  "mem_fetch prev m =
     (if mt_panic_after m = Some AfterBakBeforeFetch then (Inl Panic, m)
      else case mt_state m of
        None \<Rightarrow> (Inl (Failed MemNotFound), m)
      | Some (current, bytes) \<Rightarrow>
          if prev = Some current then (Inr None, m) else (Inr (Some (current, bytes)), m))"

definition mem_put :: "bytes \<Rightarrow> version option \<Rightarrow> (memory_transport, memory_error fault, version) act" where
  "mem_put bytes if_match m =
     (if mt_panic_after m = Some AfterMergeBeforePut then (Inl Panic, m)
      else if (case (mt_state m, if_match) of
          (None, Some _) \<Rightarrow> True
        | (Some (current, _), Some prev) \<Rightarrow> current \<noteq> prev
        | _ \<Rightarrow> False)
        then (Inl (Failed MemPreconditionFailed), m)
      else (case next_version m of (v, m') \<Rightarrow> (Inr v, m'\<lparr>mt_state := Some (v, bytes)\<rparr>)))"

text \<open>The mapping into \<open>SyncError\<close> (sync.rs). A panic does not return; its image is arbitrary.\<close>

definition mem_into :: "memory_error fault \<Rightarrow> sync_error" where
  "mem_into e = (case e of
     Failed MemPreconditionFailed \<Rightarrow> SyncS3 S3PreconditionFailed
   | Failed MemNotFound \<Rightarrow> RemoteUnreachable ''<memory-transport>'' ''MemoryTransport: object not found''
   | Panic \<Rightarrow> RemoteUnreachable ''<memory-transport>'' ''panic'')"

text \<open>
  The transport shared with other writers: before each call the next batch of a schedule is
  written unconditionally. \<open>sh_past\<close> records the versions, for the statements only.
\<close>

record shared =
  sh_mem :: memory_transport
  sh_past :: "snapshot list"
  sh_others :: "bytes list list"

definition log_state :: "memory_transport \<Rightarrow> snapshot list \<Rightarrow> snapshot list" where
  "log_state m past = (case mt_state m of
     None \<Rightarrow> past
   | Some s \<Rightarrow> if past \<noteq> [] \<and> hd past = s then past else s # past)"

definition sh_call :: "(memory_transport, 'e, 'a) act \<Rightarrow> (shared, 'e, 'a) act" where
  "sh_call f s = (case f (sh_mem s) of (r, m) \<Rightarrow> (r, s\<lparr>sh_mem := m, sh_past := log_state m (sh_past s)\<rparr>))"

fun sh_writes :: "bytes list \<Rightarrow> shared \<Rightarrow> shared" where
  "sh_writes [] s = s"
| "sh_writes (b # bs) s = sh_writes bs (snd (sh_call (mem_put b None) s))"

definition interfere :: "shared \<Rightarrow> shared" where
  "interfere s = (case sh_others s of [] \<Rightarrow> s | b # bs \<Rightarrow> sh_writes b (s\<lparr>sh_others := bs\<rparr>))"

definition shared_transport :: "(shared, memory_error fault) transport" where
  "shared_transport = \<lparr>tr_head = (\<lambda>s. sh_call mem_head (interfere s)),
     tr_fetch = (\<lambda>p s. sh_call (mem_fetch p) (interfere s)),
     tr_put = (\<lambda>b m s. sh_call (mem_put b m) (interfere s)),
     tr_into = mem_into\<rparr>"

text \<open>The record agrees with the stored object, and versions below the counter are used once.\<close>

definition sh_good :: "shared \<Rightarrow> bool" where
  "sh_good s = (mt_state (sh_mem s) = (case sh_past s of [] \<Rightarrow> None | x # _ \<Rightarrow> Some x)
     \<and> distinct (map fst (sh_past s))
     \<and> (\<forall>v \<in> set (map fst (sh_past s)). \<exists>n < mt_counter (sh_mem s). v = mem_version n))"

lemma mem_version_inject: "mem_version m = mem_version n \<longleftrightarrow> m = n"
  unfolding mem_version_def by (metis decimal_show same_append_eq)

lemma sh_good_version:
  assumes "sh_good s" "v \<in> set (map fst (sh_past s))"
  shows "\<exists>n < mt_counter (sh_mem s). v = mem_version n"
proof -
  note assms(1) [unfolded sh_good_def, THEN conjunct2, THEN conjunct2]
  from bspec [OF this assms(2)] show ?thesis .
qed

definition grown :: "shared \<Rightarrow> shared \<Rightarrow> bool" where
  "grown s s' = (sh_good s' \<and> (\<exists>new. sh_past s' = new @ sh_past s))"

lemma grown_trans: "grown s s' \<Longrightarrow> grown s' s'' \<Longrightarrow> grown s s''"
  by (auto simp: grown_def)

lemma grown_refl: "sh_good s \<Longrightarrow> grown s s"
  by (auto simp: grown_def)

lemma sh_read_good:
  assumes "sh_good s" "sh_call f s = (r, s')" "snd (f (sh_mem s)) = sh_mem s"
  shows "s' = s"
  using assms by (auto simp: sh_call_def log_state_def sh_good_def split: prod.splits list.splits)

lemma sh_put_good:
  assumes g: "sh_good s" and c: "sh_call (mem_put b m) s = (r, s')"
  shows "grown s s' \<and> (\<forall>v. r = Inr v \<longrightarrow> sh_past s' = (v, b) # sh_past s
     \<and> (\<forall>w. m = Some w \<longrightarrow> sh_past s \<noteq> [] \<and> fst (hd (sh_past s)) = w))"
proof (cases r)
  case (Inl e)
  then have "snd (mem_put b m (sh_mem s)) = sh_mem s"
    using c by (auto simp: sh_call_def mem_put_def next_version_def split: if_splits)
  from sh_read_good [OF g c this] g Inl show ?thesis by (simp add: grown_refl)
next
  case (Inr v)
  let ?v = "mem_version (mt_counter (sh_mem s))"
  from c Inr have v: "v = ?v" "mt_state (sh_mem s') = Some (v, b)" "mt_counter (sh_mem s') = Suc (mt_counter (sh_mem s))"
    "sh_past s' = log_state (sh_mem s') (sh_past s)"
    by (auto simp: sh_call_def mem_put_def next_version_def split: if_splits prod.splits)
  have new: "v \<notin> set (map fst (sh_past s))"
  proof
    assume "v \<in> set (map fst (sh_past s))"
    with sh_good_version [OF g] obtain n where "n < mt_counter (sh_mem s)" "v = mem_version n" by metis
    with v(1) show False by (simp add: mem_version_inject)
  qed
  then have past: "sh_past s' = (v, b) # sh_past s"
    using v(2,4) by (cases "sh_past s") (auto simp: log_state_def)
  have "sh_good s'" unfolding sh_good_def past v(2,3)
    using g new v(1) by (auto simp: sh_good_def less_Suc_eq)
  moreover have "sh_past s \<noteq> [] \<and> fst (hd (sh_past s)) = w" if "m = Some w" for w
    using g c Inr that by (auto simp: sh_call_def mem_put_def sh_good_def split: if_splits list.splits prod.splits)
  ultimately show ?thesis using past Inr by (auto simp: grown_def)
qed

lemma sh_writes_grown: "sh_good s \<Longrightarrow> grown s (sh_writes bs s)"
proof (induction bs arbitrary: s)
  case (Cons b bs)
  obtain r s1 where c: "sh_call (mem_put b None) s = (r, s1)" by fastforce
  from sh_put_good [OF Cons.prems c] have "grown s s1" by blast
  moreover from this Cons.IH have "grown s1 (sh_writes bs s1)" by (simp add: grown_def)
  ultimately show ?case using c by (auto intro: grown_trans)
qed (simp add: grown_refl)

lemma interfere_grown: "sh_good s \<Longrightarrow> grown s (interfere s)"
  using sh_writes_grown [of "s\<lparr>sh_others := tl (sh_others s)\<rparr>" "hd (sh_others s)"]
  by (cases "sh_others s") (auto simp: interfere_def grown_def sh_good_def)

interpretation shared: sync_transport shared_transport sh_past sh_good "\<lambda>_. True"
proof
  fix t t' :: shared and r
  assume g: "sh_good t" and c: "tr_head shared_transport t = (r, t')"
  from interfere_grown [OF g] have i: "grown t (interfere t)" .
  then have gi: "sh_good (interfere t)" by (simp add: grown_def)
  from c have c': "sh_call mem_head (interfere t) = (r, t')" by (simp add: shared_transport_def)
  have "t' = interfere t" using sh_read_good [OF gi c'] by (simp add: mem_head_def)
  with i gi c' show "sh_good t' \<and> (\<exists>new. sh_past t' = new @ sh_past t)
      \<and> (\<forall>v. r = Inr (Some v) \<longrightarrow> (\<exists>b. hd (sh_past t') = (v, b) \<and> sh_past t' \<noteq> []))
      \<and> (r = Inr None \<longrightarrow> sh_past t' = [])"
    by (auto simp: grown_def sh_call_def mem_head_def sh_good_def split: if_splits list.splits)
next
  fix t t' :: shared and p f
  assume g: "sh_good t" and c: "tr_fetch shared_transport p t = (f, t')"
  from interfere_grown [OF g] have i: "grown t (interfere t)" .
  then have gi: "sh_good (interfere t)" by (simp add: grown_def)
  from c have c': "sh_call (mem_fetch p) (interfere t) = (f, t')" by (simp add: shared_transport_def)
  have "t' = interfere t" using sh_read_good [OF gi c'] by (auto simp: mem_fetch_def split: option.splits)
  with i gi c' show "sh_good t' \<and> (\<exists>new. sh_past t' = new @ sh_past t)
      \<and> (\<forall>v b. f = Inr (Some (v, b)) \<longrightarrow> sh_past t' \<noteq> [] \<and> hd (sh_past t') = (v, b) \<and> p \<noteq> Some v)
      \<and> (f = Inr None \<longrightarrow> sh_past t' \<noteq> [] \<and> (\<exists>w. p = Some w \<and> (True \<longrightarrow> w = fst (hd (sh_past t')))))"
    by (auto simp: grown_def sh_call_def mem_fetch_def sh_good_def split: if_splits list.splits)
next
  fix t t' :: shared and b m u
  assume g: "sh_good t" and c: "tr_put shared_transport b m t = (u, t')"
  from interfere_grown [OF g] have i: "grown t (interfere t)" .
  then have gi: "sh_good (interfere t)" by (simp add: grown_def)
  from c have c': "sh_call (mem_put b m) (interfere t) = (u, t')" by (simp add: shared_transport_def)
  from sh_put_good [OF gi c'] i show "sh_good t' \<and> (\<exists>new. sh_past t' = new @ sh_past t)
      \<and> (\<forall>v. u = Inr v \<longrightarrow> (\<exists>pre. sh_past t' = (v, b) # pre \<and> (\<forall>w. m = Some w \<longrightarrow> True \<longrightarrow> pre \<noteq> [] \<and> fst (hd pre) = w)))"
    using grown_trans [OF i] by (auto simp: grown_def)
qed (simp_all add: sh_good_def)

end
