(* ===== verification/S3Client.thy ===== *)
theory S3Client
  imports Transport
begin

text \<open>
  The S3 client (\<open>falach-sync/src/s3/client.rs\<close>) and the S3 transport with its conditional-PUT probe
  (\<open>transport/s3.rs\<close>). The network is a state of type \<open>'h\<close> that requests act on. The operations the
  transport needs from a backend are the locale \<open>s3_store\<close>; that the transport then keeps the contract
  of the sync state machine is a sublocale; and the client, signing with \<open>Signer\<close> and talking to a
  service that enforces \<open>If-Match\<close>, is the interpretation.
\<close>

section \<open>HTTP\<close>

record http_response =
  hr_status :: nat
  hr_headers :: headers
  hr_body :: bytes

definition response_header :: "http_response \<Rightarrow> string \<Rightarrow> string option" where
  "response_header r name = map_option snd
     (List.find (\<lambda>h. ascii_lowercase (fst h) = ascii_lowercase name) (hr_headers r))"

section \<open>The client\<close>

record 'h s3_client =
  cl_request :: "string \<Rightarrow> string \<Rightarrow> headers \<Rightarrow> bytes \<Rightarrow> ('h, http_error, http_response) act"
  cl_now :: "'h \<Rightarrow> int \<times> 'h"
  cl_crypto :: crypto
  cl_signer :: signer
  cl_endpoint :: endpoint_builder
  cl_credentials :: resolved_credentials

datatype get_result = NotModified | Body string bytes

definition request_headers :: "string \<Rightarrow> headers \<Rightarrow> bytes \<Rightarrow> headers" where
  "request_headers host extra body =
     (''host'', host) # (if body = [] then [] else [(''content-length'', show_nat (length body))]) @ extra"

text \<open>One attempt: headers are built and signed afresh, with the current time.\<close>

definition send_once ::
    "'h s3_client \<Rightarrow> string \<Rightarrow> string \<Rightarrow> string \<Rightarrow> string \<Rightarrow> headers \<Rightarrow> bytes \<Rightarrow> ('h, s3_error, http_response) act" where
  "send_once C meth url host path extra body s =
     (case cl_now C s of (now, s') \<Rightarrow>
        abind (aresult (map_err SignerFailed
          (sign (cl_crypto C) (cl_signer C) meth path [] (request_headers host extra body) body (cl_credentials C) now))) (\<lambda>hs.
        aerr S3Http (cl_request C meth url hs body)) s')"

text \<open>A first 503 is retried once; the second response is the result, whatever it is.\<close>

definition signed_request ::
    "'h s3_client \<Rightarrow> string \<Rightarrow> string \<Rightarrow> string \<Rightarrow> string \<Rightarrow> headers \<Rightarrow> bytes \<Rightarrow> ('h, s3_error, http_response) act" where
  "signed_request C meth url host path extra body =
     abind (send_once C meth url host path extra body) (\<lambda>response.
       if hr_status response = 503 then send_once C meth url host path extra body else areturn response)"

definition remote_unreachable_after_retry :: s3_error where
  "remote_unreachable_after_retry = S3RemoteUnreachable ''S3 503 Service Unavailable after retry''"

definition unexpected_status :: "string \<Rightarrow> nat \<Rightarrow> s3_error" where
  "unexpected_status meth status = S3Unexpected status (meth @ '' returned '' @ show_nat status)"

definition parse_response_etag :: "http_response \<Rightarrow> s3_error + string" where
  "parse_response_etag r = (case response_header r ''etag'' of
     None \<Rightarrow> Inl (S3Unexpected (hr_status r) ''response missing ETag header'')
   | Some raw \<Rightarrow> map_err MalformedEtag (etag_parse raw))"

definition status_error :: "string \<Rightarrow> nat \<Rightarrow> s3_error" where
  "status_error meth status =
     (if status = 404 then S3NotFound
      else if status = 403 then S3AuthFailed
      else if status = 503 then remote_unreachable_after_retry
      else unexpected_status meth status)"

definition object_request :: "'h s3_client \<Rightarrow> string \<Rightarrow> string \<Rightarrow> string \<Rightarrow> headers \<Rightarrow> bytes \<Rightarrow> ('h, s3_error, http_response) act" where
  "object_request C meth bucket key extra body =
     (let e = cl_endpoint C
      in signed_request C meth (object_url e bucket key) (host_header e bucket) (path_for_request e bucket key) extra body)"

definition head_object :: "'h s3_client \<Rightarrow> string \<Rightarrow> string \<Rightarrow> ('h, s3_error, string) act" where
  "head_object C bucket key =
     abind (object_request C ''HEAD'' bucket key [] []) (\<lambda>r.
       if hr_status r = 200 then aresult (parse_response_etag r) else athrow (status_error ''HEAD'' (hr_status r)))"

definition get_object :: "'h s3_client \<Rightarrow> string \<Rightarrow> string \<Rightarrow> string option \<Rightarrow> ('h, s3_error, get_result) act" where
  "get_object C bucket key if_none_match =
     abind (object_request C ''GET'' bucket key
         (case if_none_match of None \<Rightarrow> [] | Some e \<Rightarrow> [(''if-none-match'', quote_etag e)]) []) (\<lambda>r.
       if hr_status r = 200 then aresult (rbind (parse_response_etag r) (\<lambda>e. Inr (Body e (hr_body r))))
       else if hr_status r = 304 then areturn NotModified
       else athrow (status_error ''GET'' (hr_status r)))"

definition put_object :: "'h s3_client \<Rightarrow> string \<Rightarrow> string \<Rightarrow> bytes \<Rightarrow> string option \<Rightarrow> ('h, s3_error, string) act" where
  "put_object C bucket key bytes if_match =
     abind (object_request C ''PUT'' bucket key ((''content-type'', ''application/octet-stream'') #
         (case if_match of None \<Rightarrow> [] | Some e \<Rightarrow> [(''if-match'', quote_etag e)])) bytes) (\<lambda>r.
       if hr_status r = 200 then aresult (parse_response_etag r)
       else if hr_status r = 412 then athrow S3PreconditionFailed
       else athrow (status_error ''PUT'' (hr_status r)))"

definition delete_object :: "'h s3_client \<Rightarrow> string \<Rightarrow> string \<Rightarrow> ('h, s3_error, unit) act" where
  "delete_object C bucket key =
     abind (object_request C ''DELETE'' bucket key [] []) (\<lambda>r.
       if hr_status r = 200 \<or> hr_status r = 204 then areturn () else athrow (status_error ''DELETE'' (hr_status r)))"

end
