(* ===== verification/S3Transport.thy ===== *)
theory S3Transport
  imports S3Client
begin

text \<open>
  The S3 transport (\<open>falach-sync/src/transport/s3.rs\<close>): head, fetch and conditional put over any
  backend, the probe that finds out whether the backend enforces \<open>If-Match\<close>, and the degraded path for
  those that do not. \<open>s3_store\<close> states what an enforcing backend promises; over it the transport keeps the
  contract of the sync state machine (\<open>sublocale\<close>). The interpretation is the client of \<open>S3Client\<close> talking
  to an object store over HTTP that answers 503, drops connections before or after taking effect, and
  serves other writers.
\<close>

section \<open>State\<close>

record 'h s3_backend =
  be_head :: "string \<Rightarrow> string \<Rightarrow> ('h, s3_error, string) act"
  be_get :: "string \<Rightarrow> string \<Rightarrow> string option \<Rightarrow> ('h, s3_error, get_result) act"
  be_put :: "string \<Rightarrow> string \<Rightarrow> bytes \<Rightarrow> string option \<Rightarrow> ('h, s3_error, string) act"
  be_delete :: "string \<Rightarrow> string \<Rightarrow> ('h, s3_error, unit) act"

definition client_backend :: "'h s3_client \<Rightarrow> 'h s3_backend" where
  "client_backend C = \<lparr>be_head = head_object C, be_get = get_object C, be_put = put_object C, be_delete = delete_object C\<rparr>"

datatype if_match_support = Unknown | Supported | Degraded

text \<open>\<open>st_reports\<close> are the calls of the persistence callback; \<open>st_nanos\<close> the clock readings to come.\<close>

record 'h s3_transport =
  st_net :: 'h
  st_bucket :: string
  st_key :: string
  st_cached :: "version option"
  st_if_match :: if_match_support
  st_reports :: "if_match_support list"
  st_nanos :: "nat list"
  st_counter :: "64 word"

definition with_if_match_state :: "'h \<Rightarrow> string \<Rightarrow> string \<Rightarrow> if_match_support \<Rightarrow> 'h s3_transport" where
  "with_if_match_state net bucket key support = \<lparr>st_net = net, st_bucket = bucket, st_key = key, st_cached = None,
     st_if_match = support, st_reports = [], st_nanos = [], st_counter = 0\<rparr>"

definition on_net :: "('h, s3_error, 'a) act \<Rightarrow> ('h s3_transport, s3_error, 'a) act" where
  "on_net f t = (case f (st_net t) of (r, h) \<Rightarrow> (r, t\<lparr>st_net := h\<rparr>))"

definition set_cached_version :: "version \<Rightarrow> ('h s3_transport, s3_error, unit) act" where
  "set_cached_version v = aupdate (\<lambda>t. t\<lparr>st_cached := Some v\<rparr>)"

definition record_if_match_classification :: "if_match_support \<Rightarrow> 'h s3_transport \<Rightarrow> 'h s3_transport" where
  "record_if_match_classification c t = t\<lparr>st_if_match := c, st_reports := st_reports t @ [c]\<rparr>"

section \<open>The probe\<close>

definition probe_if_match :: string where
  "probe_if_match = ''00000000000000000000000000000000''"

definition suffix_alphabet :: string where
  "suffix_alphabet = ''abcdefghijklmnopqrstuvwxyz0123456789''"

fun suffix_chars :: "nat \<Rightarrow> 64 word \<Rightarrow> string" where
  "suffix_chars 0 seed = []"
| "suffix_chars (Suc n) seed = suffix_alphabet ! unat (seed mod 36) # suffix_chars n (seed div 36)"

definition probe_suffix :: "nat \<Rightarrow> 64 word \<Rightarrow> string" where
  "probe_suffix nanos counter = suffix_chars 6 (of_nat nanos * 0x9E3779B97F4A7C15 + counter)"

definition take_suffix :: "'h s3_transport \<Rightarrow> string \<times> 'h s3_transport" where
  "take_suffix t = (case st_nanos t of
     [] \<Rightarrow> (probe_suffix 0 (st_counter t), t\<lparr>st_counter := st_counter t + 1\<rparr>)
   | n # ns \<Rightarrow> (probe_suffix n (st_counter t), t\<lparr>st_counter := st_counter t + 1, st_nanos := ns\<rparr>))"

definition classify :: "s3_error + string \<Rightarrow> if_match_support option" where
  "classify r = (case r of
     Inl S3PreconditionFailed \<Rightarrow> Some Supported
   | Inl S3NotFound \<Rightarrow> Some Supported
   | Inr _ \<Rightarrow> Some Degraded
   | Inl _ \<Rightarrow> None)"

definition probe_body :: bytes where
  "probe_body = as_bytes ''falach-probe''"

definition probe_if_match_support :: "'h s3_backend \<Rightarrow> 'h s3_transport \<Rightarrow> 'h s3_transport" where
  "probe_if_match_support B t =
     (case take_suffix t of (suffix, t1) \<Rightarrow>
      let probe_key = st_key t @ ''.falach-probe-'' @ suffix in
      case on_net (be_put B (st_bucket t) probe_key probe_body (Some probe_if_match)) t1 of (r, t2) \<Rightarrow>
      case on_net (be_delete B (st_bucket t) probe_key) t2 of (_, t3) \<Rightarrow>
      case classify r of None \<Rightarrow> t3 | Some c \<Rightarrow> record_if_match_classification c t3)"

section \<open>The transport operations\<close>

definition s3_head :: "'h s3_backend \<Rightarrow> ('h s3_transport, s3_error, version option) act" where
  "s3_head B t = (case on_net (be_head B (st_bucket t) (st_key t)) t of
     (Inr e, t') \<Rightarrow> (Inr (Some e), t'\<lparr>st_cached := Some e\<rparr>)
   | (Inl S3NotFound, t') \<Rightarrow> (Inr None, t'\<lparr>st_cached := None\<rparr>)
   | (Inl e, t') \<Rightarrow> (Inl e, t'))"

definition s3_fetch :: "'h s3_backend \<Rightarrow> version option \<Rightarrow> ('h s3_transport, s3_error, snapshot option) act" where
  "s3_fetch B prev t = abind (on_net (be_get B (st_bucket t) (st_key t) prev)) (\<lambda>g. case g of
     NotModified \<Rightarrow> areturn None
   | Body e b \<Rightarrow> abind (set_cached_version e) (\<lambda>_. areturn (Some (e, b)))) t"

definition s3_put_unconditional :: "'h s3_backend \<Rightarrow> bytes \<Rightarrow> ('h s3_transport, s3_error, version) act" where
  "s3_put_unconditional B bytes t =
     abind (on_net (be_put B (st_bucket t) (st_key t) bytes None)) (\<lambda>e.
     abind (set_cached_version e) (\<lambda>_. areturn e)) t"

definition s3_put_enforced :: "'h s3_backend \<Rightarrow> bytes \<Rightarrow> version \<Rightarrow> ('h s3_transport, s3_error, version) act" where
  "s3_put_enforced B bytes prev t =
     abind (on_net (be_put B (st_bucket t) (st_key t) bytes (Some prev))) (\<lambda>e.
     abind (set_cached_version e) (\<lambda>_. areturn e)) t"

definition s3_put_degraded :: "'h s3_backend \<Rightarrow> bytes \<Rightarrow> ('h s3_transport, s3_error, version) act" where
  "s3_put_degraded B bytes t =
     abind (on_net (be_put B (st_bucket t) (st_key t) bytes None)) (\<lambda>put_etag.
     abind (on_net (be_head B (st_bucket t) (st_key t))) (\<lambda>head_etag.
       if head_etag \<noteq> put_etag then athrow ConcurrentWriteDetected
       else abind (set_cached_version put_etag) (\<lambda>_. areturn put_etag))) t"

definition s3_put :: "'h s3_backend \<Rightarrow> bytes \<Rightarrow> version option \<Rightarrow> ('h s3_transport, s3_error, version) act" where
  "s3_put B bytes if_match t = (case if_match of
     None \<Rightarrow> s3_put_unconditional B bytes t
   | Some prev \<Rightarrow>
       (let t' = (if st_if_match t = Unknown then probe_if_match_support B t else t)
        in if st_if_match t' = Degraded then s3_put_degraded B bytes t' else s3_put_enforced B bytes prev t'))"

definition s3_transport_ops :: "'h s3_backend \<Rightarrow> ('h s3_transport, s3_error) transport" where
  "s3_transport_ops B = \<lparr>tr_head = s3_head B, tr_fetch = s3_fetch B, tr_put = s3_put B, tr_into = SyncS3\<rparr>"

section \<open>An enforcing backend\<close>

definition probe_key_of :: "string \<Rightarrow> string \<Rightarrow> string" where
  "probe_key_of key suffix = key @ ''.falach-probe-'' @ suffix"

definition net_past :: "('h \<Rightarrow> snapshot list) \<Rightarrow> 'h s3_transport \<Rightarrow> snapshot list" where
  "net_past past t = past (st_net t)"

definition net_good :: "('h \<Rightarrow> bool) \<Rightarrow> string \<Rightarrow> string \<Rightarrow> 'h s3_transport \<Rightarrow> bool" where
  "net_good good bucket key t = (good (st_net t) \<and> st_bucket t = bucket \<and> st_key t = key \<and> st_if_match t \<noteq> Degraded)"

locale s3_store =
  fixes B :: "'h s3_backend" and bucket key :: string and past :: "'h \<Rightarrow> snapshot list" and good :: "'h \<Rightarrow> bool"
    and proper :: "version \<Rightarrow> bool"
  assumes head_ok: "good h \<Longrightarrow> be_head B bucket key h = (r, h') \<Longrightarrow> good h' \<and> (\<exists>new. past h' = new @ past h)
      \<and> (\<forall>v. r = Inr v \<longrightarrow> (\<exists>b. hd (past h') = (v, b) \<and> past h' \<noteq> []))
      \<and> (r = Inl S3NotFound \<longrightarrow> past h' = [])"
    and get_ok: "good h \<Longrightarrow> be_get B bucket key p h = (g, h') \<Longrightarrow> good h' \<and> (\<exists>new. past h' = new @ past h)
      \<and> (\<forall>v b. g = Inr (Body v b) \<longrightarrow> past h' \<noteq> [] \<and> hd (past h') = (v, b) \<and> p \<noteq> Some v)
      \<and> (g = Inr NotModified \<longrightarrow> past h' \<noteq> [] \<and> (\<exists>w. p = Some w \<and> (proper w \<longrightarrow> w = fst (hd (past h')))))"
    and put_ok: "good h \<Longrightarrow> be_put B bucket key b m h = (u, h') \<Longrightarrow> good h' \<and> (\<exists>new. past h' = new @ past h)
      \<and> (\<forall>v. u = Inr v \<longrightarrow> (\<exists>pre. past h' = (v, b) # pre
           \<and> (\<forall>w. m = Some w \<longrightarrow> proper w \<longrightarrow> pre \<noteq> [] \<and> fst (hd pre) = w)))"
    and probe_ok: "good h \<Longrightarrow> be_put B bucket (probe_key_of key x) b (Some probe_if_match) h = (u, h')
      \<Longrightarrow> good h' \<and> (\<exists>new. past h' = new @ past h) \<and> (\<forall>v. u \<noteq> Inr v)"
    and cleanup_ok: "good h \<Longrightarrow> be_delete B bucket (probe_key_of key x) h = (d, h')
      \<Longrightarrow> good h' \<and> (\<exists>new. past h' = new @ past h)"
    and distinct_ok: "good h \<Longrightarrow> distinct (map fst (past h))"
    and proper_ok: "good h \<Longrightarrow> (w, b) \<in> set (past h) \<Longrightarrow> proper w"
begin

text \<open>The probe never calls an enforcing backend degraded.\<close>

lemma probe_keeps:
  assumes "net_good good bucket key t"
  shows "net_good good bucket key (probe_if_match_support B t) \<and> (\<exists>new. net_past past (probe_if_match_support B t) = new @ net_past past t)"
proof -
  obtain x t1 where x: "take_suffix t = (x, t1)" by fastforce
  then have t1: "st_net t1 = st_net t" "st_bucket t1 = st_bucket t" "st_key t1 = st_key t" "st_if_match t1 = st_if_match t"
    by (auto simp: take_suffix_def split: list.splits)
  let ?k = "probe_key_of key x"
  obtain r h1 where p: "be_put B bucket ?k probe_body (Some probe_if_match) (st_net t) = (r, h1)" by fastforce
  obtain d h2 where c: "be_delete B bucket ?k h1 = (d, h2)" by fastforce
  from assms have g: "good (st_net t)" and k: "st_bucket t = bucket" "st_key t = key" "st_if_match t \<noteq> Degraded"
    by (auto simp: net_good_def)
  from probe_ok [OF g p] obtain n1 where 1: "good h1" "past h1 = n1 @ past (st_net t)" "\<And>v. r \<noteq> Inr v" by blast
  from cleanup_ok [OF 1(1) c] obtain n2 where 2: "good h2" "past h2 = n2 @ past h1" by blast
  from 1(3) have cl: "classify r = None \<or> classify r = Some Supported"
    by (cases r) (auto simp: classify_def split: s3_error.splits)
  have "probe_if_match_support B t = (case classify r of None \<Rightarrow> t1\<lparr>st_net := h2\<rparr>
      | Some c \<Rightarrow> record_if_match_classification c (t1\<lparr>st_net := h2\<rparr>))"
    using x p c t1 k by (simp add: probe_if_match_support_def on_net_def probe_key_of_def Let_def)
  with cl 1 2 t1 k show ?thesis
    by (auto simp: record_if_match_classification_def net_good_def net_past_def)
qed

lemma head_contract:
  assumes g: "net_good good bucket key t" and c: "s3_head B t = (r, t')"
  shows "net_good good bucket key t' \<and> (\<exists>new. net_past past t' = new @ net_past past t)
      \<and> (\<forall>v. r = Inr (Some v) \<longrightarrow> (\<exists>b. hd (net_past past t') = (v, b) \<and> net_past past t' \<noteq> []))
      \<and> (r = Inr None \<longrightarrow> net_past past t' = [])"
proof -
  obtain q h where h: "be_head B bucket key (st_net t) = (q, h)" by fastforce
  from g have "good (st_net t)" by (simp add: net_good_def)
  from head_ok [OF this h] g c h show ?thesis
    by (cases q) (auto simp: s3_head_def on_net_def net_good_def net_past_def split: s3_error.splits)
qed

lemma fetch_contract:
  assumes g: "net_good good bucket key t" and c: "s3_fetch B p t = (f, t')"
  shows "net_good good bucket key t' \<and> (\<exists>new. net_past past t' = new @ net_past past t)
      \<and> (\<forall>v b. f = Inr (Some (v, b)) \<longrightarrow> net_past past t' \<noteq> [] \<and> hd (net_past past t') = (v, b) \<and> p \<noteq> Some v)
      \<and> (f = Inr None \<longrightarrow> net_past past t' \<noteq> []
           \<and> (\<exists>w. p = Some w \<and> (proper w \<longrightarrow> w = fst (hd (net_past past t')))))"
proof -
  obtain q h where h: "be_get B bucket key p (st_net t) = (q, h)" by fastforce
  from g have "good (st_net t)" by (simp add: net_good_def)
  from get_ok [OF this h] g c h show ?thesis
    by (cases q) (auto simp: s3_fetch_def on_net_def net_good_def net_past_def abind_def set_cached_version_def
        split: get_result.splits)
qed

lemma plain_put_contract:
  assumes g: "net_good good bucket key t"
    and c: "abind (on_net (be_put B (st_bucket t) (st_key t) b m)) (\<lambda>e. abind (set_cached_version e) (\<lambda>_. areturn e)) t = (u, t')"
  shows "net_good good bucket key t' \<and> (\<exists>new. net_past past t' = new @ net_past past t)
      \<and> (\<forall>v. u = Inr v \<longrightarrow> (\<exists>pre. net_past past t' = (v, b) # pre
           \<and> (\<forall>w. m = Some w \<longrightarrow> proper w \<longrightarrow> pre \<noteq> [] \<and> fst (hd pre) = w)))"
proof -
  obtain q h where h: "be_put B bucket key b m (st_net t) = (q, h)" by fastforce
  from g have "good (st_net t)" by (simp add: net_good_def)
  note law = put_ok [OF this h]
  have "u = q" "st_net t' = h" "st_bucket t' = st_bucket t" "st_key t' = st_key t" "st_if_match t' = st_if_match t"
    using g c h by (cases q; auto simp: on_net_def net_good_def abind_def set_cached_version_def)+
  then have "u = q" "net_past past t' = past h" "net_good good bucket key t' = good h"
    using g by (simp_all add: net_past_def net_good_def)
  with law show ?thesis unfolding net_past_def [of past t] by simp
qed

lemma put_contract:
  assumes g: "net_good good bucket key t" and c: "s3_put B b m t = (u, t')"
  shows "net_good good bucket key t' \<and> (\<exists>new. net_past past t' = new @ net_past past t)
      \<and> (\<forall>v. u = Inr v \<longrightarrow> (\<exists>pre. net_past past t' = (v, b) # pre
           \<and> (\<forall>w. m = Some w \<longrightarrow> proper w \<longrightarrow> pre \<noteq> [] \<and> fst (hd pre) = w)))"
proof (cases m)
  case None
  with c have "abind (on_net (be_put B (st_bucket t) (st_key t) b m)) (\<lambda>e. abind (set_cached_version e) (\<lambda>_. areturn e)) t = (u, t')"
    by (simp add: s3_put_def s3_put_unconditional_def)
  from plain_put_contract [OF g this] show ?thesis .
next
  case (Some w)
  define t1 where "t1 = (if st_if_match t = Unknown then probe_if_match_support B t else t)"
  have g1: "net_good good bucket key t1" and n1: "\<exists>new. net_past past t1 = new @ net_past past t"
    using probe_keeps [OF g] g by (auto simp: t1_def)
  then have "st_if_match t1 \<noteq> Degraded" by (simp add: net_good_def)
  with c Some have "s3_put_enforced B b w t1 = (u, t')" by (simp add: s3_put_def t1_def Let_def)
  then have "abind (on_net (be_put B (st_bucket t1) (st_key t1) b m)) (\<lambda>e. abind (set_cached_version e) (\<lambda>_. areturn e)) t1 = (u, t')"
    by (simp add: s3_put_enforced_def Some)
  note p = plain_put_contract [OF g1 this]
  with n1 have "\<exists>new. net_past past t' = new @ net_past past t" by (metis append.assoc)
  with p show ?thesis by blast
qed

end

sublocale s3_store \<subseteq> contract: sync_transport "s3_transport_ops B" "net_past past" "net_good good bucket key" proper
proof (unfold_locales, goal_cases)
  case (1 t r t')
  then show ?case by (intro head_contract) (simp_all add: s3_transport_ops_def)
next
  case (2 t p f t')
  then show ?case by (intro fetch_contract) (simp_all add: s3_transport_ops_def)
next
  case (3 t b m u t')
  then show ?case by (intro put_contract) (simp_all add: s3_transport_ops_def)
next
  case (4 t)
  then show ?case using distinct_ok by (simp add: net_good_def net_past_def)
next
  case (5 t w b)
  then show ?case using proper_ok by (auto simp: net_good_def net_past_def)
qed

end
