(* ===== verification/Atomic.thy ===== *)
theory Atomic
  imports Files
begin

text \<open>
  Atomic file replacement (\<open>falach-core/src/atomic.rs\<close>): the sequence of system calls of
  \<open>write_atomic\<close> and \<open>write_atomic_with\<close>, each of which the environment lets succeed, fail
  with an error, or kill the process at. A killed process runs no destructor, so its temp
  file stays. The debug-only fault signals are the identity here, as in a release build.
\<close>

section \<open>The environment of one write\<close>

datatype syscall =
    CallReadDir | CallEntry path | CallOpen path | CallTryLock path | CallRemove path
  | CallCreateTemp | CallLockTemp | CallWrite | CallSyncFile | CallRename | CallOpenDir | CallDropTemp

datatype trouble = Fails io_error | Dies

datatype stop = Err vault_error | Killed

record write_env =
  we_trouble :: "syscall \<Rightarrow> trouble option"
  we_suffix :: string
  we_partial :: bytes

type_synonym 'a fs_act = "(fs, stop, 'a) act"

definition temp_prefix :: string where
  "temp_prefix = ''.falach-tmp-''"

definition is_temp :: "path \<Rightarrow> bool" where
  "is_temp p = (p \<noteq> [] \<and> take (length temp_prefix) (last p) = temp_prefix)"

definition temp_path :: "write_env \<Rightarrow> path \<Rightarrow> path" where
  "temp_path e parent = parent @ [temp_prefix @ we_suffix e]"

text \<open>A system call that changes the file system by \<open>g\<close> when it succeeds.\<close>

definition syscall :: "write_env \<Rightarrow> syscall \<Rightarrow> path \<Rightarrow> (fs \<Rightarrow> fs) \<Rightarrow> unit fs_act" where
  "syscall e c p g f = (case we_trouble e c of
     None \<Rightarrow> (Inr (), g f)
   | Some (Fails err) \<Rightarrow> (Inl (Err (VIo err p)), f)
   | Some Dies \<Rightarrow> (Inl Killed, f))"

section \<open>Stale temp files\<close>

definition held_by_other :: "fs \<Rightarrow> path \<Rightarrow> bool" where
  "held_by_other f p = (case hget (fs_names f) p of None \<Rightarrow> False | Some i \<Rightarrow> i_held (fs_inodes f i))"

definition remove_stale :: "write_env \<Rightarrow> path \<Rightarrow> unit fs_act" where
  "remove_stale e p =
     (if we_trouble e (CallOpen p) = Some (Fails IoNotFound) then areturn ()
      else
        abind (syscall e (CallOpen p) p id) (\<lambda>_ f.
          if held_by_other f p then (Inr (), f)
          else abind (syscall e (CallTryLock p) p id) (\<lambda>_.
               syscall e (CallRemove p) p (fs_unlink p)) f))"

fun cleanup_loop :: "write_env \<Rightarrow> path \<Rightarrow> path list \<Rightarrow> unit fs_act" where
  "cleanup_loop e parent [] = areturn ()"
| "cleanup_loop e parent (p # ps) =
     abind (syscall e (CallEntry p) parent id) (\<lambda>_.
     abind (if is_temp p then remove_stale e p else areturn ()) (\<lambda>_.
     cleanup_loop e parent ps))"

definition dir_entries :: "fs \<Rightarrow> path \<Rightarrow> path list" where
  "dir_entries f parent = filter (\<lambda>p. path_parent p = Some parent) (hkeys (fs_names f))"

definition cleanup_stale_temp_files :: "write_env \<Rightarrow> path \<Rightarrow> unit fs_act" where
  "cleanup_stale_temp_files e parent =
     abind (syscall e CallReadDir parent id) (\<lambda>_ f. cleanup_loop e parent (dir_entries f parent) f)"

section \<open>The write\<close>

definition new_temp_file :: "write_env \<Rightarrow> path \<Rightarrow> path fs_act" where
  "new_temp_file e parent =
     abind (syscall e CallCreateTemp parent (fs_create (temp_path e parent)))
       (\<lambda>_. areturn (temp_path e parent))"

definition lock_temp_file :: "write_env \<Rightarrow> path \<Rightarrow> path \<Rightarrow> unit fs_act" where
  "lock_temp_file e temp target =
     syscall e CallLockTemp target (fs_inode temp (\<lambda>n. n\<lparr>i_held := True\<rparr>))"

text \<open>Dropping a \<open>NamedTempFile\<close> closes and unlinks it; an error of the unlink is ignored.\<close>

definition drop_temp :: "write_env \<Rightarrow> path \<Rightarrow> fs \<Rightarrow> fs" where
  "drop_temp e temp f =
     (let f = fs_inode temp (\<lambda>n. n\<lparr>i_held := False\<rparr>) f in
      case we_trouble e CallDropTemp of None \<Rightarrow> fs_unlink temp f | Some _ \<Rightarrow> f)"

text \<open>The body that owns the temp file: any error return drops it.\<close>

definition with_temp :: "write_env \<Rightarrow> path \<Rightarrow> unit fs_act \<Rightarrow> unit fs_act" where
  "with_temp e temp body f = (case body f of
     (Inl (Err v), f') \<Rightarrow> (Inl (Err v), drop_temp e temp f')
   | r \<Rightarrow> r)"

text \<open>
  The writer: \<open>write_all\<close>, or the closure of the streaming variant. When it fails or dies,
  an arbitrary part of the data may have reached the temp file.
\<close>

definition write_data :: "path \<Rightarrow> bytes \<Rightarrow> fs \<Rightarrow> fs" where
  "write_data temp bs = fs_inode temp (\<lambda>n. n\<lparr>i_data := i_data n @ bs, i_synced := False\<rparr>)"

definition run_writer :: "write_env \<Rightarrow> path \<Rightarrow> path \<Rightarrow> vault_error + bytes \<Rightarrow> unit fs_act" where
  "run_writer e temp target w f = (case w of
     Inl v \<Rightarrow> (Inl (Err v), write_data temp (we_partial e) f)
   | Inr bs \<Rightarrow> (case we_trouble e CallWrite of
         None \<Rightarrow> (Inr (), write_data temp bs f)
       | Some (Fails err) \<Rightarrow> (Inl (Err (VIo err target)), write_data temp (we_partial e) f)
       | Some Dies \<Rightarrow> (Inl Killed, write_data temp (we_partial e) f)))"

definition persist :: "write_env \<Rightarrow> path \<Rightarrow> path \<Rightarrow> unit fs_act" where
  "persist e temp target f =
     (if hget (fs_names f) temp = None then (Inl (Err (VIo IoNotFound target)), f)
      else syscall e CallRename target
        (\<lambda>f. fs_inode target (\<lambda>n. n\<lparr>i_held := False\<rparr>) (fs_rename temp target f)) f)"

definition sync_parent_dir :: "write_env \<Rightarrow> path \<Rightarrow> unit fs_act" where
  "sync_parent_dir e parent = syscall e CallOpenDir parent (fs_sync_dir parent)"

definition temp_body :: "write_env \<Rightarrow> path \<Rightarrow> path \<Rightarrow> vault_error + bytes \<Rightarrow> unit fs_act" where
  "temp_body e temp target w =
     abind (lock_temp_file e temp target) (\<lambda>_.
     abind (run_writer e temp target w) (\<lambda>_.
     abind (syscall e CallSyncFile target (fs_inode temp (\<lambda>n. n\<lparr>i_synced := True\<rparr>))) (\<lambda>_.
     persist e temp target)))"

definition write_atomic_with :: "write_env \<Rightarrow> path \<Rightarrow> vault_error + bytes \<Rightarrow> unit fs_act" where
  "write_atomic_with e target w = (case path_parent target of
     None \<Rightarrow> athrow (Err (VIo IoInvalidInput target))
   | Some parent \<Rightarrow>
       abind (cleanup_stale_temp_files e parent) (\<lambda>_.
       abind (new_temp_file e parent) (\<lambda>temp.
       abind (with_temp e temp (temp_body e temp target w)) (\<lambda>_.
       sync_parent_dir e parent))))"

definition write_atomic :: "write_env \<Rightarrow> path \<Rightarrow> bytes \<Rightarrow> unit fs_act" where
  "write_atomic e target bs = write_atomic_with e target (Inr bs)"

section \<open>Crash safety\<close>

text \<open>Every binding a power loss can reveal at \<open>T\<close> shows the content \<open>old\<close>.\<close>

definition settled :: "fs \<Rightarrow> path \<Rightarrow> bytes option \<Rightarrow> bool" where
  "settled f T old = (fs_saved f T \<noteq> [] \<and> list_all (\<lambda>b. case b of
       None \<Rightarrow> old = None
     | Some i \<Rightarrow> i < fs_next f \<and> i_synced (fs_inodes f i) \<and> old = Some (i_data (fs_inodes f i)))
     (fs_saved f T))"

lemma settled_crash: "settled f T old \<Longrightarrow> crash_reads f T c \<Longrightarrow> c = old"
  by (fastforce simp: settled_def crash_reads_def list_all_iff list_ex_iff split: option.splits)

text \<open>While the temp file is written: its inode is none that the target may show.\<close>

definition writing :: "path \<Rightarrow> bytes option \<Rightarrow> path \<Rightarrow> fs \<Rightarrow> bool" where
  "writing T old temp f = (settled f T old \<and> (\<exists>j. hget (fs_names f) temp = Some j \<and> Some j \<notin> set (fs_saved f T)
     \<and> j < fs_next f))"

definition written :: "path \<Rightarrow> bytes option \<Rightarrow> path \<Rightarrow> bytes \<Rightarrow> bool \<Rightarrow> fs \<Rightarrow> bool" where
  "written T old temp bs synced f = (settled f T old \<and> (\<exists>j. hget (fs_names f) temp = Some j
     \<and> Some j \<notin> set (fs_saved f T) \<and> j < fs_next f \<and> i_data (fs_inodes f j) = bs
     \<and> (synced \<longrightarrow> i_synced (fs_inodes f j))))"

text \<open>After the rename a power loss shows the old or the new content.\<close>

definition replaced :: "path \<Rightarrow> bytes option \<Rightarrow> bytes \<Rightarrow> fs \<Rightarrow> bool" where
  "replaced T old bs f = ((\<forall>c. crash_reads f T c \<longrightarrow> c = old \<or> c = Some bs)
     \<and> (\<exists>j. hget (fs_names f) T = Some j \<and> i_synced (fs_inodes f j) \<and> i_data (fs_inodes f j) = bs))"

lemma settled_unlink: "settled f T old \<Longrightarrow> p \<noteq> T \<Longrightarrow> settled (fs_unlink p f) T old"
  by (auto simp: settled_def fs_unlink_def list_all_iff split: option.splits)

lemma settled_create:
  assumes "settled f T old" "p \<noteq> T" shows "written T old p [] False (fs_create p f)"
proof -
  have "Some (fs_next f) \<notin> set (fs_saved f T)" using assms(1) by (auto simp: settled_def list_all_iff)
  with assms show ?thesis
    by (fastforce simp: written_def settled_def list_all_iff fs_create_def fs_bind_def split: option.splits)
qed

lemma writing_inode: "writing T old p f \<Longrightarrow> writing T old p (fs_inode p g f)"
  by (fastforce simp: writing_def settled_def list_all_iff fs_inode_def split: option.splits)

lemma writing_settled: "writing T old p f \<Longrightarrow> settled f T old"
  by (simp add: writing_def)

lemma writing_data: "written T old p bs b f \<Longrightarrow> writing T old p f"
  by (auto simp: writing_def written_def)

lemma settled_drop: "writing T old p f \<Longrightarrow> p \<noteq> T \<Longrightarrow> settled (drop_temp e p f) T old"
  using writing_inode [of T old p f] by (auto simp: drop_temp_def Let_def writing_def settled_unlink split: option.splits)

lemma ahoare_syscall:
  assumes "\<And>f. P f \<Longrightarrow> Q () (g f)" "\<And>s f. P f \<Longrightarrow> E s f"
  shows "ahoare P (syscall e c p g) Q E"
  using assms by (auto simp: ahoare_def syscall_def split: option.splits trouble.splits)

lemma ahoare_syscall_id: "ahoare P (syscall e c p id) (\<lambda>_. P) (\<lambda>_. P)"
  by (rule ahoare_syscall) auto

text \<open>An invariant that unlinking temp names and the system calls keep survives the cleanup.\<close>

lemma cleanup_keeps:
  assumes "\<And>p f. is_temp p \<Longrightarrow> P f \<Longrightarrow> P (fs_unlink p f)"
  shows "ahoare P (cleanup_stale_temp_files e parent) (\<lambda>_. P) (\<lambda>_. P)"
proof -
  have stale: "ahoare P (remove_stale e p) (\<lambda>_. P) (\<lambda>_. P)" if "is_temp p" for p
    unfolding ahoare_keeps using assms [OF that]
    by (auto simp: remove_stale_def abind_def syscall_def split: option.splits trouble.splits)
  have loop: "ahoare P (cleanup_loop e parent ps) (\<lambda>_. P) (\<lambda>_. P)" for ps
  proof (induction ps)
    case (Cons p ps)
    have "ahoare P (if is_temp p then remove_stale e p else areturn ()) (\<lambda>_. P) (\<lambda>_. P)"
      using stale by (auto intro: ahoare_return)
    with Cons show ?case
      by (auto intro!: ahoare_bind [of P _ "\<lambda>_. P"] ahoare_syscall_id)
  next
    case Nil
    show ?case unfolding cleanup_loop.simps by (rule ahoare_return)
  qed
  have "ahoare P (\<lambda>f. cleanup_loop e parent (dir_entries f parent) f) (\<lambda>_. P) (\<lambda>_. P)"
    using loop by (simp add: ahoare_keeps)
  then show ?thesis unfolding cleanup_stale_temp_files_def
    by (auto intro!: ahoare_bind [of P _ "\<lambda>_. P"] ahoare_syscall_id)
qed

lemma writer_ok:
  assumes "temp \<noteq> T"
  shows "ahoare (writing T old temp) (run_writer e temp target w)
     (\<lambda>_ f. writing T old temp f) (\<lambda>_ f. writing T old temp f)"
  unfolding ahoare_keeps
  by (auto simp: run_writer_def write_data_def writing_inode split: sum.splits option.splits trouble.splits)

text \<open>The owner of the temp file, up to the rename.\<close>

definition intact :: "path \<Rightarrow> bytes option \<Rightarrow> stop \<Rightarrow> fs \<Rightarrow> bool" where
  "intact T old s f = (\<forall>c. crash_reads f T c \<longrightarrow> c = old)"

lemma settled_intact: "settled f T old \<Longrightarrow> intact T old s f"
  by (auto simp: intact_def dest: settled_crash)

lemma written_rename:
  assumes w: "written T old temp bs True f" and "temp \<noteq> T"
  shows "replaced T old bs (fs_inode T (\<lambda>n. n\<lparr>i_held := False\<rparr>) (fs_rename temp T f))"
proof -
  from w obtain j where j: "hget (fs_names f) temp = Some j" "Some j \<notin> set (fs_saved f T)"
    "i_data (fs_inodes f j) = bs" "i_synced (fs_inodes f j)" and s: "settled f T old"
    by (auto simp: written_def)
  let ?f = "fs_rename temp T f"
  have names: "hget (fs_names ?f) T = Some j" "fs_saved ?f T = fs_saved f T @ [Some j]" "fs_inodes ?f = fs_inodes f"
    using j assms(2) by (auto simp: fs_rename_def fs_bind_def fs_unlink_def)
  then show ?thesis using s j
    by (fastforce simp: replaced_def fs_inode_def crash_reads_def settled_def list_all_iff list_ex_iff
        split: option.splits)
qed

lemma body_replaces:
  assumes "temp \<noteq> T"
  shows "ahoare (written T old temp [] False) (temp_body e temp T (Inr bs))
     (\<lambda>_. replaced T old bs) (\<lambda>_. writing T old temp)"
  unfolding temp_body_def
proof (intro ahoare_bind)
  show "ahoare (written T old temp [] False) (lock_temp_file e temp T)
      (\<lambda>_. written T old temp [] False) (\<lambda>_. writing T old temp)"
    unfolding lock_temp_file_def
    by (rule ahoare_syscall) (fastforce simp: written_def writing_def fs_inode_def settled_def list_all_iff split: option.splits)+
  show "ahoare (written T old temp [] False) (run_writer e temp T (Inr bs))
      (\<lambda>_. written T old temp bs False) (\<lambda>_. writing T old temp)"
    by (fastforce simp: ahoare_def run_writer_def write_data_def written_def writing_def fs_inode_def
        settled_def list_all_iff split: option.splits trouble.splits)
  show "ahoare (written T old temp bs False) (syscall e CallSyncFile T (fs_inode temp (\<lambda>n. n\<lparr>i_synced := True\<rparr>)))
      (\<lambda>_. written T old temp bs True) (\<lambda>_. writing T old temp)"
    by (rule ahoare_syscall) (fastforce simp: written_def writing_def fs_inode_def settled_def list_all_iff split: option.splits)+
  show "ahoare (written T old temp bs True) (persist e temp T) (\<lambda>_. replaced T old bs) (\<lambda>_. writing T old temp)"
    using written_rename [OF _ assms(1)]
    by (auto simp: ahoare_def persist_def syscall_def writing_data split: option.splits trouble.splits)
qed

lemma ahoare_conj:
  "ahoare P m Q E \<Longrightarrow> ahoare P' m Q' E' \<Longrightarrow>
   ahoare (\<lambda>s. P s \<and> P' s) m (\<lambda>x s. Q x s \<and> Q' x s) (\<lambda>e s. E e s \<and> E' e s)"
  by (fastforce simp: ahoare_def split: prod.splits sum.splits)

lemma with_temp_replaces:
  assumes "temp \<noteq> T"
  shows "ahoare (written T old temp [] False) (with_temp e temp (temp_body e temp T (Inr bs)))
     (\<lambda>_. replaced T old bs) (\<lambda>_ f. settled f T old)"
  unfolding ahoare_def
proof (intro allI impI)
  fix f assume f: "written T old temp [] False f"
  obtain r f' where m: "temp_body e temp T (Inr bs) f = (r, f')" by fastforce
  show "case with_temp e temp (temp_body e temp T (Inr bs)) f of
      (Inr x, f) \<Rightarrow> replaced T old bs f | (Inl s, f) \<Rightarrow> settled f T old"
  proof (cases r)
    case (Inl s)
    with ahoareD_err [OF body_replaces [OF assms] f] m have "writing T old temp f'" by blast
    then show ?thesis using m Inl assms
      by (cases s) (simp_all add: with_temp_def settled_drop writing_settled)
  next
    case (Inr x)
    with ahoareD [OF body_replaces [OF assms] f] m show ?thesis by (auto simp: with_temp_def)
  qed
qed

text \<open>The whole write, for a target that is not itself a temp name.\<close>

lemma write_atomic_hoare:
  assumes T: "T \<noteq> []" "\<not> is_temp T"
  shows "ahoare (\<lambda>f. settled f T old) (write_atomic e T bs)
     (\<lambda>_ f. fs_read f T = Some bs \<and> (\<forall>c. crash_reads f T c \<longrightarrow> c = Some bs))
     (\<lambda>_ f. \<forall>c. crash_reads f T c \<longrightarrow> c = old \<or> c = Some bs)"
proof -
  define parent where "parent = butlast T"
  have tmp: "temp_path e parent \<noteq> T" using T by (auto simp: temp_path_def is_temp_def)
  have par: "path_parent T = Some parent" using T by (simp add: path_parent_def parent_def)
  let ?E = "\<lambda>_ f. \<forall>c. crash_reads f T c \<longrightarrow> c = old \<or> c = Some bs"
  have weak: "settled f T old \<Longrightarrow> \<forall>c. crash_reads f T c \<longrightarrow> c = old \<or> c = Some bs" for f
    by (auto dest: settled_crash)
  have cleanup: "ahoare (\<lambda>f. settled f T old) (cleanup_stale_temp_files e parent) (\<lambda>_ f. settled f T old) ?E"
  proof -
    have k: "settled (fs_unlink p f) T old" if "is_temp p" "settled f T old" for p f
      using that T settled_unlink by metis
    from cleanup_keeps [where P = "\<lambda>f. settled f T old", OF k] show ?thesis
      by (rule ahoare_weaken) (simp_all add: weak)
  qed
  have create: "ahoare (\<lambda>f. settled f T old) (new_temp_file e parent)
      (\<lambda>t f. t = temp_path e parent \<and> written T old t [] False f) ?E"
    unfolding new_temp_file_def
    by (rule ahoare_bind [of _ _ "\<lambda>_. written T old (temp_path e parent) [] False"],
        rule ahoare_syscall) (auto simp: settled_create tmp weak intro!: ahoare_return)
  have body: "ahoare (\<lambda>f. t = temp_path e parent \<and> written T old t [] False f)
      (with_temp e t (temp_body e t T (Inr bs))) (\<lambda>_. replaced T old bs) ?E" for t
  proof (cases "t = temp_path e parent")
    case True
    with with_temp_replaces [of t T old e bs] tmp show ?thesis
      by (auto elim!: ahoare_weaken dest: settled_crash)
  qed (simp add: ahoare_def)
  have sync: "ahoare (replaced T old bs) (sync_parent_dir e parent)
      (\<lambda>_ f. fs_read f T = Some bs \<and> (\<forall>c. crash_reads f T c \<longrightarrow> c = Some bs)) ?E"
    unfolding sync_parent_dir_def
    by (rule ahoare_syscall)
      (auto simp: replaced_def fs_sync_dir_def par crash_reads_def fs_read_def)
  show ?thesis unfolding write_atomic_def write_atomic_with_def
    using par by (simp add: ahoare_bind [OF cleanup ahoare_bind [OF create ahoare_bind [OF body sync]]])
qed

text \<open>C8: crash safety of the atomic write. However a run of \<open>write_atomic\<close> ends (success, an
  error of any system call, or the process killed at any of them), a power loss afterwards
  leaves the target with its old or its new content, never a mixture or a truncation; and
  once the write has reported success only the new content can appear.\<close>

theorem write_atomic_crash_safe:
  assumes "settled f T old" "T \<noteq> []" "\<not> is_temp T"
  shows "case write_atomic e T bs f of
      (Inr _, f') \<Rightarrow> fs_read f' T = Some bs \<and> (\<forall>c. crash_reads f' T c \<longrightarrow> c = Some bs)
    | (Inl _, f') \<Rightarrow> \<forall>c. crash_reads f' T c \<longrightarrow> c = old \<or> c = Some bs"
  using write_atomic_hoare [OF assms(2,3), of old e bs] assms(1)
  by (simp add: ahoare_def)

definition sample_fs :: fs where
  "sample_fs = \<lparr>fs_names = [([''d'', ''v.kdbx''], 0), ([''d'', ''.falach-tmp-old''], 1)],
     fs_saved = (\<lambda>p. if p = [''d'', ''v.kdbx''] then [Some 0]
       else if p = [''d'', ''.falach-tmp-old''] then [Some 1] else [None]),
     fs_inodes = (\<lambda>_. \<lparr>i_data = [1, 2], i_synced = True, i_held = False\<rparr>), fs_next = 2\<rparr>"

definition dying_env :: write_env where
  "dying_env = \<lparr>we_trouble = (\<lambda>c. if c = CallRename then Some Dies else None),
     we_suffix = ''abc'', we_partial = []\<rparr>"

theorem write_atomic_crash_safe_witness:
  "case write_atomic dying_env [''d'', ''v.kdbx''] [7] sample_fs of
      (Inr _, f') \<Rightarrow> fs_read f' [''d'', ''v.kdbx''] = Some [7]
        \<and> (\<forall>c. crash_reads f' [''d'', ''v.kdbx''] c \<longrightarrow> c = Some [7])
    | (Inl _, f') \<Rightarrow> \<forall>c. crash_reads f' [''d'', ''v.kdbx''] c \<longrightarrow> c = Some [1, 2] \<or> c = Some [7]"
  by (rule write_atomic_crash_safe)
    (simp_all add: settled_def sample_fs_def is_temp_def temp_prefix_def)

section \<open>Other files\<close>

definition keeps_file :: "path \<Rightarrow> bytes option \<Rightarrow> fs \<Rightarrow> bool" where
  "keeps_file p c f = (fs_read f p = c \<and> fs_wf f)"

lemma fs_wf_unlink: "fs_wf f \<Longrightarrow> fs_wf (fs_unlink p f)"
  by (auto simp: fs_wf_def fs_unlink_def inj_on_def dom_def split: if_splits)

lemma fs_wf_bind_fresh:
  assumes "fs_wf f" "i < fs_next f" "\<And>q. q \<noteq> p \<Longrightarrow> hget (fs_names f) q \<noteq> Some i"
  shows "fs_wf (fs_bind p i f)"
  using assms unfolding fs_wf_def fs_bind_def inj_on_def dom_def
  by (auto split: if_splits)

lemma fs_wf_create: "fs_wf f \<Longrightarrow> fs_wf (fs_create p f)"
  unfolding fs_create_def
  by (rule fs_wf_bind_fresh) (auto simp: fs_wf_def less_Suc_eq)

lemma fs_wf_inode: "fs_wf f \<Longrightarrow> fs_wf (fs_inode p g f)"
  by (simp add: fs_wf_def fs_inode_def split: option.splits)

lemma fs_wf_rename:
  assumes w: "fs_wf f" and "p \<noteq> q" shows "fs_wf (fs_rename p q f)"
proof (cases "hget (fs_names f) p")
  case (Some i)
  have "hget (fs_names f) r \<noteq> Some i" if "r \<noteq> p" for r
    using w Some that by (auto simp: fs_wf_def inj_on_def dom_def)
  moreover have "i < fs_next f" using w Some by (auto simp: fs_wf_def)
  ultimately show ?thesis using w assms(2) Some
    unfolding fs_wf_def fs_rename_def fs_bind_def fs_unlink_def inj_on_def dom_def
    by (auto split: if_splits)
qed (simp add: fs_rename_def w)

lemma keeps_create:
  assumes "keeps_file p c f" "q \<noteq> p" shows "keeps_file p c (fs_create q f)"
proof -
  have "i < fs_next f" if "hget (fs_names f) p = Some i" for i
    using assms(1) that by (auto simp: keeps_file_def fs_wf_def)
  then have "fs_read (fs_create q f) p = fs_read f p" using assms(2)
    by (cases "hget (fs_names f) p") (auto simp: fs_read_def fs_create_def fs_bind_def)
  with assms fs_wf_create [of f q] show ?thesis by (simp add: keeps_file_def)
qed

lemma keeps_inode:
  assumes "keeps_file p c f" "q \<noteq> p" shows "keeps_file p c (fs_inode q g f)"
proof -
  have "j \<noteq> i" if "hget (fs_names f) p = Some i" "hget (fs_names f) q = Some j" for i j
    using assms that by (auto simp: keeps_file_def fs_wf_def dest: inj_onD [of _ _ p q])
  then have "fs_read (fs_inode q g f) p = fs_read f p"
    by (cases "hget (fs_names f) p"; cases "hget (fs_names f) q") (auto simp: fs_read_def fs_inode_def)
  with assms fs_wf_inode [of f q g] show ?thesis by (simp add: keeps_file_def)
qed

lemma keeps_unlink: "keeps_file p c f \<Longrightarrow> q \<noteq> p \<Longrightarrow> keeps_file p c (fs_unlink q f)"
  using fs_wf_unlink [of f q] by (auto simp: keeps_file_def fs_read_def fs_unlink_def)

lemma keeps_rename: "keeps_file p c f \<Longrightarrow> q \<noteq> p \<Longrightarrow> T \<noteq> p \<Longrightarrow> q \<noteq> T \<Longrightarrow> keeps_file p c (fs_rename q T f)"
  using fs_wf_rename [of f q T]
  by (auto simp: keeps_file_def fs_read_def fs_rename_def fs_bind_def fs_unlink_def split: option.splits)

lemma keeps_sync_dir: "keeps_file p c f \<Longrightarrow> keeps_file p c (fs_sync_dir d f)"
  by (auto simp: keeps_file_def fs_read_def fs_sync_dir_def fs_wf_def)

lemma keeps_drop: "keeps_file p c f \<Longrightarrow> q \<noteq> p \<Longrightarrow> keeps_file p c (drop_temp e q f)"
  by (auto simp: drop_temp_def Let_def keeps_inode keeps_unlink split: option.splits)

lemma keeps_body:
  assumes "temp \<noteq> p" "T \<noteq> p" "temp \<noteq> T"
  shows "ahoare (keeps_file p c) (with_temp e temp (temp_body e temp T w)) (\<lambda>_. keeps_file p c) (\<lambda>_. keeps_file p c)"
proof -
  have "ahoare (keeps_file p c) (temp_body e temp T w) (\<lambda>_. keeps_file p c) (\<lambda>_. keeps_file p c)"
    unfolding temp_body_def
  proof (intro ahoare_bind)
    show "ahoare (keeps_file p c) (lock_temp_file e temp T) (\<lambda>_. keeps_file p c) (\<lambda>_. keeps_file p c)"
      using assms unfolding lock_temp_file_def by (auto intro!: ahoare_syscall keeps_inode)
    show "ahoare (keeps_file p c) (run_writer e temp T w) (\<lambda>_. keeps_file p c) (\<lambda>_. keeps_file p c)"
      using assms unfolding ahoare_keeps
      by (auto simp: run_writer_def write_data_def keeps_inode split: sum.splits option.splits trouble.splits)
    show "ahoare (keeps_file p c) (syscall e CallSyncFile T (fs_inode temp (\<lambda>n. n\<lparr>i_synced := True\<rparr>)))
        (\<lambda>_. keeps_file p c) (\<lambda>_. keeps_file p c)"
      using assms by (auto intro!: ahoare_syscall keeps_inode)
    show "ahoare (keeps_file p c) (persist e temp T) (\<lambda>_. keeps_file p c) (\<lambda>_. keeps_file p c)"
      using assms unfolding ahoare_keeps
      by (auto simp: persist_def syscall_def keeps_inode keeps_rename split: option.splits trouble.splits)
  qed
  then show ?thesis using assms(1)
    by (auto simp: ahoare_keeps with_temp_def keeps_drop split: sum.splits stop.splits prod.splits)
qed

lemma write_atomic_other:
  assumes "fs_wf f" "p \<noteq> T" "\<not> is_temp p" "\<not> is_temp T"
  shows "fs_read (snd (write_atomic e T bs f)) p = fs_read f p"
proof (cases "path_parent T")
  case None
  then show ?thesis by (simp add: write_atomic_def write_atomic_with_def)
next
  case (Some parent)
  let ?K = "keeps_file p (fs_read f p)"
  have tmp: "temp_path e parent \<noteq> p" "temp_path e parent \<noteq> T"
    using assms(3,4) by (auto simp: temp_path_def is_temp_def)
  have un: "?K (fs_unlink q g)" if "is_temp q" "?K g" for q g
    using keeps_unlink that assms(3) by metis
  have new: "ahoare ?K (new_temp_file e parent) (\<lambda>t g. t = temp_path e parent \<and> ?K g) (\<lambda>_. ?K)"
    unfolding new_temp_file_def
    by (rule ahoare_bind [of _ _ "\<lambda>_. ?K"], rule ahoare_syscall)
      (auto simp: keeps_create tmp intro!: ahoare_return)
  have body: "ahoare (\<lambda>g. t = temp_path e parent \<and> ?K g) (with_temp e t (temp_body e t T (Inr bs))) (\<lambda>_. ?K) (\<lambda>_. ?K)" for t
    using keeps_body [of "temp_path e parent" p T "fs_read f p" e "Inr bs"] tmp assms(2)
    by (cases "t = temp_path e parent") (auto simp: ahoare_def)
  have sync: "ahoare ?K (sync_parent_dir e parent) (\<lambda>_. ?K) (\<lambda>_. ?K)"
    unfolding sync_parent_dir_def by (rule ahoare_syscall) (auto simp: keeps_sync_dir)
  have "ahoare ?K (write_atomic e T bs) (\<lambda>_. ?K) (\<lambda>_. ?K)"
    unfolding write_atomic_def write_atomic_with_def
    using Some by (simp add: ahoare_bind [OF cleanup_keeps [where P = ?K, OF un] ahoare_bind [OF new ahoare_bind [OF body sync]]])
  then show ?thesis using assms(1) by (simp add: ahoare_keeps keeps_file_def)
qed

text \<open>\<open>write_atomic\<close> touches no file but its target and Falach temp files, whatever fails.\<close>

theorem write_atomic_isolated:
  assumes "fs_wf f" "p \<noteq> T" "\<not> is_temp p" "\<not> is_temp T"
  shows "fs_read (snd (write_atomic e T bs f)) p = fs_read f p"
  using assms by (rule write_atomic_other)

theorem write_atomic_isolated_witness:
  "fs_read (snd (write_atomic dying_env [''d'', ''w.kdbx''] [7] sample_fs)) [''d'', ''v.kdbx'']
     = fs_read sample_fs [''d'', ''v.kdbx'']"
  by (rule write_atomic_isolated)
    (auto simp: is_temp_def temp_prefix_def sample_fs_def fs_wf_def inj_on_def split: if_splits)

end
