(* ===== verification/Locking.thy ===== *)
theory Locking
  imports Files
begin

text \<open>
  Advisory locks (\<open>falach-core/src/locking.rs\<close>): exclusive and shared locks on a sidecar
  file of the vault. The lock table of the kernel maps a lock file to its holders; a holder is
  the open file handle of a guard. \<open>flock\<close> grants a shared lock unless someone holds an
  exclusive one, and an exclusive lock only when nobody holds any.
\<close>

datatype lock_kind = Exclusive | Shared

type_synonym lock_table = "(path \<times> lock_kind \<times> nat) list"

definition sidecar_lock_path :: "path \<Rightarrow> path" where
  "sidecar_lock_path p = path_append p ''.lock''"

section \<open>Acquiring\<close>

datatype acquire_error = AcquireContended | AcquireIo io_error

definition into_vault_error :: "path \<Rightarrow> acquire_error \<Rightarrow> vault_error" where
  "into_vault_error p e = (case e of AcquireContended \<Rightarrow> Contended None | AcquireIo err \<Rightarrow> VIo err p)"

text \<open>The rule of the kernel (\<open>flock(2)\<close>, behind \<open>File::try\_lock\<close>); what the program makes of its answers follows.\<close>

definition compatible :: "lock_kind \<Rightarrow> path \<Rightarrow> lock_table \<Rightarrow> bool" where
  "compatible k l t = list_all (\<lambda>(l', k', _). l' = l \<longrightarrow> k = Shared \<and> k' = Shared) t"

text \<open>
  The answers of the kernel to the tries of one acquisition: \<open>Some err\<close> an I/O error
  (\<open>IoInterrupted\<close> is retried), \<open>None\<close> a decision by the lock table. When the list is used
  up the table decides.
\<close>

fun try_acquire_with_eintr_retry ::
    "io_error option list \<Rightarrow> lock_kind \<Rightarrow> path \<Rightarrow> nat \<Rightarrow> (lock_table, acquire_error, unit) act" where
  "try_acquire_with_eintr_retry (Some IoInterrupted # as) k l h t = try_acquire_with_eintr_retry as k l h t"
| "try_acquire_with_eintr_retry (Some err # as) k l h t = (Inl (AcquireIo err), t)"
| "try_acquire_with_eintr_retry _ k l h t =
     (if compatible k l t then (Inr (), (l, k, h) # t) else (Inl AcquireContended, t))"

definition acquire ::
    "lock_kind \<Rightarrow> io_error option \<Rightarrow> io_error option list \<Rightarrow> path \<Rightarrow> nat \<Rightarrow> (lock_table, vault_error, nat) act" where
  "acquire k opened answers p h =
     (let l = sidecar_lock_path p in
      case opened of
        Some err \<Rightarrow> athrow (VIo err l)
      | None \<Rightarrow> abind (aerr (into_vault_error p) (try_acquire_with_eintr_retry answers k l h)) (\<lambda>_. areturn h))"

definition acquire_exclusive :: "io_error option \<Rightarrow> io_error option list \<Rightarrow> path \<Rightarrow> nat \<Rightarrow> (lock_table, vault_error, nat) act" where
  "acquire_exclusive = acquire Exclusive"

definition acquire_shared :: "io_error option \<Rightarrow> io_error option list \<Rightarrow> path \<Rightarrow> nat \<Rightarrow> (lock_table, vault_error, nat) act" where
  "acquire_shared = acquire Shared"

text \<open>Dropping a guard, or the death of its process, releases its lock.\<close>

definition release :: "nat \<Rightarrow> lock_table \<Rightarrow> lock_table" where
  "release h t = filter (\<lambda>(_, _, h'). h' \<noteq> h) t"

text \<open>Different vaults use different lock files, and the lock file is never the vault itself,
  so a save that renames over the vault does not touch the lock.\<close>

lemma sidecar_inject: "p \<noteq> [] \<Longrightarrow> q \<noteq> [] \<Longrightarrow> sidecar_lock_path p = sidecar_lock_path q \<Longrightarrow> p = q"
  by (auto simp: sidecar_lock_path_def dest: path_append_inject)

lemma sidecar_differs: "sidecar_lock_path p \<noteq> p"
  by (simp add: sidecar_lock_path_def path_append_neq)

section \<open>Runs of several processes\<close>

text \<open>
  A world is the kernel's lock table and the guards the program holds. A guard is what \<open>acquire_exclusive\<close> or
  \<open>acquire_shared\<close> returned, by its type \<open>ExclusiveLock\<close> or \<open>SharedLock\<close>, the path of the vault it was asked for and its
  open file: the program never looks at the table, only at what the calls answer. A guard is dropped by its owner or
  goes away with its process.
\<close>

record lock_world =
  lw_table :: lock_table
  lw_guards :: "(path \<times> lock_kind \<times> nat) list"

definition open_files :: "lock_world \<Rightarrow> nat set" where
  "open_files w = (snd \<circ> snd) ` (set (lw_table w) \<union> set (lw_guards w))"

definition granted :: "lock_kind \<Rightarrow> path \<Rightarrow> vault_error + nat \<Rightarrow> lock_table \<Rightarrow> lock_world \<Rightarrow> lock_world" where
  "granted k p r t w = (case r of
     Inr h \<Rightarrow> w\<lparr>lw_table := t, lw_guards := (p, k, h) # lw_guards w\<rparr>
   | Inl _ \<Rightarrow> w\<lparr>lw_table := t\<rparr>)"

inductive lock_step :: "lock_world \<Rightarrow> lock_world \<Rightarrow> bool" where
  step_exclusive: "p \<noteq> [] \<Longrightarrow> h \<notin> open_files w \<Longrightarrow> acquire_exclusive opened answers p h (lw_table w) = (r, t) \<Longrightarrow>
    lock_step w (granted Exclusive p r t w)"
| step_shared: "p \<noteq> [] \<Longrightarrow> h \<notin> open_files w \<Longrightarrow> acquire_shared opened answers p h (lw_table w) = (r, t) \<Longrightarrow>
    lock_step w (granted Shared p r t w)"
| step_drop: "(p, k, h) \<in> set (lw_guards w) \<Longrightarrow>
    lock_step w (w\<lparr>lw_table := release h (lw_table w), lw_guards := filter (\<lambda>(_, _, h'). h' \<noteq> h) (lw_guards w)\<rparr>)"

inductive lock_reach :: "lock_world \<Rightarrow> bool" where
  reach_init: "lock_reach \<lparr>lw_table = [], lw_guards = []\<rparr>"
| reach_step: "lock_reach w \<Longrightarrow> lock_step w w' \<Longrightarrow> lock_reach w'"

text \<open>What holds in every world: each guard stands for one lock of its own kind on the lock file of its vault, and
  the kernel granted them one by one.\<close>

definition lock_of :: "path \<times> lock_kind \<times> nat \<Rightarrow> path \<times> lock_kind \<times> nat" where
  "lock_of g = (case g of (p, k, h) \<Rightarrow> (sidecar_lock_path p, k, h))"

definition backed :: "lock_world \<Rightarrow> bool" where
  "backed w = (lw_table w = map lock_of (lw_guards w) \<and> (\<forall>(p, _) \<in> set (lw_guards w). p \<noteq> [])
     \<and> (\<forall>(p, k, h) \<in> set (lw_guards w). \<forall>(p', k', h') \<in> set (lw_guards w).
          p = p' \<and> h \<noteq> h' \<longrightarrow> k = Shared \<and> k' = Shared))"

lemma try_acquire_cases:
  "try_acquire_with_eintr_retry as k l h t = (r, t') \<Longrightarrow> r = Inr () \<and> t' = (l, k, h) # t \<and> compatible k l t \<or> (\<exists>e. r = Inl e) \<and> t' = t"
  by (induction as k l h t rule: try_acquire_with_eintr_retry.induct) (auto split: if_split_asm)

lemma acquire_cases:
  assumes "acquire k opened answers p h t = (r, t')"
  shows "r = Inr h \<and> t' = (sidecar_lock_path p, k, h) # t \<and> compatible k (sidecar_lock_path p) t \<or> (\<exists>e. r = Inl e) \<and> t' = t"
  using assms try_acquire_cases [of answers k "sidecar_lock_path p" h t]
  by (auto simp: acquire_def Let_def aerr_def abind_def areturn_def athrow_def map_err_def split: option.splits prod.splits sum.splits)

text \<open>The kernel refuses a lock exactly when a guard of the same vault stands in its way.\<close>

lemma compatible_guards:
  assumes "backed w" "p \<noteq> []"
  shows "compatible k (sidecar_lock_path p) (lw_table w) \<longleftrightarrow>
    (\<forall>k' h'. (p, k', h') \<in> set (lw_guards w) \<longrightarrow> k = Shared \<and> k' = Shared)"
  using assms sidecar_inject [of p]
  by (fastforce simp: backed_def compatible_def lock_of_def list_all_iff)

lemma backed_granted:
  assumes w: "backed w" and p: "p \<noteq> []" and run: "acquire k opened answers p h (lw_table w) = (r, t)"
  shows "backed (granted k p r t w)"
proof (cases r)
  case (Inr h')
  then have "h' = h" "t = lock_of (p, k, h) # lw_table w" "compatible k (sidecar_lock_path p) (lw_table w)"
    using acquire_cases [OF run] by (auto simp: lock_of_def)
  then show ?thesis using w p Inr compatible_guards [OF w p, of k] by (auto simp: backed_def granted_def)
next
  case (Inl e)
  then have "t = lw_table w" using acquire_cases [OF run] by auto
  with Inl w show ?thesis by (simp add: granted_def backed_def)
qed

lemma release_guards: "release h (map lock_of gs) = map lock_of (filter (\<lambda>(_, _, h'). h' \<noteq> h) gs)"
  by (induction gs) (auto simp: release_def lock_of_def)

lemma reach_backed: "lock_reach w \<Longrightarrow> backed w"
proof (induction rule: lock_reach.induct)
  case (reach_step w w')
  from reach_step(2,3) show ?case
    by (cases rule: lock_step.cases)
      (auto simp: acquire_exclusive_def acquire_shared_def intro: backed_granted, auto simp: backed_def release_guards)
qed (simp add: backed_def)

lemma acquire_decides:
  assumes "list_all (\<lambda>a. a = Some IoInterrupted) answers"
  shows "is_ok (fst (acquire k None answers p h t)) = compatible k (sidecar_lock_path p) t"
proof -
  from assms have "try_acquire_with_eintr_retry answers k l h t =
      (if compatible k l t then (Inr (), (l, k, h) # t) else (Inl AcquireContended, t))" for l
    by (induction answers) auto
  then show ?thesis by (simp add: acquire_def Let_def aerr_def abind_def areturn_def map_err_def is_ok_def)
qed

text \<open>C10: mutual exclusion of vault access. In every world that any interleaving of lock attempts, guard drops and
  process deaths reaches, whoever holds an \<open>ExclusiveLock\<close> of a vault is its only holder. And nobody is kept out
  without a reason: a call that is not failed by the system, only interrupted by signals, gives an exclusive guard
  exactly when the vault has no guard, and a shared one exactly when it has no exclusive guard.\<close>

theorem lock_mutual_exclusion:
  assumes "lock_reach w" "p \<noteq> []" "list_all (\<lambda>a. a = Some IoInterrupted) answers"
  shows "(\<forall>k h h'. (p, Exclusive, h) \<in> set (lw_guards w) \<and> (p, k, h') \<in> set (lw_guards w) \<longrightarrow> h = h')
    \<and> is_ok (fst (acquire_exclusive None answers p h (lw_table w))) = (\<forall>k h'. (p, k, h') \<notin> set (lw_guards w))
    \<and> is_ok (fst (acquire_shared None answers p h (lw_table w))) = (\<forall>h'. (p, Exclusive, h') \<notin> set (lw_guards w))"
proof -
  note b = reach_backed [OF assms(1)]
  have "\<forall>k h h'. (p, Exclusive, h) \<in> set (lw_guards w) \<and> (p, k, h') \<in> set (lw_guards w) \<longrightarrow> h = h'"
    using b by (fastforce simp: backed_def)
  moreover have "(\<forall>k' h'. (p, k', h') \<in> set (lw_guards w) \<longrightarrow> k' = Shared) = (\<forall>h'. (p, Exclusive, h') \<notin> set (lw_guards w))"
    by (metis lock_kind.exhaust lock_kind.distinct(1))
  ultimately show ?thesis
    using compatible_guards [OF b assms(2)]
    by (simp add: acquire_exclusive_def acquire_shared_def acquire_decides [OF assms(3)])
qed

lemma lock_mutual_exclusion_witness:
  "\<exists>w. lock_reach w \<and> ([''v''], Exclusive, 1) \<in> set (lw_guards w)
     \<and> is_ok (fst (acquire_shared None [Some IoInterrupted] [''v''] 2 (lw_table w))) = False"
proof -
  let ?empty = "\<lparr>lw_table = [], lw_guards = []\<rparr>" and ?l = "sidecar_lock_path [''v'']"
  let ?w = "granted Exclusive [''v''] (Inr 1) [(?l, Exclusive, 1)] ?empty"
  have "acquire_exclusive None [] [''v''] 1 (lw_table ?empty) = (Inr 1, [(?l, Exclusive, 1)])"
    by (simp add: acquire_exclusive_def acquire_def Let_def aerr_def abind_def areturn_def compatible_def map_err_def)
  then have "lock_step ?empty ?w" by (rule step_exclusive [rotated 2]) (simp_all add: open_files_def)
  then have r: "lock_reach ?w" by (rule reach_step [OF reach_init])
  have "([''v''], Exclusive, 1) \<in> set (lw_guards ?w)" by (simp add: granted_def)
  with lock_mutual_exclusion [OF r, of "[''v'']" "[Some IoInterrupted]" 2] r show ?thesis by auto
qed

end
