(* ===== verification/Disk.thy ===== *)
theory Disk
  imports Atomic Locking
begin

text \<open>
  The disk as the vault, registry and sync layers use it: whole files read, replaced and
  removed by path. A schedule of troubles decides which operation fails, and how: before it
  had an effect, or (a replacement whose rename happened but whose directory sync failed)
  after it. \<open>write_atomic_refines\<close> shows that the atomic write of \<open>Atomic\<close> implements the
  replacement of this theory.
\<close>

datatype disk_trouble = Early io_error path | Late io_error path

record disk =
  d_files :: "path \<Rightarrow> bytes option"
  d_troubles :: "disk_trouble option list"
  d_locks :: lock_table
  d_seed :: nat

definition pop_trouble :: "disk \<Rightarrow> disk_trouble option \<times> disk" where
  "pop_trouble d = (case d_troubles d of [] \<Rightarrow> (None, d) | t # ts \<Rightarrow> (t, d\<lparr>d_troubles := ts\<rparr>))"

text \<open>An operation with effect \<open>g\<close> that an early trouble prevents and a late one does not.\<close>

definition disk_op :: "(disk \<Rightarrow> disk) \<Rightarrow> (disk, io_error \<times> path, unit) act" where
  "disk_op g d = (case pop_trouble d of
     (None, d') \<Rightarrow> (Inr (), g d')
   | (Some (Early e p), d') \<Rightarrow> (Inl (e, p), d')
   | (Some (Late e p), d') \<Rightarrow> (Inl (e, p), g d'))"

definition vio :: "io_error \<times> path \<Rightarrow> vault_error" where
  "vio x = (case x of (e, p) \<Rightarrow> VIo e p)"

text \<open>\<open>std::fs::read\<close>; a file that exists is never reported as missing.\<close>

definition trouble_error :: "disk_trouble \<Rightarrow> io_error" where
  "trouble_error t = (case t of Early e _ \<Rightarrow> e | Late e _ \<Rightarrow> e)"

definition read_error :: "disk_trouble \<Rightarrow> io_error" where
  "read_error t = (if trouble_error t = IoNotFound then IoOther 0 else trouble_error t)"

definition disk_read :: "path \<Rightarrow> (disk, io_error, bytes) act" where
  "disk_read p d = (case pop_trouble d of (t, d') \<Rightarrow>
     (case d_files d' p of
        None \<Rightarrow> (Inl IoNotFound, d')
      | Some b \<Rightarrow> (case t of None \<Rightarrow> (Inr b, d') | Some t' \<Rightarrow> (Inl (read_error t'), d'))))"

text \<open>\<open>write_atomic\<close>\<close>

definition disk_write :: "path \<Rightarrow> bytes \<Rightarrow> (disk, vault_error, unit) act" where
  "disk_write p b =
     (if p = [] then athrow (VIo IoInvalidInput p)
      else aerr vio (disk_op (\<lambda>d. d\<lparr>d_files := (d_files d)(p \<mapsto> b)\<rparr>)))"

text \<open>\<open>std::fs::remove_file\<close>\<close>

definition disk_remove :: "path \<Rightarrow> (disk, io_error, unit) act" where
  "disk_remove p d =
     (if d_files d p = None then (Inl IoNotFound, d)
      else aerr fst (disk_op (\<lambda>d. d\<lparr>d_files := (d_files d)(p := None)\<rparr>)) d)"

text \<open>\<open>OpenOptions::create_new\<close>\<close>

definition disk_create_new :: "path \<Rightarrow> (disk, io_error, unit) act" where
  "disk_create_new p d =
     (if d_files d p \<noteq> None then (Inl IoAlreadyExists, d)
      else aerr fst (disk_op (\<lambda>d. d\<lparr>d_files := (d_files d)(p \<mapsto> [])\<rparr>)) d)"

text \<open>The lock table is part of the disk state; a lock attempt opens the sidecar file.\<close>

definition disk_lock :: "lock_kind \<Rightarrow> path \<Rightarrow> nat \<Rightarrow> (disk, vault_error, nat) act" where
  "disk_lock k p h d = (case pop_trouble d of (t, d') \<Rightarrow>
     (case acquire k (map_option trouble_error t) [] p h (d_locks d') of
        (r, t') \<Rightarrow> (r, d'\<lparr>d_locks := t'\<rparr>)))"

definition disk_unlock :: "nat \<Rightarrow> disk \<Rightarrow> disk" where
  "disk_unlock h d = d\<lparr>d_locks := release h (d_locks d)\<rparr>"

section \<open>The operations on a disk without troubles, and in general\<close>

lemma calm_read: "d_troubles d = [] \<Longrightarrow> disk_read p d = (case d_files d p of None \<Rightarrow> (Inl IoNotFound, d) | Some b \<Rightarrow> (Inr b, d))"
  by (simp add: disk_read_def pop_trouble_def split: option.split)

lemma calm_op: "d_troubles d = [] \<Longrightarrow> disk_op g d = (Inr (), g d)"
  by (simp add: disk_op_def pop_trouble_def)

lemma compatible_release: "compatible k l t \<Longrightarrow> compatible k l (release h t)"
  by (auto simp: compatible_def list_all_iff release_def)

lemma calm_lock:
  "d_troubles d = [] \<Longrightarrow> disk_lock k p h d =
     (if compatible k (sidecar_lock_path p) (d_locks d)
      then (Inr h, d\<lparr>d_locks := (sidecar_lock_path p, k, h) # d_locks d\<rparr>)
      else (Inl (Contended None), d))"
  by (simp add: disk_lock_def pop_trouble_def acquire_def Let_def aerr_def abind_def into_vault_error_def)

lemma disk_write_cases:
  assumes "disk_write p b d = (r, d')"
  shows "(d_files d' = d_files d \<or> d_files d' = (d_files d)(p \<mapsto> b))
     \<and> (r = Inr () \<longrightarrow> d_files d' = (d_files d)(p \<mapsto> b)) \<and> d_locks d' = d_locks d \<and> d_seed d' = d_seed d"
  using assms by (auto simp: disk_write_def aerr_def disk_op_def pop_trouble_def
      split: if_splits list.splits option.splits disk_trouble.splits)

lemma disk_read_files:
  assumes "disk_read p d = (r, d')"
  shows "d_files d' = d_files d \<and> d_seed d' = d_seed d \<and> d_locks d' = d_locks d
    \<and> (\<forall>b. r = Inr b \<longrightarrow> d_files d p = Some b) \<and> (r = Inl IoNotFound \<longrightarrow> d_files d p = None)"
  using assms by (auto simp: disk_read_def pop_trouble_def read_error_def
      split: list.splits option.splits disk_trouble.splits if_splits)

section \<open>The atomic write refines the replacement\<close>

definition fs_files :: "fs \<Rightarrow> path \<Rightarrow> bytes option" where
  "fs_files f p = (if is_temp p then None else fs_read f p)"

definition reads_as :: "path \<Rightarrow> bytes option \<Rightarrow> fs \<Rightarrow> bool" where
  "reads_as T c f = (fs_read f T = c)"

lemma rename_reads:
  assumes "hget (fs_names f) temp = Some j" "i_data (fs_inodes f j) = bs"
  shows "temp \<noteq> T \<Longrightarrow> fs_read (fs_inode T (\<lambda>n. n\<lparr>i_held := False\<rparr>) (fs_rename temp T f)) T = Some bs"
  using assms by (simp add: fs_read_def fs_inode_def fs_rename_def fs_bind_def fs_unlink_def)

definition temp_has :: "path \<Rightarrow> path \<Rightarrow> bytes \<Rightarrow> bytes option \<Rightarrow> fs \<Rightarrow> bool" where
  "temp_has temp T b c f = (keeps_file T c f \<and> (\<exists>j. hget (fs_names f) temp = Some j \<and> i_data (fs_inodes f j) = b))"

lemma temp_has_keeps: "temp_has temp T b c f \<Longrightarrow> keeps_file T c f"
  by (simp add: temp_has_def)

lemma body_reads:
  assumes "temp \<noteq> T"
  shows "ahoare (temp_has temp T [] c) (temp_body e temp T (Inr bs))
     (\<lambda>_. reads_as T (Some bs)) (\<lambda>_. keeps_file T c)"
  unfolding temp_body_def
proof (intro ahoare_bind)
  have ino: "temp_has temp T b c f \<Longrightarrow> (\<And>n. i_data (g n) = h (i_data n)) \<Longrightarrow> temp_has temp T (h b) c (fs_inode temp g f)"
    for b f g h using assms keeps_inode [of T c f temp g] by (auto simp: temp_has_def fs_inode_def)
  show "ahoare (temp_has temp T [] c) (lock_temp_file e temp T) (\<lambda>_. temp_has temp T [] c) (\<lambda>_. keeps_file T c)"
    unfolding lock_temp_file_def using ino [of "[]" _ _ id]
    by (intro ahoare_syscall) (auto simp: temp_has_keeps)
  show "ahoare (temp_has temp T [] c) (run_writer e temp T (Inr bs)) (\<lambda>_. temp_has temp T bs c) (\<lambda>_. keeps_file T c)"
    using ino [of "[]" _ _ "\<lambda>x. x @ bs"] assms
    by (auto simp: ahoare_def run_writer_def write_data_def intro!: keeps_inode dest: temp_has_keeps
        split: option.splits trouble.splits)
  show "ahoare (temp_has temp T bs c) (syscall e CallSyncFile T (fs_inode temp (\<lambda>n. n\<lparr>i_synced := True\<rparr>)))
      (\<lambda>_. temp_has temp T bs c) (\<lambda>_. keeps_file T c)"
    using ino [of bs _ _ id] by (intro ahoare_syscall) (auto simp: temp_has_keeps)
  show "ahoare (temp_has temp T bs c) (persist e temp T) (\<lambda>_. reads_as T (Some bs)) (\<lambda>_. keeps_file T c)"
    using rename_reads [OF _ _ assms]
    by (auto simp: ahoare_def persist_def syscall_def temp_has_def reads_as_def split: option.splits trouble.splits)
qed

lemma write_atomic_reads:
  assumes T: "T \<noteq> []" "\<not> is_temp T"
  shows "ahoare (keeps_file T c) (write_atomic e T bs) (\<lambda>_ f. fs_read f T = Some bs)
     (\<lambda>_ f. fs_read f T = c \<or> fs_read f T = Some bs)"
proof -
  define parent where "parent = butlast T"
  have tmp: "temp_path e parent \<noteq> T" using T by (auto simp: temp_path_def is_temp_def)
  have par: "path_parent T = Some parent" using T by (simp add: path_parent_def parent_def)
  let ?E = "\<lambda>_ f. fs_read f T = c \<or> fs_read f T = Some bs"
  have weak: "keeps_file T c f \<Longrightarrow> fs_read f T = c" for f by (simp add: keeps_file_def)
  have un: "keeps_file T c (fs_unlink q g)" if "is_temp q" "keeps_file T c g" for q g
    using keeps_unlink that T(2) by metis
  have cleanup: "ahoare (keeps_file T c) (cleanup_stale_temp_files e parent) (\<lambda>_. keeps_file T c) ?E"
    by (rule ahoare_weaken [OF cleanup_keeps [where P = "keeps_file T c", OF un]]) (simp_all add: weak)
  have create: "ahoare (keeps_file T c) (new_temp_file e parent)
      (\<lambda>t f. t = temp_path e parent \<and> temp_has t T [] c f) ?E"
  proof -
    have "temp_has (temp_path e parent) T [] c (fs_create (temp_path e parent) f)" if "keeps_file T c f" for f
      using keeps_create [OF that tmp] by (auto simp: temp_has_def fs_create_def fs_bind_def)
    then show ?thesis unfolding new_temp_file_def
      by (intro ahoare_bind [of _ _ "\<lambda>_. temp_has (temp_path e parent) T [] c"] ahoare_syscall)
        (auto simp: weak intro!: ahoare_return)
  qed
  have body: "ahoare (\<lambda>f. t = temp_path e parent \<and> temp_has t T [] c f)
      (with_temp e t (temp_body e t T (Inr bs))) (\<lambda>_. reads_as T (Some bs)) ?E" for t
  proof (cases "t = temp_path e parent")
    case True
    have "case with_temp e t (temp_body e t T (Inr bs)) f of
        (Inr x, f) \<Rightarrow> reads_as T (Some bs) f | (Inl s, f) \<Rightarrow> fs_read f T = c" if f: "temp_has t T [] c f" for f
      using ahoareD [OF body_reads f, of e bs] ahoareD_err [OF body_reads f, of e bs] True tmp
        keeps_drop [of T c _ t e] weak
      by (fastforce simp: with_temp_def split: prod.splits sum.splits stop.splits)
    then show ?thesis by (fastforce simp: ahoare_def split: prod.splits sum.splits)
  qed (simp add: ahoare_def)
  have sync: "ahoare (reads_as T (Some bs)) (sync_parent_dir e parent) (\<lambda>_ f. fs_read f T = Some bs) ?E"
    unfolding sync_parent_dir_def
    by (rule ahoare_syscall) (auto simp: reads_as_def fs_read_def fs_sync_dir_def)
  show ?thesis unfolding write_atomic_def write_atomic_with_def
    using par by (simp add: ahoare_bind [OF cleanup ahoare_bind [OF create ahoare_bind [OF body sync]]])
qed

text \<open>Every error of \<open>write_atomic\<close> is an I/O error.\<close>

definition io_stop :: "stop \<Rightarrow> bool" where
  "io_stop s = (case s of Killed \<Rightarrow> True | Err v \<Rightarrow> (\<exists>err q. v = VIo err q))"

lemma io_syscall: "ahoare (\<lambda>_. True) (syscall e c p g) (\<lambda>_ _. True) (\<lambda>s _. io_stop s)"
  by (auto simp: ahoare_def syscall_def io_stop_def split: option.splits trouble.splits)

lemma io_bind:
  assumes "ahoare (\<lambda>_. True) m (\<lambda>_ _. True) (\<lambda>s _. io_stop s)"
    and "\<And>x. ahoare (\<lambda>_. True) (k x) (\<lambda>_ _. True) (\<lambda>s _. io_stop s)"
  shows "ahoare (\<lambda>_. True) (abind m k) (\<lambda>_ _. True) (\<lambda>s _. io_stop s)"
  using assms by (rule ahoare_bind)

lemma io_return: "ahoare (\<lambda>_. True) (areturn x) (\<lambda>_ _. True) (\<lambda>s _. io_stop s)"
  by (rule ahoare_return) simp

lemma io_cleanup: "ahoare (\<lambda>_. True) (cleanup_stale_temp_files e parent) (\<lambda>_ _. True) (\<lambda>s _. io_stop s)"
proof -
  have stale: "ahoare (\<lambda>_. True) (remove_stale e p) (\<lambda>_ _. True) (\<lambda>s _. io_stop s)" for p
    by (auto simp: ahoare_def remove_stale_def abind_def syscall_def io_stop_def split: option.splits trouble.splits)
  have loop: "ahoare (\<lambda>_. True) (cleanup_loop e parent ps) (\<lambda>_ _. True) (\<lambda>s _. io_stop s)" for ps
  proof (induction ps)
    case Nil
    show ?case unfolding cleanup_loop.simps by (rule io_return)
  next
    case (Cons p ps)
    have "ahoare (\<lambda>_. True) (if is_temp p then remove_stale e p else areturn ()) (\<lambda>_ _. True) (\<lambda>s _. io_stop s)"
      using stale io_return by (cases "is_temp p") (simp_all only: if_True if_False)
    with Cons show ?case unfolding cleanup_loop.simps by (blast intro: io_bind io_syscall)
  qed
  then have "ahoare (\<lambda>_. True) (\<lambda>f. cleanup_loop e parent (dir_entries f parent) f) (\<lambda>_ _. True) (\<lambda>s _. io_stop s)"
    by (simp add: ahoare_def)
  then show ?thesis unfolding cleanup_stale_temp_files_def by (blast intro: io_bind io_syscall)
qed

lemma io_body: "ahoare (\<lambda>_. True) (with_temp e t (temp_body e t T (Inr bs))) (\<lambda>_ _. True) (\<lambda>s _. io_stop s)"
proof -
  have w: "ahoare (\<lambda>_. True) (run_writer e t T (Inr bs)) (\<lambda>_ _. True) (\<lambda>s _. io_stop s)"
    by (auto simp: ahoare_def run_writer_def io_stop_def split: option.splits trouble.splits)
  have p: "ahoare (\<lambda>_. True) (persist e t T) (\<lambda>_ _. True) (\<lambda>s _. io_stop s)"
    by (auto simp: ahoare_def persist_def syscall_def io_stop_def split: option.splits trouble.splits)
  have "ahoare (\<lambda>_. True) (temp_body e t T (Inr bs)) (\<lambda>_ _. True) (\<lambda>s _. io_stop s)"
    unfolding temp_body_def lock_temp_file_def by (blast intro: io_bind io_syscall w p)
  then show ?thesis
    by (auto simp: ahoare_def with_temp_def split: prod.splits sum.splits stop.splits)
qed

lemma write_atomic_io:
  assumes "write_atomic e T bs f = (r, f')" "r = Inl s" "s = Err v"
  shows "\<exists>err q. v = VIo err q"
proof (cases "path_parent T")
  case None
  with assms show ?thesis by (auto simp: write_atomic_def write_atomic_with_def)
next
  case (Some parent)
  have "ahoare (\<lambda>_. True) (write_atomic e T bs) (\<lambda>_ _. True) (\<lambda>s _. io_stop s)"
    unfolding write_atomic_def write_atomic_with_def Some option.case new_temp_file_def sync_parent_dir_def
    by (intro io_bind io_cleanup io_syscall io_return io_body)
  from ahoareD_err [OF this TrueI, of f s f'] assms show ?thesis by (simp add: io_stop_def)
qed

text \<open>C9: the atomic write implements the file replacement that the vault, registry and sync
  layers are written against: for every run that does not kill the process there is a trouble
  under which \<open>disk_write\<close> gives the same result and the same files.\<close>

theorem write_atomic_refines:
  assumes "fs_wf f" "T \<noteq> []" "\<not> is_temp T"
    and run: "write_atomic e T bs f = (r, f')" and alive: "r \<noteq> Inl Killed"
  shows "\<exists>t r' d'. disk_write T bs (d\<lparr>d_files := fs_files f, d_troubles := [t]\<rparr>) = (r', d')
     \<and> r = map_err Err r' \<and> d_files d' = fs_files f'"
proof -
  let ?d = "\<lambda>t. d\<lparr>d_files := fs_files f, d_troubles := [t]\<rparr>"
  have other: "fs_files f' p = fs_files f p" if "p \<noteq> T" for p
    using write_atomic_other [OF assms(1) that _ assms(3), of e bs] run by (simp add: fs_files_def)
  have upd: "fs_files f' = (fs_files f)(T \<mapsto> bs)" if "fs_read f' T = Some bs"
    using other that assms(3) by (auto simp: fs_files_def)
  have same: "fs_files f' = fs_files f" if "fs_read f' T = fs_read f T"
    using other that assms(3) by (metis ext fs_files_def)
  have k: "keeps_file T (fs_read f T) f" using assms(1) by (simp add: keeps_file_def)
  note simps = disk_write_def disk_op_def pop_trouble_def aerr_def vio_def assms(2)
  show ?thesis
  proof (cases r)
    case (Inr u)
    with ahoareD [OF write_atomic_reads [OF assms(2,3)] k] run have "fs_read f' T = Some bs" by blast
    with upd Inr show ?thesis by (intro exI [of _ None]) (simp add: simps)
  next
    case (Inl s)
    with alive obtain v where v: "s = Err v" by (cases s) auto
    have "\<exists>err q. v = VIo err q" using run Inl v by (rule write_atomic_io)
    then obtain err q where q: "v = VIo err q" by blast
    from ahoareD_err [OF write_atomic_reads [OF assms(2,3)] k] run Inl
    consider "fs_read f' T = fs_read f T" | "fs_read f' T = Some bs" by blast
    then show ?thesis
    proof cases
      case 1
      with same Inl v q show ?thesis by (intro exI [of _ "Some (Early err q)"]) (simp add: simps)
    next
      case 2
      with upd Inl v q show ?thesis by (intro exI [of _ "Some (Late err q)"]) (simp add: simps)
    qed
  qed
qed

theorem write_atomic_refines_witness:
  "\<exists>t r' d'. disk_write [''d'', ''w.kdbx''] [7] (\<lparr>d_files = (\<lambda>_. None), d_troubles = [], d_locks = [], d_seed = 0\<rparr>\<lparr>d_files := fs_files sample_fs, d_troubles := [t]\<rparr>) = (r', d')
     \<and> Inr () = map_err Err r'
     \<and> d_files d' = fs_files (snd (write_atomic (dying_env\<lparr>we_trouble := \<lambda>_. None\<rparr>) [''d'', ''w.kdbx''] [7] sample_fs))"
proof (rule write_atomic_refines)
  show "write_atomic (dying_env\<lparr>we_trouble := \<lambda>_. None\<rparr>) [''d'', ''w.kdbx''] [7] sample_fs
      = (Inr (), snd (write_atomic (dying_env\<lparr>we_trouble := \<lambda>_. None\<rparr>) [''d'', ''w.kdbx''] [7] sample_fs))"
    by (simp add: write_atomic_def write_atomic_with_def path_parent_def cleanup_stale_temp_files_def
        abind_def syscall_def dir_entries_def hkeys_def sample_fs_def is_temp_def temp_prefix_def
        remove_stale_def held_by_other_def fs_unlink_def new_temp_file_def fs_create_def fs_bind_def
        temp_path_def dying_env_def with_temp_def temp_body_def lock_temp_file_def run_writer_def
        write_data_def fs_inode_def persist_def fs_rename_def sync_parent_dir_def fs_sync_dir_def)
qed (auto simp: is_temp_def temp_prefix_def sample_fs_def fs_wf_def inj_on_def split: if_splits)

end
