(* ===== verification/VaultFile.thy ===== *)
theory VaultFile
  imports Disk
begin

text \<open>
  Vault handles (\<open>falach-core/src/vault.rs\<close>, \<open>unlock.rs\<close>): creating, opening, saving and
  re-keying a KDBX file. The KDBX format, its encryption and its key derivation belong to
  the keepass crate: they are the record \<open>kdbx\<close>, over any type \<open>'db\<close> of databases and any
  type \<open>'key\<close> of composite keys. Saving takes a seed, since every save encrypts afresh.
\<close>

section \<open>The KDBX library and the handles\<close>

record ('db, 'key) kdbx =
  kx_key :: "string \<Rightarrow> bytes option \<Rightarrow> io_error + 'key"
  kx_open :: "bytes \<Rightarrow> 'key \<Rightarrow> open_error + 'db"
  kx_save :: "'db \<Rightarrow> 'key \<Rightarrow> nat \<Rightarrow> nat + bytes"
  kx_root :: "'db \<Rightarrow> nat"
  kx_kdf :: "'db \<Rightarrow> nat"
  kx_fresh :: "nat \<times> nat \<times> nat \<Rightarrow> 'db"

record kdf_params =
  kp_memory_kib :: nat
  kp_iterations :: nat
  kp_parallelism :: nat

definition default_kdf :: kdf_params where
  "default_kdf = \<lparr>kp_memory_kib = 65536, kp_iterations = 3, kp_parallelism = 2\<rparr>"

text \<open>Argon2id iterations, memory in bytes (\<open>u64\<close>, so an overflowing product panics) and lanes.\<close>

definition database_config :: "kdf_params \<Rightarrow> vault_error fault + nat \<times> nat \<times> nat" where
  "database_config k =
     (if u64_max < kp_memory_kib k * 1024 then Inl Panic
      else Inr (kp_iterations k, kp_memory_kib k * 1024, kp_parallelism k))"

datatype keyfile = KeyfilePath path | KeyfileBytes bytes

record ('db, 'key) vault =
  v_path :: path
  v_database :: 'db
  v_key :: 'key
  v_keyfile :: "bytes option"
  v_lock :: nat

text \<open>An action on the disk: a panic ends the program, so its errors are faults.\<close>

type_synonym 'a vault_act = "(disk, vault_error, 'a) act"

section \<open>Keys (unlock.rs)\<close>

definition keyfile_material :: "keyfile option \<Rightarrow> bytes option vault_act" where
  "keyfile_material kf = (case kf of
     None \<Rightarrow> areturn None
   | Some (KeyfileBytes b) \<Rightarrow> areturn (Some b)
   | Some (KeyfilePath p) \<Rightarrow> abind (aerr (\<lambda>e. VIo e p) (disk_read p)) (\<lambda>b. areturn (Some b)))"

definition build_key_from_material :: "('db, 'key) kdbx \<Rightarrow> string \<Rightarrow> bytes option \<Rightarrow> vault_error + 'key" where
  "build_key_from_material K pw m = map_err (\<lambda>e. VIo e [''<in-memory keyfile>'']) (kx_key K pw m)"

definition build_database_key :: "('db, 'key) kdbx \<Rightarrow> string \<Rightarrow> keyfile option \<Rightarrow> 'key vault_act" where
  "build_database_key K pw kf =
     abind (keyfile_material kf) (\<lambda>m. aresult (build_key_from_material K pw m))"

section \<open>Reading and writing the file\<close>

definition map_open_error :: "path \<Rightarrow> open_error \<Rightarrow> vault_error" where
  "map_open_error p e = (case e of
     OpenIo err \<Rightarrow> VIo err p
   | OpenKey \<Rightarrow> AuthenticationFailed
   | OpenCryptography \<Rightarrow> AuthenticationFailed
   | OpenUnexpectedEof \<Rightarrow> InvalidFormat e
   | OpenVersionParse \<Rightarrow> InvalidFormat e
   | OpenUnsupportedVersion \<Rightarrow> InvalidFormat e
   | OpenFormat \<Rightarrow> InvalidFormat e
   | OpenOther \<Rightarrow> AuthenticationFailed)"

definition open_database :: "('db, 'key) kdbx \<Rightarrow> path \<Rightarrow> 'key \<Rightarrow> 'db vault_act" where
  "open_database K p key =
     abind (aerr (\<lambda>e. VIo e p) (disk_read p)) (\<lambda>b.
       aresult (map_err (map_open_error p) (kx_open K b key)))"

definition save_database :: "('db, 'key) kdbx \<Rightarrow> path \<Rightarrow> 'db \<Rightarrow> 'key \<Rightarrow> unit vault_act" where
  "save_database K p db key d =
     (case kx_save K db key (d_seed d) of
        Inl e \<Rightarrow> (Inl (WriteFailed e), d\<lparr>d_seed := Suc (d_seed d)\<rparr>)
      | Inr b \<Rightarrow> disk_write p b (d\<lparr>d_seed := Suc (d_seed d)\<rparr>))"

text \<open>A guard taken before a failing step is dropped by the error return.\<close>

definition locked :: "nat \<Rightarrow> 'a vault_act \<Rightarrow> 'a vault_act" where
  "locked h body d = (case body d of (Inl e, d') \<Rightarrow> (Inl e, disk_unlock h d') | (Inr x, d') \<Rightarrow> (Inr x, d'))"

text \<open>Best-effort removal of the file on a failed creation.\<close>

definition remove_on_error :: "path \<Rightarrow> 'a vault_act \<Rightarrow> 'a vault_act" where
  "remove_on_error p body d = (case body d of
     (Inl e, d') \<Rightarrow> (Inl e, snd (disk_remove p d'))
   | (Inr x, d') \<Rightarrow> (Inr x, d'))"

section \<open>The operations of \<open>Vault\<close>\<close>

definition path_exists :: "path \<Rightarrow> disk \<Rightarrow> bool" where
  "path_exists p d = (d_files d p \<noteq> None)"

definition reserve_path :: "path \<Rightarrow> unit vault_act" where
  "reserve_path p = aerr (\<lambda>e. if e = IoAlreadyExists then PathExists p else VIo e p) (disk_create_new p)"

text \<open>\<open>create\<close>, with the KDF configuration already computed; \<open>h\<close> is the new lock handle.\<close>

definition vault_create ::
    "('db, 'key) kdbx \<Rightarrow> path \<Rightarrow> string \<Rightarrow> keyfile option \<Rightarrow> nat \<times> nat \<times> nat \<Rightarrow> nat \<Rightarrow> ('db, 'key) vault vault_act" where
  "vault_create K p pw kf cfg h d =
     (if path_exists p d then (Inl (PathExists p), d)
      else
        abind (case path_parent p of
            None \<Rightarrow> areturn ()
          | Some parent \<Rightarrow> aerr (\<lambda>x. VIo (fst x) parent) (disk_op id)) (\<lambda>_.
        abind (reserve_path p) (\<lambda>_.
        abind (keyfile_material kf) (\<lambda>m.
        abind (aresult (build_key_from_material K pw m)) (\<lambda>key.
        abind (remove_on_error p (disk_lock Exclusive p h)) (\<lambda>_.
        abind (locked h (remove_on_error p (save_database K p (kx_fresh K cfg) key))) (\<lambda>_.
        areturn \<lparr>v_path = p, v_database = kx_fresh K cfg, v_key = key, v_keyfile = m, v_lock = h\<rparr>)))))) d)"

definition vault_open ::
    "('db, 'key) kdbx \<Rightarrow> path \<Rightarrow> string \<Rightarrow> keyfile option \<Rightarrow> nat \<Rightarrow> ('db, 'key) vault vault_act" where
  "vault_open K p pw kf h d =
     (if \<not> path_exists p d then (Inl (FileNotFound p), d)
      else
        abind (disk_lock Exclusive p h) (\<lambda>_.
        locked h
          (abind (keyfile_material kf) (\<lambda>m.
           abind (aresult (build_key_from_material K pw m)) (\<lambda>key.
           abind (open_database K p key) (\<lambda>db.
           areturn \<lparr>v_path = p, v_database = db, v_key = key, v_keyfile = m, v_lock = h\<rparr>))))) d)"

definition vault_open_read_only ::
    "('db, 'key) kdbx \<Rightarrow> path \<Rightarrow> string \<Rightarrow> keyfile option \<Rightarrow> nat \<Rightarrow> 'db vault_act" where
  "vault_open_read_only K p pw kf h d =
     (if \<not> path_exists p d then (Inl (FileNotFound p), d)
      else
        abind (disk_lock Shared p h) (\<lambda>_.
        locked h
          (abind (build_database_key K pw kf) (\<lambda>key. open_database K p key))) d)"

definition vault_save :: "('db, 'key) kdbx \<Rightarrow> ('db, 'key) vault \<Rightarrow> unit vault_act" where
  "vault_save K v = save_database K (v_path v) (v_database v) (v_key v)"

definition change_master_password ::
    "('db, 'key) kdbx \<Rightarrow> ('db, 'key) vault \<Rightarrow> string \<Rightarrow> string \<Rightarrow> ('db, 'key) vault vault_act" where
  "change_master_password K v current new =
     abind (aresult (build_key_from_material K current (v_keyfile v))) (\<lambda>current_key.
     abind (open_database K (v_path v) current_key) (\<lambda>_.
     abind (aresult (build_key_from_material K new (v_keyfile v))) (\<lambda>new_key.
     abind (save_database K (v_path v) (v_database v) new_key) (\<lambda>_.
     areturn (v\<lparr>v_key := new_key\<rparr>)))))"

definition open_from_bytes :: "('db, 'key) kdbx \<Rightarrow> bytes \<Rightarrow> string \<Rightarrow> keyfile option \<Rightarrow> 'db vault_act" where
  "open_from_bytes K b pw kf =
     abind (build_database_key K pw kf) (\<lambda>key.
       aresult (map_err (map_open_error [''<memory>'']) (kx_open K b key)))"

definition replace_database ::
    "('db, 'key) kdbx \<Rightarrow> ('db, 'key) vault \<Rightarrow> 'db \<Rightarrow> vault_error + ('db, 'key) vault" where
  "replace_database K v db =
     (if kx_root K (v_database v) \<noteq> kx_root K db
      then Inl (DatabaseIdentityMismatch (kx_root K (v_database v)) (kx_root K db))
      else Inr (v\<lparr>v_database := db\<rparr>))"

section \<open>Lemmas on the operations\<close>

lemma calm_material:
  "d_troubles d = [] \<Longrightarrow> keyfile_material kf d =
     (case kf of None \<Rightarrow> (Inr None, d) | Some (KeyfileBytes b) \<Rightarrow> (Inr (Some b), d)
      | Some (KeyfilePath q) \<Rightarrow> (case d_files d q of None \<Rightarrow> (Inl (VIo IoNotFound q), d) | Some b \<Rightarrow> (Inr (Some b), d)))"
  by (simp add: keyfile_material_def calm_read abind_def aerr_def split: option.splits keyfile.splits)

lemma calm_create_new:
  "d_troubles d = [] \<Longrightarrow> d_files d p = None \<Longrightarrow>
   reserve_path p d = (Inr (), d\<lparr>d_files := (d_files d)(p \<mapsto> [])\<rparr>)"
  by (simp add: reserve_path_def disk_create_new_def aerr_def calm_op)

lemma calm_save:
  "d_troubles d = [] \<Longrightarrow> p \<noteq> [] \<Longrightarrow> save_database K p db key d =
     (case kx_save K db key (d_seed d) of
        Inl e \<Rightarrow> (Inl (WriteFailed e), d\<lparr>d_seed := Suc (d_seed d)\<rparr>)
      | Inr b \<Rightarrow> (Inr (), d\<lparr>d_seed := Suc (d_seed d), d_files := (d_files d)(p \<mapsto> b)\<rparr>))"
  by (simp add: save_database_def disk_write_def aerr_def calm_op split: sum.split)

text \<open>What a successful creation did, on a disk without troubles.\<close>

lemma create_calm:
  assumes "d_troubles d = []" "p \<noteq> []" "vault_create K p pw kf cfg h d = (Inr v, d')"
  shows "d_files d p = None
     \<and> fst (keyfile_material kf (d\<lparr>d_files := (d_files d)(p \<mapsto> [])\<rparr>)) = Inr (v_keyfile v)
     \<and> build_key_from_material K pw (v_keyfile v) = Inr (v_key v)
     \<and> compatible Exclusive (sidecar_lock_path p) (d_locks d)
     \<and> (\<exists>b. kx_save K (v_database v) (v_key v) (d_seed d) = Inr b
         \<and> d' = d\<lparr>d_files := (d_files d)(p \<mapsto> b), d_locks := (sidecar_lock_path p, Exclusive, h) # d_locks d,
                 d_seed := Suc (d_seed d)\<rparr>)
     \<and> v_path v = p \<and> v_database v = kx_fresh K cfg \<and> v_lock v = h"
proof -
  have ex: "d_files d p = None" using assms(3) by (auto simp: vault_create_def path_exists_def split: if_splits)
  have par: "path_parent p = Some (butlast p)" using assms(2) by (simp add: path_parent_def)
  let ?d = "d\<lparr>d_files := (d_files d)(p \<mapsto> [])\<rparr>"
  have m: "snd (keyfile_material kf ?d) = ?d"
    by (simp add: calm_material assms(1) split: option.splits keyfile.splits)
  obtain m where m': "keyfile_material kf ?d = (Inr m, ?d)"
    using assms(3) ex m
    by (cases "keyfile_material kf ?d"; cases "fst (keyfile_material kf ?d)")
      (auto simp: vault_create_def path_exists_def par abind_def aerr_def calm_op calm_create_new assms(1))
  show ?thesis
    using assms(3) ex m' assms(1,2)
    by (auto simp: vault_create_def path_exists_def par abind_def aerr_def calm_op calm_create_new
        calm_lock calm_save remove_on_error_def locked_def split: sum.splits if_splits)
qed

text \<open>What opening the file with bytes \<open>b\<close> gives: with the key of the vault, the database the library reads from \<open>b\<close>
  in a handle that is otherwise the same; with the key of another password that the library refuses, its error, and
  the lock is free again.\<close>

definition opens_as :: "('db, 'key) kdbx \<Rightarrow> string \<Rightarrow> keyfile option \<Rightarrow> ('db, 'key) vault \<Rightarrow> bytes \<Rightarrow> disk \<Rightarrow> bool" where
  "opens_as K pw kf v b d =
     ((\<forall>h db. kx_open K b (v_key v) = Inr db \<longrightarrow>
         fst (vault_open K (v_path v) pw kf h d) = Inr (v\<lparr>v_lock := h, v_database := db\<rparr>))
    \<and> (\<forall>h pw' key e. build_key_from_material K pw' (v_keyfile v) = Inr key \<and> kx_open K b key = Inl e \<longrightarrow>
         vault_open K (v_path v) pw' kf h d = (Inl (map_open_error (v_path v) e), disk_unlock h d)))"

lemma opens_calm:
  assumes "d_troubles d = []" "d_files d (v_path v) = Some b" "compatible Exclusive (sidecar_lock_path (v_path v)) (d_locks d)"
    and m: "\<And>t. fst (keyfile_material kf (d\<lparr>d_locks := t\<rparr>)) = Inr (v_keyfile v)"
    and k: "build_key_from_material K pw (v_keyfile v) = Inr (v_key v)"
  shows "opens_as K pw kf v b d"
proof -
  have "keyfile_material kf (d\<lparr>d_locks := t\<rparr>) = (Inr (v_keyfile v), d\<lparr>d_locks := t\<rparr>)" for t
    using m [of t] assms(1) by (auto simp: calm_material split: option.splits keyfile.splits)
  then show ?thesis using assms(1-3) k
    by (auto simp: opens_as_def vault_open_def path_exists_def disk_unlock_def calm_lock locked_def abind_def
        open_database_def aerr_def calm_read release_def)
qed

text \<open>C12: what \<open>Vault::create\<close> and every \<open>Vault::save\<close> write, \<open>Vault::open\<close> reads. While the handle of the creation
  lives, nobody opens the vault. Once it is dropped, the same password and keyfile give back the key, the keyfile
  material and the database as the library reads it from the bytes it wrote, that is for the new database or, after a
  save, for the saved one; a password whose key the library refuses gets the mapped error and leaves no lock. Nothing
  is assumed of the library, and other files may be locked in any way.\<close>

theorem vault_create_open_roundtrip:
  assumes "d_troubles d = []" "p \<noteq> []" "kf \<noteq> Some (KeyfilePath p)"
    and "vault_create K p pw kf cfg h d = (Inr v, d')"
  shows "(\<forall>pw' kf' h'. fst (vault_open K p pw' kf' h' d') = Inl (Contended None))
    \<and> (\<exists>b s. kx_save K (kx_fresh K cfg) (v_key v) s = Inr b \<and> opens_as K pw kf v b (disk_unlock h d'))
    \<and> (\<forall>db d2. vault_save K (v\<lparr>v_database := db\<rparr>) d' = (Inr (), d2) \<longrightarrow>
         (\<exists>b s. kx_save K db (v_key v) s = Inr b \<and> opens_as K pw kf v b (disk_unlock h d2)))"
proof -
  from create_calm [OF assms(1,2,4)] obtain b where
    b: "kx_save K (v_database v) (v_key v) (d_seed d) = Inr b"
      "d' = d\<lparr>d_files := (d_files d)(p \<mapsto> b), d_locks := (sidecar_lock_path p, Exclusive, h) # d_locks d,
              d_seed := Suc (d_seed d)\<rparr>"
    and m: "fst (keyfile_material kf (d\<lparr>d_files := (d_files d)(p \<mapsto> [])\<rparr>)) = Inr (v_keyfile v)"
    and k: "build_key_from_material K pw (v_keyfile v) = Inr (v_key v)"
    and c: "compatible Exclusive (sidecar_lock_path p) (d_locks d)" and v: "v_path v = p" "v_database v = kx_fresh K cfg" by blast
  have free: "compatible Exclusive (sidecar_lock_path p) (release h (d_locks d'))"
    using compatible_release [OF c, of h] by (simp add: b(2) release_def)
  have material: "fst (keyfile_material kf (d'\<lparr>d_files := (d_files d)(p \<mapsto> c), d_seed := n, d_locks := t\<rparr>)) = Inr (v_keyfile v)" for c n t
    using m assms(1,3) by (auto simp: b(2) calm_material split: option.splits keyfile.splits if_splits)
  have held: "fst (vault_open K p pw' kf' h' d') = Inl (Contended None)" for pw' kf' h'
    using assms(1) by (simp add: b(2) vault_open_def path_exists_def calm_lock compatible_def abind_def)
  have created: "opens_as K pw kf v b (disk_unlock h d')"
    using assms(1) free k v material [where c = b and n = "d_seed d'"] by (intro opens_calm) (simp_all add: disk_unlock_def b(2))
  have saved: "\<exists>b s. kx_save K db (v_key v) s = Inr b \<and> opens_as K pw kf v b (disk_unlock h d2)"
    if "vault_save K (v\<lparr>v_database := db\<rparr>) d' = (Inr (), d2)" for db d2
  proof -
    from that assms(1,2) v obtain b2 where b2: "kx_save K db (v_key v) (d_seed d') = Inr b2"
      "d2 = d'\<lparr>d_files := (d_files d')(p \<mapsto> b2), d_seed := Suc (d_seed d')\<rparr>"
      by (auto simp: vault_save_def calm_save b(2) split: sum.split_asm)
    then have "opens_as K pw kf v b2 (disk_unlock h d2)"
      using assms(1) free k v material [where c = b2 and n = "d_seed d2"] by (intro opens_calm) (simp_all add: disk_unlock_def b(2))
    with b2(1) show ?thesis by blast
  qed
  show ?thesis using held created saved b(1) v(2) by metis
qed

text \<open>A toy codec, for the witnesses: the database is a number, its file the number and the key.\<close>

definition toy_kdbx :: "(nat, string) kdbx" where
  "toy_kdbx = \<lparr>kx_key = (\<lambda>pw m. Inr pw),
     kx_open = (\<lambda>b key. if b = [] then Inl OpenUnexpectedEof
        else if tl b = map (\<lambda>c. of_nat (of_char c)) key then Inr (unat (hd b)) else Inl OpenKey),
     kx_save = (\<lambda>db key s. if db < 256 then Inr (of_nat db # map (\<lambda>c. of_nat (of_char c)) key) else Inl 0),
     kx_root = (\<lambda>_. 0), kx_kdf = (\<lambda>_. 0), kx_fresh = (\<lambda>_. 5)\<rparr>"

definition empty_disk :: disk where
  "empty_disk = \<lparr>d_files = (\<lambda>_. None), d_troubles = [], d_locks = [], d_seed = 0\<rparr>"

theorem vault_create_open_roundtrip_witness:
  "\<exists>v d'. vault_create toy_kdbx [''v''] ''pw'' None (3, 65536, 2) 1 empty_disk = (Inr v, d')
     \<and> fst (vault_open toy_kdbx [''v''] ''pw'' None 2 d') = Inl (Contended None)
     \<and> fst (vault_open toy_kdbx [''v''] ''pw'' None 2 (disk_unlock 1 d')) = Inr (v\<lparr>v_lock := 2, v_database := 5\<rparr>)
     \<and> fst (vault_open toy_kdbx [''v''] ''px'' None 2 (disk_unlock 1 d')) = Inl AuthenticationFailed"
proof -
  obtain v d' where c: "vault_create toy_kdbx [''v''] ''pw'' None (3, 65536, 2) 1 empty_disk = (Inr v, d')"
      and v: "v_path v = [''v'']" "v_key v = ''pw''" "v_keyfile v = None"
    by (simp add: vault_create_def path_exists_def empty_disk_def path_parent_def abind_def aerr_def calm_op
        calm_create_new calm_material build_key_from_material_def toy_kdbx_def calm_lock calm_save
        compatible_def remove_on_error_def locked_def)
  have "d_troubles empty_disk = []" by (simp add: empty_disk_def)
  from vault_create_open_roundtrip [OF this _ _ c] obtain b s where
    held: "fst (vault_open toy_kdbx [''v''] ''pw'' None 2 d') = Inl (Contended None)"
    and b: "kx_save toy_kdbx (kx_fresh toy_kdbx (3, 65536, 2)) ''pw'' s = Inr b" and o: "opens_as toy_kdbx ''pw'' None v b (disk_unlock 1 d')"
    using v by auto
  have read: "kx_open toy_kdbx b ''pw'' = Inr 5" "kx_open toy_kdbx b ''px'' = Inl OpenKey"
    using b by (auto simp: toy_kdbx_def)
  have key: "build_key_from_material toy_kdbx ''px'' None = Inr ''px''" by (simp add: build_key_from_material_def toy_kdbx_def)
  have "fst (vault_open toy_kdbx [''v''] ''pw'' None 2 (disk_unlock 1 d')) = Inr (v\<lparr>v_lock := 2, v_database := 5\<rparr>)"
    "fst (vault_open toy_kdbx [''v''] ''px'' None 2 (disk_unlock 1 d')) = Inl AuthenticationFailed"
    using o read key unfolding opens_as_def v by (simp_all add: map_open_error_def)
  with c held show ?thesis by blast
qed

section \<open>Re-keying and failed creations\<close>

lemma open_database_cases:
  assumes "open_database K p key d = (r, d')"
  shows "d_files d' = d_files d \<and> d_seed d' = d_seed d \<and> d_locks d' = d_locks d
    \<and> (\<forall>db. r = Inr db \<longrightarrow> (\<exists>b. d_files d p = Some b \<and> kx_open K b key = Inr db))"
proof -
  obtain r0 d0 where rd: "disk_read p d = (r0, d0)" by fastforce
  from assms disk_read_files [OF rd] show ?thesis
    by (cases r0) (auto simp: open_database_def abind_def aerr_def rd)
qed

lemma save_database_cases:
  assumes "save_database K p db key d = (r, d')"
  shows "(d_files d' = d_files d \<or> (\<exists>b. kx_save K db key (d_seed d) = Inr b \<and> d_files d' = (d_files d)(p \<mapsto> b)))
    \<and> (r = Inr () \<longrightarrow> (\<exists>b. kx_save K db key (d_seed d) = Inr b \<and> d_files d' = (d_files d)(p \<mapsto> b)))
    \<and> d_locks d' = d_locks d"
proof (cases "kx_save K db key (d_seed d)")
  case (Inr b)
  with assms have "disk_write p b (d\<lparr>d_seed := Suc (d_seed d)\<rparr>) = (r, d')" by (simp add: save_database_def)
  from disk_write_cases [OF this] Inr show ?thesis by auto
qed (use assms in \<open>auto simp: save_database_def\<close>)

text \<open>The vault file of a re-keyed vault: the old one was readable with the current password.\<close>

definition rekeyed :: "('db, 'key) kdbx \<Rightarrow> ('db, 'key) vault \<Rightarrow> string \<Rightarrow> string \<Rightarrow> disk \<Rightarrow> 'key \<Rightarrow> disk \<Rightarrow> bool" where
  "rekeyed K v current new d nk d' = (\<exists>ck old db b. build_key_from_material K current (v_keyfile v) = Inr ck
     \<and> d_files d (v_path v) = Some old \<and> kx_open K old ck = Inr db
     \<and> build_key_from_material K new (v_keyfile v) = Inr nk \<and> kx_save K (v_database v) nk (d_seed d) = Inr b
     \<and> d_files d' = (d_files d)(v_path v \<mapsto> b))"

text \<open>C13: changing the master password is authenticated. The disk changes only when the current
  password opens the vault file as it is on disk, and then only by a file saved under the new
  key with the in-memory database; a success makes exactly that change and keeps the rest of
  the handle.\<close>

theorem change_password_authenticated:
  assumes "change_master_password K v current new d = (r, d')"
  shows "(d_files d' = d_files d \<or> (\<exists>nk. rekeyed K v current new d nk d'))
     \<and> (\<forall>v'. r = Inr v' \<longrightarrow> rekeyed K v current new d (v_key v') d' \<and> v' = v\<lparr>v_key := v_key v'\<rparr>)"
proof (cases "build_key_from_material K current (v_keyfile v)")
  case (Inr ck)
  obtain r1 d1 where o: "open_database K (v_path v) ck d = (r1, d1)" by fastforce
  note o' = open_database_cases [OF o]
  show ?thesis
  proof (cases r1)
    case (Inr db)
    note r1 = this
    show ?thesis
    proof (cases "build_key_from_material K new (v_keyfile v)")
      case (Inr nk)
      obtain r2 d2 where s: "save_database K (v_path v) (v_database v) nk d1 = (r2, d2)" by fastforce
      from save_database_cases [OF s] o' r1 Inr \<open>build_key_from_material K current _ = _\<close> assms o s show ?thesis
        by (cases r2) (auto simp: change_master_password_def abind_def rekeyed_def)
    qed (use assms o o' r1 \<open>build_key_from_material K current _ = _\<close> in \<open>auto simp: change_master_password_def abind_def\<close>)
  qed (use assms o o' \<open>build_key_from_material K current _ = _\<close> in \<open>auto simp: change_master_password_def abind_def\<close>)
qed (use assms in \<open>auto simp: change_master_password_def abind_def\<close>)

definition toy_vault :: "(nat, string) vault" where
  "toy_vault = \<lparr>v_path = [''v''], v_database = 5, v_key = ''a'', v_keyfile = None, v_lock = 1\<rparr>"

definition toy_disk :: disk where
  "toy_disk = empty_disk\<lparr>d_files := [[''v''] \<mapsto> [5, 97]]\<rparr>"

theorem change_password_authenticated_witness:
  "\<exists>v' d'. change_master_password toy_kdbx toy_vault ''a'' ''b'' toy_disk = (Inr v', d')
     \<and> rekeyed toy_kdbx toy_vault ''a'' ''b'' toy_disk (v_key v') d' \<and> v' = toy_vault\<lparr>v_key := v_key v'\<rparr>"
proof -
  obtain v' d' where c: "change_master_password toy_kdbx toy_vault ''a'' ''b'' toy_disk = (Inr v', d')"
    by (simp add: change_master_password_def build_key_from_material_def toy_kdbx_def toy_vault_def
        toy_disk_def empty_disk_def abind_def aerr_def open_database_def calm_read calm_save)
  from change_password_authenticated [OF c] c show ?thesis by blast
qed

text \<open>a keyfile that cannot be read makes \<open>Vault::create\<close> fail after it has reserved the
  path, and unlike the lock and save failures this one does not remove the reservation: an
  empty file stays behind, and every later creation at the path is refused.\<close>

theorem create_bad_keyfile_leaves_file:
  assumes "d_troubles d = []" "p \<noteq> []" "q \<noteq> p" "d_files d p = None" "d_files d q = None"
  shows "\<exists>d'. vault_create K p pw (Some (KeyfilePath q)) cfg h d = (Inl (VIo IoNotFound q), d')
     \<and> d_files d' p = Some [] \<and> fst (vault_create K p pw kf cfg h2 d') = Inl (PathExists p)"
  using assms by (simp add: vault_create_def path_exists_def path_parent_def abind_def aerr_def calm_op
      calm_create_new calm_material)

theorem create_bad_keyfile_leaves_file_witness:
  "\<exists>d'. vault_create toy_kdbx [''v''] ''pw'' (Some (KeyfilePath [''k''])) (3, 65536, 2) 1 empty_disk
       = (Inl (VIo IoNotFound [''k'']), d')
     \<and> d_files d' [''v''] = Some [] \<and> fst (vault_create toy_kdbx [''v''] ''pw'' None (3, 65536, 2) 2 d') = Inl (PathExists [''v''])"
  by (rule create_bad_keyfile_leaves_file) (simp_all add: empty_disk_def)

end
