(* ===== verification/SyncMachine.thy ===== *)
theory SyncMachine
  imports Transport VaultFile
begin

text \<open>
  The sync orchestrator (\<open>falach-sync/src/sync.rs\<close>, \<open>backup.rs\<close>): the four-state machine over
  (remote changed?, local changed?), the merge-and-retry loop, and the pre-merge backup. The
  merge engine is a parameter here (\<open>ss_reconcile\<close>; see \<open>MergeAdapter\<close> for the code's own),
  as are the KDBX library, SHA-256 and the transport. The activity callback is a counter.
\<close>

section \<open>State, options, outcomes\<close>

record entry_delta =
  ed_added :: "nat list"
  ed_removed :: "nat list"
  ed_modified :: "nat list"

record ('db, 'key, 't, 'e) sync_setup =
  ss_kdbx :: "('db, 'key) kdbx"
  ss_reconcile :: "'db \<Rightarrow> 'db \<Rightarrow> (string + entry_delta) \<times> 'db"
  ss_sha :: "bytes \<Rightarrow> string"
  ss_transport :: "('t, 'e) transport"
  ss_password :: string
  ss_keyfile :: "keyfile option"

record ('db, 'key, 't) sync_world =
  sw_vault :: "('db, 'key) vault"
  sw_disk :: disk
  sw_transport :: 't
  sw_pings :: nat

record sync_options =
  so_max_retries :: nat
  so_on_activity :: bool

definition default_max_retries :: nat where
  "default_max_retries = 3"

definition default_options :: sync_options where
  "default_options = \<lparr>so_max_retries = default_max_retries, so_on_activity = False\<rparr>"

record sync_pointers =
  sp_remote_etag :: "string option"
  sp_local_sha256 :: "string option"

datatype sync_outcome =
    AlreadyInSync
  | Pushed bool
  | FastReplaced
  | Merged entry_delta nat

type_synonym ('db, 'key, 't, 'a) sync_act = "(('db, 'key, 't) sync_world, sync_error, 'a) act"

section \<open>Steps\<close>

definition on_disk_act :: "('e \<Rightarrow> sync_error) \<Rightarrow> (disk, 'e, 'a) act \<Rightarrow> ('db, 'key, 't, 'a) sync_act" where
  "on_disk_act g m w = (case m (sw_disk w) of (r, d) \<Rightarrow> (map_err g r, w\<lparr>sw_disk := d\<rparr>))"

definition on_transport :: "('t, 'e) transport \<Rightarrow> ('t, 'e, 'a) act \<Rightarrow> ('db, 'key, 't, 'a) sync_act" where
  "on_transport T m w = (case m (sw_transport w) of (r, t) \<Rightarrow> (map_err (tr_into T) r, w\<lparr>sw_transport := t\<rparr>))"

definition ping :: "sync_options \<Rightarrow> ('db, 'key, 't, unit) sync_act" where
  "ping opts w = (Inr (), if so_on_activity opts then w\<lparr>sw_pings := Suc (sw_pings w)\<rparr> else w)"

definition read_vault_bytes :: "path \<Rightarrow> ('db, 'key, 't, bytes) sync_act" where
  "read_vault_bytes p = on_disk_act (VaultIo p) (disk_read p)"

definition backup_path_for :: "path \<Rightarrow> path" where
  "backup_path_for p = path_append p ''.bak''"

definition backup_write_error :: "vault_error \<Rightarrow> sync_error" where
  "backup_write_error e = (case e of VIo src _ \<Rightarrow> BackupFailed src | other \<Rightarrow> SyncVault other)"

definition snapshot_pre_merge :: "path \<Rightarrow> ('db, 'key, 't, path) sync_act" where
  "snapshot_pre_merge p =
     abind (on_disk_act BackupFailed (disk_read p)) (\<lambda>b.
     abind (on_disk_act backup_write_error (disk_write (backup_path_for p) b)) (\<lambda>_.
     areturn (backup_path_for p)))"

definition save_vault :: "('db, 'key, 't, 'e) sync_setup \<Rightarrow> ('db, 'key, 't, unit) sync_act" where
  "save_vault S w = on_disk_act SyncVault (vault_save (ss_kdbx S) (sw_vault w)) w"

definition open_remote :: "('db, 'key, 't, 'e) sync_setup \<Rightarrow> bytes \<Rightarrow> ('db, 'key, 't, 'db) sync_act" where
  "open_remote S b = on_disk_act SyncVault (open_from_bytes (ss_kdbx S) b (ss_password S) (ss_keyfile S))"

definition check_kdf :: "('db, 'key, 't, 'e) sync_setup \<Rightarrow> 'db \<Rightarrow> ('db, 'key, 't, unit) sync_act" where
  "check_kdf S remote_db w =
     (if kx_kdf (ss_kdbx S) (v_database (sw_vault w)) \<noteq> kx_kdf (ss_kdbx S) remote_db
      then (Inl MasterPasswordMismatch, w) else (Inr (), w))"

definition install_database :: "('db, 'key, 't, 'e) sync_setup \<Rightarrow> 'db \<Rightarrow> ('db, 'key, 't, unit) sync_act" where
  "install_database S db w = (case replace_database (ss_kdbx S) (sw_vault w) db of
     Inl e \<Rightarrow> (Inl (SyncVault e), w)
   | Inr v \<Rightarrow> (Inr (), w\<lparr>sw_vault := v\<rparr>))"

text \<open>The merge works in place: a failing merge may leave a partly merged database.\<close>

definition reconcile_step :: "('db, 'key, 't, 'e) sync_setup \<Rightarrow> path \<Rightarrow> 'db \<Rightarrow> ('db, 'key, 't, entry_delta) sync_act" where
  "reconcile_step S backup_path remote_db w =
     (case ss_reconcile S (v_database (sw_vault w)) remote_db of
        (r, db) \<Rightarrow> (map_err (\<lambda>reason. Unresolvable reason backup_path) r, w\<lparr>sw_vault := (sw_vault w)\<lparr>v_database := db\<rparr>\<rparr>))"

section \<open>The merge loop\<close>

datatype attempt = Uploaded version string entry_delta | Contested

definition merge_rest ::
    "('db, 'key, 't, 'e) sync_setup \<Rightarrow> sync_options \<Rightarrow> path \<Rightarrow> path \<Rightarrow> snapshot \<Rightarrow> ('db, 'key, 't, attempt) sync_act" where
  "merge_rest S opts backup_path p snap =
     (let T = ss_transport S; (version, bytes) = snap in
      abind (ping opts) (\<lambda>_.
      abind (open_remote S bytes) (\<lambda>remote_db.
      abind (check_kdf S remote_db) (\<lambda>_.
      abind (reconcile_step S backup_path remote_db) (\<lambda>delta.
      abind (ping opts) (\<lambda>_.
      abind (save_vault S) (\<lambda>_.
      abind (read_vault_bytes p) (\<lambda>merged w.
        case on_transport T (tr_put T merged (Some version)) w of
          (Inr v, w') \<Rightarrow> abind (ping opts) (\<lambda>_. areturn (Uploaded v (ss_sha S merged) delta)) w'
        | (Inl e, w') \<Rightarrow> if is_precondition_failure e then (Inr Contested, w') else (Inl e, w')))))))))"

definition merge_attempt ::
    "('db, 'key, 't, 'e) sync_setup \<Rightarrow> sync_options \<Rightarrow> path \<Rightarrow> ('db, 'key, 't, attempt) sync_act" where
  "merge_attempt S opts backup_path w0 =
     (let T = ss_transport S in
      abind (on_transport T (tr_fetch T None)) (\<lambda>snap.
      abind (case snap of
          None \<Rightarrow> athrow (RemoteUnreachable ''<transport>'' ''transport returned no snapshot during merge'')
        | Some s \<Rightarrow> areturn s) (merge_rest S opts backup_path (v_path (sw_vault w0)))) w0)"

function merge_loop ::
    "('db, 'key, 't, 'e) sync_setup \<Rightarrow> sync_options \<Rightarrow> path \<Rightarrow> nat \<Rightarrow> nat \<Rightarrow>
     ('db, 'key, 't, sync_outcome \<times> sync_pointers) sync_act" where
  "merge_loop S opts backup_path maxi attempts =
     abind (merge_attempt S opts backup_path) (\<lambda>r.
       case r of
         Uploaded v sha delta \<Rightarrow> areturn (Merged delta (Suc attempts),
           \<lparr>sp_remote_etag = Some v, sp_local_sha256 = Some sha\<rparr>)
       | Contested \<Rightarrow>
           if maxi \<le> Suc attempts then athrow (ConditionalPutExhausted maxi)
           else merge_loop S opts backup_path maxi (Suc attempts))"
  by pat_completeness auto
termination
  by (relation "measure (\<lambda>(S, opts, backup_path, maxi, attempts). maxi - attempts)") auto

declare merge_loop.simps [simp del]

section \<open>The four-state machine\<close>

definition push_local ::
    "('db, 'key, 't, 'e) sync_setup \<Rightarrow> sync_options \<Rightarrow> version option \<Rightarrow> bytes \<Rightarrow>
     ('db, 'key, 't, sync_outcome \<times> sync_pointers) sync_act" where
  "push_local S opts prev_remote local_bytes =
     (let T = ss_transport S in
      abind (on_transport T (tr_put T local_bytes prev_remote)) (\<lambda>v.
      abind (ping opts) (\<lambda>_.
      areturn (Pushed (prev_remote = None),
        \<lparr>sp_remote_etag = Some v, sp_local_sha256 = Some (ss_sha S local_bytes)\<rparr>))))"

definition fast_replace ::
    "('db, 'key, 't, 'e) sync_setup \<Rightarrow> sync_options \<Rightarrow> version option \<Rightarrow> string option \<Rightarrow>
     ('db, 'key, 't, sync_outcome \<times> sync_pointers) sync_act" where
  "fast_replace S opts prev_remote prev_sha w0 =
     (let T = ss_transport S; p = v_path (sw_vault w0) in
      abind (on_transport T (tr_fetch T prev_remote)) (\<lambda>snap.
      abind (ping opts) (\<lambda>_.
      case snap of
        None \<Rightarrow> areturn (AlreadyInSync, \<lparr>sp_remote_etag = prev_remote, sp_local_sha256 = prev_sha\<rparr>)
      | Some (version, bytes) \<Rightarrow>
          abind (open_remote S bytes) (\<lambda>remote_db.
          abind (check_kdf S remote_db) (\<lambda>_.
          abind (snapshot_pre_merge p) (\<lambda>_.
          abind (ping opts) (\<lambda>_.
          abind (install_database S remote_db) (\<lambda>_.
          abind (save_vault S) (\<lambda>_.
          abind (read_vault_bytes p) (\<lambda>b.
          areturn (FastReplaced, \<lparr>sp_remote_etag = Some version, sp_local_sha256 = Some (ss_sha S b)\<rparr>)))))))))) w0)"

definition merge_diverged ::
    "('db, 'key, 't, 'e) sync_setup \<Rightarrow> sync_options \<Rightarrow> ('db, 'key, 't, sync_outcome \<times> sync_pointers) sync_act" where
  "merge_diverged S opts w0 =
     abind (snapshot_pre_merge (v_path (sw_vault w0))) (\<lambda>backup_path.
       merge_loop S opts backup_path (max (so_max_retries opts) 1) 0) w0"

definition run_state_machine ::
    "('db, 'key, 't, 'e) sync_setup \<Rightarrow> string option \<Rightarrow> string option \<Rightarrow> sync_options \<Rightarrow>
     ('db, 'key, 't, sync_outcome \<times> sync_pointers) sync_act" where
  "run_state_machine S prev_remote prev_sha opts w0 =
     (let T = ss_transport S in
      abind (on_transport T (tr_head T)) (\<lambda>remote_now.
      abind (ping opts) (\<lambda>_.
      abind (read_vault_bytes (v_path (sw_vault w0))) (\<lambda>local_bytes.
        let remote_changed = (remote_now \<noteq> prev_remote);
            local_changed = (Some (ss_sha S local_bytes) \<noteq> prev_sha)
        in if \<not> remote_changed \<and> \<not> local_changed
           then areturn (AlreadyInSync, \<lparr>sp_remote_etag = prev_remote, sp_local_sha256 = prev_sha\<rparr>)
           else if \<not> remote_changed then push_local S opts prev_remote local_bytes
           else if \<not> local_changed then fast_replace S opts prev_remote prev_sha
           else merge_diverged S opts))) w0)"

section \<open>Steps, inverted\<close>

lemma on_transport_Inr:
  "on_transport T m w = (Inr x, w') \<longleftrightarrow> (\<exists>t. m (sw_transport w) = (Inr x, t) \<and> w' = w\<lparr>sw_transport := t\<rparr>)"
  by (cases "m (sw_transport w)") (auto simp: on_transport_def)

lemma on_disk_Inr:
  "on_disk_act g m w = (Inr x, w') \<longleftrightarrow> (\<exists>d. m (sw_disk w) = (Inr x, d) \<and> w' = w\<lparr>sw_disk := d\<rparr>)"
  by (cases "m (sw_disk w)") (auto simp: on_disk_act_def)

lemma ping_fields [simp]:
  "sw_vault (snd (ping opts w)) = sw_vault w" "sw_disk (snd (ping opts w)) = sw_disk w"
  "sw_transport (snd (ping opts w)) = sw_transport w" "fst (ping opts w) = Inr ()"
  by (simp_all add: ping_def)

lemma ping_Inr: "ping opts w = (Inr x, w') \<Longrightarrow>
  sw_vault w' = sw_vault w \<and> sw_disk w' = sw_disk w \<and> sw_transport w' = sw_transport w"
  using ping_fields [of opts w] by (metis snd_conv)

lemma read_bytes_Inr:
  assumes "read_vault_bytes p w = (Inr b, w')"
  shows "\<exists>d. w' = w\<lparr>sw_disk := d\<rparr> \<and> d_files d = d_files (sw_disk w) \<and> d_files d p = Some b"
proof -
  from assms obtain d where d: "disk_read p (sw_disk w) = (Inr b, d)" "w' = w\<lparr>sw_disk := d\<rparr>"
    unfolding read_vault_bytes_def on_disk_Inr by blast
  with disk_read_files [OF d(1)] show ?thesis by auto
qed

lemma save_vault_Inr:
  "save_vault S w = (Inr u, w') \<Longrightarrow> \<exists>d b. w' = w\<lparr>sw_disk := d\<rparr>
     \<and> kx_save (ss_kdbx S) (v_database (sw_vault w)) (v_key (sw_vault w)) (d_seed (sw_disk w)) = Inr b
     \<and> d_files d = (d_files (sw_disk w))(v_path (sw_vault w) \<mapsto> b)"
  unfolding save_vault_def on_disk_Inr vault_save_def by (auto dest: save_database_cases)

lemma open_remote_Inr:
  "open_remote S b w = (Inr db, w') \<Longrightarrow> \<exists>d. w' = w\<lparr>sw_disk := d\<rparr> \<and>
     fst (open_from_bytes (ss_kdbx S) b (ss_password S) (ss_keyfile S) (sw_disk w)) = Inr db"
  unfolding open_remote_def on_disk_Inr by auto

lemma check_kdf_Inr:
  "check_kdf S rdb w = (Inr u, w') \<Longrightarrow> w' = w \<and> kx_kdf (ss_kdbx S) (v_database (sw_vault w)) = kx_kdf (ss_kdbx S) rdb"
  by (simp add: check_kdf_def split: if_splits)

lemma reconcile_Inr:
  "reconcile_step S bp rdb w = (Inr delta, w') \<Longrightarrow> \<exists>db. ss_reconcile S (v_database (sw_vault w)) rdb = (Inr delta, db)
     \<and> w' = w\<lparr>sw_vault := (sw_vault w)\<lparr>v_database := db\<rparr>\<rparr>"
  by (cases "ss_reconcile S (v_database (sw_vault w)) rdb") (auto simp: reconcile_step_def)

lemmas step_inversions = ping_Inr read_bytes_Inr save_vault_Inr open_remote_Inr check_kdf_Inr reconcile_Inr

section \<open>What each run may touch\<close>

text \<open>The vault keeps its path, and no file but the vault's changes.\<close>

definition only_files :: "path set \<Rightarrow> path \<Rightarrow> (path \<Rightarrow> bytes option) \<Rightarrow> ('db, 'key, 't) sync_world \<Rightarrow> bool" where
  "only_files Q p F w = (v_path (sw_vault w) = p \<and> (\<forall>q. q \<notin> Q \<longrightarrow> d_files (sw_disk w) q = F q))"

abbreviation only_vault_file :: "path \<Rightarrow> (path \<Rightarrow> bytes option) \<Rightarrow> ('db, 'key, 't) sync_world \<Rightarrow> bool" where
  "only_vault_file p \<equiv> only_files {p} p"

definition keeps :: "(('db, 'key, 't) sync_world \<Rightarrow> bool) \<Rightarrow> ('db, 'key, 't, 'a) sync_act \<Rightarrow> bool" where
  "keeps P m = (\<forall>w. P w \<longrightarrow> P (snd (m w)))"

lemma keeps_bind: "keeps P m \<Longrightarrow> (\<And>x. keeps P (f x)) \<Longrightarrow> keeps P (abind m f)"
  unfolding keeps_def by (blast intro: abind_preserves)

lemma keeps_pure: "keeps P (areturn x)" "keeps P (athrow e)"
  by (simp_all add: keeps_def)

lemma keeps_transport: "keeps (only_files Q p F) (on_transport T m)"
  by (auto simp: keeps_def on_transport_def only_files_def split: prod.splits)

lemma keeps_ping: "keeps (only_files Q p F) (ping opts)"
  by (auto simp: keeps_def ping_def only_files_def)

lemma keeps_read: "keeps (only_files Q p F) (read_vault_bytes q)"
  by (auto simp: keeps_def read_vault_bytes_def on_disk_act_def only_files_def split: prod.splits
      dest!: disk_read_files)

lemma material_files: "keyfile_material k d = (r, d') \<Longrightarrow> d_files d' = d_files d"
  by (cases k) (auto simp: keyfile_material_def aerr_def abind_def split: keyfile.splits prod.splits sum.splits
      dest!: disk_read_files)

lemma open_remote_files: "d_files (sw_disk (snd (open_remote S b w))) = d_files (sw_disk w)
    \<and> sw_vault (snd (open_remote S b w)) = sw_vault w"
proof -
  obtain r d where "open_from_bytes (ss_kdbx S) b (ss_password S) (ss_keyfile S) (sw_disk w) = (r, d)" by fastforce
  moreover from this have "d_files d = d_files (sw_disk w)"
    by (auto simp: open_from_bytes_def build_database_key_def abind_def aerr_def split: prod.splits sum.splits dest: material_files)
  ultimately show ?thesis by (simp add: open_remote_def on_disk_act_def)
qed

lemma keeps_open: "keeps (only_files Q p F) (open_remote S b)"
  by (simp add: keeps_def only_files_def open_remote_files)

lemma keeps_check: "keeps (only_files Q p F) (check_kdf S db)"
  by (simp add: keeps_def check_kdf_def)

lemma keeps_reconcile: "keeps (only_files Q p F) (reconcile_step S bp db)"
  by (auto simp: keeps_def reconcile_step_def only_files_def split: prod.splits)

lemma keeps_save:
  fixes S :: "('db, 'key, 't, 'e) sync_setup"
  assumes "p \<in> Q"
  shows "keeps (only_files Q p F) (save_vault S)"
  unfolding keeps_def
proof (intro allI impI)
  fix w :: "('db, 'key, 't) sync_world"
  assume o: "only_files Q p F w"
  obtain r d where sv: "vault_save (ss_kdbx S) (sw_vault w) (sw_disk w) = (r, d)" by fastforce
  from save_database_cases [OF sv [unfolded vault_save_def]] o assms show "only_files Q p F (snd (save_vault S w))"
    by (auto simp: save_vault_def on_disk_act_def sv only_files_def)
qed

lemmas keeps_steps = keeps_bind keeps_pure keeps_transport keeps_ping keeps_read keeps_open keeps_check
  keeps_reconcile keeps_save

lemma keeps_merge_rest:
  assumes "p \<in> Q"
  shows "keeps (only_files Q p F) (merge_rest S opts bp q snap)"
proof (cases snap)
  case (Pair version b)
  have put: "keeps (only_files Q p F) (\<lambda>w. case on_transport (ss_transport S) (tr_put (ss_transport S) merged (Some version)) w of
          (Inr v, w') \<Rightarrow> abind (ping opts) (\<lambda>_. areturn (Uploaded v (ss_sha S merged) delta)) w'
        | (Inl e, w') \<Rightarrow> if is_precondition_failure e then (Inr Contested, w') else (Inl e, w'))" for merged delta
    using keeps_transport [of Q p F "ss_transport S" "tr_put (ss_transport S) merged (Some version)"]
      keeps_bind [OF keeps_ping keeps_pure(1), of Q p F opts "\<lambda>_. Uploaded v (ss_sha S merged) delta" for v]
    by (fastforce simp: keeps_def split: prod.splits sum.splits)
  show ?thesis unfolding merge_rest_def Pair Let_def prod.case by (intro keeps_steps put assms)
qed

lemma keeps_merge_attempt:
  assumes "p \<in> Q"
  shows "keeps (only_files Q p F) (merge_attempt S opts bp)"
proof -
  have "keeps (only_files Q p F) (abind (on_transport (ss_transport S) (tr_fetch (ss_transport S) None)) (\<lambda>snap.
      abind (case snap of
          None \<Rightarrow> athrow (RemoteUnreachable ''<transport>'' ''transport returned no snapshot during merge'')
        | Some s \<Rightarrow> areturn s) (merge_rest S opts bp q)))" for q
    by (intro keeps_bind keeps_transport keeps_merge_rest assms) (auto split: option.split intro: keeps_pure)
  then show ?thesis by (simp add: keeps_def merge_attempt_def Let_def)
qed

lemma keeps_merge_loop:
  assumes "p \<in> Q"
  shows "keeps (only_files Q p F) (merge_loop S opts bp maxi attempts)"
proof (induction S opts bp maxi attempts rule: merge_loop.induct)
  case (1 S opts bp maxi attempts)
  show ?case unfolding merge_loop.simps [of S opts bp maxi attempts]
    by (intro keeps_bind keeps_merge_attempt assms) (auto split: attempt.split intro: keeps_pure 1)
qed

lemma snapshot_cases:
  assumes "snapshot_pre_merge p w = (r, w')"
  shows "sw_vault w' = sw_vault w \<and> sw_transport w' = sw_transport w \<and> r \<noteq> Inl MasterPasswordMismatch
    \<and> (d_files (sw_disk w') = d_files (sw_disk w) \<and> is_ok r = False
       \<or> (\<exists>b. d_files (sw_disk w) p = Some b \<and> d_files (sw_disk w') = (d_files (sw_disk w))(backup_path_for p \<mapsto> b)))
    \<and> (\<forall>q. r = Inr q \<longrightarrow> q = backup_path_for p)"
proof -
  obtain r0 d0 where rd: "disk_read p (sw_disk w) = (r0, d0)" by fastforce
  note rf = disk_read_files [OF rd]
  show ?thesis
  proof (cases r0)
    case (Inl e)
    with assms rd rf show ?thesis by (auto simp: snapshot_pre_merge_def on_disk_act_def abind_def)
  next
    case (Inr b)
    obtain r1 d1 where wr: "disk_write (backup_path_for p) b d0 = (r1, d1)" by fastforce
    from disk_write_cases [OF wr] Inr assms rd rf wr show ?thesis
      by (cases r1) (auto simp: snapshot_pre_merge_def on_disk_act_def abind_def backup_write_error_def split: vault_error.splits)
  qed
qed

section \<open>The backup precedes every change of the vault file\<close>

definition same_files :: "path \<Rightarrow> (path \<Rightarrow> bytes option) \<Rightarrow> ('db, 'key, 't) sync_world \<Rightarrow> bool" where
  "same_files p F w = (v_path (sw_vault w) = p \<and> d_files (sw_disk w) = F)"

definition backed_up :: "path \<Rightarrow> (path \<Rightarrow> bytes option) \<Rightarrow> ('db, 'key, 't) sync_world \<Rightarrow> bool" where
  "backed_up p F w = (only_vault_file p (F(backup_path_for p := F p)) w \<and> F p \<noteq> None)"

text \<open>The vault file is as it was, or its old content is in the backup.\<close>

definition recoverable :: "path \<Rightarrow> (path \<Rightarrow> bytes option) \<Rightarrow> ('db, 'key, 't) sync_world \<Rightarrow> bool" where
  "recoverable p F w = (d_files (sw_disk w) p = F p \<or> F p \<noteq> None \<and> d_files (sw_disk w) (backup_path_for p) = F p)"

lemma backup_path_neq: "backup_path_for p \<noteq> p"
  by (simp add: backup_path_for_def path_append_neq)

lemma recoverable_intros: "same_files p F w \<Longrightarrow> recoverable p F w" "backed_up p F w \<Longrightarrow> recoverable p F w"
  by (simp_all add: same_files_def backed_up_def recoverable_def only_files_def backup_path_neq)

abbreviation recover_hoare :: "path \<Rightarrow> (path \<Rightarrow> bytes option) \<Rightarrow> (('db, 'key, 't) sync_world \<Rightarrow> bool) \<Rightarrow>
    ('db, 'key, 't, 'a) sync_act \<Rightarrow> ('a \<Rightarrow> ('db, 'key, 't) sync_world \<Rightarrow> bool) \<Rightarrow> bool" where
  "recover_hoare p F P m Q \<equiv> ahoare P m Q (\<lambda>_. recoverable p F)"

lemma keeps_hoare: "keeps P m \<Longrightarrow> (\<And>w. P w \<Longrightarrow> recoverable p F w) \<Longrightarrow> recover_hoare p F P m (\<lambda>_. P)"
  using ahoare_keeps [of P m] by (auto simp: keeps_def intro: ahoare_weaken)

lemma same_steps:
  "recover_hoare p F (same_files p F) (on_transport T m) (\<lambda>_. same_files p F)"
  "recover_hoare p F (same_files p F) (ping opts) (\<lambda>_. same_files p F)"
  "recover_hoare p F (same_files p F) (read_vault_bytes q) (\<lambda>_. same_files p F)"
  "recover_hoare p F (same_files p F) (open_remote S b) (\<lambda>_. same_files p F)"
  "recover_hoare p F (same_files p F) (check_kdf S db) (\<lambda>_. same_files p F)"
proof -
  have "keeps (same_files p F) (on_transport T m)"
    by (auto simp: keeps_def on_transport_def same_files_def split: prod.splits)
  then show "recover_hoare p F (same_files p F) (on_transport T m) (\<lambda>_. same_files p F)"
    by (rule keeps_hoare) (rule recoverable_intros)
  have "keeps (same_files p F) (ping opts)"
    by (auto simp: keeps_def ping_def same_files_def)
  then show "recover_hoare p F (same_files p F) (ping opts) (\<lambda>_. same_files p F)"
    by (rule keeps_hoare) (rule recoverable_intros)
  have "keeps (same_files p F) (read_vault_bytes q)"
    by (auto simp: keeps_def read_vault_bytes_def on_disk_act_def same_files_def split: prod.splits dest!: disk_read_files)
  then show "recover_hoare p F (same_files p F) (read_vault_bytes q) (\<lambda>_. same_files p F)"
    by (rule keeps_hoare) (rule recoverable_intros)
  have "keeps (same_files p F) (open_remote S b)"
    by (simp add: keeps_def same_files_def open_remote_files)
  then show "recover_hoare p F (same_files p F) (open_remote S b) (\<lambda>_. same_files p F)"
    by (rule keeps_hoare) (rule recoverable_intros)
  have "keeps (same_files p F) (check_kdf S db)"
    by (simp add: keeps_def check_kdf_def)
  then show "recover_hoare p F (same_files p F) (check_kdf S db) (\<lambda>_. same_files p F)"
    by (rule keeps_hoare) (rule recoverable_intros)
qed

lemma snapshot_backs_up: "recover_hoare p F (same_files p F) (snapshot_pre_merge p) (\<lambda>_. backed_up p F)"
  unfolding ahoare_def
proof (intro allI impI)
  fix w :: "('db, 'key, 't) sync_world"
  assume sm: "same_files p F w"
  obtain r w' where sn: "snapshot_pre_merge p w = (r, w')" by fastforce
  from snapshot_cases [OF sn] sm show "case snapshot_pre_merge p w of (Inl e, s') \<Rightarrow> recoverable p F s' | (Inr x, s') \<Rightarrow> backed_up p F s'"
    by (cases r) (auto simp: sn same_files_def backed_up_def only_files_def recoverable_def backup_path_neq)
qed

lemma backed_steps:
  "(\<And>G. keeps (only_vault_file p G) m) \<Longrightarrow> recover_hoare p F (backed_up p F) m (\<lambda>_. backed_up p F)"
  by (rule keeps_hoare) (auto simp: keeps_def backed_up_def intro: recoverable_intros)

lemma keeps_install: "keeps (only_files Q p F) (install_database S db)"
  by (auto simp: keeps_def install_database_def replace_database_def only_files_def split: sum.splits if_splits)

lemma recover_return: "(\<And>w. P w \<Longrightarrow> recoverable p F w) \<Longrightarrow> recover_hoare p F P (areturn x) (\<lambda>_. recoverable p F)"
  by (rule ahoare_return)

text \<open>An action that looks up the vault's path in its start state.\<close>

lemma at_path:
  assumes "\<And>w. same_files p F w \<Longrightarrow> m w = body w" and "recover_hoare p F (same_files p F) body Q"
  shows "recover_hoare p F (same_files p F) m Q"
  using assms by (simp add: ahoare_def)

lemma fast_replace_recovers:
  "recover_hoare p F (same_files p F) (fast_replace S opts pr ps) (\<lambda>_. recoverable p F)"
proof -
  let ?T = "ss_transport S"
  let ?R = "\<lambda>m P. recover_hoare p F P m (\<lambda>_. recoverable p F)"
  have tail: "?R (abind (ping opts) (\<lambda>_. abind (install_database S db) (\<lambda>_. abind (save_vault S) (\<lambda>_.
      abind (read_vault_bytes p) (\<lambda>b. areturn (FastReplaced, \<lparr>sp_remote_etag = Some version, sp_local_sha256 = Some (ss_sha S b)\<rparr>))))))
      (backed_up p F)" for db version
    by (intro ahoare_bind [OF backed_steps] keeps_ping keeps_install keeps_save keeps_read singletonI)
      (rule recover_return, erule recoverable_intros)
  have snap: "?R (case sn of None \<Rightarrow> areturn (AlreadyInSync, \<lparr>sp_remote_etag = pr, sp_local_sha256 = ps\<rparr>)
      | Some (version, bytes) \<Rightarrow>
          abind (open_remote S bytes) (\<lambda>db. abind (check_kdf S db) (\<lambda>_. abind (snapshot_pre_merge p) (\<lambda>_.
          abind (ping opts) (\<lambda>_. abind (install_database S db) (\<lambda>_. abind (save_vault S) (\<lambda>_.
          abind (read_vault_bytes p) (\<lambda>b.
          areturn (FastReplaced, \<lparr>sp_remote_etag = Some version, sp_local_sha256 = Some (ss_sha S b)\<rparr>)))))))))
      (same_files p F)" for sn
    unfolding option.split [of "\<lambda>m. ?R m (same_files p F)"] prod.split [of "\<lambda>m. ?R m (same_files p F)"]
    by (intro conjI allI impI ahoare_bind [OF same_steps(4)] ahoare_bind [OF same_steps(5)]
        ahoare_bind [OF snapshot_backs_up] tail recover_return recoverable_intros(1))
  show ?thesis
    by (rule at_path [OF _ ahoare_bind [OF same_steps(1) [of p F ?T "tr_fetch ?T pr"]
          ahoare_bind [OF same_steps(2) [of p F opts] snap]]])
      (simp add: fast_replace_def Let_def same_files_def)
qed

lemma merge_diverged_recovers:
  "recover_hoare p F (same_files p F) (merge_diverged S opts) (\<lambda>_. recoverable p F)"
proof -
  have loop: "recover_hoare p F (backed_up p F) (merge_loop S opts bp maxi 0) (\<lambda>_. recoverable p F)" for bp maxi
    by (rule ahoare_weaken [OF backed_steps [OF keeps_merge_loop [OF singletonI]]]) (auto intro: recoverable_intros)
  show ?thesis
    by (rule at_path [OF _ ahoare_bind [OF snapshot_backs_up [of p F] loop]])
      (simp add: merge_diverged_def same_files_def)
qed

lemma push_local_recovers:
  "recover_hoare p F (same_files p F) (push_local S opts pr b) (\<lambda>_. recoverable p F)"
  unfolding push_local_def Let_def
  by (intro ahoare_bind [OF same_steps(1)] ahoare_bind [OF same_steps(2)]) (rule recover_return, erule recoverable_intros)

lemma run_recovers:
  "recover_hoare p F (same_files p F) (run_state_machine S pr ps opts) (\<lambda>_. recoverable p F)"
proof -
  let ?T = "ss_transport S"
  have body: "recover_hoare p F (same_files p F)
     (let remote_changed = (remote_now \<noteq> pr); local_changed = (Some (ss_sha S b) \<noteq> ps)
        in if \<not> remote_changed \<and> \<not> local_changed
           then areturn (AlreadyInSync, \<lparr>sp_remote_etag = pr, sp_local_sha256 = ps\<rparr>)
           else if \<not> remote_changed then push_local S opts pr b
           else if \<not> local_changed then fast_replace S opts pr ps
           else merge_diverged S opts) (\<lambda>_. recoverable p F)" for remote_now b
    by (simp add: Let_def push_local_recovers fast_replace_recovers merge_diverged_recovers recover_return recoverable_intros)
  show ?thesis
    by (rule at_path [OF _ ahoare_bind [OF same_steps(1) [of p F ?T "tr_head ?T"]
          ahoare_bind [OF same_steps(2) [of p F opts] ahoare_bind [OF same_steps(3) [of p F p] body]]]])
      (simp add: run_state_machine_def Let_def same_files_def)
qed

section \<open>The footprint of a run\<close>

definition footprint :: "path \<Rightarrow> path set" where
  "footprint p = {p, backup_path_for p}"

lemma keeps_at:
  assumes "\<And>w. v_path (sw_vault w) = p \<Longrightarrow> m w = body w" and "keeps (only_files Q p F) body"
  shows "keeps (only_files Q p F) m"
  using assms by (simp add: keeps_def only_files_def)

lemma keeps_snapshot: "keeps (only_files (footprint p) p F) (snapshot_pre_merge p)"
  unfolding keeps_def
proof (intro allI impI)
  fix w :: "('db, 'key, 't) sync_world"
  assume o: "only_files (footprint p) p F w"
  obtain r w' where sn: "snapshot_pre_merge p w = (r, w')" by fastforce
  from snapshot_cases [OF sn] o show "only_files (footprint p) p F (snd (snapshot_pre_merge p w))"
    unfolding sn by (auto simp: only_files_def footprint_def)
qed

lemma in_footprint: "p \<in> footprint p"
  by (simp add: footprint_def)

lemma fast_replace_footprint: "keeps (only_files (footprint p) p F) (fast_replace S opts pr ps)"
proof (rule keeps_at)
  show "keeps (only_files (footprint p) p F) (abind (on_transport (ss_transport S) (tr_fetch (ss_transport S) pr)) (\<lambda>snap.
      abind (ping opts) (\<lambda>_.
      case snap of
        None \<Rightarrow> areturn (AlreadyInSync, \<lparr>sp_remote_etag = pr, sp_local_sha256 = ps\<rparr>)
      | Some (version, bytes) \<Rightarrow>
          abind (open_remote S bytes) (\<lambda>remote_db.
          abind (check_kdf S remote_db) (\<lambda>_.
          abind (snapshot_pre_merge p) (\<lambda>_.
          abind (ping opts) (\<lambda>_.
          abind (install_database S remote_db) (\<lambda>_.
          abind (save_vault S) (\<lambda>_.
          abind (read_vault_bytes p) (\<lambda>b.
          areturn (FastReplaced, \<lparr>sp_remote_etag = Some version, sp_local_sha256 = Some (ss_sha S b)\<rparr>)))))))))))"
    by (intro keeps_bind keeps_transport keeps_ping)
      (auto split: option.split intro!: keeps_steps keeps_snapshot keeps_install in_footprint)
qed (simp add: fast_replace_def Let_def)

lemma merge_diverged_footprint: "keeps (only_files (footprint p) p F) (merge_diverged S opts)"
proof (rule keeps_at)
  show "keeps (only_files (footprint p) p F) (abind (snapshot_pre_merge p) (\<lambda>backup_path.
       merge_loop S opts backup_path (max (so_max_retries opts) 1) 0))"
    by (intro keeps_bind keeps_snapshot keeps_merge_loop in_footprint)
qed (simp add: merge_diverged_def)

lemma push_local_footprint: "keeps (only_files (footprint p) p F) (push_local S opts pr b)"
  unfolding push_local_def Let_def by (intro keeps_steps)

lemma run_footprint: "keeps (only_files (footprint p) p F) (run_state_machine S pr ps opts)"
proof (rule keeps_at)
  have body: "keeps (only_files (footprint p) p F) (let remote_changed = (remote_now \<noteq> pr);
            local_changed = (Some (ss_sha S local_bytes) \<noteq> ps)
        in if \<not> remote_changed \<and> \<not> local_changed
           then areturn (AlreadyInSync, \<lparr>sp_remote_etag = pr, sp_local_sha256 = ps\<rparr>)
           else if \<not> remote_changed then push_local S opts pr local_bytes
           else if \<not> local_changed then fast_replace S opts pr ps
           else merge_diverged S opts)" for remote_now local_bytes
    by (simp add: Let_def keeps_pure push_local_footprint fast_replace_footprint merge_diverged_footprint)
  show "keeps (only_files (footprint p) p F) (abind (on_transport (ss_transport S) (tr_head (ss_transport S))) (\<lambda>remote_now.
      abind (ping opts) (\<lambda>_. abind (read_vault_bytes p) (\<lambda>local_bytes.
        let remote_changed = (remote_now \<noteq> pr); local_changed = (Some (ss_sha S local_bytes) \<noteq> ps)
        in if \<not> remote_changed \<and> \<not> local_changed
           then areturn (AlreadyInSync, \<lparr>sp_remote_etag = pr, sp_local_sha256 = ps\<rparr>)
           else if \<not> remote_changed then push_local S opts pr local_bytes
           else if \<not> local_changed then fast_replace S opts pr ps
           else merge_diverged S opts))))"
    by (intro keeps_bind keeps_transport keeps_ping keeps_read body)
qed (simp add: run_state_machine_def Let_def)

text \<open>A run keeps the vault's path and every file but the vault and its backup.\<close>

lemma run_only_touches:
  assumes "run_state_machine S pr ps opts w = (r, w')"
  shows "v_path (sw_vault w') = v_path (sw_vault w)"
    "q \<notin> footprint (v_path (sw_vault w)) \<Longrightarrow> d_files (sw_disk w') q = d_files (sw_disk w) q"
proof -
  let ?P = "only_files (footprint (v_path (sw_vault w))) (v_path (sw_vault w)) (d_files (sw_disk w))"
  have "?P w" by (simp add: only_files_def)
  with run_footprint [of "v_path (sw_vault w)" "d_files (sw_disk w)" S pr ps opts] assms have "?P w'"
    by (auto simp: keeps_def)
  then show "v_path (sw_vault w') = v_path (sw_vault w)"
    "q \<notin> footprint (v_path (sw_vault w)) \<Longrightarrow> d_files (sw_disk w') q = d_files (sw_disk w) q"
    by (simp_all add: only_files_def)
qed

section \<open>No lost update, over any transport that keeps the contract\<close>

text \<open>What an uploaded merge says: the version it replaced is the one that was merged.\<close>

definition merged_upload ::
    "('db, 'key, 't, 'e) sync_setup \<Rightarrow> snapshot list \<Rightarrow> ('db, 'key, 't) sync_world \<Rightarrow> entry_delta \<Rightarrow> version \<Rightarrow> bytes \<Rightarrow> bool" where
  "merged_upload S versions w' delta v b = (\<exists>v0 b0 older rdb db0 d seed.
     versions = (v, b) # (v0, b0) # older
     \<and> fst (open_from_bytes (ss_kdbx S) b0 (ss_password S) (ss_keyfile S) d) = Inr rdb
     \<and> kx_kdf (ss_kdbx S) db0 = kx_kdf (ss_kdbx S) rdb
     \<and> ss_reconcile S db0 rdb = (Inr delta, v_database (sw_vault w'))
     \<and> kx_save (ss_kdbx S) (v_database (sw_vault w')) (v_key (sw_vault w')) seed = Inr b
     \<and> d_files (sw_disk w') (v_path (sw_vault w')) = Some b)"

text \<open>The pointers name the newest version and the file as it is on disk.\<close>

definition pointers_current ::
    "('db, 'key, 't, 'e) sync_setup \<Rightarrow> snapshot list \<Rightarrow> ('db, 'key, 't) sync_world \<Rightarrow> sync_pointers \<Rightarrow> bool" where
  "pointers_current S versions w' ptrs =
     (sp_remote_etag ptrs = (case versions of [] \<Rightarrow> None | (v, _) # _ \<Rightarrow> Some v)
      \<and> (\<exists>b. d_files (sw_disk w') (v_path (sw_vault w')) = Some b \<and> sp_local_sha256 ptrs = Some (ss_sha S b)))"

text \<open>A fast replacement: the newest version, opened, is the database, saved to the file.\<close>

definition replaced_by ::
    "('db, 'key, 't, 'e) sync_setup \<Rightarrow> snapshot list \<Rightarrow> ('db, 'key, 't) sync_world \<Rightarrow> ('db, 'key, 't) sync_world \<Rightarrow> bool" where
  "replaced_by S versions w w' = (\<exists>v b older d seed b'.
     versions = (v, b) # older
     \<and> fst (open_from_bytes (ss_kdbx S) b (ss_password S) (ss_keyfile S) d) = Inr (v_database (sw_vault w'))
     \<and> kx_root (ss_kdbx S) (v_database (sw_vault w)) = kx_root (ss_kdbx S) (v_database (sw_vault w'))
     \<and> kx_save (ss_kdbx S) (v_database (sw_vault w')) (v_key (sw_vault w')) seed = Inr b'
     \<and> d_files (sw_disk w') (v_path (sw_vault w')) = Some b')"

definition pushed_local ::
    "snapshot list \<Rightarrow> string option \<Rightarrow> ('db, 'key, 't) sync_world \<Rightarrow> bool" where
  "pushed_local versions pr w = (\<exists>v b older. versions = (v, b) # older
     \<and> d_files (sw_disk w) (v_path (sw_vault w)) = Some b
     \<and> (\<forall>u. pr = Some u \<longrightarrow> older \<noteq> [] \<and> fst (hd older) = u))"

definition unchanged :: "('db, 'key, 't) sync_world \<Rightarrow> ('db, 'key, 't) sync_world \<Rightarrow> bool" where
  "unchanged w w' = (sw_vault w' = sw_vault w \<and> d_files (sw_disk w') = d_files (sw_disk w))"

definition outcome_holds ::
    "('db, 'key, 't, 'e) sync_setup \<Rightarrow> sync_options \<Rightarrow> snapshot list \<Rightarrow> string option \<Rightarrow> string option \<Rightarrow>
     ('db, 'key, 't) sync_world \<Rightarrow> sync_outcome \<Rightarrow> sync_pointers \<Rightarrow> ('db, 'key, 't) sync_world \<Rightarrow> bool" where
  "outcome_holds S opts versions pr ps w out ptrs w' = (case out of
       AlreadyInSync \<Rightarrow> unchanged w w' \<and> ptrs = \<lparr>sp_remote_etag = pr, sp_local_sha256 = ps\<rparr>
     | Pushed first \<Rightarrow> unchanged w w' \<and> first = (pr = None) \<and> pushed_local versions pr w
     | FastReplaced \<Rightarrow> replaced_by S versions w w'
     | Merged delta k \<Rightarrow> 1 \<le> k \<and> k \<le> max (so_max_retries opts) 1 \<and> (\<exists>v b. merged_upload S versions w' delta v b))"

lemma merged_pointers:
  "merged_upload S versions w' delta v b \<Longrightarrow>
   pointers_current S versions w' \<lparr>sp_remote_etag = Some v, sp_local_sha256 = Some (ss_sha S b)\<rparr>"
  by (auto simp: merged_upload_def pointers_current_def)

context sync_transport
begin

lemma attempt_uploaded:
  assumes T: "ss_transport S = T" and g: "good (sw_transport w)"
    and run: "merge_attempt S opts bp w = (Inr r, w')"
  shows "good (sw_transport w') \<and> v_path (sw_vault w') = v_path (sw_vault w)
    \<and> (\<forall>v sha delta. r = Uploaded v sha delta \<longrightarrow>
         (\<exists>b. merged_upload S (past (sw_transport w')) w' delta v b \<and> sha = ss_sha S b))"
proof -
  let ?p = "v_path (sw_vault w)"
  note chain = run [unfolded merge_attempt_def T Let_def]
  from chain obtain snap w1 where 1: "on_transport T (tr_fetch T None) w = (Inr snap, w1)"
    and rest: "abind (case snap of None \<Rightarrow> athrow (RemoteUnreachable ''<transport>'' ''transport returned no snapshot during merge'')
        | Some s \<Rightarrow> areturn s) (merge_rest S opts bp ?p) w1 = (Inr r, w')"
    unfolding abind_Inr merge_rest_def T by blast
  from rest obtain ver bytes where sn: "snap = Some (ver, bytes)"
    and rest2: "merge_rest S opts bp ?p (ver, bytes) w1 = (Inr r, w')"
    by (cases snap) (auto simp: abind_Inr)
  from rest2 obtain w2 rdb w3 w4 delta w5 w6 w7 merged w8 where
    2: "ping opts w1 = (Inr (), w2)" and 3: "open_remote S bytes w2 = (Inr rdb, w3)"
    and 4: "check_kdf S rdb w3 = (Inr (), w4)" and 5: "reconcile_step S bp rdb w4 = (Inr delta, w5)"
    and 6: "ping opts w5 = (Inr (), w6)" and 7: "save_vault S w6 = (Inr (), w7)"
    and 8: "read_vault_bytes ?p w7 = (Inr merged, w8)"
    and 9: "(case on_transport T (tr_put T merged (Some ver)) w8 of
          (Inr v, w') \<Rightarrow> abind (ping opts) (\<lambda>_. areturn (Uploaded v (ss_sha S merged) delta)) w'
        | (Inl e, w') \<Rightarrow> if is_precondition_failure e then (Inr Contested, w') else (Inl e, w')) = (Inr r, w')"
    unfolding merge_rest_def T Let_def prod.case abind_Inr by auto
  from 1 obtain t1 where f: "tr_fetch T None (sw_transport w) = (Inr (Some (ver, bytes)), t1)" "w1 = w\<lparr>sw_transport := t1\<rparr>"
    unfolding sn on_transport_Inr by blast
  from fetch_law [OF g f(1)] have g1: "good t1" and h1: "past t1 \<noteq> []" "hd (past t1) = (ver, bytes)" by auto
  then have mem: "(ver, bytes) \<in> set (past t1)" by (metis hd_in_set)
  from open_remote_Inr [OF 3] obtain d3 where i3: "w3 = w2\<lparr>sw_disk := d3\<rparr>"
    and op: "fst (open_from_bytes (ss_kdbx S) bytes (ss_password S) (ss_keyfile S) (sw_disk w2)) = Inr rdb" by blast
  from check_kdf_Inr [OF 4] have i4: "w4 = w3" "kx_kdf (ss_kdbx S) (v_database (sw_vault w3)) = kx_kdf (ss_kdbx S) rdb" by auto
  from reconcile_Inr [OF 5] obtain db where rec: "ss_reconcile S (v_database (sw_vault w4)) rdb = (Inr delta, db)"
    and i5: "w5 = w4\<lparr>sw_vault := (sw_vault w4)\<lparr>v_database := db\<rparr>\<rparr>" by blast
  from save_vault_Inr [OF 7] obtain d7 b7 where i7: "w7 = w6\<lparr>sw_disk := d7\<rparr>"
    and sv: "kx_save (ss_kdbx S) (v_database (sw_vault w6)) (v_key (sw_vault w6)) (d_seed (sw_disk w6)) = Inr b7"
    and fl: "d_files d7 = (d_files (sw_disk w6))(v_path (sw_vault w6) \<mapsto> b7)" by blast
  from read_bytes_Inr [OF 8] obtain d8 where i8: "w8 = w7\<lparr>sw_disk := d8\<rparr>" "d_files d8 = d_files (sw_disk w7)" "d_files d8 ?p = Some merged" by blast
  have v8: "sw_vault w8 = (sw_vault w)\<lparr>v_database := db\<rparr>" and t8: "sw_transport w8 = t1"
    and v4: "sw_vault w4 = sw_vault w" "sw_vault w3 = sw_vault w" and v6: "sw_vault w6 = (sw_vault w)\<lparr>v_database := db\<rparr>"
    using i3 i4(1) i5 i7 i8(1) ping_Inr [OF 2] ping_Inr [OF 6] f(2) by simp_all
  then have p8: "v_path (sw_vault w8) = ?p" by simp
  have b7: "b7 = merged" using fl i8(2,3) i7 v6 by simp
  have f8: "d_files (sw_disk w8) ?p = Some merged" using i8(1,3) by simp
  obtain u t' where put: "tr_put T merged (Some ver) t1 = (u, t')" by fastforce
  from put_law [OF g1 put] have g': "good t'" by blast
  have t9: "on_transport T (tr_put T merged (Some ver)) w8 = (map_err (tr_into T) u, w8\<lparr>sw_transport := t'\<rparr>)"
    using put t8 by (simp add: on_transport_def)
  show ?thesis
  proof (cases u)
    case (Inl e)
    with 9 t9 g' p8 show ?thesis by (auto split: if_splits)
  next
    case (Inr v)
    with 9 t9 have r: "r = Uploaded v (ss_sha S merged) delta" and w': "sw_vault w' = sw_vault w8" "sw_disk w' = sw_disk w8"
      "sw_transport w' = t'" by (auto simp: abind_Inr dest: ping_Inr)
    from put_replaces [OF g1 put [unfolded Inr] mem] obtain older where
      past: "past t' = (v, merged) # (ver, bytes) # older" by blast
    have "merged_upload S (past t') w' delta v merged"
      unfolding merged_upload_def
      by (intro exI [of _ ver] exI [of _ bytes] exI [of _ older] exI [of _ rdb] exI [of _ "v_database (sw_vault w)"]
          exI [of _ "sw_disk w2"] exI [of _ "d_seed (sw_disk w6)"])
        (use past op i4(2) rec sv f8 w' v8 v4 v6 b7 in simp)
    with r w' g' p8 show ?thesis by auto
  qed
qed

lemma loop_merged:
  assumes "ss_transport S = T" "good (sw_transport w)"
    and "merge_loop S opts bp maxi attempts w = (Inr (out, ptrs), w')"
  shows "\<exists>delta v b k. out = Merged delta k \<and> attempts < k \<and> (k \<le> maxi \<or> k = Suc attempts)
    \<and> merged_upload S (past (sw_transport w')) w' delta v b
    \<and> ptrs = \<lparr>sp_remote_etag = Some v, sp_local_sha256 = Some (ss_sha S b)\<rparr>
    \<and> v_path (sw_vault w') = v_path (sw_vault w) \<and> good (sw_transport w')"
  using assms
proof (induction S opts bp maxi attempts arbitrary: w rule: merge_loop.induct)
  case (1 S opts bp maxi attempts)
  from "1.prems"(3) obtain r w1 where a: "merge_attempt S opts bp w = (Inr r, w1)"
    and rest: "(case r of
         Uploaded v sha delta \<Rightarrow> areturn (Merged delta (Suc attempts), \<lparr>sp_remote_etag = Some v, sp_local_sha256 = Some sha\<rparr>)
       | Contested \<Rightarrow> if maxi \<le> Suc attempts then athrow (ConditionalPutExhausted maxi)
           else merge_loop S opts bp maxi (Suc attempts)) w1 = (Inr (out, ptrs), w')"
    unfolding merge_loop.simps [of S opts bp maxi attempts] abind_Inr by blast
  from attempt_uploaded [OF "1.prems"(1,2) a] have g1: "good (sw_transport w1)" and p1: "v_path (sw_vault w1) = v_path (sw_vault w)"
    and up: "\<And>v sha delta. r = Uploaded v sha delta \<Longrightarrow> \<exists>b. merged_upload S (past (sw_transport w1)) w1 delta v b \<and> sha = ss_sha S b"
    by blast+
  show ?case
  proof (cases r)
    case (Uploaded v sha delta)
    with rest have "out = Merged delta (Suc attempts)" "w' = w1"
      "ptrs = \<lparr>sp_remote_etag = Some v, sp_local_sha256 = Some sha\<rparr>" by auto
    with up [OF Uploaded] g1 p1 show ?thesis by auto
  next
    case Contested
    with rest have m: "\<not> maxi \<le> Suc attempts" and l: "merge_loop S opts bp maxi (Suc attempts) w1 = (Inr (out, ptrs), w')"
      by (auto split: if_splits)
    from "1.IH" [OF m "1.prems"(1) g1 l] obtain delta v b k where
      "out = Merged delta k" "Suc attempts < k" "k \<le> maxi \<or> k = Suc (Suc attempts)"
      "merged_upload S (past (sw_transport w')) w' delta v b"
      "ptrs = \<lparr>sp_remote_etag = Some v, sp_local_sha256 = Some (ss_sha S b)\<rparr>"
      "v_path (sw_vault w') = v_path (sw_vault w1)" "good (sw_transport w')" by blast
    with m p1 show ?thesis by (intro exI [of _ delta] exI [of _ v] exI [of _ b] exI [of _ k]) auto
  qed
qed

lemma push_effect:
  assumes "ss_transport S = T" "good (sw_transport w)" "\<And>u. pr = Some u \<Longrightarrow> proper u" "d_files (sw_disk w) (v_path (sw_vault w)) = Some b"
    and run: "push_local S opts pr b w = (Inr (out, ptrs), w')"
  shows "good (sw_transport w') \<and> pointers_current S (past (sw_transport w')) w' ptrs
    \<and> outcome_holds S opts (past (sw_transport w')) pr ps w out ptrs w'"
proof -
  from run [unfolded push_local_def Let_def abind_Inr assms(1)] obtain v w1 where
    1: "on_transport T (tr_put T b pr) w = (Inr v, w1)" and 2: "sw_vault w' = sw_vault w1" "sw_disk w' = sw_disk w1"
      "sw_transport w' = sw_transport w1"
    and o: "out = Pushed (pr = None)" "ptrs = \<lparr>sp_remote_etag = Some v, sp_local_sha256 = Some (ss_sha S b)\<rparr>"
    by (auto dest: ping_Inr)
  from 1 obtain t where t: "tr_put T b pr (sw_transport w) = (Inr v, t)" "w1 = w\<lparr>sw_transport := t\<rparr>"
    unfolding on_transport_Inr by blast
  from put_law [OF assms(2) t(1)] assms(3) obtain pre where law: "good t" "past t = (v, b) # pre"
    "\<forall>u. pr = Some u \<longrightarrow> pre \<noteq> [] \<and> fst (hd pre) = u" by blast
  then show ?thesis using t 2 o assms(4)
    by (simp add: pointers_current_def outcome_holds_def unchanged_def pushed_local_def)
qed

lemma fast_effect:
  assumes "ss_transport S = T" "good (sw_transport w)" "\<And>u. pr = Some u \<Longrightarrow> proper u"
    and onfile: "d_files (sw_disk w) (v_path (sw_vault w)) = Some b0" "ps = Some (ss_sha S b0)"
    and run: "fast_replace S opts pr ps w = (Inr (out, ptrs), w')"
  shows "good (sw_transport w') \<and> pointers_current S (past (sw_transport w')) w' ptrs
    \<and> outcome_holds S opts (past (sw_transport w')) pr ps w out ptrs w'"
proof -
  let ?p = "v_path (sw_vault w)"
  from run [unfolded fast_replace_def Let_def abind_Inr assms(1)] obtain sn w1 w2 where
    1: "on_transport T (tr_fetch T pr) w = (Inr sn, w1)" and 2: "ping opts w1 = (Inr (), w2)"
    and rest: "(case sn of None \<Rightarrow> areturn (AlreadyInSync, \<lparr>sp_remote_etag = pr, sp_local_sha256 = ps\<rparr>)
      | Some (version, bytes) \<Rightarrow>
          abind (open_remote S bytes) (\<lambda>db. abind (check_kdf S db) (\<lambda>_. abind (snapshot_pre_merge ?p) (\<lambda>_.
          abind (ping opts) (\<lambda>_. abind (install_database S db) (\<lambda>_. abind (save_vault S) (\<lambda>_.
          abind (read_vault_bytes ?p) (\<lambda>b.
          areturn (FastReplaced, \<lparr>sp_remote_etag = Some version, sp_local_sha256 = Some (ss_sha S b)\<rparr>))))))))) w2
        = (Inr (out, ptrs), w')" by auto
  from 1 obtain t where f: "tr_fetch T pr (sw_transport w) = (Inr sn, t)" "w1 = w\<lparr>sw_transport := t\<rparr>"
    unfolding on_transport_Inr by blast
  note law = fetch_law [OF assms(2) f(1)]
  from ping_Inr [OF 2] f(2) have w2: "sw_vault w2 = sw_vault w" "sw_disk w2 = sw_disk w" "sw_transport w2 = t" by auto
  show ?thesis
  proof (cases sn)
    case None
    with rest have "out = AlreadyInSync" "ptrs = \<lparr>sp_remote_etag = pr, sp_local_sha256 = ps\<rparr>" "w' = w2" by auto
    moreover from law None assms(3) have "good t" "past t \<noteq> []" "pr = Some (fst (hd (past t)))" by blast+
    then obtain v b older where "good t" "past t = (v, b) # older" "pr = Some v" by (cases "past t") auto
    ultimately show ?thesis using w2 onfile
      by (simp add: pointers_current_def outcome_holds_def unchanged_def)
  next
    case (Some snapshot)
    obtain version bytes where sn: "sn = Some (version, bytes)" using Some by (cases snapshot) simp
    from rest [unfolded sn option.case prod.case abind_Inr] obtain db w3 w4 bp w5 w6 w7 w8 b where
      3: "open_remote S bytes w2 = (Inr db, w3)" and 4: "check_kdf S db w3 = (Inr (), w4)"
      and 5: "snapshot_pre_merge ?p w4 = (Inr bp, w5)" and 6: "ping opts w5 = (Inr (), w6)"
      and 7: "install_database S db w6 = (Inr (), w7)" and 8: "save_vault S w7 = (Inr (), w8)"
      and 9: "read_vault_bytes ?p w8 = (Inr b, w')"
      and o: "out = FastReplaced" "ptrs = \<lparr>sp_remote_etag = Some version, sp_local_sha256 = Some (ss_sha S b)\<rparr>" by auto
    from open_remote_Inr [OF 3] obtain d3 where i3: "w3 = w2\<lparr>sw_disk := d3\<rparr>"
      and op: "fst (open_from_bytes (ss_kdbx S) bytes (ss_password S) (ss_keyfile S) (sw_disk w2)) = Inr db" by blast
    have v6: "sw_vault w6 = sw_vault w" "sw_transport w6 = t"
      using ping_Inr [OF 6] snapshot_cases [OF 5] check_kdf_Inr [OF 4] i3 w2 by simp_all
    with 7 have i7: "w7 = w6\<lparr>sw_vault := (sw_vault w)\<lparr>v_database := db\<rparr>\<rparr>"
      "kx_root (ss_kdbx S) (v_database (sw_vault w)) = kx_root (ss_kdbx S) db"
      by (auto simp: install_database_def replace_database_def split: if_splits)
    from save_vault_Inr [OF 8] obtain d8 b8 where i8: "w8 = w7\<lparr>sw_disk := d8\<rparr>"
      and sv: "kx_save (ss_kdbx S) (v_database (sw_vault w7)) (v_key (sw_vault w7)) (d_seed (sw_disk w7)) = Inr b8"
      and fl: "d_files d8 = (d_files (sw_disk w7))(v_path (sw_vault w7) \<mapsto> b8)" by blast
    from read_bytes_Inr [OF 9] obtain d9 where i9: "w' = w8\<lparr>sw_disk := d9\<rparr>" "d_files d9 = d_files (sw_disk w8)"
      "d_files d9 ?p = Some b" by blast
    have w': "sw_vault w' = (sw_vault w)\<lparr>v_database := db\<rparr>" "sw_transport w' = t"
      "d_files (sw_disk w') ?p = Some b" using i9 i8 i7(1) v6(2) by simp_all
    have "b8 = b" using fl i9(2,3) i8 i7(1) by simp
    with sv i7(1) have sv': "kx_save (ss_kdbx S) db (v_key (sw_vault w)) (d_seed (sw_disk w6)) = Inr b" by simp
    from law sn have past: "past t \<noteq> []" "hd (past t) = (version, bytes)" "good t" by auto
    then obtain older where older: "past t = (version, bytes) # older" by (cases "past t") auto
    have "replaced_by S (past t) w w'"
      unfolding replaced_by_def using older op i7(2) sv' w' by auto
    with older past(3) w' o show ?thesis by (simp add: pointers_current_def outcome_holds_def)
  qed
qed

lemma run_effect:
  assumes T: "ss_transport S = T" and g: "good (sw_transport w)" and pr: "\<And>u. pr = Some u \<Longrightarrow> proper u"
    and run: "run_state_machine S pr ps opts w = (Inr (out, ptrs), w')"
  shows "good (sw_transport w') \<and> pointers_current S (past (sw_transport w')) w' ptrs
    \<and> outcome_holds S opts (past (sw_transport w')) pr ps w out ptrs w'"
proof -
  let ?p = "v_path (sw_vault w)"
  from run [unfolded run_state_machine_def Let_def abind_Inr T] obtain now w1 w2 b w3 where
    1: "on_transport T (tr_head T) w = (Inr now, w1)" and 2: "ping opts w1 = (Inr (), w2)"
    and 3: "read_vault_bytes ?p w2 = (Inr b, w3)"
    and rest: "(if \<not> now \<noteq> pr \<and> \<not> Some (ss_sha S b) \<noteq> ps
        then areturn (AlreadyInSync, \<lparr>sp_remote_etag = pr, sp_local_sha256 = ps\<rparr>)
        else if \<not> now \<noteq> pr then push_local S opts pr b
        else if \<not> Some (ss_sha S b) \<noteq> ps then fast_replace S opts pr ps
        else merge_diverged S opts) w3 = (Inr (out, ptrs), w')" by auto
  from 1 obtain t where h: "tr_head T (sw_transport w) = (Inr now, t)" "w1 = w\<lparr>sw_transport := t\<rparr>"
    unfolding on_transport_Inr by blast
  note law = head_law [OF g h(1)]
  have w3: "sw_vault w3 = sw_vault w" "d_files (sw_disk w3) = d_files (sw_disk w)" "sw_transport w3 = t"
    "d_files (sw_disk w3) ?p = Some b"
    using ping_Inr [OF 2] read_bytes_Inr [OF 3] h(2) by auto
  have from_w3: "outcome_holds S opts vs pr ps w3 out ptrs w' = outcome_holds S opts vs pr ps w out ptrs w'" for vs
    using w3 by (simp add: outcome_holds_def unchanged_def pushed_local_def replaced_by_def cong: sync_outcome.case_cong)
  have g3: "good (sw_transport w3)" using law w3 by simp
  consider "now = pr" "Some (ss_sha S b) = ps" | "now = pr" "Some (ss_sha S b) \<noteq> ps"
    | "now \<noteq> pr" "Some (ss_sha S b) = ps" | "now \<noteq> pr" "Some (ss_sha S b) \<noteq> ps" by blast
  then show ?thesis
  proof cases
    case 1
    with rest have "out = AlreadyInSync" "ptrs = \<lparr>sp_remote_etag = pr, sp_local_sha256 = ps\<rparr>" "w' = w3" by auto
    with law 1 w3 show ?thesis
      by (cases now) (auto simp: pointers_current_def outcome_holds_def unchanged_def neq_Nil_conv)
  next
    case 2
    with rest have "push_local S opts pr b w3 = (Inr (out, ptrs), w')" by simp
    from push_effect [OF T g3 pr _ this, of ps] w3 show ?thesis by (simp add: from_w3)
  next
    case 3
    with rest have "fast_replace S opts pr ps w3 = (Inr (out, ptrs), w')" by simp
    from fast_effect [OF T g3 pr _ _ this, of b] w3 3 show ?thesis by (simp add: from_w3)
  next
    case 4
    with rest have "merge_diverged S opts w3 = (Inr (out, ptrs), w')" by simp
    then obtain bp w4 where sn: "snapshot_pre_merge (v_path (sw_vault w3)) w3 = (Inr bp, w4)"
      and ml: "merge_loop S opts bp (max (so_max_retries opts) 1) 0 w4 = (Inr (out, ptrs), w')"
      unfolding merge_diverged_def abind_Inr by blast
    from snapshot_cases [OF sn] g3 have "good (sw_transport w4)" by simp
    from loop_merged [OF T this ml] obtain delta v b k where m: "out = Merged delta k" "0 < k"
      "k \<le> max (so_max_retries opts) 1 \<or> k = Suc 0" "merged_upload S (past (sw_transport w')) w' delta v b"
      "ptrs = \<lparr>sp_remote_etag = Some v, sp_local_sha256 = Some (ss_sha S b)\<rparr>" "good (sw_transport w')" by blast
    then have "1 \<le> k" "k \<le> max (so_max_retries opts) 1" by auto
    with merged_pointers [OF m(4)] m(1,4,5,6) show ?thesis
      unfolding outcome_holds_def by auto
  qed
qed

end

section \<open>The properties of a sync\<close>

text \<open>A sync whose remote is the in-memory object store shared with other writers.\<close>

lemma shared_effect:
  assumes "ss_transport S = shared_transport" "sh_good (sw_transport w)"
    and "run_state_machine S pr ps opts w = (Inr (out, ptrs), w')"
  shows "sh_good (sw_transport w')" "pointers_current S (sh_past (sw_transport w')) w' ptrs"
    "outcome_holds S opts (sh_past (sw_transport w')) pr ps w out ptrs w'"
  using shared.run_effect [OF assms(1,2) TrueI assms(3)] by blast+

lemma quiet_head:
  assumes "sh_good t" "sh_others t = []" "\<not> mt_fail_head (sh_mem t)"
  shows "tr_head shared_transport t = (Inr (case sh_past t of [] \<Rightarrow> None | (v, _) # _ \<Rightarrow> Some v), t)"
  using assms
  by (cases "sh_past t") (auto simp: shared_transport_def interfere_def sh_call_def mem_head_def log_state_def sh_good_def)

text \<open>A small world, for the witnesses.\<close>

definition toy_setup :: "(nat, string, shared, memory_error fault) sync_setup" where
  "toy_setup = \<lparr>ss_kdbx = toy_kdbx, ss_reconcile = (\<lambda>a b. (Inr \<lparr>ed_added = [b], ed_removed = [], ed_modified = []\<rparr>, a + b)),
     ss_sha = (\<lambda>b. map (\<lambda>x. char_of (unat x)) b), ss_transport = shared_transport, ss_password = ''a'', ss_keyfile = None\<rparr>"

text \<open>The first conditional PUT finds that another writer has replaced the merged version.\<close>

definition toy_shared :: shared where
  "toy_shared = \<lparr>sh_mem = \<lparr>mt_state = Some (mem_version 0, [7, 97]), mt_counter = 1, mt_panic_after = None, mt_fail_head = False\<rparr>,
     sh_past = [(mem_version 0, [7, 97])], sh_others = [[], [], [[9, 97]]]\<rparr>"

definition toy_world :: "(nat, string, shared) sync_world" where
  "toy_world = \<lparr>sw_vault = toy_vault, sw_disk = toy_disk, sw_transport = toy_shared, sw_pings = 0\<rparr>"

lemma mem_neq: "mem_version (Suc 0) \<noteq> mem_version 0" "mem_version 0 \<noteq> mem_version (Suc 0)"
  by (simp_all add: mem_version_inject)

lemmas toy_defs = toy_setup_def toy_world_def toy_vault_def toy_disk_def empty_disk_def toy_kdbx_def
  on_transport_def on_disk_act_def ping_def read_vault_bytes_def snapshot_pre_merge_def backup_path_for_def path_append_def
  save_vault_def vault_save_def save_database_def open_remote_def open_from_bytes_def build_database_key_def build_key_from_material_def
  keyfile_material_def check_kdf_def reconcile_step_def abind_def aerr_def disk_write_def disk_read_def disk_op_def pop_trouble_def
  shared_transport_def sh_call_def interfere_def mem_head_def mem_fetch_def mem_put_def next_version_def log_state_def toy_shared_def
  mem_into_def is_precondition_failure_def is_precondition_failed_def default_options_def default_max_retries_def vio_def mem_neq

lemma toy_good: "sh_good toy_shared"
  by (simp add: sh_good_def toy_shared_def)

definition toy_delta :: entry_delta where
  "toy_delta = \<lparr>ed_added = [9], ed_removed = [], ed_modified = []\<rparr>"

lemma toy_run: "\<exists>p w'. run_state_machine toy_setup None None default_options toy_world = (Inr (Merged toy_delta (Suc (Suc 0)), p), w')
    \<and> d_troubles (sw_disk w') = [] \<and> sh_others (sw_transport w') = [] \<and> \<not> mt_fail_head (sh_mem (sw_transport w'))
    \<and> d_locks (sw_disk w') = []"
  apply (simp add: run_state_machine_def merge_diverged_def toy_defs)
  apply (subst merge_loop.simps)
  apply (simp add: merge_attempt_def merge_rest_def toy_defs)
  apply (subst merge_loop.simps)
  apply (simp add: merge_attempt_def merge_rest_def toy_defs toy_delta_def)
  done

lemma toy_mismatch: "fst (merge_diverged (toy_setup\<lparr>ss_kdbx := toy_kdbx\<lparr>kx_kdf := id\<rparr>\<rparr>) default_options toy_world) = Inl MasterPasswordMismatch"
  apply (simp add: merge_diverged_def toy_defs)
  apply (subst merge_loop.simps)
  apply (simp add: merge_attempt_def merge_rest_def toy_defs)
  done
text \<open>C1: what a sync reports is what it did, over an object store shared with other writers.
  \<open>AlreadyInSync\<close> has changed nothing. \<open>Pushed\<close> has uploaded the local file over exactly the version
  of the last sync. \<open>FastReplaced\<close> has the newest version, opened with the caller's password, as its
  database and file. \<open>Merged\<close> has uploaded a merge of exactly the version it replaced, within the
  allowed number of attempts: no version another writer uploads between two calls is lost.\<close>

theorem sync_outcome_effects:
  assumes "ss_transport S = shared_transport" "sh_good (sw_transport w)"
    and "run_state_machine S pr ps opts w = (Inr (out, ptrs), w')"
  shows "outcome_holds S opts (sh_past (sw_transport w')) pr ps w out ptrs w'"
  using shared_effect [OF assms] by blast

theorem sync_outcome_effects_witness:
  "\<exists>w' p. run_state_machine toy_setup None None default_options toy_world = (Inr (Merged toy_delta (Suc (Suc 0)), p), w')
    \<and> outcome_holds toy_setup default_options (sh_past (sw_transport w')) None None toy_world (Merged toy_delta (Suc (Suc 0))) p w'"
proof -
  obtain p w' where r: "run_state_machine toy_setup None None default_options toy_world = (Inr (Merged toy_delta (Suc (Suc 0)), p), w')"
    using toy_run by blast
  have "ss_transport toy_setup = shared_transport" "sh_good (sw_transport toy_world)"
    using toy_good by (simp_all add: toy_setup_def toy_world_def)
  from sync_outcome_effects [OF this r] r show ?thesis by blast
qed

text \<open>C2: however a sync ends, with an outcome or with any error, and whatever fails on the disk, in
  the transport or in the merge: the vault file is as it was, or its old content is in the backup.\<close>

theorem sync_keeps_backup:
  "recoverable (v_path (sw_vault w)) (d_files (sw_disk w)) (snd (run_state_machine S pr ps opts w))"
proof -
  have sm: "same_files (v_path (sw_vault w)) (d_files (sw_disk w)) w" by (simp add: same_files_def)
  obtain r w' where run: "run_state_machine S pr ps opts w = (r, w')" by fastforce
  show ?thesis
    using ahoareD [OF run_recovers sm] ahoareD_err [OF run_recovers sm] run by (cases r) auto
qed

text \<open>C3: after a successful sync the pointers are settled. A second sync straight after it, with no
  writer in between, reports \<open>AlreadyInSync\<close> with the same pointers and changes nothing.\<close>

theorem sync_then_in_sync:
  assumes S: "ss_transport S = shared_transport" and g: "sh_good (sw_transport w)"
    and run: "run_state_machine S pr ps opts w = (Inr (out, ptrs), w')"
    and calm: "d_troubles (sw_disk w') = []" "sh_others (sw_transport w') = []" "\<not> mt_fail_head (sh_mem (sw_transport w'))"
  shows "\<exists>w''. run_state_machine S (sp_remote_etag ptrs) (sp_local_sha256 ptrs) opts w' = (Inr (AlreadyInSync, ptrs), w'')
    \<and> unchanged w' w''"
proof -
  note e = shared_effect [OF S g run]
  from e(2) obtain b where cur: "sp_remote_etag ptrs = (case sh_past (sw_transport w') of [] \<Rightarrow> None | (v, _) # _ \<Rightarrow> Some v)"
    "d_files (sw_disk w') (v_path (sw_vault w')) = Some b" "sp_local_sha256 ptrs = Some (ss_sha S b)"
    by (auto simp: pointers_current_def)
  have head: "on_transport shared_transport (tr_head shared_transport) w' = (Inr (sp_remote_etag ptrs), w')"
    using quiet_head [OF e(1) calm(2,3)] by (simp add: on_transport_def cur(1))
  obtain w1 where p: "ping opts w' = (Inr (), w1)" by (simp add: ping_def)
  from ping_Inr [OF p] have w1: "sw_vault w1 = sw_vault w'" "sw_disk w1 = sw_disk w'" by auto
  have rd: "read_vault_bytes (v_path (sw_vault w')) w1 = (Inr b, w1)"
    using cur(2) calm(1) w1 by (simp add: read_vault_bytes_def on_disk_act_def calm_read)
  have "run_state_machine S (sp_remote_etag ptrs) (sp_local_sha256 ptrs) opts w' = (Inr (AlreadyInSync, ptrs), w1)"
    unfolding run_state_machine_def S Let_def
    by (simp add: abind_def head p rd cur(3) [symmetric])
  with w1 show ?thesis by (auto simp: unchanged_def)
qed

theorem sync_then_in_sync_witness:
  "\<exists>w' p w''. run_state_machine toy_setup None None default_options toy_world = (Inr (Merged toy_delta (Suc (Suc 0)), p), w')
    \<and> run_state_machine toy_setup (sp_remote_etag p) (sp_local_sha256 p) default_options w' = (Inr (AlreadyInSync, p), w'')"
proof -
  obtain p w' where r: "run_state_machine toy_setup None None default_options toy_world = (Inr (Merged toy_delta (Suc (Suc 0)), p), w')"
    and c: "d_troubles (sw_disk w') = []" "sh_others (sw_transport w') = []" "\<not> mt_fail_head (sh_mem (sw_transport w'))"
    using toy_run by blast
  have "ss_transport toy_setup = shared_transport" "sh_good (sw_transport toy_world)"
    using toy_good by (simp_all add: toy_setup_def toy_world_def)
  from sync_then_in_sync [OF this r c] r show ?thesis by blast
qed

text \<open>in the merge path a remote with other KDF parameters is rejected only after the backup has
  been written over, although the documentation of the error says no backup is made for it.\<close>

theorem kdf_mismatch_writes_backup:
  assumes "merge_diverged S opts w = (Inl MasterPasswordMismatch, w')"
  shows "\<exists>b. d_files (sw_disk w) (v_path (sw_vault w)) = Some b
    \<and> d_files (sw_disk w') (backup_path_for (v_path (sw_vault w))) = Some b"
proof -
  let ?p = "v_path (sw_vault w)"
  obtain r w1 where sn: "snapshot_pre_merge ?p w = (r, w1)" by fastforce
  note sc = snapshot_cases [OF sn]
  from assms sn sc obtain bp where r: "r = Inr bp"
    by (cases r) (auto simp: merge_diverged_def abind_def)
  with sc obtain b where b: "d_files (sw_disk w) ?p = Some b"
    "d_files (sw_disk w1) = (d_files (sw_disk w))(backup_path_for ?p \<mapsto> b)" by auto
  from assms sn r have w': "w' = snd (merge_loop S opts bp (max (so_max_retries opts) 1) 0 w1)"
    by (simp add: merge_diverged_def abind_def)
  have "only_vault_file ?p (d_files (sw_disk w1)) w1" using sc by (simp add: only_files_def)
  with keeps_merge_loop [OF singletonI] have "only_vault_file ?p (d_files (sw_disk w1)) w'"
    unfolding w' keeps_def by blast
  with b show ?thesis by (simp add: only_files_def backup_path_neq)
qed

theorem kdf_mismatch_writes_backup_witness:
  "d_files (sw_disk toy_world) [''v''] = Some [5, 97]
    \<and> d_files (sw_disk (snd (merge_diverged (toy_setup\<lparr>ss_kdbx := toy_kdbx\<lparr>kx_kdf := id\<rparr>\<rparr>) default_options toy_world)))
        (backup_path_for [''v'']) = Some [5, 97]"
proof -
  let ?S = "toy_setup\<lparr>ss_kdbx := toy_kdbx\<lparr>kx_kdf := id\<rparr>\<rparr>"
  have run: "merge_diverged ?S default_options toy_world
      = (Inl MasterPasswordMismatch, snd (merge_diverged ?S default_options toy_world))"
    by (rule prod_eqI) (simp_all only: toy_mismatch fst_conv snd_conv)
  have toy: "v_path (sw_vault toy_world) = [''v'']" "d_files (sw_disk toy_world) [''v''] = Some [5, 97]"
    by (simp_all add: toy_world_def toy_vault_def toy_disk_def)
  from kdf_mismatch_writes_backup [OF run] toy show ?thesis by simp
qed

end
