(* ===== verification/ObjectStore.thy ===== *)
theory ObjectStore
  imports S3Transport SyncMachine
begin

text \<open>
  An object store with the documented conditional semantics of S3, the instance on which the laws of
  \<open>S3Transport\<close> are discharged for the model of the client. It answers signed HTTP requests, gives every
  stored object a fresh strong ETag, answers a conditional PUT to a missing key with 412 or with 404 (both
  exist), serves other writers between the requests, answers 503 or drops the connection, before or after
  a request took effect. Nothing here is code of the repository.
\<close>

section \<open>The service\<close>

datatype service_fault = Fine | Dropped http_error | Lost http_error | BusyBefore | BusyAfter

record service =
  sv_objects :: "(string, snapshot) hmap"
  sv_next :: nat
  sv_log :: "snapshot list"
  sv_events :: "(bytes list \<times> service_fault) list"
  sv_clock :: int
  sv_missing :: nat

definition svc_store :: "string \<Rightarrow> string \<Rightarrow> bytes \<Rightarrow> service \<Rightarrow> service" where
  "svc_store main url b sv = (let x = (show_nat (sv_next sv), b) in
     sv\<lparr>sv_objects := hput url x (sv_objects sv), sv_next := Suc (sv_next sv),
        sv_log := (if url = main then x # sv_log sv else sv_log sv)\<rparr>)"

definition answer :: "nat \<Rightarrow> headers \<Rightarrow> bytes \<Rightarrow> http_response" where
  "answer status hs b = \<lparr>hr_status = status, hr_headers = hs, hr_body = b\<rparr>"

definition etag_header :: "string \<Rightarrow> headers" where
  "etag_header e = [(''etag'', etag_header_value e)]"

definition svc_read :: "string \<Rightarrow> headers \<Rightarrow> snapshot option \<Rightarrow> http_response" where
  "svc_read meth hs obj = (case obj of
     None \<Rightarrow> answer 404 [] []
   | Some (e, b) \<Rightarrow>
       if meth = ''HEAD'' then answer 200 (etag_header e) []
       else if map_of hs ''if-none-match'' = Some (etag_header_value e) then answer 304 [] []
       else answer 200 (etag_header e) b)"

definition svc_put :: "string \<Rightarrow> string \<Rightarrow> headers \<Rightarrow> bytes \<Rightarrow> service \<Rightarrow> http_response \<times> service" where
  "svc_put main url hs b sv =
     (let stored = (answer 200 (etag_header (show_nat (sv_next sv))) [], svc_store main url b sv)
      in case map_of hs ''if-match'' of
           None \<Rightarrow> stored
         | Some h \<Rightarrow> (case hget (sv_objects sv) url of
               None \<Rightarrow> (answer (sv_missing sv) [] [], sv)
             | Some (e, _) \<Rightarrow> if h = etag_header_value e then stored else (answer 412 [] [], sv)))"

definition svc_answer :: "string \<Rightarrow> string \<Rightarrow> string \<Rightarrow> headers \<Rightarrow> bytes \<Rightarrow> service \<Rightarrow> http_response \<times> service" where
  "svc_answer main meth url hs b sv =
     (if meth = ''HEAD'' \<or> meth = ''GET'' then (svc_read meth hs (hget (sv_objects sv) url), sv)
      else if meth = ''PUT'' then svc_put main url hs b sv
      else if meth = ''DELETE'' then (answer 204 [] [], sv\<lparr>sv_objects := hdel url (sv_objects sv)\<rparr>)
      else (answer 405 [] [], sv))"

definition svc_request :: "string \<Rightarrow> string \<Rightarrow> string \<Rightarrow> headers \<Rightarrow> bytes \<Rightarrow> (service, http_error, http_response) act" where
  "svc_request main meth url hs b sv = (case sv_events sv of
     [] \<Rightarrow> (case svc_answer main meth url hs b sv of (r, sv') \<Rightarrow> (Inr r, sv'))
   | (others, fault) # es \<Rightarrow>
       (let sv1 = fold (svc_store main main) others (sv\<lparr>sv_events := es\<rparr>)
        in case svc_answer main meth url hs b sv1 of (r, sv2) \<Rightarrow> (case fault of
             Fine \<Rightarrow> (Inr r, sv2)
           | Dropped e \<Rightarrow> (Inl e, sv1)
           | Lost e \<Rightarrow> (Inl e, sv2)
           | BusyBefore \<Rightarrow> (Inr (answer 503 [] []), sv1)
           | BusyAfter \<Rightarrow> (Inr (answer 503 [] []), sv2))))"

definition svc_now :: "service \<Rightarrow> int \<times> service" where
  "svc_now sv = (sv_clock sv, sv\<lparr>sv_clock := sv_clock sv + 1\<rparr>)"

definition store_client :: "crypto \<Rightarrow> signer \<Rightarrow> endpoint_builder \<Rightarrow> resolved_credentials \<Rightarrow> string \<Rightarrow> service s3_client" where
  "store_client K sg e cred main = \<lparr>cl_request = svc_request main, cl_now = svc_now, cl_crypto = K, cl_signer = sg,
     cl_endpoint = e, cl_credentials = cred\<rparr>"

section \<open>Its invariant\<close>

definition numbered :: "nat \<Rightarrow> string \<Rightarrow> bool" where
  "numbered k e = (\<exists>n<k. e = show_nat n)"

definition svc_good :: "string \<Rightarrow> service \<Rightarrow> bool" where
  "svc_good main sv = (hget (sv_objects sv) main = (case sv_log sv of [] \<Rightarrow> None | x # _ \<Rightarrow> Some x)
     \<and> distinct (map fst (sv_log sv)) \<and> list_all (numbered (sv_next sv)) (map fst (sv_log sv))
     \<and> (\<forall>u x. hget (sv_objects sv) u = Some x \<longrightarrow> numbered (sv_next sv) (fst x))
     \<and> sv_missing sv \<in> {404, 412})"

definition svc_grown :: "string \<Rightarrow> service \<Rightarrow> service \<Rightarrow> bool" where
  "svc_grown main sv sv' = (svc_good main sv' \<and> (\<exists>new. sv_log sv' = new @ sv_log sv))"

lemma svc_grown_refl: "svc_good main sv \<Longrightarrow> svc_grown main sv sv"
  by (simp add: svc_grown_def)

lemma svc_grown_trans: "svc_grown main a b \<Longrightarrow> svc_grown main b c \<Longrightarrow> svc_grown main a c"
  by (auto simp: svc_grown_def)

lemma show_nat_inject: "show_nat m = show_nat n \<longleftrightarrow> m = n"
  by (metis decimal_show)

lemma numbered_Suc: "numbered k e \<Longrightarrow> numbered (Suc k) e"
  by (auto simp: numbered_def less_Suc_eq)

lemma numbered_new: "numbered (Suc k) (show_nat k)" "\<not> numbered k (show_nat k)"
  by (auto simp: numbered_def show_nat_inject)

lemma svc_store_grown:
  assumes "svc_good main sv"
  shows "svc_grown main sv (svc_store main url b sv)"
    and "url = main \<Longrightarrow> sv_log (svc_store main url b sv) = (show_nat (sv_next sv), b) # sv_log sv"
proof -
  have "show_nat (sv_next sv) \<notin> set (map fst (sv_log sv))"
    using assms numbered_new(2) [of "sv_next sv"] by (auto simp: svc_good_def list_all_iff)
  then show "svc_grown main sv (svc_store main url b sv)"
    using assms by (auto simp: svc_grown_def svc_good_def svc_store_def Let_def list_all_iff numbered_Suc numbered_new
        split: list.splits)
qed (simp add: svc_store_def Let_def)

lemma svc_writes_grown: "svc_good main sv \<Longrightarrow> svc_grown main sv (fold (svc_store main main) bs sv)"
proof (induction bs arbitrary: sv)
  case (Cons b bs)
  note one = svc_store_grown(1) [OF Cons.prems, of main b]
  then have "svc_good main (svc_store main main b sv)" by (simp add: svc_grown_def)
  from svc_grown_trans [OF one Cons.IH [OF this]] show ?case by simp
qed (simp add: svc_grown_refl)

section \<open>What its answers say\<close>

definition answer_says :: "string \<Rightarrow> string \<Rightarrow> string \<Rightarrow> headers \<Rightarrow> bytes \<Rightarrow> http_response \<Rightarrow> service \<Rightarrow> bool" where
  "answer_says main meth url hs b r sv =
     ((meth \<in> {''HEAD'', ''GET''} \<and> url = main \<longrightarrow>
         (hr_status r = 404 \<longrightarrow> sv_log sv = [])
         \<and> (hr_status r = 200 \<longrightarrow> (\<exists>e b' older. sv_log sv = (e, b') # older \<and> hr_headers r = etag_header e
              \<and> (meth = ''GET'' \<longrightarrow> hr_body r = b' \<and> map_of hs ''if-none-match'' \<noteq> Some (etag_header_value e))))
         \<and> (hr_status r = 304 \<longrightarrow> meth = ''GET'' \<and> (\<exists>e b' older. sv_log sv = (e, b') # older
              \<and> map_of hs ''if-none-match'' = Some (etag_header_value e))))
      \<and> (meth = ''PUT'' \<and> hr_status r = 200 \<longrightarrow>
           (\<forall>h. map_of hs ''if-match'' = Some h \<longrightarrow> (\<exists>n. h = etag_header_value (show_nat n)))
           \<and> (url = main \<longrightarrow> (\<exists>e older. sv_log sv = (e, b) # older \<and> hr_headers r = etag_header e
              \<and> (\<forall>h. map_of hs ''if-match'' = Some h \<longrightarrow> older \<noteq> [] \<and> h = etag_header_value (fst (hd older)))))))"

lemma svc_put_says:
  assumes g: "svc_good main sv" and p: "svc_put main url hs b sv = (r, sv')"
  shows "svc_grown main sv sv' \<and> answer_says main ''PUT'' url hs b r sv' \<and> hr_status r \<noteq> 503"
proof (cases "map_of hs ''if-match''")
  case None
  with p svc_store_grown [OF g, of url b] show ?thesis
    by (auto simp: svc_put_def answer_says_def answer_def Let_def)
next
  case (Some h)
  show ?thesis
  proof (cases "hget (sv_objects sv) url")
    case None
    with Some p g show ?thesis
      by (auto simp: svc_put_def answer_says_def answer_def svc_grown_refl svc_good_def)
  next
    case (Some x)
    obtain e b' where x: "x = (e, b')" by (cases x)
    with g Some have e: "\<exists>n. e = show_nat n" by (fastforce simp: svc_good_def numbered_def)
    have top: "url = main \<Longrightarrow> \<exists>older. sv_log sv = (e, b') # older"
      using g Some x by (auto simp: svc_good_def split: list.splits)
    show ?thesis
    proof (cases "h = etag_header_value e")
      case True
      with p \<open>map_of hs _ = Some h\<close> Some x have "r = answer 200 (etag_header (show_nat (sv_next sv))) []"
        "sv' = svc_store main url b sv" by (auto simp: svc_put_def Let_def)
      with svc_store_grown [OF g, of url b] e True top \<open>map_of hs _ = Some h\<close> show ?thesis
        by (auto simp: answer_says_def answer_def)
    next
      case False
      with p \<open>map_of hs _ = Some h\<close> Some x g show ?thesis
        by (auto simp: svc_put_def answer_says_def answer_def svc_grown_refl)
    qed
  qed
qed

lemma svc_delete_grown:
  "svc_good main sv \<Longrightarrow> url \<noteq> main \<Longrightarrow> svc_grown main sv (sv\<lparr>sv_objects := hdel url (sv_objects sv)\<rparr>)"
  by (auto simp: svc_grown_def svc_good_def)

lemma svc_read_says:
  assumes "svc_good main sv" "meth = ''HEAD'' \<or> meth = ''GET''"
  shows "answer_says main meth url hs b (svc_read meth hs (hget (sv_objects sv) url)) sv"
  using assms by (auto simp: answer_says_def svc_read_def answer_def svc_good_def split: option.splits list.splits)

lemma svc_answer_says:
  assumes "svc_good main sv" "meth = ''DELETE'' \<longrightarrow> url \<noteq> main" "svc_answer main meth url hs b sv = (r, sv')"
  shows "svc_grown main sv sv' \<and> answer_says main meth url hs b r sv'"
proof -
  consider "meth = ''HEAD'' \<or> meth = ''GET''" | "meth = ''PUT''" | "meth \<noteq> ''HEAD''" "meth \<noteq> ''GET''" "meth \<noteq> ''PUT''"
    by blast
  then show ?thesis
  proof cases
    case 1
    with assms svc_read_says [OF assms(1) 1] show ?thesis by (auto simp: svc_answer_def svc_grown_refl)
  next
    case 2
    with assms svc_put_says [OF assms(1)] show ?thesis by (auto simp: svc_answer_def)
  next
    case 3
    with assms svc_delete_grown [OF assms(1)] show ?thesis
      by (auto simp: svc_answer_def svc_grown_refl answer_says_def split: if_splits)
  qed
qed

lemma svc_request_says:
  assumes g: "svc_good main sv" "meth = ''DELETE'' \<longrightarrow> url \<noteq> main" and q: "svc_request main meth url hs b sv = (r, sv')"
  shows "svc_grown main sv sv' \<and> (\<forall>a. r = Inr a \<longrightarrow> hr_status a = 503 \<or> answer_says main meth url hs b a sv')"
proof (cases "sv_events sv")
  case Nil
  obtain a sv2 where "svc_answer main meth url hs b sv = (a, sv2)" by fastforce
  with svc_answer_says [OF g this] q Nil show ?thesis by (auto simp: svc_request_def)
next
  case (Cons ev es)
  obtain others ft where ev: "ev = (others, ft)" by (cases ev)
  let ?sv1 = "fold (svc_store main main) others (sv\<lparr>sv_events := es\<rparr>)"
  have "svc_good main (sv\<lparr>sv_events := es\<rparr>)" using g(1) by (simp add: svc_good_def)
  from svc_writes_grown [OF this, of others] have s1: "svc_grown main sv ?sv1" by (simp add: svc_grown_def)
  then have g1: "svc_good main ?sv1" by (simp add: svc_grown_def)
  obtain a sv2 where an: "svc_answer main meth url hs b ?sv1 = (a, sv2)" by fastforce
  from svc_answer_says [OF g1 g(2) an] have s2: "svc_grown main ?sv1 sv2" "answer_says main meth url hs b a sv2" by auto
  from q Cons ev an have "(r, sv') \<in> {(Inr a, sv2), (Inr (answer 503 [] []), ?sv1), (Inr (answer 503 [] []), sv2)}
      \<or> (\<exists>e. r = Inl e \<and> sv' \<in> {?sv1, sv2})"
    by (cases ft) (auto simp: svc_request_def Let_def)
  with s1 s2 svc_grown_trans [OF s1 s2(1)] show ?thesis by (auto simp: answer_def)
qed

section \<open>The client against it\<close>

lemma says_cong:
  "(\<And>n. n = ''if-match'' \<or> n = ''if-none-match'' \<Longrightarrow> map_of hs n = map_of hs' n) \<Longrightarrow>
   answer_says main meth url hs b r sv = answer_says main meth url hs' b r sv"
  by (simp add: answer_says_def)

lemma signed_headers_lookup:
  assumes "sign K sg m p q (request_headers host extra body) body cred now = Inr hs"
    and "n = ''if-match'' \<or> n = ''if-none-match''"
  shows "map_of hs n = map_of extra n"
proof -
  from sign_adds [OF assms(1)] obtain ex where ex: "hs = request_headers host extra body @ ex"
    "fst ` set ex \<subseteq> {''x-amz-date'', ''x-amz-content-sha256'', ''x-amz-security-token'', ''authorization''}" by blast
  with assms(2) have "n \<notin> fst ` set ex" by auto
  then have "map_of ex n = None" by (simp add: map_of_eq_None_iff)
  then show ?thesis using assms(2) ex(1) by (auto simp: request_headers_def map_add_def split: option.split)
qed

definition plain_error :: "s3_error \<Rightarrow> bool" where
  "plain_error e = ((\<exists>x. e = SignerFailed x) \<or> (\<exists>x. e = S3Http x))"

definition client_says :: "string \<Rightarrow> string \<Rightarrow> string \<Rightarrow> headers \<Rightarrow> bytes \<Rightarrow> service \<Rightarrow> s3_error + http_response \<Rightarrow> service \<Rightarrow> bool" where
  "client_says main meth url extra b sv r sv' = (svc_grown main sv sv'
     \<and> (\<forall>e. r = Inl e \<longrightarrow> plain_error e)
     \<and> (\<forall>a. r = Inr a \<longrightarrow> hr_status a = 503 \<or> answer_says main meth url extra b a sv'))"

lemma send_once_says:
  assumes g: "svc_good main sv" "meth = ''DELETE'' \<longrightarrow> url \<noteq> main"
    and s: "send_once (store_client K sg e cred main) meth url host path extra b sv = (r, sv')"
  shows "client_says main meth url extra b sv r sv'"
proof -
  let ?sv1 = "sv\<lparr>sv_clock := sv_clock sv + 1\<rparr>"
  have g1: "svc_good main ?sv1" using g(1) by (simp add: svc_good_def)
  have up: "svc_grown main ?sv1 s' \<Longrightarrow> svc_grown main sv s'" for s' by (simp add: svc_grown_def)
  define sn where "sn = sign K sg meth path [] (request_headers host extra b) b cred (sv_clock sv)"
  show ?thesis
  proof (cases sn)
    case (Inl x)
    with s have "r = Inl (SignerFailed x)" "sv' = ?sv1"
      by (auto simp: send_once_def store_client_def svc_now_def abind_def sn_def)
    with up [OF svc_grown_refl [OF g1]] show ?thesis by (simp add: client_says_def plain_error_def)
  next
    case (Inr hs)
    obtain r0 s2 where q: "svc_request main meth url hs b ?sv1 = (r0, s2)" by fastforce
    with s Inr have r: "r = map_err S3Http r0" "sv' = s2"
      by (auto simp: send_once_def store_client_def svc_now_def abind_def aerr_def sn_def)
    have "answer_says main meth url hs b a s2 = answer_says main meth url extra b a s2" for a
      by (rule says_cong) (rule signed_headers_lookup [OF Inr [unfolded sn_def]])
    with svc_request_says [OF g1 g(2) q] up r show ?thesis
      by (cases r0) (auto simp: client_says_def plain_error_def)
  qed
qed

lemma endpoint_of_store: "cl_endpoint (store_client K sg e cred main) = e"
  by (simp add: store_client_def)

lemma object_request_says:
  assumes g: "svc_good main sv" "meth = ''DELETE'' \<longrightarrow> object_url e bucket key \<noteq> main"
    and s: "object_request (store_client K sg e cred main) meth bucket key extra b sv = (r, sv')"
  shows "client_says main meth (object_url e bucket key) extra b sv r sv'"
proof -
  let ?send = "send_once (store_client K sg e cred main) meth (object_url e bucket key) (host_header e bucket)
    (path_for_request e bucket key) extra b"
  have sr: "object_request (store_client K sg e cred main) meth bucket key extra b sv
      = abind ?send (\<lambda>a. if hr_status a = 503 then ?send else areturn a) sv"
    by (simp add: object_request_def signed_request_def endpoint_of_store)
  obtain r1 s1 where 1: "?send sv = (r1, s1)" by fastforce
  note c1 = send_once_says [OF g 1]
  show ?thesis
  proof (cases "\<exists>a. r1 = Inr a \<and> hr_status a = 503")
    case True
    with s sr 1 have 2: "?send s1 = (r, sv')" by (auto simp: abind_def)
    from c1 have "svc_good main s1" "svc_grown main sv s1" by (auto simp: client_says_def svc_grown_def)
    with send_once_says [OF this(1) g(2) 2] svc_grown_trans show ?thesis by (fastforce simp: client_says_def)
  next
    case False
    with s sr 1 have "r = r1" "sv' = s1" by (auto simp: abind_def split: sum.splits if_splits)
    with c1 show ?thesis by simp
  qed
qed

lemma etag_of_response:
  "hr_headers r = etag_header (show_nat n) \<Longrightarrow> parse_response_etag r = Inr (show_nat n)"
proof -
  have "show_nat n \<noteq> []" using show_nat_digits by blast
  then have "etag_parse (etag_header_value (show_nat n)) = Inr (show_nat n)" by (rule etag_parse_header)
  then show "hr_headers r = etag_header (show_nat n) \<Longrightarrow> ?thesis"
    by (simp add: parse_response_etag_def response_header_def etag_header_def)
qed

definition issued :: "version \<Rightarrow> bool" where
  "issued w = (\<exists>n. w = show_nat n)"

lemma digit_plain:
  assumes "is_digit c"
  shows "\<not> is_space c \<and> c \<noteq> quote"
proof -
  have "list_all (\<lambda>c. \<not> is_space c \<and> c \<noteq> quote) ''0123456789''" by code_simp
  with assms show ?thesis unfolding is_digit_def list_all_iff by blast
qed

lemma quote_digits:
  assumes "w \<noteq> []" "list_all is_digit w"
  shows "quote_etag w = etag_header_value w"
proof -
  have "is_digit (hd w)" "is_digit (last w)" using assms by (simp_all add: list_all_iff)
  with digit_plain have "trim w = w" "hd w \<noteq> quote" using assms(1) by (auto intro!: trim_id)
  then show ?thesis by (simp add: quote_etag_def etag_header_value_def)
qed

lemma quote_issued: "issued w \<Longrightarrow> quote_etag w = etag_header_value w"
  using quote_digits show_nat_digits by (auto simp: issued_def)

lemma header_value_inject: "etag_header_value a = etag_header_value b \<longleftrightarrow> a = b"
  by (simp add: etag_header_value_def)

lemma probe_never_issued: "quote_etag probe_if_match \<noteq> etag_header_value (show_nat n)"
proof
  assume "quote_etag probe_if_match = etag_header_value (show_nat n)"
  moreover have "quote_etag probe_if_match = etag_header_value probe_if_match"
    by (rule quote_digits) (code_simp+)
  ultimately have p: "show_nat n = probe_if_match" by (simp add: header_value_inject)
  have "decimal_value probe_if_match = 0" by code_simp
  with p decimal_show [of n] have "n = 0" by simp
  moreover have "show_nat 0 \<noteq> probe_if_match" by code_simp
  ultimately show False using p by simp
qed

lemma log_issued: "svc_good main sv \<Longrightarrow> (w, b) \<in> set (sv_log sv) \<Longrightarrow> issued w"
  by (fastforce simp: svc_good_def list_all_iff numbered_def issued_def)

lemma top_issued: "svc_good main sv \<Longrightarrow> sv_log sv = (e, b) # older \<Longrightarrow> \<exists>n. e = show_nat n"
  using log_issued [of main sv e b] by (simp add: issued_def)

lemma other_url: "object_url e bucket (probe_key_of key x) \<noteq> object_url e bucket key"
proof -
  have "trim_slashes (probe_key_of key x) \<noteq> trim_slashes key"
  proof
    assume eq: "trim_slashes (probe_key_of key x) = trim_slashes key"
    have "trim_slashes (key @ CHR ''.'' # y) = trim_slashes key @ CHR ''.'' # y" for y
      by (induction key) (auto simp: trim_slashes_def trim_start_def)
    with eq show False by (simp add: probe_key_of_def)
  qed
  then show ?thesis by (simp add: object_url_def Let_def split: addressing_style.split)
qed

lemma parse_error_plain: "parse_response_etag r = Inl e \<Longrightarrow> e \<noteq> S3NotFound"
  by (auto simp: parse_response_etag_def map_err_def split: option.splits sum.splits)

lemma status_error_404: "status_error m s = S3NotFound \<longleftrightarrow> s = 404"
  by (simp add: status_error_def remote_unreachable_after_retry_def unexpected_status_def)

section \<open>The laws of the backend\<close>

lemma head_object_law:
  assumes m: "main = object_url e bucket key" and g: "svc_good main sv"
    and c: "head_object (store_client K sg e cred main) bucket key sv = (r, sv')"
  shows "svc_grown main sv sv' \<and> (\<forall>v. r = Inr v \<longrightarrow> (\<exists>b. hd (sv_log sv') = (v, b) \<and> sv_log sv' \<noteq> []))
    \<and> (r = Inl S3NotFound \<longrightarrow> sv_log sv' = [])"
proof -
  obtain q s1 where q: "object_request (store_client K sg e cred main) ''HEAD'' bucket key [] [] sv = (q, s1)" by fastforce
  have "client_says main ''HEAD'' main [] [] sv q s1"
    using object_request_says [OF g _ q] m by simp
  then have cs: "svc_grown main sv s1" "\<And>x. q = Inl x \<Longrightarrow> plain_error x"
    "\<And>a. q = Inr a \<Longrightarrow> hr_status a = 503 \<or> answer_says main ''HEAD'' main [] [] a s1" by (auto simp: client_says_def)
  show ?thesis
  proof (cases q)
    case (Inl x)
    with c q cs show ?thesis by (auto simp: head_object_def abind_def plain_error_def)
  next
    case (Inr a)
    with c q have r: "sv' = s1" "r = (if hr_status a = 200 then parse_response_etag a else Inl (status_error ''HEAD'' (hr_status a)))"
      by (auto simp: head_object_def abind_def split: if_splits)
    from cs(1) have g1: "svc_good main s1" by (simp add: svc_grown_def)
    show ?thesis
    proof (cases "hr_status a = 200")
      case True
      with cs(3) [OF Inr] obtain x b older where l: "sv_log s1 = (x, b) # older" "hr_headers a = etag_header x"
        by (auto simp: answer_says_def)
      with top_issued [OF g1 l(1)] etag_of_response have "parse_response_etag a = Inr x" by metis
      with r True l cs(1) show ?thesis by simp
    next
      case False
      with cs(3) [OF Inr] r cs(1) show ?thesis by (auto simp: answer_says_def status_error_404)
    qed
  qed
qed

lemma get_object_law:
  assumes m: "main = object_url e bucket key" and g: "svc_good main sv"
    and c: "get_object (store_client K sg e cred main) bucket key p sv = (r, sv')"
  shows "svc_grown main sv sv'
    \<and> (\<forall>v b. r = Inr (Body v b) \<longrightarrow> sv_log sv' \<noteq> [] \<and> hd (sv_log sv') = (v, b) \<and> p \<noteq> Some v)
    \<and> (r = Inr NotModified \<longrightarrow> sv_log sv' \<noteq> [] \<and> (\<exists>w. p = Some w \<and> (issued w \<longrightarrow> w = fst (hd (sv_log sv')))))"
proof -
  let ?x = "case p of None \<Rightarrow> [] | Some e \<Rightarrow> [(''if-none-match'', quote_etag e)]"
  obtain q s1 where q: "object_request (store_client K sg e cred main) ''GET'' bucket key ?x [] sv = (q, s1)" by fastforce
  have "client_says main ''GET'' main ?x [] sv q s1"
    using object_request_says [OF g _ q] m by simp
  then have cs: "svc_grown main sv s1" "\<And>a. q = Inr a \<Longrightarrow> hr_status a = 503 \<or> answer_says main ''GET'' main ?x [] a s1"
    by (auto simp: client_says_def)
  show ?thesis
  proof (cases q)
    case (Inl x)
    with c q cs show ?thesis by (auto simp: get_object_def abind_def)
  next
    case (Inr a)
    with c q have r: "sv' = s1" "r = (if hr_status a = 200 then rbind (parse_response_etag a) (\<lambda>e. Inr (Body e (hr_body a)))
        else if hr_status a = 304 then Inr NotModified else Inl (status_error ''GET'' (hr_status a)))"
      by (auto simp: get_object_def abind_def split: if_splits)
    from cs(1) have g1: "svc_good main s1" by (simp add: svc_grown_def)
    consider "hr_status a = 200" | "hr_status a = 304" | "hr_status a \<noteq> 200" "hr_status a \<noteq> 304" by blast
    then show ?thesis
    proof cases
      case 1
      with cs(2) [OF Inr] obtain x b older where l: "sv_log s1 = (x, b) # older" "hr_headers a = etag_header x"
        "hr_body a = b" "map_of ?x ''if-none-match'' \<noteq> Some (etag_header_value x)"
        by (auto simp: answer_says_def)
      from top_issued [OF g1 l(1)] l(2) etag_of_response have pe: "parse_response_etag a = Inr x" by metis
      have "issued x" using top_issued [OF g1 l(1)] by (simp add: issued_def)
      then have "p \<noteq> Some x" using l(4) quote_issued by (auto split: option.splits)
      with r 1 l pe cs(1) show ?thesis by simp
    next
      case 2
      with cs(2) [OF Inr] obtain x b older where l: "sv_log s1 = (x, b) # older"
        "map_of ?x ''if-none-match'' = Some (etag_header_value x)"
        by (auto simp: answer_says_def)
      then obtain w where w: "p = Some w" "quote_etag w = etag_header_value x" by (cases p) auto
      then have "issued w \<longrightarrow> w = x" using quote_issued header_value_inject by metis
      with r 2 l w cs(1) show ?thesis by simp
    next
      case 3
      with r cs(1) show ?thesis by simp
    qed
  qed
qed

definition match_header :: "version option \<Rightarrow> headers" where
  "match_header m = (''content-type'', ''application/octet-stream'') #
     (case m of None \<Rightarrow> [] | Some e \<Rightarrow> [(''if-match'', quote_etag e)])"

lemma match_header_lookup: "map_of (match_header m) ''if-match'' = map_option quote_etag m"
  by (simp add: match_header_def split: option.split)

lemma put_object_says:
  assumes g: "svc_good main sv"
    and c: "put_object (store_client K sg e cred main) bucket key b m sv = (r, sv')"
  shows "svc_grown main sv sv' \<and> (\<forall>v. r = Inr v \<longrightarrow> (\<exists>a. hr_status a = 200 \<and> parse_response_etag a = Inr v
     \<and> answer_says main ''PUT'' (object_url e bucket key) (match_header m) b a sv'))"
proof -
  obtain q s1 where q: "object_request (store_client K sg e cred main) ''PUT'' bucket key (match_header m) b sv = (q, s1)" by fastforce
  have "client_says main ''PUT'' (object_url e bucket key) (match_header m) b sv q s1"
    using object_request_says [OF g _ q] by simp
  then have cs: "svc_grown main sv s1"
    "\<And>a. q = Inr a \<Longrightarrow> hr_status a = 503 \<or> answer_says main ''PUT'' (object_url e bucket key) (match_header m) b a s1"
    by (auto simp: client_says_def)
  have run: "put_object (store_client K sg e cred main) bucket key b m sv = (case q of Inl x \<Rightarrow> (Inl x, s1)
    | Inr a \<Rightarrow> if hr_status a = 200 then (parse_response_etag a, s1)
        else (Inl (if hr_status a = 412 then S3PreconditionFailed else status_error ''PUT'' (hr_status a)), s1))"
    using q by (cases q) (auto simp: put_object_def abind_def match_header_def)
  show ?thesis
  proof (cases q)
    case (Inr a)
    then show ?thesis using c cs(1) cs(2) [OF Inr] unfolding run by (cases "hr_status a = 200") auto
  qed (use c cs(1) in \<open>auto simp: run\<close>)
qed

lemma put_object_law:
  assumes m: "main = object_url e bucket key" and g: "svc_good main sv"
    and c: "put_object (store_client K sg e cred main) bucket key b m sv = (r, sv')"
  shows "svc_grown main sv sv' \<and> (\<forall>v. r = Inr v \<longrightarrow> (\<exists>pre. sv_log sv' = (v, b) # pre
       \<and> (\<forall>w. m = Some w \<longrightarrow> issued w \<longrightarrow> pre \<noteq> [] \<and> fst (hd pre) = w)))"
proof (intro conjI allI impI)
  note says = put_object_says [OF g c]
  then show "svc_grown main sv sv'" by blast
  then have g': "svc_good main sv'" by (simp add: svc_grown_def)
  fix v assume "r = Inr v"
  with says obtain a where a: "hr_status a = 200" "parse_response_etag a = Inr v"
    "answer_says main ''PUT'' main (match_header m) b a sv'" using m by blast
  then obtain x older where l: "sv_log sv' = (x, b) # older" "hr_headers a = etag_header x"
    and h: "\<And>h. map_of (match_header m) ''if-match'' = Some h \<Longrightarrow> older \<noteq> [] \<and> h = etag_header_value (fst (hd older))"
    by (auto simp: answer_says_def)
  from top_issued [OF g' l(1)] l(2) etag_of_response have "parse_response_etag a = Inr x" by metis
  with a(2) l(1) have "sv_log sv' = (v, b) # older" by simp
  moreover have "older \<noteq> [] \<and> fst (hd older) = w" if "m = Some w" "issued w" for w
    using h [of "quote_etag w"] that quote_issued [OF that(2)] by (simp add: match_header_lookup header_value_inject)
  ultimately show "\<exists>pre. sv_log sv' = (v, b) # pre \<and> (\<forall>w. m = Some w \<longrightarrow> issued w \<longrightarrow> pre \<noteq> [] \<and> fst (hd pre) = w)"
    by blast
qed

lemma probe_put_law:
  assumes g: "svc_good main sv"
    and c: "put_object (store_client K sg e cred main) bucket k b (Some probe_if_match) sv = (r, sv')"
  shows "svc_grown main sv sv' \<and> (\<forall>v. r \<noteq> Inr v)"
proof -
  note says = put_object_says [OF g c]
  have "r \<noteq> Inr v" for v
  proof
    assume "r = Inr v"
    with says obtain a where "hr_status a = 200"
      "answer_says main ''PUT'' (object_url e bucket k) (match_header (Some probe_if_match)) b a sv'" by blast
    then obtain n where "quote_etag probe_if_match = etag_header_value (show_nat n)"
      by (auto simp: answer_says_def match_header_lookup)
    with probe_never_issued show False by blast
  qed
  with says show ?thesis by blast
qed

lemma delete_object_law:
  assumes g: "svc_good main sv" and u: "object_url e bucket k \<noteq> main"
    and c: "delete_object (store_client K sg e cred main) bucket k sv = (r, sv')"
  shows "svc_grown main sv sv'"
proof -
  obtain q s1 where q: "object_request (store_client K sg e cred main) ''DELETE'' bucket k [] [] sv = (q, s1)" by fastforce
  have "client_says main ''DELETE'' (object_url e bucket k) [] [] sv q s1"
    using object_request_says [OF g _ q] u by simp
  moreover have "sv' = s1" using c q by (cases q) (auto simp: delete_object_def abind_def split: if_splits)
  ultimately show ?thesis by (simp add: client_says_def)
qed

lemma svc_grown_growth: "svc_grown main sv sv' \<Longrightarrow> svc_good main sv' \<and> (\<exists>new. sv_log sv' = new @ sv_log sv)"
  by (simp add: svc_grown_def)

interpretation s3_service: s3_store "client_backend (store_client K sg e cred (object_url e bucket key))" bucket key
  sv_log "svc_good (object_url e bucket key)" issued
proof (unfold_locales, goal_cases)
  case (1 h r h')
  then show ?case using head_object_law [OF refl 1(1)] svc_grown_growth by (fastforce simp: client_backend_def)
next
  case (2 h p g h')
  then have run: "get_object (store_client K sg e cred (object_url e bucket key)) bucket key p h = (g, h')"
    by (simp add: client_backend_def)
  from get_object_law [OF refl 2(1) run] svc_grown_growth show ?case by blast
next
  case (3 h b m u h')
  then have run: "put_object (store_client K sg e cred (object_url e bucket key)) bucket key b m h = (u, h')"
    by (simp add: client_backend_def)
  from put_object_law [OF refl 3(1) run] svc_grown_growth show ?case by blast
next
  case (4 h x b u h')
  then have run: "put_object (store_client K sg e cred (object_url e bucket key)) bucket (probe_key_of key x) b
      (Some probe_if_match) h = (u, h')"
    by (simp add: client_backend_def)
  from probe_put_law [OF 4(1) run] svc_grown_growth show ?case by blast
next
  case (5 h x d h')
  then have run: "delete_object (store_client K sg e cred (object_url e bucket key)) bucket (probe_key_of key x) h = (d, h')"
    by (simp add: client_backend_def)
  from delete_object_law [OF 5(1) other_url run] svc_grown_growth show ?case by blast
next
  case (6 h)
  then show ?case by (simp add: svc_good_def)
next
  case (7 h w b)
  then show ?case by (rule log_issued)
qed

section \<open>Compare and swap, and where it is lost\<close>

abbreviation store_ops :: "crypto \<Rightarrow> signer \<Rightarrow> endpoint_builder \<Rightarrow> resolved_credentials \<Rightarrow> string \<Rightarrow> string \<Rightarrow>
    (service s3_transport, s3_error) transport" where
  "store_ops K sg e cred bucket key \<equiv> s3_transport_ops (client_backend (store_client K sg e cred (object_url e bucket key)))"

text \<open>Without other traffic a conditional PUT on the current version succeeds.\<close>

lemma sign_total: "cy_utc K now = Some ds \<Longrightarrow> \<exists>hs'. sign K sg m p q hs b cred now = Inr hs'"
  by (auto simp: sign_def Let_def split: prod.splits)

lemma quiet_put:
  assumes g: "svc_good (object_url e bucket key) sv" and q: "sv_events sv = []" and log: "sv_log sv = (w, b0) # older"
    and u: "cy_utc K (sv_clock sv) = Some ds"
  shows "\<exists>sv'. put_object (store_client K sg e cred (object_url e bucket key)) bucket key b (Some w) sv
    = (Inr (show_nat (sv_next sv)), sv')"
proof -
  let ?u = "object_url e bucket key"
  let ?C = "store_client K sg e cred ?u"
  let ?h = "match_header (Some w)"
  let ?sv1 = "sv\<lparr>sv_clock := sv_clock sv + 1\<rparr>"
  from sign_total [OF u] obtain hs where hs: "sign K sg ''PUT'' (path_for_request e bucket key) []
      (request_headers (host_header e bucket) ?h b) b cred (sv_clock sv) = Inr hs" by blast
  have "issued w" using log_issued [OF g, of w b0] log by simp
  then have lk: "map_of hs ''if-match'' = Some (etag_header_value w)"
    using signed_headers_lookup [OF hs] quote_issued by (simp add: match_header_lookup)
  have obj: "hget (sv_objects sv) ?u = Some (w, b0)" using g log by (simp add: svc_good_def)
  let ?r = "answer 200 (etag_header (show_nat (sv_next sv))) []"
  let ?sv2 = "svc_store ?u ?u b ?sv1"
  have "svc_request ?u ''PUT'' ?u hs b ?sv1 = (Inr ?r, ?sv2)"
    using q lk obj by (simp add: svc_request_def svc_answer_def svc_put_def Let_def)
  with hs have "send_once ?C ''PUT'' ?u (host_header e bucket) (path_for_request e bucket key) ?h b sv = (Inr ?r, ?sv2)"
    by (simp add: send_once_def store_client_def svc_now_def abind_def aerr_def)
  then have "object_request ?C ''PUT'' bucket key ?h b sv = (Inr ?r, ?sv2)"
    by (simp add: object_request_def signed_request_def endpoint_of_store abind_def answer_def)
  moreover have "parse_response_etag ?r = Inr (show_nat (sv_next sv))"
    by (rule etag_of_response) (simp add: answer_def)
  ultimately show ?thesis
    by (simp add: put_object_def abind_def match_header_def) (simp add: answer_def)
qed

text \<open>C29: against an enforcing object store, with other writers, busy answers and lost connections, a
  conditional PUT of the S3 transport that succeeds is a compare-and-swap: the version it wrote directly
  follows the version it was given, so nothing another device uploaded in between is overwritten. It
  stays so when the probe has to run first.\<close>

theorem s3_put_compare_and_swap:
  assumes "net_good (svc_good (object_url e bucket key)) bucket key t"
    and "s3_put (client_backend (store_client K sg e cred (object_url e bucket key))) b (Some w) t = (Inr v, t')"
    and "(w, b0) \<in> set (sv_log (st_net t))"
  shows "\<exists>older. sv_log (st_net t') = (v, b) # (w, b0) # older"
  using s3_service.contract.put_replaces [of e bucket key t K sg cred b w v t' b0] assms
  by (simp add: s3_transport_ops_def net_past_def)

definition sample_store :: service where
  "sample_store = \<lparr>sv_objects = [(''http://h/b/k'', (show_nat 0, [7]))], sv_next = 1, sv_log = [(show_nat 0, [7])],
     sv_events = [], sv_clock = 0, sv_missing = 404\<rparr>"

definition sample_endpoint :: endpoint_builder where
  "sample_endpoint = \<lparr>eb_base = ''http://h'', eb_base_host = ''h'', eb_style = PathStyle\<rparr>"

definition sample_crypto :: crypto where
  "sample_crypto = \<lparr>cy_sha256_hex = (\<lambda>_. ''aa''), cy_hmac = (\<lambda>k d. k), cy_hex = (\<lambda>_. ''bb''), cy_utc = (\<lambda>_. Some (''d'', ''s''))\<rparr>"

definition sample_credentials :: resolved_credentials where
  "sample_credentials = \<lparr>rc_access_key_id = ''a'', rc_secret_access_key = ''s'', rc_session_token = None\<rparr>"

abbreviation sample_backend :: "service s3_backend" where
  "sample_backend \<equiv> client_backend (store_client sample_crypto (new_signer ''r'') sample_endpoint sample_credentials ''http://h/b/k'')"

lemma sample_url: "object_url sample_endpoint ''b'' ''k'' = ''http://h/b/k''"
  by (simp add: object_url_def sample_endpoint_def trim_slashes_def trim_start_def)

lemma sample_good: "svc_good ''http://h/b/k'' sample_store"
  by (auto simp: svc_good_def sample_store_def numbered_def)

theorem s3_put_compare_and_swap_witness:
  "\<exists>t' older. s3_put sample_backend [9] (Some (show_nat 0)) (with_if_match_state sample_store ''b'' ''k'' Supported)
       = (Inr (show_nat 1), t') \<and> sv_log (st_net t') = (show_nat 1, [9]) # (show_nat 0, [7]) # older"
proof -
  let ?t = "with_if_match_state sample_store ''b'' ''k'' Supported"
  have "\<exists>sv'. put_object (store_client sample_crypto (new_signer ''r'') sample_endpoint sample_credentials ''http://h/b/k'')
      ''b'' ''k'' [9] (Some (show_nat 0)) sample_store = (Inr (show_nat 1), sv')"
    using quiet_put [of sample_endpoint "''b''" "''k''" sample_store "show_nat 0" "[7]" "[]" sample_crypto "(''d'', ''s'')"
        "new_signer ''r''" sample_credentials "[9]"] sample_good
    by (simp add: sample_url) (simp add: sample_store_def sample_crypto_def)
  then obtain t' where p: "s3_put sample_backend [9] (Some (show_nat 0)) ?t = (Inr (show_nat 1), t')"
    by (auto simp: s3_put_def with_if_match_state_def s3_put_enforced_def on_net_def abind_def client_backend_def
        set_cached_version_def)
  have g: "net_good (svc_good ''http://h/b/k'') ''b'' ''k'' ?t"
    using sample_good by (simp add: net_good_def with_if_match_state_def)
  have m: "(show_nat 0, [7]) \<in> set (sv_log (st_net ?t))" by (simp add: with_if_match_state_def sample_store_def)
  from s3_put_compare_and_swap [of sample_endpoint "''b''" "''k''" ?t, unfolded sample_url, OF g p m] p show ?thesis by blast
qed

text \<open>on a backend classified as degraded the expected version plays no part: the PUT is unconditional
  and the HEAD that follows compares with the ETag of this PUT only. A version that another device completed
  between the fetch and the PUT is overwritten without an error; only a writer between the PUT and the HEAD
  is noticed.\<close>

theorem degraded_put_ignores_version:
  assumes "st_if_match t = Degraded"
  shows "s3_put B b (Some w) t = s3_put B b (Some w') t
    \<and> (\<forall>put_etag h h'. be_put B (st_bucket t) (st_key t) b None (st_net t) = (Inr put_etag, h)
          \<and> be_head B (st_bucket t) (st_key t) h = (Inr put_etag, h') \<longrightarrow> fst (s3_put B b (Some w) t) = Inr put_etag)"
  using assms by (simp add: s3_put_def s3_put_degraded_def on_net_def abind_def set_cached_version_def)

text \<open>A backend whose object another device has just replaced: the PUT goes through all the same.\<close>

definition ignoring_backend :: "string list s3_backend" where
  "ignoring_backend = \<lparr>be_head = (\<lambda>_ _ h. (Inr (hd h), h)), be_get = (\<lambda>_ _ _ h. (Inr NotModified, h)),
     be_put = (\<lambda>_ _ _ _ h. (Inr (show_nat (length h)), show_nat (length h) # h)), be_delete = (\<lambda>_ _ h. (Inr (), h))\<rparr>"

theorem degraded_put_ignores_version_witness:
  "fst (s3_put ignoring_backend [9] (Some ''old'') (with_if_match_state [''newer'', ''old''] ''b'' ''k'' Degraded))
     = Inr (show_nat 2)"
proof -
  let ?t = "with_if_match_state [''newer'', ''old''] ''b'' ''k'' Degraded"
  have d: "st_if_match ?t = Degraded" by (simp add: with_if_match_state_def)
  have "be_put ignoring_backend (st_bucket ?t) (st_key ?t) [9] None (st_net ?t) = (Inr (show_nat 2), [show_nat 2, ''newer'', ''old''])"
    "be_head ignoring_backend (st_bucket ?t) (st_key ?t) [show_nat 2, ''newer'', ''old''] = (Inr (show_nat 2), [show_nat 2, ''newer'', ''old''])"
    by (simp_all add: ignoring_backend_def with_if_match_state_def numeral_2_eq_2)
  with degraded_put_ignores_version [OF d, of ignoring_backend "[9]" "''old''" "''older''"] show ?thesis by blast
qed

section \<open>The sync state machine over S3\<close>

text \<open>C30: the sync state machine over the S3 transport, the client, the signer and an enforcing object store
  with other writers, busy answers and lost connections. What a successful sync reports is what it did (as
  for the in-memory transport), when the last synced version is one the store issued.\<close>

theorem sync_over_s3_effects:
  assumes "ss_transport S = store_ops K sg e cred bucket key"
    and "net_good (svc_good (object_url e bucket key)) bucket key (sw_transport w)"
    and "\<And>v. pr = Some v \<Longrightarrow> issued v"
    and "run_state_machine S pr ps opts w = (Inr (out, ptrs), w')"
  shows "pointers_current S (sv_log (st_net (sw_transport w'))) w' ptrs
    \<and> outcome_holds S opts (sv_log (st_net (sw_transport w'))) pr ps w out ptrs w'"
  using s3_service.contract.run_effect [OF assms] by (simp add: net_past_def)

lemma quiet_store_head:
  assumes g: "svc_good (object_url e bucket key) sv" and q: "sv_events sv = []" and log: "sv_log sv = (w, b0) # older"
    and u: "cy_utc K (sv_clock sv) = Some ds"
  shows "head_object (store_client K sg e cred (object_url e bucket key)) bucket key sv
    = (Inr w, sv\<lparr>sv_clock := sv_clock sv + 1\<rparr>)"
proof -
  let ?u = "object_url e bucket key"
  let ?C = "store_client K sg e cred ?u"
  from sign_total [OF u] obtain hs where hs: "sign K sg ''HEAD'' (path_for_request e bucket key) []
      (request_headers (host_header e bucket) [] []) [] cred (sv_clock sv) = Inr hs" by blast
  have obj: "hget (sv_objects sv) ?u = Some (w, b0)" using g log by (simp add: svc_good_def)
  let ?r = "answer 200 (etag_header w) []"
  let ?sv1 = "sv\<lparr>sv_clock := sv_clock sv + 1\<rparr>"
  have "svc_request ?u ''HEAD'' ?u hs [] ?sv1 = (Inr ?r, ?sv1)"
    using q obj by (simp add: svc_request_def svc_answer_def svc_read_def)
  with hs have "send_once ?C ''HEAD'' ?u (host_header e bucket) (path_for_request e bucket key) [] [] sv = (Inr ?r, ?sv1)"
    by (simp add: send_once_def store_client_def svc_now_def abind_def aerr_def)
  then have "object_request ?C ''HEAD'' bucket key [] [] sv = (Inr ?r, ?sv1)"
    by (simp add: object_request_def signed_request_def endpoint_of_store abind_def answer_def)
  moreover obtain n where "w = show_nat n" using top_issued [OF g log] by blast
  then have "parse_response_etag ?r = Inr w" using etag_of_response [of ?r n] by (simp add: answer_def)
  ultimately show ?thesis by (simp add: head_object_def abind_def) (simp add: answer_def)
qed

definition s3_setup :: "(nat, string, service s3_transport, s3_error) sync_setup" where
  "s3_setup = \<lparr>ss_kdbx = toy_kdbx, ss_reconcile = (\<lambda>a b. (Inr toy_delta, a + b)), ss_sha = (\<lambda>_. ''h''),
     ss_transport = store_ops sample_crypto (new_signer ''r'') sample_endpoint sample_credentials ''b'' ''k'',
     ss_password = ''a'', ss_keyfile = None\<rparr>"

definition s3_world :: "(nat, string, service s3_transport) sync_world" where
  "s3_world = \<lparr>sw_vault = toy_vault, sw_disk = toy_disk,
     sw_transport = with_if_match_state sample_store ''b'' ''k'' Supported, sw_pings = 0\<rparr>"

lemma s3_push: "\<exists>p w'. run_state_machine s3_setup (Some (show_nat 0)) None default_options s3_world = (Inr (Pushed False, p), w')"
proof -
  let ?C = "store_client sample_crypto (new_signer ''r'') sample_endpoint sample_credentials ''http://h/b/k''"
  let ?sv = "sample_store\<lparr>sv_clock := 1\<rparr>"
  note url = sample_url
  have log: "sv_log sample_store = (show_nat 0, [7]) # []" "sv_log ?sv = (show_nat 0, [7]) # []" "sv_events ?sv = []"
    "sv_events sample_store = []" by (simp_all add: sample_store_def)
  have g: "svc_good ''http://h/b/k'' ?sv" using sample_good by (simp add: svc_good_def)
  have h: "head_object ?C ''b'' ''k'' sample_store = (Inr (show_nat 0), ?sv)"
    using quiet_store_head [of sample_endpoint "''b''" "''k''" sample_store "show_nat 0" "[7]" "[]" sample_crypto "(''d'', ''s'')",
        unfolded url, OF sample_good log(4,1)] by (simp add: sample_crypto_def) (simp add: sample_store_def)
  obtain sv' where p: "put_object ?C ''b'' ''k'' [5, 97] (Some (show_nat 0)) ?sv = (Inr (show_nat 1), sv')"
    using quiet_put [of sample_endpoint "''b''" "''k''" ?sv "show_nat 0" "[7]" "[]" sample_crypto "(''d'', ''s'')",
        unfolded url, OF g log(3,2), of "new_signer ''r''" sample_credentials "[5, 97]"]
    by (auto simp: sample_crypto_def sample_store_def)
  have head: "s3_head (client_backend ?C) (with_if_match_state sample_store ''b'' ''k'' Supported)
      = (Inr (Some (show_nat 0)), (with_if_match_state ?sv ''b'' ''k'' Supported)\<lparr>st_cached := Some (show_nat 0)\<rparr>)"
    using h by (simp add: s3_head_def client_backend_def with_if_match_state_def on_net_def)
  have put: "s3_put (client_backend ?C) [5, 97] (Some (show_nat 0))
      ((with_if_match_state ?sv ''b'' ''k'' Supported)\<lparr>st_cached := Some (show_nat 0)\<rparr>)
      = (Inr (show_nat 1), (with_if_match_state sv' ''b'' ''k'' Supported)\<lparr>st_cached := Some (show_nat 1)\<rparr>)"
    using p by (simp add: s3_put_def s3_put_enforced_def client_backend_def with_if_match_state_def on_net_def abind_def
        set_cached_version_def)
  show ?thesis
    by (simp add: run_state_machine_def abind_def on_transport_def s3_setup_def s3_transport_ops_def url head s3_world_def ping_def
        default_options_def read_vault_bytes_def on_disk_act_def toy_vault_def toy_disk_def empty_disk_def disk_read_def
        pop_trouble_def push_local_def put)
qed

theorem sync_over_s3_effects_witness:
  "\<exists>p w'. run_state_machine s3_setup (Some (show_nat 0)) None default_options s3_world = (Inr (Pushed False, p), w')
    \<and> outcome_holds s3_setup default_options (sv_log (st_net (sw_transport w'))) (Some (show_nat 0)) None s3_world (Pushed False) p w'"
proof -
  obtain p w' where r: "run_state_machine s3_setup (Some (show_nat 0)) None default_options s3_world = (Inr (Pushed False, p), w')"
    using s3_push by blast
  have s: "ss_transport s3_setup = store_ops sample_crypto (new_signer ''r'') sample_endpoint sample_credentials ''b'' ''k''"
    by (simp add: s3_setup_def)
  have g: "net_good (svc_good (object_url sample_endpoint ''b'' ''k'')) ''b'' ''k'' (sw_transport s3_world)"
    using sample_good by (simp add: net_good_def with_if_match_state_def s3_world_def sample_url)
  from sync_over_s3_effects [OF s g _ r] r show ?thesis by (auto simp: issued_def)
qed

end
