(* ===== verification/Registry.thy ===== *)
theory Registry
  imports Disk
begin

text \<open>
  The vault registry (\<open>falach-core/src/registry.rs\<close>): the named vaults of \<open>vaults.toml\<close>,
  loaded, edited in memory and saved under a lock with optimistic conflict detection. TOML
  parsing and printing belong to the toml crate: they are the record \<open>toml\<close>, over any type
  \<open>'tv\<close> of TOML values. File contents are bytes; a lock handle is an argument.
\<close>

section \<open>Paths (paths.rs)\<close>

record falach_paths =
  fp_state_dir :: path
  fp_config_dir :: path
  fp_registry_file :: "path option"

definition from_home :: "path \<Rightarrow> path option \<Rightarrow> falach_paths" where
  "from_home home xdg = \<lparr>fp_state_dir = home @ [''.local'', ''state'', ''falach''],
     fp_config_dir = (case xdg of None \<Rightarrow> home @ [''.config'', ''falach''] | Some x \<Rightarrow> x @ [''falach'']),
     fp_registry_file = None\<rparr>"

text \<open>An empty environment variable is the empty path.\<close>

definition from_env_values :: "path option \<Rightarrow> path option \<Rightarrow> vault_error + falach_paths" where
  "from_env_values home xdg = (case home of
     None \<Rightarrow> Inl HomeUnresolvable
   | Some h \<Rightarrow> if h = [] then Inl HomeUnresolvable
       else Inr (from_home h (case xdg of None \<Rightarrow> None | Some x \<Rightarrow> if x = [] then None else Some x)))"

definition with_state_dir :: "path \<Rightarrow> falach_paths" where
  "with_state_dir dir = \<lparr>fp_state_dir = dir, fp_config_dir = dir, fp_registry_file = None\<rparr>"

definition with_registry_file :: "path \<Rightarrow> falach_paths" where
  "with_registry_file f =
     (let dir = (case path_parent f of Some p \<Rightarrow> if p \<noteq> [] then p else [''.''] | None \<Rightarrow> [''.''])
      in \<lparr>fp_state_dir = dir, fp_config_dir = dir, fp_registry_file = Some f\<rparr>)"

definition vaults_toml :: "falach_paths \<Rightarrow> path" where
  "vaults_toml p = (case fp_registry_file p of Some f \<Rightarrow> f | None \<Rightarrow> fp_state_dir p @ [''vaults.toml''])"

definition config_toml :: "falach_paths \<Rightarrow> path" where
  "config_toml p = fp_config_dir p @ [''config.toml'']"

section \<open>Data\<close>

record 'tv registered_vault =
  rv_name :: string
  rv_path :: path
  rv_created_at :: string
  rv_keyfile_path :: "path option"
  rv_extra :: "(string, 'tv) hmap"

record 'tv on_disk =
  od_version :: nat
  od_vaults :: "'tv registered_vault list"
  od_extra :: "(string, 'tv) hmap"

record 'tv toml =
  toml_parse :: "bytes \<Rightarrow> nat + 'tv on_disk"
  toml_print :: "'tv on_disk \<Rightarrow> nat + bytes"

record 'tv registry =
  reg_paths :: falach_paths
  reg_version :: nat
  reg_vaults :: "'tv registered_vault list"
  reg_extra :: "(string, 'tv) hmap"
  reg_baseline :: "bytes option"

definition schema_version :: nat where
  "schema_version = 1"

section \<open>Loading and saving\<close>

definition with_paths :: "falach_paths \<Rightarrow> 'tv registry" where
  "with_paths paths = \<lparr>reg_paths = paths, reg_version = schema_version, reg_vaults = [], reg_extra = [],
     reg_baseline = None\<rparr>"

definition registry_load :: "'tv toml \<Rightarrow> falach_paths \<Rightarrow> (disk, vault_error, 'tv registry) act" where
  "registry_load C paths d = (case disk_read (vaults_toml paths) d of
     (Inl IoNotFound, d') \<Rightarrow> (Inr (with_paths paths), d')
   | (Inl e, d') \<Rightarrow> (Inl (VIo e (vaults_toml paths)), d')
   | (Inr contents, d') \<Rightarrow> (case toml_parse C contents of
         Inl e \<Rightarrow> (Inl (RegistryMalformed (Some e)), d')
       | Inr od \<Rightarrow>
           if od_version od \<noteq> schema_version then (Inl (RegistryMalformed None), d')
           else (Inr \<lparr>reg_paths = paths, reg_version = od_version od, reg_vaults = od_vaults od,
                   reg_extra = od_extra od, reg_baseline = Some contents\<rparr>, d')))"

definition on_disk_of :: "'tv registry \<Rightarrow> 'tv on_disk" where
  "on_disk_of r = \<lparr>od_version = schema_version, od_vaults = reg_vaults r, od_extra = reg_extra r\<rparr>"

definition save_unlocked :: "'tv toml \<Rightarrow> 'tv registry \<Rightarrow> (disk, vault_error, 'tv registry) act" where
  "save_unlocked C r = (case toml_print C (on_disk_of r) of
     Inl e \<Rightarrow> athrow (RegistrySerializationFailed e)
   | Inr body \<Rightarrow> abind (disk_write (vaults_toml (reg_paths r)) body) (\<lambda>_. areturn (r\<lparr>reg_baseline := Some body\<rparr>)))"

text \<open>\<open>paths.ensure_exists\<close>, then the lock, held for the body and dropped on every exit.\<close>

definition guarded :: "falach_paths \<Rightarrow> nat \<Rightarrow> (disk, vault_error, 'a) act \<Rightarrow> (disk, vault_error, 'a) act" where
  "guarded paths h body =
     abind (aerr vio (disk_op id)) (\<lambda>_.
     abind (disk_lock Exclusive (vaults_toml paths) h) (\<lambda>_ d.
       (case body d of (r, d') \<Rightarrow> (r, d'\<lparr>d_locks := release h (d_locks d')\<rparr>))))"

definition registry_save :: "'tv toml \<Rightarrow> 'tv registry \<Rightarrow> nat \<Rightarrow> (disk, vault_error, 'tv registry) act" where
  "registry_save C r h = guarded (reg_paths r) h (\<lambda>d.
     case disk_read (vaults_toml (reg_paths r)) d of
       (Inl e, d') \<Rightarrow>
         if e = IoNotFound
         then (if reg_baseline r \<noteq> None then (Inl RegistryChanged, d') else save_unlocked C r d')
         else (Inl (VIo e (vaults_toml (reg_paths r))), d')
     | (Inr contents, d') \<Rightarrow>
         if Some contents \<noteq> reg_baseline r then (Inl RegistryChanged, d') else save_unlocked C r d')"

section \<open>Editing\<close>

definition registry_get :: "'tv registry \<Rightarrow> string \<Rightarrow> 'tv registered_vault option" where
  "registry_get r n = List.find (\<lambda>v. rv_name v = n) (reg_vaults r)"

definition register :: "'tv registered_vault \<Rightarrow> 'tv registry \<Rightarrow> vault_error + 'tv registry" where
  "register v r =
     (if list_ex (\<lambda>w. rv_name w = rv_name v) (reg_vaults r) then Inl (AlreadyRegistered (rv_name v))
      else Inr (r\<lparr>reg_vaults := reg_vaults r @ [v]\<rparr>))"

fun position :: "('a \<Rightarrow> bool) \<Rightarrow> 'a list \<Rightarrow> nat option" where
  "position P [] = None"
| "position P (x # xs) = (if P x then Some 0 else map_option Suc (position P xs))"

definition deregister_entry :: "string \<Rightarrow> 'tv registry \<Rightarrow> vault_error + 'tv registered_vault \<times> 'tv registry" where
  "deregister_entry n r = (case position (\<lambda>v. rv_name v = n) (reg_vaults r) of
     None \<Rightarrow> Inl (NotRegistered n)
   | Some i \<Rightarrow> Inr (reg_vaults r ! i, r\<lparr>reg_vaults := take i (reg_vaults r) @ drop (Suc i) (reg_vaults r)\<rparr>))"

definition deregister :: "'tv registry \<Rightarrow> string \<Rightarrow> bool \<Rightarrow> (disk, vault_error, 'tv registered_vault \<times> 'tv registry) act" where
  "deregister r n delete_file =
     abind (aresult (deregister_entry n r)) (\<lambda>(v, r') d.
       if delete_file
       then (case disk_remove (rv_path v) d of
           (Inl e, d') \<Rightarrow> if e = IoNotFound then (Inr (v, r'), d') else (Inl (VIo e (rv_path v)), d')
         | (Inr _, d') \<Rightarrow> (Inr (v, r'), d'))
       else (Inr (v, r'), d))"

text \<open>The edit of the first entry of that name, as \<open>iter_mut().find\<close> reaches it.\<close>

fun edit_first :: "('a \<Rightarrow> bool) \<Rightarrow> ('a \<Rightarrow> 'a) \<Rightarrow> 'a list \<Rightarrow> 'a list option" where
  "edit_first P g [] = None"
| "edit_first P g (x # xs) = (if P x then Some (g x # xs) else map_option (Cons x) (edit_first P g xs))"

definition update_registered_extra ::
    "'tv toml \<Rightarrow> 'tv registry \<Rightarrow> string \<Rightarrow> ((string, 'tv) hmap \<Rightarrow> (string, 'tv) hmap) \<Rightarrow> nat \<Rightarrow>
     (disk, vault_error, 'tv registry) act" where
  "update_registered_extra C r n upd h = guarded (reg_paths r) h
     (abind (registry_load C (reg_paths r)) (\<lambda>latest.
        case edit_first (\<lambda>v. rv_name v = n) (\<lambda>v. v\<lparr>rv_extra := upd (rv_extra v)\<rparr>) (reg_vaults latest) of
          None \<Rightarrow> athrow (NotRegistered n)
        | Some vs \<Rightarrow> save_unlocked C (latest\<lparr>reg_vaults := vs\<rparr>)))"

section \<open>A catalogue of named entries\<close>

text \<open>
  What the sync layer asks of the registry: entries found by name, added under a free name
  and removed by name. \<open>replace\<close> is the clone-deregister-register update it uses.
\<close>

locale catalogue =
  fixes look :: "'r \<Rightarrow> string \<Rightarrow> 'v option"
    and name_of :: "'v \<Rightarrow> string"
    and add :: "'v \<Rightarrow> 'r \<Rightarrow> 'e + 'r"
    and drop_name :: "string \<Rightarrow> 'r \<Rightarrow> 'e + 'v \<times> 'r"
    and unique :: "'r \<Rightarrow> bool"
  assumes look_name: "look r n = Some v \<Longrightarrow> name_of v = n"
    and add_free: "unique r \<Longrightarrow> look r (name_of v) = None \<Longrightarrow>
      \<exists>r'. add v r = Inr r' \<and> unique r' \<and> look r' = (look r)(name_of v \<mapsto> v)"
    and drop_present: "unique r \<Longrightarrow> look r n = Some v \<Longrightarrow>
      \<exists>r'. drop_name n r = Inr (v, r') \<and> unique r' \<and> look r' = (look r)(n := None)"
begin

lemma replace_entry:
  assumes "unique r" "look r n = Some v" "name_of v' = n"
  shows "\<exists>r'. rbind (drop_name n r) (\<lambda>(_, r'). add v' r') = Inr r' \<and> unique r' \<and> look r' = (look r)(n \<mapsto> v')"
proof -
  from drop_present [OF assms(1,2)] obtain r1 where
    r1: "drop_name n r = Inr (v, r1)" "unique r1" "look r1 = (look r)(n := None)" by blast
  with add_free [OF r1(2), of v'] assms(3) show ?thesis by auto
qed

end

definition unique_names :: "'tv registry \<Rightarrow> bool" where
  "unique_names r = distinct (map rv_name (reg_vaults r))"

lemma position_Some:
  "position P xs = Some i \<Longrightarrow> i < length xs \<and> P (xs ! i) \<and> (\<forall>j < i. \<not> P (xs ! j))"
  by (induction xs arbitrary: i) (auto simp: nth_Cons split: if_splits nat.splits)

lemma position_None: "position P xs = None \<longleftrightarrow> (\<forall>x \<in> set xs. \<not> P x)"
  by (induction xs) auto

lemma find_position: "List.find P xs = map_option (\<lambda>i. xs ! i) (position P xs)"
  by (induction xs) (auto simp: option.map_comp o_def)

lemma find_unique:
  assumes "distinct (map rv_name vs)"
  shows "List.find (\<lambda>v. rv_name v = n) vs = Some v \<longleftrightarrow> v \<in> set vs \<and> rv_name v = n"
proof
  assume "v \<in> set vs \<and> rv_name v = n"
  with assms show "List.find (\<lambda>v. rv_name v = n) vs = Some v"
    by (induction vs) (auto simp: rev_image_eqI)
qed (metis (mono_tags, lifting) find_Some_iff nth_mem)

lemma get_unique:
  "unique_names r \<Longrightarrow> registry_get r n = Some v \<longleftrightarrow> v \<in> set (reg_vaults r) \<and> rv_name v = n"
  by (simp add: unique_names_def registry_get_def find_unique)

lemma register_catalogue:
  assumes "unique_names r" "registry_get r (rv_name v) = None"
  shows "\<exists>r'. register v r = Inr r' \<and> unique_names r' \<and> registry_get r' = (registry_get r)(rv_name v \<mapsto> v)"
proof -
  have new: "rv_name w \<noteq> rv_name v" if "w \<in> set (reg_vaults r)" for w
    using assms(2) that by (auto simp: registry_get_def find_None_iff)
  let ?r = "r\<lparr>reg_vaults := reg_vaults r @ [v]\<rparr>"
  have "rv_name v \<notin> rv_name ` set (reg_vaults r)" using new by (metis imageE)
  then have u: "unique_names ?r" using assms(1) by (simp add: unique_names_def)
  have "registry_get ?r n = ((registry_get r)(rv_name v \<mapsto> v)) n" for n
    by (rule option_ext) (use new in \<open>auto simp: get_unique [OF u] get_unique [OF assms(1)]\<close>)
  moreover have "register v r = Inr ?r"
    using new by (auto simp: register_def list_ex_iff)
  ultimately show ?thesis using u by blast
qed

lemma deregister_catalogue:
  assumes "unique_names r" "registry_get r n = Some v"
  shows "\<exists>r'. deregister_entry n r = Inr (v, r') \<and> unique_names r' \<and> registry_get r' = (registry_get r)(n := None)"
proof -
  from assms(2) obtain i where i: "position (\<lambda>v. rv_name v = n) (reg_vaults r) = Some i" "reg_vaults r ! i = v"
    by (auto simp: registry_get_def find_position)
  define A where "A = take i (reg_vaults r)"
  define B where "B = drop (Suc i) (reg_vaults r)"
  from position_Some [OF i(1)] i(2) have len: "i < length (reg_vaults r)" and name: "rv_name v = n" by auto
  have split: "reg_vaults r = A @ v # B" using id_take_nth_drop [OF len] i(2) by (simp add: A_def B_def)
  let ?r = "r\<lparr>reg_vaults := A @ B\<rparr>"
  have dist: "distinct (map rv_name (A @ v # B))" using assms(1) split unfolding unique_names_def by metis
  then have u: "unique_names ?r" by (auto simp: unique_names_def)
  have mem: "w \<in> set (reg_vaults r) \<longleftrightarrow> w = v \<or> w \<in> set A \<or> w \<in> set B" for w
    by (subst split) auto
  have others: "rv_name w \<noteq> n" if "w \<in> set A \<or> w \<in> set B" for w
  proof -
    have "rv_name v \<notin> rv_name ` (set A \<union> set B)" using dist by auto
    with that name show ?thesis by (metis UnI1 UnI2 imageI)
  qed
  have "registry_get ?r m = ((registry_get r)(n := None)) m" for m
  proof (cases "m = n")
    case True
    then show ?thesis using others by (auto simp: registry_get_def find_None_iff)
  next
    case False
    show ?thesis
    proof (rule option_ext)
      fix y
      have "y \<noteq> v" if "rv_name y = m" using that name False by metis
      with False show "(registry_get ?r m = Some y) = (((registry_get r)(n := None)) m = Some y)"
        unfolding get_unique [OF u] fun_upd_other [OF False] get_unique [OF assms(1)] mem by auto
    qed
  qed
  moreover have "deregister_entry n r = Inr (v, ?r)" using i by (simp add: deregister_entry_def A_def B_def)
  ultimately show ?thesis using u by blast
qed

interpretation registry_cat: catalogue registry_get rv_name register deregister_entry unique_names
proof
  show "registry_get r n = Some v \<Longrightarrow> rv_name v = n" for r :: "'a registry" and n v
    by (auto simp: registry_get_def find_Some_iff)
qed (rule register_catalogue deregister_catalogue; assumption)+

section \<open>Saving\<close>

lemma save_unlocked_cases:
  assumes "save_unlocked C r d = (res, d')"
  shows "(d_files d' = d_files d
       \<or> (\<exists>body. toml_print C (on_disk_of r) = Inr body \<and> d_files d' = (d_files d)(vaults_toml (reg_paths r) \<mapsto> body)))
    \<and> (\<forall>r'. res = Inr r' \<longrightarrow> (\<exists>body. toml_print C (on_disk_of r) = Inr body
         \<and> d_files d' = (d_files d)(vaults_toml (reg_paths r) \<mapsto> body) \<and> r' = r\<lparr>reg_baseline := Some body\<rparr>))"
proof (cases "toml_print C (on_disk_of r)")
  case (Inr body)
  obtain w d1 where w: "disk_write (vaults_toml (reg_paths r)) body d = (w, d1)" by fastforce
  from disk_write_cases [OF w] assms Inr w show ?thesis
    by (cases w) (auto simp: save_unlocked_def abind_def)
qed (use assms in \<open>auto simp: save_unlocked_def\<close>)

lemma disk_op_id_files: "disk_op id d = (res, d') \<Longrightarrow> d_files d' = d_files d"
  by (auto simp: disk_op_def pop_trouble_def split: list.splits option.splits disk_trouble.splits)

lemma disk_lock_files: "disk_lock k p h d = (res, d') \<Longrightarrow> d_files d' = d_files d"
  by (auto simp: disk_lock_def pop_trouble_def split: list.splits option.splits prod.splits)

text \<open>A guarded body runs on the files it finds, or not at all.\<close>

lemma guarded_cases:
  assumes "guarded paths h body d = (res, d')"
  shows "(\<exists>e. res = Inl e \<and> d_files d' = d_files d)
    \<or> (\<exists>d1 d2. d_files d1 = d_files d \<and> body d1 = (res, d2) \<and> d_files d' = d_files d2)"
proof -
  obtain r1 d1 where 1: "disk_op id d = (r1, d1)" by fastforce
  obtain r2 d2 where 2: "disk_lock Exclusive (vaults_toml paths) h d1 = (r2, d2)" by fastforce
  obtain r3 d3 where 3: "body d2 = (r3, d3)" by fastforce
  from assms 1 2 3 disk_op_id_files [OF 1] disk_lock_files [OF 2] show ?thesis
    by (cases r1; cases r2) (auto simp: guarded_def abind_def aerr_def split: prod.splits)
qed

lemma registry_save_cases:
  assumes "registry_save C r h d = (res, d')"
  shows "(\<exists>e. res = Inl e \<and> d_files d' = d_files d)
    \<or> (d_files d (vaults_toml (reg_paths r)) = reg_baseline r
       \<and> (\<exists>body. toml_print C (on_disk_of r) = Inr body \<and> d_files d' = (d_files d)(vaults_toml (reg_paths r) \<mapsto> body)
            \<and> (\<forall>r'. res = Inr r' \<longrightarrow> r' = r\<lparr>reg_baseline := Some body\<rparr>)))"
proof -
  let ?T = "vaults_toml (reg_paths r)"
  from guarded_cases [OF assms [unfolded registry_save_def]] show ?thesis
  proof (elim disjE exE conjE)
    fix d1 d2
    let ?body = "\<lambda>d. case disk_read ?T d of
       (Inl e, d') \<Rightarrow> if e = IoNotFound then if reg_baseline r \<noteq> None then (Inl RegistryChanged, d') else save_unlocked C r d'
         else (Inl (VIo e ?T), d')
     | (Inr contents, d') \<Rightarrow> if Some contents \<noteq> reg_baseline r then (Inl RegistryChanged, d') else save_unlocked C r d'"
    assume f: "d_files d1 = d_files d" "d_files d' = d_files d2" and b: "?body d1 = (res, d2)"
    obtain rd d3 where rd: "disk_read ?T d1 = (rd, d3)" by fastforce
    note rd' = disk_read_files [OF rd]
    consider e where "res = Inl e" "d2 = d3" | "d_files d1 ?T = reg_baseline r" "save_unlocked C r d3 = (res, d2)"
      using b rd rd' by (cases rd) (auto split: if_splits)
    then show ?thesis
    proof cases
      case 1
      with f rd' show ?thesis by simp
    next
      case 2
      from save_unlocked_cases [OF 2(2)] 2(1) f rd' show ?thesis
        by (cases res) auto
    qed
  qed simp
qed

text \<open>C11: no lost update of the registry. Two registries were loaded from the same file, and the first is saved. The
  save replaces exactly the contents it was loaded from. Saving the other afterwards is refused and changes no file,
  unless the first save wrote the very bytes that were there, so that there is no change to lose.\<close>

theorem registry_no_lost_update:
  assumes "reg_paths r2 = reg_paths r1" "reg_baseline r2 = reg_baseline r1"
    and "registry_save C r1 h1 d = (Inr r1', d1)"
    and "registry_save C r2 h2 d1 = (res, d2)"
  shows "d_files d (vaults_toml (reg_paths r1)) = reg_baseline r1
    \<and> (\<exists>body. toml_print C (on_disk_of r1) = Inr body \<and> d_files d1 = (d_files d)(vaults_toml (reg_paths r1) \<mapsto> body)
        \<and> (if Some body = reg_baseline r1 then d_files d1 = d_files d else (\<exists>e. res = Inl e) \<and> d_files d2 = d_files d1))"
proof -
  let ?p = "vaults_toml (reg_paths r1)"
  from registry_save_cases [OF assms(3)] obtain body where
    b: "d_files d ?p = reg_baseline r1" "toml_print C (on_disk_of r1) = Inr body" "d_files d1 = (d_files d)(?p \<mapsto> body)" by auto
  have "d_files d1 = d_files d" if "Some body = reg_baseline r1" using b(1,3) that by (simp add: fun_upd_idem)
  moreover have "(\<exists>e. res = Inl e) \<and> d_files d2 = d_files d1" if "Some body \<noteq> reg_baseline r1"
    using registry_save_cases [OF assms(4)] b(3) that assms(1,2) by auto
  ultimately show ?thesis using b by auto
qed

lemma edit_first_get:
  "edit_first (\<lambda>v. rv_name v = n) (\<lambda>v. v\<lparr>rv_extra := upd (rv_extra v)\<rparr>) vs = Some vs' \<Longrightarrow>
   \<exists>v. List.find (\<lambda>v. rv_name v = n) vs = Some v \<and> List.find (\<lambda>v. rv_name v = n) vs' = Some (v\<lparr>rv_extra := upd (rv_extra v)\<rparr>)
     \<and> (\<forall>m. m \<noteq> n \<longrightarrow> List.find (\<lambda>v. rv_name v = m) vs' = List.find (\<lambda>v. rv_name v = m) vs)"
  by (induction vs arbitrary: vs') (auto split: if_splits)

lemma registry_load_cases:
  assumes "registry_load C paths d = (Inr r, d')"
  shows "d_files d' = d_files d \<and> reg_paths r = paths
    \<and> (case d_files d (vaults_toml paths) of
         None \<Rightarrow> r = with_paths paths
       | Some c \<Rightarrow> \<exists>od. toml_parse C c = Inr od \<and> od_version od = schema_version \<and> reg_vaults r = od_vaults od
            \<and> reg_extra r = od_extra od \<and> reg_baseline r = Some c)"
proof -
  obtain rd d1 where rd: "disk_read (vaults_toml paths) d = (rd, d1)" by fastforce
  from assms rd disk_read_files [OF rd] show ?thesis
    by (cases rd) (auto simp: registry_load_def with_paths_def split: io_error.splits sum.splits if_splits)
qed

lemma update_extra_cases:
  assumes "update_registered_extra C r n upd h d = (Inr r', d')"
  shows "\<exists>latest d1 v. registry_load C (reg_paths r) d1 = (Inr latest, snd (registry_load C (reg_paths r) d1))
     \<and> d_files d1 = d_files d \<and> registry_get latest n = Some v
     \<and> registry_get r' n = Some (v\<lparr>rv_extra := upd (rv_extra v)\<rparr>)
     \<and> (\<forall>m. m \<noteq> n \<longrightarrow> registry_get r' m = registry_get latest m) \<and> reg_extra r' = reg_extra latest
     \<and> (\<exists>body. toml_print C (on_disk_of r') = Inr body \<and> d_files d' = (d_files d)(vaults_toml (reg_paths r) \<mapsto> body))"
proof -
  let ?E = "edit_first (\<lambda>v. rv_name v = n) (\<lambda>v. v\<lparr>rv_extra := upd (rv_extra v)\<rparr>)"
  let ?body = "abind (registry_load C (reg_paths r)) (\<lambda>latest. case ?E (reg_vaults latest) of
      None \<Rightarrow> athrow (NotRegistered n) | Some vs \<Rightarrow> save_unlocked C (latest\<lparr>reg_vaults := vs\<rparr>))"
  from guarded_cases [OF assms [unfolded update_registered_extra_def]] obtain d1 d2 where
    1: "d_files d1 = d_files d" "?body d1 = (Inr r', d2)" "d_files d' = d_files d2" by auto
  from 1(2) obtain latest d3 where l: "registry_load C (reg_paths r) d1 = (Inr latest, d3)"
    and b: "(case ?E (reg_vaults latest) of
      None \<Rightarrow> athrow (NotRegistered n) | Some vs \<Rightarrow> save_unlocked C (latest\<lparr>reg_vaults := vs\<rparr>)) d3 = (Inr r', d2)"
    unfolding abind_Inr by blast
  from b obtain vs where vs: "?E (reg_vaults latest) = Some vs" and s: "save_unlocked C (latest\<lparr>reg_vaults := vs\<rparr>) d3 = (Inr r', d2)"
    by (auto split: option.splits)
  note lc = registry_load_cases [OF l]
  from save_unlocked_cases [OF s] lc obtain body where
    body: "toml_print C (on_disk_of r') = Inr body" "d_files d2 = (d_files d1)(vaults_toml (reg_paths r) \<mapsto> body)"
      "r' = latest\<lparr>reg_vaults := vs, reg_baseline := Some body\<rparr>"
    by (auto simp: on_disk_of_def)
  from edit_first_get [OF vs] obtain v where v: "registry_get latest n = Some v"
    "registry_get r' n = Some (v\<lparr>rv_extra := upd (rv_extra v)\<rparr>)" "\<forall>m. m \<noteq> n \<longrightarrow> registry_get r' m = registry_get latest m"
    by (auto simp: registry_get_def body(3))
  show ?thesis
    by (intro exI [of _ latest] exI [of _ d1] exI [of _ v]) (use l v body 1 in simp)
qed

text \<open>A field-level update works on the registry as it is on disk, not on the caller's stale
  snapshot: on success every other vault keeps what the disk had, the named vault keeps all but
  its extra table, and the unknown top-level keys survive.\<close>

theorem registry_update_keeps_concurrent:
  assumes "update_registered_extra C r n upd h d = (Inr r', d')" "d_files d (vaults_toml (reg_paths r)) = Some c"
  shows "\<exists>od v body. toml_parse C c = Inr od \<and> List.find (\<lambda>v. rv_name v = n) (od_vaults od) = Some v
     \<and> registry_get r' n = Some (v\<lparr>rv_extra := upd (rv_extra v)\<rparr>)
     \<and> (\<forall>m. m \<noteq> n \<longrightarrow> registry_get r' m = List.find (\<lambda>v. rv_name v = m) (od_vaults od))
     \<and> reg_extra r' = od_extra od
     \<and> toml_print C (on_disk_of r') = Inr body \<and> d_files d' = (d_files d)(vaults_toml (reg_paths r) \<mapsto> body)"
proof -
  from update_extra_cases [OF assms(1)] obtain latest d1 v body where
    l: "registry_load C (reg_paths r) d1 = (Inr latest, snd (registry_load C (reg_paths r) d1))" "d_files d1 = d_files d"
    and v: "registry_get latest n = Some v" "registry_get r' n = Some (v\<lparr>rv_extra := upd (rv_extra v)\<rparr>)"
      "\<forall>m. m \<noteq> n \<longrightarrow> registry_get r' m = registry_get latest m" "reg_extra r' = reg_extra latest"
    and b: "toml_print C (on_disk_of r') = Inr body" "d_files d' = (d_files d)(vaults_toml (reg_paths r) \<mapsto> body)"
    by blast
  from registry_load_cases [OF l(1)] l(2) assms(2) obtain od where
    "toml_parse C c = Inr od" "reg_vaults latest = od_vaults od" "reg_extra latest = od_extra od" by auto
  with v b show ?thesis by (intro exI [of _ od] exI [of _ v] exI [of _ body]) (simp add: registry_get_def)
qed

text \<open>What \<open>save\<close> writes, \<open>load\<close> reads back: the same vaults, the same unknown keys and a
  baseline equal to the file, so the reloaded registry can be saved again.\<close>

theorem registry_save_load_roundtrip:
  assumes "\<And>od b. toml_print C od = Inr b \<Longrightarrow> toml_parse C b = Inr od"
    and "registry_save C r h d = (Inr r', d')" "d_troubles d' = []"
  shows "fst (registry_load C (reg_paths r) d') = Inr (r'\<lparr>reg_version := schema_version\<rparr>)"
proof -
  from registry_save_cases [OF assms(2)] obtain body where
    b: "toml_print C (on_disk_of r) = Inr body" "d_files d' = (d_files d)(vaults_toml (reg_paths r) \<mapsto> body)"
      "r' = r\<lparr>reg_baseline := Some body\<rparr>" by auto
  from assms(1) [OF b(1)] b(2,3) assms(3) show ?thesis
    by (simp add: registry_load_def calm_read on_disk_of_def)
qed

text \<open>A toy codec for the witnesses: it writes how many vaults there are.\<close>

definition sample_vault :: "unit registered_vault" where
  "sample_vault = \<lparr>rv_name = ''a'', rv_path = [''v''], rv_created_at = [], rv_keyfile_path = None, rv_extra = []\<rparr>"

definition toy_toml :: "unit toml" where
  "toy_toml = \<lparr>toml_parse = (\<lambda>b. Inr \<lparr>od_version = 1,
       od_vaults = (if b = [] then [] else [sample_vault]), od_extra = []\<rparr>),
     toml_print = (\<lambda>od. if od = \<lparr>od_version = 1, od_vaults = [], od_extra = []\<rparr> then Inr []
       else if od = \<lparr>od_version = 1, od_vaults = [sample_vault], od_extra = []\<rparr> then Inr [1] else Inl 0)\<rparr>"

definition sample_registry :: "unit registry" where
  "sample_registry = (with_paths (with_state_dir [''s'']))\<lparr>reg_vaults := [sample_vault]\<rparr>"

definition sample_disk :: disk where
  "sample_disk = \<lparr>d_files = (\<lambda>_. None), d_troubles = [], d_locks = [], d_seed = 0\<rparr>"

lemma calm_guarded:
  assumes "d_troubles d = []" "compatible Exclusive (sidecar_lock_path (vaults_toml paths)) (d_locks d)"
  shows "guarded paths h body d = (case body (d\<lparr>d_locks := (sidecar_lock_path (vaults_toml paths), Exclusive, h) # d_locks d\<rparr>)
     of (r, d') \<Rightarrow> (r, d'\<lparr>d_locks := release h (d_locks d')\<rparr>))"
  using assms by (simp add: guarded_def abind_def aerr_def calm_op calm_lock)

lemma sample_save:
  "registry_save toy_toml sample_registry 1 sample_disk =
     (Inr (sample_registry\<lparr>reg_baseline := Some [1]\<rparr>),
      sample_disk\<lparr>d_files := [[''s'', ''vaults.toml''] \<mapsto> [1]]\<rparr>)"
  by (simp add: registry_save_def calm_guarded sample_disk_def compatible_def calm_read save_unlocked_def
      sample_registry_def with_paths_def with_state_dir_def vaults_toml_def toy_toml_def on_disk_of_def
      schema_version_def abind_def disk_write_def aerr_def calm_op release_def)

theorem registry_no_lost_update_witness:
  "\<exists>e. fst (registry_save toy_toml (with_paths (with_state_dir [''s''])) 2
     (sample_disk\<lparr>d_files := [[''s'', ''vaults.toml''] \<mapsto> [1]]\<rparr>)) = Inl e"
proof -
  obtain res d2 where s: "registry_save toy_toml (with_paths (with_state_dir [''s''])) 2
      (sample_disk\<lparr>d_files := [[''s'', ''vaults.toml''] \<mapsto> [1]]\<rparr>) = (res, d2)" by fastforce
  have "reg_paths (with_paths (with_state_dir [''s''])) = reg_paths sample_registry"
    "reg_baseline (with_paths (with_state_dir [''s''])) = reg_baseline sample_registry" "reg_baseline sample_registry = None"
    by (simp_all add: sample_registry_def with_paths_def)
  from registry_no_lost_update [OF this(1,2) sample_save s] this(3) s show ?thesis by auto
qed

theorem registry_save_load_roundtrip_witness:
  "fst (registry_load toy_toml (with_state_dir [''s'']) (sample_disk\<lparr>d_files := [[''s'', ''vaults.toml''] \<mapsto> [1]]\<rparr>))
     = Inr (sample_registry\<lparr>reg_baseline := Some [1]\<rparr>)"
proof -
  have rt: "toml_print toy_toml od = Inr b \<Longrightarrow> toml_parse toy_toml b = Inr od" for od b
    by (auto simp: toy_toml_def split: if_splits)
  from registry_save_load_roundtrip [OF rt sample_save] show ?thesis
    by (simp add: sample_disk_def sample_registry_def with_paths_def schema_version_def)
qed

theorem registry_update_keeps_concurrent_witness:
  "\<exists>r' d' body. update_registered_extra toy_toml (with_paths (with_state_dir [''s''])) ''a'' id 1
       (sample_disk\<lparr>d_files := [[''s'', ''vaults.toml''] \<mapsto> [1]]\<rparr>) = (Inr r', d')
     \<and> toml_print toy_toml (on_disk_of r') = Inr body \<and> d_files d' [''s'', ''vaults.toml''] = Some body"
proof -
  obtain r' d' where u: "update_registered_extra toy_toml (with_paths (with_state_dir [''s''])) ''a'' id 1
       (sample_disk\<lparr>d_files := [[''s'', ''vaults.toml''] \<mapsto> [1]]\<rparr>) = (Inr r', d')"
    by (simp add: update_registered_extra_def calm_guarded sample_disk_def compatible_def registry_load_def
        calm_read save_unlocked_def with_paths_def with_state_dir_def vaults_toml_def toy_toml_def sample_vault_def
        on_disk_of_def schema_version_def abind_def disk_write_def aerr_def calm_op)
  from registry_update_keeps_concurrent [OF u, of "[1]"] u show ?thesis
    by (auto simp: with_paths_def with_state_dir_def vaults_toml_def)
qed

end
