(* ===== verification/SyncDriver.thy ===== *)
theory SyncDriver
  imports ObjectStore Registry
begin

text \<open>
  The sync driver: the per-vault configuration (\<open>falach-sync/src/config.rs\<close>), the operations around the
  state machine that read and persist it (\<open>sync.rs\<close>: \<open>configure_remote\<close>, \<open>sync_now\<close>,
  \<open>sync_now_with_transport\<close>) and the log line (\<open>sync_log.rs\<close>). The serde conversion of a configuration to
  and from a TOML value is the record \<open>config_codec\<close>; credential discovery, HTTP and the clock are the
  record \<open>s3_env\<close>. The registry is in memory and, under its lock, on the same disk as the vault.
\<close>

section \<open>Configuration\<close>

record ('cred, 'tv) s3_config =
  s3_bucket :: string
  s3_key :: string
  s3_endpoint :: "string option"
  s3_region :: string
  s3_path_style :: bool
  s3_credentials :: 'cred
  s3_if_match :: if_match_support
  s3_extra :: "(string, 'tv) hmap"

datatype transport_kind = S3Kind

record ('cred, 'tv) sync_config =
  sc_kind :: transport_kind
  sc_s3 :: "('cred, 'tv) s3_config option"
  sc_etag :: "string option"
  sc_sha :: "string option"
  sc_extra :: "(string, 'tv) hmap"

definition new_s3_config :: "string \<Rightarrow> string \<Rightarrow> string \<Rightarrow> 'cred \<Rightarrow> ('cred, 'tv) s3_config" where
  "new_s3_config bucket key region cred = \<lparr>s3_bucket = bucket, s3_key = key, s3_endpoint = None, s3_region = region,
     s3_path_style = False, s3_credentials = cred, s3_if_match = Unknown, s3_extra = []\<rparr>"

definition set_endpoint :: "string option \<Rightarrow> ('cred, 'tv) s3_config \<Rightarrow> ('cred, 'tv) s3_config" where
  "set_endpoint e c = c\<lparr>s3_endpoint := e, s3_if_match := Unknown\<rparr>"

definition set_bucket :: "string \<Rightarrow> ('cred, 'tv) s3_config \<Rightarrow> ('cred, 'tv) s3_config" where
  "set_bucket b c = c\<lparr>s3_bucket := b, s3_if_match := Unknown\<rparr>"

definition set_key :: "string \<Rightarrow> ('cred, 'tv) s3_config \<Rightarrow> ('cred, 'tv) s3_config" where
  "set_key k c = c\<lparr>s3_key := k, s3_if_match := Unknown\<rparr>"

definition set_path_style :: "bool \<Rightarrow> ('cred, 'tv) s3_config \<Rightarrow> ('cred, 'tv) s3_config" where
  "set_path_style p c = c\<lparr>s3_path_style := p\<rparr>"

definition set_credentials :: "'cred \<Rightarrow> ('cred, 'tv) s3_config \<Rightarrow> ('cred, 'tv) s3_config" where
  "set_credentials cr c = c\<lparr>s3_credentials := cr\<rparr>"

definition set_if_match_supported :: "if_match_support \<Rightarrow> ('cred, 'tv) s3_config \<Rightarrow> ('cred, 'tv) s3_config" where
  "set_if_match_supported s c = c\<lparr>s3_if_match := s\<rparr>"

definition config_s3 :: "('cred, 'tv) s3_config \<Rightarrow> ('cred, 'tv) sync_config" where
  "config_s3 c = \<lparr>sc_kind = S3Kind, sc_s3 = Some c, sc_etag = None, sc_sha = None, sc_extra = []\<rparr>"

record ('cred, 'tv) config_codec =
  cc_print :: "('cred, 'tv) sync_config \<Rightarrow> 'tv"
  cc_parse :: "'tv \<Rightarrow> ('cred, 'tv) sync_config option"

definition sync_key :: string where
  "sync_key = ''sync''"

definition from_vault_entry :: "('cred, 'tv) config_codec \<Rightarrow> 'tv registered_vault \<Rightarrow> ('cred, 'tv) sync_config option" where
  "from_vault_entry D v = Option.bind (hget (rv_extra v) sync_key) (cc_parse D)"

definition to_vault_entry :: "('cred, 'tv) config_codec \<Rightarrow> ('cred, 'tv) sync_config \<Rightarrow> 'tv registered_vault \<Rightarrow> 'tv registered_vault" where
  "to_vault_entry D c v = v\<lparr>rv_extra := hput sync_key (cc_print D c) (rv_extra v)\<rparr>"

fun find_map :: "('a \<Rightarrow> 'b option) \<Rightarrow> 'a list \<Rightarrow> 'b option" where
  "find_map f [] = None"
| "find_map f (x # xs) = (case f x of None \<Rightarrow> find_map f xs | Some y \<Rightarrow> Some y)"

definition target_of :: "('cred, 'tv) config_codec \<Rightarrow> 'tv registered_vault \<Rightarrow> string option" where
  "target_of D v = Option.bind (from_vault_entry D v) (\<lambda>c. map_option (\<lambda>s.
     canonicalize_target (s3_endpoint s) (s3_bucket s) (s3_key s)) (sc_s3 c))"

definition find_duplicate_target ::
    "('cred, 'tv) config_codec \<Rightarrow> 'tv registry \<Rightarrow> string option \<Rightarrow> string \<Rightarrow> string \<Rightarrow> string option \<Rightarrow> string option" where
  "find_duplicate_target D r endpoint bucket key exclude =
     (let target = canonicalize_target endpoint bucket key
      in find_map (\<lambda>v. if target_of D v = Some target then Some (rv_name v) else None)
           (filter (\<lambda>v. case exclude of Some n \<Rightarrow> rv_name v \<noteq> n | None \<Rightarrow> True) (reg_vaults r)))"

section \<open>Driver\<close>

record ('db, 'key, 't, 'tv) driver_world =
  dw_sync :: "('db, 'key, 't) sync_world"
  dw_registry :: "'tv registry"

type_synonym ('db, 'key, 't, 'tv, 'a) driver_act = "(('db, 'key, 't, 'tv) driver_world, sync_error, 'a) act"

text \<open>Clone, deregister, register; a failing registration leaves the entry out of the registry in memory.\<close>

definition update_registry_sync_block ::
    "('cred, 'tv) config_codec \<Rightarrow> string \<Rightarrow> ('cred, 'tv) sync_config \<Rightarrow> 'tv registry \<Rightarrow> (sync_error + unit) \<times> 'tv registry" where
  "update_registry_sync_block D name cfg r = (case registry_get r name of
     None \<Rightarrow> (Inl (SyncVault (NotRegistered name)), r)
   | Some original \<Rightarrow> (case deregister_entry name r of
         Inl e \<Rightarrow> (Inl (SyncVault e), r)
       | Inr (_, r1) \<Rightarrow> (case register (to_vault_entry D cfg original) r1 of
             Inl e \<Rightarrow> (Inl (SyncVault e), r1)
           | Inr r2 \<Rightarrow> (Inr (), r2))))"

definition block_act ::
    "('cred, 'tv) config_codec \<Rightarrow> string \<Rightarrow> ('cred, 'tv) sync_config \<Rightarrow> ('db, 'key, 't, 'tv, unit) driver_act" where
  "block_act D name cfg w = (case update_registry_sync_block D name cfg (dw_registry w) of
     (r, reg) \<Rightarrow> (r, w\<lparr>dw_registry := reg\<rparr>))"

definition save_act :: "'tv toml \<Rightarrow> nat \<Rightarrow> ('db, 'key, 't, 'tv, unit) driver_act" where
  "save_act C h w = (case registry_save C (dw_registry w) h (sw_disk (dw_sync w)) of
     (Inl e, d) \<Rightarrow> (Inl (SyncVault e), w\<lparr>dw_sync := (dw_sync w)\<lparr>sw_disk := d\<rparr>\<rparr>)
   | (Inr reg, d) \<Rightarrow> (Inr (), w\<lparr>dw_sync := (dw_sync w)\<lparr>sw_disk := d\<rparr>, dw_registry := reg\<rparr>))"

definition persist_config ::
    "'tv toml \<Rightarrow> ('cred, 'tv) config_codec \<Rightarrow> nat \<Rightarrow> string \<Rightarrow> ('cred, 'tv) sync_config \<Rightarrow> ('db, 'key, 't, 'tv, unit) driver_act" where
  "persist_config C D h name cfg = abind (block_act D name cfg) (\<lambda>_. save_act C h)"

definition sync_now_with_transport ::
    "'tv toml \<Rightarrow> ('cred, 'tv) config_codec \<Rightarrow> nat \<Rightarrow> ('db, 'key, 't, 'e) sync_setup \<Rightarrow> string \<Rightarrow> ('cred, 'tv) sync_config \<Rightarrow>
     sync_options \<Rightarrow> (('cred, 'tv) sync_config \<Rightarrow> 't \<Rightarrow> ('cred, 'tv) sync_config) \<Rightarrow>
     ('db, 'key, 't, 'tv, sync_outcome) driver_act" where
  "sync_now_with_transport C D h S name cfg opts update_cfg w =
     (case run_state_machine S (sc_etag cfg) (sc_sha cfg) opts (dw_sync w) of (result, sw) \<Rightarrow>
      let cfg1 = update_cfg cfg (sw_transport sw); w1 = w\<lparr>dw_sync := sw\<rparr>
      in case result of
           Inr (outcome, pointers) \<Rightarrow>
             abind (persist_config C D h name
                 (cfg1\<lparr>sc_etag := sp_remote_etag pointers, sc_sha := sp_local_sha256 pointers\<rparr>)) (\<lambda>_.
             areturn outcome) w1
         | Inl err \<Rightarrow> (Inl err, snd (persist_config C D h name cfg1 w1)))"

section \<open>Configuring and starting a sync\<close>

text \<open>The text of an endpoint error is display only; \<open>''malformed endpoint''\<close> stands for it.\<close>

definition malformed_endpoint :: sync_error where
  "malformed_endpoint = SyncS3 (S3Unexpected 0 ''malformed endpoint'')"

definition endpoint_of :: "('cred, 'tv) s3_config \<Rightarrow> sync_error + endpoint_builder" where
  "endpoint_of s = map_err (\<lambda>_. malformed_endpoint)
     (from_config \<lparr>ec_endpoint = s3_endpoint s, ec_region = s3_region s, ec_bucket = s3_bucket s,
        ec_force_path_style = s3_path_style s\<rparr>)"

definition configure_remote ::
    "'tv toml \<Rightarrow> ('cred, 'tv) config_codec \<Rightarrow> nat \<Rightarrow> string \<Rightarrow> ('cred, 'tv) s3_config \<Rightarrow> ('db, 'key, 't, 'tv, unit) driver_act" where
  "configure_remote C D h name s w =
     (if registry_get (dw_registry w) name = None then (Inl (SyncVault (NotRegistered name)), w)
      else case endpoint_of s of
        Inl e \<Rightarrow> (Inl e, w)
      | Inr _ \<Rightarrow>
          (case find_duplicate_target D (dw_registry w) (s3_endpoint s) (s3_bucket s) (s3_key s) (Some name) of
             Some existing \<Rightarrow> (Inl (DuplicateTarget (s3_endpoint s) (s3_bucket s) (s3_key s) existing), w)
           | None \<Rightarrow> persist_config C D h name (config_s3 s) w))"

record ('cred, 'h) s3_env =
  se_resolve :: "'cred \<Rightarrow> auth_error + resolved_credentials"
  se_http :: "http_error option"
  se_request :: "string \<Rightarrow> string \<Rightarrow> headers \<Rightarrow> bytes \<Rightarrow> ('h, http_error, http_response) act"
  se_now :: "'h \<Rightarrow> int \<times> 'h"
  se_crypto :: crypto

definition build_s3_transport ::
    "('cred, 'h) s3_env \<Rightarrow> ('cred, 'tv) s3_config \<Rightarrow> 'h \<Rightarrow>
     sync_error + ('h s3_transport, s3_error) transport \<times> 'h s3_transport" where
  "build_s3_transport E s net =
     rbind (map_err SyncAuth (se_resolve E (s3_credentials s))) (\<lambda>cred.
     rbind (endpoint_of s) (\<lambda>e.
     rbind (case se_http E of Some x \<Rightarrow> Inl (SyncS3 (S3Http x)) | None \<Rightarrow> Inr ()) (\<lambda>_.
     Inr (s3_transport_ops (client_backend \<lparr>cl_request = se_request E, cl_now = se_now E, cl_crypto = se_crypto E,
            cl_signer = new_signer (s3_region s), cl_endpoint = e, cl_credentials = cred\<rparr>),
          with_if_match_state net (s3_bucket s) (s3_key s) (s3_if_match s)))))"

definition record_probe :: "('cred, 'tv) sync_config \<Rightarrow> 'h s3_transport \<Rightarrow> ('cred, 'tv) sync_config" where
  "record_probe cfg t = cfg\<lparr>sc_s3 := map_option (set_if_match_supported (st_if_match t)) (sc_s3 cfg)\<rparr>"

text \<open>\<open>sync_now\<close>, with the vault, the disk and the network given; the transport is built for the call.\<close>

definition sync_now ::
    "'tv toml \<Rightarrow> ('cred, 'tv) config_codec \<Rightarrow> nat \<Rightarrow> ('cred, 'h) s3_env \<Rightarrow> ('db, 'key, 'h s3_transport, s3_error) sync_setup \<Rightarrow>
     string \<Rightarrow> sync_options \<Rightarrow> ('db, 'key, 'h s3_transport, 'tv, sync_outcome) driver_act" where
  "sync_now C D h E S name opts w =
     (case registry_get (dw_registry w) name of
        None \<Rightarrow> (Inl (SyncVault (NotRegistered name)), w)
      | Some entry \<Rightarrow> (case from_vault_entry D entry of
          None \<Rightarrow> (Inl NotConfigured, w)
        | Some cfg \<Rightarrow> (case sc_s3 cfg of
            None \<Rightarrow> (Inl NotConfigured, w)
          | Some s \<Rightarrow> (case build_s3_transport E s (st_net (sw_transport (dw_sync w))) of
              Inl e \<Rightarrow> (Inl e, w)
            | Inr (T, t) \<Rightarrow> sync_now_with_transport C D h (S\<lparr>ss_transport := T\<rparr>) name cfg opts record_probe
                (w\<lparr>dw_sync := (dw_sync w)\<lparr>sw_transport := t\<rparr>\<rparr>)))))"

section \<open>The log line (sync\_log.rs)\<close>

definition outcome_name :: "sync_outcome \<Rightarrow> string" where
  "outcome_name out = (case out of
     AlreadyInSync \<Rightarrow> ''already-in-sync''
   | Pushed first \<Rightarrow> if first then ''pushed-first-seed'' else ''pushed''
   | FastReplaced \<Rightarrow> ''fast-replaced''
   | Merged _ _ \<Rightarrow> ''merged'')"

definition log_line :: "sync_outcome \<Rightarrow> string \<Rightarrow> nat \<Rightarrow> string" where
  "log_line out hostname ms = ''falach sync: '' @ outcome_name out @ '' [host='' @ hostname @ '']''
     @ (case out of
          Merged delta attempts \<Rightarrow> '' [delta='' @ show_nat (length (ed_added delta)) @ ''/'' @ show_nat (length (ed_modified delta))
            @ ''/'' @ show_nat (length (ed_removed delta)) @ '']'' @ '' [attempts='' @ show_nat attempts @ '']''
        | Pushed _ \<Rightarrow> '' [attempts=1]''
        | _ \<Rightarrow> [])
     @ '' [duration='' @ show_nat ms @ ''ms]''"

section \<open>Writing the block\<close>

lemma deregister_fields: "deregister_entry n r = Inr (v, r') \<Longrightarrow> reg_paths r' = reg_paths r \<and> reg_baseline r' = reg_baseline r"
  by (auto simp: deregister_entry_def split: option.splits)

lemma register_fields: "register v r = Inr r' \<Longrightarrow> reg_paths r' = reg_paths r \<and> reg_baseline r' = reg_baseline r"
  by (auto simp: register_def split: if_splits)

lemma block_written:
  assumes "unique_names r" "registry_get r name = Some original"
  shows "\<exists>r2. update_registry_sync_block D name cfg r = (Inr (), r2) \<and> unique_names r2
    \<and> registry_get r2 = (registry_get r)(name \<mapsto> to_vault_entry D cfg original)
    \<and> reg_paths r2 = reg_paths r \<and> reg_baseline r2 = reg_baseline r"
proof -
  have n: "rv_name (to_vault_entry D cfg original) = name"
    using registry_cat.look_name [OF assms(2)] by (simp add: to_vault_entry_def)
  from registry_cat.replace_entry [OF assms n] obtain r2 where
    r2: "rbind (deregister_entry name r) (\<lambda>(_, r'). register (to_vault_entry D cfg original) r') = Inr r2"
      "unique_names r2" "registry_get r2 = (registry_get r)(name \<mapsto> to_vault_entry D cfg original)" by blast
  from r2(1) obtain v r1 where dr: "deregister_entry name r = Inr (v, r1)"
    and rg: "register (to_vault_entry D cfg original) r1 = Inr r2"
    by (auto simp: rbind_eq_Inr)
  with r2 assms deregister_fields [OF dr] register_fields [OF rg] show ?thesis
    by (auto simp: update_registry_sync_block_def)
qed

lemma block_missing: "registry_get r name = None \<Longrightarrow> update_registry_sync_block D name cfg r = (Inl (SyncVault (NotRegistered name)), r)"
  by (simp add: update_registry_sync_block_def)

lemma persist_cases:
  assumes u: "unique_names (dw_registry w)" and p: "persist_config C D h name cfg w = (r, w')"
  shows "sw_vault (dw_sync w') = sw_vault (dw_sync w) \<and> sw_transport (dw_sync w') = sw_transport (dw_sync w)
    \<and> (d_files (sw_disk (dw_sync w')) = d_files (sw_disk (dw_sync w)) \<and> r \<noteq> Inr ()
       \<or> (\<exists>original r2 body. registry_get (dw_registry w) name = Some original
            \<and> registry_get r2 = (registry_get (dw_registry w))(name \<mapsto> to_vault_entry D cfg original)
            \<and> toml_print C (on_disk_of r2) = Inr body
            \<and> d_files (sw_disk (dw_sync w')) = (d_files (sw_disk (dw_sync w)))(vaults_toml (reg_paths (dw_registry w)) \<mapsto> body)))"
proof (cases "registry_get (dw_registry w) name")
  case None
  with p show ?thesis by (auto simp: persist_config_def abind_def block_act_def block_missing)
next
  case (Some original)
  from block_written [OF u Some, of D cfg] obtain r2 where r2: "update_registry_sync_block D name cfg (dw_registry w) = (Inr (), r2)"
    "registry_get r2 = (registry_get (dw_registry w))(name \<mapsto> to_vault_entry D cfg original)"
    "reg_paths r2 = reg_paths (dw_registry w)" by blast
  let ?d = "sw_disk (dw_sync w)"
  obtain res d' where s: "registry_save C r2 h ?d = (res, d')" by fastforce
  have w': "w' = (case res of Inl e \<Rightarrow> w\<lparr>dw_registry := r2, dw_sync := (dw_sync w)\<lparr>sw_disk := d'\<rparr>\<rparr>
      | Inr reg \<Rightarrow> w\<lparr>dw_registry := reg, dw_sync := (dw_sync w)\<lparr>sw_disk := d'\<rparr>\<rparr>)" "r = (case res of Inl e \<Rightarrow> Inl (SyncVault e) | Inr _ \<Rightarrow> Inr ())"
    using p r2(1) s by (auto simp: persist_config_def abind_def block_act_def save_act_def split: sum.splits)
  have keep: "sw_vault (dw_sync w') = sw_vault (dw_sync w)" "sw_transport (dw_sync w') = sw_transport (dw_sync w)"
    "sw_disk (dw_sync w') = d'" unfolding w' by (auto split: sum.split)
  from registry_save_cases [OF s] show ?thesis
  proof
    assume "\<exists>e. res = Inl e \<and> d_files d' = d_files ?d"
    with keep w' show ?thesis by auto
  next
    assume "d_files ?d (vaults_toml (reg_paths r2)) = reg_baseline r2 \<and> (\<exists>body. toml_print C (on_disk_of r2) = Inr body
      \<and> d_files d' = (d_files ?d)(vaults_toml (reg_paths r2) \<mapsto> body) \<and> (\<forall>r'. res = Inr r' \<longrightarrow> r' = r2\<lparr>reg_baseline := Some body\<rparr>))"
    then obtain body where "toml_print C (on_disk_of r2) = Inr body"
      "d_files d' = (d_files ?d)(vaults_toml (reg_paths r2) \<mapsto> body)" by blast
    with keep r2 Some show ?thesis by auto
  qed
qed

text \<open>What the registry file says of the vault \<open>name\<close>: its sync block, and every other vault's entry.\<close>

definition registry_says ::
    "'tv toml \<Rightarrow> ('cred, 'tv) config_codec \<Rightarrow> path \<Rightarrow> (path \<Rightarrow> bytes option) \<Rightarrow> string \<Rightarrow> ('cred, 'tv) sync_config \<Rightarrow>
     (string \<Rightarrow> 'tv registered_vault option) \<Rightarrow> bool" where
  "registry_says C D p F name cfg others = (\<exists>b od v. F p = Some b \<and> toml_parse C b = Inr od
     \<and> List.find (\<lambda>v. rv_name v = name) (od_vaults od) = Some v \<and> from_vault_entry D v = Some cfg
     \<and> (\<forall>m. m \<noteq> name \<longrightarrow> List.find (\<lambda>v. rv_name v = m) (od_vaults od) = others m))"

lemma says_written:
  assumes rt: "\<And>od b. toml_print C od = Inr b \<Longrightarrow> toml_parse C b = Inr od"
    and rc: "\<And>c. cc_parse D (cc_print D c) = Some c"
    and r2: "registry_get r2 = (registry_get r)(name \<mapsto> to_vault_entry D cfg original)"
    and b: "toml_print C (on_disk_of r2) = Inr body" "F p = Some body"
  shows "registry_says C D p F name cfg (registry_get r)"
proof -
  have f: "List.find (\<lambda>v. rv_name v = m) (od_vaults (on_disk_of r2)) = registry_get r2 m" for m
    by (simp add: registry_get_def on_disk_of_def)
  have "from_vault_entry D (to_vault_entry D cfg original) = Some cfg"
    by (simp add: from_vault_entry_def to_vault_entry_def rc)
  then show ?thesis unfolding registry_says_def using rt [OF b(1)] b(2) f r2 by auto
qed

text \<open>C23: a successful sync leaves consistent pointers on disk. The registry file parses to a registry in
  which the vault's sync block names the newest remote version and the hash of the vault file as it is on
  disk, so the next sync, in this or another process, starts from the truth; every other vault's entry is the
  one the caller's registry had.\<close>

theorem sync_persists_pointers:
  assumes rt: "\<And>od b. toml_print C od = Inr b \<Longrightarrow> toml_parse C b = Inr od"
    and rc: "\<And>c. cc_parse D (cc_print D c) = Some c"
    and S: "ss_transport S = shared_transport" "sh_good (sw_transport (dw_sync w))"
    and u: "unique_names (dw_registry w)"
    and apart: "vaults_toml (reg_paths (dw_registry w)) \<noteq> v_path (sw_vault (dw_sync w))"
    and run: "sync_now_with_transport C D h S name cfg opts upd w = (Inr out, w')"
  shows "\<exists>c. registry_says C D (vaults_toml (reg_paths (dw_registry w))) (d_files (sw_disk (dw_sync w'))) name c
        (registry_get (dw_registry w))
    \<and> pointers_current S (sh_past (sw_transport (dw_sync w'))) (dw_sync w')
        \<lparr>sp_remote_etag = sc_etag c, sp_local_sha256 = sc_sha c\<rparr>"
proof -
  obtain result sw where rs: "run_state_machine S (sc_etag cfg) (sc_sha cfg) opts (dw_sync w) = (result, sw)" by fastforce
  with run obtain outcome ptrs where res: "result = Inr (outcome, ptrs)"
    by (cases result) (auto simp: sync_now_with_transport_def Let_def)
  define c where "c = (upd cfg (sw_transport sw))\<lparr>sc_etag := sp_remote_etag ptrs, sc_sha := sp_local_sha256 ptrs\<rparr>"
  obtain q w1 where p: "persist_config C D h name c (w\<lparr>dw_sync := sw\<rparr>) = (q, w1)" by fastforce
  from run rs res p have ok: "q = Inr ()" "w1 = w'"
    by (cases q; auto simp: sync_now_with_transport_def Let_def abind_def c_def)+
  have cur: "pointers_current S (sh_past (sw_transport sw)) sw ptrs"
    using shared_effect(2) [OF S] rs res by blast
  have path: "v_path (sw_vault sw) = v_path (sw_vault (dw_sync w))" using run_only_touches(1) [OF rs] .
  from persist_cases [OF _ p] u ok obtain original r2 body where
    k: "sw_vault (dw_sync w') = sw_vault sw" "sw_transport (dw_sync w') = sw_transport sw"
    and r2: "registry_get r2 = (registry_get (dw_registry w))(name \<mapsto> to_vault_entry D c original)"
      "toml_print C (on_disk_of r2) = Inr body"
      "d_files (sw_disk (dw_sync w')) = (d_files (sw_disk sw))(vaults_toml (reg_paths (dw_registry w)) \<mapsto> body)"
    by auto
  have "registry_says C D (vaults_toml (reg_paths (dw_registry w))) (d_files (sw_disk (dw_sync w'))) name c
      (registry_get (dw_registry w))"
    by (rule says_written [OF rt rc r2(1,2)]) (simp_all add: r2(3))
  moreover have "pointers_current S (sh_past (sw_transport (dw_sync w'))) (dw_sync w')
      \<lparr>sp_remote_etag = sc_etag c, sp_local_sha256 = sc_sha c\<rparr>"
    using cur k r2(3) path apart by (simp add: pointers_current_def c_def)
  ultimately show ?thesis by blast
qed

text \<open>C24: a failed sync loses nothing of the record. Whatever fails, in the state machine or while saving the
  registry, the registry file is as it was, or its sync block still has the old pointers, or (when only the
  save reported a failure after taking effect) has the new, consistent ones. The documentation says that the
  registry is left untouched on an error; it is in fact saved with the probe result.\<close>

theorem sync_error_keeps_pointers:
  assumes rt: "\<And>od b. toml_print C od = Inr b \<Longrightarrow> toml_parse C b = Inr od"
    and rc: "\<And>c. cc_parse D (cc_print D c) = Some c"
    and S: "ss_transport S = shared_transport" "sh_good (sw_transport (dw_sync w))"
    and u: "unique_names (dw_registry w)"
    and apart: "vaults_toml (reg_paths (dw_registry w)) \<notin> footprint (v_path (sw_vault (dw_sync w)))"
    and upd: "\<And>c t. sc_etag (upd c t) = sc_etag c \<and> sc_sha (upd c t) = sc_sha c"
    and run: "sync_now_with_transport C D h S name cfg opts upd w = (Inl err, w')"
  shows "d_files (sw_disk (dw_sync w')) (vaults_toml (reg_paths (dw_registry w)))
       = d_files (sw_disk (dw_sync w)) (vaults_toml (reg_paths (dw_registry w)))
    \<or> (\<exists>c. registry_says C D (vaults_toml (reg_paths (dw_registry w))) (d_files (sw_disk (dw_sync w'))) name c
           (registry_get (dw_registry w))
         \<and> (sc_etag c = sc_etag cfg \<and> sc_sha c = sc_sha cfg
            \<or> pointers_current S (sh_past (sw_transport (dw_sync w'))) (dw_sync w')
                \<lparr>sp_remote_etag = sc_etag c, sp_local_sha256 = sc_sha c\<rparr>))"
proof -
  let ?T = "vaults_toml (reg_paths (dw_registry w))"
  obtain result sw where rs: "run_state_machine S (sc_etag cfg) (sc_sha cfg) opts (dw_sync w) = (result, sw)" by fastforce
  note same = run_only_touches [OF rs]
  define c where "c = (case result of Inl _ \<Rightarrow> upd cfg (sw_transport sw)
    | Inr (_, ptrs) \<Rightarrow> (upd cfg (sw_transport sw))\<lparr>sc_etag := sp_remote_etag ptrs, sc_sha := sp_local_sha256 ptrs\<rparr>)"
  obtain q w1 where p: "persist_config C D h name c (w\<lparr>dw_sync := sw\<rparr>) = (q, w1)" by fastforce
  have w1: "w1 = w'"
    using run rs p by (cases result; cases q) (auto simp: sync_now_with_transport_def Let_def abind_def c_def)
  have ptr: "sc_etag c = sc_etag cfg \<and> sc_sha c = sc_sha cfg
      \<or> pointers_current S (sh_past (sw_transport sw)) sw \<lparr>sp_remote_etag = sc_etag c, sp_local_sha256 = sc_sha c\<rparr>"
  proof (cases result)
    case (Inr x)
    obtain outcome ptrs where x: "x = (outcome, ptrs)" by (cases x)
    with shared_effect(2) [OF S] rs Inr have "pointers_current S (sh_past (sw_transport sw)) sw ptrs" by blast
    then show ?thesis by (simp add: c_def Inr x pointers_current_def)
  qed (simp add: c_def upd)
  from persist_cases [OF _ p] u w1 consider
      "d_files (sw_disk (dw_sync w')) = d_files (sw_disk sw)"
    | original r2 body where "registry_get r2 = (registry_get (dw_registry w))(name \<mapsto> to_vault_entry D c original)"
      "toml_print C (on_disk_of r2) = Inr body" "d_files (sw_disk (dw_sync w')) = (d_files (sw_disk sw))(?T \<mapsto> body)"
      "sw_vault (dw_sync w') = sw_vault sw" "sw_transport (dw_sync w') = sw_transport sw"
    by auto
  then show ?thesis
  proof cases
    case 1
    with same(2) apart show ?thesis by simp
  next
    case 2
    from says_written [OF rt rc 2(1,2), of "d_files (sw_disk (dw_sync w'))" ?T] 2(3)
    have "registry_says C D ?T (d_files (sw_disk (dw_sync w'))) name c (registry_get (dw_registry w))" by simp
    moreover have "?T \<noteq> v_path (sw_vault sw)" using apart same(1) by (auto simp: footprint_def)
    then have "pointers_current S vs sw ptrs = pointers_current S vs (dw_sync w') ptrs" for vs ptrs
      using 2(3,4) by (simp add: pointers_current_def)
    ultimately show ?thesis using ptr 2(5) by auto
  qed
qed

section \<open>One vault per remote object\<close>

lemma find_map_None: "find_map f xs = None \<longleftrightarrow> (\<forall>x \<in> set xs. f x = None)"
  by (induction xs) (auto split: option.splits)

lemma find_map_Some: "find_map f xs = Some y \<Longrightarrow> \<exists>x \<in> set xs. f x = Some y"
  by (induction xs) (auto split: option.splits)

lemma duplicate_None:
  "find_duplicate_target D r e b k (Some n) = None \<longleftrightarrow>
     (\<forall>v \<in> set (reg_vaults r). rv_name v \<noteq> n \<longrightarrow> target_of D v \<noteq> Some (canonicalize_target e b k))"
  by (auto simp: find_duplicate_target_def find_map_None split: if_splits)

lemma duplicate_Some:
  "find_duplicate_target D r e b k (Some n) = Some x \<Longrightarrow>
     \<exists>v \<in> set (reg_vaults r). rv_name v = x \<and> x \<noteq> n \<and> target_of D v = Some (canonicalize_target e b k)"
  by (auto simp: find_duplicate_target_def dest!: find_map_Some split: if_splits)

text \<open>The exits of \<open>configure_remote\<close>.\<close>

lemma configure_cases:
  fixes w :: "('db, 'key, 't, 'tv) driver_world"
  assumes run: "configure_remote C D h name s w = (r, w')"
  obtains (missing) "r = Inl (SyncVault (NotRegistered name))" "w' = w"
    | (endpoint) "r = Inl malformed_endpoint" "w' = w"
    | (duplicate) x where "find_duplicate_target D (dw_registry w) (s3_endpoint s) (s3_bucket s) (s3_key s) (Some name) = Some x"
        "r = Inl (DuplicateTarget (s3_endpoint s) (s3_bucket s) (s3_key s) x)" "w' = w"
    | (written) e where "endpoint_of s = Inr e"
        "find_duplicate_target D (dw_registry w) (s3_endpoint s) (s3_bucket s) (s3_key s) (Some name) = None"
        "persist_config C D h name (config_s3 s) w = (r, w')"
proof (cases "registry_get (dw_registry w) name")
  case None
  with run have "r = Inl (SyncVault (NotRegistered name))" "w' = w" by (simp_all add: configure_remote_def)
  then show ?thesis by (rule missing)
next
  case get: (Some v)
  show ?thesis
  proof (cases "endpoint_of s")
    case (Inl x)
    then have "x = malformed_endpoint" by (auto simp: endpoint_of_def map_err_eq_Inl)
    with run get Inl have "r = Inl malformed_endpoint" "w' = w" by (simp_all add: configure_remote_def)
    then show ?thesis by (rule endpoint)
  next
    case (Inr e)
    show ?thesis
    proof (cases "find_duplicate_target D (dw_registry w) (s3_endpoint s) (s3_bucket s) (s3_key s) (Some name)")
      case None
      with run get Inr have "persist_config C D h name (config_s3 s) w = (r, w')" by (simp add: configure_remote_def)
      with Inr None show ?thesis by (rule written)
    next
      case (Some x)
      with run get Inr have "r = Inl (DuplicateTarget (s3_endpoint s) (s3_bucket s) (s3_key s) x)" "w' = w"
        by (simp_all add: configure_remote_def)
      with Some show ?thesis by (rule duplicate)
    qed
  qed
qed

lemma persist_not_duplicate:
  "persist_config C D h name c w = (q, w1) \<Longrightarrow> q \<noteq> Inl (DuplicateTarget e b k x)"
  by (auto simp: persist_config_def abind_def block_act_def save_act_def update_registry_sync_block_def
      split: prod.splits sum.splits option.splits)

text \<open>C25: no two vaults are configured on one remote object. \<open>configure_remote\<close> succeeds only for a registered
  vault, an accepted endpoint and a canonical target that no other vault of the registry has; the registry
  file then holds the fresh configuration, without sync pointers. A refused target names a vault that has it,
  and a refusal changes nothing.\<close>

theorem configure_remote_exclusive:
  assumes rt: "\<And>od b. toml_print C od = Inr b \<Longrightarrow> toml_parse C b = Inr od"
    and rc: "\<And>c. cc_parse D (cc_print D c) = Some c"
    and u: "unique_names (dw_registry w)" and run: "configure_remote C D h name s w = (r, w')"
  shows "(r = Inr () \<longrightarrow> (\<exists>e. endpoint_of s = Inr e)
        \<and> (\<forall>v \<in> set (reg_vaults (dw_registry w)). rv_name v \<noteq> name \<longrightarrow>
             target_of D v \<noteq> Some (canonicalize_target (s3_endpoint s) (s3_bucket s) (s3_key s)))
        \<and> registry_says C D (vaults_toml (reg_paths (dw_registry w))) (d_files (sw_disk (dw_sync w'))) name (config_s3 s)
            (registry_get (dw_registry w)))
    \<and> (\<forall>e b k x. r = Inl (DuplicateTarget e b k x) \<longrightarrow> w' = w
        \<and> (\<exists>v \<in> set (reg_vaults (dw_registry w)). rv_name v = x \<and> x \<noteq> name \<and> target_of D v = Some (canonicalize_target e b k)))"
  using run
proof (cases rule: configure_cases)
  case duplicate
  from duplicate_Some [OF duplicate(1)] duplicate(2,3) show ?thesis by auto
next
  case written
  note pc = persist_cases [OF u written(3)]
  have "registry_says C D (vaults_toml (reg_paths (dw_registry w))) (d_files (sw_disk (dw_sync w'))) name (config_s3 s)
          (registry_get (dw_registry w))" if "r = Inr ()"
  proof -
    from pc that obtain original r2 body where
      r2: "registry_get r2 = (registry_get (dw_registry w))(name \<mapsto> to_vault_entry D (config_s3 s) original)"
        "toml_print C (on_disk_of r2) = Inr body"
        "d_files (sw_disk (dw_sync w')) = (d_files (sw_disk (dw_sync w)))(vaults_toml (reg_paths (dw_registry w)) \<mapsto> body)" by auto
    show ?thesis by (rule says_written [OF rt rc r2(1,2)]) (simp_all add: r2(3))
  qed
  with written persist_not_duplicate [OF written(3)] show ?thesis unfolding duplicate_None by blast
qed (auto simp: malformed_endpoint_def)

section \<open>A small driver world, for the witnesses\<close>

text \<open>A codec that can write one registry only, and a faithful codec of configurations.\<close>

definition only_od :: "'tv on_disk \<Rightarrow> 'tv toml" where
  "only_od od = \<lparr>toml_parse = (\<lambda>_. Inr od), toml_print = (\<lambda>x. if x = od then Inr [1] else Inl 0)\<rparr>"

datatype tval =
    TSync "tval_s3 option" "string option" "string option" "(string \<times> tval) list"
and tval_s3 = TS3 string string "string option" string bool if_match_support "(string \<times> tval) list"

definition print_s3 :: "(unit, tval) s3_config \<Rightarrow> tval_s3" where
  "print_s3 s = TS3 (s3_bucket s) (s3_key s) (s3_endpoint s) (s3_region s) (s3_path_style s) (s3_if_match s) (s3_extra s)"

fun parse_s3 :: "tval_s3 \<Rightarrow> (unit, tval) s3_config" where
  "parse_s3 (TS3 b k e r p i x) = \<lparr>s3_bucket = b, s3_key = k, s3_endpoint = e, s3_region = r, s3_path_style = p,
     s3_credentials = (), s3_if_match = i, s3_extra = x\<rparr>"

fun parse_tval :: "tval \<Rightarrow> (unit, tval) sync_config option" where
  "parse_tval (TSync s e h x) = Some \<lparr>sc_kind = S3Kind, sc_s3 = map_option parse_s3 s, sc_etag = e, sc_sha = h, sc_extra = x\<rparr>"

definition tval_codec :: "(unit, tval) config_codec" where
  "tval_codec = \<lparr>cc_print = (\<lambda>c. TSync (map_option print_s3 (sc_s3 c)) (sc_etag c) (sc_sha c) (sc_extra c)), cc_parse = parse_tval\<rparr>"

lemma only_od_roundtrip: "toml_print (only_od od) x = Inr b \<Longrightarrow> toml_parse (only_od od) b = Inr x"
  by (simp add: only_od_def split: if_splits)

lemma tval_roundtrip: "cc_parse tval_codec (cc_print tval_codec c) = Some c"
proof -
  have "parse_s3 (print_s3 s) = s" for s by (simp add: print_s3_def)
  then have "map_option parse_s3 (map_option print_s3 x) = x" for x by (cases x) simp_all
  moreover have "sc_kind c = S3Kind" by (rule transport_kind.exhaust)
  ultimately show ?thesis by (simp add: tval_codec_def)
qed

lemma quiet_registry_save:
  assumes "d_troubles d = []" "d_locks d = []" "d_files d (vaults_toml (reg_paths r)) = reg_baseline r"
    "vaults_toml (reg_paths r) \<noteq> []" "toml_print C (on_disk_of r) = Inr body"
  shows "\<exists>d'. registry_save C r h d = (Inr (r\<lparr>reg_baseline := Some body\<rparr>), d')"
  using assms
  by (cases "reg_baseline r") (simp_all add: registry_save_def calm_guarded compatible_def calm_read save_unlocked_def
      abind_def disk_write_def aerr_def calm_op)

lemma quiet_persist:
  assumes "unique_names (dw_registry w)" "registry_get (dw_registry w) name = Some v"
    and "d_troubles (sw_disk (dw_sync w)) = []" "d_locks (sw_disk (dw_sync w)) = []"
    and "d_files (sw_disk (dw_sync w)) (vaults_toml (reg_paths (dw_registry w))) = reg_baseline (dw_registry w)"
    and "vaults_toml (reg_paths (dw_registry w)) \<noteq> []"
  shows "\<exists>od w'. persist_config (only_od od) D h name cfg w = (Inr (), w')"
proof -
  from block_written [OF assms(1,2), of D cfg] obtain r2 where r2: "update_registry_sync_block D name cfg (dw_registry w) = (Inr (), r2)"
    "reg_paths r2 = reg_paths (dw_registry w)" "reg_baseline r2 = reg_baseline (dw_registry w)" by blast
  have "toml_print (only_od (on_disk_of r2)) (on_disk_of r2) = Inr [1]" by (simp add: only_od_def)
  from quiet_registry_save [OF assms(3,4) _ _ this, of h] assms(5,6) r2(2,3) obtain d' where
    "registry_save (only_od (on_disk_of r2)) r2 h (sw_disk (dw_sync w)) = (Inr (r2\<lparr>reg_baseline := Some [1]\<rparr>), d')" by auto
  with r2(1) have "\<exists>w'. persist_config (only_od (on_disk_of r2)) D h name cfg w = (Inr (), w')"
    by (simp add: persist_config_def abind_def block_act_def save_act_def)
  then show ?thesis by blast
qed

definition toy_registry :: "tval registry" where
  "toy_registry = (with_paths (with_state_dir [''s'']))\<lparr>reg_vaults :=
     [\<lparr>rv_name = ''a'', rv_path = [''v''], rv_created_at = [], rv_keyfile_path = None, rv_extra = []\<rparr>]\<rparr>"

definition toy_driver :: "(nat, string, shared, tval) driver_world" where
  "toy_driver = \<lparr>dw_sync = toy_world, dw_registry = toy_registry\<rparr>"

definition toy_config :: "(unit, tval) sync_config" where
  "toy_config = config_s3 (new_s3_config ''b'' ''k'' ''r'' ())"

lemma toy_registry_facts:
  "unique_names toy_registry" "\<exists>v. registry_get toy_registry ''a'' = Some v"
  "vaults_toml (reg_paths toy_registry) = [''s'', ''vaults.toml'']" "reg_baseline toy_registry = None"
  by (simp_all add: toy_registry_def with_paths_def with_state_dir_def vaults_toml_def unique_names_def registry_get_def)

lemma toy_footprint: "[''s'', ''vaults.toml''] \<notin> footprint (v_path (sw_vault toy_world))"
  "d_files (sw_disk toy_world) [''s'', ''vaults.toml''] = None"
  by (simp_all add: footprint_def backup_path_for_def path_append_def toy_world_def toy_vault_def toy_disk_def empty_disk_def)

lemma toy_persist:
  assumes "d_troubles (sw_disk sw) = []" "d_locks (sw_disk sw) = []" "d_files (sw_disk sw) [''s'', ''vaults.toml''] = None"
  shows "\<exists>od w'. persist_config (only_od od) tval_codec 1 ''a'' cfg (toy_driver\<lparr>dw_sync := sw\<rparr>) = (Inr (), w')"
  using toy_registry_facts assms by (auto intro!: quiet_persist simp: toy_driver_def)


lemma toy_shared_ok: "ss_transport toy_setup = shared_transport" "sh_good (sw_transport (dw_sync toy_driver))"
  using toy_good by (simp_all add: toy_setup_def toy_driver_def toy_world_def)

lemma toy_driver_simps: "dw_registry toy_driver = toy_registry" "dw_sync toy_driver = toy_world"
  by (simp_all add: toy_driver_def)

lemma toy_driver_apart:
  "unique_names (dw_registry toy_driver)"
  "vaults_toml (reg_paths (dw_registry toy_driver)) \<noteq> v_path (sw_vault (dw_sync toy_driver))"
  "vaults_toml (reg_paths (dw_registry toy_driver)) \<notin> footprint (v_path (sw_vault (dw_sync toy_driver)))"
  using toy_registry_facts toy_footprint by (auto simp: toy_driver_simps footprint_def)

lemma toy_sync_ok:
  "\<exists>od w'. sync_now_with_transport (only_od od) tval_codec 1 toy_setup ''a'' toy_config default_options (\<lambda>c t. c) toy_driver
     = (Inr (Merged toy_delta 2), w')"
proof -
  obtain p sw where r: "run_state_machine toy_setup None None default_options toy_world = (Inr (Merged toy_delta (Suc (Suc 0)), p), sw)"
    and c: "d_troubles (sw_disk sw) = []" "d_locks (sw_disk sw) = []" using toy_run by blast
  have "d_files (sw_disk sw) [''s'', ''vaults.toml''] = None"
    using run_only_touches(2) [OF r toy_footprint(1)] toy_footprint(2) by simp
  from toy_persist [OF c this] obtain od w' where
    "persist_config (only_od od) tval_codec 1 ''a'' (toy_config\<lparr>sc_etag := sp_remote_etag p, sc_sha := sp_local_sha256 p\<rparr>)
       (toy_driver\<lparr>dw_sync := sw\<rparr>) = (Inr (), w')" by blast
  with r show ?thesis
    by (intro exI [of _ od] exI [of _ w'])
      (simp add: sync_now_with_transport_def Let_def abind_def areturn_def toy_config_def config_s3_def toy_driver_simps numeral_2_eq_2)
qed

text \<open>A world whose first HEAD request fails.\<close>

definition toy_offline :: "(nat, string, shared, tval) driver_world" where
  "toy_offline = toy_driver\<lparr>dw_sync := toy_world\<lparr>sw_transport := toy_shared\<lparr>sh_mem := (sh_mem toy_shared)\<lparr>mt_fail_head := True\<rparr>\<rparr>\<rparr>\<rparr>"

lemma toy_sync_fails:
  "\<exists>e w'. sync_now_with_transport (only_od od) tval_codec 1 toy_setup ''a'' toy_config default_options (\<lambda>c t. c) toy_offline
     = (Inl e, w')"
  by (simp add: sync_now_with_transport_def Let_def toy_offline_def toy_config_def config_s3_def run_state_machine_def
      toy_driver_simps toy_defs)

text \<open>A successful sync through the driver.\<close>

theorem sync_persists_pointers_witness:
  "\<exists>od w' c. sync_now_with_transport (only_od od) tval_codec 1 toy_setup ''a'' toy_config default_options (\<lambda>c t. c) toy_driver
       = (Inr (Merged toy_delta 2), w')
     \<and> registry_says (only_od od) tval_codec [''s'', ''vaults.toml''] (d_files (sw_disk (dw_sync w'))) ''a'' c
         (registry_get toy_registry)
     \<and> pointers_current toy_setup (sh_past (sw_transport (dw_sync w'))) (dw_sync w')
         \<lparr>sp_remote_etag = sc_etag c, sp_local_sha256 = sc_sha c\<rparr>"
proof -
  obtain od :: "tval on_disk" and w' where
    r: "sync_now_with_transport (only_od od) tval_codec 1 toy_setup ''a'' toy_config default_options (\<lambda>c t. c) toy_driver
       = (Inr (Merged toy_delta 2), w')" using toy_sync_ok by blast
  from sync_persists_pointers [OF only_od_roundtrip tval_roundtrip toy_shared_ok toy_driver_apart(1,2) r] r
  show ?thesis unfolding toy_driver_simps toy_registry_facts by blast
qed

text \<open>The remote is not reachable.\<close>

theorem sync_error_keeps_pointers_witness:
  "\<exists>e w'. sync_now_with_transport (only_od (on_disk_of toy_registry)) tval_codec 1 toy_setup ''a'' toy_config default_options (\<lambda>c t. c) toy_offline
       = (Inl e, w')
     \<and> (d_files (sw_disk (dw_sync w')) [''s'', ''vaults.toml''] = None
       \<or> (\<exists>c. registry_says (only_od (on_disk_of toy_registry)) tval_codec [''s'', ''vaults.toml''] (d_files (sw_disk (dw_sync w'))) ''a'' c
             (registry_get toy_registry)
         \<and> (sc_etag c = None \<and> sc_sha c = None
            \<or> pointers_current toy_setup (sh_past (sw_transport (dw_sync w'))) (dw_sync w')
                \<lparr>sp_remote_etag = sc_etag c, sp_local_sha256 = sc_sha c\<rparr>)))"
proof -
  obtain e w' where
    r: "sync_now_with_transport (only_od (on_disk_of toy_registry)) tval_codec 1 toy_setup ''a'' toy_config default_options (\<lambda>c t. c) toy_offline
       = (Inl e, w')" using toy_sync_fails by blast
  have off: "sh_good (sw_transport (dw_sync toy_offline))"
    "d_files (sw_disk (dw_sync toy_offline)) [''s'', ''vaults.toml''] = None"
    "dw_registry toy_offline = toy_registry" "v_path (sw_vault (dw_sync toy_offline)) = v_path (sw_vault toy_world)"
    using toy_good toy_footprint(2) by (simp_all add: toy_offline_def toy_driver_simps sh_good_def toy_world_def)
  have cfg: "sc_etag toy_config = None" "sc_sha toy_config = None" by (simp_all add: toy_config_def config_s3_def)
  have u: "unique_names (dw_registry toy_offline)"
    and a: "vaults_toml (reg_paths (dw_registry toy_offline)) \<notin> footprint (v_path (sw_vault (dw_sync toy_offline)))"
    unfolding off toy_registry_facts by (rule toy_registry_facts toy_footprint)+
  from sync_error_keeps_pointers [OF only_od_roundtrip tval_roundtrip toy_shared_ok(1) off(1) u a _ r] r
  show ?thesis unfolding off toy_registry_facts cfg by blast
qed

text \<open>Configuring a MinIO object for a registered vault.\<close>

definition minio_s3 :: "(unit, tval) s3_config" where
  "minio_s3 = \<lparr>s3_bucket = ''vaults'', s3_key = ''k'', s3_endpoint = Some ''http://minio:9000/'', s3_region = ''us-east-1'',
     s3_path_style = True, s3_credentials = (), s3_if_match = Unknown, s3_extra = []\<rparr>"

lemma minio_endpoint: "endpoint_of minio_s3 = Inr minio_builder"
  using minio_ok by (simp add: endpoint_of_def minio_s3_def minio_config_def map_err_def)

lemma toy_no_duplicate: "find_duplicate_target tval_codec toy_registry e b k (Some ''a'') = None"
  by (simp add: duplicate_None toy_registry_def)

theorem configure_remote_exclusive_witness:
  "\<exists>od w'. configure_remote (only_od od) tval_codec 1 ''a'' minio_s3 toy_driver = (Inr (), w')
     \<and> registry_says (only_od od) tval_codec [''s'', ''vaults.toml''] (d_files (sw_disk (dw_sync w'))) ''a'' (config_s3 minio_s3)
         (registry_get toy_registry)"
proof -
  have calm: "d_troubles (sw_disk toy_world) = []" "d_locks (sw_disk toy_world) = []"
    by (simp_all add: toy_world_def toy_disk_def empty_disk_def)
  have same: "toy_driver\<lparr>dw_sync := toy_world\<rparr> = toy_driver" by (simp add: toy_driver_def)
  from toy_persist [OF calm toy_footprint(2), of "config_s3 minio_s3"] obtain od w' where
    "persist_config (only_od od) tval_codec 1 ''a'' (config_s3 minio_s3) toy_driver = (Inr (), w')"
    unfolding same by blast
  then have r: "configure_remote (only_od od) tval_codec 1 ''a'' minio_s3 toy_driver = (Inr (), w')"
    using toy_registry_facts(2) by (auto simp: configure_remote_def minio_endpoint toy_no_duplicate toy_driver_simps)
  from configure_remote_exclusive [OF only_od_roundtrip tval_roundtrip toy_driver_apart(1) r] r
  show ?thesis unfolding toy_driver_simps toy_registry_facts by blast
qed

end
