(* ===== verification/AutoLock.thy ===== *)
theory AutoLock
  imports Prelude
begin

text \<open>
  The security crate (\<open>falach-security/src\<close>): the idle auto-lock state machine with its event channel
  (\<open>auto_lock.rs\<close>), the sources of lock events (\<open>os_events/\<close>), the per-vault override in \<open>vaults.toml\<close>
  (\<open>vault_lock.rs\<close>) and the clipboard with its auto-clear timer (\<open>clipboard.rs\<close>). Instants and durations are
  nanoseconds. What other threads and applications do between two calls is part of the input: events posted
  to the channel are operations of their own, and every clipboard call names what was copied before it.
\<close>

section \<open>The controller\<close>

datatype security_error =
    ClipboardUnavailable string
  | ClipboardIo string
  | EventSourceStart string string
  | EventChannelClosed string
  | InvalidVaultLockConfig string
  | InvalidAutoLockConfig string

definition from_secs :: "nat \<Rightarrow> nat" where
  "from_secs s = s * 1000000000"

definition default_idle_timeout :: nat where
  "default_idle_timeout = from_secs 600"

datatype lock_state = Active | Expired | Locked

datatype os_lock_reason = Sigstop | Screensaver | Sleep | ManualReason

datatype security_event = ActivityEvent | OsLock os_lock_reason | ManualEvent

record auto_lock_config =
  al_timeout :: nat

definition default_auto_lock :: auto_lock_config where
  "default_auto_lock = \<lparr>al_timeout = default_idle_timeout\<rparr>"

definition validate_config :: "auto_lock_config \<Rightarrow> security_error + unit" where
  "validate_config cfg =
     (if al_timeout cfg = 0 then Inl (InvalidAutoLockConfig ''idle_timeout must be at least 1 second'') else Inr ())"

text \<open>An attached source, by its name; its thread and shutdown handle exist as long as it is attached.\<close>

record controller =
  ac_config :: auto_lock_config
  ac_state :: lock_state
  ac_last :: "nat option"
  ac_queue :: "security_event list"
  ac_sources :: "string list"

definition new_controller :: "auto_lock_config \<Rightarrow> security_error + controller" where
  "new_controller cfg = rbind (validate_config cfg) (\<lambda>_.
     Inr \<lparr>ac_config = cfg, ac_state = Active, ac_last = None, ac_queue = [], ac_sources = []\<rparr>)"

definition register_activity :: "nat \<Rightarrow> controller \<Rightarrow> controller" where
  "register_activity now c = (case ac_state c of
     Locked \<Rightarrow> c
   | _ \<Rightarrow> c\<lparr>ac_state := Active, ac_last := Some now\<rparr>)"

definition transition_to_locked :: "controller \<Rightarrow> controller" where
  "transition_to_locked c = c\<lparr>ac_state := Locked\<rparr>"

definition lock_now :: "os_lock_reason \<Rightarrow> controller \<Rightarrow> controller" where
  "lock_now reason c = transition_to_locked c"

definition unlock :: "nat \<Rightarrow> controller \<Rightarrow> controller" where
  "unlock now c = c\<lparr>ac_state := Active, ac_last := Some now\<rparr>"

definition apply_idle_logic :: "nat \<Rightarrow> controller \<Rightarrow> controller" where
  "apply_idle_logic now c = (case ac_state c of
     Active \<Rightarrow> (case ac_last c of
         None \<Rightarrow> c
       | Some since \<Rightarrow> if al_timeout (ac_config c) \<le> now - since then c\<lparr>ac_state := Expired\<rparr> else c)
   | Expired \<Rightarrow> c\<lparr>ac_state := Locked\<rparr>
   | Locked \<Rightarrow> c)"

definition handle_event :: "nat \<Rightarrow> security_event \<Rightarrow> controller \<Rightarrow> controller" where
  "handle_event now e c = (case e of
     ActivityEvent \<Rightarrow> register_activity now c
   | _ \<Rightarrow> transition_to_locked c)"

text \<open>The \<open>try_recv\<close> loop: receive and handle until the channel is empty.\<close>

function (sequential) drain_events :: "nat \<Rightarrow> controller \<Rightarrow> controller" where
  "drain_events now c = (case ac_queue c of
     [] \<Rightarrow> c
   | e # es \<Rightarrow> drain_events now (handle_event now e (c\<lparr>ac_queue := es\<rparr>)))"
  by pat_completeness auto

lemma handle_event_queue [simp]: "ac_queue (handle_event now e c) = ac_queue c"
  by (simp add: handle_event_def register_activity_def transition_to_locked_def split: security_event.split lock_state.split)

termination drain_events
  by (relation "measure (\<lambda>(_, c). length (ac_queue c))") auto

declare drain_events.simps [simp del]

definition tick :: "nat \<Rightarrow> controller \<Rightarrow> lock_state \<times> controller" where
  "tick now c = (let c' = apply_idle_logic now (drain_events now c) in (ac_state c', c'))"

definition time_until_lock :: "nat \<Rightarrow> controller \<Rightarrow> nat option" where
  "time_until_lock now c = (case ac_state c of
     Active \<Rightarrow> (case ac_last c of
         None \<Rightarrow> None
       | Some since \<Rightarrow> if now - since \<le> al_timeout (ac_config c) then Some (al_timeout (ac_config c) - (now - since)) else None)
   | _ \<Rightarrow> None)"

text \<open>\<open>spawned\<close> is the answer of the thread library.\<close>

definition attach_event_source :: "string + unit \<Rightarrow> string \<Rightarrow> controller \<Rightarrow> (security_error + unit) \<times> controller" where
  "attach_event_source spawned name c = (case spawned of
     Inl detail \<Rightarrow> (Inl (EventSourceStart name detail), c)
   | Inr _ \<Rightarrow> (Inr (), c\<lparr>ac_sources := ac_sources c @ [name]\<rparr>))"

datatype drop_step = SignalSource string | JoinSource string

definition drop_controller :: "controller \<Rightarrow> drop_step list" where
  "drop_controller c = concat (map (\<lambda>s. [SignalSource s, JoinSource s]) (ac_sources c))"

section \<open>Sources of lock events\<close>

text \<open>A run loop reads its inputs in order; \<open>alive\<close> tells whether the controller still receives. The result is
  what \<open>run\<close> returns and the events it has sent.\<close>

datatype signal = SIGTSTP | SIGCONT

fun sigstop_run :: "(signal \<times> bool \<times> string option) list \<Rightarrow> (security_error + unit) \<times> security_event list" where
  "sigstop_run [] = (Inr (), [])"
| "sigstop_run ((SIGCONT, _, _) # sigs) = sigstop_run sigs"
| "sigstop_run ((SIGTSTP, alive, raise_error) # sigs) =
     (if \<not> alive then (Inl (EventChannelClosed ''sigstop''), [])
      else case raise_error of
        Some e \<Rightarrow> (Inl (EventSourceStart ''sigstop'' (''raise(SIGSTOP) failed: '' @ e)), [OsLock Sigstop])
      | None \<Rightarrow> (case sigstop_run sigs of (r, es) \<Rightarrow> (r, OsLock Sigstop # es)))"

datatype logind_branch = ShutdownBranch | SleepBranch "string + bool" | LockBranch | StreamEnded

fun logind_run :: "(logind_branch \<times> bool) list \<Rightarrow> (security_error + unit) \<times> security_event list" where
  "logind_run [] = (Inr (), [])"
| "logind_run ((ShutdownBranch, _) # bs) = (Inr (), [])"
| "logind_run ((StreamEnded, _) # bs) = (Inr (), [])"
| "logind_run ((SleepBranch (Inl e), _) # bs) = (Inl (EventSourceStart ''logind'' (''parse PrepareForSleep body: '' @ e)), [])"
| "logind_run ((SleepBranch (Inr starting), alive) # bs) =
     (if starting
      then (if \<not> alive then (Inl (EventChannelClosed ''logind''), [])
            else case logind_run bs of (r, es) \<Rightarrow> (r, OsLock Sleep # es))
      else logind_run bs)"
| "logind_run ((LockBranch, alive) # bs) =
     (if \<not> alive then (Inl (EventChannelClosed ''logind''), [])
      else case logind_run bs of (r, es) \<Rightarrow> (r, OsLock Screensaver # es))"

text \<open>The production sources demand locks only: none of them can keep a vault open.\<close>

lemma sigstop_locks: "set (snd (sigstop_run sigs)) \<subseteq> {OsLock Sigstop}"
  by (induction sigs rule: sigstop_run.induct) (auto split: option.splits prod.splits)

lemma logind_locks: "set (snd (logind_run bs)) \<subseteq> {OsLock Sleep, OsLock Screensaver}"
  by (induction bs rule: logind_run.induct) (auto split: prod.splits)

section \<open>Runs\<close>

datatype lock_op = Activity nat | Tick nat | LockNow os_lock_reason | Unlock nat | Post security_event

definition lock_step :: "lock_op \<Rightarrow> controller \<Rightarrow> controller" where
  "lock_step x c = (case x of
     Activity now \<Rightarrow> register_activity now c
   | Tick now \<Rightarrow> snd (tick now c)
   | LockNow r \<Rightarrow> lock_now r c
   | Unlock now \<Rightarrow> unlock now c
   | Post e \<Rightarrow> c\<lparr>ac_queue := ac_queue c @ [e]\<rparr>)"

definition run_ops :: "lock_op list \<Rightarrow> controller \<Rightarrow> controller" where
  "run_ops = fold lock_step"

lemma run_ops_simps [simp]: "run_ops [] c = c" "run_ops (x # xs) c = run_ops xs (lock_step x c)"
  "run_ops (xs @ ys) c = run_ops ys (run_ops xs c)"
  by (simp_all add: run_ops_def)

definition demands_lock :: "security_event \<Rightarrow> bool" where
  "demands_lock e = (e \<noteq> ActivityEvent)"

fun is_unlock :: "lock_op \<Rightarrow> bool" where
  "is_unlock (Unlock _) = True"
| "is_unlock _ = False"

lemmas controller_defs = register_activity_def transition_to_locked_def lock_now_def unlock_def apply_idle_logic_def handle_event_def

lemma handle_locked: "ac_state c = Locked \<Longrightarrow> ac_state (handle_event now e c) = Locked"
  by (simp add: controller_defs split: security_event.split)

lemma drain_queue [simp]: "ac_queue (drain_events now c) = []"
  by (induction now c rule: drain_events.induct) (subst drain_events.simps, simp split: list.split)

lemma drain_locked: "ac_state c = Locked \<Longrightarrow> ac_state (drain_events now c) = Locked"
proof (induction now c rule: drain_events.induct)
  case (1 now c)
  then show ?case by (subst drain_events.simps) (auto simp: handle_locked split: list.split)
qed

lemma drain_demand: "e \<in> set (ac_queue c) \<Longrightarrow> demands_lock e \<Longrightarrow> ac_state (drain_events now c) = Locked"
proof (induction now c rule: drain_events.induct)
  case (1 now c)
  show ?case
  proof (cases "ac_queue c")
    case (Cons x xs)
    have "ac_state (drain_events now (handle_event now x (c\<lparr>ac_queue := xs\<rparr>))) = Locked"
    proof (cases "x = e")
      case True
      with 1(3) have "ac_state (handle_event now x (c\<lparr>ac_queue := xs\<rparr>)) = Locked"
        by (simp add: controller_defs demands_lock_def split: security_event.split)
      then show ?thesis by (rule drain_locked)
    next
      case False
      with 1 Cons show ?thesis by auto
    qed
    with Cons show ?thesis by (subst drain_events.simps) simp
  qed (use 1 in simp)
qed

lemma tick_queue: "ac_queue (snd (tick now c)) = []"
  by (simp add: tick_def Let_def apply_idle_logic_def split: lock_state.split option.split)

lemma tick_locked: "ac_state (drain_events now c) = Locked \<Longrightarrow> tick now c = (Locked, drain_events now c)"
  by (simp add: tick_def Let_def apply_idle_logic_def)

lemma step_locked: "ac_state c = Locked \<Longrightarrow> \<not> is_unlock x \<Longrightarrow> ac_state (lock_step x c) = Locked"
  by (cases x) (simp_all add: lock_step_def controller_defs tick_locked drain_locked)

lemma run_locked: "ac_state c = Locked \<Longrightarrow> \<not> list_ex is_unlock xs \<Longrightarrow> ac_state (run_ops xs c) = Locked"
  by (induction xs arbitrary: c) (auto simp: step_locked)

lemma run_pending:
  "e \<in> set (ac_queue c) \<Longrightarrow> demands_lock e \<Longrightarrow> Tick t \<in> set xs \<Longrightarrow> \<not> list_ex is_unlock xs \<Longrightarrow> ac_state (run_ops xs c) = Locked"
proof (induction xs arbitrary: c)
  case (Cons x xs)
  show ?case
  proof (cases "\<exists>t. x = Tick t")
    case True
    then obtain t where "x = Tick t" by blast
    then have "ac_state (lock_step x c) = Locked"
      using Cons.prems by (simp add: lock_step_def tick_locked drain_demand)
    with Cons.prems show ?thesis by (simp add: run_locked)
  next
    case False
    then have "ac_queue c = ac_queue (lock_step x c) \<or> (\<exists>f. ac_queue (lock_step x c) = ac_queue c @ [f])"
      by (cases x) (simp_all add: lock_step_def controller_defs split: lock_state.split)
    with Cons.prems False show ?thesis by (auto intro!: Cons.IH)
  qed
qed simp

text \<open>C32: a demand to lock always wins. An event posted by a source of the operating system or by the agent locks
  the vault at the next tick, wherever it stands among user activity in the channel, and \<open>lock_now\<close> locks at
  once; from then on nothing but \<open>unlock\<close> leaves the locked state: no activity, no event, no tick.\<close>

theorem lock_demand_wins:
  assumes "\<not> list_ex is_unlock xs"
    and "(\<exists>r. demand = LockNow r) \<or> (\<exists>e t. demand = Post e \<and> demands_lock e \<and> Tick t \<in> set xs)"
  shows "ac_state (run_ops (before @ demand # xs) c) = Locked"
proof -
  let ?c = "lock_step demand (run_ops before c)"
  from assms(2) have "ac_state (run_ops xs ?c) = Locked"
  proof
    assume "\<exists>r. demand = LockNow r"
    then have "ac_state ?c = Locked" by (auto simp: lock_step_def controller_defs)
    with assms(1) show ?thesis by (simp add: run_locked)
  next
    assume "\<exists>e t. demand = Post e \<and> demands_lock e \<and> Tick t \<in> set xs"
    then obtain e t where e: "demand = Post e" "demands_lock e" "Tick t \<in> set xs" by blast
    then have "e \<in> set (ac_queue ?c)" by (simp add: lock_step_def)
    with e assms(1) show ?thesis by (simp add: run_pending)
  qed
  then show ?thesis by simp
qed

definition sample_controller :: controller where
  "sample_controller = \<lparr>ac_config = default_auto_lock, ac_state = Active, ac_last = Some 0, ac_queue = [], ac_sources = []\<rparr>"

theorem lock_demand_wins_witness:
  "ac_state (run_ops ([Activity 1, Post ActivityEvent] @ Post (OsLock Sleep) # [Post ActivityEvent, Tick 2, Activity 3, Tick 4]) sample_controller)
     = Locked"
  by (rule lock_demand_wins) (auto simp: demands_lock_def)

section \<open>Idle time\<close>

text \<open>Operations without user activity, and the reference: when a lock is demanded, and how many ticks come
  after the deadline.\<close>

fun no_activity :: "lock_op \<Rightarrow> bool" where
  "no_activity (Tick _) = True"
| "no_activity (LockNow _) = True"
| "no_activity (Post e) = demands_lock e"
| "no_activity _ = False"

fun lock_demanded :: "bool \<Rightarrow> lock_op list \<Rightarrow> bool" where
  "lock_demanded pending [] = False"
| "lock_demanded pending (LockNow _ # xs) = True"
| "lock_demanded pending (Tick _ # xs) = (pending \<or> lock_demanded pending xs)"
| "lock_demanded pending (Post e # xs) = lock_demanded (pending \<or> demands_lock e) xs"
| "lock_demanded pending (_ # xs) = lock_demanded pending xs"

fun tick_times :: "lock_op list \<Rightarrow> nat list" where
  "tick_times [] = []"
| "tick_times (Tick t # xs) = t # tick_times xs"
| "tick_times (_ # xs) = tick_times xs"

definition overdue :: "nat \<Rightarrow> nat \<Rightarrow> lock_op list \<Rightarrow> nat" where
  "overdue since timeout xs = length (filter (\<lambda>t. timeout \<le> t - since) (tick_times xs))"

definition idle_reference :: "nat \<Rightarrow> nat \<Rightarrow> bool \<Rightarrow> lock_op list \<Rightarrow> lock_state" where
  "idle_reference since timeout pending xs =
     (if lock_demanded pending xs then Locked
      else case overdue since timeout xs of 0 \<Rightarrow> Active | Suc 0 \<Rightarrow> Expired | _ \<Rightarrow> Locked)"

lemma quiet_no_unlock: "list_all no_activity xs \<Longrightarrow> \<not> list_ex is_unlock xs"
  by (induction xs) (auto elim: is_unlock.elims)

lemma demanded_locks:
  "lock_demanded (ac_queue c \<noteq> []) xs \<Longrightarrow> list_all demands_lock (ac_queue c) \<Longrightarrow> list_all no_activity xs \<Longrightarrow>
     ac_state (run_ops xs c) = Locked"
proof (induction "ac_queue c \<noteq> []" xs arbitrary: c rule: lock_demanded.induct)
  case (2 r xs)
  then show ?case by (auto simp: lock_step_def controller_defs intro!: run_locked dest: quiet_no_unlock)
next
  case (3 t xs)
  show ?case
  proof (cases "ac_queue c")
    case Nil
    with 3 have "lock_demanded (ac_queue (lock_step (Tick t) c) \<noteq> []) xs" "ac_queue (lock_step (Tick t) c) = []"
      by (simp_all add: lock_step_def tick_queue)
    with 3 Nil show ?thesis by simp
  next
    case (Cons e es)
    with 3 have "e \<in> set (ac_queue c)" "demands_lock e" by auto
    from run_pending [OF this, of t "Tick t # xs"] 3(4) quiet_no_unlock show ?thesis by fastforce
  qed
next
  case (4 e xs)
  then have "lock_demanded (ac_queue (lock_step (Post e) c) \<noteq> []) xs" by (simp add: lock_step_def)
  with 4 show ?case by (simp add: lock_step_def)
qed auto

lemma drain_empty: "ac_queue c = [] \<Longrightarrow> drain_events now c = c"
  by (subst drain_events.simps) simp

lemma quiet_tick:
  "ac_queue c = [] \<Longrightarrow> ac_state c = Active \<Longrightarrow> ac_last c = Some since \<Longrightarrow>
     snd (tick t c) = (if al_timeout (ac_config c) \<le> t - since then c\<lparr>ac_state := Expired\<rparr> else c)"
  "ac_queue c = [] \<Longrightarrow> ac_state c = Expired \<Longrightarrow> snd (tick t c) = c\<lparr>ac_state := Locked\<rparr>"
  by (simp_all add: tick_def Let_def drain_empty apply_idle_logic_def)

text \<open>Once a lock event is pending and none is handled, no tick comes any more.\<close>

lemma pending_no_tick: "\<not> lock_demanded True xs \<Longrightarrow> list_all no_activity xs \<Longrightarrow> tick_times xs = []"
proof (induction xs)
  case (Cons x xs)
  then show ?case by (cases x) auto
qed simp

lemma no_tick_state:
  "tick_times xs = [] \<Longrightarrow> \<not> lock_demanded p xs \<Longrightarrow> list_all no_activity xs \<Longrightarrow> ac_state (run_ops xs c) = ac_state c"
proof (induction xs arbitrary: p c)
  case (Cons x xs)
  then show ?case
  proof (cases x)
    case (Post e)
    with Cons.prems have "ac_state (run_ops xs (c\<lparr>ac_queue := ac_queue c @ [e]\<rparr>)) = ac_state (c\<lparr>ac_queue := ac_queue c @ [e]\<rparr>)"
      by (intro Cons.IH) auto
    with Post show ?thesis by (simp add: lock_step_def)
  qed auto
qed simp

lemma expired_run:
  "ac_state c = Expired \<Longrightarrow> ac_queue c = [] \<Longrightarrow> list_all no_activity xs \<Longrightarrow> \<not> lock_demanded False xs \<Longrightarrow>
     ac_state (run_ops xs c) = (if tick_times xs = [] then Expired else Locked)"
proof (induction xs)
  case (Cons x xs)
  show ?case
  proof (cases x)
    case (Tick t)
    then have "ac_state (lock_step x c) = Locked" using Cons.prems by (simp add: lock_step_def quiet_tick)
    with Cons.prems Tick quiet_no_unlock show ?thesis by (simp add: run_locked)
  next
    case (Post e)
    with Cons.prems have "tick_times xs = []" "\<not> lock_demanded True xs" using pending_no_tick by auto
    with no_tick_state [OF this] Cons.prems Post show ?thesis by (simp add: lock_step_def)
  qed (use Cons.prems in simp_all)
qed simp

lemma overdue_all: "sorted (t # tick_times xs) \<Longrightarrow> timeout \<le> t - since \<Longrightarrow> overdue since timeout xs = length (tick_times xs)"
  unfolding overdue_def by (subst filter_True) (auto dest: diff_le_mono)

lemma active_run:
  "ac_state c = Active \<Longrightarrow> ac_queue c = [] \<Longrightarrow> ac_last c = Some since \<Longrightarrow> list_all no_activity xs \<Longrightarrow>
     sorted (tick_times xs) \<Longrightarrow> \<not> lock_demanded False xs \<Longrightarrow>
     ac_state (run_ops xs c) = idle_reference since (al_timeout (ac_config c)) False xs"
proof (induction xs)
  case Nil
  then show ?case by (simp add: idle_reference_def overdue_def)
next
  case (Cons x xs)
  show ?case
  proof (cases x)
    case (Tick t)
    show ?thesis
    proof (cases "al_timeout (ac_config c) \<le> t - since")
      case True
      have "ac_state (run_ops xs (c\<lparr>ac_state := Expired\<rparr>)) = (if tick_times xs = [] then Expired else Locked)"
        using Cons.prems Tick by (intro expired_run) simp_all
      moreover have "overdue since (al_timeout (ac_config c)) (x # xs) = Suc (length (tick_times xs))"
        using overdue_all [of t xs] Cons.prems Tick True by (simp add: overdue_def)
      ultimately show ?thesis using Cons.prems Tick True
        by (cases "tick_times xs") (simp_all add: lock_step_def quiet_tick idle_reference_def)
    next
      case False
      with Cons Tick show ?thesis by (simp add: lock_step_def quiet_tick idle_reference_def overdue_def)
    qed
  next
    case (Post e)
    with Cons.prems have "tick_times xs = []" "\<not> lock_demanded True xs" using pending_no_tick by auto
    with no_tick_state [OF this] Cons.prems Post show ?thesis
      by (simp add: lock_step_def idle_reference_def overdue_def)
  qed (use Cons.prems in simp_all)
qed

text \<open>C31: the idle deadline is exact. After the last activity at \<open>since\<close>, whatever ticks and lock events follow
  (with a clock that does not go back), the controller is in the state of the reference: locked when a lock
  was demanded; otherwise active as long as no tick has seen \<open>timeout\<close> or more idle time, in the one-tick
  warning state after the first such tick, and locked after the second. So no vault stays open, and none is
  locked early, however the frontend times its ticks.\<close>

theorem idle_lock_exact:
  assumes "ac_state c = Active" "ac_last c = Some since" "ac_queue c = []"
    and "list_all no_activity xs" "sorted (tick_times xs)"
  shows "ac_state (run_ops xs c) = idle_reference since (al_timeout (ac_config c)) False xs"
proof (cases "lock_demanded False xs")
  case True
  with demanded_locks [of c xs] assms show ?thesis by (simp add: idle_reference_def)
next
  case False
  with active_run assms show ?thesis by blast
qed

theorem idle_lock_exact_witness:
  "ac_state (run_ops [Tick 5, Tick default_idle_timeout, Tick (default_idle_timeout + 1)] sample_controller)
     = idle_reference 0 default_idle_timeout False [Tick 5, Tick default_idle_timeout, Tick (default_idle_timeout + 1)]
   \<and> idle_reference 0 default_idle_timeout False [Tick 5, Tick default_idle_timeout, Tick (default_idle_timeout + 1)] = Locked"
proof
  have "al_timeout (ac_config sample_controller) = default_idle_timeout"
    by (simp add: sample_controller_def default_auto_lock_def)
  moreover have "ac_state (run_ops [Tick 5, Tick default_idle_timeout, Tick (default_idle_timeout + 1)] sample_controller)
     = idle_reference 0 (al_timeout (ac_config sample_controller)) False [Tick 5, Tick default_idle_timeout, Tick (default_idle_timeout + 1)]"
    by (rule idle_lock_exact) (simp_all add: sample_controller_def default_idle_timeout_def from_secs_def)
  ultimately show "ac_state (run_ops [Tick 5, Tick default_idle_timeout, Tick (default_idle_timeout + 1)] sample_controller)
     = idle_reference 0 default_idle_timeout False [Tick 5, Tick default_idle_timeout, Tick (default_idle_timeout + 1)]" by simp
qed (simp add: idle_reference_def overdue_def default_idle_timeout_def from_secs_def)

text \<open>The countdown a frontend shows agrees with the tick.\<close>

lemma countdown_exact:
  assumes "time_until_lock now c = Some d" "ac_queue c = []" "\<And>since. ac_last c = Some since \<Longrightarrow> since \<le> now"
  shows "fst (tick (now + x) c) = (if x < d then Active else Expired)"
  using assms by (auto simp: time_until_lock_def tick_def Let_def drain_empty apply_idle_logic_def split: lock_state.splits option.splits if_splits)

section \<open>The per-vault override (vault\_lock.rs)\<close>

datatype toml_value =
    TomlString string
  | TomlInteger int
  | TomlFloat "64 word"
  | TomlBoolean bool
  | TomlDatetime string
  | TomlArray "toml_value list"
  | TomlTable "(string \<times> toml_value) list"

definition lock_table_key :: string where
  "lock_table_key = ''lock''"

definition idle_timeout_key :: string where
  "idle_timeout_key = ''idle_timeout_seconds''"

record vault_lock_config =
  vl_idle_timeout_seconds :: nat

definition default_idle_timeout_seconds :: nat where
  "default_idle_timeout_seconds = 600"

text \<open>\<open>de\<close> is the derived deserialisation of the record from a TOML value.\<close>

definition from_extra ::
    "(toml_value \<Rightarrow> string + vault_lock_config) \<Rightarrow> (string, toml_value) hmap \<Rightarrow> security_error + vault_lock_config option" where
  "from_extra de extra = (case hget extra lock_table_key of
     None \<Rightarrow> Inr None
   | Some v \<Rightarrow> (case de v of Inl detail \<Rightarrow> Inl (InvalidVaultLockConfig detail) | Inr cfg \<Rightarrow> Inr (Some cfg)))"

fun as_table :: "toml_value \<Rightarrow> (string, toml_value) hmap option" where
  "as_table (TomlTable t) = Some t"
| "as_table _ = None"

fun as_integer :: "toml_value \<Rightarrow> int option" where
  "as_integer (TomlInteger i) = Some i"
| "as_integer _ = None"

definition idle_timeout_seconds_from_extra :: "(string, toml_value) hmap \<Rightarrow> nat option" where
  "idle_timeout_seconds_from_extra extra =
     Option.bind (hget extra lock_table_key) (\<lambda>v. Option.bind (as_table v) (\<lambda>t.
     Option.bind (hget t idle_timeout_key) (\<lambda>x. Option.bind (as_integer x) (\<lambda>i. if 0 \<le> i then Some (nat i) else None))))"

definition i64_max :: nat where
  "i64_max = 2 ^ 63 - 1"

definition apply_idle_timeout :: "nat option \<Rightarrow> (string, toml_value) hmap \<Rightarrow> (string, toml_value) hmap" where
  "apply_idle_timeout timeout extra =
     (let lock = (case Option.bind (hget extra lock_table_key) as_table of Some t \<Rightarrow> t | None \<Rightarrow> []);
          lock' = (case timeout of
              Some s \<Rightarrow> hput idle_timeout_key (TomlInteger (int (if s \<le> i64_max then s else i64_max))) lock
            | None \<Rightarrow> hdel idle_timeout_key lock);
          extra' = hput lock_table_key (TomlTable lock') extra
      in if lock' = [] then hdel lock_table_key extra' else extra')"

definition to_auto_lock_config :: "vault_lock_config \<Rightarrow> security_error + auto_lock_config" where
  "to_auto_lock_config v =
     (let cfg = \<lparr>al_timeout = from_secs (vl_idle_timeout_seconds v)\<rparr>
      in rbind (validate_config cfg) (\<lambda>_. Inr cfg))"

text \<open>What the derived deserialisation does with a table: the field when it is a non-negative integer, the
  default when it is missing, an error for any other value; other keys are ignored.\<close>

definition derives_lock_config :: "(toml_value \<Rightarrow> string + vault_lock_config) \<Rightarrow> bool" where
  "derives_lock_config de = (\<forall>t. case hget t idle_timeout_key of
     None \<Rightarrow> de (TomlTable t) = Inr \<lparr>vl_idle_timeout_seconds = default_idle_timeout_seconds\<rparr>
   | Some (TomlInteger i) \<Rightarrow> if 0 \<le> i then de (TomlTable t) = Inr \<lparr>vl_idle_timeout_seconds = nat i\<rparr> else \<not> is_ok (de (TomlTable t))
   | Some _ \<Rightarrow> \<not> is_ok (de (TomlTable t)))"

lemma derives_integer:
  "derives_lock_config de \<Longrightarrow> hget t idle_timeout_key = Some (TomlInteger (int n)) \<Longrightarrow>
     de (TomlTable t) = Inr \<lparr>vl_idle_timeout_seconds = n\<rparr>"
  unfolding derives_lock_config_def by (drule spec [of _ t]) simp

lemma derives_default:
  "derives_lock_config de \<Longrightarrow> hget t idle_timeout_key = None \<Longrightarrow>
     de (TomlTable t) = Inr \<lparr>vl_idle_timeout_seconds = default_idle_timeout_seconds\<rparr>"
  unfolding derives_lock_config_def by (drule spec [of _ t]) simp

lemma apply_some: "apply_idle_timeout (Some s) extra
    = hput lock_table_key (TomlTable (hput idle_timeout_key (TomlInteger (int (min s i64_max)))
        (case Option.bind (hget extra lock_table_key) as_table of Some t \<Rightarrow> t | None \<Rightarrow> []))) extra"
proof -
  have "hput k v m \<noteq> []" for k :: string and v :: toml_value and m by (induction m) auto
  then show ?thesis by (simp add: apply_idle_timeout_def Let_def min_def)
qed

lemma apply_lookup:
  "hget (apply_idle_timeout t extra) k =
     (if k \<noteq> lock_table_key then hget extra k
      else let lock = (case Option.bind (hget extra lock_table_key) as_table of Some t \<Rightarrow> t | None \<Rightarrow> []);
             lock' = (case t of
                 Some s \<Rightarrow> hput idle_timeout_key (TomlInteger (int (if s \<le> i64_max then s else i64_max))) lock
               | None \<Rightarrow> hdel idle_timeout_key lock)
           in if lock' = [] then None else Some (TomlTable lock'))"
  by (simp add: apply_idle_timeout_def Let_def)

text \<open>What \<open>vault set-lock\<close> writes, both readers give back. After setting a timeout the strict reader and the
  lenient one return it, clamped to the range of TOML integers; after removing it the lenient reader returns
  nothing and the strict one nothing or the default. Every other key of the entry, and of a well-formed lock
  table, is kept; only zero is refused as a timeout.\<close>

theorem lock_override_roundtrip:
  assumes "derives_lock_config de"
  shows "from_extra de (apply_idle_timeout (Some s) extra) = Inr (Some \<lparr>vl_idle_timeout_seconds = min s i64_max\<rparr>)
    \<and> idle_timeout_seconds_from_extra (apply_idle_timeout (Some s) extra) = Some (min s i64_max)
    \<and> from_extra de (apply_idle_timeout None extra) \<in> {Inr None, Inr (Some \<lparr>vl_idle_timeout_seconds = default_idle_timeout_seconds\<rparr>)}
    \<and> idle_timeout_seconds_from_extra (apply_idle_timeout None extra) = None
    \<and> (\<forall>t k. k \<noteq> lock_table_key \<longrightarrow> hget (apply_idle_timeout t extra) k = hget extra k)
    \<and> (\<forall>lock k. hget extra lock_table_key = Some (TomlTable lock) \<and> k \<noteq> idle_timeout_key \<longrightarrow>
         (\<exists>lock'. hget (apply_idle_timeout (Some s) extra) lock_table_key = Some (TomlTable lock') \<and> hget lock' k = hget lock k))
    \<and> (to_auto_lock_config \<lparr>vl_idle_timeout_seconds = s\<rparr> = Inr \<lparr>al_timeout = from_secs s\<rparr>) = (0 < s)"
proof -
  let ?lock = "case Option.bind (hget extra lock_table_key) as_table of Some t \<Rightarrow> t | None \<Rightarrow> []"
  have "from_extra de (apply_idle_timeout (Some s) extra) = Inr (Some \<lparr>vl_idle_timeout_seconds = min s i64_max\<rparr>)"
    by (simp add: apply_some from_extra_def derives_integer [OF assms])
  moreover have "idle_timeout_seconds_from_extra (apply_idle_timeout (Some s) extra) = Some (min s i64_max)"
    by (simp add: apply_some idle_timeout_seconds_from_extra_def)
  moreover have "from_extra de (apply_idle_timeout None extra)
      \<in> {Inr None, Inr (Some \<lparr>vl_idle_timeout_seconds = default_idle_timeout_seconds\<rparr>)}"
    using derives_default [OF assms, of "hdel idle_timeout_key ?lock"]
    by (auto simp: from_extra_def apply_lookup Let_def)
  moreover have "idle_timeout_seconds_from_extra (apply_idle_timeout None extra) = None"
    by (auto simp: idle_timeout_seconds_from_extra_def apply_lookup Let_def)
  moreover have "(to_auto_lock_config \<lparr>vl_idle_timeout_seconds = s\<rparr> = Inr \<lparr>al_timeout = from_secs s\<rparr>) = (0 < s)"
    by (simp add: to_auto_lock_config_def Let_def validate_config_def from_secs_def)
  ultimately show ?thesis by (auto simp: apply_lookup apply_some)
qed

definition derived_lock_config :: "toml_value \<Rightarrow> string + vault_lock_config" where
  "derived_lock_config v = (case as_table v of
     None \<Rightarrow> Inl ''invalid type''
   | Some t \<Rightarrow> (case hget t idle_timeout_key of
       None \<Rightarrow> Inr \<lparr>vl_idle_timeout_seconds = default_idle_timeout_seconds\<rparr>
     | Some (TomlInteger i) \<Rightarrow> if 0 \<le> i then Inr \<lparr>vl_idle_timeout_seconds = nat i\<rparr> else Inl ''invalid value''
     | Some _ \<Rightarrow> Inl ''invalid type''))"

theorem lock_override_roundtrip_witness:
  "from_extra derived_lock_config (apply_idle_timeout (Some 300) [(''sync'', TomlBoolean True)])
     = Inr (Some \<lparr>vl_idle_timeout_seconds = min 300 i64_max\<rparr>)"
proof -
  have "derives_lock_config derived_lock_config"
    by (auto simp: derives_lock_config_def derived_lock_config_def split: option.split toml_value.split)
  from lock_override_roundtrip [OF this] show ?thesis by blast
qed

section \<open>The clipboard (clipboard.rs)\<close>

text \<open>Every call of a backend comes with what another application copied since the previous call, and with the
  error of the platform, if any.\<close>

record clip =
  cl_text :: string
  cl_calls :: "(string option \<times> string option) list"

definition clip_call :: "(clip \<Rightarrow> 'a \<times> clip) \<Rightarrow> (clip, string, 'a) act" where
  "clip_call f c = (case cl_calls c of
     [] \<Rightarrow> (case f c of (x, c') \<Rightarrow> (Inr x, c'))
   | (other, err) # rest \<Rightarrow>
       (let c0 = \<lparr>cl_text = (case other of None \<Rightarrow> cl_text c | Some t \<Rightarrow> t), cl_calls = rest\<rparr>
        in case err of Some e \<Rightarrow> (Inl e, c0) | None \<Rightarrow> (case f c0 of (x, c') \<Rightarrow> (Inr x, c'))))"

definition clip_set_text :: "string \<Rightarrow> (clip, string, unit) act" where
  "clip_set_text t = clip_call (\<lambda>c. ((), c\<lparr>cl_text := t\<rparr>))"

definition clip_get_text :: "(clip, string, string) act" where
  "clip_get_text = clip_call (\<lambda>c. (cl_text c, c))"

datatype timer_wait = Cancelled | TimedOut

definition run_autoclear :: "string \<Rightarrow> timer_wait \<Rightarrow> clip \<Rightarrow> clip" where
  "run_autoclear comparison wait c = (case wait of
     Cancelled \<Rightarrow> c
   | TimedOut \<Rightarrow> (case clip_get_text c of
       (Inr current, c') \<Rightarrow> if current = comparison then snd (clip_set_text '''' c') else c'
     | (Inl _, c') \<Rightarrow> c'))"

text \<open>\<open>spawned\<close> is the answer of the thread library; the guard is the text its timer compares with.\<close>

definition copy_with_autoclear_inner :: "string + unit \<Rightarrow> string \<Rightarrow> (clip, security_error, string) act" where
  "copy_with_autoclear_inner spawned payload =
     abind (aerr ClipboardIo (clip_set_text payload)) (\<lambda>_.
     case spawned of
       Inl detail \<Rightarrow> athrow (EventSourceStart ''clipboard-autoclear'' detail)
     | Inr _ \<Rightarrow> areturn payload)"

text \<open>\<open>opened\<close> is the answer of the platform to the timer's own clipboard handle.\<close>

definition copy_with_autoclear :: "string + unit \<Rightarrow> string + unit \<Rightarrow> string \<Rightarrow> (clip, security_error, string) act" where
  "copy_with_autoclear opened spawned payload =
     (case opened of Inl e \<Rightarrow> athrow (ClipboardUnavailable e) | Inr _ \<Rightarrow> copy_with_autoclear_inner spawned payload)"

text \<open>The timer leaves every other text in place: it clears only after it has read back the copied text, and
  then, when no other application interferes, the clipboard is empty.\<close>

lemma autoclear_spares_others:
  assumes "cl_calls c = []"
  shows "cl_text (run_autoclear t TimedOut c) = (if cl_text c = t then '''' else cl_text c)"
    "run_autoclear t Cancelled c = c"
  using assms by (simp_all add: run_autoclear_def clip_get_text_def clip_set_text_def clip_call_def)

lemma copied_then_cleared:
  assumes "copy_with_autoclear opened spawned t c = (Inr g, c')" "cl_calls c' = []"
  shows "cl_text c' = t \<and> cl_text (run_autoclear g TimedOut c') = ''''"
proof -
  obtain r c1 where w: "clip_set_text t c = (r, c1)" by fastforce
  with assms(1) have "g = t" "c1 = c'" "r = Inr ()"
    by (cases r; cases opened; cases spawned; simp add: copy_with_autoclear_def copy_with_autoclear_inner_def abind_def aerr_def)+
  moreover from w \<open>r = Inr ()\<close> have "cl_text c1 = t"
    by (cases "cl_calls c") (auto simp: clip_set_text_def clip_call_def Let_def split: option.splits prod.splits)
  ultimately show ?thesis using assms(2) by (simp add: autoclear_spares_others)
qed

text \<open>Two limits. What another application copies between the read and the clear is lost; and when the timer
  thread cannot be started, the error leaves the secret on the clipboard with no timer to clear it.\<close>

lemma autoclear_can_stomp:
  "cl_text (run_autoclear t TimedOut \<lparr>cl_text = t, cl_calls = [(None, None), (Some other, None)]\<rparr>) = ''''"
  by (simp add: run_autoclear_def clip_get_text_def clip_set_text_def clip_call_def)

lemma spawn_failure_leaves_secret:
  assumes "cl_calls c = []"
  shows "copy_with_autoclear (Inr ()) (Inl e) t c = (Inl (EventSourceStart ''clipboard-autoclear'' e), c\<lparr>cl_text := t\<rparr>)"
  using assms by (simp add: copy_with_autoclear_def copy_with_autoclear_inner_def abind_def aerr_def clip_set_text_def clip_call_def)


text \<open>The documented bound of one second is not enforced: one nanosecond is a valid timeout.\<close>

lemma subsecond_timeout_valid: "validate_config \<lparr>al_timeout = 1\<rparr> = Inr ()"
  by (simp add: validate_config_def)

end
