(* ===== verification/Kdbx.thy ===== *)
theory Kdbx
  imports Prelude Strings
begin

text \<open>
  The in-memory KDBX database the vault works on (\<open>vendor/keepass/src/db\<close>): entries and groups in maps by
  UUID, the attachment pool, tombstones, and the operations the vault calls. Fields that no operation here
  reads or writes (icons, colours, auto-type, custom data of entries and groups) are one value of any type.
  A new UUID and the current time are arguments. \<open>Panic\<close> is an \<open>unwrap\<close> or \<open>expect\<close> that fails; a loop
  or recursion that may not end is a partial function, whose value is then \<open>None\<close>.
\<close>

type_synonym uuid = nat
type_synonym time = int

section \<open>Data\<close>

datatype 'a secret_value = Unprotected (exposed: 'a) | Protected (exposed: 'a)

definition is_protected :: "'a secret_value \<Rightarrow> bool" where
  "is_protected v = (case v of Protected _ \<Rightarrow> True | Unprotected _ \<Rightarrow> False)"

record times =
  tm_creation :: "time option"
  tm_last_modification :: "time option"
  tm_last_access :: "time option"
  tm_expiry :: "time option"
  tm_location_changed :: "time option"
  tm_expires :: "bool option"
  tm_usage_count :: "nat option"

definition new_times :: "time \<Rightarrow> times" where
  "new_times now = \<lparr>tm_creation = Some now, tm_last_modification = Some now, tm_last_access = Some now,
     tm_expiry = None, tm_location_changed = Some now, tm_expires = Some False, tm_usage_count = Some 0\<rparr>"

text \<open>\<open>Times::default\<close>\<close>

definition no_times :: times where
  "no_times = \<lparr>tm_creation = None, tm_last_modification = None, tm_last_access = None,
     tm_expiry = None, tm_location_changed = None, tm_expires = None, tm_usage_count = None\<rparr>"

record 'x body =
  eb_id :: uuid
  eb_parent :: uuid
  eb_fields :: "(string, string secret_value) hmap"
  eb_tags :: "string list"
  eb_times :: times
  eb_attachments :: "(string, nat) hmap"
  eb_other :: 'x

datatype 'x entry = Entry (en_body: "'x body") (en_history: "'x entry list option")

record 'x group =
  gr_id :: uuid
  gr_parent :: "uuid option"
  gr_name :: string
  gr_groups :: "uuid list"
  gr_entries :: "uuid list"
  gr_times :: times
  gr_last_visible :: "uuid option"
  gr_other :: 'x

record attachment =
  at_entries :: "(uuid \<times> nat option) list"
  at_data :: "bytes secret_value"

datatype custom_value = CustomString string | CustomBinary bytes

record meta =
  me_recyclebin_enabled :: "bool option"
  me_recyclebin_uuid :: "uuid option"
  me_recyclebin_changed :: "time option"
  me_history_max_items :: "int option"
  me_custom_data :: "(string, custom_value option) hmap"

record 'x db =
  db_meta :: meta
  db_root :: uuid
  db_attachments :: "(nat, attachment) hmap"
  db_entries :: "(uuid, 'x entry) hmap"
  db_groups :: "(uuid, 'x group) hmap"
  db_deleted :: "(uuid, time option) hmap"

abbreviation entry_at :: "'x db \<Rightarrow> uuid \<Rightarrow> 'x entry option" where
  "entry_at db e \<equiv> hget (db_entries db) e"

abbreviation group_at :: "'x db \<Rightarrow> uuid \<Rightarrow> 'x group option" where
  "group_at db g \<equiv> hget (db_groups db) g"

definition map_body :: "('x body \<Rightarrow> 'x body) \<Rightarrow> 'x entry \<Rightarrow> 'x entry" where
  "map_body f e = Entry (f (en_body e)) (en_history e)"

lemma map_body_simps [simp]: "en_body (map_body f e) = f (en_body e)" "en_history (map_body f e) = en_history e"
  by (simp_all add: map_body_def)

definition edit_entry :: "uuid \<Rightarrow> ('x entry \<Rightarrow> 'x entry) \<Rightarrow> 'x db \<Rightarrow> 'x db" where
  "edit_entry e f db = db\<lparr>db_entries := hmodify e f (db_entries db)\<rparr>"

definition edit_group :: "uuid \<Rightarrow> ('x group \<Rightarrow> 'x group) \<Rightarrow> 'x db \<Rightarrow> 'x db" where
  "edit_group g f db = db\<lparr>db_groups := hmodify g f (db_groups db)\<rparr>"

lemma edit_simps [simp]:
  "entry_at (edit_entry e f db) k = (if k = e then map_option f (entry_at db e) else entry_at db k)"
  "group_at (edit_entry e f db) k = group_at db k"
  "group_at (edit_group g h db) k = (if k = g then map_option h (group_at db g) else group_at db k)"
  "entry_at (edit_group g h db) k = entry_at db k"
  "db_root (edit_entry e f db) = db_root db" "db_root (edit_group g h db) = db_root db"
  "db_meta (edit_entry e f db) = db_meta db" "db_meta (edit_group g h db) = db_meta db"
  "db_attachments (edit_entry e f db) = db_attachments db" "db_attachments (edit_group g h db) = db_attachments db"
  "db_deleted (edit_entry e f db) = db_deleted db" "db_deleted (edit_group g h db) = db_deleted db"
  by (simp_all add: edit_entry_def edit_group_def)

text \<open>Insertion into a \<open>HashSet\<close>, with some iteration order.\<close>

definition set_insert :: "'a \<Rightarrow> 'a list \<Rightarrow> 'a list" where
  "set_insert x xs = (if x \<in> set xs then xs else xs @ [x])"

lemma set_set_insert [simp]: "set (set_insert x xs) = insert x (set xs)"
  by (auto simp: set_insert_def)

lemma distinct_set_insert [simp]: "distinct xs \<Longrightarrow> distinct (set_insert x xs)"
  by (simp add: set_insert_def)

section \<open>Entries\<close>

definition en_get :: "string \<Rightarrow> 'x entry \<Rightarrow> string option" where
  "en_get key e = map_option exposed (hget (eb_fields (en_body e)) key)"

definition body_set :: "string \<Rightarrow> string secret_value \<Rightarrow> 'x body \<Rightarrow> 'x body" where
  "body_set key v b = b\<lparr>eb_fields := hput key v (eb_fields b)\<rparr>"

definition new_entry :: "uuid \<Rightarrow> uuid \<Rightarrow> time \<Rightarrow> 'x \<Rightarrow> 'x entry" where
  "new_entry e g now blank = Entry \<lparr>eb_id = e, eb_parent = g, eb_fields = [], eb_tags = [], eb_times = new_times now,
     eb_attachments = [], eb_other = blank\<rparr> (Some [])"

text \<open>\<open>History::add_entry\<close>: newest first, without a history of its own.\<close>

definition history_add :: "'x entry \<Rightarrow> 'x entry list \<Rightarrow> 'x entry list" where
  "history_add e h = Entry (en_body e) None # h"

definition push_history :: "'x entry \<Rightarrow> 'x entry \<Rightarrow> 'x entry" where
  "push_history old e = Entry (en_body e) (Some (history_add old (case en_history e of None \<Rightarrow> [] | Some h \<Rightarrow> h)))"

definition set_location_changed :: "time \<Rightarrow> 'x body \<Rightarrow> 'x body" where
  "set_location_changed now b = b\<lparr>eb_times := (eb_times b)\<lparr>tm_location_changed := Some now\<rparr>\<rparr>"

definition set_last_modification :: "time \<Rightarrow> 'x body \<Rightarrow> 'x body" where
  "set_last_modification now b = b\<lparr>eb_times := (eb_times b)\<lparr>tm_last_modification := Some now\<rparr>\<rparr>"

definition set_parent :: "uuid \<Rightarrow> 'x body \<Rightarrow> 'x body" where
  "set_parent g b = b\<lparr>eb_parent := g\<rparr>"

definition list_entry :: "uuid \<Rightarrow> 'x group \<Rightarrow> 'x group" where
  "list_entry e gr = gr\<lparr>gr_entries := set_insert e (gr_entries gr)\<rparr>"

definition unlist_entry :: "uuid \<Rightarrow> 'x group \<Rightarrow> 'x group" where
  "unlist_entry e gr = gr\<lparr>gr_entries := removeAll e (gr_entries gr)\<rparr>"

definition group_add_entry :: "uuid \<Rightarrow> uuid \<Rightarrow> time \<Rightarrow> 'x \<Rightarrow> 'x db \<Rightarrow> 'x db" where
  "group_add_entry g fresh now blank db =
     (let db1 = edit_group g (list_entry fresh) db
      in db1\<lparr>db_entries := hput fresh (new_entry fresh g now blank) (db_entries db1)\<rparr>)"

text \<open>\<open>EntryMut::move_to\<close>; the error is the missing destination.\<close>

definition entry_move_to :: "uuid \<Rightarrow> uuid \<Rightarrow> ('x db, uuid fault, unit) act" where
  "entry_move_to e g db =
     (case group_at db g of
        None \<Rightarrow> (Inl (Failed g), db)
      | Some _ \<Rightarrow> (case entry_at db e of
          None \<Rightarrow> (Inl Panic, db)
        | Some en \<Rightarrow> (let p = eb_parent (en_body en)
            in if group_at db p = None then (Inl Panic, db)
               else (Inr (), edit_entry e (map_body (set_parent g)) (edit_group g (list_entry e) (edit_group p (unlist_entry e) db))))))"

text \<open>\<open>track_changes().move_to()\<close>: the guard records the old state in the history when it is dropped, which it
  is on success and on failure.\<close>

definition tracked_move_to :: "uuid \<Rightarrow> uuid \<Rightarrow> time \<Rightarrow> ('x db, uuid fault, unit) act" where
  "tracked_move_to e g now db =
     (case entry_at db e of
        None \<Rightarrow> (Inl Panic, db)
      | Some old \<Rightarrow> (case entry_move_to e g db of
          (Inl Panic, db') \<Rightarrow> (Inl Panic, db')
        | (Inl (Failed x), db') \<Rightarrow> (Inl (Failed x), edit_entry e (push_history old) db')
        | (Inr _, db') \<Rightarrow> (Inr (), edit_entry e (push_history old) (edit_entry e (map_body (set_location_changed now)) db'))))"

section \<open>Attachments\<close>

text \<open>The first free index of the pool.\<close>

function (sequential) next_free_from :: "(nat, attachment) hmap \<Rightarrow> nat \<Rightarrow> nat" where
  "next_free_from pool i = (if i \<in> fst ` set pool then next_free_from pool (Suc i) else i)"
  by pat_completeness auto

termination next_free_from
proof (relation "measure (\<lambda>(pool, i). card {k \<in> fst ` set pool. i \<le> k})")
  fix pool :: "(nat, attachment) hmap" and i
  assume "i \<in> fst ` set pool"
  then have "{k \<in> fst ` set pool. Suc i \<le> k} \<subset> {k \<in> fst ` set pool. i \<le> k}"
    by (intro psubsetI) (auto simp: set_eq_iff intro!: exI [of _ i])
  then show "((pool, Suc i), (pool, i)) \<in> measure (\<lambda>(pool, i). card {k \<in> fst ` set pool. i \<le> k})"
    by (simp add: psubset_card_mono)
qed simp

declare next_free_from.simps [simp del]

definition next_free :: "(nat, attachment) hmap \<Rightarrow> nat" where
  "next_free pool = next_free_from pool 0"

definition drop_names :: "nat \<Rightarrow> 'x body \<Rightarrow> 'x body" where
  "drop_names a b = b\<lparr>eb_attachments := filter (\<lambda>(n, k). k \<noteq> a) (eb_attachments b)\<rparr>"

text \<open>\<open>AttachmentMut::remove\<close>: drop the names that refer to it in the entries it knows of, then the binary.\<close>

definition edit_version :: "nat option \<Rightarrow> ('x body \<Rightarrow> 'x body) \<Rightarrow> 'x entry \<Rightarrow> 'x entry" where
  "edit_version i f e = (case i of
     None \<Rightarrow> map_body f e
   | Some n \<Rightarrow> Entry (en_body e) (map_option (\<lambda>h. if n < length h then h[n := map_body f (h ! n)] else h) (en_history e)))"

definition attachment_remove :: "nat \<Rightarrow> 'x db \<Rightarrow> 'x db" where
  "attachment_remove a db = (case hget (db_attachments db) a of
     None \<Rightarrow> db
   | Some att \<Rightarrow>
       (let db1 = fold (\<lambda>(e, i). edit_entry e (edit_version i (drop_names a))) (at_entries att) db
        in db1\<lparr>db_attachments := hdel a (db_attachments db1)\<rparr>))"

text \<open>Forget that entry \<open>e\<close> refers to the binary, and remove the binary with its last referent.\<close>

definition release_attachment :: "uuid \<Rightarrow> nat \<Rightarrow> 'x db \<Rightarrow> 'x db" where
  "release_attachment e a db = (case hget (db_attachments db) a of
     None \<Rightarrow> db
   | Some att \<Rightarrow>
       (let rest = filter (\<lambda>(e', _). e' \<noteq> e) (at_entries att);
            db1 = db\<lparr>db_attachments := hput a (att\<lparr>at_entries := rest\<rparr>) (db_attachments db)\<rparr>
        in if rest = [] then attachment_remove a db1 else db1))"

definition remove_attachment_by_id :: "uuid \<Rightarrow> nat \<Rightarrow> 'x db \<Rightarrow> 'x db" where
  "remove_attachment_by_id e a db = release_attachment e a (edit_entry e (map_body (drop_names a)) db)"

definition remove_attachment_by_name :: "uuid \<Rightarrow> string \<Rightarrow> 'x db \<Rightarrow> 'x db" where
  "remove_attachment_by_name e name db =
     (case Option.bind (entry_at db e) (\<lambda>en. hget (eb_attachments (en_body en)) name) of
        None \<Rightarrow> db
      | Some a \<Rightarrow> release_attachment e a
          (edit_entry e (map_body (\<lambda>b. b\<lparr>eb_attachments := hdel name (eb_attachments b)\<rparr>)) db))"

definition entry_add_attachment :: "uuid \<Rightarrow> string \<Rightarrow> bytes secret_value \<Rightarrow> 'x db \<Rightarrow> 'x db" where
  "entry_add_attachment e name data db =
     (let a = next_free (db_attachments db);
          old = Option.bind (entry_at db e) (\<lambda>en. hget (eb_attachments (en_body en)) name);
          db1 = db\<lparr>db_attachments := hput a \<lparr>at_entries = [(e, None)], at_data = data\<rparr> (db_attachments db)\<rparr>;
          db2 = edit_entry e (map_body (\<lambda>b. b\<lparr>eb_attachments := hput name a (eb_attachments b)\<rparr>)) db1
      in case old of None \<Rightarrow> db2 | Some a0 \<Rightarrow> remove_attachment_by_id e a0 db2)"

section \<open>Removing an entry\<close>

text \<open>The loop over the attachments of the entry takes a reference to each, which must exist.\<close>

fun release_all :: "uuid \<Rightarrow> nat list \<Rightarrow> ('x db, 'e fault, unit) act" where
  "release_all e [] db = (Inr (), db)"
| "release_all e (a # as) db =
     (if hget (db_attachments db) a = None then (Inl Panic, db) else release_all e as (release_attachment e a db))"

definition entry_remove :: "uuid \<Rightarrow> ('x db, 'e fault, unit) act" where
  "entry_remove e db = (case entry_at db e of
     None \<Rightarrow> (Inl Panic, db)
   | Some en \<Rightarrow> abind (release_all e (map snd (eb_attachments (en_body en)))) (\<lambda>_ db1.
       let db2 = db1\<lparr>db_entries := hdel e (db_entries db1)\<rparr>; p = eb_parent (en_body en)
       in if group_at db2 p = None then (Inl Panic, db2)
          else (Inr (), (edit_group p (unlist_entry e) db2)\<lparr>db_groups :=
            map (\<lambda>(g, gr). (g, if gr_last_visible gr = Some e then gr\<lparr>gr_last_visible := None\<rparr> else gr))
              (db_groups (edit_group p (unlist_entry e) db2))\<rparr>)) db)"

text \<open>\<open>track_changes().remove()\<close>: the tombstone first; the dropped guard no longer finds the entry.\<close>

definition tracked_remove :: "uuid \<Rightarrow> time \<Rightarrow> ('x db, 'e fault, unit) act" where
  "tracked_remove e now db = entry_remove e (db\<lparr>db_deleted := hput e (Some now) (db_deleted db)\<rparr>)"

section \<open>Groups\<close>

definition new_group :: "uuid \<Rightarrow> uuid \<Rightarrow> time \<Rightarrow> 'x \<Rightarrow> 'x group" where
  "new_group g parent now blank = \<lparr>gr_id = g, gr_parent = Some parent, gr_name = [], gr_groups = [], gr_entries = [],
     gr_times = new_times now, gr_last_visible = None, gr_other = blank\<rparr>"

definition list_group :: "uuid \<Rightarrow> 'x group \<Rightarrow> 'x group" where
  "list_group g gr = gr\<lparr>gr_groups := set_insert g (gr_groups gr)\<rparr>"

definition unlist_group :: "uuid \<Rightarrow> 'x group \<Rightarrow> 'x group" where
  "unlist_group g gr = gr\<lparr>gr_groups := removeAll g (gr_groups gr)\<rparr>"

definition group_add_group :: "uuid \<Rightarrow> uuid \<Rightarrow> time \<Rightarrow> 'x \<Rightarrow> 'x db \<Rightarrow> 'x db" where
  "group_add_group parent fresh now blank db =
     (let db1 = edit_group parent (list_group fresh) db
      in db1\<lparr>db_groups := hput fresh (new_group fresh parent now blank) (db_groups db1)\<rparr>)"

definition recycle_bin :: "'x db \<Rightarrow> uuid option" where
  "recycle_bin db = (case me_recyclebin_uuid (db_meta db) of
     None \<Rightarrow> None
   | Some g \<Rightarrow> if group_at db g = None then None else Some g)"

datatype move_group_error = CannotMoveRoot | MoveNotFound uuid | WouldCreateCycle

text \<open>The loop up the parents.\<close>

partial_function (option) climbs_to :: "'x db \<Rightarrow> uuid \<Rightarrow> uuid option \<Rightarrow> bool option" where
  "climbs_to db target cur = (case cur of
     None \<Rightarrow> Some False
   | Some c \<Rightarrow> if c = target then Some True
       else climbs_to db target (Option.bind (group_at db c) gr_parent))"

definition group_move_to :: "uuid \<Rightarrow> uuid \<Rightarrow> 'x db \<Rightarrow> ((move_group_error fault + unit) \<times> 'x db) option" where
  "group_move_to g new_parent db = (case group_at db g of
     None \<Rightarrow> Some (Inl Panic, db)
   | Some gr \<Rightarrow> (case gr_parent gr of
       None \<Rightarrow> Some (Inl (Failed CannotMoveRoot), db)
     | Some old \<Rightarrow>
         if group_at db new_parent = None then Some (Inl (Failed (MoveNotFound new_parent)), db)
         else Option.bind (climbs_to db g (Some new_parent)) (\<lambda>cycle.
           if cycle then Some (Inl (Failed WouldCreateCycle), db)
           else if group_at db old = None then Some (Inl Panic, db)
           else Some (Inr (), edit_group g (\<lambda>x. x\<lparr>gr_parent := Some new_parent\<rparr>)
             (edit_group new_parent (list_group g) (edit_group old (unlist_group g) db))))))"

definition tracked_group_move_to :: "uuid \<Rightarrow> uuid \<Rightarrow> time \<Rightarrow> 'x db \<Rightarrow> ((move_group_error fault + unit) \<times> 'x db) option" where
  "tracked_group_move_to g new_parent now db = Option.bind (group_move_to g new_parent db) (\<lambda>r.
     case r of
       (Inl e, db') \<Rightarrow> Some (Inl e, db')
     | (Inr _, db') \<Rightarrow> Some (Inr (), edit_group g (\<lambda>x. x\<lparr>gr_times := (gr_times x)\<lparr>tm_location_changed := Some now\<rparr>\<rparr>) db'))"

text \<open>The recursion down the tree, in the order of the groups' child lists; a missing group panics.\<close>

fun option_all :: "('a \<Rightarrow> 'b option) \<Rightarrow> 'a list \<Rightarrow> 'b list option" where
  "option_all f [] = Some []"
| "option_all f (x # xs) = Option.bind (f x) (\<lambda>y. Option.bind (option_all f xs) (\<lambda>ys. Some (y # ys)))"

lemma option_all_mono [partial_function_mono]:
  assumes "\<And>x. mono_option (\<lambda>f. B x f)"
  shows "mono_option (\<lambda>f. option_all (\<lambda>x. B x f) xs)"
  by (induction xs) (auto intro!: partial_function_mono assms)

partial_function (option) subtree :: "'x db \<Rightarrow> uuid \<Rightarrow> uuid list option" where
  "subtree db g = (case group_at db g of
     None \<Rightarrow> None
   | Some gr \<Rightarrow> Option.bind (option_all (subtree db) (gr_groups gr)) (\<lambda>gss. Some (g # concat gss)))"

section \<open>Saving and reopening\<close>

text \<open>What an entry and the attachments become between \<open>save\<close> and the next \<open>open\<close>. The writer joins tags with commas
  and writes the binaries in the order of their indices, but each reference with its index as it is; the reader
  splits at commas, numbers the binaries from 0, and drops references that do not resolve, and takes a text without a visible
  character for none (\<open>cs_opt_string\<close>): such a tag list is empty, and a field with such a value is gone, unless it was
  protected and not empty, for then its text is the base64 of a cipher text. An entry without history reads back with an empty
  one, as \<open>with_id\<close> makes it; the versions of the history have none.\<close>

definition is_blank :: "string \<Rightarrow> bool" where
  "is_blank s = list_all is_space s"

definition reopen_tags :: "string list \<Rightarrow> string list" where
  "reopen_tags ts = (let s = join '','' ts in if is_blank s then [] else split_on CHR '','' s)"

definition reads_back :: "string secret_value \<Rightarrow> bool" where
  "reads_back v = (case v of Unprotected s \<Rightarrow> \<not> is_blank s | Protected s \<Rightarrow> s \<noteq> [])"

definition dump_attachments :: "(nat, attachment) hmap \<Rightarrow> bytes secret_value list" where
  "dump_attachments pool = map (\<lambda>(_, a). at_data a) (sort_key fst pool)"

definition load_attachments :: "bytes secret_value list \<Rightarrow> (nat, attachment) hmap" where
  "load_attachments ds = map (\<lambda>(i, d). (i, \<lparr>at_entries = [], at_data = d\<rparr>)) (zip [0..<length ds] ds)"

definition reopen_body :: "nat \<Rightarrow> 'x body \<Rightarrow> 'x body" where
  "reopen_body n b = b\<lparr>eb_fields := filter (\<lambda>(_, v). reads_back v) (eb_fields b), eb_tags := reopen_tags (eb_tags b),
     eb_attachments := filter (\<lambda>(_, a). a < n) (eb_attachments b)\<rparr>"

definition reopen_entry :: "nat \<Rightarrow> 'x entry \<Rightarrow> 'x entry" where
  "reopen_entry n e = Entry (reopen_body n (en_body e)) (Some (case en_history e of
     None \<Rightarrow> []
   | Some hs \<Rightarrow> map (\<lambda>h. Entry (reopen_body n (en_body h)) None) hs))"

definition reopen :: "'x db \<Rightarrow> 'x db" where
  "reopen db = (let ds = dump_attachments (db_attachments db)
     in db\<lparr>db_attachments := load_attachments ds,
           db_entries := map (\<lambda>(e, en). (e, reopen_entry (length ds) en)) (db_entries db)\<rparr>)"

end
