(* ===== verification/KdbxTree.thy ===== *)
theory KdbxTree
  imports Kdbx
begin

text \<open>
  The well-formedness of a KDBX database: the groups are a tree under the root, by parent links and by child
  lists, and every entry is listed by exactly its parent. Every operation of \<open>Kdbx\<close> keeps it, and on a
  well-formed database the loops up and down the tree end.
\<close>

section \<open>The invariant\<close>

inductive rooted :: "uuid \<Rightarrow> (uuid \<rightharpoonup> 'x group) \<Rightarrow> uuid \<Rightarrow> bool" for root :: uuid and G :: "uuid \<rightharpoonup> 'x group" where
  root: "rooted root G root"
| child: "G g = Some gr \<Longrightarrow> gr_parent gr = Some p \<Longrightarrow> rooted root G p \<Longrightarrow> rooted root G g"

inductive_cases rootedE: "rooted root G g"

definition group_ok :: "uuid \<Rightarrow> (uuid \<rightharpoonup> 'x group) \<Rightarrow> (uuid \<rightharpoonup> 'x entry) \<Rightarrow> uuid \<Rightarrow> 'x group \<Rightarrow> bool" where
  "group_ok root G E g gr \<longleftrightarrow>
     gr_id gr = g \<and> distinct (gr_groups gr) \<and> distinct (gr_entries gr) \<and> (gr_parent gr = None \<longleftrightarrow> g = root)
   \<and> (\<forall>p. gr_parent gr = Some p \<longrightarrow> (\<exists>pg. G p = Some pg \<and> g \<in> set (gr_groups pg)))
   \<and> (\<forall>c \<in> set (gr_groups gr). \<exists>cg. G c = Some cg \<and> gr_parent cg = Some g)
   \<and> (\<forall>e \<in> set (gr_entries gr). \<exists>en. E e = Some en \<and> eb_parent (en_body en) = g)"

definition entry_ok :: "(uuid \<rightharpoonup> 'x group) \<Rightarrow> uuid \<Rightarrow> 'x entry \<Rightarrow> bool" where
  "entry_ok G e en \<longleftrightarrow> eb_id (en_body en) = e \<and> (\<exists>gr. G (eb_parent (en_body en)) = Some gr \<and> e \<in> set (gr_entries gr))"

definition tree_ok :: "uuid \<Rightarrow> (uuid \<rightharpoonup> 'x group) \<Rightarrow> (uuid \<rightharpoonup> 'x entry) \<Rightarrow> bool" where
  "tree_ok root G E \<longleftrightarrow> root \<in> dom G
   \<and> (\<forall>g gr. G g = Some gr \<longrightarrow> group_ok root G E g gr \<and> rooted root G g)
   \<and> (\<forall>e en. E e = Some en \<longrightarrow> entry_ok G e en)"

definition db_ok :: "'x db \<Rightarrow> bool" where
  "db_ok db \<longleftrightarrow> hwf (db_entries db) \<and> hwf (db_groups db) \<and> tree_ok (db_root db) (group_at db) (entry_at db)"

lemma tree_okI:
  assumes "root \<in> dom G" "\<And>g gr. G g = Some gr \<Longrightarrow> group_ok root G E g gr" "\<And>g gr. G g = Some gr \<Longrightarrow> rooted root G g"
    "\<And>e en. E e = Some en \<Longrightarrow> entry_ok G e en"
  shows "tree_ok root G E"
  using assms by (simp add: tree_ok_def)

lemma tree_okD:
  assumes "tree_ok root G E"
  shows "root \<in> dom G" "G g = Some gr \<Longrightarrow> group_ok root G E g gr" "G g = Some gr \<Longrightarrow> rooted root G g"
    "E e = Some en \<Longrightarrow> entry_ok G e en"
  using assms by (auto simp: tree_ok_def)

lemma db_okI:
  assumes "tree_ok (db_root db) G E" "\<And>k. group_at db k = G k" "\<And>k. entry_at db k = E k" "hwf (db_entries db)" "hwf (db_groups db)"
  shows "db_ok db"
proof -
  have "map_of (db_groups db) = G" "map_of (db_entries db) = E" using assms(2,3) by auto
  with assms show ?thesis by (simp add: db_ok_def)
qed

lemma rooted_parents:
  assumes "rooted root G g" "\<And>k gr. G k = Some gr \<Longrightarrow> \<exists>gr'. G' k = Some gr' \<and> gr_parent gr' = gr_parent gr"
  shows "rooted root G' g"
  using assms(1)
proof induction
  case (child g gr p)
  with assms(2) obtain gr' where "G' g = Some gr'" "gr_parent gr' = Some p" by fastforce
  then show ?case using child.IH by (rule rooted.child)
qed (rule rooted.root)

text \<open>The part of a group that the invariant speaks of.\<close>

definition same_place :: "'x group \<Rightarrow> 'x group \<Rightarrow> bool" where
  "same_place a b \<longleftrightarrow> gr_id a = gr_id b \<and> gr_parent a = gr_parent b \<and> gr_groups a = gr_groups b \<and> gr_entries a = gr_entries b"

lemma group_ok_same: "same_place gr gr' \<Longrightarrow> group_ok root G E g gr' = group_ok root G E g gr"
  by (simp add: group_ok_def same_place_def)

lemma tree_ok_regroup:
  assumes ok: "tree_ok root G E" and f: "\<And>gr. same_place gr (f gr)"
  shows "tree_ok root (\<lambda>k. if k = g then map_option f (G g) else G k) E"
proof (rule tree_okI)
  let ?G = "\<lambda>k. if k = g then map_option f (G g) else G k"
  have f': "gr_id (f gr) = gr_id gr" "gr_parent (f gr) = gr_parent gr" "gr_groups (f gr) = gr_groups gr" "gr_entries (f gr) = gr_entries gr" for gr
    using f [of gr] by (simp_all add: same_place_def)
  have look: "\<exists>gr'. ?G k = Some gr' \<and> same_place gr gr'" if "G k = Some gr" for k gr
    using that f by (auto simp: same_place_def)
  show "root \<in> dom ?G" using tree_okD(1) [OF ok] by auto
  show "rooted root ?G k" if "?G k = Some gr" for k gr
  proof -
    from that obtain gr0 where "G k = Some gr0" by (auto split: if_splits)
    from tree_okD(3) [OF ok this] show ?thesis by (rule rooted_parents) (use f' in auto)
  qed
  show "group_ok root ?G E k gr" if "?G k = Some gr" for k gr
  proof -
    from that obtain gr0 where gr0: "G k = Some gr0" "same_place gr0 gr"
      using f by (auto split: if_splits simp: same_place_def)
    from tree_okD(2) [OF ok gr0(1)] have "group_ok root ?G E k gr0"
      unfolding group_ok_def using f' by (auto 0 4 split: if_splits)
    with gr0(2) group_ok_same show ?thesis by blast
  qed
  show "entry_ok ?G e en" if "E e = Some en" for e en
    using tree_okD(4) [OF ok that] f' by (auto simp: entry_ok_def)
qed

text \<open>Editing an entry in place.\<close>

lemma tree_ok_reentry:
  assumes ok: "tree_ok root G E" and f: "\<And>en. E e = Some en \<Longrightarrow> eb_id (en_body (f en)) = eb_id (en_body en) \<and> eb_parent (en_body (f en)) = eb_parent (en_body en)"
  shows "tree_ok root G (\<lambda>k. if k = e then map_option f (E e) else E k)"
proof (rule tree_okI)
  let ?E = "\<lambda>k. if k = e then map_option f (E e) else E k"
  show "root \<in> dom G" using tree_okD(1) [OF ok] .
  show "rooted root G k" if "G k = Some gr" for k gr using tree_okD(3) [OF ok that] .
  show "group_ok root G ?E k gr" if "G k = Some gr" for k gr
    using tree_okD(2) [OF ok that] f by (auto 0 4 simp: group_ok_def)
  show "entry_ok G k en" if "?E k = Some en" for k en
    using that tree_okD(4) [OF ok, of k] f by (auto simp: entry_ok_def split: if_splits)
qed

lemma db_ok_edit_entry:
  assumes "db_ok db" "\<And>en. entry_at db e = Some en \<Longrightarrow> eb_id (en_body (f en)) = eb_id (en_body en) \<and> eb_parent (en_body (f en)) = eb_parent (en_body en)"
  shows "db_ok (edit_entry e f db)"
proof -
  have "entry_at (edit_entry e f db) = (\<lambda>k. if k = e then map_option f (entry_at db e) else entry_at db k)"
    "group_at (edit_entry e f db) = group_at db" by (auto simp: fun_eq_iff)
  then show ?thesis using assms tree_ok_reentry [of "db_root db" "group_at db" "entry_at db" e f]
    by (simp add: db_ok_def edit_entry_def)
qed

lemma db_ok_edit_group:
  assumes "db_ok db" "\<And>gr. same_place gr (f gr)"
  shows "db_ok (edit_group g f db)"
proof -
  have "group_at (edit_group g f db) = (\<lambda>k. if k = g then map_option f (group_at db g) else group_at db k)"
    "entry_at (edit_group g f db) = entry_at db" by (auto simp: fun_eq_iff)
  then show ?thesis using assms tree_ok_regroup [of "db_root db" "group_at db" "entry_at db" f g]
    by (simp add: db_ok_def edit_group_def)
qed

section \<open>Adding, moving and removing entries\<close>

lemma entry_parent_unique:
  "tree_ok root G E \<Longrightarrow> G g = Some gr \<Longrightarrow> e \<in> set (gr_entries gr) \<Longrightarrow> E e = Some en \<Longrightarrow> eb_parent (en_body en) = g"
  by (drule tree_okD(2), assumption) (auto simp: group_ok_def)

lemma tree_ok_add_entry:
  assumes ok: "tree_ok root G E" and g: "G g = Some gr" and e: "E e = None" and en: "eb_id (en_body en) = e" "eb_parent (en_body en) = g"
  shows "tree_ok root (G(g \<mapsto> list_entry e gr)) (E(e \<mapsto> en))"
proof (rule tree_okI)
  let ?G = "G(g \<mapsto> list_entry e gr)"
  show "root \<in> dom ?G" using tree_okD(1) [OF ok] by auto
  show "rooted root ?G k" if "?G k = Some x" for k x
  proof -
    from that g obtain y where "G k = Some y" by (auto split: if_splits)
    from tree_okD(3) [OF ok this] show ?thesis by (rule rooted_parents) (use g in \<open>auto simp: list_entry_def\<close>)
  qed
  show "group_ok root ?G (E(e \<mapsto> en)) k x" if "?G k = Some x" for k x
  proof -
    from that g obtain y where y: "G k = Some y" "x = (if k = g then list_entry e y else y)" by (auto split: if_splits)
    from tree_okD(2) [OF ok y(1)] show ?thesis
      unfolding group_ok_def y(2) using g e en by (auto 0 4 simp: list_entry_def)
  qed
  show "entry_ok ?G k x" if "(E(e \<mapsto> en)) k = Some x" for k x
    using that en tree_okD(4) [OF ok, of k] g by (auto simp: entry_ok_def list_entry_def split: if_splits)
qed

lemma tree_ok_remove_entry:
  assumes ok: "tree_ok root G E" and e: "E e = Some en" and g: "eb_parent (en_body en) = g" "G g = Some gr"
  shows "tree_ok root (G(g \<mapsto> unlist_entry e gr)) (E(e := None))"
proof (rule tree_okI)
  let ?G = "G(g \<mapsto> unlist_entry e gr)"
  show "root \<in> dom ?G" using tree_okD(1) [OF ok] by auto
  show "rooted root ?G k" if "?G k = Some x" for k x
  proof -
    from that g obtain y where "G k = Some y" by (auto split: if_splits)
    from tree_okD(3) [OF ok this] show ?thesis by (rule rooted_parents) (use g in \<open>auto simp: unlist_entry_def\<close>)
  qed
  show "group_ok root ?G (E(e := None)) k x" if "?G k = Some x" for k x
  proof -
    from that g obtain y where y: "G k = Some y" "x = (if k = g then unlist_entry e y else y)" by (auto split: if_splits)
    from tree_okD(2) [OF ok y(1)] entry_parent_unique [OF ok y(1) _ e] show ?thesis
      unfolding group_ok_def y(2) using g by (auto 0 4 simp: unlist_entry_def distinct_removeAll)
  qed
  show "entry_ok ?G k x" if "(E(e := None)) k = Some x" for k x
    using that tree_okD(4) [OF ok, of k] g by (auto simp: entry_ok_def unlist_entry_def split: if_splits)
qed

lemma db_ok_add_entry:
  assumes "db_ok db" "group_at db g = Some gr" "entry_at db e = None"
  shows "db_ok (group_add_entry g e now blank db)"
proof -
  let ?en = "new_entry e g now blank"
  have "tree_ok (db_root db) ((group_at db)(g \<mapsto> list_entry e gr)) ((entry_at db)(e \<mapsto> ?en))"
    using assms by (intro tree_ok_add_entry) (simp_all add: db_ok_def new_entry_def)
  then show ?thesis
    using assms by (intro db_okI [where G = "(group_at db)(g \<mapsto> list_entry e gr)" and E = "(entry_at db)(e \<mapsto> ?en)"])
      (auto simp: group_add_entry_def Let_def edit_group_def db_ok_def)
qed

text \<open>A move is a removal and an insertion.\<close>

lemma move_ok:
  assumes ok: "db_ok db" and run: "entry_move_to e g db = (r, db')"
  shows "db_ok db' \<and> r \<noteq> Inl Panic \<or> entry_at db e = None"
proof (cases "entry_at db e")
  case (Some en)
  let ?p = "eb_parent (en_body en)"
  let ?b = "map_body (set_parent g)"
  have t: "tree_ok (db_root db) (group_at db) (entry_at db)" using ok by (simp add: db_ok_def)
  from tree_okD(4) [OF t Some] obtain pg where pg: "group_at db ?p = Some pg" by (auto simp: entry_ok_def)
  show ?thesis
  proof (cases "group_at db g")
    case None
    with run ok show ?thesis by (auto simp: entry_move_to_def)
  next
    case (Some gr)
    with run \<open>entry_at db e = Some en\<close> pg have db': "r = Inr ()"
      "db' = edit_entry e ?b (edit_group g (list_entry e) (edit_group ?p (unlist_entry e) db))"
      by (auto simp: entry_move_to_def Let_def)
    let ?G1 = "(group_at db)(?p \<mapsto> unlist_entry e pg)"
    obtain gr1 where gr1: "?G1 g = Some gr1" using Some by (cases "g = ?p") auto
    note t1 = tree_ok_remove_entry [OF t \<open>entry_at db e = Some en\<close> refl pg]
    have b: "eb_id (en_body (?b en)) = e" "eb_parent (en_body (?b en)) = g"
      using tree_okD(4) [OF t \<open>entry_at db e = Some en\<close>] by (simp_all add: entry_ok_def set_parent_def)
    have "((entry_at db)(e := None)) e = None" by simp
    from tree_ok_add_entry [OF t1 gr1 this b]
    have t2: "tree_ok (db_root db) (?G1(g \<mapsto> list_entry e gr1)) ((entry_at db)(e \<mapsto> ?b en))"
      unfolding fun_upd_upd .
    have "db_ok db'"
    proof (rule db_okI)
      show "tree_ok (db_root db') (?G1(g \<mapsto> list_entry e gr1)) ((entry_at db)(e \<mapsto> ?b en))" unfolding db'(2) edit_simps by (rule t2)
      show "group_at db' k = (?G1(g \<mapsto> list_entry e gr1)) k" "entry_at db' k = ((entry_at db)(e \<mapsto> ?b en)) k" for k
        using pg gr1 \<open>entry_at db e = Some en\<close> by (auto simp: db' split: if_splits)
      show "hwf (db_entries db')" "hwf (db_groups db')"
        using ok by (simp_all add: db_ok_def db' edit_entry_def edit_group_def)
    qed
    with db'(1) show ?thesis by simp
  qed
qed simp

lemma push_history_ok: "db_ok db \<Longrightarrow> db_ok (edit_entry e (push_history old) db)"
  by (rule db_ok_edit_entry) (simp_all add: push_history_def)

lemma body_edit_ok:
  "db_ok db \<Longrightarrow> (\<And>b. eb_id (f b) = eb_id b \<and> eb_parent (f b) = eb_parent b) \<Longrightarrow> db_ok (edit_entry e (map_body f) db)"
  by (rule db_ok_edit_entry) simp_all

lemma tracked_move_ok:
  assumes "db_ok db" "entry_at db e \<noteq> None" "tracked_move_to e g now db = (r, db')"
  shows "db_ok db' \<and> r \<noteq> Inl Panic"
proof -
  obtain s db1 where m: "entry_move_to e g db = (s, db1)" by fastforce
  with move_ok [OF assms(1) m] assms(2) have "db_ok db1" "s \<noteq> Inl Panic" by auto
  then show ?thesis using assms(2,3) m
    by (auto simp: tracked_move_to_def split: sum.splits fault.splits
        intro!: push_history_ok body_edit_ok simp: set_location_changed_def)
qed

text \<open>Attachment bookkeeping changes no place in the tree.\<close>

definition places :: "'x db \<Rightarrow> uuid \<Rightarrow> (uuid \<times> uuid) option" where
  "places db e = map_option (\<lambda>en. (eb_id (en_body en), eb_parent (en_body en))) (entry_at db e)"

definition same_tree :: "'x db \<Rightarrow> 'x db \<Rightarrow> bool" where
  "same_tree db db' \<longleftrightarrow> db_groups db' = db_groups db \<and> db_root db' = db_root db \<and> db_meta db' = db_meta db
     \<and> db_deleted db' = db_deleted db \<and> map fst (db_entries db') = map fst (db_entries db) \<and> places db' = places db"

lemma same_tree_refl [simp]: "same_tree db db"
  by (simp add: same_tree_def)

lemma same_tree_trans: "same_tree a b \<Longrightarrow> same_tree b c \<Longrightarrow> same_tree a c"
  by (simp add: same_tree_def)

lemma same_tree_edit:
  assumes "\<And>en. eb_id (en_body (f en)) = eb_id (en_body en) \<and> eb_parent (en_body (f en)) = eb_parent (en_body en)"
  shows "same_tree db (edit_entry e f db)"
  using assms by (auto simp: same_tree_def places_def fun_eq_iff edit_entry_def option.map_comp comp_def)

lemma same_tree_pool [simp]: "same_tree db (db\<lparr>db_attachments := p\<rparr>)"
  by (simp add: same_tree_def places_def fun_eq_iff)

lemma edit_version_place: "eb_id (en_body (edit_version i (drop_names a) en)) = eb_id (en_body en)
    \<and> eb_parent (en_body (edit_version i (drop_names a) en)) = eb_parent (en_body en)"
  by (simp add: edit_version_def drop_names_def split: option.split)

lemma same_tree_attachment_remove: "same_tree db (attachment_remove a db)"
proof -
  have "same_tree d (fold (\<lambda>(e, i). edit_entry e (edit_version i (drop_names a))) xs d)" for xs and d :: "'a db"
    by (induction xs arbitrary: d)
      (auto intro: same_tree_trans [OF same_tree_edit [of "edit_version _ (drop_names a)", OF edit_version_place]])
  from same_tree_trans [OF this same_tree_pool] show ?thesis
    by (simp add: attachment_remove_def Let_def split: option.split)
qed

lemma same_tree_release: "same_tree db (release_attachment e a db)"
  by (auto simp: release_attachment_def Let_def intro: same_tree_trans [OF same_tree_pool same_tree_attachment_remove] split: option.split)

lemma same_tree_release_all: "release_all e as db = (r, db') \<Longrightarrow> same_tree db db'"
  by (induction e as db rule: release_all.induct) (auto split: if_splits intro: same_tree_trans [OF same_tree_release])

lemma same_tree_entry: "same_tree db db' \<Longrightarrow> entry_at db e = Some en \<Longrightarrow>
    \<exists>en'. entry_at db' e = Some en' \<and> eb_id (en_body en') = eb_id (en_body en) \<and> eb_parent (en_body en') = eb_parent (en_body en)"
  by (auto simp: same_tree_def places_def fun_eq_iff dest!: spec [of _ e])

lemma same_tree_sym: "same_tree db db' \<Longrightarrow> same_tree db' db"
  by (simp add: same_tree_def)

lemma same_tree_none: "same_tree db db' \<Longrightarrow> entry_at db' e = None \<longleftrightarrow> entry_at db e = None"
  using same_tree_entry [of db db' e] same_tree_entry [of db' db e] same_tree_sym [of db db']
  by (cases "entry_at db e"; cases "entry_at db' e") auto

lemma same_tree_ok:
  assumes s: "same_tree db db'" and ok: "db_ok db"
  shows "db_ok db'"
proof -
  note t = ok [unfolded db_ok_def, THEN conjunct2, THEN conjunct2]
  have g: "db_groups db' = db_groups db" "db_root db' = db_root db" using s by (simp_all add: same_tree_def)
  have origin: "\<exists>en0. entry_at db e = Some en0 \<and> eb_id (en_body en0) = eb_id (en_body en) \<and> eb_parent (en_body en0) = eb_parent (en_body en)"
    if "entry_at db' e = Some en" for e en
    using same_tree_entry [OF same_tree_sym [OF s] that] by auto
  have "tree_ok (db_root db') (group_at db') (entry_at db')"
  proof (rule tree_okI)
    show "db_root db' \<in> dom (group_at db')" using tree_okD(1) [OF t] by (simp add: g)
    show "rooted (db_root db') (group_at db') k" if "group_at db' k = Some x" for k x
      using tree_okD(3) [OF t] that by (simp add: g)
    show "group_ok (db_root db') (group_at db') (entry_at db') k x" if "group_at db' k = Some x" for k x
    proof -
      have "\<exists>en'. entry_at db' e = Some en' \<and> eb_parent (en_body en') = k"
        if "\<exists>en. entry_at db e = Some en \<and> eb_parent (en_body en) = k" for e
        using that same_tree_entry [OF s, of e] by auto
      with tree_okD(2) [OF t, of k x] that show ?thesis unfolding group_ok_def g by simp
    qed
    show "entry_ok (group_at db') k x" if "entry_at db' k = Some x" for k x
      using origin [OF that] tree_okD(4) [OF t, of k] by (auto simp: entry_ok_def g)
  qed
  moreover have "hwf (db_entries db')" using ok s by (simp add: db_ok_def same_tree_def hwf_def)
  ultimately show ?thesis using ok by (simp add: db_ok_def g)
qed

lemma hidden_entry_same: "same_place gr (if b then gr\<lparr>gr_last_visible := None\<rparr> else gr)"
  by (simp add: same_place_def)

lemma map_groups_ok:
  assumes ok: "db_ok db" and f: "\<And>gr. same_place gr (f gr)"
  shows "db_ok (db\<lparr>db_groups := map (\<lambda>(g, gr). (g, f gr)) (db_groups db)\<rparr>)"
proof -
  note t = ok [unfolded db_ok_def, THEN conjunct2, THEN conjunct2]
  have f': "gr_id (f gr) = gr_id gr" "gr_parent (f gr) = gr_parent gr" "gr_groups (f gr) = gr_groups gr" "gr_entries (f gr) = gr_entries gr" for gr
    using f [of gr] by (simp_all add: same_place_def)
  let ?G = "\<lambda>k. map_option f (group_at db k)"
  have "tree_ok (db_root db) ?G (entry_at db)"
  proof (rule tree_okI)
    show "db_root db \<in> dom ?G" using tree_okD(1) [OF t] by auto
    show "rooted (db_root db) ?G k" if k: "?G k = Some x" for k x
    proof -
      from k obtain gr0 where "group_at db k = Some gr0" by auto
      from tree_okD(3) [OF t this] show ?thesis by (rule rooted_parents) (simp add: f')
    qed
    show "group_ok (db_root db) ?G (entry_at db) k x" if k: "?G k = Some x" for k x
    proof -
      from k obtain gr0 where gr0: "group_at db k = Some gr0" "x = f gr0" by auto
      from tree_okD(2) [OF t gr0(1)] show ?thesis unfolding group_ok_def gr0(2) using f' by (auto 0 4)
    qed
    show "entry_ok ?G k x" if "entry_at db k = Some x" for k x
      using tree_okD(4) [OF t that] f' by (auto simp: entry_ok_def)
  qed
  moreover have "map_of (map (\<lambda>(g, gr). (g, f gr)) m) k = map_option f (map_of m k)" for m :: "(uuid \<times> 'a group) list" and k
    by (induction m) auto
  ultimately show ?thesis using ok
    by (intro db_okI [where G = ?G and E = "entry_at db"]) (auto simp: db_ok_def hwf_def comp_def case_prod_beta)
qed

lemma release_all_error: "release_all e as db = (Inl x, db') \<Longrightarrow> x = Panic"
  by (induction e as db rule: release_all.induct) (auto split: if_splits)

text \<open>Releasing every attachment of an entry panics only when a name does not resolve, or two names share a binary.\<close>

definition refs_of :: "'x db \<Rightarrow> uuid \<Rightarrow> nat list" where
  "refs_of db e = (case entry_at db e of None \<Rightarrow> [] | Some en \<Rightarrow> map snd (eb_attachments (en_body en)))"

definition refs_resolve :: "'x db \<Rightarrow> uuid \<Rightarrow> bool" where
  "refs_resolve db e \<longleftrightarrow> distinct (refs_of db e) \<and> (\<forall>a \<in> set (refs_of db e). hget (db_attachments db) a \<noteq> None)"

lemma fold_edit_pool: "db_attachments (fold (\<lambda>(e, i). edit_entry e (f i)) xs db) = db_attachments db"
  by (induction xs arbitrary: db) auto

lemma release_keeps: "k \<noteq> a \<Longrightarrow> hget (db_attachments (release_attachment e a db)) k = hget (db_attachments db) k"
  by (auto simp: release_attachment_def attachment_remove_def Let_def fold_edit_pool split: option.split)

lemma release_all_resolved:
  "distinct as \<Longrightarrow> \<forall>a \<in> set as. hget (db_attachments db) a \<noteq> None \<Longrightarrow> fst (release_all e as db) = Inr ()"
  by (induction as arbitrary: db) (auto simp: release_keeps, metis release_keeps)

lemma remove_ok:
  fixes r :: "'e fault + unit"
  assumes ok: "db_ok db" and run: "entry_remove e db = (r, db')"
  shows "db_ok db' \<and> (r = Inl Panic \<longrightarrow> fst (release_all e (refs_of db e) db) = (Inl Panic :: 'e fault + unit) \<or> entry_at db e = None)"
proof (cases "entry_at db e")
  case None
  with run ok show ?thesis by (auto simp: entry_remove_def)
next
  case (Some en)
  obtain r1 :: "'e fault + unit" and db1 where ra: "release_all e (map snd (eb_attachments (en_body en))) db = (r1, db1)" by fastforce
  note s = same_tree_release_all [OF ra]
  note ok1 = same_tree_ok [OF s ok]
  from same_tree_entry [OF s Some] obtain en1 where
    en1: "entry_at db1 e = Some en1" "eb_parent (en_body en1) = eb_parent (en_body en)" by blast
  let ?p = "eb_parent (en_body en)"
  have t1: "tree_ok (db_root db1) (group_at db1) (entry_at db1)" using ok1 by (simp add: db_ok_def)
  from tree_okD(4) [OF t1 en1(1)] en1(2) obtain pg where pg: "group_at db1 ?p = Some pg" by (auto simp: entry_ok_def)
  note t2 = tree_ok_remove_entry [OF t1 en1 pg]
  let ?db2 = "edit_group ?p (unlist_entry e) (db1\<lparr>db_entries := hdel e (db_entries db1)\<rparr>)"
  have "db_ok ?db2"
  proof (rule db_okI)
    show "tree_ok (db_root ?db2) ((group_at db1)(?p \<mapsto> unlist_entry e pg)) ((entry_at db1)(e := None))"
      using t2 by (simp add: edit_group_def)
    show "group_at ?db2 k = ((group_at db1)(?p \<mapsto> unlist_entry e pg)) k" "entry_at ?db2 k = ((entry_at db1)(e := None)) k" for k
      using pg by (auto simp: edit_group_def)
    show "hwf (db_entries ?db2)" "hwf (db_groups ?db2)" using ok1 by (simp_all add: db_ok_def edit_group_def)
  qed
  from map_groups_ok [OF this, of "\<lambda>gr. if gr_last_visible gr = Some e then gr\<lparr>gr_last_visible := None\<rparr> else gr"] run Some ra pg
  show ?thesis
    using ok1 by (cases r1) (auto simp: entry_remove_def abind_def Let_def hidden_entry_same refs_of_def dest: release_all_error)
qed

section \<open>Groups\<close>

lemma tree_ok_add_group:
  assumes ok: "tree_ok root G E" and p: "G p = Some pg" and g: "G g = None"
    and gr: "gr_id gr = g" "gr_parent gr = Some p" "gr_groups gr = []" "gr_entries gr = []"
  shows "tree_ok root (G(p \<mapsto> list_group g pg, g \<mapsto> gr)) E"
proof (rule tree_okI)
  let ?G = "G(p \<mapsto> list_group g pg, g \<mapsto> gr)"
  have ne: "g \<noteq> p" using p g by auto
  show "root \<in> dom ?G" using tree_okD(1) [OF ok] by auto
  have up: "rooted root ?G k" if k: "G k = Some x" for k x
    using tree_okD(3) [OF ok k] by (rule rooted_parents) (use p g ne in \<open>auto simp: list_group_def\<close>)
  show "rooted root ?G k" if k: "?G k = Some x" for k x
  proof (cases "k = g")
    case True
    from up [OF p] gr(2) show ?thesis unfolding True by (intro rooted.child [of ?G g gr p]) simp_all
  next
    case False
    with k p have "\<exists>y. G k = Some y" by (auto split: if_splits)
    with up show ?thesis by blast
  qed
  show "group_ok root ?G E k x" if k: "?G k = Some x" for k x
  proof (cases "k = g")
    case True
    with k gr p ne g tree_okD(1) [OF ok] show ?thesis by (auto simp: group_ok_def list_group_def)
  next
    case False
    with k p obtain y where y: "G k = Some y" "x = (if k = p then list_group g y else y)" by (auto split: if_splits)
    from tree_okD(2) [OF ok y(1)] show ?thesis
      unfolding group_ok_def y(2) using p g ne gr False by (auto 0 4 simp: list_group_def)
  qed
  show "entry_ok ?G k x" if "E k = Some x" for k x
    using tree_okD(4) [OF ok that] p g ne by (auto simp: entry_ok_def list_group_def)
qed

lemma db_ok_add_group:
  assumes "db_ok db" "group_at db p = Some pg" "group_at db g = None"
  shows "db_ok (group_add_group p g now blank db)"
proof -
  have "tree_ok (db_root db) ((group_at db)(p \<mapsto> list_group g pg, g \<mapsto> new_group g p now blank)) (entry_at db)"
    using assms by (intro tree_ok_add_group) (simp_all add: db_ok_def new_group_def)
  then show ?thesis
    using assms by (intro db_okI [where G = "(group_at db)(p \<mapsto> list_group g pg, g \<mapsto> new_group g p now blank)" and E = "entry_at db"])
      (auto simp: group_add_group_def Let_def edit_group_def db_ok_def)
qed

text \<open>The loop up the parents ends, with the answer whether \<open>target\<close> is on the way to the root.\<close>

inductive above :: "(uuid \<rightharpoonup> 'x group) \<Rightarrow> uuid \<Rightarrow> uuid \<Rightarrow> bool" for G :: "uuid \<rightharpoonup> 'x group" and a :: uuid where
  here: "above G a a"
| up: "G g = Some gr \<Longrightarrow> gr_parent gr = Some p \<Longrightarrow> above G a p \<Longrightarrow> above G a g"

lemma above_cases:
  "G g = Some gr \<Longrightarrow> above G a g \<longleftrightarrow> a = g \<or> (\<exists>p. gr_parent gr = Some p \<and> above G a p)"
  by (subst above.simps) auto

lemma climb_ends:
  assumes "rooted root (group_at db) g" "\<And>gr. group_at db root = Some gr \<Longrightarrow> gr_parent gr = None" "root \<in> dom (group_at db)"
  shows "climbs_to db target (Some g) = Some (above (group_at db) target g)"
  using assms(1)
proof induction
  case root
  from assms(3) obtain gr where gr: "group_at db root = Some gr" by auto
  with assms(2) show ?case by (subst climbs_to.simps) (simp add: above_cases [of "group_at db" root gr, OF gr] climbs_to.simps)
next
  case (child g gr p)
  then show ?case by (subst climbs_to.simps) (auto simp: above_cases [of "group_at db" g gr, OF child(1)])
qed

lemma climb_ok:
  assumes ok: "db_ok db" and g: "group_at db g \<noteq> None"
  shows "climbs_to db target (Some g) = Some (above (group_at db) target g)"
proof -
  note t = ok [unfolded db_ok_def, THEN conjunct2, THEN conjunct2]
  from g obtain gr where "group_at db g = Some gr" by auto
  from tree_okD(3) [OF t this] show ?thesis
    using tree_okD(1) [OF t] tree_okD(2) [OF t] by (intro climb_ends) (auto simp: group_ok_def)
qed

text \<open>Moving \<open>g\<close> below a group that is not below \<open>g\<close> keeps every group connected to the root.\<close>

lemma rooted_elsewhere:
  assumes "rooted root G k" "\<not> above G g k" "\<And>j x. j \<noteq> g \<Longrightarrow> G j = Some x \<Longrightarrow> \<exists>y. G' j = Some y \<and> gr_parent y = gr_parent x"
  shows "rooted root G' k"
  using assms(1,2)
proof induction
  case (child j x p)
  then have "j \<noteq> g" "\<not> above G g p" using above_cases [of G j x g, OF child(1)] by auto
  with child assms(3) obtain y where "G' j = Some y" "gr_parent y = Some p" by fastforce
  then show ?case using child \<open>\<not> above G g p\<close> by (blast intro: rooted.child)
qed (rule rooted.root)

lemma no_self_parent:
  assumes "rooted root G k" "\<And>x. G root = Some x \<Longrightarrow> gr_parent x = None"
  shows "G k = Some x \<Longrightarrow> gr_parent x \<noteq> Some k"
  using assms(1)
proof (induction arbitrary: x)
  case (child g gr p)
  then show ?case by (cases "p = g") auto
qed (use assms(2) in auto)

lemma tree_ok_move_group:
  assumes ok: "tree_ok root G E" and g: "G g = Some gr" "gr_parent gr = Some old" and old: "G old = Some og" and new: "G new = Some ng0"
    and cycle: "\<not> above G g new" and ng: "ng = (if new = old then unlist_group g og else ng0)"
  shows "tree_ok root (G(old \<mapsto> unlist_group g og, new \<mapsto> list_group g ng, g \<mapsto> gr\<lparr>gr_parent := Some new\<rparr>)) E"
proof (rule tree_okI)
  let ?G = "G(old \<mapsto> unlist_group g og, new \<mapsto> list_group g ng, g \<mapsto> gr\<lparr>gr_parent := Some new\<rparr>)"
  have gn: "g \<noteq> new" using cycle above.here by metis
  have top: "gr_parent x = None" if "G root = Some x" for x using tree_okD(2) [OF ok that] by (simp add: group_ok_def)
  have go: "g \<noteq> old" using no_self_parent [OF tree_okD(3) [OF ok g(1)] top g(1)] g(2) by auto
  have look: "\<exists>y. ?G j = Some y \<and> gr_parent y = gr_parent x \<and> gr_entries y = gr_entries x \<and> gr_id y = gr_id x"
    if "j \<noteq> g" "G j = Some x" for j x
    using that old new ng by (auto simp: list_group_def unlist_group_def)
  have new_rooted: "rooted root ?G new"
    using tree_okD(3) [OF ok new] cycle by (rule rooted_elsewhere) (use look in blast)
  have g_rooted: "rooted root ?G g" by (rule rooted.child [of ?G g "gr\<lparr>gr_parent := Some new\<rparr>" new, OF _ _ new_rooted]) simp_all
  show "root \<in> dom ?G" using tree_okD(1) [OF ok] by auto
  show "rooted root ?G k" if k: "?G k = Some x" for k x
  proof (cases "above G g k")
    case True
    then show ?thesis
    proof induction
      case (up j y p)
      show ?case
      proof (cases "j = g")
        case True
        from g_rooted show ?thesis unfolding True .
      next
        case False
        with look [OF False up(1)] up(2) obtain z where "?G j = Some z" "gr_parent z = Some p" by auto
        then show ?thesis using up.IH by (rule rooted.child)
      qed
    qed (rule g_rooted)
  next
    case False
    from k g(1) old new obtain y where "G k = Some y" by (auto split: if_splits)
    from tree_okD(3) [OF ok this] False show ?thesis by (rule rooted_elsewhere) (use look in blast)
  qed
  show "group_ok root ?G E k x" if k: "?G k = Some x" for k x
  proof (cases "k = g")
    case True
    with k have x: "x = gr\<lparr>gr_parent := Some new\<rparr>" by simp
    have child: "\<exists>cg. ?G c = Some cg \<and> gr_parent cg = Some g" if c: "c \<in> set (gr_groups gr)" for c
    proof -
      from tree_okD(2) [OF ok g(1)] c obtain cg where "G c = Some cg" "gr_parent cg = Some g" by (auto simp: group_ok_def)
      with look [of c] g go show ?thesis by (cases "c = g") auto
    qed
    have "\<exists>pg. ?G new = Some pg \<and> g \<in> set (gr_groups pg)" using gn by (auto simp: list_group_def)
    with child tree_okD(2) [OF ok g(1)] g(2) show ?thesis unfolding group_ok_def x True by auto
  next
    case False
    from k False old new ng obtain y where y: "G k = Some y" and x: "gr_id x = gr_id y" "gr_parent x = gr_parent y" "gr_entries x = gr_entries y"
      "distinct (gr_groups y) \<Longrightarrow> distinct (gr_groups x)"
      "set (gr_groups x) = (if k = new then insert g (set (gr_groups y)) else if k = old then set (gr_groups y) - {g} else set (gr_groups y))"
      by (auto simp: list_group_def unlist_group_def distinct_removeAll split: if_splits)
    note yk = tree_okD(2) [OF ok y, unfolded group_ok_def]
    have child: "\<exists>cg. ?G c = Some cg \<and> gr_parent cg = Some k" if c: "c \<in> set (gr_groups x)" for c
    proof (cases "c = g")
      case True
      have "k = new"
      proof (rule ccontr)
        assume "k \<noteq> new"
        with c True x(5) have "g \<in> set (gr_groups y)" "k \<noteq> old" by (auto split: if_splits)
        with yk g show False by auto
      qed
      with True show ?thesis by simp
    next
      case False
      with c x(5) have "c \<in> set (gr_groups y)" by (auto split: if_splits)
      with yk obtain cg where "G c = Some cg" "gr_parent cg = Some k" by auto
      with look [OF False] show ?thesis by auto
    qed
    have listed: "\<exists>pg. ?G p = Some pg \<and> k \<in> set (gr_groups pg)" if p: "gr_parent x = Some p" for p
    proof -
      from p x(2) yk obtain pg where pg: "G p = Some pg" "k \<in> set (gr_groups pg)" by auto
      with False g(1) old new ng show ?thesis by (auto simp: list_group_def unlist_group_def)
    qed
    from yk x child listed show ?thesis by (simp add: group_ok_def)
  qed
  show "entry_ok ?G k x" if "E k = Some x" for k x
  proof -
    from tree_okD(4) [OF ok that] obtain y where y: "eb_id (en_body x) = k" "G (eb_parent (en_body x)) = Some y" "k \<in> set (gr_entries y)"
      by (auto simp: entry_ok_def)
    with look [of "eb_parent (en_body x)"] g(1) show ?thesis by (cases "eb_parent (en_body x) = g") (auto simp: entry_ok_def)
  qed
qed

lemma move_group_ok:
  assumes ok: "db_ok db"
  shows "\<exists>r db'. group_move_to g new db = Some (r, db') \<and> db_ok db' \<and> (r = Inl Panic \<longrightarrow> group_at db g = None)
    \<and> (db' \<noteq> db \<longrightarrow> r = Inr ())"
proof (cases "group_at db g")
  case None
  with ok show ?thesis by (simp add: group_move_to_def)
next
  case gr: (Some gr)
  note t = ok [unfolded db_ok_def, THEN conjunct2, THEN conjunct2]
  show ?thesis
  proof (cases "gr_parent gr = None \<or> group_at db new = None")
    case True
    with ok gr show ?thesis by (auto simp: group_move_to_def split: option.split)
  next
    case False
    then obtain old ng0 where old: "gr_parent gr = Some old" and new: "group_at db new = Some ng0" by auto
    from tree_okD(2) [OF t gr] old obtain og where og: "group_at db old = Some og" by (auto simp: group_ok_def)
    from new have "group_at db new \<noteq> None" by simp
    note climb = climb_ok [OF ok this, of g]
    show ?thesis
    proof (cases "above (group_at db) g new")
      case True
      with ok gr old new climb show ?thesis by (simp add: group_move_to_def)
    next
      case False
      define ng where "ng = (if new = old then unlist_group g og else ng0)"
      let ?db = "edit_group g (\<lambda>x. x\<lparr>gr_parent := Some new\<rparr>) (edit_group new (list_group g) (edit_group old (unlist_group g) db))"
      note moved = tree_ok_move_group [OF t gr old og new False ng_def]
      have "g \<noteq> new" using False above.here by metis
      have "g \<noteq> old" using no_self_parent [OF tree_okD(3) [OF t gr] _ gr] old tree_okD(2) [OF t]
        by (auto simp: group_ok_def)
      have "db_ok ?db"
      proof (rule db_okI)
        show "tree_ok (db_root ?db) ((group_at db)(old \<mapsto> unlist_group g og, new \<mapsto> list_group g ng, g \<mapsto> gr\<lparr>gr_parent := Some new\<rparr>)) (entry_at db)"
          unfolding edit_simps by (rule moved)
        show "group_at ?db k = ((group_at db)(old \<mapsto> unlist_group g og, new \<mapsto> list_group g ng, g \<mapsto> gr\<lparr>gr_parent := Some new\<rparr>)) k" for k
          using gr og new \<open>g \<noteq> new\<close> \<open>g \<noteq> old\<close> by (auto simp: ng_def)
        show "entry_at ?db k = entry_at db k" for k by simp
        show "hwf (db_entries ?db)" "hwf (db_groups ?db)" using ok by (simp_all add: db_ok_def edit_group_def)
      qed
      with gr old new og climb False show ?thesis by (simp add: group_move_to_def)
    qed
  qed
qed


section \<open>Recursion down the tree\<close>

lemma above_trans: "above G b c \<Longrightarrow> above G a b \<Longrightarrow> above G a c"
  by (induction rule: above.induct) (auto intro: above.up)

lemma no_cycle:
  assumes "rooted root G g" "\<And>x. G root = Some x \<Longrightarrow> gr_parent x = None"
  shows "above G c g \<Longrightarrow> above G g c \<Longrightarrow> c = g"
  using assms(1)
proof (induction arbitrary: c)
  case root
  then show ?case using assms(2) by (auto elim: above.cases)
next
  case (child g gr p)
  have self: "p \<noteq> g" using no_self_parent [OF rooted.child [OF child.hyps] assms(2) child.hyps(1)] child.hyps(2) by auto
  have pg: "above G p g" using child.hyps above.up above.here by metis
  show ?case
  proof (rule ccontr)
    assume "c \<noteq> g"
    with child.prems(1) above_cases [of G g gr c, OF child.hyps(1)] child.hyps(2) have cp: "above G c p" by auto
    have "above G p c" using above_trans [OF child.prems(2) pg] .
    with child.IH [OF cp] have "c = p" by simp
    with child.prems(2) have "above G g p" by simp
    from child.IH [OF this pg] self show False by simp
  qed
qed

lemma below_child:
  assumes "above G g k" "k \<noteq> g" "\<And>j x p. G j = Some x \<Longrightarrow> gr_parent x = Some p \<Longrightarrow> P p j"
  shows "\<exists>c. P g c \<and> above G c k"
  using assms(1,2)
proof induction
  case (up j x p)
  show ?case
  proof (cases "p = g")
    case True
    with assms(3) [OF up.hyps(1,2)] above.here show ?thesis by metis
  next
    case False
    with up.IH obtain c where "P g c" "above G c p" by blast
    with up.hyps show ?thesis by (blast intro: above.up)
  qed
qed simp

lemma option_all_Some: "(\<And>x. x \<in> set xs \<Longrightarrow> \<exists>y. f x = Some y \<and> R x y) \<Longrightarrow> \<exists>ys. option_all f xs = Some ys \<and> list_all2 R xs ys"
proof (induction xs)
  case (Cons x xs)
  then obtain ys where "option_all f xs = Some ys" "list_all2 R xs ys" by auto
  moreover obtain y where "f x = Some y" "R x y" using Cons.prems [of x] by auto
  ultimately show ?case by auto
qed simp

definition below :: "'x db \<Rightarrow> uuid \<Rightarrow> uuid set" where
  "below db g = {k. group_at db k \<noteq> None \<and> above (group_at db) g k}"

lemma below_step:
  assumes ok: "db_ok db" and g: "group_at db g = Some gr"
  shows "below db g = insert g (\<Union>c \<in> set (gr_groups gr). below db c)" (is "_ = ?R")
    and "c \<in> set (gr_groups gr) \<Longrightarrow> below db c \<subset> below db g"
proof -
  note t = ok [unfolded db_ok_def, THEN conjunct2, THEN conjunct2]
  let ?G = "group_at db"
  have top: "gr_parent x = None" if "?G (db_root db) = Some x" for x using tree_okD(2) [OF t that] by (simp add: group_ok_def)
  have child: "\<exists>cg. ?G c = Some cg \<and> gr_parent cg = Some g" if "c \<in> set (gr_groups gr)" for c
    using tree_okD(2) [OF t g] that by (auto simp: group_ok_def)
  have down: "above ?G g c" if "c \<in> set (gr_groups gr)" for c
    using child [OF that] by (auto intro: above.up above.here)
  show "below db g = ?R"
  proof
    show "?R \<subseteq> below db g" using g above_trans [OF _ down] by (auto simp: below_def intro: above.here)
    show "below db g \<subseteq> ?R"
    proof
      fix k assume k: "k \<in> below db g"
      show "k \<in> ?R"
      proof (cases "k = g")
        case False
        have "\<exists>c. (\<forall>x. ?G g = Some x \<longrightarrow> c \<in> set (gr_groups x)) \<and> above ?G c k"
          using k False tree_okD(2) [OF t]
          by (intro below_child [of ?G g k "\<lambda>p j. \<forall>x. ?G p = Some x \<longrightarrow> j \<in> set (gr_groups x)"]) (fastforce simp: below_def group_ok_def)+
        with g k show ?thesis by (auto simp: below_def)
      qed simp
    qed
  qed
  show "below db c \<subset> below db g" if c: "c \<in> set (gr_groups gr)"
  proof -
    obtain cg where cg: "?G c = Some cg" "gr_parent cg = Some g" using child [OF c] by blast
    have "below db c \<subseteq> below db g" using above_trans [OF _ down [OF c]] by (auto simp: below_def)
    moreover have "g \<notin> below db c"
    proof
      assume "g \<in> below db c"
      then have "above ?G c g" by (simp add: below_def)
      with no_cycle [OF tree_okD(3) [OF t g] top this down [OF c]] have "c = g" by simp
      with no_self_parent [OF tree_okD(3) [OF t g] top g] cg g show False by auto
    qed
    moreover have "g \<in> below db g" using g by (simp add: below_def above.here)
    ultimately show ?thesis by blast
  qed
qed

lemma subtree_below:
  assumes ok: "db_ok db"
  shows "group_at db g \<noteq> None \<Longrightarrow> \<exists>gs. subtree db g = Some gs \<and> set gs = below db g"
proof (induction "card (below db g)" arbitrary: g rule: less_induct)
  case less
  then obtain gr where gr: "group_at db g = Some gr" by auto
  have fin: "finite (below db g)"
    by (rule finite_subset [OF _ finite_dom_map_of [of "db_groups db"]]) (auto simp: below_def)
  have "\<exists>gs. subtree db c = Some gs \<and> set gs = below db c" if c: "c \<in> set (gr_groups gr)" for c
  proof (rule less.hyps)
    show "card (below db c) < card (below db g)" by (rule psubset_card_mono [OF fin below_step(2) [OF ok gr c]])
    note t = ok [unfolded db_ok_def, THEN conjunct2, THEN conjunct2]
    from tree_okD(2) [OF t gr] c show "group_at db c \<noteq> None" by (auto simp: group_ok_def)
  qed
  then obtain gss where gss: "option_all (subtree db) (gr_groups gr) = Some gss"
    "list_all2 (\<lambda>c gs. set gs = below db c) (gr_groups gr) gss"
    using option_all_Some [of "gr_groups gr" "subtree db" "\<lambda>c gs. set gs = below db c"] by blast
  have "(\<Union>gs \<in> set gss. set gs) = (\<Union>c \<in> set (gr_groups gr). below db c)" using gss(2) by induction auto
  with gr gss(1) below_step(1) [OF ok gr] show ?case by (subst subtree.simps) simp
qed

text \<open>Every group is below the root.\<close>

lemma below_root:
  assumes ok: "db_ok db"
  shows "below db (db_root db) = dom (group_at db)"
proof -
  note t = ok [unfolded db_ok_def, THEN conjunct2, THEN conjunct2]
  have "above (group_at db) (db_root db) k" if "rooted (db_root db) (group_at db) k" for k
    using that by induction (auto intro: above.here above.up)
  with tree_okD(3) [OF t] show ?thesis by (auto simp: below_def)
qed

end
