(* ===== verification/Entries.thy ===== *)
theory Entries
  imports KdbxTree Files
begin

text \<open>
  Entries and groups of an unlocked vault (\<open>falach-core/src/entry\<close>): tags (\<open>types.rs\<close>), drafts and their
  builder (\<open>builder.rs\<close>), the read and write views (\<open>view.rs\<close>), creating, updating, deleting and moving
  entries with their history (\<open>crud.rs\<close>), groups and the recycle bin (\<open>group.rs\<close>), expiration
  (\<open>expiration.rs\<close>) and attachments (\<open>attachment.rs\<close>). An operation works on the database of the open
  vault; nothing here touches the disk.
\<close>

type_synonym ('x, 'a) vault_act = "('x db, vault_error fault, 'a) act"

abbreviation vfail :: "vault_error \<Rightarrow> ('x, 'a) vault_act" where
  "vfail e \<equiv> athrow (Failed e)"

section \<open>Tags and drafts\<close>

definition tag_from :: "string \<Rightarrow> vault_error + string" where
  "tag_from s = (if CHR '';'' \<in> set s then Inl (InvalidTag s) else Inr s)"

datatype entry_kind = Credential | SecureNote | TotpEntry

record custom_field =
  cf_name :: string
  cf_value :: string
  cf_protected :: bool

text \<open>\<open>EntryBuilder\<close> and the \<open>EntryDraft\<close> that \<open>build\<close> makes of it have the same fields.\<close>

record draft =
  dr_kind :: entry_kind
  dr_title :: string
  dr_username :: "string option"
  dr_password :: "string option"
  dr_url :: "string option"
  dr_notes :: "string option"
  dr_tags :: "string list"
  dr_expires_at :: "time option"
  dr_custom_fields :: "custom_field list"
  dr_totp_uri :: "string option"

definition new_draft :: "entry_kind \<Rightarrow> string \<Rightarrow> draft" where
  "new_draft k title = \<lparr>dr_kind = k, dr_title = title, dr_username = None, dr_password = None, dr_url = None, dr_notes = None,
     dr_tags = [], dr_expires_at = None, dr_custom_fields = [], dr_totp_uri = None\<rparr>"

definition with_username :: "string \<Rightarrow> draft \<Rightarrow> draft" where "with_username v d = d\<lparr>dr_username := Some v\<rparr>"
definition with_password :: "string \<Rightarrow> draft \<Rightarrow> draft" where "with_password v d = d\<lparr>dr_password := Some v\<rparr>"
definition with_url :: "string \<Rightarrow> draft \<Rightarrow> draft" where "with_url v d = d\<lparr>dr_url := Some v\<rparr>"
definition with_notes :: "string \<Rightarrow> draft \<Rightarrow> draft" where "with_notes v d = d\<lparr>dr_notes := Some v\<rparr>"
definition with_tag :: "string \<Rightarrow> draft \<Rightarrow> draft" where "with_tag v d = d\<lparr>dr_tags := dr_tags d @ [v]\<rparr>"
definition with_expires_at :: "time \<Rightarrow> draft \<Rightarrow> draft" where "with_expires_at t d = d\<lparr>dr_expires_at := Some t\<rparr>"

definition f_title :: string where "f_title = ''Title''"
definition f_username :: string where "f_username = ''UserName''"
definition f_password :: string where "f_password = ''Password''"
definition f_otp :: string where "f_otp = ''otp''"
definition f_url :: string where "f_url = ''URL''"
definition f_notes :: string where "f_notes = ''Notes''"

definition known_fields :: "string list" where
  "known_fields = [f_title, f_username, f_password, f_url, f_notes]"

definition with_custom_field :: "string \<Rightarrow> string \<Rightarrow> bool \<Rightarrow> draft \<Rightarrow> draft" where
  "with_custom_field name v p d =
     (let d1 = (if name = f_otp then d\<lparr>dr_totp_uri := Some v\<rparr> else d)
      in d1\<lparr>dr_custom_fields := dr_custom_fields d1 @ [\<lparr>cf_name = name, cf_value = v, cf_protected = p\<rparr>]\<rparr>)"

definition set_unprotected :: "string \<Rightarrow> string \<Rightarrow> 'x body \<Rightarrow> 'x body" where
  "set_unprotected k v = body_set k (Unprotected v)"

definition set_protected :: "string \<Rightarrow> string \<Rightarrow> 'x body \<Rightarrow> 'x body" where
  "set_protected k v = body_set k (Protected v)"

definition set_opt :: "(string \<Rightarrow> 'x body \<Rightarrow> 'x body) \<Rightarrow> string option \<Rightarrow> 'x body \<Rightarrow> 'x body" where
  "set_opt f v b = (case v of None \<Rightarrow> b | Some s \<Rightarrow> f s b)"

definition set_expiry :: "time \<Rightarrow> 'x body \<Rightarrow> 'x body" where
  "set_expiry t b = b\<lparr>eb_times := (eb_times b)\<lparr>tm_expires := Some True, tm_expiry := Some t\<rparr>\<rparr>"

definition populate_entry_from_draft :: "time \<Rightarrow> draft \<Rightarrow> 'x body \<Rightarrow> 'x body" where
  "populate_entry_from_draft now d b =
     (let b1 = set_unprotected f_title (dr_title d) b;
          b2 = set_opt (set_unprotected f_username) (dr_username d) b1;
          b3 = set_opt (set_protected f_password) (dr_password d) b2;
          b4 = set_opt (set_unprotected f_url) (dr_url d) b3;
          b5 = set_opt (set_unprotected f_notes) (dr_notes d) b4;
          b6 = (case dr_expires_at d of None \<Rightarrow> b5 | Some t \<Rightarrow> set_expiry t b5);
          b7 = b6\<lparr>eb_tags := dr_tags d\<rparr>;
          b8 = fold (\<lambda>f. (if cf_protected f then set_protected else set_unprotected) (cf_name f) (cf_value f)) (dr_custom_fields d) b7
      in b8\<lparr>eb_times := (eb_times b8)\<lparr>tm_creation := Some now, tm_last_modification := Some now\<rparr>\<rparr>)"

section \<open>Views\<close>

definition field_or_empty :: "string \<Rightarrow> 'x entry \<Rightarrow> string" where
  "field_or_empty k e = (case en_get k e of None \<Rightarrow> [] | Some v \<Rightarrow> v)"

definition tags_from_entry :: "string list \<Rightarrow> string list" where
  "tags_from_entry ts = filter (\<lambda>t. is_ok (tag_from t)) ts"

definition view_kind :: "'x entry \<Rightarrow> entry_kind" where
  "view_kind e =
     (if en_get f_otp e \<noteq> None then TotpEntry
      else if field_or_empty f_username e = [] \<and> field_or_empty f_password e = [] \<and> field_or_empty f_url e = [] then SecureNote
      else Credential)"

definition view_expires :: "'x entry \<Rightarrow> time option" where
  "view_expires e = (if tm_expires (eb_times (en_body e)) = Some True then tm_expiry (eb_times (en_body e)) else None)"

definition custom_field_names :: "'x entry \<Rightarrow> string list" where
  "custom_field_names e = filter (\<lambda>n. n \<notin> set known_fields) (map fst (eb_fields (en_body e)))"

definition custom_field_is_protected :: "string \<Rightarrow> 'x entry \<Rightarrow> bool option" where
  "custom_field_is_protected n e = map_option is_protected (hget (eb_fields (en_body e)) n)"

definition view_history :: "'x entry \<Rightarrow> 'x entry list" where
  "view_history e = (case en_history e of None \<Rightarrow> [] | Some h \<Rightarrow> h)"

text \<open>\<open>EntryViewMut\<close>: every method, with the time of the change.\<close>

abbreviation touch :: "time \<Rightarrow> 'x body \<Rightarrow> 'x body" where
  "touch \<equiv> set_last_modification"

datatype view_op =
    SetTitle string
  | SetUsername string
  | SetPassword string
  | SetUrl string
  | SetNotes string
  | AddTag string
  | RemoveTag string
  | SetTags "string list"
  | SetCustomField string string bool
  | RemoveCustomField string

definition add_tag_view :: "time \<Rightarrow> string \<Rightarrow> 'x body \<Rightarrow> 'x body" where
  "add_tag_view now t b = (if t \<in> set (eb_tags b) then b else touch now (b\<lparr>eb_tags := eb_tags b @ [t]\<rparr>))"

definition remove_tag_view :: "time \<Rightarrow> string \<Rightarrow> 'x body \<Rightarrow> 'x body" where
  "remove_tag_view now t b =
     (let b1 = b\<lparr>eb_tags := filter (\<lambda>x. x \<noteq> t) (eb_tags b)\<rparr>
      in if length (eb_tags b1) \<noteq> length (eb_tags b) then touch now b1 else b1)"

definition set_tags_view :: "time \<Rightarrow> string list \<Rightarrow> 'x body \<Rightarrow> 'x body" where
  "set_tags_view now ts b = touch now (b\<lparr>eb_tags := fold (\<lambda>t acc. if t \<in> set acc then acc else acc @ [t]) ts []\<rparr>)"

definition set_custom_field_view :: "time \<Rightarrow> string \<Rightarrow> string \<Rightarrow> bool \<Rightarrow> 'x body \<Rightarrow> 'x body" where
  "set_custom_field_view now n v p b = touch now (if p then set_protected n v b else set_unprotected n v b)"

definition remove_custom_field_view :: "time \<Rightarrow> string \<Rightarrow> 'x body \<Rightarrow> 'x body" where
  "remove_custom_field_view now n b =
     (if hget (eb_fields b) n = None then b else touch now (b\<lparr>eb_fields := hdel n (eb_fields b)\<rparr>))"

fun view_edit :: "time \<Rightarrow> view_op \<Rightarrow> 'x body \<Rightarrow> 'x body" where
  "view_edit now (SetTitle v) b = touch now (set_unprotected f_title v b)"
| "view_edit now (SetUsername v) b = touch now (set_unprotected f_username v b)"
| "view_edit now (SetPassword v) b = touch now (set_protected f_password v b)"
| "view_edit now (SetUrl v) b = touch now (set_unprotected f_url v b)"
| "view_edit now (SetNotes v) b = touch now (set_unprotected f_notes v b)"
| "view_edit now (AddTag t) b = add_tag_view now t b"
| "view_edit now (RemoveTag t) b = remove_tag_view now t b"
| "view_edit now (SetTags ts) b = set_tags_view now ts b"
| "view_edit now (SetCustomField n v p) b = set_custom_field_view now n v p b"
| "view_edit now (RemoveCustomField n) b = remove_custom_field_view now n b"

text \<open>A closure that edits an entry: the methods it calls, in order, and the error it returns, if any.\<close>

type_synonym closure = "view_op list \<times> vault_error option"

definition run_closure :: "time \<Rightarrow> closure \<Rightarrow> 'x body \<Rightarrow> (vault_error + unit) \<times> 'x body" where
  "run_closure now f b = ((case snd f of None \<Rightarrow> Inr () | Some e \<Rightarrow> Inl e), fold (view_edit now) (fst f) b)"

section \<open>Entries (crud.rs)\<close>

definition find_entry_id :: "'x db \<Rightarrow> uuid \<Rightarrow> vault_error + uuid" where
  "find_entry_id db e = (if entry_at db e = None then Inl (EntryNotFound e) else Inr e)"

definition find_group_id :: "'x db \<Rightarrow> uuid \<Rightarrow> vault_error + uuid" where
  "find_group_id db g = (if group_at db g = None then Inl (GroupNotFound g) else Inr g)"

text \<open>Look up, then go on; a missing UUID ends the operation.\<close>

definition on_entry :: "uuid \<Rightarrow> ('x entry \<Rightarrow> ('x, 'a) vault_act) \<Rightarrow> ('x, 'a) vault_act" where
  "on_entry e k db = (case find_entry_id db e of
     Inl x \<Rightarrow> (Inl (Failed x), db)
   | Inr _ \<Rightarrow> (case entry_at db e of None \<Rightarrow> (Inl (Failed (EntryNotFound e)), db) | Some en \<Rightarrow> k en db))"

definition add_entry :: "uuid \<Rightarrow> time \<Rightarrow> 'x \<Rightarrow> uuid \<Rightarrow> draft \<Rightarrow> ('x, uuid) vault_act" where
  "add_entry fresh now blank g d db = (case find_group_id db g of
     Inl x \<Rightarrow> (Inl (Failed x), db)
   | Inr _ \<Rightarrow> (Inr fresh, edit_entry fresh (map_body (populate_entry_from_draft now d)) (group_add_entry g fresh now blank db)))"

definition get_entry :: "uuid \<Rightarrow> 'x db \<Rightarrow> vault_error + 'x entry" where
  "get_entry e db = ok_or (EntryNotFound e) (entry_at db e)"

datatype history_cap = Unlimited | Disabled | MaxItems nat

definition history_cap_of :: "'x db \<Rightarrow> history_cap" where
  "history_cap_of db = (case me_history_max_items (db_meta db) of
     None \<Rightarrow> MaxItems 10
   | Some v \<Rightarrow> if v < 0 then Unlimited else if v = 0 then Disabled else MaxItems (nat v))"

definition isize_max :: nat where
  "isize_max = 2 ^ 63 - 1"

definition set_max_history_per_entry :: "nat \<Rightarrow> ('x, unit) vault_act" where
  "set_max_history_per_entry n db =
     (if n > isize_max then (Inl (Failed (InvalidGroupTarget ''history cap exceeds supported range'')), db)
      else (Inr (), db\<lparr>db_meta := (db_meta db)\<lparr>me_history_max_items := Some (int n)\<rparr>\<rparr>))"

text \<open>The pruned history is rebuilt from the newest entries, inserted oldest first.\<close>

definition prune_history :: "nat \<Rightarrow> 'x entry \<Rightarrow> 'x entry" where
  "prune_history m e = (case en_history e of
     None \<Rightarrow> e
   | Some h \<Rightarrow> if m < length h then Entry (en_body e) (Some (fold history_add (rev (take m h)) [])) else e)"

definition record_history :: "history_cap \<Rightarrow> 'x entry \<Rightarrow> 'x entry" where
  "record_history cap e = (case cap of
     Disabled \<Rightarrow> e
   | Unlimited \<Rightarrow> push_history e e
   | MaxItems m \<Rightarrow> prune_history m (push_history e e))"

text \<open>\<open>tf\<close> is the clock during the closure, \<open>now\<close> after it.\<close>

definition update_entry :: "time \<Rightarrow> time \<Rightarrow> uuid \<Rightarrow> closure \<Rightarrow> ('x, unit) vault_act" where
  "update_entry tf now e f = on_entry e (\<lambda>snapshot db.
     let db1 = edit_entry e (record_history (history_cap_of db)) db;
         en1 = the (entry_at db1 e);
         (r, b) = run_closure tf f (en_body en1);
         db2 = edit_entry e (map_body (\<lambda>_. b)) db1
     in case r of
          Inr _ \<Rightarrow> (Inr (), edit_entry e (map_body (touch now)) db2)
        | Inl x \<Rightarrow> (Inl (Failed x), edit_entry e (\<lambda>_. snapshot) db2))"

definition move_entry :: "time \<Rightarrow> uuid \<Rightarrow> uuid \<Rightarrow> ('x, unit) vault_act" where
  "move_entry now e g = on_entry e (\<lambda>_ db. case find_group_id db g of
     Inl x \<Rightarrow> (Inl (Failed x), db)
   | Inr _ \<Rightarrow> (case tracked_move_to e g now db of
       (Inl Panic, db') \<Rightarrow> (Inl Panic, db')
     | (Inl (Failed _), db') \<Rightarrow> (Inl (Failed (GroupNotFound g)), db')
     | (Inr _, db') \<Rightarrow> (Inr (), db')))"

definition purge_entry :: "time \<Rightarrow> uuid \<Rightarrow> ('x, unit) vault_act" where
  "purge_entry now e = on_entry e (\<lambda>_. tracked_remove e now)"

definition recycle_bin_group_id_or_create :: "uuid \<Rightarrow> time \<Rightarrow> 'x \<Rightarrow> 'x db \<Rightarrow> uuid \<times> 'x db" where
  "recycle_bin_group_id_or_create fresh now blank db = (case recycle_bin db of
     Some b \<Rightarrow> (b, db)
   | None \<Rightarrow>
       (let db1 = edit_group fresh (\<lambda>g. g\<lparr>gr_name := ''Recycle Bin'',
                    gr_times := (gr_times g)\<lparr>tm_creation := Some now, tm_last_modification := Some now\<rparr>\<rparr>)
                  (group_add_group (db_root db) fresh now blank db)
        in (fresh, db1\<lparr>db_meta := (db_meta db1)\<lparr>me_recyclebin_uuid := Some fresh, me_recyclebin_enabled := Some True,
              me_recyclebin_changed := Some now\<rparr>\<rparr>)))"

definition delete_entry :: "uuid \<Rightarrow> time \<Rightarrow> 'x \<Rightarrow> uuid \<Rightarrow> ('x, unit) vault_act" where
  "delete_entry fresh now blank e db =
     (if me_recyclebin_enabled (db_meta db) = Some False then purge_entry now e db
      else on_entry e (\<lambda>en db.
        let (b, db1) = recycle_bin_group_id_or_create fresh now blank db; p = eb_parent (en_body en)
        in if group_at db1 p = None then (Inl Panic, db1)
           else if p = b then (Inr (), db1)
           else (case tracked_move_to e b now db1 of
               (Inl Panic, db') \<Rightarrow> (Inl Panic, db')
             | (Inl (Failed _), db') \<Rightarrow> (Inl (Failed (GroupNotFound b)), db')
             | (Inr _, db') \<Rightarrow> (Inr (), db'))) db)"

text \<open>\<open>None\<close> when the recursion into the bin does not return.\<close>

definition is_entry_in_recycle_bin :: "'x db \<Rightarrow> uuid \<Rightarrow> bool option" where
  "is_entry_in_recycle_bin db e = (case recycle_bin db of
     None \<Rightarrow> Some False
   | Some b \<Rightarrow> map_option (list_ex (\<lambda>g. case group_at db g of None \<Rightarrow> False | Some gr \<Rightarrow> e \<in> set (gr_entries gr))) (subtree db b))"

section \<open>Groups (group.rs)\<close>

definition create_group :: "uuid \<Rightarrow> time \<Rightarrow> 'x \<Rightarrow> uuid \<Rightarrow> string \<Rightarrow> ('x, uuid) vault_act" where
  "create_group fresh now blank parent name db = (case find_group_id db parent of
     Inl x \<Rightarrow> (Inl (Failed x), db)
   | Inr _ \<Rightarrow> (Inr fresh, edit_group fresh (\<lambda>g. g\<lparr>gr_name := name,
          gr_times := (gr_times g)\<lparr>tm_creation := Some now, tm_last_modification := Some now\<rparr>\<rparr>)
        (group_add_group parent fresh now blank db)))"

definition rename_group :: "time \<Rightarrow> uuid \<Rightarrow> string \<Rightarrow> ('x, unit) vault_act" where
  "rename_group now g name db = (case find_group_id db g of
     Inl x \<Rightarrow> (Inl (Failed x), db)
   | Inr _ \<Rightarrow> (Inr (), edit_group g (\<lambda>x. x\<lparr>gr_name := name, gr_times := (gr_times x)\<lparr>tm_last_modification := Some now\<rparr>\<rparr>) db))"

definition map_move_group_error :: "move_group_error \<Rightarrow> vault_error" where
  "map_move_group_error e = (case e of
     CannotMoveRoot \<Rightarrow> CannotModifyRoot
   | MoveNotFound g \<Rightarrow> GroupNotFound g
   | WouldCreateCycle \<Rightarrow> InvalidGroupTarget ''cannot move a group into itself or one of its descendants'')"

type_synonym 'x group_result = "((vault_error fault + unit) \<times> 'x db) option"

definition move_tracked :: "time \<Rightarrow> uuid \<Rightarrow> uuid \<Rightarrow> 'x db \<Rightarrow> 'x group_result" where
  "move_tracked now g p db = map_option (apfst (map_err (\<lambda>e. case e of
       Failed x \<Rightarrow> Failed (map_move_group_error x) | Panic \<Rightarrow> Panic))) (tracked_group_move_to g p now db)"

definition move_group :: "time \<Rightarrow> uuid \<Rightarrow> uuid \<Rightarrow> 'x db \<Rightarrow> 'x group_result" where
  "move_group now g new_parent db = (case (find_group_id db g, find_group_id db new_parent) of
     (Inl x, _) \<Rightarrow> Some (Inl (Failed x), db)
   | (_, Inl x) \<Rightarrow> Some (Inl (Failed x), db)
   | _ \<Rightarrow> if g = db_root db then Some (Inl (Failed CannotModifyRoot), db)
          else if recycle_bin db = Some new_parent
          then Some (Inl (Failed (InvalidGroupTarget ''cannot move a group directly into the recycle bin'')), db)
          else move_tracked now g new_parent db)"

datatype group_delete_behavior = Refuse | Recurse

definition into_bin :: "uuid \<Rightarrow> time \<Rightarrow> 'x \<Rightarrow> uuid \<Rightarrow> 'x db \<Rightarrow> 'x group_result" where
  "into_bin fresh now blank g db = (case recycle_bin_group_id_or_create fresh now blank db of
     (b, db1) \<Rightarrow> if g = b then Some (Inr (), db1) else move_tracked now g b db1)"

definition delete_group :: "uuid \<Rightarrow> time \<Rightarrow> 'x \<Rightarrow> uuid \<Rightarrow> group_delete_behavior \<Rightarrow> 'x db \<Rightarrow> 'x group_result" where
  "delete_group fresh now blank g behavior db = (case group_at db g of
     None \<Rightarrow> Some (Inl (Failed (GroupNotFound g)), db)
   | Some gr \<Rightarrow>
       if g = db_root db then Some (Inl (Failed CannotModifyRoot), db)
       else (case behavior of
         Refuse \<Rightarrow> if gr_groups gr \<noteq> [] \<or> gr_entries gr \<noteq> [] then Some (Inl (Failed (GroupNotEmpty g)), db)
           else into_bin fresh now blank g db
       | Recurse \<Rightarrow> into_bin fresh now blank g db))"

definition child_group_uuids :: "'x group \<Rightarrow> uuid list" where
  "child_group_uuids gr = sort (gr_groups gr)"

definition entry_uuids :: "'x group \<Rightarrow> uuid list" where
  "entry_uuids gr = sort (gr_entries gr)"

text \<open>\<open>BTreeSet\<close>: ascending, without duplicates. The order of strings is a parameter.\<close>

definition list_tags :: "(string list \<Rightarrow> string list) \<Rightarrow> 'x db \<Rightarrow> string list option" where
  "list_tags sort_strings db = map_option (\<lambda>tss. sort_strings (remdups (concat tss)))
     (option_all (\<lambda>(e, en). map_option (\<lambda>binned. if binned then [] else tags_from_entry (eb_tags (en_body en)))
       (is_entry_in_recycle_bin db e)) (db_entries db))"

definition edit_tags :: "uuid \<Rightarrow> ('x body \<Rightarrow> 'x body) \<Rightarrow> ('x, unit) vault_act" where
  "edit_tags e f = on_entry e (\<lambda>_ db. (Inr (), edit_entry e (map_body f) db))"

definition add_tag :: "time \<Rightarrow> uuid \<Rightarrow> string \<Rightarrow> ('x, unit) vault_act" where
  "add_tag now e t = edit_tags e (add_tag_view now t)"

definition remove_tag :: "time \<Rightarrow> uuid \<Rightarrow> string \<Rightarrow> ('x, unit) vault_act" where
  "remove_tag now e t = edit_tags e (remove_tag_view now t)"

definition set_tags :: "time \<Rightarrow> uuid \<Rightarrow> string list \<Rightarrow> ('x, unit) vault_act" where
  "set_tags now e ts = edit_tags e (set_tags_view now ts)"

section \<open>Expiration (expiration.rs)\<close>

definition set_expiration :: "time \<Rightarrow> uuid \<Rightarrow> time \<Rightarrow> ('x, unit) vault_act" where
  "set_expiration now e t = on_entry e (\<lambda>_ db. (Inr (), edit_entry e (map_body (touch now \<circ> set_expiry t)) db))"

definition clear_expiration :: "time \<Rightarrow> uuid \<Rightarrow> ('x, unit) vault_act" where
  "clear_expiration now e = on_entry e (\<lambda>_ db. (Inr (), edit_entry e (map_body (\<lambda>b.
     touch now (b\<lparr>eb_times := (eb_times b)\<lparr>tm_expires := Some False\<rparr>\<rparr>))) db))"

definition is_expired :: "'x db \<Rightarrow> uuid \<Rightarrow> time \<Rightarrow> vault_error + bool" where
  "is_expired db e now = rbind (get_entry e db) (\<lambda>en.
     let t = eb_times (en_body en)
     in if tm_expires t \<noteq> Some True then Inr False
        else case tm_expiry t of None \<Rightarrow> Inr False | Some x \<Rightarrow> Inr (x \<le> now))"

section \<open>Attachments (attachment.rs)\<close>

definition max_attachment_bytes_key :: string where
  "max_attachment_bytes_key = ''falach.max_attachment_bytes''"

definition default_max_attachment_bytes :: nat where
  "default_max_attachment_bytes = 5 * 1024 * 1024"

definition max_attachment_bytes_upper_bound :: nat where
  "max_attachment_bytes_upper_bound = 100 * 1024 * 1024"

definition read_max_attachment_bytes :: "'x db \<Rightarrow> nat" where
  "read_max_attachment_bytes db = (case hget (me_custom_data (db_meta db)) max_attachment_bytes_key of
     Some (Some (CustomString s)) \<Rightarrow> (case parse_unsigned u64_max s of Some n \<Rightarrow> n | None \<Rightarrow> default_max_attachment_bytes)
   | _ \<Rightarrow> default_max_attachment_bytes)"

definition set_max_attachment_bytes :: "nat \<Rightarrow> ('x, unit) vault_act" where
  "set_max_attachment_bytes n db =
     (if n = 0 \<or> n > max_attachment_bytes_upper_bound then (Inl (Failed InvalidAttachmentCap), db)
      else (Inr (), db\<lparr>db_meta := (db_meta db)\<lparr>me_custom_data :=
        hput max_attachment_bytes_key (Some (CustomString (show_nat n))) (me_custom_data (db_meta db))\<rparr>\<rparr>))"

definition add_attachment :: "time \<Rightarrow> uuid \<Rightarrow> string \<Rightarrow> bytes \<Rightarrow> ('x, unit) vault_act" where
  "add_attachment now e name data db =
     (if length data > read_max_attachment_bytes db
      then (Inl (Failed (AttachmentTooLarge (length data) (read_max_attachment_bytes db))), db)
      else on_entry e (\<lambda>_ db. (Inr (), edit_entry e (map_body (touch now)) (entry_add_attachment e name (Unprotected data) db))) db)"

text \<open>A name whose reference does not resolve panics.\<close>

definition read_attachment :: "uuid \<Rightarrow> string \<Rightarrow> 'x db \<Rightarrow> vault_error fault + bytes" where
  "read_attachment e name db = (case entry_at db e of
     None \<Rightarrow> Inl (Failed (EntryNotFound e))
   | Some en \<Rightarrow> (case hget (eb_attachments (en_body en)) name of
       None \<Rightarrow> Inl (Failed (AttachmentNotFound name))
     | Some a \<Rightarrow> (case hget (db_attachments db) a of None \<Rightarrow> Inl Panic | Some att \<Rightarrow> Inr (exposed (at_data att)))))"

text \<open>Name, size and content hash; \<open>sha\<close> is SHA-256.\<close>

definition list_attachments :: "(bytes \<Rightarrow> bytes) \<Rightarrow> uuid \<Rightarrow> 'x db \<Rightarrow> vault_error fault + (string \<times> nat \<times> bytes) list" where
  "list_attachments sha e db = (case entry_at db e of
     None \<Rightarrow> Inl (Failed (EntryNotFound e))
   | Some en \<Rightarrow> (case option_all (\<lambda>(n, a). map_option (\<lambda>att. let d = exposed (at_data att) in (n, length d, sha d))
         (hget (db_attachments db) a)) (eb_attachments (en_body en)) of
       None \<Rightarrow> Inl Panic
     | Some xs \<Rightarrow> Inr xs))"

definition remove_attachment :: "time \<Rightarrow> uuid \<Rightarrow> string \<Rightarrow> ('x, unit) vault_act" where
  "remove_attachment now e name = on_entry e (\<lambda>en db.
     if hget (eb_attachments (en_body en)) name = None then (Inl (Failed (AttachmentNotFound name)), db)
     else (Inr (), edit_entry e (map_body (touch now)) (remove_attachment_by_name e name db)))"

end
