(* ===== verification/VaultOps.thy ===== *)
theory VaultOps
  imports Entries
begin

text \<open>
  The operations of an open vault as one transition system: every change a client can make to entries, groups,
  tags, expiration, attachments and limits is one step. The tree of groups and entries stays well formed along
  every sequence of steps, each operation returns, and the failing ones say why.
\<close>

section \<open>Operations as steps\<close>

datatype vault_op =
    OpAddEntry uuid draft
  | OpUpdateEntry uuid closure time
  | OpMoveEntry uuid uuid
  | OpPurgeEntry uuid
  | OpDeleteEntry uuid
  | OpSetMaxHistory nat
  | OpCreateGroup uuid string
  | OpRenameGroup uuid string
  | OpMoveGroup uuid uuid
  | OpDeleteGroup uuid group_delete_behavior
  | OpAddTag uuid string
  | OpRemoveTag uuid string
  | OpSetTags uuid "string list"
  | OpSetExpiration uuid time
  | OpClearExpiration uuid
  | OpSetMaxAttachment nat
  | OpAddAttachment uuid string bytes
  | OpRemoveAttachment uuid string

text \<open>\<open>u\<close> is the UUID drawn for a new entry or group.\<close>

definition done_with :: "(vault_error fault + 'a) \<times> 'x db \<Rightarrow> 'x group_result" where
  "done_with r = Some (map_sum id (\<lambda>_. ()) (fst r), snd r)"

fun run_op :: "uuid \<Rightarrow> time \<Rightarrow> 'x \<Rightarrow> vault_op \<Rightarrow> 'x db \<Rightarrow> 'x group_result" where
  "run_op u now blank (OpAddEntry g d) db = done_with (add_entry u now blank g d db)"
| "run_op u now blank (OpUpdateEntry e f tf) db = done_with (update_entry tf now e f db)"
| "run_op u now blank (OpMoveEntry e g) db = done_with (move_entry now e g db)"
| "run_op u now blank (OpPurgeEntry e) db = done_with (purge_entry now e db)"
| "run_op u now blank (OpDeleteEntry e) db = done_with (delete_entry u now blank e db)"
| "run_op u now blank (OpSetMaxHistory n) db = done_with (set_max_history_per_entry n db)"
| "run_op u now blank (OpCreateGroup p n) db = done_with (create_group u now blank p n db)"
| "run_op u now blank (OpRenameGroup g n) db = done_with (rename_group now g n db)"
| "run_op u now blank (OpMoveGroup g p) db = move_group now g p db"
| "run_op u now blank (OpDeleteGroup g b) db = delete_group u now blank g b db"
| "run_op u now blank (OpAddTag e t) db = done_with (add_tag now e t db)"
| "run_op u now blank (OpRemoveTag e t) db = done_with (remove_tag now e t db)"
| "run_op u now blank (OpSetTags e ts) db = done_with (set_tags now e ts db)"
| "run_op u now blank (OpSetExpiration e t) db = done_with (set_expiration now e t db)"
| "run_op u now blank (OpClearExpiration e) db = done_with (clear_expiration now e db)"
| "run_op u now blank (OpSetMaxAttachment n) db = done_with (set_max_attachment_bytes n db)"
| "run_op u now blank (OpAddAttachment e n d) db = done_with (add_attachment now e n d db)"
| "run_op u now blank (OpRemoveAttachment e n) db = done_with (remove_attachment now e n db)"

definition unused :: "uuid \<Rightarrow> 'x db \<Rightarrow> bool" where
  "unused u db \<longleftrightarrow> entry_at db u = None \<and> group_at db u = None"

text \<open>One call that returns, from a state where the drawn UUID is unused.\<close>

inductive vault_step :: "'x db \<Rightarrow> 'x db \<Rightarrow> bool" where
  "unused u db \<Longrightarrow> run_op u now blank op db = Some (r, db') \<Longrightarrow> vault_step db db'"

inductive_cases vault_stepE: "vault_step db db'"

text \<open>\<open>Database::with_data\<close>\<close>

definition new_db :: "uuid \<Rightarrow> time \<Rightarrow> 'x \<Rightarrow> 'x db" where
  "new_db root now blank = \<lparr>db_meta = \<lparr>me_recyclebin_enabled = None, me_recyclebin_uuid = None, me_recyclebin_changed = None,
       me_history_max_items = None, me_custom_data = []\<rparr>,
     db_root = root, db_attachments = [], db_entries = [],
     db_groups = [(root, (new_group root root now blank)\<lparr>gr_parent := None\<rparr>)], db_deleted = []\<rparr>"

lemma new_db_ok: "db_ok (new_db root now blank)"
  by (auto simp: db_ok_def new_db_def new_group_def hwf_def tree_ok_def group_ok_def intro: rooted.root)

section \<open>Preservation\<close>

text \<open>An action keeps a well-formed tree and does not panic.\<close>

definition keeps_tree :: "('x, 'a) vault_act \<Rightarrow> bool" where
  "keeps_tree m \<longleftrightarrow> (\<forall>db r db'. db_ok db \<longrightarrow> m db = (r, db') \<longrightarrow> db_ok db' \<and> r \<noteq> Inl Panic)"

lemma keeps_treeI: "(\<And>db r db'. db_ok db \<Longrightarrow> m db = (r, db') \<Longrightarrow> db_ok db' \<and> r \<noteq> Inl Panic) \<Longrightarrow> keeps_tree m"
  by (simp add: keeps_tree_def)

lemma keeps_treeD: "keeps_tree m \<Longrightarrow> db_ok db \<Longrightarrow> m db = (r, db') \<Longrightarrow> db_ok db' \<and> r \<noteq> Inl Panic"
  by (simp add: keeps_tree_def)

lemma keeps_meta [intro]: "db_ok db \<Longrightarrow> db_ok (db\<lparr>db_meta := m\<rparr>)"
  by (simp add: db_ok_def)

lemma keeps_deleted [intro]: "db_ok db \<Longrightarrow> db_ok (db\<lparr>db_deleted := m\<rparr>)"
  by (simp add: db_ok_def)

lemma on_entry_cases:
  "on_entry e k db = (case entry_at db e of None \<Rightarrow> (Inl (Failed (EntryNotFound e)), db) | Some en \<Rightarrow> k en db)"
  by (simp add: on_entry_def find_entry_id_def split: option.split)

lemma keeps_on_entry:
  assumes "\<And>en db r db'. db_ok db \<Longrightarrow> entry_at db e = Some en \<Longrightarrow> k en db = (r, db') \<Longrightarrow> db_ok db' \<and> r \<noteq> Inl Panic"
  shows "keeps_tree (on_entry e k)"
proof (rule keeps_treeI)
  fix db :: "'a db" and r db'
  assume "db_ok db" "on_entry e k db = (r, db')"
  then show "db_ok db' \<and> r \<noteq> Inl Panic"
    using assms [of db] by (cases "entry_at db e") (auto simp: on_entry_cases)
qed

text \<open>Edits of an entry's body leave its place alone.\<close>

definition same_spot :: "'x body \<Rightarrow> 'x body \<Rightarrow> bool" where
  "same_spot a b \<longleftrightarrow> eb_id a = eb_id b \<and> eb_parent a = eb_parent b"

lemma same_spot_fold: "(\<And>x b. same_spot (f x b) b) \<Longrightarrow> same_spot (fold f xs b) b"
  by (induction xs arbitrary: b) (auto simp: same_spot_def)

lemma same_spot_set [simp]: "same_spot (set_unprotected k v b) b'= same_spot b b'" "same_spot (set_protected k v b) b' = same_spot b b'"
  "same_spot (touch now b) b' = same_spot b b'" "same_spot (set_expiry t b) b' = same_spot b b'"
  "same_spot (b\<lparr>eb_tags := ts\<rparr>) b' = same_spot b b'" "same_spot (b\<lparr>eb_times := tm\<rparr>) b' = same_spot b b'"
  "same_spot (b\<lparr>eb_fields := fs\<rparr>) b' = same_spot b b'" "same_spot b b"
  by (simp_all add: same_spot_def set_unprotected_def set_protected_def body_set_def set_last_modification_def set_expiry_def)

lemma same_spot_trans: "same_spot a b \<Longrightarrow> same_spot b c \<Longrightarrow> same_spot a c"
  by (simp add: same_spot_def)

lemma view_edit_spot: "same_spot (view_edit now v b) b"
  by (cases v) (simp_all add: add_tag_view_def remove_tag_view_def set_tags_view_def set_custom_field_view_def
      remove_custom_field_view_def Let_def)

lemma set_opt_spot [simp]: "(\<And>s b. same_spot (f s b) b) \<Longrightarrow> same_spot b b' \<Longrightarrow> same_spot (set_opt f v b) b'"
  by (cases v) (auto simp: set_opt_def intro: same_spot_trans)

lemma customs_spot:
  "same_spot c b \<Longrightarrow> same_spot (fold (\<lambda>f. (if cf_protected f then set_protected else set_unprotected) (cf_name f) (cf_value f)) fs c) b"
  by (induction fs arbitrary: c) auto

lemma draft_spot: "same_spot (populate_entry_from_draft now d b) b"
proof -
  let ?b5 = "set_opt (set_unprotected f_notes) (dr_notes d) (set_opt (set_unprotected f_url) (dr_url d)
    (set_opt (set_protected f_password) (dr_password d) (set_opt (set_unprotected f_username) (dr_username d)
      (set_unprotected f_title (dr_title d) b))))"
  let ?b6 = "case dr_expires_at d of None \<Rightarrow> ?b5 | Some t \<Rightarrow> set_expiry t ?b5"
  have "same_spot ?b5 b" by (intro set_opt_spot) simp_all
  then have "same_spot (?b6\<lparr>eb_tags := dr_tags d\<rparr>) b" by (simp split: option.split)
  from customs_spot [OF this] show ?thesis unfolding populate_entry_from_draft_def Let_def by simp
qed

lemma keeps_edit_body:
  assumes "db_ok db" "\<And>b. same_spot (f b) b"
  shows "db_ok (edit_entry e (map_body f) db)"
  using assms by (intro body_edit_ok) (auto simp: same_spot_def)

lemma find_ids: "find_entry_id db e = Inr x \<Longrightarrow> entry_at db e \<noteq> None" "find_group_id db g = Inr x \<Longrightarrow> group_at db g \<noteq> None"
  by (auto simp: find_entry_id_def find_group_id_def split: if_splits)

lemma keeps_update: "keeps_tree (update_entry tf now e f)"
  unfolding update_entry_def
proof (rule keeps_on_entry)
  fix en and db :: "'a db" and r db'
  assume ok: "db_ok db" and en: "entry_at db e = Some en"
  let ?db1 = "edit_entry e (record_history (history_cap_of db)) db"
  let ?en1 = "record_history (history_cap_of db) en"
  let ?b = "fold (view_edit tf) (fst f) (en_body ?en1)"
  have spot: "en_body ?en1 = en_body en" 
    by (simp add: record_history_def push_history_def prune_history_def split: history_cap.split option.split)
  have ok1: "db_ok ?db1"
    using ok spot en by (auto intro: db_ok_edit_entry)
  have sp: "same_spot ?b (en_body en)"
    using same_spot_fold [of "view_edit tf", OF view_edit_spot] spot by metis
  have ok2: "db_ok (edit_entry e (map_body (\<lambda>_. ?b)) ?db1)"
    by (rule db_ok_edit_entry [OF ok1]) (use sp en spot in \<open>auto simp: same_spot_def\<close>)
  have "db_ok (edit_entry e (\<lambda>_. en) (edit_entry e (map_body (\<lambda>_. ?b)) ?db1))"
    by (rule db_ok_edit_entry [OF ok2]) (use sp en spot in \<open>auto simp: same_spot_def\<close>)
  moreover have "db_ok (edit_entry e (map_body (touch now)) (edit_entry e (map_body (\<lambda>_. ?b)) ?db1))"
    by (rule keeps_edit_body [OF ok2]) simp
  moreover assume "(let db1 = ?db1; en1 = the (entry_at db1 e); (r, b) = run_closure tf f (en_body en1);
      db2 = edit_entry e (map_body (\<lambda>_. b)) db1
     in case r of Inl x \<Rightarrow> (Inl (Failed x), edit_entry e (\<lambda>_. en) db2)
        | Inr _ \<Rightarrow> (Inr (), edit_entry e (map_body (touch now)) db2)) = (r, db')"
  ultimately show "db_ok db' \<and> r \<noteq> Inl Panic"
    using en by (auto simp: run_closure_def Let_def split: option.splits)
qed

lemma keeps_move: "keeps_tree (move_entry now e g)"
  unfolding move_entry_def
  by (rule keeps_on_entry)
    (auto split: sum.splits prod.splits fault.splits dest: find_ids tracked_move_ok [rotated 2])

lemma bin_ok:
  assumes ok: "db_ok db" and fresh: "group_at db u = None" and run: "recycle_bin_group_id_or_create u now blank db = (b, db')"
  shows "db_ok db' \<and> group_at db' b \<noteq> None \<and> db_entries db' = db_entries db \<and> (\<forall>g. group_at db g \<noteq> None \<longrightarrow> group_at db' g \<noteq> None)"
proof (cases "recycle_bin db")
  case None
  obtain rg where "group_at db (db_root db) = Some rg" using ok by (auto simp: db_ok_def tree_ok_def)
  with db_ok_add_group [OF ok _ fresh] have "db_ok (group_add_group (db_root db) u now blank db)" by blast
  then have "db_ok (edit_group u (\<lambda>g. g\<lparr>gr_name := ''Recycle Bin'',
      gr_times := (gr_times g)\<lparr>tm_creation := Some now, tm_last_modification := Some now\<rparr>\<rparr>) (group_add_group (db_root db) u now blank db))"
    by (rule db_ok_edit_group) (simp add: same_place_def)
  from keeps_meta [OF this] run None show ?thesis
    by (auto simp: recycle_bin_group_id_or_create_def Let_def) (auto simp: group_add_group_def edit_group_def split: if_splits)
next
  case (Some x)
  with run ok show ?thesis
    by (auto simp: recycle_bin_group_id_or_create_def recycle_bin_def split: option.splits if_splits)
qed

lemma purge_ok:
  assumes "db_ok db" "purge_entry now e db = (r, db')"
  shows "db_ok db' \<and> (r = Inl Panic \<longrightarrow> \<not> refs_resolve db e)"
proof (cases "entry_at db e")
  case None
  with assms show ?thesis by (auto simp: purge_entry_def on_entry_cases)
next
  case (Some en)
  let ?db = "db\<lparr>db_deleted := hput e (Some now) (db_deleted db)\<rparr>"
  from assms(2) Some have run: "entry_remove e ?db = (r, db')"
    by (simp add: purge_entry_def on_entry_cases tracked_remove_def)
  have ok: "db_ok ?db" using assms(1) by (rule keeps_deleted)
  from remove_ok [OF ok run] Some have "db_ok db'"
    "r = Inl Panic \<longrightarrow> fst (release_all e (refs_of ?db e) ?db) = (Inl Panic :: vault_error fault + unit)" by auto
  moreover have "refs_of ?db e = refs_of db e" by (simp add: refs_of_def)
  ultimately show ?thesis
    using release_all_resolved [of "refs_of db e" ?db e] unfolding refs_resolve_def
    by (metis Inl_Inr_False db.select_convs(3) db.surjective db.update_convs(6))
qed

lemma delete_ok:
  assumes ok: "db_ok db" and u: "group_at db u = None" and run: "delete_entry u now blank e db = (r, db')"
  shows "db_ok db' \<and> (r = Inl Panic \<longrightarrow> \<not> refs_resolve db e)"
proof (cases "me_recyclebin_enabled (db_meta db) = Some False")
  case True
  with purge_ok [OF ok] run show ?thesis by (simp add: delete_entry_def)
next
  case False
  show ?thesis
  proof (cases "entry_at db e")
    case None
    with False run ok show ?thesis by (auto simp: delete_entry_def on_entry_cases)
  next
    case (Some en)
    obtain b db1 where bin: "recycle_bin_group_id_or_create u now blank db = (b, db1)" by fastforce
    note b = bin_ok [OF ok u bin]
    note t = ok [unfolded db_ok_def, THEN conjunct2, THEN conjunct2]
    from tree_okD(4) [OF t Some] have "group_at db (eb_parent (en_body en)) \<noteq> None" by (auto simp: entry_ok_def)
    with b have p: "group_at db1 (eb_parent (en_body en)) \<noteq> None" by blast
    from b Some have "db_ok db1" "entry_at db1 e \<noteq> None" by auto
    from tracked_move_ok [OF this] False run Some bin p b show ?thesis
      by (auto simp: delete_entry_def on_entry_cases split: if_splits prod.splits sum.splits fault.splits)
  qed
qed

lemma keeps_add_entry:
  assumes "db_ok db" "entry_at db u = None" "add_entry u now blank g d db = (r, db')"
  shows "db_ok db' \<and> r \<noteq> Inl Panic"
proof (cases "group_at db g")
  case None
  with assms show ?thesis by (auto simp: add_entry_def find_group_id_def)
next
  case (Some gr)
  from keeps_edit_body [OF db_ok_add_entry [OF assms(1) Some assms(2)] draft_spot] assms(3) Some show ?thesis
    by (auto simp: add_entry_def find_group_id_def)
qed

lemma keeps_create_group:
  assumes "db_ok db" "group_at db u = None" "create_group u now blank p name db = (r, db')"
  shows "db_ok db' \<and> r \<noteq> Inl Panic"
proof (cases "group_at db p")
  case None
  with assms show ?thesis by (auto simp: create_group_def find_group_id_def)
next
  case (Some pg)
  have "db_ok (edit_group u (\<lambda>g. g\<lparr>gr_name := name, gr_times := (gr_times g)\<lparr>tm_creation := Some now,
      tm_last_modification := Some now\<rparr>\<rparr>) (group_add_group p u now blank db))"
    by (rule db_ok_edit_group [OF db_ok_add_group [OF assms(1) Some assms(2)]]) (simp add: same_place_def)
  with assms(3) Some show ?thesis by (auto simp: create_group_def find_group_id_def)
qed

lemma keeps_rename_group: "keeps_tree (rename_group now g name)"
  by (rule keeps_treeI) (auto simp: rename_group_def find_group_id_def same_place_def split: if_splits intro!: db_ok_edit_group)

lemma keeps_limits: "keeps_tree (set_max_history_per_entry n)" "keeps_tree (set_max_attachment_bytes n)"
  by (auto intro!: keeps_treeI simp: set_max_history_per_entry_def set_max_attachment_bytes_def split: if_splits)

lemma keeps_body_op:
  "(\<And>b. same_spot (f b) b) \<Longrightarrow> keeps_tree (on_entry e (\<lambda>_ db. (Inr (), edit_entry e (map_body f) db)))"
  by (rule keeps_on_entry) (auto intro!: keeps_edit_body)

lemma keeps_tags: "keeps_tree (add_tag now e t)" "keeps_tree (remove_tag now e t)" "keeps_tree (set_tags now e ts)"
  unfolding add_tag_def remove_tag_def set_tags_def edit_tags_def
  by (rule keeps_body_op, simp add: add_tag_view_def remove_tag_view_def set_tags_view_def Let_def)+

lemma keeps_expiry: "keeps_tree (set_expiration now e t)" "keeps_tree (clear_expiration now e)"
  unfolding set_expiration_def clear_expiration_def by (rule keeps_body_op; simp)+

lemma keeps_attach: "keeps_tree (add_attachment now e name data)"
proof (rule keeps_treeI)
  fix db :: "'a db" and r db'
  assume ok: "db_ok db" and run: "add_attachment now e name data db = (r, db')"
  have "same_tree db (entry_add_attachment e name (Unprotected data) db)"
    by (auto simp: entry_add_attachment_def remove_attachment_by_id_def drop_names_def Let_def split: option.split
        intro!: same_tree_trans [OF same_tree_edit same_tree_release] same_tree_trans [OF same_tree_pool same_tree_edit]
          same_tree_trans [OF same_tree_trans [OF same_tree_pool same_tree_edit] same_tree_trans [OF same_tree_edit same_tree_release]])
  from keeps_edit_body [OF same_tree_ok [OF this ok], of "touch now" e] run ok
  show "db_ok db' \<and> r \<noteq> Inl Panic" by (auto simp: add_attachment_def on_entry_cases split: if_splits option.splits)
qed

lemma keeps_detach: "keeps_tree (remove_attachment now e name)"
  unfolding remove_attachment_def
proof (rule keeps_on_entry)
  fix en and db :: "'a db" and r db'
  assume ok: "db_ok db"
  have "same_tree db (remove_attachment_by_name e name db)"
    by (auto simp: remove_attachment_by_name_def split: option.split intro!: same_tree_trans [OF same_tree_edit same_tree_release])
  from keeps_edit_body [OF same_tree_ok [OF this ok], of "touch now" e] ok
  show "(if hget (eb_attachments (en_body en)) name = None then (Inl (Failed (AttachmentNotFound name)), db)
      else (Inr (), edit_entry e (map_body (touch now)) (remove_attachment_by_name e name db))) = (r, db') \<Longrightarrow>
    db_ok db' \<and> r \<noteq> Inl Panic" by (auto split: if_splits)
qed

text \<open>The group operations return, because the loop up the parents ends at the root.\<close>

lemma moves_ok:
  assumes ok: "db_ok db" and g: "group_at db g \<noteq> None"
  shows "\<exists>r db'. move_tracked now g new db = Some (r, db') \<and> db_ok db' \<and> r \<noteq> Inl Panic"
proof -
  obtain s db1 where m: "group_move_to g new db = Some (s, db1)" "db_ok db1" "s = Inl Panic \<longrightarrow> group_at db g = None"
    using move_group_ok [OF ok, of g new] by (elim exE conjE) (rule that)
  then have np: "s \<noteq> Inl Panic" using g by simp
  have "db_ok (edit_group g (\<lambda>x. x\<lparr>gr_times := (gr_times x)\<lparr>tm_location_changed := Some now\<rparr>\<rparr>) db1)"
    by (rule db_ok_edit_group [OF m(2)]) (simp add: same_place_def)
  note ok2 = this
  show ?thesis
  proof (cases s)
    case (Inl x)
    with np obtain y where "x = Failed y" by (cases x) auto
    with m Inl show ?thesis by (simp add: move_tracked_def tracked_group_move_to_def)
  next
    case (Inr x)
    with m ok2 show ?thesis by (simp add: move_tracked_def tracked_group_move_to_def)
  qed
qed

lemma into_bin_ok:
  assumes ok: "db_ok db" and u: "group_at db u = None" and g: "group_at db g \<noteq> None"
  shows "\<exists>r db'. into_bin u now blank g db = Some (r, db') \<and> db_ok db' \<and> r \<noteq> Inl Panic"
proof -
  obtain b db1 where bin: "recycle_bin_group_id_or_create u now blank db = (b, db1)" by fastforce
  note b = bin_ok [OF ok u bin]
  with g have "db_ok db1" "group_at db1 g \<noteq> None" by blast+
  from moves_ok [OF this] this(1) bin show ?thesis by (auto simp: into_bin_def)
qed

lemma move_group_returns:
  "db_ok db \<Longrightarrow> \<exists>r db'. move_group now g new db = Some (r, db') \<and> db_ok db' \<and> r \<noteq> Inl Panic"
  using moves_ok [of db g now new] by (auto simp: move_group_def find_group_id_def)

lemma delete_group_returns:
  "db_ok db \<Longrightarrow> group_at db u = None \<Longrightarrow> \<exists>r db'. delete_group u now blank g b db = Some (r, db') \<and> db_ok db' \<and> r \<noteq> Inl Panic"
  using into_bin_ok [of db u g now blank] by (auto simp: delete_group_def split: option.split group_delete_behavior.split)

text \<open>Every operation.\<close>

definition purges :: "vault_op \<Rightarrow> uuid \<Rightarrow> bool" where
  "purges op e \<longleftrightarrow> op = OpPurgeEntry e \<or> op = OpDeleteEntry e"

lemma done_ok:
  assumes "m db = (r, db') \<Longrightarrow> db_ok db' \<and> (r = Inl Panic \<longrightarrow> P)" "m db = (r, db')"
  shows "\<exists>r db'. done_with (m db) = Some (r, db') \<and> db_ok db' \<and> (r = Inl Panic \<longrightarrow> P)"
  using assms by (cases r) (auto simp: done_with_def)

lemma done_keeps:
  assumes "keeps_tree m" "db_ok db"
  shows "\<exists>r db'. done_with (m db) = Some (r, db') \<and> db_ok db' \<and> (r = Inl Panic \<longrightarrow> P)"
  using keeps_treeD [OF assms] done_ok [of m db "fst (m db)" "snd (m db)" P] by auto

lemma op_ok:
  assumes ok: "db_ok db" and u: "unused u db"
  shows "\<exists>r db'. run_op u now blank op db = Some (r, db') \<and> db_ok db' \<and> (r = Inl Panic \<longrightarrow> (\<exists>e. purges op e \<and> \<not> refs_resolve db e))"
proof -
  have g: "group_at db u = None" and e: "entry_at db u = None" using u by (simp_all add: unused_def)
  note keep = done_keeps [OF _ ok]
  have total: "\<exists>r db'. x = Some (r, db') \<and> db_ok db' \<and> (r = Inl Panic \<longrightarrow> P)"
    if "\<exists>r db'. x = Some (r, db') \<and> db_ok db' \<and> r \<noteq> Inl Panic" for x :: "'a group_result" and P using that by auto
  show ?thesis
  proof (cases op)
    case (OpPurgeEntry e)
    have "purges op e" by (simp add: OpPurgeEntry purges_def)
    then show ?thesis unfolding OpPurgeEntry run_op.simps
      by (intro done_ok [OF _ prod.collapse [symmetric]]) (use purge_ok [OF ok, of now e] in blast)
  next
    case (OpDeleteEntry e)
    have "purges op e" by (simp add: OpDeleteEntry purges_def)
    then show ?thesis unfolding OpDeleteEntry run_op.simps
      by (intro done_ok [OF _ prod.collapse [symmetric]]) (use delete_ok [OF ok g, of now blank e] in blast)
  next
    case (OpAddEntry p d)
    then show ?thesis using keeps_add_entry [OF ok e] by (simp, intro done_ok [OF _ prod.collapse [symmetric]]) blast
  next
    case (OpCreateGroup p n)
    then show ?thesis using keeps_create_group [OF ok g] by (simp, intro done_ok [OF _ prod.collapse [symmetric]]) blast
  qed (simp_all only: run_op.simps, (rule keep total, rule keeps_update keeps_move keeps_rename_group keeps_limits keeps_tags keeps_expiry
      keeps_attach keeps_detach move_group_returns [OF ok] delete_group_returns [OF ok g])+)
qed

section \<open>The queries that walk the tree\<close>

lemma bin_query:
  assumes ok: "db_ok db"
  shows "is_entry_in_recycle_bin db e =
    Some (\<exists>b en. recycle_bin db = Some b \<and> entry_at db e = Some en \<and> above (group_at db) b (eb_parent (en_body en)))"
proof (cases "recycle_bin db")
  case None
  then show ?thesis by (simp add: is_entry_in_recycle_bin_def)
next
  case (Some b)
  then have "group_at db b \<noteq> None" by (auto simp: recycle_bin_def split: option.splits if_splits)
  with subtree_below [OF ok] obtain gs where gs: "subtree db b = Some gs" "set gs = below db b" by blast
  note t = ok [unfolded db_ok_def, THEN conjunct2, THEN conjunct2]
  have "list_ex (\<lambda>g. case group_at db g of None \<Rightarrow> False | Some gr \<Rightarrow> e \<in> set (gr_entries gr)) gs \<longleftrightarrow>
    (\<exists>en. entry_at db e = Some en \<and> above (group_at db) b (eb_parent (en_body en)))" (is "?L \<longleftrightarrow> ?R")
  proof
    assume ?L
    then obtain g gr where g: "g \<in> set gs" "group_at db g = Some gr" "e \<in> set (gr_entries gr)"
      by (auto simp: list_ex_iff split: option.splits)
    then have ab: "above (group_at db) b g" using gs(2) by (auto simp: below_def)
    from tree_okD(2) [OF t g(2)] g(3) obtain en where "entry_at db e = Some en" "eb_parent (en_body en) = g" by (auto simp: group_ok_def)
    with ab show ?R by auto
  next
    assume ?R
    then obtain en where en: "entry_at db e = Some en" "above (group_at db) b (eb_parent (en_body en))" by blast
    from tree_okD(4) [OF t en(1)] obtain gr where "group_at db (eb_parent (en_body en)) = Some gr" "e \<in> set (gr_entries gr)"
      by (auto simp: entry_ok_def)
    with en(2) gs(2) show ?L unfolding list_ex_iff by (intro bexI [of _ "eb_parent (en_body en)"]) (auto simp: below_def)
  qed
  with Some gs show ?thesis by (simp add: is_entry_in_recycle_bin_def)
qed

lemma list_tags_returns:
  assumes ok: "db_ok db"
  shows "\<exists>ts. list_tags srt db = Some (srt ts) \<and> set ts = (\<Union>(e, en) \<in> set (db_entries db).
    if is_entry_in_recycle_bin db e = Some True then {} else set (tags_from_entry (eb_tags (en_body en))))"
proof -
  let ?R = "\<lambda>(e, en) ts. set ts = (if is_entry_in_recycle_bin db e = Some True then {} else set (tags_from_entry (eb_tags (en_body en))))"
  let ?f = "\<lambda>(e, en). map_option (\<lambda>binned. if binned then [] else tags_from_entry (eb_tags (en_body en))) (is_entry_in_recycle_bin db e)"
  have "\<exists>y. ?f x = Some y \<and> ?R x y" for x
  proof (cases x)
    case (Pair e en)
    obtain c where "is_entry_in_recycle_bin db e = Some c" using bin_query [OF ok] by blast
    with Pair show ?thesis by simp
  qed
  then obtain tss where tss: "option_all ?f (db_entries db) = Some tss" "list_all2 ?R (db_entries db) tss"
    using option_all_Some [of "db_entries db" ?f ?R] by blast
  have "(\<Union>ts \<in> set tss. set ts) = (\<Union>(e, en) \<in> set (db_entries db).
      if is_entry_in_recycle_bin db e = Some True then {} else set (tags_from_entry (eb_tags (en_body en))))"
    using tss(2) by induction auto
  with tss(1) show ?thesis by (intro exI [of _ "remdups (concat tss)"]) (simp add: list_tags_def)
qed

lemma attachments_panic:
  "list_attachments sha e db = Inl Panic \<longleftrightarrow> (\<exists>a \<in> set (refs_of db e). hget (db_attachments db) a = None)"
  "read_attachment e name db = Inl Panic \<longleftrightarrow>
    (\<exists>en a. entry_at db e = Some en \<and> hget (eb_attachments (en_body en)) name = Some a \<and> hget (db_attachments db) a = None)"
proof -
  have none: "option_all f xs = None \<longleftrightarrow> (\<exists>x \<in> set xs. f x = None)" for f :: "string \<times> nat \<Rightarrow> 'b option" and xs
    by (induction xs) (auto split: option.split)
  show "list_attachments sha e db = Inl Panic \<longleftrightarrow> (\<exists>a \<in> set (refs_of db e). hget (db_attachments db) a = None)"
  proof (cases "entry_at db e")
    case (Some en)
    let ?f = "\<lambda>(n, a). map_option (\<lambda>att. let d = exposed (at_data att) in (n, length d, sha d)) (hget (db_attachments db) a)"
    have "list_attachments sha e db = Inl Panic \<longleftrightarrow> option_all ?f (eb_attachments (en_body en)) = None"
      using Some by (simp add: list_attachments_def split: option.split)
    then show ?thesis using Some by (auto simp: none refs_of_def) force+
  qed (simp add: list_attachments_def refs_of_def)
qed (simp add: read_attachment_def split: option.split)

section \<open>Properties\<close>

text \<open>C5: A database that is well formed - the groups are a tree under the root, every child list agrees with
  the parent links, every entry is listed by exactly its parent group and filed under its own UUID - stays well
  formed along every sequence of vault operations with unused UUIDs, whatever each of them returns. A new
  database is well formed.\<close>

theorem vault_tree_invariant:
  assumes "db_ok db \<or> db = new_db root now blank" "vault_step\<^sup>*\<^sup>* db db'"
  shows "db_ok db'"
  using assms(2,1)
proof induction
  case base
  then show ?case using new_db_ok by auto
next
  case (step y z)
  from step.hyps(2) obtain u t bl op r where "unused u y" "run_op u t bl op y = Some (r, z)" by (elim vault_stepE)
  with op_ok [OF step.IH [OF step.prems] this(1), of t bl op] show ?case by auto
qed

lemma vault_tree_invariant_witness:
  "db_ok (snd (the (run_op 2 5 () (OpCreateGroup 1 ''Work'') (new_db 1 0 ()))))"
proof (rule vault_tree_invariant)
  show "db_ok (new_db 1 0 ()) \<or> new_db 1 0 () = new_db 1 0 ()" by simp
  have "vault_step (new_db 1 0 ()) (snd (the (run_op 2 5 () (OpCreateGroup 1 ''Work'') (new_db 1 0 ()))))"
    by (rule vault_step.intros [of 2 _ 5 "()" "OpCreateGroup 1 ''Work''"])
      (simp_all add: unused_def new_db_def done_with_def create_group_def find_group_id_def)
  then show "vault_step\<^sup>*\<^sup>* (new_db 1 0 ()) (snd (the (run_op 2 5 () (OpCreateGroup 1 ''Work'') (new_db 1 0 ()))))" ..
qed

text \<open>C6: On a well-formed database every operation of the vault returns - the loop up the parents that a group
  move makes and the recursion into the recycle bin end - and panics only when it purges an entry two of whose
  attachment names share a binary or do not resolve. The recycle-bin query and the tag list return without a
  panic: the query answers whether the bin is an ancestor of the entry's group, and the list has exactly the valid tags
  of the entries outside the bin. Listing the attachments of an entry panics exactly when one of its
  references does not resolve, and reading one of them panics exactly when that one does not.\<close>

theorem vault_ops_return:
  assumes "db_ok db" "unused u db"
  shows "\<exists>r db'. run_op u now blank op db = Some (r, db')
      \<and> (r = Inl Panic \<longrightarrow> (\<exists>e. purges op e \<and> \<not> refs_resolve db e))
      \<and> is_entry_in_recycle_bin db e =
          Some (\<exists>b en. recycle_bin db = Some b \<and> entry_at db e = Some en \<and> above (group_at db) b (eb_parent (en_body en)))
      \<and> (\<exists>ts. list_tags srt db = Some (srt ts) \<and> set ts = (\<Union>(k, en) \<in> set (db_entries db).
          if is_entry_in_recycle_bin db k = Some True then {} else set (tags_from_entry (eb_tags (en_body en)))))
      \<and> (list_attachments sha e db = Inl Panic \<longleftrightarrow> (\<exists>a \<in> set (refs_of db e). hget (db_attachments db) a = None))
      \<and> (read_attachment e name db = Inl Panic \<longleftrightarrow>
          (\<exists>en a. entry_at db e = Some en \<and> hget (eb_attachments (en_body en)) name = Some a \<and> hget (db_attachments db) a = None))"
  using op_ok [OF assms, of now blank op] bin_query [OF assms(1), of e] list_tags_returns [OF assms(1), of srt]
    attachments_panic(1) [of sha e db] attachments_panic(2) [of e name db] by blast

lemma vault_ops_return_witness:
  "(\<exists>r db'. run_op 2 5 () (OpMoveGroup 1 1) (new_db 1 0 ()) = Some (r, db')) \<and> list_attachments id 7 (new_db 1 0 ()) \<noteq> Inl Panic"
proof -
  have "db_ok (new_db 1 0 ())" "unused 2 (new_db 1 0 ())" by (rule new_db_ok, simp add: unused_def new_db_def)
  from vault_ops_return [OF this, of 5 "()" "OpMoveGroup 1 1" 7 id id] obtain r db' where
      "run_op 2 5 () (OpMoveGroup 1 1) (new_db 1 0 ()) = Some (r, db')"
      "list_attachments id 7 (new_db 1 0 ()) = Inl Panic \<longleftrightarrow> (\<exists>a \<in> set (refs_of (new_db 1 0 ()) 7). hget (db_attachments (new_db 1 0 ())) a = None)"
    by blast
  then show ?thesis by (simp add: refs_of_def new_db_def)
qed

section \<open>Updating an entry\<close>

lemma edit_same: "hwf (db_entries db) \<Longrightarrow> entry_at db e = Some en \<Longrightarrow> edit_entry e (\<lambda>_. en) db = db"
  by (auto simp: edit_entry_def hmodify_def hwf_hget_iff hwf_def eq_key_imp_eq_value
      intro!: db.equality map_idI)

lemma edit_to: "hwf (db_entries db) \<Longrightarrow> entry_at db e = Some en \<Longrightarrow> edit_entry e f db = edit_entry e (\<lambda>_. f en) db"
proof -
  assume "hwf (db_entries db)" "entry_at db e = Some en"
  then have "hmodify e f (db_entries db) = hmodify e (\<lambda>_. f en) (db_entries db)"
    by (auto simp: hmodify_def hwf_hget_iff hwf_def dest: eq_key_imp_eq_value)
  then show ?thesis by (simp add: edit_entry_def)
qed

lemma edit_edit: "edit_entry e f (edit_entry e g db) = edit_entry e (f \<circ> g) db"
  by (auto simp: edit_entry_def hmodify_def comp_def split_def)

text \<open>The versions an entry's history holds after one more was recorded.\<close>

definition recorded :: "history_cap \<Rightarrow> 'x entry \<Rightarrow> 'x body list" where
  "recorded cap en = (let h = map en_body (view_history en) in
     case cap of Disabled \<Rightarrow> h | Unlimited \<Rightarrow> en_body en # h | MaxItems m \<Rightarrow> take m (en_body en # h))"

lemma rebuilt: "map en_body (fold history_add (rev xs) acc) = map en_body xs @ map en_body acc"
  by (induction xs arbitrary: acc rule: rev_induct) (auto simp: history_add_def)

lemma recorded_history: "map en_body (view_history (record_history cap en)) = recorded cap en \<and> en_body (record_history cap en) = en_body en"
proof (cases cap)
  case (MaxItems m)
  have h: "view_history (push_history en en) = history_add en (view_history en)" "en_body (push_history en en) = en_body en"
    by (simp_all add: push_history_def view_history_def)
  have "map en_body (view_history (prune_history m x)) = take m (map en_body (view_history x)) \<and> en_body (prune_history m x) = en_body x" for x :: "'a entry"
    by (auto simp: prune_history_def view_history_def rebuilt [where acc = "[]", simplified] take_map split: option.split)
  with MaxItems h show ?thesis by (simp add: record_history_def recorded_def history_add_def Let_def)
qed (simp_all add: record_history_def recorded_def push_history_def view_history_def history_add_def Let_def split: option.split)

text \<open>C7: \<open>update_entry\<close> is all or nothing. When the closure fails, the database is exactly as before, whatever the
  closure had changed. When it succeeds, every other entry, the groups, the pool and the tombstones are as before,
  the entry's body is what the closure made of it with the modification time set, and its history holds the value
  before the update in front of its earlier versions, cut to the history cap - or is as it was where history is
  disabled.\<close>

theorem update_entry_atomic:
  assumes "hwf (db_entries db)" "entry_at db e = Some en" "update_entry tf now e f db = (r, db')"
  shows "case snd f of
      Some x \<Rightarrow> r = Inl (Failed x) \<and> db' = db
    | None \<Rightarrow> r = Inr () \<and> (\<exists>en'. db' = edit_entry e (\<lambda>_. en') db
        \<and> en_body en' = touch now (fold (view_edit tf) (fst f) (en_body en))
        \<and> map en_body (view_history en') = recorded (history_cap_of db) en)"
proof -
  let ?rec = "record_history (history_cap_of db)"
  let ?b = "fold (view_edit tf) (fst f) (en_body en)"
  have rec: "map en_body (view_history (?rec en)) = recorded (history_cap_of db) en" "en_body (?rec en) = en_body en"
    using recorded_history by blast+
  show ?thesis
  proof (cases "snd f")
    case (Some x)
    with assms rec have "r = Inl (Failed x)" "db' = edit_entry e (\<lambda>_. en) db"
      using edit_to [OF assms(1,2), of "(\<lambda>_. en) \<circ> map_body (\<lambda>_. ?b) \<circ> ?rec"]
      by (auto simp: update_entry_def on_entry_cases run_closure_def Let_def edit_edit comp_def)
    with Some edit_same [OF assms(1,2)] show ?thesis by simp
  next
    case None
    let ?en' = "map_body (touch now) (map_body (\<lambda>_. ?b) (?rec en))"
    have same: "edit_entry e (map_body (touch now) \<circ> map_body (\<lambda>_. ?b) \<circ> ?rec) db = edit_entry e (\<lambda>_. ?en') db"
      using edit_to [OF assms(1,2), of "map_body (touch now) \<circ> map_body (\<lambda>_. ?b) \<circ> ?rec"] by simp
    have "view_history ?en' = view_history (?rec en)" by (simp add: view_history_def)
    with None assms rec same show ?thesis
      by (auto simp: update_entry_def on_entry_cases run_closure_def Let_def edit_edit intro!: exI [of _ ?en'])
  qed
qed

definition sample_entry :: "unit entry" where
  "sample_entry = Entry \<lparr>eb_id = 7, eb_parent = 1, eb_fields = [(''Title'', Unprotected ''a'')], eb_tags = [],
     eb_times = new_times 0, eb_attachments = [], eb_other = ()\<rparr> (Some [])"

definition sample_db :: "unit db" where
  "sample_db = (new_db 1 0 ())\<lparr>db_entries := [(7, sample_entry)]\<rparr>"

lemma update_entry_atomic_witness:
  "snd (update_entry 4 5 7 ([SetTitle ''b''], Some AuthenticationFailed) sample_db) = sample_db"
proof -
  obtain r db' where run: "update_entry 4 5 7 ([SetTitle ''b''], Some AuthenticationFailed) sample_db = (r, db')" by fastforce
  have "hwf (db_entries sample_db)" "entry_at sample_db 7 = Some sample_entry"
    by (simp_all add: sample_db_def hwf_def)
  from update_entry_atomic [OF this run] run show ?thesis by simp
qed

section \<open>Where the operations differ from their documentation\<close>

text \<open>Moving an entry appends its previous state to the history, whatever the history cap.\<close>

lemma move_entry_appends_history:
  assumes "entry_at db e = Some en" "move_entry now e g db = (Inr x, db')"
  shows "\<exists>en'. entry_at db' e = Some en' \<and> map en_body (view_history en') = en_body en # map en_body (view_history en)"
proof -
  obtain db1 where m: "entry_move_to e g db = (Inr (), db1)"
    "db' = edit_entry e (push_history en) (edit_entry e (map_body (set_location_changed now)) db1)"
    using assms
    by (auto simp: move_entry_def on_entry_cases tracked_move_to_def split: sum.splits prod.splits fault.splits)
  then have "entry_at db1 e = Some (map_body (set_parent g) en)"
    using assms(1) by (auto simp: entry_move_to_def Let_def split: option.splits if_splits)
  with m(2) show ?thesis by (simp add: push_history_def history_add_def view_history_def)
qed

text \<open>A tag with a comma is accepted but is two tags after a save and open.\<close>

lemma comma_tag_splits: "tag_from ''a,b'' = Inr ''a,b'' \<and> reopen_tags [''a,b''] = [''a'', ''b'']"
  by (simp add: tag_from_def reopen_tags_def is_blank_def is_space_def)

text \<open>Tags without commas, none of them blank, come back.\<close>

lemma split_join:
  "ts \<noteq> [] \<Longrightarrow> \<forall>t \<in> set ts. c \<notin> set t \<Longrightarrow> split_on c (join [c] ts) = ts"
proof (induction "[c]" ts rule: join.induct)
  case (2 x)
  have "c \<notin> set x \<Longrightarrow> split_on c x = [x]" by (induction x) auto
  with 2 show ?case by simp
next
  case (3 x y ys)
  have "c \<notin> set x \<Longrightarrow> split_on c (x @ c # rest) = x # split_on c rest" for rest by (induction x) auto
  with 3 show ?case by simp
qed simp

lemma blank_join: "is_blank (join sep (t # ts)) \<Longrightarrow> is_blank t"
  by (cases ts) (simp_all add: is_blank_def)

lemma tags_survive_reopen: "\<forall>t \<in> set ts. CHR '','' \<notin> set t \<and> \<not> is_blank t \<Longrightarrow> reopen_tags ts = ts"
proof (cases ts)
  case (Cons t us)
  assume a: "\<forall>t \<in> set ts. CHR '','' \<notin> set t \<and> \<not> is_blank t"
  then show ?thesis using Cons blank_join [of "'',''" t us] split_join [of ts "CHR '',''"] by (auto simp: reopen_tags_def Let_def)
qed (simp add: reopen_tags_def is_blank_def)

end
