(* ===== verification/AttachmentPool.thy ===== *)
theory AttachmentPool
  imports VaultOps
begin

text \<open>
  Attachments across a save and the next open. An entry refers to a binary by its index in the pool. The writer
  emits the binaries in the order of their indices and the reader numbers them from 0 again, so a reference keeps
  its meaning exactly when the indices in use are contiguous. Opening a vault gives contiguous indices; adding keeps
  them so; removing or replacing an attachment leaves a gap.
\<close>

section \<open>The pool as written\<close>

definition pool_keys :: "'x db \<Rightarrow> nat set" where
  "pool_keys db = fst ` set (db_attachments db)"

lemma pool_keys_iff: "k \<in> pool_keys db \<longleftrightarrow> hget (db_attachments db) k \<noteq> None"
  by (simp add: pool_keys_def dom_map_of_conv_image_fst [symmetric] domIff)

lemma dump_sorted:
  assumes "hwf pool"
  shows "dump_attachments pool = map (\<lambda>k. at_data (the (hget pool k))) (sorted_list_of_set (fst ` set pool))"
proof -
  have "map fst (sort_key fst pool) = sorted_list_of_set (fst ` set pool)"
    by (rule sorted_distinct_set_unique) (use assms in \<open>simp_all add: hwf_def distinct_map inj_on_def\<close>)
  moreover have "dump_attachments pool = map (\<lambda>k. at_data (the (hget pool k))) (map fst (sort_key fst pool))"
    using assms by (auto simp: dump_attachments_def hwf_hget_iff [symmetric])
  ultimately show ?thesis by simp
qed

lemma hget_load: "hget (load_attachments ds) i = (if i < length ds then Some \<lparr>at_entries = [], at_data = ds ! i\<rparr> else None)"
proof -
  let ?m = "load_attachments ds"
  have k: "map fst ?m = [0..<length ds]" by (simp add: load_attachments_def comp_def split_def)
  have nth: "j < length ds \<Longrightarrow> ?m ! j = (j, \<lparr>at_entries = [], at_data = ds ! j\<rparr>)" for j by (simp add: load_attachments_def)
  have len: "length ?m = length ds" by (simp add: load_attachments_def)
  show ?thesis
  proof (cases "i < length ds")
    case True
    then have "(i, \<lparr>at_entries = [], at_data = ds ! i\<rparr>) \<in> set ?m" using nth [OF True] len nth_mem by metis
    then show ?thesis using k True by simp
  next
    case False
    then have "i \<notin> fst ` set ?m" using k by (metis atLeastLessThan_iff set_map set_upt)
    then show ?thesis using False by (simp add: map_of_eq_None_iff)
  qed
qed

text \<open>The state after an open: indices \<open>0..<n\<close>, no back references, and names that resolve.\<close>

definition opened :: "nat \<Rightarrow> 'x db \<Rightarrow> bool" where
  "opened n db \<longleftrightarrow> hwf (db_attachments db) \<and> pool_keys db = {..<n} \<and> hwf (db_entries db)
   \<and> (\<forall>a att. hget (db_attachments db) a = Some att \<longrightarrow> at_entries att = [])
   \<and> (\<forall>e en. entry_at db e = Some en \<longrightarrow> hwf (eb_attachments (en_body en)) \<and> snd ` set (eb_attachments (en_body en)) \<subseteq> {..<n})"

definition ref_at :: "'x db \<Rightarrow> uuid \<Rightarrow> string \<Rightarrow> nat option" where
  "ref_at db e name = Option.bind (entry_at db e) (\<lambda>en. hget (eb_attachments (en_body en)) name)"

definition data_at :: "'x db \<Rightarrow> nat \<Rightarrow> bytes option" where
  "data_at db a = map_option (\<lambda>att. exposed (at_data att)) (hget (db_attachments db) a)"

lemma read_by_ref:
  "entry_at db e \<noteq> None \<Longrightarrow> read_attachment e name db = (case ref_at db e name of
     None \<Rightarrow> Inl (Failed (AttachmentNotFound name))
   | Some a \<Rightarrow> (case data_at db a of None \<Rightarrow> Inl Panic | Some d \<Rightarrow> Inr d))"
  by (auto simp: read_attachment_def ref_at_def data_at_def split: option.split)

lemma entry_at_reopen: "entry_at (reopen db) e =
    map_option (reopen_entry (length (dump_attachments (db_attachments db)))) (entry_at db e)"
  by (simp add: reopen_def Let_def map_of_map)

lemma hwf_filter: "hwf m \<Longrightarrow> hwf (filter P m)"
  by (auto simp: hwf_def distinct_map_filter intro: inj_on_subset)

lemma hget_filter_snd:
  assumes wf: "hwf m"
  shows "hget (filter (\<lambda>(_, a). P a) m) k = (case hget m k of None \<Rightarrow> None | Some a \<Rightarrow> if P a then Some a else None)" (is "?l = ?r")
proof -
  have f: "hwf (filter (\<lambda>(_, a). P a) m)" using wf by (rule hwf_filter)
  show ?thesis
  proof (rule option_ext)
    fix v
    show "?l = Some v \<longleftrightarrow> ?r = Some v"
      unfolding hwf_hget_iff [OF f] by (cases "hget m k") (auto simp: hwf_hget_iff [OF wf, symmetric])
  qed
qed

lemma ref_at_reopen:
  assumes "entry_at db e = Some en" "hwf (eb_attachments (en_body en))"
  shows "ref_at (reopen db) e name = (case ref_at db e name of None \<Rightarrow> None
    | Some a \<Rightarrow> if a < length (dump_attachments (db_attachments db)) then Some a else None)"
  using assms by (simp add: ref_at_def entry_at_reopen reopen_entry_def reopen_body_def hget_filter_snd)

lemma data_at_reopen: "data_at (reopen db) i =
    (if i < length (dump_attachments (db_attachments db)) then Some (exposed (dump_attachments (db_attachments db) ! i)) else None)"
  by (simp add: data_at_def reopen_def Let_def hget_load)

text \<open>What a reference reads after a save and open, when the indices \<open>0..<m\<close> but for \<open>a\<close> are in use.\<close>

lemma gap_keys: "a < m \<Longrightarrow> sorted_list_of_set ({..<m} - {a}) = [0..<a] @ [Suc a..<m]"
  by (rule sorted_distinct_set_unique) (auto simp: sorted_append)

lemma read_after_gap:
  assumes wf: "hwf (db_attachments db)" and keys: "pool_keys db = {..<m} - {a}" "a < m"
    and en: "entry_at db e = Some en" "hwf (eb_attachments (en_body en))" and ref: "ref_at db e name = Some k"
  shows "read_attachment e name (reopen db) =
    (if k < a then Inr (the (data_at db k))
     else if Suc k < m then Inr (the (data_at db (Suc k)))
     else Inl (Failed (AttachmentNotFound name)))"
proof -
  let ?ds = "dump_attachments (db_attachments db)"
  have ds: "?ds = map (\<lambda>k. at_data (the (hget (db_attachments db) k))) ([0..<a] @ [Suc a..<m])"
    using dump_sorted [OF wf] gap_keys [OF keys(2)] keys(1) by (simp add: pool_keys_def)
  then have len: "length ?ds = m - 1" using keys(2) by simp
  have at: "data_at db i = Some (exposed (at_data (the (hget (db_attachments db) i))))" if "i < m" "i \<noteq> a" for i
    using that keys pool_keys_iff [of i db] by (auto simp: data_at_def)
  have "exposed (?ds ! k) = the (data_at db (if k < a then k else Suc k))" if "k < m - 1"
  proof -
    have "([0..<a] @ [Suc a..<m]) ! k = (if k < a then k else Suc k)"
      using that keys(2) by (auto simp: nth_append)
    then have "?ds ! k = at_data (the (hget (db_attachments db) (if k < a then k else Suc k)))"
      unfolding ds using that keys(2) by (subst nth_map) auto
    then show ?thesis using that keys(2) at by simp
  qed
  moreover have "entry_at (reopen db) e \<noteq> None" using en by (simp add: entry_at_reopen)
  ultimately show ?thesis
    using len keys(2) ref_at_reopen [OF en, of name] ref by (auto simp: read_by_ref data_at_reopen)
qed

text \<open>With no gap every attachment survives.\<close>

lemma read_contiguous:
  assumes wf: "hwf (db_attachments db)" and keys: "pool_keys db = {..<n}"
    and en: "entry_at db e = Some en" "hwf (eb_attachments (en_body en))"
    and refs: "snd ` set (eb_attachments (en_body en)) \<subseteq> {..<n}"
  shows "read_attachment e name (reopen db) = read_attachment e name db"
proof -
  let ?ds = "dump_attachments (db_attachments db)"
  have "sorted_list_of_set {..<n} = [0..<n]" by (rule sorted_distinct_set_unique) auto
  then have ds: "?ds = map (\<lambda>k. at_data (the (hget (db_attachments db) k))) [0..<n]"
    using dump_sorted [OF wf] keys by (simp add: pool_keys_def)
  have at: "data_at db i = Some (exposed (?ds ! i))" if "i < n" for i
    using that keys pool_keys_iff [of i db] by (auto simp: data_at_def ds)
  have "i < n" if "ref_at db e name = Some i" for i
    using that en refs by (force simp: ref_at_def dest: map_of_SomeD)
  moreover have "entry_at (reopen db) e \<noteq> None" using en by (simp add: entry_at_reopen)
  ultimately show ?thesis
    using en at ref_at_reopen [OF en, of name] by (auto simp: read_by_ref data_at_reopen ds split: option.split)
qed

section \<open>What the operations do to the pool\<close>

lemma release_last:
  assumes "hget (db_attachments db) a = Some att" "at_entries att = [] \<or> at_entries att = [(e, None)]"
  shows "release_attachment e a db = db\<lparr>db_attachments := hdel a (hput a (att\<lparr>at_entries := []\<rparr>) (db_attachments db))\<rparr>"
  using assms by (auto simp: release_attachment_def attachment_remove_def Let_def)

lemma hdel_hput [simp]: "hdel a (hput a v m) = hdel a m"
  by (induction m) auto

lemma keys_hput: "fst ` set (hput k v m) = insert k (fst ` set m)"
  by (induction m) auto

lemma keys_hdel: "fst ` set (hdel k m) = fst ` set m - {k}"
  by (auto simp: AList.delete_eq)

lemma next_free_run:
  "{i..<n} \<subseteq> fst ` set pool \<Longrightarrow> i \<le> n \<Longrightarrow> n \<notin> fst ` set pool \<Longrightarrow> next_free_from pool i = n"
proof (induction "n - i" arbitrary: i)
  case 0
  then show ?case by (simp add: next_free_from.simps [of pool i])
next
  case (Suc d)
  then have "i < n" "d = n - Suc i" by simp_all
  moreover from Suc.prems(1) have "{Suc i..<n} \<subseteq> fst ` set pool" by force
  ultimately have "next_free_from pool (Suc i) = n" using Suc.hyps(1) [of "Suc i"] Suc.prems(3) by simp
  moreover have "i \<in> fst ` set pool" using Suc.prems(1) \<open>i < n\<close> by (simp add: subset_iff)
  ultimately show ?case by (simp add: next_free_from.simps [of pool i])
qed

lemma next_free_contiguous: "fst ` set pool = {..<n} \<Longrightarrow> next_free pool = n"
  unfolding next_free_def by (rule next_free_run) auto

lemma ref_at_edit: "ref_at (edit_entry e (map_body f) db) e' n' =
    (if e' = e then Option.bind (entry_at db e) (\<lambda>en. hget (eb_attachments (f (en_body en))) n') else ref_at db e' n')"
  by (cases "entry_at db e") (auto simp: ref_at_def)

lemma ref_at_pool [simp]: "ref_at (db\<lparr>db_attachments := p\<rparr>) e n = ref_at db e n"
  by (simp add: ref_at_def)

lemma touch_attachments [simp]: "eb_attachments (touch now b) = eb_attachments b"
  by (simp add: set_last_modification_def)

lemma ref_at_touch [simp]: "ref_at (edit_entry e (map_body (touch now)) db) e' n' = ref_at db e' n'"
  by (auto simp: ref_at_edit) (simp add: ref_at_def)

lemma openedD:
  assumes "opened n db"
  shows "hwf (db_attachments db)" "pool_keys db = {..<n}" "hget (db_attachments db) a = Some att \<Longrightarrow> at_entries att = []"
    "entry_at db e = Some en \<Longrightarrow> hwf (eb_attachments (en_body en))"
    "ref_at db e name = Some k \<Longrightarrow> k < n"
proof -
  note op = assms [unfolded opened_def]
  show "hwf (db_attachments db)" "pool_keys db = {..<n}" using op by blast+
  show "hget (db_attachments db) a = Some att \<Longrightarrow> at_entries att = []" using op by blast
  show "entry_at db e = Some en \<Longrightarrow> hwf (eb_attachments (en_body en))" using op by blast
  assume "ref_at db e name = Some k"
  then obtain en where "entry_at db e = Some en" "hget (eb_attachments (en_body en)) name = Some k"
    by (cases "entry_at db e") (auto simp: ref_at_def)
  then have "entry_at db e = Some en" "k \<in> snd ` set (eb_attachments (en_body en))" by (auto dest!: map_of_SomeD intro: rev_image_eqI)
  with op show "k < n" by blast
qed

text \<open>An open makes such a state of any database.\<close>

lemma reopen_opened:
  assumes "hwf (db_entries db)" "\<And>e en. entry_at db e = Some en \<Longrightarrow> hwf (eb_attachments (en_body en))"
  shows "opened (length (dump_attachments (db_attachments db))) (reopen db)"
proof -
  let ?ds = "dump_attachments (db_attachments db)"
  have k: "map fst (load_attachments ?ds) = [0..<length ?ds]" by (simp add: load_attachments_def comp_def split_def)
  then have "fst ` set (load_attachments ?ds) = {..<length ?ds}" by (metis atLeast_upt set_map)
  moreover have "hwf (load_attachments ?ds)" using k by (simp add: hwf_def)
  moreover have "hwf (db_entries (reopen db))" using assms(1) by (simp add: reopen_def Let_def hwf_def comp_def split_def)
  moreover have "hwf (eb_attachments (en_body en)) \<and> snd ` set (eb_attachments (en_body en)) \<subseteq> {..<length ?ds}"
    if en: "entry_at (reopen db) e = Some en" for e en
  proof -
    from en obtain en0 where "entry_at db e = Some en0" "en = reopen_entry (length ?ds) en0" by (auto simp: entry_at_reopen)
    with assms(2) show ?thesis by (auto simp: reopen_entry_def reopen_body_def intro: hwf_filter)
  qed
  moreover have "db_attachments (reopen db) = load_attachments ?ds" by (simp add: reopen_def Let_def)
  ultimately show ?thesis by (auto simp: opened_def pool_keys_def hget_load split: if_splits)
qed

text \<open>A removal by name, and an addition, from such a state.\<close>

lemma removed:
  assumes op: "opened n db" and run: "remove_attachment now e name db = (Inr x, db')" and a: "ref_at db e name = Some a"
  shows "db_attachments db' = hdel a (db_attachments db)"
    "ref_at db' e' name' = (if (e', name') = (e, name) then None else ref_at db e' name')"
    "entry_at db e' = Some en' \<Longrightarrow> \<exists>en''. entry_at db' e' = Some en'' \<and> hwf (eb_attachments (en_body en''))"
proof -
  from a obtain en where en: "entry_at db e = Some en" "hget (eb_attachments (en_body en)) name = Some a"
    by (auto simp: ref_at_def bind_eq_Some_conv)
  let ?db1 = "edit_entry e (map_body (\<lambda>b. b\<lparr>eb_attachments := hdel name (eb_attachments b)\<rparr>)) db"
  from openedD(2,5) [OF op] a pool_keys_iff [of a db] obtain att where att: "hget (db_attachments db) a = Some att" by blast
  have "release_attachment e a ?db1 = ?db1\<lparr>db_attachments := hdel a (db_attachments db)\<rparr>"
    using release_last [of ?db1 a att e] att openedD(3) [OF op att] by simp
  with run en have db': "db' = edit_entry e (map_body (touch now)) (?db1\<lparr>db_attachments := hdel a (db_attachments db)\<rparr>)"
    by (auto simp: remove_attachment_def on_entry_cases remove_attachment_by_name_def)
  show "db_attachments db' = hdel a (db_attachments db)" by (simp add: db')
  show "ref_at db' e' name' = (if (e', name') = (e, name) then None else ref_at db e' name')"
    using en by (simp add: db' ref_at_edit) (simp add: ref_at_def)
  show "entry_at db e' = Some en' \<Longrightarrow> \<exists>en''. entry_at db' e' = Some en'' \<and> hwf (eb_attachments (en_body en''))"
    using openedD(4) [OF op] by (auto simp: db' edit_entry_def)
qed

definition put_name :: "string \<Rightarrow> nat \<Rightarrow> 'x body \<Rightarrow> 'x body" where
  "put_name name n b = b\<lparr>eb_attachments := hput name n (eb_attachments b)\<rparr>"

lemma add_result:
  assumes op: "opened n db" and run: "add_attachment now e name d db = (Inr x, db')" and en: "entry_at db e = Some en"
  defines "p \<equiv> hput n \<lparr>at_entries = [(e, None)], at_data = Unprotected d\<rparr> (db_attachments db)"
  shows "db' = edit_entry e (map_body (touch now)) (case ref_at db e name of
      None \<Rightarrow> edit_entry e (map_body (put_name name n)) (db\<lparr>db_attachments := p\<rparr>)
    | Some a \<Rightarrow> (edit_entry e (map_body (drop_names a)) (edit_entry e (map_body (put_name name n)) (db\<lparr>db_attachments := p\<rparr>)))
        \<lparr>db_attachments := hdel a p\<rparr>)"
proof -
  let ?db2 = "edit_entry e (map_body (put_name name n)) (db\<lparr>db_attachments := p\<rparr>)"
  have free: "next_free (db_attachments db) = n"
    by (rule next_free_contiguous) (use openedD(2) [OF op] in \<open>simp add: pool_keys_def\<close>)
  have old: "hget (eb_attachments (en_body en)) name = ref_at db e name" using en by (simp add: ref_at_def)
  have "remove_attachment_by_id e a ?db2 = edit_entry e (map_body (drop_names a)) ?db2\<lparr>db_attachments := hdel a p\<rparr>"
    if a: "ref_at db e name = Some a" for a
  proof -
    from openedD(5) [OF op a] have "a < n" .
    with openedD(2) [OF op] pool_keys_iff [of a db] obtain att where att: "hget (db_attachments db) a = Some att" by auto
    with \<open>a < n\<close> have "hget (db_attachments (edit_entry e (map_body (drop_names a)) ?db2)) a = Some att" by (simp add: p_def)
    from release_last [OF this] openedD(3) [OF op att] show ?thesis by (simp add: remove_attachment_by_id_def)
  qed
  with run en show ?thesis
    by (cases "ref_at db e name") (auto simp: add_attachment_def on_entry_cases entry_add_attachment_def free old Let_def
      p_def put_name_def [abs_def] split: if_splits)
qed

lemma added:
  assumes op: "opened n db" and run: "add_attachment now e name d db = (Inr x, db')"
  shows "db_attachments db' = (let p = hput n \<lparr>at_entries = [(e, None)], at_data = Unprotected d\<rparr> (db_attachments db)
      in case ref_at db e name of None \<Rightarrow> p | Some a \<Rightarrow> hdel a p)"
    "ref_at db' e name = Some n"
    "e' \<noteq> e \<or> ref_at db e name = None \<and> name' \<noteq> name \<Longrightarrow> ref_at db' e' name' = ref_at db e' name'"
    "entry_at db e' = Some en' \<Longrightarrow> \<exists>en''. entry_at db' e' = Some en'' \<and> hwf (eb_attachments (en_body en''))"
    "entry_at db e \<noteq> None"
proof -
  from run show e: "entry_at db e \<noteq> None" by (auto simp: add_attachment_def on_entry_cases split: if_splits option.splits)
  then obtain en where en: "entry_at db e = Some en" by blast
  note db' = add_result [OF op run en]
  show "db_attachments db' = (let p = hput n \<lparr>at_entries = [(e, None)], at_data = Unprotected d\<rparr> (db_attachments db)
      in case ref_at db e name of None \<Rightarrow> p | Some a \<Rightarrow> hdel a p)"
    by (simp add: db' split: option.split)
  have wf: "hwf (eb_attachments (en_body en))" by (rule openedD(4) [OF op en])
  then show "ref_at db' e name = Some n"
    using openedD(5) [OF op] en by (cases "ref_at db e name") (auto simp: db' ref_at_edit drop_names_def put_name_def hget_filter_snd)
  show "e' \<noteq> e \<or> ref_at db e name = None \<and> name' \<noteq> name \<Longrightarrow> ref_at db' e' name' = ref_at db e' name'"
    using en by (cases "ref_at db e name") (auto simp: db' ref_at_edit put_name_def, auto simp: ref_at_def)
  show "entry_at db e' = Some en' \<Longrightarrow> \<exists>en''. entry_at db' e' = Some en'' \<and> hwf (eb_attachments (en_body en''))"
    using openedD(4) [OF op, of e'] by (cases "ref_at db e name") (auto simp: db' drop_names_def put_name_def intro!: hwf_filter hwf_hput)
qed

section \<open>Properties\<close>


text \<open>Removing an attachment leaves a gap in the indices of the pool, and the next save and open close it: every
  reference above the removed index then reads the next binary - another attachment's data - and the reference to the
  last binary is dropped, although all of them read correctly before the save.\<close>

theorem remove_attachment_shifts_others:
  assumes op: "opened n db" and run: "remove_attachment now e name db = (Inr x, db')" and a: "ref_at db e name = Some a"
    and k: "ref_at db e' name' = Some k" "k \<noteq> a"
  shows "read_attachment e' name' db' = Inr (the (data_at db k))
    \<and> read_attachment e' name' (reopen db') = (if k < a then Inr (the (data_at db k))
        else if Suc k < n then Inr (the (data_at db (Suc k))) else Inl (Failed (AttachmentNotFound name')))"
proof -
  note rem = removed [OF op run a]
  have keys: "pool_keys db' = {..<n} - {a}" using openedD(2) [OF op] by (simp add: pool_keys_def rem(1) keys_hdel)
  have wf: "hwf (db_attachments db')" using openedD(1) [OF op] by (simp add: rem(1))
  from k obtain en' where "entry_at db e' = Some en'" by (cases "entry_at db e'") (auto simp: ref_at_def)
  from rem(3) [OF this] obtain en'' where en'': "entry_at db' e' = Some en''" "hwf (eb_attachments (en_body en''))" by blast
  have ref: "ref_at db' e' name' = Some k" using rem(2) k a by auto
  have same: "data_at db' i = data_at db i" if "i \<noteq> a" for i using that by (simp add: data_at_def rem(1))
  from pool_keys_iff [of k db] openedD(2,5) [OF op] k have "data_at db k \<noteq> None" by (auto simp: data_at_def)
  with ref same [OF k(2)] en'' have "read_attachment e' name' db' = Inr (the (data_at db k))" by (auto simp: read_by_ref)
  moreover note read_after_gap [OF wf keys openedD(5) [OF op a] en'' ref]
  ultimately show ?thesis using k(2) by (auto simp: same)
qed

text \<open>Replacing an attachment loses it. After adding under a name that exists the new data reads correctly, but the
  index of the replaced binary is a gap: after the next save and open the name is gone, and the attachments of other
  entries above the gap read the next binary - the last of them the data just added.\<close>

theorem replaced_attachment_lost:
  assumes op: "opened n db" and run: "add_attachment now e name d db = (Inr x, db')" and a: "ref_at db e name = Some a"
  shows "read_attachment e name db' = Inr d \<and> read_attachment e name (reopen db') = Inl (Failed (AttachmentNotFound name))
    \<and> (\<forall>e' name' k. e' \<noteq> e \<longrightarrow> ref_at db e' name' = Some k \<longrightarrow> read_attachment e' name' (reopen db') =
        (if k < a then Inr (the (data_at db k)) else if Suc k < n then Inr (the (data_at db (Suc k))) else Inr d))"
proof -
  note add = added [OF op run]
  have p: "db_attachments db' = hdel a (hput n \<lparr>at_entries = [(e, None)], at_data = Unprotected d\<rparr> (db_attachments db))"
    using add(1) a by simp
  have an: "a < n" by (rule openedD(5) [OF op a])
  then have keys: "pool_keys db' = {..<Suc n} - {a}" "a < Suc n"
    using openedD(2) [OF op] by (auto simp: pool_keys_def p keys_hdel keys_hput)
  have wf: "hwf (db_attachments db')" using openedD(1) [OF op] by (simp add: p)
  have new: "data_at db' n = Some d" "\<And>i. i < n \<Longrightarrow> i \<noteq> a \<Longrightarrow> data_at db' i = data_at db i" using an by (simp_all add: data_at_def p)
  obtain en where "entry_at db e = Some en" using add(5) by blast
  from add(4) [OF this] obtain en1 where en1: "entry_at db' e = Some en1" "hwf (eb_attachments (en_body en1))" by (elim exE conjE)
  from read_after_gap [OF wf keys en1 add(2)] an have "read_attachment e name (reopen db') = Inl (Failed (AttachmentNotFound name))" by simp
  moreover have "read_attachment e name db' = Inr d" using en1 add(2) new by (simp add: read_by_ref)
  moreover have "read_attachment e' name' (reopen db') =
      (if k < a then Inr (the (data_at db k)) else if Suc k < n then Inr (the (data_at db (Suc k))) else Inr d)"
    if e': "e' \<noteq> e" and k: "ref_at db e' name' = Some k" for e' name' k
  proof -
    from k obtain en' where "entry_at db e' = Some en'" by (cases "entry_at db e'") (auto simp: ref_at_def)
    from add(4) [OF this] obtain en2 where en2: "entry_at db' e' = Some en2" "hwf (eb_attachments (en_body en2))" by (elim exE conjE)
    have "ref_at db' e' name' = Some k" using add(3) [of e' name'] e' k by simp
    note gap = read_after_gap [OF wf keys en2 this]
    from openedD(5) [OF op k] consider "Suc k < n" | "Suc k = n" by linarith
    then show ?thesis using gap an new by cases auto
  qed
  ultimately show ?thesis by blast
qed

section \<open>Concrete vaults\<close>

definition two_files :: "unit db" where
  "two_files = (new_db 1 0 ())\<lparr>
     db_entries := [(7, Entry \<lparr>eb_id = 7, eb_parent = 1, eb_fields = [], eb_tags = [], eb_times = new_times 0,
         eb_attachments = [(''a'', 0)], eb_other = ()\<rparr> None),
       (8, Entry \<lparr>eb_id = 8, eb_parent = 1, eb_fields = [], eb_tags = [], eb_times = new_times 0,
         eb_attachments = [(''b'', 1)], eb_other = ()\<rparr> None)],
     db_attachments := [(0, \<lparr>at_entries = [], at_data = Unprotected [10]\<rparr>), (1, \<lparr>at_entries = [], at_data = Unprotected [11]\<rparr>)]\<rparr>"

lemma two_files_opened: "opened 2 two_files"
  by (auto simp: opened_def two_files_def hwf_def pool_keys_def new_db_def split: if_splits)

lemma two_files_refs: "ref_at two_files 7 ''a'' = Some 0" "ref_at two_files 8 ''b'' = Some 1" "ref_at two_files 7 ''c'' = None"
  "entry_at two_files 7 \<noteq> None" "db_meta two_files = db_meta (new_db 1 0 ())"
  by (simp_all add: two_files_def ref_at_def)

lemma two_files_run: "\<exists>db'. add_attachment 3 7 name [5] two_files = (Inr (), db')" "\<exists>db'. remove_attachment 3 7 ''a'' two_files = (Inr (), db')"
  by (auto simp: add_attachment_def remove_attachment_def on_entry_cases two_files_def read_max_attachment_bytes_def new_db_def
      default_max_attachment_bytes_def)


lemma remove_attachment_shifts_others_witness:
  "\<exists>db'. remove_attachment 3 7 ''a'' two_files = (Inr (), db') \<and> read_attachment 8 ''b'' db' = Inr [11]
     \<and> read_attachment 8 ''b'' (reopen db') = Inl (Failed (AttachmentNotFound ''b''))"
proof -
  obtain db' where run: "remove_attachment 3 7 ''a'' two_files = (Inr (), db')" using two_files_run(2) by blast
  have "data_at two_files 1 = Some [11]" by (simp add: data_at_def two_files_def)
  with remove_attachment_shifts_others [OF two_files_opened run two_files_refs(1,2)] run show ?thesis by simp
qed

lemma replaced_attachment_lost_witness:
  "\<exists>db'. add_attachment 3 7 ''a'' [5] two_files = (Inr (), db') \<and> read_attachment 7 ''a'' db' = Inr [5]
     \<and> read_attachment 7 ''a'' (reopen db') = Inl (Failed (AttachmentNotFound ''a'')) \<and> read_attachment 8 ''b'' (reopen db') = Inr [5]"
proof -
  obtain db' where run: "add_attachment 3 7 ''a'' [5] two_files = (Inr (), db')" using two_files_run(1) by blast
  from replaced_attachment_lost [OF two_files_opened run two_files_refs(1)] two_files_refs(2) run show ?thesis by auto
qed

end
