(* ===== verification/MergeAdapter.thy ===== *)
theory MergeAdapter
  imports AttachmentPool SyncMachine "HOL-Library.List_Lexorder" "HOL-Library.Char_ord"
begin

text \<open>
  The merge adapter of the sync crate (\<open>falach-sync/src/merge/mod.rs\<close>): it folds the remote database into the
  local one with the KDBX library's own merge and then repairs what that loses - versions that are neither the
  current value nor in the history, and the attachments of entries that came from the other side. The library's
  merge is a parameter: what is proved here holds for every merge. The clock is a function of the entry it is read
  for; each entry is repaired at most once.
\<close>

section \<open>Live entries\<close>

text \<open>\<open>None\<close> when the recursion into the groups does not return or meets a missing group or entry.\<close>

definition collect_live_entries :: "'x db \<Rightarrow> 'x entry list option" where
  "collect_live_entries db = Option.bind (subtree db (db_root db)) (\<lambda>gs. map_option concat
     (option_all (\<lambda>g. Option.bind (group_at db g) (\<lambda>gr. option_all (entry_at db) (gr_entries gr))) gs))"

abbreviation uuid_of :: "'x entry \<Rightarrow> uuid" where
  "uuid_of e \<equiv> eb_id (en_body e)"

abbreviation modified_at :: "'x entry \<Rightarrow> time option" where
  "modified_at e \<equiv> tm_last_modification (eb_times (en_body e))"

definition entry_times :: "'x db \<Rightarrow> (uuid, time option) hmap option" where
  "entry_times db = map_option (\<lambda>es. fold (\<lambda>e. hput (uuid_of e) (modified_at e)) es []) (collect_live_entries db)"

definition delta_between :: "(uuid, time option) hmap \<Rightarrow> (uuid, time option) hmap \<Rightarrow> entry_delta" where
  "delta_between before after =
     \<lparr>ed_added = filter (\<lambda>u. hget before u = None) (sort (hkeys after)),
      ed_removed = filter (\<lambda>u. hget after u = None) (sort (hkeys before)),
      ed_modified = filter (\<lambda>u. hget before u \<noteq> None \<and> hget before u \<noteq> hget after u) (sort (hkeys after))\<rparr>"

definition delta_is_empty :: "entry_delta \<Rightarrow> bool" where
  "delta_is_empty d \<longleftrightarrow> ed_added d = [] \<and> ed_removed d = [] \<and> ed_modified d = []"

section \<open>Lost versions\<close>

text \<open>Equality of entries: the maps without their order.\<close>

definition body_eq :: "'x body \<Rightarrow> 'x body \<Rightarrow> bool" where
  "body_eq a b \<longleftrightarrow> eb_id a = eb_id b \<and> eb_parent a = eb_parent b \<and> hmap_eq (eb_fields a) (eb_fields b) \<and> eb_tags a = eb_tags b
     \<and> eb_times a = eb_times b \<and> hmap_eq (eb_attachments a) (eb_attachments b) \<and> eb_other a = eb_other b"

definition content_only :: "'x entry \<Rightarrow> 'x entry" where
  "content_only e = Entry ((en_body e)\<lparr>eb_times := no_times\<rparr>) None"

definition content_diverged :: "'x entry \<Rightarrow> 'x entry \<Rightarrow> bool" where
  "content_diverged a b \<longleftrightarrow> \<not> body_eq (en_body (content_only a)) (en_body (content_only b))"

definition history_has_version :: "'x entry \<Rightarrow> 'x entry \<Rightarrow> bool" where
  "history_has_version e cand = (case en_history e of None \<Rightarrow> False | Some h \<Rightarrow>
     list_ex (\<lambda>past. modified_at past = modified_at cand \<and> body_eq (en_body (content_only past)) (en_body (content_only cand))) h)"

definition backfill_one :: "'x entry \<Rightarrow> 'x db \<Rightarrow> 'x db" where
  "backfill_one pre db = (case entry_at db (uuid_of pre) of
     None \<Rightarrow> db
   | Some merged \<Rightarrow> if content_diverged merged pre \<and> \<not> history_has_version merged pre
       then edit_entry (uuid_of pre) (push_history pre) db else db)"

definition backfill_lost_versions :: "'x entry list \<Rightarrow> 'x db \<Rightarrow> 'x db" where
  "backfill_lost_versions pres db = fold backfill_one pres db"

section \<open>Attachments of merged entries\<close>

definition bump :: "time \<Rightarrow> 'x body \<Rightarrow> 'x body" where
  "bump now b = touch (case tm_last_modification (eb_times b) of
     None \<Rightarrow> now | Some lm \<Rightarrow> if lm + 1 > now then lm + 1 else now) b"

text \<open>Names and data; \<open>None\<close> where a reference does not resolve, which panics.\<close>

definition attachments_named :: "'x db \<Rightarrow> 'x entry \<Rightarrow> (string \<times> bytes secret_value) list option" where
  "attachments_named db e = option_all (\<lambda>(n, a). map_option (\<lambda>att. (n, at_data att)) (hget (db_attachments db) a))
     (eb_attachments (en_body e))"

definition add_named :: "uuid \<Rightarrow> (string \<times> bytes secret_value) list \<Rightarrow> 'x db \<Rightarrow> 'x db" where
  "add_named e atts db = fold (\<lambda>(n, d). entry_add_attachment e n d) atts db"

fun afor :: "('a \<Rightarrow> ('s, 'e, unit) act) \<Rightarrow> 'a list \<Rightarrow> ('s, 'e, unit) act" where
  "afor f [] = areturn ()"
| "afor f (x # xs) = abind (f x) (\<lambda>_. afor f xs)"

definition repair_entry :: "(uuid \<Rightarrow> time) \<Rightarrow> 'x db \<Rightarrow> uuid list \<Rightarrow> 'x entry \<Rightarrow> ('x db, string fault, unit) act" where
  "repair_entry clock remote known pre db =
     (if uuid_of pre \<in> set known then (Inr (), db)
      else case entry_at remote (uuid_of pre) of
        None \<Rightarrow> (Inr (), db)
      | Some remote_ref \<Rightarrow> (case attachments_named remote remote_ref of
          None \<Rightarrow> (Inl Panic, db)
        | Some atts \<Rightarrow>
            if atts = [] \<or> entry_at db (uuid_of pre) = None then (Inr (), db)
            else (Inr (), edit_entry (uuid_of pre) (map_body (bump (clock (uuid_of pre)))) (add_named (uuid_of pre) atts db))))"

definition repair_added_entry_attachments ::
  "(uuid \<Rightarrow> time) \<Rightarrow> 'x db \<Rightarrow> 'x entry list \<Rightarrow> 'x entry list \<Rightarrow> ('x db, string fault, unit) act" where
  "repair_added_entry_attachments clock remote local_pre remote_pre =
     afor (repair_entry clock remote (map uuid_of local_pre)) remote_pre"

text \<open>\<open>Option<NaiveDateTime>\<close>: no time is before every time.\<close>

definition time_le :: "time option \<Rightarrow> time option \<Rightarrow> bool" where
  "time_le a b = (case a of None \<Rightarrow> True | Some x \<Rightarrow> (case b of None \<Rightarrow> False | Some y \<Rightarrow> x \<le> y))"

definition exposed_all :: "(string \<times> bytes secret_value) list \<Rightarrow> (string, bytes) hmap" where
  "exposed_all atts = map (\<lambda>(n, d). (n, exposed d)) atts"

definition propagate_entry ::
  "(uuid \<Rightarrow> time) \<Rightarrow> 'x db \<Rightarrow> (uuid, time option) hmap \<Rightarrow> 'x entry \<Rightarrow> ('x db, string fault, unit) act" where
  "propagate_entry clock remote local_lm pre db = (case hget local_lm (uuid_of pre) of
     None \<Rightarrow> (Inr (), db)
   | Some lm \<Rightarrow>
      if time_le (modified_at pre) lm then (Inr (), db)
      else (case (entry_at remote (uuid_of pre), entry_at db (uuid_of pre)) of
        (Some remote_ref, Some merged_ref) \<Rightarrow>
          (case (attachments_named remote remote_ref, attachments_named db merged_ref) of
            (Some desired, Some current) \<Rightarrow>
              if hmap_eq (exposed_all desired) (exposed_all current) then (Inr (), db)
              else let gone = sort (filter (\<lambda>n. n \<notin> fst ` set desired) (map fst current))
                in (Inr (), edit_entry (uuid_of pre) (map_body (bump (clock (uuid_of pre))))
                     (add_named (uuid_of pre) desired (fold (remove_attachment_by_name (uuid_of pre)) gone db)))
          | _ \<Rightarrow> (Inl Panic, db))
      | _ \<Rightarrow> (Inr (), db)))"

definition propagate_both_side_attachments ::
  "(uuid \<Rightarrow> time) \<Rightarrow> 'x db \<Rightarrow> 'x entry list \<Rightarrow> 'x entry list \<Rightarrow> ('x db, string fault, unit) act" where
  "propagate_both_side_attachments clock remote local_pre remote_pre =
     afor (propagate_entry clock remote (fold (\<lambda>e. hput (uuid_of e) (modified_at e)) local_pre [])) remote_pre"

section \<open>The adapter\<close>

text \<open>The library's merge of \<open>remote\<close> into the local database; the error is its message.\<close>

type_synonym 'x merge_fn = "'x db \<Rightarrow> ('x db, string fault, unit) act"

definition reconcile ::
  "'x merge_fn \<Rightarrow> (uuid \<Rightarrow> time) \<Rightarrow> 'x db \<Rightarrow> 'x db \<Rightarrow> ((string fault + entry_delta) \<times> 'x db) option" where
  "reconcile merge clock remote local =
     Option.bind (entry_times local) (\<lambda>before.
     Option.bind (collect_live_entries local) (\<lambda>local_pre.
     Option.bind (collect_live_entries remote) (\<lambda>remote_pre.
       case merge remote local of
         (Inl e, db1) \<Rightarrow> Some (Inl e, db1)
       | (Inr _, db1) \<Rightarrow>
          (case abind (aupdate (backfill_lost_versions local_pre)) (\<lambda>_.
             abind (aupdate (backfill_lost_versions remote_pre)) (\<lambda>_.
             abind (repair_added_entry_attachments clock remote local_pre remote_pre) (\<lambda>_.
             propagate_both_side_attachments clock remote local_pre remote_pre))) db1 of
             (Inl e, db2) \<Rightarrow> Some (Inl e, db2)
           | (Inr _, db2) \<Rightarrow> map_option (\<lambda>after. (Inr (delta_between before after), db2)) (entry_times db2)))))"

section \<open>Versions\<close>

text \<open>Two bodies of the same content, whatever their times and attachments.\<close>

definition bare :: "'x body \<Rightarrow> 'x body" where
  "bare b = b\<lparr>eb_times := no_times, eb_attachments := []\<rparr>"

definition alike :: "'x body \<Rightarrow> 'x body \<Rightarrow> bool" where
  "alike a b \<longleftrightarrow> body_eq (bare a) (bare b)"

definition versions :: "'x entry \<Rightarrow> 'x body list" where
  "versions e = en_body e # map en_body (view_history e)"

definition holds_version :: "'x entry \<Rightarrow> 'x db \<Rightarrow> bool" where
  "holds_version pre db \<longleftrightarrow> (\<forall>en. entry_at db (uuid_of pre) = Some en \<longrightarrow> list_ex (\<lambda>v. alike v (en_body pre)) (versions en))"

text \<open>The repairs keep every version of every entry, up to times and attachments.\<close>

definition bares :: "'x db \<Rightarrow> uuid \<Rightarrow> 'x body list option" where
  "bares db e = map_option (\<lambda>en. map bare (versions en)) (entry_at db e)"

lemma alike_refl [simp]: "alike b b"
  by (simp add: alike_def body_eq_def hmap_eq_iff)

lemma alike_bare: "alike a b \<longleftrightarrow> body_eq (bare a) (bare b)"
  by (simp add: alike_def)

lemma holds_by_bares: "holds_version pre db \<longleftrightarrow> (\<forall>bs. bares db (uuid_of pre) = Some bs \<longrightarrow> list_ex (\<lambda>v. body_eq v (bare (en_body pre))) bs)"
  by (auto simp: holds_version_def bares_def alike_def list_ex_iff)

lemma holds_same: "bares db' = bares db \<Longrightarrow> holds_version pre db' = holds_version pre db"
  by (simp add: holds_by_bares)

lemma bares_edit:
  assumes "\<And>en. map bare (versions (f en)) = map bare (versions en)"
  shows "bares (edit_entry e f db) = bares db"
  using assms by (auto simp: bares_def fun_eq_iff option.map_comp comp_def)

lemma bares_body:
  assumes "\<And>b. bare (f b) = bare b"
  shows "bares (edit_entry e (map_body f) db) = bares db"
  by (rule bares_edit) (simp add: versions_def view_history_def assms)

lemma bares_pool [simp]: "bares (db\<lparr>db_attachments := p\<rparr>) = bares db"
  by (simp add: bares_def fun_eq_iff)

lemma versions_edit_version: "map bare (versions (edit_version i (drop_names a) en)) = map bare (versions en)"
proof -
  have b: "bare (drop_names a b) = bare b" for b :: "'a body" by (simp add: bare_def drop_names_def)
  have "map (\<lambda>x. bare (en_body x)) (h[n := map_body (drop_names a) (h ! n)]) = map (\<lambda>x. bare (en_body x)) h"
    for n and h :: "'a entry list"
    by (cases "n < length h") (auto intro!: nth_equalityI simp: nth_list_update b)
  with b show ?thesis by (auto simp: versions_def view_history_def edit_version_def comp_def split: option.split)
qed

lemma bares_remove: "bares (attachment_remove a db) = bares db"
proof -
  have "bares (fold (\<lambda>(e, i). edit_entry e (edit_version i (drop_names a))) xs d) = bares d" for xs and d :: "'a db"
    by (induction xs arbitrary: d) (auto simp: bares_edit [OF versions_edit_version])
  then show ?thesis by (auto simp: attachment_remove_def Let_def split: option.split)
qed

lemma bares_release: "bares (release_attachment e a db) = bares db"
  by (auto simp: release_attachment_def Let_def bares_remove split: option.split)

lemma bare_attachments: "bare (b\<lparr>eb_attachments := x\<rparr>) = bare b" "bare (drop_names a b) = bare b" "bare (touch t b) = bare b" "bare (bump t b) = bare b"
  by (simp_all add: bare_def drop_names_def set_last_modification_def bump_def)

lemma bares_attach: "bares (entry_add_attachment e n d db) = bares db" "bares (remove_attachment_by_name e n db) = bares db"
  by (auto simp: entry_add_attachment_def remove_attachment_by_id_def remove_attachment_by_name_def Let_def bares_release
      bares_body bare_attachments split: option.split)

lemma bares_add_named: "bares (add_named e atts db) = bares db"
  unfolding add_named_def by (induction atts arbitrary: db) (auto simp: bares_attach)

lemma bares_drop_named: "bares (fold (remove_attachment_by_name e) ns db) = bares db"
  by (induction ns arbitrary: db) (auto simp: bares_attach)

lemma bares_afor:
  assumes "\<And>x db r db'. f x db = (r, db') \<Longrightarrow> bares db' = bares db"
  shows "afor f xs db = (r, db') \<Longrightarrow> bares db' = bares db"
  by (induction xs arbitrary: db) (auto simp: abind_def split: prod.splits sum.splits dest!: assms)

lemma bares_repair: "repair_added_entry_attachments clock remote ls rs db = (r, db') \<Longrightarrow> bares db' = bares db"
  unfolding repair_added_entry_attachments_def
  by (erule bares_afor [rotated])
    (auto simp: repair_entry_def bares_body bare_attachments bares_add_named split: if_splits option.splits)

lemma bares_propagate: "propagate_both_side_attachments clock remote ls rs db = (r, db') \<Longrightarrow> bares db' = bares db"
  unfolding propagate_both_side_attachments_def
  by (erule bares_afor [rotated])
    (auto simp: propagate_entry_def bares_body bare_attachments bares_add_named bares_drop_named Let_def
      split: if_splits option.splits)

lemma body_eq_bare: "body_eq (en_body (content_only a)) (en_body (content_only b)) \<Longrightarrow> alike (en_body a) (en_body b)"
  by (auto simp: body_eq_def content_only_def alike_def bare_def hmap_eq_iff)

lemma versions_push: "versions (push_history pre en) = en_body en # en_body pre # map en_body (view_history en)"
  by (simp add: versions_def push_history_def view_history_def history_add_def)

lemma backfill_holds: "holds_version pre (backfill_one pre db)"
proof (cases "entry_at db (uuid_of pre)")
  case None
  then show ?thesis by (simp add: backfill_one_def holds_version_def)
next
  case (Some en)
  consider "content_diverged en pre \<and> \<not> history_has_version en pre" | "\<not> content_diverged en pre" | "history_has_version en pre" by blast
  then show ?thesis
  proof cases
    case 1
    with Some show ?thesis by (simp add: backfill_one_def holds_version_def versions_push)
  next
    case 2
    with Some show ?thesis by (auto simp: backfill_one_def holds_version_def content_diverged_def versions_def dest: body_eq_bare)
  next
    case 3
    with Some show ?thesis
      by (auto simp: backfill_one_def holds_version_def history_has_version_def versions_def view_history_def list_ex_iff
          dest: body_eq_bare split: option.splits)
  qed
qed

lemma backfill_keeps: "holds_version other db \<Longrightarrow> holds_version other (backfill_one pre db)"
proof -
  have "list_ex P (versions en) \<Longrightarrow> list_ex P (versions (push_history pre en))" for P and en :: "'a entry"
    by (auto simp: versions_push list_ex_iff) (auto simp: versions_def)
  then show "holds_version other db \<Longrightarrow> holds_version other (backfill_one pre db)"
    by (auto simp: backfill_one_def holds_version_def split: option.splits)
qed

lemma backfills_keep: "holds_version other db \<Longrightarrow> holds_version other (backfill_lost_versions pres db)"
  unfolding backfill_lost_versions_def by (induction pres arbitrary: db) (auto intro: backfill_keeps)

lemma backfills_hold: "pre \<in> set pres \<Longrightarrow> holds_version pre (backfill_lost_versions pres db)"
proof (induction pres arbitrary: db)
  case (Cons x xs)
  show ?case
  proof (cases "pre = x")
    case True
    with backfills_keep [OF backfill_holds [of x db], of xs] show ?thesis by (simp add: backfill_lost_versions_def)
  next
    case False
    with Cons show ?thesis by (simp add: backfill_lost_versions_def)
  qed
qed simp

lemma reconcile_steps:
  assumes run: "reconcile merge clock remote local = Some (Inr delta, db')"
    and live: "collect_live_entries local = Some local_pre" "collect_live_entries remote = Some remote_pre"
  obtains db1 db2 where "repair_added_entry_attachments clock remote local_pre remote_pre
       (backfill_lost_versions remote_pre (backfill_lost_versions local_pre db1)) = (Inr (), db2)"
    "propagate_both_side_attachments clock remote local_pre remote_pre db2 = (Inr (), db')"
proof -
  obtain before where before: "entry_times local = Some before" using live by (simp add: entry_times_def)
  obtain r1 db1 where m: "merge remote local = (r1, db1)" by fastforce
  let ?db = "backfill_lost_versions remote_pre (backfill_lost_versions local_pre db1)"
  obtain r2 db2 where rep: "repair_added_entry_attachments clock remote local_pre remote_pre ?db = (r2, db2)" by fastforce
  obtain r3 db3 where pro: "propagate_both_side_attachments clock remote local_pre remote_pre db2 = (r3, db3)" by fastforce
  note run' = run [unfolded reconcile_def before live Option.bind.bind_lunit m, simplified]
  from run' have "r1 = Inr ()" by (cases r1) auto
  with run' rep have "r2 = Inr ()" by (cases r2) (auto simp: abind_def)
  with run' \<open>r1 = Inr ()\<close> rep pro have "r3 = Inr ()" "db3 = db'" by (cases r3; auto simp: abind_def)+
  with rep pro \<open>r2 = Inr ()\<close> show ?thesis using that by simp
qed

section \<open>Properties\<close>

text \<open>C4: A merge loses no version. Whatever the library's merge does, every entry that was live on either side before
  the merge and whose UUID is still in the merged database is, up to its times and attachments, the merged current
  value or in the merged entry's history.\<close>

theorem reconcile_loses_nothing:
  assumes "reconcile merge clock remote local = Some (Inr delta, db')"
    and "collect_live_entries local = Some local_pre" "collect_live_entries remote = Some remote_pre"
    and "pre \<in> set local_pre \<union> set remote_pre" "entry_at db' (uuid_of pre) = Some en"
  shows "list_ex (\<lambda>v. alike v (en_body pre)) (en_body en # map en_body (view_history en))"
proof -
  obtain db1 db2 where m: "repair_added_entry_attachments clock remote local_pre remote_pre
       (backfill_lost_versions remote_pre (backfill_lost_versions local_pre db1)) = (Inr (), db2)"
    "propagate_both_side_attachments clock remote local_pre remote_pre db2 = (Inr (), db')"
    using assms(1-3) by (rule reconcile_steps)
  let ?db = "backfill_lost_versions remote_pre (backfill_lost_versions local_pre db1)"
  have "holds_version pre ?db"
    using assms(4) by (auto intro: backfills_keep backfills_hold)
  moreover have "bares db' = bares ?db" using bares_repair [OF m(1)] bares_propagate [OF m(2)] by simp
  ultimately have "holds_version pre db'" using holds_same by blast
  with assms(5) show ?thesis by (simp add: holds_version_def versions_def)
qed

text \<open>The repair of one merged entry with one attachment, on a local vault as it was opened.\<close>

lemma repair_one:
  assumes pool: "pool_keys db = {..<n}" "\<And>k att. hget (db_attachments db) k = Some att \<Longrightarrow> at_entries att = []"
    and en: "entry_at db e = Some en" "eb_attachments (en_body en) = [(name, a)]"
    and remote: "entry_at remote e = Some ren" "eb_attachments (en_body ren) = [(name, a)]" "hget (db_attachments remote) a = Some att"
    and pre: "uuid_of pre = e" "e \<notin> set (map uuid_of local_pre)"
  defines "p \<equiv> hput n \<lparr>at_entries = [(e, None)], at_data = at_data att\<rparr> (db_attachments db)"
  shows "repair_added_entry_attachments clock remote local_pre [pre] db = (Inr (), edit_entry e (map_body (bump (clock e)))
     ((edit_entry e (map_body (drop_names a)) (edit_entry e (map_body (put_name name n)) db))\<lparr>db_attachments := hdel a p\<rparr>))"
proof -
  let ?db2 = "edit_entry e (map_body (put_name name n)) (db\<lparr>db_attachments := p\<rparr>)"
  have free: "next_free (db_attachments db) = n" by (rule next_free_contiguous) (use pool(1) in \<open>simp add: pool_keys_def\<close>)
  have rel: "remove_attachment_by_id e a ?db2 = (edit_entry e (map_body (drop_names a)) ?db2)\<lparr>db_attachments := hdel a p\<rparr>"
  proof (cases "a \<le> n")
    case True
    then obtain att' where att': "hget p a = Some att'" "at_entries att' = [] \<or> at_entries att' = [(e, None)]"
      using pool pool_keys_iff [of a db] by (cases "a = n") (auto simp: p_def)
    then show ?thesis using release_last [of "edit_entry e (map_body (drop_names a)) ?db2" a att' e]
      by (simp add: remove_attachment_by_id_def)
  next
    case False
    then have none: "hget p a = None" using pool(1) pool_keys_iff [of a db] by (auto simp: p_def)
    then have "hdel a p = p" by (force simp: AList.delete_eq map_of_eq_None_iff intro!: filter_True)
    with none show ?thesis by (simp add: remove_attachment_by_id_def release_attachment_def edit_entry_def)
  qed
  have add: "entry_add_attachment e name (at_data att) db =
      (edit_entry e (map_body (drop_names a)) ?db2)\<lparr>db_attachments := hdel a p\<rparr>"
    using rel en by (simp add: entry_add_attachment_def free p_def put_name_def [abs_def] Let_def)
  have "attachments_named remote ren = Some [(name, at_data att)]" using remote by (simp add: attachments_named_def)
  with remote(1) pre en show ?thesis
    by (simp add: repair_added_entry_attachments_def abind_def repair_entry_def add_named_def add) (simp add: edit_entry_def)
qed

text \<open>The repair of an entry that a merge added keeps its attachment only when the index it had in the remote pool
  is above the local pool. When it is the first free local index - the case of a remote vault that has exactly one
  binary more - the attachment is lost. When it is in use locally, the local binary under it is deleted, and every
  other entry that refers to it panics when it is read.\<close>

theorem repair_attachment_cases:
  assumes pool: "pool_keys db = {..<n}" "\<And>k att. hget (db_attachments db) k = Some att \<Longrightarrow> at_entries att = []"
    and en: "entry_at db e = Some en" "eb_attachments (en_body en) = [(name, a)]"
    and remote: "entry_at remote e = Some ren" "eb_attachments (en_body ren) = [(name, a)]" "hget (db_attachments remote) a = Some att"
    and pre: "uuid_of pre = e" "e \<notin> set (map uuid_of local_pre)"
    and run: "repair_added_entry_attachments clock remote local_pre [pre] db = (r, db')"
  shows "if a = n then read_attachment e name db' = Inl (Failed (AttachmentNotFound name)) \<and> data_at db' n = None
    else read_attachment e name db' = Inr (exposed (at_data att))
      \<and> (\<forall>e' name'. e' \<noteq> e \<longrightarrow> ref_at db e' name' = Some a \<longrightarrow> read_attachment e' name' db' = Inl Panic)"
proof -
  let ?p = "hdel a (hput n \<lparr>at_entries = [(e, None)], at_data = at_data att\<rparr> (db_attachments db))"
  from run repair_one [OF pool en remote pre] have db': "db' = edit_entry e (map_body (bump (clock e)))
     ((edit_entry e (map_body (drop_names a)) (edit_entry e (map_body (put_name name n)) db))\<lparr>db_attachments := ?p\<rparr>)" by simp
  have att: "db_attachments db' = ?p" by (simp add: db')
  have ref: "ref_at db' e name = (if a = n then None else Some n)"
    using en by (auto simp: db' ref_at_edit bump_def drop_names_def put_name_def)
  have ents: "entry_at db' k \<noteq> None \<longleftrightarrow> entry_at db k \<noteq> None" for k by (simp add: db' edit_entry_def)
  have other: "ref_at db' e' name' = ref_at db e' name'" if "e' \<noteq> e" for e' name' using that by (simp add: db' ref_at_edit)
  have panic: "read_attachment e' name' db' = Inl Panic" if e': "e' \<noteq> e" "ref_at db e' name' = Some a" for e' name'
  proof -
    have "data_at db' a = None" by (simp add: data_at_def att)
    moreover have "entry_at db' e' \<noteq> None" using e'(2) ents by (cases "entry_at db e'") (auto simp: ref_at_def)
    ultimately show ?thesis using other [OF e'(1), of name'] e'(2) by (simp add: read_by_ref)
  qed
  have "entry_at db' e \<noteq> None" using ents en by simp
  note read = read_by_ref [OF this, of name]
  show ?thesis
  proof (cases "a = n")
    case True
    with read ref att show ?thesis by (simp add: data_at_def)
  next
    case False
    then have "data_at db' n = Some (exposed (at_data att))" by (simp add: data_at_def att)
    with False read ref panic show ?thesis by simp
  qed
qed

section \<open>Concrete merges\<close>

text \<open>A remote vault that has one entry with one attachment more than the empty local one, merged by adding the entry.\<close>

definition file_entry :: "unit entry" where
  "file_entry = Entry \<lparr>eb_id = 7, eb_parent = 1, eb_fields = [], eb_tags = [], eb_times = new_times 0,
     eb_attachments = [(''f'', 0)], eb_other = ()\<rparr> None"

definition one_file :: "unit db" where
  "one_file = (new_db 1 0 ())\<lparr>db_entries := [(7, file_entry)],
     db_attachments := [(0, \<lparr>at_entries = [], at_data = Unprotected [9]\<rparr>)]\<rparr>"

definition merged_file :: "unit db" where
  "merged_file = (new_db 1 0 ())\<lparr>db_entries := [(7, file_entry)]\<rparr>"

lemma repair_attachment_cases_witness:
  "read_attachment 7 ''f'' one_file = Inr [9]
   \<and> read_attachment 7 ''f'' (snd (repair_added_entry_attachments (\<lambda>_. 1) one_file [] [file_entry] merged_file))
     = Inl (Failed (AttachmentNotFound ''f''))"
proof -
  have pool: "pool_keys merged_file = {..<0}" by (simp add: pool_keys_def merged_file_def new_db_def)
  have att: "hget (db_attachments merged_file) k = Some att \<Longrightarrow> at_entries att = []" for k att by (simp add: merged_file_def new_db_def)
  have en: "entry_at merged_file 7 = Some file_entry" "eb_attachments (en_body file_entry) = [(''f'', 0)]"
    by (simp_all add: merged_file_def file_entry_def)
  have re: "entry_at one_file 7 = Some file_entry" "hget (db_attachments one_file) 0 = Some \<lparr>at_entries = [], at_data = Unprotected [9]\<rparr>"
    by (simp_all add: one_file_def)
  have id: "uuid_of file_entry = 7" "(7 :: nat) \<notin> set (map uuid_of ([] :: unit entry list))" by (simp_all add: file_entry_def)
  obtain r db' where run: "repair_added_entry_attachments (\<lambda>_. 1) one_file [] [file_entry] merged_file = (r, db')" by fastforce
  from repair_attachment_cases [OF pool att en re(1) en(2) re(2) id run] run
  show ?thesis by (simp add: read_attachment_def re(1) en(2) re(2))
qed

definition bare_entry :: "string \<Rightarrow> time \<Rightarrow> unit entry" where
  "bare_entry title t = Entry \<lparr>eb_id = 7, eb_parent = 1, eb_fields = [(''Title'', Unprotected title)], eb_tags = [],
     eb_times = new_times t, eb_attachments = [], eb_other = ()\<rparr> None"

definition with_entry :: "unit entry \<Rightarrow> unit db" where
  "with_entry en = \<lparr>db_meta = db_meta (new_db 1 0 ()), db_root = 1, db_attachments = [], db_entries = [(7, en)],
     db_groups = [(1, \<lparr>gr_id = 1, gr_parent = None, gr_name = [], gr_groups = [], gr_entries = [7], gr_times = new_times 0,
       gr_last_visible = None, gr_other = ()\<rparr>)], db_deleted = []\<rparr>"

text \<open>A merge that takes the remote value and drops the local one.\<close>

definition take_remote :: "unit merge_fn" where
  "take_remote remote local = (Inr (), local\<lparr>db_entries := db_entries remote\<rparr>)"

lemma live_with_entry: "collect_live_entries (with_entry en) = Some [en]"
  by (simp add: collect_live_entries_def with_entry_def subtree.simps)

lemma with_entry_simps: "entry_at (with_entry en) 7 = Some en" "(with_entry a)\<lparr>db_entries := db_entries (with_entry b)\<rparr> = with_entry b"
  "edit_entry 7 f (with_entry en) = with_entry (f en)"
  by (simp_all add: with_entry_def edit_entry_def hmodify_def)

lemma bare_entry_simps: "uuid_of (bare_entry t m) = 7" "modified_at (bare_entry t m) = Some m" "en_history (bare_entry t m) = None"
  "eb_attachments (en_body (bare_entry t m)) = []" "content_diverged (bare_entry t m) (bare_entry t' m') \<longleftrightarrow> t \<noteq> t'"
  by (auto simp: bare_entry_def new_times_def content_diverged_def content_only_def body_eq_def hmap_eq_def)

lemma take_remote_run:
  "\<exists>delta. reconcile take_remote (\<lambda>_. 9) (with_entry (bare_entry ''new'' 5)) (with_entry (bare_entry ''old'' 2)) =
     Some (Inr delta, with_entry (push_history (bare_entry ''old'' 2) (bare_entry ''new'' 5)))"
proof -
  let ?old = "bare_entry ''old'' 2" and ?new = "bare_entry ''new'' 5"
  let ?m = "with_entry (push_history ?old ?new)"
  have h: "uuid_of (push_history ?old ?new) = 7" "content_diverged (push_history ?old ?new) ?new \<longleftrightarrow> False"
    "eb_attachments (en_body (push_history ?old ?new)) = []"
    by (simp_all add: bare_entry_simps push_history_def) (simp add: content_diverged_def content_only_def body_eq_def hmap_eq_iff)
  have fill: "backfill_lost_versions [?new] (backfill_lost_versions [?old] (with_entry ?new)) = ?m"
    by (simp add: backfill_lost_versions_def backfill_one_def with_entry_simps bare_entry_simps history_has_version_def h)
  have "\<exists>after. entry_times ?m = Some after" by (simp add: entry_times_def live_with_entry)
  then show ?thesis
    by (auto simp: reconcile_def entry_times_def live_with_entry take_remote_def with_entry_simps fill abind_def
        repair_added_entry_attachments_def repair_entry_def propagate_both_side_attachments_def propagate_entry_def
        bare_entry_simps time_le_def attachments_named_def h hmap_eq_def exposed_all_def)
qed

lemma reconcile_loses_nothing_witness:
  "\<exists>delta db' en. reconcile take_remote (\<lambda>_. 9) (with_entry (bare_entry ''new'' 5)) (with_entry (bare_entry ''old'' 2)) = Some (Inr delta, db')
     \<and> entry_at db' 7 = Some en \<and> list_ex (\<lambda>v. alike v (en_body (bare_entry ''old'' 2))) (en_body en # map en_body (view_history en))"
proof -
  obtain delta where run: "reconcile take_remote (\<lambda>_. 9) (with_entry (bare_entry ''new'' 5)) (with_entry (bare_entry ''old'' 2)) =
     Some (Inr delta, with_entry (push_history (bare_entry ''old'' 2) (bare_entry ''new'' 5)))" using take_remote_run by blast
  have "bare_entry ''old'' 2 \<in> set [bare_entry ''old'' 2] \<union> set [bare_entry ''new'' 5]"
    "entry_at (with_entry (push_history (bare_entry ''old'' 2) (bare_entry ''new'' 5))) (uuid_of (bare_entry ''old'' 2)) =
       Some (push_history (bare_entry ''old'' 2) (bare_entry ''new'' 5))" by (simp_all add: with_entry_simps bare_entry_simps)
  from reconcile_loses_nothing [OF run live_with_entry live_with_entry this] run this(2) show ?thesis
    unfolding bare_entry_simps by blast
qed

end
