(* ===== verification/FuzzyMatch.thy ===== *)
theory FuzzyMatch
  imports Prelude
begin

text \<open>
  The fuzzy matcher of \<open>falach-core\<close> (\<open>entry/fuzzy.rs\<close>): a dynamic program over
  (needle, haystack) positions with traceback. A Rust \<open>char\<close> is its scalar value. What the
  matcher asks of Unicode (case, word characters, decoding, lower-casing, white space) is
  the record \<open>unicode\<close>, so every result holds for the real tables and for any other. The
  \<open>i32\<close> scores are integers; \<open>fuzzy_match_score_bounds\<close> shows that they stay far inside \<open>i32\<close> and
  above the sentinel for haystacks of up to \<open>2\<^sup>2\<^sup>4\<close> characters.
\<close>

type_synonym uchar = nat

record unicode =
  u_upper :: "uchar \<Rightarrow> bool"
  u_lower :: "uchar \<Rightarrow> bool"
  u_alnum :: "uchar \<Rightarrow> bool"
  u_to_lower :: "uchar \<Rightarrow> uchar list"
  u_chars :: "string \<Rightarrow> uchar list"
  u_str_lower :: "string \<Rightarrow> string"
  u_words :: "string \<Rightarrow> string list"

section \<open>Scoring\<close>

definition score_match :: int where "score_match = 16"
definition score_gap_start :: int where "score_gap_start = -3"
definition score_gap_ext :: int where "score_gap_ext = -1"
definition bonus_boundary :: int where "bonus_boundary = 8"
definition bonus_camel :: int where "bonus_camel = 7"
definition bonus_consecutive :: int where "bonus_consecutive = 4"
definition bonus_first_char_mult :: int where "bonus_first_char_mult = 2"

definition unreachable :: int where "unreachable = - 1073741824"

lemmas scoring = score_match_def score_gap_start_def score_gap_ext_def bonus_boundary_def
  bonus_camel_def bonus_consecutive_def bonus_first_char_mult_def

definition char_matches :: "unicode \<Rightarrow> uchar \<Rightarrow> uchar \<Rightarrow> bool" where
  "char_matches U n h =
     (if u_upper U n then n = h else n = h \<or> u_to_lower U n = u_to_lower U h)"

definition position_bonus :: "unicode \<Rightarrow> uchar option \<Rightarrow> uchar \<Rightarrow> int" where
  "position_bonus U prev cur =
     (case prev of
        None \<Rightarrow> bonus_boundary * bonus_first_char_mult
      | Some p \<Rightarrow>
          if \<not> u_alnum U p then bonus_boundary
          else if u_lower U p \<and> u_upper U cur then bonus_camel
          else 0)"

fun is_subsequence :: "unicode \<Rightarrow> uchar list \<Rightarrow> uchar list \<Rightarrow> bool" where
  "is_subsequence U [] hs = True"
| "is_subsequence U (n # ns) [] = False"
| "is_subsequence U (n # ns) (h # hs) =
     (if char_matches U n h then is_subsequence U ns hs else is_subsequence U (n # ns) hs)"

definition bonuses :: "unicode \<Rightarrow> uchar list \<Rightarrow> int list" where
  "bonuses U hs =
     map (\<lambda>j. position_bonus U (if j = 0 then None else Some (hs ! (j - 1))) (hs ! j)) [0..<length hs]"

section \<open>The dynamic program\<close>

definition to_i32 :: "nat \<Rightarrow> int" where
  "to_i32 n = (if int n \<le> i32_max then int n else i32_max)"

record row_state =
  best_gap_base :: int
  best_gap_k :: nat
  row_dp :: "int list"
  row_parent :: "nat list"

definition gap_update :: "nat \<Rightarrow> int list \<Rightarrow> nat \<Rightarrow> row_state \<Rightarrow> row_state" where
  "gap_update i prev j st =
     (if 0 < i \<and> 2 \<le> j then
        let k = j - 2; prev_score = prev ! k in
        if prev_score \<noteq> unreachable then
          let gap_base = prev_score - score_gap_ext * to_i32 k in
          if best_gap_base st < gap_base then st\<lparr>best_gap_base := gap_base, best_gap_k := k\<rparr> else st
        else st
      else st)"

definition best_predecessor :: "int list \<Rightarrow> nat \<Rightarrow> row_state \<Rightarrow> int \<times> nat" where
  "best_predecessor prev j st =
     (let (best, best_k) =
            (if best_gap_base st \<noteq> unreachable
             then (best_gap_base st + score_gap_start + score_gap_ext * (to_i32 j - 2), best_gap_k st)
             else (unreachable, u64_max))
      in if 0 < j then
           let prev_score = prev ! (j - 1); consecutive = prev_score + bonus_consecutive in
           if prev_score \<noteq> unreachable \<and> best < consecutive then (consecutive, j - 1) else (best, best_k)
         else (best, best_k))"

definition dp_cell :: "unicode \<Rightarrow> uchar list \<Rightarrow> int list \<Rightarrow> nat \<Rightarrow> uchar \<Rightarrow> int list \<Rightarrow>
    nat \<Rightarrow> row_state \<Rightarrow> row_state" where
  "dp_cell U hs bonus i c prev j st0 =
     (let st = gap_update i prev j st0 in
      if \<not> char_matches U c (hs ! j) then st
      else if i = 0 then st\<lparr>row_dp := (row_dp st)[j := score_match + bonus ! j]\<rparr>
      else
        let (best, best_k) = best_predecessor prev j st in
        if unreachable < best
        then st\<lparr>row_dp := (row_dp st)[j := best + score_match + bonus ! j],
                row_parent := (row_parent st)[j := best_k]\<rparr>
        else st)"

definition empty_row :: "nat \<Rightarrow> row_state" where
  "empty_row n = \<lparr>best_gap_base = unreachable, best_gap_k = u64_max,
     row_dp = replicate n unreachable, row_parent = replicate n u64_max\<rparr>"

definition dp_row :: "unicode \<Rightarrow> uchar list \<Rightarrow> int list \<Rightarrow> nat \<Rightarrow> uchar \<Rightarrow> int list \<Rightarrow> row_state" where
  "dp_row U hs bonus i c prev =
     fold (dp_cell U hs bonus i c prev) [i..<length hs] (empty_row (length hs))"

fun dp_rows :: "unicode \<Rightarrow> uchar list \<Rightarrow> int list \<Rightarrow> nat \<Rightarrow> int list \<Rightarrow> uchar list \<Rightarrow>
    (int list \<times> nat list) list" where
  "dp_rows U hs bonus i prev [] = []"
| "dp_rows U hs bonus i prev (c # cs) =
     (let r = dp_row U hs bonus i c prev
      in (row_dp r, row_parent r) # dp_rows U hs bonus (Suc i) (row_dp r) cs)"

text \<open>The scan of the last row, from column \<open>m - 1\<close> on; the first maximum wins.\<close>

fun best_end :: "int list \<Rightarrow> nat \<Rightarrow> int \<Rightarrow> nat option \<Rightarrow> int \<times> nat option" where
  "best_end [] j best best_j = (best, best_j)"
| "best_end (s # ss) j best best_j =
     (if best < s then best_end ss (Suc j) s (Some j) else best_end ss (Suc j) best best_j)"

text \<open>Traceback through the parent rows, last row first.\<close>

fun traceback :: "nat list list \<Rightarrow> nat \<Rightarrow> nat list" where
  "traceback [] j = []"
| "traceback (par # pars) j = j # traceback pars (par ! j)"

record fuzzy_result =
  fm_score :: int
  fm_indices :: "nat list"

definition to_u32 :: "nat \<Rightarrow> nat" where
  "to_u32 n = (if n \<le> u32_max then n else u32_max)"

definition fuzzy_match :: "unicode \<Rightarrow> string \<Rightarrow> string \<Rightarrow> fuzzy_result option" where
  "fuzzy_match U needle haystack =
     (let ns = u_chars U needle in
      if ns = [] then Some \<lparr>fm_score = 0, fm_indices = []\<rparr>
      else let hs = u_chars U haystack in
      if \<not> is_subsequence U ns hs then None
      else
        let m = length ns; n = length hs;
            rows = dp_rows U hs (bonuses U hs) 0 (replicate n unreachable) ns
        in case best_end (drop (m - 1) (fst (last rows))) (m - 1) unreachable None of
             (_, None) \<Rightarrow> None
           | (best_score, Some best_j) \<Rightarrow>
               Some \<lparr>fm_score = best_score,
                     fm_indices = map to_u32 (rev (traceback (rev (map snd rows)) best_j))\<rparr>)"

text \<open>\<open>fuzzy_match_terms\<close>: every white-space separated term must match.\<close>

fun match_terms_loop :: "unicode \<Rightarrow> string list \<Rightarrow> string \<Rightarrow> int \<Rightarrow> nat list \<Rightarrow> (int \<times> nat list) option" where
  "match_terms_loop U [] haystack tot indices = Some (tot, indices)"
| "match_terms_loop U (t # ts) haystack tot indices =
     (case fuzzy_match U t haystack of
        None \<Rightarrow> None
      | Some m \<Rightarrow> match_terms_loop U ts haystack (tot + fm_score m) (indices @ fm_indices m))"

definition fuzzy_match_terms :: "unicode \<Rightarrow> string \<Rightarrow> string \<Rightarrow> fuzzy_result option" where
  "fuzzy_match_terms U query haystack =
     (case match_terms_loop U (u_words U query) haystack 0 [] of
        None \<Rightarrow> None
      | Some (tot, indices) \<Rightarrow>
          if u_words U query = [] then Some \<lparr>fm_score = 0, fm_indices = []\<rparr>
          else Some \<lparr>fm_score = tot, fm_indices = remdups_adj (sort indices)\<rparr>)"

section \<open>Reference: alignments and their scores\<close>

definition aligned :: "unicode \<Rightarrow> uchar list \<Rightarrow> uchar list \<Rightarrow> nat list \<Rightarrow> bool" where
  "aligned U ns hs js = (length js = length ns \<and> sorted_wrt (<) js \<and>
     (\<forall>i < length ns. js ! i < length hs \<and> char_matches U (ns ! i) (hs ! (js ! i))))"

definition transition :: "nat \<Rightarrow> nat \<Rightarrow> int" where
  "transition k j = (if j = Suc k then bonus_consecutive
     else score_gap_start + score_gap_ext * (int j - int k - 2))"

fun steps_score :: "int list \<Rightarrow> nat \<Rightarrow> nat list \<Rightarrow> int" where
  "steps_score bonus k [] = 0"
| "steps_score bonus k (j # js) = transition k j + score_match + bonus ! j + steps_score bonus j js"

fun align_score :: "int list \<Rightarrow> nat list \<Rightarrow> int" where
  "align_score bonus [] = 0"
| "align_score bonus (j # js) = score_match + bonus ! j + steps_score bonus j js"

lemma steps_score_snoc:
  "steps_score bonus k (js @ [j]) = steps_score bonus k js + transition (last (k # js)) j + score_match + bonus ! j"
  by (induction js arbitrary: k) auto

lemma align_score_snoc:
  "align_score bonus (js @ [k, j]) = align_score bonus (js @ [k]) + transition k j + score_match + bonus ! j"
proof (cases js)
  case (Cons a as)
  then have "align_score bonus (js @ [k, j]) = score_match + bonus ! a + steps_score bonus a ((as @ [k]) @ [j])"
    by simp
  with Cons show ?thesis unfolding steps_score_snoc by (simp add: steps_score_snoc)
qed simp

lemma aligned_single: "aligned U [c] hs [j] = (j < length hs \<and> char_matches U c (hs ! j))"
  by (auto simp: aligned_def)

lemma aligned_length: "aligned U ns hs js \<Longrightarrow> length js = length ns"
  by (simp add: aligned_def)

lemma aligned_snoc:
  "aligned U (ns @ [c]) hs (js @ [k, j]) =
     (aligned U ns hs (js @ [k]) \<and> k < j \<and> j < length hs \<and> char_matches U c (hs ! j))"
  (is "?l = ?r")
proof
  assume l: ?l
  then have len: "length ns = Suc (length js)" and s: "sorted_wrt (<) ((js @ [k]) @ [j])"
    by (auto simp: aligned_def)
  have "js ! i < length hs \<and> char_matches U (ns ! i) (hs ! (js ! i))" if "i < length js" for i
    using l that len by (auto simp: aligned_def nth_append dest!: spec [of _ i])
  moreover have "k < length hs \<and> char_matches U (ns ! length js) (hs ! k)"
    using l len by (auto simp: aligned_def nth_append dest!: spec [of _ "length js"])
  moreover have "j < length hs \<and> char_matches U c (hs ! j)"
    using l len by (auto simp: aligned_def nth_append dest!: spec [of _ "Suc (length js)"])
  ultimately show ?r using s len
    by (auto simp: aligned_def sorted_wrt_append nth_append less_Suc_eq)
next
  assume r: ?r
  then have len: "length ns = Suc (length js)" by (auto simp: aligned_def)
  have lt: "x < j" if "x \<in> set js" for x
    using r that by (auto simp: aligned_def sorted_wrt_append)
  have "(js @ [k, j]) ! i < length hs \<and> char_matches U ((ns @ [c]) ! i) (hs ! ((js @ [k, j]) ! i))"
    if "i < length (ns @ [c])" for i
  proof (cases "i = length ns")
    case True
    with r len show ?thesis by (simp add: nth_append)
  next
    case False
    with that have "i < length ns" by simp
    then have "(js @ [k]) ! i < length hs \<and> char_matches U (ns ! i) (hs ! ((js @ [k]) ! i))"
      using r by (simp add: aligned_def)
    moreover have "(js @ [k, j]) ! i = (js @ [k]) ! i"
      using \<open>i < length ns\<close> len by (auto simp: nth_append less_Suc_eq)
    ultimately show ?thesis using \<open>i < length ns\<close> by (simp add: nth_append)
  qed
  with r len lt show ?l by (auto simp: aligned_def sorted_wrt_append)
qed

lemma aligned_shift:
  "aligned U ns hs js \<Longrightarrow> aligned U ns (h # hs) (map Suc js)"
  by (auto simp: aligned_def sorted_wrt_map)

lemma is_subsequence_aligned: "is_subsequence U ns hs \<Longrightarrow> \<exists>js. aligned U ns hs js"
proof (induction U ns hs rule: is_subsequence.induct)
  case (3 U n ns h hs)
  show ?case
  proof (cases "char_matches U n h")
    case True
    with 3 obtain js where "aligned U ns hs js" by auto
    then have "aligned U (n # ns) (h # hs) (0 # map Suc js)"
      using True by (auto simp: aligned_def sorted_wrt_map nth_Cons split: nat.split)
    then show ?thesis by blast
  next
    case False
    with 3 show ?thesis by (auto intro: aligned_shift)
  qed
qed (auto simp: aligned_def intro: exI [of _ "[]"])

text \<open>The greedy scan accepts whenever some alignment exists.\<close>

lemma is_subsequence_tail: "is_subsequence U (n # ns) hs \<Longrightarrow> is_subsequence U ns hs"
proof (induction hs arbitrary: n ns)
  case (Cons h hs)
  then show ?case by (cases ns) (auto split: if_splits)
qed simp

lemma aligned_is_subsequence: "aligned U ns hs js \<Longrightarrow> is_subsequence U ns hs"
proof (induction hs arbitrary: ns js)
  case Nil
  then show ?case by (cases ns) (auto simp: aligned_def)
next
  case (Cons h hs)
  show ?case
  proof (cases ns)
    case (Cons n ns')
    with Cons.prems obtain j js' where js: "js = j # js'" by (cases js) (auto simp: aligned_def)
    have pos: "\<forall>x \<in> set js'. 0 < x" using Cons.prems js by (auto simp: aligned_def)
    have down: "aligned U xs hs (map (\<lambda>x. x - 1) ys)"
      if "aligned U xs (h # hs) ys" "\<forall>x \<in> set ys. 0 < x" for xs ys
    proof -
      have "sorted_wrt (<) (map (\<lambda>x. x - 1) ys)"
        using that by (force simp: aligned_def sorted_wrt_map elim!: sorted_wrt_mono_rel [rotated])
      moreover have "ys ! i - 1 < length hs \<and> char_matches U (xs ! i) (hs ! (ys ! i - 1))"
        if "i < length xs" for i
      proof -
        have "0 < ys ! i" "ys ! i < Suc (length hs)" "char_matches U (xs ! i) ((h # hs) ! (ys ! i))"
          using \<open>aligned U xs (h # hs) ys\<close> \<open>\<forall>x \<in> set ys. 0 < x\<close> that
          by (auto simp: aligned_def)
        then show ?thesis by (cases "ys ! i") auto
      qed
      ultimately show ?thesis using that by (auto simp: aligned_def)
    qed
    have tl: "aligned U ns' (h # hs) js'"
      using Cons.prems js \<open>ns = n # ns'\<close> by (fastforce simp: aligned_def)
    from Cons.IH [OF down [OF tl pos]] have sub: "is_subsequence U ns' hs" .
    show ?thesis
    proof (cases "char_matches U n h")
      case True
      with sub \<open>ns = n # ns'\<close> show ?thesis by simp
    next
      case False
      have "j \<noteq> 0"
      proof
        assume "j = 0"
        with Cons.prems js \<open>ns = n # ns'\<close> False show False
          by (auto simp: aligned_def dest!: spec [of _ 0])
      qed
      with js pos have "\<forall>x \<in> set js. 0 < x" by simp
      from Cons.IH [OF down [OF Cons.prems this]] False \<open>ns = n # ns'\<close> show ?thesis by simp
    qed
  qed simp
qed


section \<open>The row computes the best predecessor\<close>

text \<open>
  \<open>best_from prev j r\<close>: \<open>r\<close> is the best extension of the previous row into column \<open>j\<close>
  from the columns \<open>K\<close>, with the column it comes from.
\<close>

definition best_from :: "int list \<Rightarrow> nat \<Rightarrow> nat set \<Rightarrow> int \<Rightarrow> nat \<Rightarrow> bool" where
  "best_from prev j K v p =
     ((v = unreachable \<and> (\<forall>k \<in> K. prev ! k = unreachable))
    \<or> (p \<in> K \<and> prev ! p \<noteq> unreachable \<and> v = prev ! p + transition p j \<and>
       (\<forall>k \<in> K. prev ! k \<noteq> unreachable \<longrightarrow> prev ! k + transition k j \<le> v)))"

definition gap_inv :: "int list \<Rightarrow> nat \<Rightarrow> row_state \<Rightarrow> bool" where
  "gap_inv prev J st =
     ((best_gap_base st = unreachable \<and> (\<forall>k. k + 3 \<le> J \<longrightarrow> prev ! k = unreachable))
    \<or> (\<exists>p. p + 3 \<le> J \<and> best_gap_k st = p \<and> prev ! p \<noteq> unreachable \<and>
        best_gap_base st = prev ! p + int p \<and>
        (\<forall>k. k + 3 \<le> J \<longrightarrow> prev ! k \<noteq> unreachable \<longrightarrow> prev ! k + int k \<le> prev ! p + int p)))"

definition fuzzy_limit :: nat where
  "fuzzy_limit = 16777216"

definition prev_bounded :: "int list \<Rightarrow> nat \<Rightarrow> bool" where
  "prev_bounded prev n = (n \<le> fuzzy_limit \<and>
     (\<forall>k < n. prev ! k \<noteq> unreachable \<longrightarrow> - int k \<le> prev ! k))"

lemma to_i32_small: "n \<le> fuzzy_limit \<Longrightarrow> to_i32 n = int n"
  by (simp add: to_i32_def fuzzy_limit_def i32_max_def)

lemma gap_update_inv:
  assumes "prev_bounded prev n" "J < n" "0 < i" "gap_inv prev J st"
  shows "gap_inv prev (Suc J) (gap_update i prev J st)"
proof (cases "2 \<le> J \<and> prev ! (J - 2) \<noteq> unreachable")
  case False
  then have same: "gap_update i prev J st = st"
    and new: "k + 3 \<le> Suc J \<Longrightarrow> \<not> k + 3 \<le> J \<Longrightarrow> prev ! k = unreachable" for k
    using assms(3) by (auto simp: gap_update_def Let_def le_Suc_eq)
  from assms(4) new show ?thesis unfolding same gap_inv_def by (metis le_Suc_eq)
next
  case True
  have t: "to_i32 (J - 2) = int (J - 2)"
    using assms(1,2) by (intro to_i32_small) (auto simp: prev_bounded_def)
  have pos: "0 \<le> prev ! (J - 2) + int (J - 2)"
    using assms(1,2) True by (auto simp: prev_bounded_def dest!: spec [of _ "J - 2"])
  have split: "k + 3 \<le> Suc J \<longleftrightarrow> k + 3 \<le> J \<or> k = J - 2" for k using True by auto
  show ?thesis
    using assms(3,4) True t pos
    by (auto simp: gap_update_def Let_def gap_inv_def split score_gap_ext_def unreachable_def)
qed

lemma gap_update_rows [simp]:
  "row_dp (gap_update i prev j st) = row_dp st" "row_parent (gap_update i prev j st) = row_parent st"
  by (simp_all add: gap_update_def Let_def)

lemma best_predecessor_best:
  assumes b: "prev_bounded prev n" and J: "J < n" and g: "gap_inv prev (Suc J) st"
  shows "best_from prev J {..<J} (fst (best_predecessor prev J st)) (snd (best_predecessor prev J st))"
    and "fst (best_predecessor prev J st) \<noteq> unreachable \<Longrightarrow> unreachable < fst (best_predecessor prev J st)"
proof -
  have t: "to_i32 J = int J"
    using assms by (intro to_i32_small) (simp add: prev_bounded_def)
  have low: "prev ! k \<noteq> unreachable \<Longrightarrow> unreachable < prev ! k + transition k J" if "k < J" for k
    using b J that
    by (auto simp: prev_bounded_def transition_def scoring unreachable_def fuzzy_limit_def
        dest!: spec [of _ k])
  have gap: "prev ! k + transition k J = prev ! k + int k + score_gap_start + score_gap_ext * (int J - 2)"
    if "k + 2 \<le> J" for k
    using that by (simp add: transition_def scoring)
  define base where "base = best_gap_base st"
  have far: "best_from prev J {k. k + 2 \<le> J}
      (if base \<noteq> unreachable then base + score_gap_start + score_gap_ext * (int J - 2) else unreachable)
      (if base \<noteq> unreachable then best_gap_k st else u64_max)"
  proof (cases "base = unreachable \<and> (\<forall>k. k + 2 \<le> J \<longrightarrow> prev ! k = unreachable)")
    case True
    then show ?thesis by (simp add: best_from_def)
  next
    case False
    with g obtain p where p: "p + 2 \<le> J" "best_gap_k st = p" "prev ! p \<noteq> unreachable"
      "base = prev ! p + int p"
      and best: "\<And>k. k + 2 \<le> J \<Longrightarrow> prev ! k \<noteq> unreachable \<Longrightarrow> prev ! k + int k \<le> prev ! p + int p"
      unfolding base_def gap_inv_def by auto
    have "p < n" using p(1) J by simp
    with b p(3,4) have "base \<noteq> unreachable" by (auto simp: prev_bounded_def unreachable_def)
    with p best gap show ?thesis by (auto simp: best_from_def)
  qed
  have range: "{..<J} = {k. k + 2 \<le> J} \<union> (if 0 < J then {J - 1} else {})" by auto
  have adj: "0 < J \<Longrightarrow> transition (J - 1) J = bonus_consecutive" by (simp add: transition_def)
  show "best_from prev J {..<J} (fst (best_predecessor prev J st)) (snd (best_predecessor prev J st))"
    using far adj low [of "J - 1"]
    unfolding best_predecessor_def t base_def [symmetric] range Let_def best_from_def
    by (auto split: if_splits)
  then show "fst (best_predecessor prev J st) \<noteq> unreachable \<Longrightarrow> unreachable < fst (best_predecessor prev J st)"
    using low by (auto simp: best_from_def)
qed


definition cell_ok :: "unicode \<Rightarrow> uchar list \<Rightarrow> int list \<Rightarrow> nat \<Rightarrow> uchar \<Rightarrow> int list \<Rightarrow>
    nat \<Rightarrow> int \<Rightarrow> nat \<Rightarrow> bool" where
  "cell_ok U hs bonus i c prev j v p =
     (if \<not> char_matches U c (hs ! j) then v = unreachable
      else if i = 0 then v = score_match + bonus ! j
      else (v = unreachable \<and> (\<forall>k < j. prev ! k = unreachable))
        \<or> (p < j \<and> prev ! p \<noteq> unreachable \<and> v = prev ! p + transition p j + score_match + bonus ! j \<and>
            (\<forall>k < j. prev ! k \<noteq> unreachable \<longrightarrow>
               prev ! k + transition k j + score_match + bonus ! j \<le> v)))"

definition row_inv :: "unicode \<Rightarrow> uchar list \<Rightarrow> int list \<Rightarrow> nat \<Rightarrow> uchar \<Rightarrow> int list \<Rightarrow> nat \<Rightarrow> row_state \<Rightarrow> bool" where
  "row_inv U hs bonus i c prev J st =
     (length (row_dp st) = length hs \<and> length (row_parent st) = length hs
    \<and> (0 < i \<longrightarrow> gap_inv prev J st)
    \<and> (\<forall>j < length hs. if i \<le> j \<and> j < J then cell_ok U hs bonus i c prev j (row_dp st ! j) (row_parent st ! j)
         else row_dp st ! j = unreachable))"

lemma row_inv_extend:
  assumes "row_inv U hs bonus i c prev J st" "i \<le> J"
    and "length (row_dp st') = length hs" "length (row_parent st') = length hs"
    and "0 < i \<Longrightarrow> gap_inv prev (Suc J) st'"
    and "\<And>j. j \<noteq> J \<Longrightarrow> row_dp st' ! j = row_dp st ! j \<and> row_parent st' ! j = row_parent st ! j"
    and "cell_ok U hs bonus i c prev J (row_dp st' ! J) (row_parent st' ! J)"
  shows "row_inv U hs bonus i c prev (Suc J) st'"
proof -
  have "if i \<le> j \<and> j < Suc J then cell_ok U hs bonus i c prev j (row_dp st' ! j) (row_parent st' ! j)
      else row_dp st' ! j = unreachable" if "j < length hs" for j
    using assms(1,2) assms(6) [of j] assms(7) that
    by (cases "j = J") (auto simp: row_inv_def less_Suc_eq split: if_splits)
  with assms(3,4,5) show ?thesis by (simp add: row_inv_def)
qed

lemma dp_cell_inv:
  assumes b: "0 < i \<Longrightarrow> prev_bounded prev (length hs)" and J: "i \<le> J" "J < length hs"
    and inv: "row_inv U hs bonus i c prev J st"
  shows "row_inv U hs bonus i c prev (Suc J) (dp_cell U hs bonus i c prev J st)"
proof -
  let ?g = "gap_update i prev J st"
  have g: "0 < i \<Longrightarrow> gap_inv prev (Suc J) ?g"
    using inv b gap_update_inv [OF b J(2)] by (auto simp: row_inv_def)
  have dpJ: "row_dp st ! J = unreachable" and len: "length (row_dp st) = length hs" "length (row_parent st) = length hs"
    using inv J by (auto simp: row_inv_def)
  consider (nomatch) "\<not> char_matches U c (hs ! J)" | (first) "char_matches U c (hs ! J)" "i = 0"
    | (later) "char_matches U c (hs ! J)" "0 < i" by blast
  then show ?thesis
  proof cases
    case nomatch
    then have "dp_cell U hs bonus i c prev J st = ?g" by (simp add: dp_cell_def)
    moreover have "cell_ok U hs bonus i c prev J (row_dp st ! J) q" for q
      using nomatch dpJ by (simp add: cell_ok_def)
    ultimately show ?thesis using row_inv_extend [OF inv J(1), of ?g] g len by simp
  next
    case first
    let ?d = "?g\<lparr>row_dp := (row_dp ?g)[J := score_match + bonus ! J]\<rparr>"
    from first have "dp_cell U hs bonus i c prev J st = ?d" by (simp add: dp_cell_def)
    moreover have "cell_ok U hs bonus i c prev J (score_match + bonus ! J) q" for q
      using first by (simp add: cell_ok_def)
    ultimately show ?thesis using row_inv_extend [OF inv J(1), of ?d] len J first by simp
  next
    case later
    obtain v p where vp: "best_predecessor prev J ?g = (v, p)" by fastforce
    from best_predecessor_best [OF b [OF later(2)] J(2) g [OF later(2)]] vp
    have best: "best_from prev J {..<J} v p" and low: "v \<noteq> unreachable \<Longrightarrow> unreachable < v" by auto
    have ginv: "gap_inv prev (Suc J) (r\<lparr>row_dp := d, row_parent := q\<rparr>) = gap_inv prev (Suc J) r" for r d q
      by (simp add: gap_inv_def)
    show ?thesis
    proof (cases "unreachable < v")
      case True
      have st': "dp_cell U hs bonus i c prev J st = ?g
          \<lparr>row_dp := (row_dp ?g)[J := v + score_match + bonus ! J], row_parent := (row_parent ?g)[J := p]\<rparr>"
        using later vp True by (simp add: dp_cell_def Let_def)
      have "cell_ok U hs bonus i c prev J (v + score_match + bonus ! J) p"
        using best True later by (auto simp: best_from_def cell_ok_def)
      then show ?thesis unfolding st'
        by (intro row_inv_extend [OF inv J(1)]) (use J len g later in \<open>auto simp: ginv\<close>)
    next
      case False
      with low have "v = unreachable" by auto
      have st': "dp_cell U hs bonus i c prev J st = ?g"
        using later vp False by (simp add: dp_cell_def Let_def)
      have "\<forall>k < J. prev ! k = unreachable"
      proof (rule ccontr)
        assume "\<not> (\<forall>k < J. prev ! k = unreachable)"
        with best have "p < J" "prev ! p \<noteq> unreachable" "v = prev ! p + transition p J"
          by (auto simp: best_from_def)
        moreover from this b [OF later(2)] J have "unreachable < prev ! p + transition p J"
          by (auto simp: prev_bounded_def transition_def scoring unreachable_def fuzzy_limit_def
              dest!: spec [of _ p])
        ultimately show False using \<open>v = unreachable\<close> by simp
      qed
      then have "cell_ok U hs bonus i c prev J unreachable (row_parent st ! J)"
        using later by (simp add: cell_ok_def)
      then show ?thesis unfolding st'
        by (intro row_inv_extend [OF inv J(1)]) (use len g later dpJ in auto)
    qed
  qed
qed

lemma dp_row_inv:
  assumes "0 < i \<Longrightarrow> prev_bounded prev (length hs)"
    and "0 < i \<Longrightarrow> \<forall>k. Suc k < i \<longrightarrow> prev ! k = unreachable"
  shows "row_inv U hs bonus i c prev (max i (length hs)) (dp_row U hs bonus i c prev)"
proof -
  have init: "row_inv U hs bonus i c prev i (empty_row (length hs))"
    using assms(2) by (auto simp: row_inv_def empty_row_def gap_inv_def)
  have "row_inv U hs bonus i c prev (i + d) (fold (dp_cell U hs bonus i c prev) [i..<i + d] (empty_row (length hs)))"
    if "i + d \<le> length hs" for d
    using that
  proof (induction d)
    case 0
    with init show ?case by simp
  next
    case (Suc d)
    then show ?case using dp_cell_inv [OF assms(1), where J = "i + d"] by simp
  qed
  from this [of "length hs - i"] init show ?thesis
    by (cases "i \<le> length hs") (auto simp: dp_row_def max_def)
qed

section \<open>The rows compute best alignments\<close>

definition row_ok :: "unicode \<Rightarrow> uchar list \<Rightarrow> int list \<Rightarrow> uchar list \<Rightarrow> int list \<Rightarrow> bool" where
  "row_ok U hs bonus ns dp = (length dp = length hs \<and> (\<forall>j < length hs.
     (dp ! j \<noteq> unreachable \<longrightarrow> (\<exists>js. aligned U ns hs (js @ [j]) \<and> align_score bonus (js @ [j]) = dp ! j))
   \<and> (\<forall>js. aligned U ns hs (js @ [j]) \<longrightarrow> dp ! j \<noteq> unreachable \<and> align_score bonus (js @ [j]) \<le> dp ! j)))"

definition bonus_bounded :: "int list \<Rightarrow> nat \<Rightarrow> bool" where
  "bonus_bounded bonus n = (\<forall>j < n. 0 \<le> bonus ! j \<and> bonus ! j \<le> 16)"

lemma bonuses_bounded: "bonus_bounded (bonuses U hs) (length hs)"
  by (auto simp: bonus_bounded_def bonuses_def position_bonus_def scoring)

lemma align_score_bounds:
  assumes "bonus_bounded bonus (length hs)" and "aligned U ns hs (js @ [j])"
  shows "- int j \<le> align_score bonus (js @ [j]) \<and> align_score bonus (js @ [j]) \<le> 36 * int (length ns)"
  using assms(2)
proof (induction js arbitrary: ns j rule: rev_induct)
  case Nil
  then obtain c where "ns = [c]" by (cases ns) (auto simp: aligned_def)
  with Nil have "length ns = 1" "j < length hs" by (auto simp: aligned_single)
  with assms(1) show ?case by (auto simp: bonus_bounded_def scoring)
next
  case (snoc k js)
  then obtain ns' c where ns: "ns = ns' @ [c]"
    by (cases ns rule: rev_cases) (auto simp: aligned_def)
  from snoc.prems have a: "aligned U ns' hs (js @ [k])" and kj: "k < j" "j < length hs"
    unfolding ns by (auto simp: aligned_snoc)
  have "0 \<le> bonus ! j" "bonus ! j \<le> 16" using assms(1) kj by (auto simp: bonus_bounded_def)
  with snoc.IH [OF a] kj ns show ?case
    using align_score_snoc [of bonus js k j] by (auto simp: transition_def scoring)
qed

lemma row_ok_bounded:
  assumes "row_ok U hs bonus ns dp" "bonus_bounded bonus (length hs)" "length hs \<le> fuzzy_limit"
  shows "prev_bounded dp (length hs)"
proof -
  have "- int k \<le> dp ! k" if "k < length hs" "dp ! k \<noteq> unreachable" for k
  proof -
    from assms(1) that obtain js where "aligned U ns hs (js @ [k])" "align_score bonus (js @ [k]) = dp ! k"
      unfolding row_ok_def by blast
    with align_score_bounds [OF assms(2)] show ?thesis by force
  qed
  with assms(3) show ?thesis by (simp add: prev_bounded_def)
qed

lemma aligned_last_ge: "aligned U ns hs (js @ [j]) \<Longrightarrow> length js \<le> j"
proof (induction js arbitrary: ns j rule: rev_induct)
  case (snoc k js)
  then obtain ns' c where "ns = ns' @ [c]"
    by (cases ns rule: rev_cases) (auto simp: aligned_def)
  with snoc have "aligned U ns' hs (js @ [k])" "k < j" by (auto simp: aligned_snoc)
  with snoc.IH show ?case by fastforce
qed simp

lemma row_ok_left: "row_ok U hs bonus ns dp \<Longrightarrow> Suc k < length ns \<Longrightarrow> k < length hs \<Longrightarrow> dp ! k = unreachable"
proof (rule ccontr)
  assume r: "row_ok U hs bonus ns dp" and k: "Suc k < length ns" "k < length hs" and "dp ! k \<noteq> unreachable"
  then obtain js where "aligned U ns hs (js @ [k])" unfolding row_ok_def by blast
  from aligned_last_ge [OF this] aligned_length [OF this] k show False by simp
qed


text \<open>One row: from the best alignments of a prefix to those of the next longer prefix.\<close>

lemma first_row_ok:
  assumes "bonus_bounded bonus (length hs)"
  shows "row_ok U hs bonus [c] (row_dp (dp_row U hs bonus 0 c prev))"
proof -
  let ?r = "dp_row U hs bonus 0 c prev"
  from dp_row_inv [of 0 prev hs U bonus c]
  have inv: "row_inv U hs bonus 0 c prev (length hs) ?r" by simp
  have al: "aligned U [c] hs (js @ [j]) \<longleftrightarrow> js = [] \<and> j < length hs \<and> char_matches U c (hs ! j)" for js j
    by (cases js) (auto simp: aligned_single aligned_def)
  have cell: "row_dp ?r ! j = (if char_matches U c (hs ! j) then score_match + bonus ! j else unreachable)
      \<and> score_match + bonus ! j \<noteq> unreachable" if "j < length hs" for j
    using inv assms that by (auto simp: row_inv_def cell_ok_def bonus_bounded_def scoring unreachable_def)
  show ?thesis unfolding row_ok_def al
    using inv cell by (auto simp: row_inv_def)
qed

lemma next_row_cells:
  assumes "row_ok U hs bonus ns prev" "ns \<noteq> []" "bonus_bounded bonus (length hs)"
    and "length hs \<le> fuzzy_limit" "length ns < length hs"
  shows "row_inv U hs bonus (length ns) c prev (length hs) (dp_row U hs bonus (length ns) c prev)"
proof -
  have "prev_bounded prev (length hs)" using assms(1,3,4) by (rule row_ok_bounded)
  moreover have "\<forall>k. Suc k < length ns \<longrightarrow> prev ! k = unreachable"
    using row_ok_left [OF assms(1)] assms(5) by simp
  ultimately show ?thesis
    using dp_row_inv [of "length ns" prev hs U bonus c] assms(5) by (simp add: max_def)
qed

text \<open>What a reached cell of a later row says about its predecessor.\<close>

definition link_ok :: "unicode \<Rightarrow> uchar list \<Rightarrow> int list \<Rightarrow> uchar \<Rightarrow> int list \<Rightarrow> nat \<Rightarrow> int \<Rightarrow> nat \<Rightarrow> bool" where
  "link_ok U hs bonus c prev j v p = (p < j \<and> prev ! p \<noteq> unreachable \<and> char_matches U c (hs ! j)
     \<and> v = prev ! p + transition p j + score_match + bonus ! j)"

lemma next_row_ok:
  assumes "row_ok U hs bonus ns prev" "ns \<noteq> []" "bonus_bounded bonus (length hs)"
    and "length hs \<le> fuzzy_limit" "length ns < length hs"
  shows "row_ok U hs bonus (ns @ [c]) (row_dp (dp_row U hs bonus (length ns) c prev))
    \<and> (\<forall>j < length hs. row_dp (dp_row U hs bonus (length ns) c prev) ! j \<noteq> unreachable \<longrightarrow>
         link_ok U hs bonus c prev j (row_dp (dp_row U hs bonus (length ns) c prev) ! j)
           (row_parent (dp_row U hs bonus (length ns) c prev) ! j))"
proof -
  let ?r = "dp_row U hs bonus (length ns) c prev"
  note inv = next_row_cells [OF assms, of c]
  have link: "link_ok U hs bonus c prev j (row_dp ?r ! j) (row_parent ?r ! j)"
    if "j < length hs" "row_dp ?r ! j \<noteq> unreachable" for j
    using inv that assms(2) by (auto simp: row_inv_def cell_ok_def link_ok_def split: if_splits)
  have sound: "\<exists>js. aligned U (ns @ [c]) hs (js @ [j]) \<and> align_score bonus (js @ [j]) = row_dp ?r ! j"
    if j: "j < length hs" "row_dp ?r ! j \<noteq> unreachable" for j
  proof -
    from link [OF j] obtain p where p: "p < j" "prev ! p \<noteq> unreachable" "char_matches U c (hs ! j)"
      "row_dp ?r ! j = prev ! p + transition p j + score_match + bonus ! j" by (auto simp: link_ok_def)
    from p(1) j(1) have "p < length hs" by simp
    with assms(1) p(2) obtain js where "aligned U ns hs (js @ [p])" "align_score bonus (js @ [p]) = prev ! p"
      unfolding row_ok_def by blast
    with p j(1) have "aligned U (ns @ [c]) hs ((js @ [p]) @ [j]) \<and> align_score bonus ((js @ [p]) @ [j]) = row_dp ?r ! j"
      by (simp add: aligned_snoc align_score_snoc)
    then show ?thesis by blast
  qed
  have complete: "row_dp ?r ! j \<noteq> unreachable \<and> align_score bonus (js @ [j]) \<le> row_dp ?r ! j"
    if j: "j < length hs" and al: "aligned U (ns @ [c]) hs (js @ [j])" for j js
  proof -
    from al assms(2) obtain js' k where js: "js = js' @ [k]"
      by (cases js rule: rev_cases) (auto simp: aligned_def)
    with al have a: "aligned U ns hs (js' @ [k])" "k < j" "char_matches U c (hs ! j)"
      by (simp_all add: aligned_snoc)
    have ij: "length ns \<le> j" using aligned_last_ge [OF al] aligned_length [OF al] by simp
    from a(2) j have "k < length hs" by simp
    with a(1) assms(1) have prev: "prev ! k \<noteq> unreachable" "align_score bonus (js' @ [k]) \<le> prev ! k"
      unfolding row_ok_def by blast+
    from inv j ij a(2,3) prev(1) assms(2)
    have v: "prev ! k + transition k j + score_match + bonus ! j \<le> row_dp ?r ! j"
      by (force simp: row_inv_def cell_ok_def)
    with prev(2) js have le: "align_score bonus (js @ [j]) \<le> row_dp ?r ! j"
      by (simp add: align_score_snoc)
    with align_score_bounds [OF assms(3) al] j assms(4) show ?thesis
      by (auto simp: unreachable_def fuzzy_limit_def)
  qed
  have "length (row_dp ?r) = length hs" using inv by (simp add: row_inv_def)
  with sound complete link show ?thesis unfolding row_ok_def by blast
qed

section \<open>Traceback and the whole matcher\<close>

lemma dp_rows_snoc:
  "dp_rows U hs bonus i prev (cs @ [c]) =
     (let rows = dp_rows U hs bonus i prev cs;
          r = dp_row U hs bonus (i + length cs) c (if rows = [] then prev else fst (last rows))
      in rows @ [(row_dp r, row_parent r)])"
  by (induction cs arbitrary: i prev) (auto simp: Let_def)

lemma dp_rows_Nil_iff: "dp_rows U hs bonus i prev cs = [] \<longleftrightarrow> cs = []"
  by (cases cs) (auto simp: Let_def)

lemma dp_rows_ok:
  assumes "bonus_bounded bonus (length hs)" "length hs \<le> fuzzy_limit"
    and "ns \<noteq> []" "length ns \<le> length hs"
  shows "let rows = dp_rows U hs bonus 0 prev ns; dp = fst (last rows) in
    row_ok U hs bonus ns dp \<and>
    (\<forall>j < length hs. dp ! j \<noteq> unreachable \<longrightarrow>
       (\<exists>js. rev (traceback (rev (map snd rows)) j) = js @ [j] \<and> aligned U ns hs (js @ [j])
          \<and> align_score bonus (js @ [j]) = dp ! j))"
  using assms(3,4)
proof (induction ns rule: rev_induct)
  case Nil
  then show ?case by simp
next
  case (snoc c ns)
  show ?case
  proof (cases "ns = []")
    case True
    have ok: "row_ok U hs bonus [c] (row_dp (dp_row U hs bonus 0 c prev))"
      using assms(1) by (rule first_row_ok)
    have nil: "aligned U [c] hs (js @ [j]) \<Longrightarrow> js = []" for js j by (simp add: aligned_def)
    from ok nil show ?thesis using True
      by (fastforce simp: Let_def row_ok_def)
  next
    case False
    define rows where "rows = dp_rows U hs bonus 0 prev ns"
    define dp where "dp = fst (last rows)"
    define r where "r = dp_row U hs bonus (length ns) c dp"
    have "rows \<noteq> []" using False by (simp add: rows_def dp_rows_Nil_iff)
    then have rows': "dp_rows U hs bonus 0 prev (ns @ [c]) = rows @ [(row_dp r, row_parent r)]"
      by (simp add: dp_rows_snoc rows_def [symmetric] Let_def r_def dp_def)
    from snoc False have IH: "row_ok U hs bonus ns dp"
      and tb: "\<And>j. j < length hs \<Longrightarrow> dp ! j \<noteq> unreachable \<Longrightarrow>
        \<exists>js. rev (traceback (rev (map snd rows)) j) = js @ [j] \<and> aligned U ns hs (js @ [j])
          \<and> align_score bonus (js @ [j]) = dp ! j"
      by (auto simp: Let_def rows_def dp_def)
    have "length ns < length hs" using snoc.prems by simp
    from next_row_ok [OF IH False assms(1,2) this, of c]
    have ok: "row_ok U hs bonus (ns @ [c]) (row_dp r)"
      and link: "\<And>j. j < length hs \<Longrightarrow> row_dp r ! j \<noteq> unreachable \<Longrightarrow>
        link_ok U hs bonus c dp j (row_dp r ! j) (row_parent r ! j)"
      by (auto simp: r_def)
    have "\<exists>js. rev (traceback (row_parent r # rev (map snd rows)) j) = js @ [j] \<and> aligned U (ns @ [c]) hs (js @ [j])
          \<and> align_score bonus (js @ [j]) = row_dp r ! j"
      if j: "j < length hs" "row_dp r ! j \<noteq> unreachable" for j
    proof -
      define p where "p = row_parent r ! j"
      from link [OF j] have p: "p < j" "dp ! p \<noteq> unreachable" "char_matches U c (hs ! j)"
        "row_dp r ! j = dp ! p + transition p j + score_match + bonus ! j"
        by (auto simp: link_ok_def p_def)
      from tb [of p] p(1,2) j(1) obtain js where js: "rev (traceback (rev (map snd rows)) p) = js @ [p]"
        "aligned U ns hs (js @ [p])" "align_score bonus (js @ [p]) = dp ! p" by auto
      with p j(1) show ?thesis
        by (intro exI [of _ "js @ [p]"]) (simp add: aligned_snoc align_score_snoc p_def [symmetric])
    qed
    with ok show ?thesis unfolding rows' by (simp add: Let_def)
  qed
qed

lemma best_end_spec:
  "best_end ss j b bj = (v, w) \<Longrightarrow>
   (v = b \<and> w = bj \<and> (\<forall>s \<in> set ss. s \<le> b)) \<or>
   (\<exists>i < length ss. w = Some (j + i) \<and> v = ss ! i \<and> b < v \<and> (\<forall>s \<in> set ss. s \<le> v))"
proof (induction ss arbitrary: j b bj)
  case (Cons s ss)
  show ?case
  proof (cases "b < s")
    case True
    with Cons.prems have "best_end ss (Suc j) s (Some j) = (v, w)" by simp
    from Cons.IH [OF this] show ?thesis
    proof
      assume "v = s \<and> w = Some j \<and> (\<forall>x \<in> set ss. x \<le> s)"
      with True show ?thesis by (intro disjI2 exI [of _ 0]) auto
    next
      assume "\<exists>i < length ss. w = Some (Suc j + i) \<and> v = ss ! i \<and> s < v \<and> (\<forall>x \<in> set ss. x \<le> v)"
      then obtain i where "i < length ss" "w = Some (Suc j + i)" "v = ss ! i" "s < v"
        "\<forall>x \<in> set ss. x \<le> v" by blast
      with True show ?thesis by (intro disjI2 exI [of _ "Suc i"]) auto
    qed
  next
    case False
    with Cons.prems have "best_end ss (Suc j) b bj = (v, w)" by simp
    from Cons.IH [OF this] show ?thesis
    proof
      assume "v = b \<and> w = bj \<and> (\<forall>x \<in> set ss. x \<le> b)"
      with False show ?thesis by auto
    next
      assume "\<exists>i < length ss. w = Some (Suc j + i) \<and> v = ss ! i \<and> b < v \<and> (\<forall>x \<in> set ss. x \<le> v)"
      then obtain i where "i < length ss" "w = Some (Suc j + i)" "v = ss ! i" "b < v"
        "\<forall>x \<in> set ss. x \<le> v" by blast
      with False show ?thesis by (intro disjI2 exI [of _ "Suc i"]) auto
    qed
  qed
qed simp

text \<open>Below the limit the indices are not saturated.\<close>

lemma map_to_u32_aligned:
  assumes "aligned U ns hs js" "length hs \<le> fuzzy_limit"
  shows "map to_u32 js = js"
proof (rule map_idI)
  fix x assume "x \<in> set js"
  then obtain i where "i < length ns" "x = js ! i"
    using assms(1) by (metis aligned_length in_set_conv_nth)
  with assms have "x < fuzzy_limit" by (fastforce simp: aligned_def)
  then show "to_u32 x = x" by (simp add: to_u32_def u32_max_def fuzzy_limit_def)
qed

lemma aligned_split:
  assumes "aligned U ns hs js" "ns \<noteq> []"
  obtains js' j where "js = js' @ [j]" "j < length hs" "length ns \<le> Suc j"
proof -
  from assms obtain js' j where js: "js = js' @ [j]"
    by (cases js rule: rev_cases) (auto simp: aligned_def)
  with assms have "length js' = length ns - 1" "0 < length ns" by (auto simp: aligned_def)
  moreover have "j < length hs"
    using assms js by (auto simp: aligned_def nth_append dest!: spec [of _ "length js'"])
  moreover have "length js' \<le> j" using aligned_last_ge assms js by blast
  ultimately show ?thesis using js that by auto
qed

lemma subsequence_length:
  assumes "is_subsequence U ns hs" shows "length ns \<le> length hs"
proof (cases "ns = []")
  case False
  from assms obtain js where "aligned U ns hs js" using is_subsequence_aligned by blast
  from aligned_split [OF this False] show ?thesis by (metis Suc_leI le_trans)
qed simp

text \<open>The optimum over the columns of the last row is reached and traced back correctly.\<close>

lemma last_row_optimal:
  assumes "ns \<noteq> []" "is_subsequence U ns hs" "length hs \<le> fuzzy_limit"
  defines "bonus \<equiv> bonuses U hs"
  defines "rows \<equiv> dp_rows U hs (bonuses U hs) 0 (replicate (length hs) unreachable) ns"
  shows "\<exists>v j js. best_end (drop (length ns - 1) (fst (last rows))) (length ns - 1) unreachable None = (v, Some j)
     \<and> rev (traceback (rev (map snd rows)) j) = js \<and> aligned U ns hs js \<and> align_score bonus js = v
     \<and> (\<forall>js'. aligned U ns hs js' \<longrightarrow> align_score bonus js' \<le> v)"
proof -
  define dp where "dp = fst (last rows)"
  from dp_rows_ok [OF bonuses_bounded assms(3,1) subsequence_length [OF assms(2)]]
  have ok: "row_ok U hs bonus ns dp"
    and tb: "\<And>j. j < length hs \<Longrightarrow> dp ! j \<noteq> unreachable \<Longrightarrow>
      \<exists>js. rev (traceback (rev (map snd rows)) j) = js @ [j] \<and> aligned U ns hs (js @ [j])
        \<and> align_score bonus (js @ [j]) = dp ! j"
    by (auto simp: Let_def dp_def rows_def bonus_def)
  have len: "length dp = length hs" using ok by (simp add: row_ok_def)
  have reach: "\<exists>j < length hs. length ns - 1 \<le> j \<and> unreachable < dp ! j \<and> align_score bonus js \<le> dp ! j"
    if "aligned U ns hs js" for js
  proof -
    from aligned_split [OF that assms(1)] obtain js' j where
      js: "js = js' @ [j]" "j < length hs" "length ns \<le> Suc j" by blast
    with ok that have "align_score bonus js \<le> dp ! j" unfolding row_ok_def by blast
    moreover have "- int j \<le> align_score bonus js"
      using align_score_bounds [OF bonuses_bounded that [unfolded js(1)], of U] js by (simp add: bonus_def)
    ultimately show ?thesis using js assms(3)
      by (intro exI [of _ j]) (auto simp: unreachable_def fuzzy_limit_def)
  qed
  obtain v w where be: "best_end (drop (length ns - 1) dp) (length ns - 1) unreachable None = (v, w)"
    by fastforce
  have in_drop: "dp ! j \<in> set (drop (length ns - 1) dp)" if "j < length hs" "length ns - 1 \<le> j" for j
    using that len by (auto simp: in_set_conv_nth intro!: exI [of _ "j - (length ns - 1)"])
  from assms(2) obtain js0 where "aligned U ns hs js0" using is_subsequence_aligned by blast
  from reach [OF this] obtain j0 where j0: "j0 < length hs" "length ns - 1 \<le> j0" "unreachable < dp ! j0" by blast
  from best_end_spec [OF be] in_drop [OF j0(1,2)] j0(3) obtain i where
    i: "i < length (drop (length ns - 1) dp)" "w = Some (length ns - 1 + i)"
      "v = drop (length ns - 1) dp ! i" "unreachable < v"
    and max: "\<forall>s \<in> set (drop (length ns - 1) dp). s \<le> v"
    by (auto simp: not_less)
  define j where "j = length ns - 1 + i"
  have j: "j < length hs" "v = dp ! j" "dp ! j \<noteq> unreachable"
    using i len by (auto simp: j_def nth_drop)
  from tb [OF j(1,3)] obtain js where
    js: "rev (traceback (rev (map snd rows)) j) = js @ [j]" "aligned U ns hs (js @ [j])"
      "align_score bonus (js @ [j]) = v" using j(2) by auto
  have "align_score bonus js' \<le> v" if "aligned U ns hs js'" for js'
    using reach [OF that] in_drop max by fastforce
  with be js i(2) show ?thesis by (auto simp: dp_def j_def)
qed

text \<open>The score of a match, below the limit.\<close>

lemma fuzzy_match_cases:
  assumes "u_chars U needle \<noteq> []" "length (u_chars U haystack) \<le> fuzzy_limit"
  shows "(fuzzy_match U needle haystack = None \<and> (\<nexists>js. aligned U (u_chars U needle) (u_chars U haystack) js))
    \<or> (\<exists>m. fuzzy_match U needle haystack = Some m
        \<and> aligned U (u_chars U needle) (u_chars U haystack) (fm_indices m)
        \<and> align_score (bonuses U (u_chars U haystack)) (fm_indices m) = fm_score m
        \<and> (\<forall>js. aligned U (u_chars U needle) (u_chars U haystack) js \<longrightarrow>
             align_score (bonuses U (u_chars U haystack)) js \<le> fm_score m))"
proof (cases "is_subsequence U (u_chars U needle) (u_chars U haystack)")
  case False
  with assms show ?thesis by (auto simp: fuzzy_match_def Let_def dest: aligned_is_subsequence)
next
  case True
  from last_row_optimal [OF assms(1) True assms(2)] show ?thesis
    using assms True by (auto simp: fuzzy_match_def Let_def map_to_u32_aligned)
qed

text \<open>C19: \<open>fuzzy_match\<close> is the optimal aligner: it answers None exactly when the needle is no
  subsequence of the haystack, and otherwise its indices are an alignment with the reported
  score, and no alignment of the needle scores more.\<close>

theorem fuzzy_match_optimal:
  assumes "u_chars U needle \<noteq> []" "length (u_chars U haystack) \<le> fuzzy_limit"
  shows "case fuzzy_match U needle haystack of
      None \<Rightarrow> \<not> (\<exists>js. aligned U (u_chars U needle) (u_chars U haystack) js)
    | Some m \<Rightarrow> aligned U (u_chars U needle) (u_chars U haystack) (fm_indices m)
        \<and> align_score (bonuses U (u_chars U haystack)) (fm_indices m) = fm_score m
        \<and> (\<forall>js. aligned U (u_chars U needle) (u_chars U haystack) js \<longrightarrow>
             align_score (bonuses U (u_chars U haystack)) js \<le> fm_score m)"
  using fuzzy_match_cases [OF assms] by (elim disjE exE conjE) simp_all

definition ascii_upper :: "uchar \<Rightarrow> bool" where "ascii_upper c = (65 \<le> c \<and> c \<le> 90)"
definition ascii_lower :: "uchar \<Rightarrow> bool" where "ascii_lower c = (97 \<le> c \<and> c \<le> 122)"

text \<open>The ASCII part of the tables, for the witnesses.\<close>

definition ascii_to_lower :: "uchar \<Rightarrow> uchar" where
  "ascii_to_lower c = (if ascii_upper c then c + 32 else c)"

fun split_spaces :: "string \<Rightarrow> string \<Rightarrow> string list" where
  "split_spaces w [] = (if w = [] then [] else [rev w])"
| "split_spaces w (c # cs) =
     (if c = CHR '' '' then (if w = [] then split_spaces [] cs else rev w # split_spaces [] cs)
      else split_spaces (c # w) cs)"

definition ascii :: unicode where
  "ascii = \<lparr>u_upper = ascii_upper, u_lower = ascii_lower,
     u_alnum = (\<lambda>c. ascii_upper c \<or> ascii_lower c \<or> (48 \<le> c \<and> c \<le> 57)),
     u_to_lower = (\<lambda>c. [ascii_to_lower c]),
     u_chars = map of_char,
     u_str_lower = map (\<lambda>c. char_of (ascii_to_lower (of_char c))),
     u_words = split_spaces []\<rparr>"

theorem fuzzy_match_optimal_witness:
  "case fuzzy_match ascii ''gh'' ''gitHub'' of
      None \<Rightarrow> \<not> (\<exists>js. aligned ascii (u_chars ascii ''gh'') (u_chars ascii ''gitHub'') js)
    | Some m \<Rightarrow> aligned ascii (u_chars ascii ''gh'') (u_chars ascii ''gitHub'') (fm_indices m)
        \<and> align_score (bonuses ascii (u_chars ascii ''gitHub'')) (fm_indices m) = fm_score m
        \<and> (\<forall>js. aligned ascii (u_chars ascii ''gh'') (u_chars ascii ''gitHub'') js \<longrightarrow>
             align_score (bonuses ascii (u_chars ascii ''gitHub'')) js \<le> fm_score m)"
  by (rule fuzzy_match_optimal) (simp_all add: ascii_def fuzzy_limit_def)

text \<open>The score of a match of \<open>m\<close> characters in a haystack of \<open>n\<close> lies between
  \<open>- n\<close> and \<open>36 m\<close>, so no \<open>i32\<close> operation of the dynamic program overflows and no reached
  score is mistaken for the sentinel.\<close>

theorem fuzzy_match_score_bounds:
  assumes "u_chars U needle \<noteq> []" "length (u_chars U haystack) \<le> fuzzy_limit"
    and "fuzzy_match U needle haystack = Some m"
  shows "- int (length (u_chars U haystack)) \<le> fm_score m
    \<and> fm_score m \<le> 36 * int (length (u_chars U needle)) \<and> unreachable < fm_score m"
proof -
  let ?ns = "u_chars U needle" and ?hs = "u_chars U haystack"
  from fuzzy_match_cases [OF assms(1,2)] assms(3)
  have al: "aligned U ?ns ?hs (fm_indices m)" and sc: "align_score (bonuses U ?hs) (fm_indices m) = fm_score m"
    by auto
  from aligned_split [OF al assms(1)] obtain js j where js: "fm_indices m = js @ [j]" "j < length ?hs" by blast
  from align_score_bounds [OF bonuses_bounded al [unfolded js(1)], of U] sc js(1)
  have "- int j \<le> fm_score m \<and> fm_score m \<le> 36 * int (length ?ns)" by simp
  with js(2) assms(2) show ?thesis by (simp add: unreachable_def fuzzy_limit_def)
qed

lemma gh_github: "\<exists>m. fuzzy_match ascii ''gh'' ''gitHub'' = Some m"
proof -
  have "is_subsequence ascii (u_chars ascii ''gh'') (u_chars ascii ''gitHub'')"
    by (simp add: ascii_def char_matches_def ascii_upper_def ascii_to_lower_def)
  then obtain js where js: "aligned ascii (u_chars ascii ''gh'') (u_chars ascii ''gitHub'') js"
    using is_subsequence_aligned by blast
  have "u_chars ascii ''gh'' \<noteq> []" "length (u_chars ascii ''gitHub'') \<le> fuzzy_limit"
    by (simp_all add: ascii_def fuzzy_limit_def)
  from fuzzy_match_cases [OF this] js show ?thesis by blast
qed

theorem fuzzy_match_score_bounds_witness:
  "\<exists>m. fuzzy_match ascii ''gh'' ''gitHub'' = Some m \<and> - 6 \<le> fm_score m \<and> fm_score m \<le> 72"
proof -
  obtain m where m: "fuzzy_match ascii ''gh'' ''gitHub'' = Some m" using gh_github by blast
  from fuzzy_match_score_bounds [OF _ _ m] m show ?thesis
    by (simp add: ascii_def fuzzy_limit_def)
qed

end
