(* ===== verification/Search.thy ===== *)
theory Search
  imports VaultOps FuzzyMatch "HOL-Library.List_Lexorder" "HOL-Library.Char_ord" "HOL-Library.Product_Lexorder" "HOL-Library.Sublist"
begin

text \<open>
  Entry search (\<open>falach-core/src/entry/search.rs\<close>): the substring and wildcard matchers, field weights, fuzzy
  scoring over the matcher of \<open>FuzzyMatch\<close>, scopes, the recycle-bin filter, ranking and the browse mode. Case
  folding and splitting come from the \<open>unicode\<close> parameter of \<open>FuzzyMatch\<close>. A search returns \<open>None\<close> when the
  recursion into groups does not return or meets a missing group.
\<close>

section \<open>Options and results\<close>

datatype search_mode = ModeSubstring | ModeWildcard | ModeFuzzy

datatype search_scope = ScopeAll | GroupSubtree uuid | ScopeTag string

record search_options =
  so_query :: string
  so_mode :: search_mode
  so_include_recycled :: bool
  so_scope :: search_scope
  so_boost :: "uuid list"

datatype matched_field = FieldTitle | FieldUsername | FieldUrl | FieldNotes | FieldTags

record search_result =
  sr_uuid :: uuid
  sr_score :: int
  sr_fields :: "matched_field list"
  sr_indices :: "(matched_field \<times> nat list) list"

definition new_search :: "string \<Rightarrow> search_options" where
  "new_search q = \<lparr>so_query = q, so_mode = ModeSubstring, so_include_recycled = False, so_scope = ScopeAll, so_boost = []\<rparr>"

definition with_mode :: "search_mode \<Rightarrow> search_options \<Rightarrow> search_options" where
  "with_mode m so = so\<lparr>so_mode := m\<rparr>"

definition fuzzy_search :: "string \<Rightarrow> search_options" where
  "fuzzy_search q = with_mode ModeFuzzy (new_search q)"

definition wildcard :: "bool \<Rightarrow> search_options \<Rightarrow> search_options" where
  "wildcard on so = so\<lparr>so_mode := if on then ModeWildcard else ModeSubstring\<rparr>"

definition rank :: "matched_field \<Rightarrow> int" where
  "rank f = (case f of FieldTitle \<Rightarrow> 8 | FieldUsername \<Rightarrow> 4 | FieldUrl \<Rightarrow> 2 | FieldNotes \<Rightarrow> 1 | FieldTags \<Rightarrow> 4)"

section \<open>The wildcard matcher\<close>

definition star :: uchar where "star = 42"
definition qmark :: uchar where "qmark = 63"

text \<open>The state of the loop: both positions and the last star with the position it is tried at.\<close>

function (sequential) wildcard_loop :: "uchar list \<Rightarrow> uchar list \<Rightarrow> nat \<Rightarrow> nat \<Rightarrow> nat option \<Rightarrow> nat \<Rightarrow> bool" where
  "wildcard_loop pat val p v star_p star_v =
     (if v < length val then
        if p < length pat \<and> pat ! p = star then wildcard_loop pat val (Suc p) v (Some p) v
        else if p < length pat \<and> (pat ! p = qmark \<or> pat ! p = val ! v) then wildcard_loop pat val (Suc p) (Suc v) star_p star_v
        else case star_p of
          Some saved \<Rightarrow> wildcard_loop pat val (Suc saved) (Suc star_v) star_p (Suc star_v)
        | None \<Rightarrow> False
      else list_all (\<lambda>c. c = star) (drop p pat))"
  by pat_completeness auto

text \<open>Every step consumes a character, finds a star, or moves the last star's attempt on. (A state the loop cannot
  reach, whose attempt is ahead of its position, becomes a reachable one first.)\<close>

definition off_track :: "nat \<Rightarrow> nat \<Rightarrow> nat option \<Rightarrow> nat \<Rightarrow> bool" where
  "off_track p v star_p star_v = (case star_p of None \<Rightarrow> False | Some sp \<Rightarrow> star_v > v \<or> p \<le> sp)"

termination wildcard_loop
  by (relation "measures
      [\<lambda>(pat, val, p, v, star_p, star_v). if off_track p v star_p star_v then 1 else 0,
       \<lambda>(pat, val, p, v, star_p, star_v). if star_p = None then Suc (length val) else length val - star_v,
       \<lambda>(pat, val, p, v, star_p, star_v). (length pat - p) + (length val - v)]")
    (auto simp: off_track_def split: option.splits)

declare wildcard_loop.simps [simp del]

definition wildcard_match :: "uchar list \<Rightarrow> uchar list \<Rightarrow> bool" where
  "wildcard_match pat val = wildcard_loop pat val 0 0 None 0"

section \<open>Matching and scoring an entry\<close>

datatype matcher = SubstringMatcher string | WildcardMatcher "uchar list"

definition new_matcher :: "unicode \<Rightarrow> string \<Rightarrow> search_mode \<Rightarrow> matcher" where
  "new_matcher U q mode = (case mode of
     ModeWildcard \<Rightarrow> WildcardMatcher (u_chars U (u_str_lower U q))
   | _ \<Rightarrow> SubstringMatcher (u_str_lower U q))"

definition is_match :: "unicode \<Rightarrow> matcher \<Rightarrow> string \<Rightarrow> bool" where
  "is_match U m s = (case m of
     SubstringMatcher needle \<Rightarrow> sublist needle (u_str_lower U s)
   | WildcardMatcher pat \<Rightarrow> wildcard_match pat (u_chars U (u_str_lower U s)))"

definition scored_fields :: "'x entry \<Rightarrow> (string \<times> matched_field) list" where
  "scored_fields e = [(field_or_empty f_title e, FieldTitle), (field_or_empty f_username e, FieldUsername),
     (field_or_empty f_url e, FieldUrl), (field_or_empty f_notes e, FieldNotes), (join '';'' (eb_tags (en_body e)), FieldTags)]"

definition score_field :: "unicode \<Rightarrow> matcher \<Rightarrow> string \<times> matched_field \<Rightarrow> int \<times> matched_field list \<Rightarrow> int \<times> matched_field list" where
  "score_field U m vf acc = (if is_match U m (fst vf) then (fst acc + rank (snd vf), snd acc @ [snd vf]) else acc)"

definition score_entry :: "unicode \<Rightarrow> matcher \<Rightarrow> uuid \<Rightarrow> 'x entry \<Rightarrow> search_result option" where
  "score_entry U m u e = (case fold (score_field U m) (scored_fields e) (0, []) of
     (score, fs) \<Rightarrow> if score > 0 then Some \<lparr>sr_uuid = u, sr_score = score, sr_fields = fs, sr_indices = []\<rparr> else None)"

text \<open>The best field of one term; a later field must be strictly better.\<close>

definition better_field :: "unicode \<Rightarrow> string \<Rightarrow> string \<times> matched_field \<Rightarrow>
    (int \<times> matched_field \<times> nat list) option \<Rightarrow> (int \<times> matched_field \<times> nat list) option" where
  "better_field U term vf best = (case fuzzy_match U term (fst vf) of
     None \<Rightarrow> best
   | Some m \<Rightarrow> (let weighted = sat_i32 (fm_score m * rank (snd vf))
       in case best of
            None \<Rightarrow> Some (weighted, snd vf, fm_indices m)
          | Some (b, _) \<Rightarrow> if weighted > b then Some (weighted, snd vf, fm_indices m) else best))"

definition best_field :: "unicode \<Rightarrow> 'x entry \<Rightarrow> string \<Rightarrow> (int \<times> matched_field \<times> nat list) option" where
  "best_field U e term = fold (better_field U term) (scored_fields e) None"

definition extend_indices :: "matched_field \<Rightarrow> nat list \<Rightarrow> (matched_field \<times> nat list) list \<Rightarrow> (matched_field \<times> nat list) list" where
  "extend_indices f is xs = (if f \<in> fst ` set xs then map (\<lambda>(g, js). (g, if g = f then js @ is else js)) xs else xs @ [(f, is)])"

fun fuzzy_terms :: "unicode \<Rightarrow> 'x entry \<Rightarrow> string list \<Rightarrow> int \<Rightarrow> (matched_field \<times> nat list) list \<Rightarrow>
    (int \<times> (matched_field \<times> nat list) list) option" where
  "fuzzy_terms U e [] tot found = Some (tot, found)"
| "fuzzy_terms U e (t # ts) tot found = (case best_field U e t of
     None \<Rightarrow> None
   | Some (weighted, f, is) \<Rightarrow> fuzzy_terms U e ts (sat_i32 (tot + weighted)) (extend_indices f is found))"

definition score_entry_fuzzy :: "unicode \<Rightarrow> string list \<Rightarrow> uuid \<Rightarrow> 'x entry \<Rightarrow> search_result option" where
  "score_entry_fuzzy U ts u e = map_option (\<lambda>(tot, found).
     let indices = map (\<lambda>(f, is). (f, remdups_adj (sort is))) found
     in \<lparr>sr_uuid = u, sr_score = max tot 0, sr_fields = map fst indices, sr_indices = indices\<rparr>) (fuzzy_terms U e ts 0 [])"

section \<open>Searching\<close>

definition collect_subtree_group_ids :: "'x db \<Rightarrow> uuid \<Rightarrow> uuid list option" where
  "collect_subtree_group_ids db target = (if group_at db target = None then Some [] else subtree db target)"

text \<open>Whether an entry is in scope; its parent group must exist.\<close>

definition in_scope :: "unicode \<Rightarrow> search_scope \<Rightarrow> 'x db \<Rightarrow> ('x entry \<Rightarrow> bool option) option" where
  "in_scope U scope db = (case scope of
     ScopeAll \<Rightarrow> Some (\<lambda>_. Some True)
   | GroupSubtree target \<Rightarrow> map_option (\<lambda>gs e. if group_at db (eb_parent (en_body e)) = None then None
         else Some (eb_parent (en_body e) \<in> set gs)) (collect_subtree_group_ids db target)
   | ScopeTag tag \<Rightarrow> Some (\<lambda>e. Some (list_ex (\<lambda>t. u_str_lower U t = u_str_lower U tag) (eb_tags (en_body e)))))"

text \<open>The entries a search looks at: not in the bin unless asked for, and in scope.\<close>

definition candidates :: "('x entry \<Rightarrow> bool option) \<Rightarrow> bool \<Rightarrow> 'x db \<Rightarrow> (uuid \<times> 'x entry) list option" where
  "candidates scope include_recycled db = map_option concat (option_all (\<lambda>(u, e).
     Option.bind (if include_recycled then Some False else is_entry_in_recycle_bin db u) (\<lambda>binned.
       if binned then Some [] else map_option (\<lambda>ok. if ok then [(u, e)] else []) (scope e))) (db_entries db))"

definition browse_hit :: "uuid \<Rightarrow> search_result" where
  "browse_hit u = \<lparr>sr_uuid = u, sr_score = 0, sr_fields = [], sr_indices = []\<rparr>"

text \<open>The boosted UUIDs that are present, each once, in the order of the boost list.\<close>

fun boosted_first :: "uuid set \<Rightarrow> uuid list \<Rightarrow> uuid list \<Rightarrow> uuid list" where
  "boosted_first present used [] = used"
| "boosted_first present used (u # us) = boosted_first present (if u \<in> present \<and> u \<notin> set used then used @ [u] else used) us"

definition browse_results :: "unicode \<Rightarrow> uuid list \<Rightarrow> (uuid \<times> 'x entry) list \<Rightarrow> search_result list" where
  "browse_results U boost es =
     (let entries = map (\<lambda>(u, e). (u, field_or_empty f_title e)) es;
          used = boosted_first (fst ` set entries) [] boost;
          rest = sort_key (\<lambda>(u, t). (u_str_lower U t, u)) (filter (\<lambda>(u, _). u \<notin> set used) entries)
      in map browse_hit (used @ map fst rest))"

definition result_key :: "uuid list \<Rightarrow> search_result \<Rightarrow> int \<times> bool \<times> uuid" where
  "result_key boost r = (- sr_score r, sr_uuid r \<notin> set boost, sr_uuid r)"

definition search_database :: "unicode \<Rightarrow> search_options \<Rightarrow> 'x db \<Rightarrow> search_result list option" where
  "search_database U so db = Option.bind (in_scope U (so_scope so) db) (\<lambda>scope.
     if so_mode so = ModeFuzzy \<and> u_words U (so_query so) = []
     then map_option (browse_results U (so_boost so)) (candidates scope (so_include_recycled so) db)
     else if so_query so = [] then Some []
     else let score = (case so_mode so of
             ModeFuzzy \<Rightarrow> score_entry_fuzzy U (u_words U (so_query so))
           | m \<Rightarrow> score_entry U (new_matcher U (so_query so) m))
       in map_option (\<lambda>es. sort_key (result_key (so_boost so)) (List.map_filter (\<lambda>(u, e). score u e) es))
            (candidates scope (so_include_recycled so) db))"

section \<open>Reference: what a wildcard pattern means\<close>

fun glob :: "uchar list \<Rightarrow> uchar list \<Rightarrow> bool" where
  "glob [] ws = (ws = [])"
| "glob (c # cs) [] = (c = star \<and> glob cs [])"
| "glob (c # cs) (w # ws) = (if c = star then glob cs (w # ws) \<or> glob (c # cs) ws else (c = qmark \<or> c = w) \<and> glob cs ws)"

lemma glob_Nil: "glob cs [] = list_all (\<lambda>c. c = star) cs"
  by (induction cs) auto

lemma glob_star: "glob (star # cs) ws \<longleftrightarrow> (\<exists>k. glob cs (drop k ws))"
proof (induction ws)
  case (Cons w ws)
  have "(\<exists>k. glob cs (drop k (w # ws))) \<longleftrightarrow> glob cs (w # ws) \<or> (\<exists>k. glob cs (drop k ws))"
    by (metis (no_types, lifting) drop0 drop_Suc_Cons not0_implies_Suc)
  with Cons show ?case by simp
qed simp

lemma glob_star_later: "glob (star # cs) (drop j ws) \<Longrightarrow> i \<le> j \<Longrightarrow> glob (star # cs) (drop i ws)"
  unfolding glob_star by (metis drop_drop le_add_diff_inverse2)

text \<open>A run without stars consumes one character each.\<close>

lemma glob_run:
  "(\<And>i. i < n \<Longrightarrow> cs ! i \<noteq> star) \<Longrightarrow> n \<le> length cs \<Longrightarrow> glob cs ws \<Longrightarrow> n \<le> length ws \<and> glob (drop n cs) (drop n ws)"
proof (induction n arbitrary: cs ws)
  case (Suc n)
  then obtain c cs' where cs: "cs = c # cs'" by (cases cs) auto
  from Suc.prems(1) [of 0] cs have "c \<noteq> star" by simp
  with Suc.prems(3) cs obtain w ws' where ws: "ws = w # ws'" "glob cs' ws'" by (cases ws) auto
  have "\<And>i. i < n \<Longrightarrow> cs' ! i \<noteq> star" using Suc.prems(1) [of "Suc _"] cs by auto
  from Suc.IH [OF this _ ws(2)] Suc.prems(2) cs ws show ?case by simp
qed simp

text \<open>The matches that remain possible from a state of the loop.\<close>

definition remaining :: "uchar list \<Rightarrow> uchar list \<Rightarrow> nat \<Rightarrow> nat \<Rightarrow> nat option \<Rightarrow> nat \<Rightarrow> bool" where
  "remaining pat val p v star_p star_v \<longleftrightarrow> glob (drop p pat) (drop v val)
     \<or> (\<exists>sp k. star_p = Some sp \<and> star_v < k \<and> glob (drop (Suc sp) pat) (drop k val))"

definition on_track :: "uchar list \<Rightarrow> uchar list \<Rightarrow> nat \<Rightarrow> nat \<Rightarrow> nat option \<Rightarrow> nat \<Rightarrow> bool" where
  "on_track pat val p v star_p star_v \<longleftrightarrow> p \<le> length pat \<and> v \<le> length val \<and> (\<forall>sp. star_p = Some sp \<longrightarrow>
     sp < p \<and> star_v \<le> v \<and> p - Suc sp = v - star_v \<and> (\<forall>i. sp < i \<longrightarrow> i < p \<longrightarrow> pat ! i \<noteq> star))"

lemma later_attempt:
  assumes "on_track pat val p v (Some sp) star_v" "glob (drop (Suc sp) pat) (drop k val)" "star_v < k"
  shows "v - star_v \<le> length val - k" "glob (drop p pat) (drop (k + (v - star_v)) val)"
proof -
  let ?n = "v - star_v"
  have t: "sp < p" "p - Suc sp = ?n" "\<And>i. sp < i \<Longrightarrow> i < p \<Longrightarrow> pat ! i \<noteq> star" "p \<le> length pat" "star_v \<le> v"
    using assms(1) by (auto simp: on_track_def)
  have "\<And>i. i < ?n \<Longrightarrow> drop (Suc sp) pat ! i \<noteq> star" using t by simp
  moreover have "?n \<le> length (drop (Suc sp) pat)" using t by simp
  ultimately have "?n \<le> length (drop k val) \<and> glob (drop ?n (drop (Suc sp) pat)) (drop ?n (drop k val))"
    using assms(2) by (rule glob_run)
  moreover have "Suc sp + ?n = p" using t by simp
  ultimately show "?n \<le> length val - k" "glob (drop p pat) (drop (k + ?n) val)" by (simp_all add: add.commute)
qed

lemma first_later: "(\<exists>k>n. P k) \<longleftrightarrow> P (Suc n) \<or> (\<exists>k>Suc n. P k)"
  using Suc_lessI by (metis Suc_lessD lessI)

lemma remaining_starred:
  assumes t: "on_track pat val p v star_p star_v" and p: "p < length pat" "pat ! p = star"
  shows "remaining pat val (Suc p) v (Some p) v = remaining pat val p v star_p star_v"
proof -
  have pat: "drop p pat = star # drop (Suc p) pat" using p by (metis Cons_nth_drop_Suc)
  have here: "glob (drop p pat) (drop v val) \<longleftrightarrow> (\<exists>k. v \<le> k \<and> glob (drop (Suc p) pat) (drop k val))"
    unfolding pat glob_star drop_drop by (metis le_add2 le_add_diff_inverse2)
  have "glob (drop p pat) (drop v val)" if sp: "star_p = Some sp" "star_v < k" "glob (drop (Suc sp) pat) (drop k val)" for sp k
  proof -
    from later_attempt(2) [OF _ sp(3,2)] t sp(1) have "glob (drop p pat) (drop (k + (v - star_v)) val)" by simp
    moreover have "v \<le> k + (v - star_v)" using sp(2) t sp(1) by (auto simp: on_track_def)
    ultimately show ?thesis unfolding pat by (rule glob_star_later)
  qed
  then have "remaining pat val p v star_p star_v = glob (drop p pat) (drop v val)" by (auto simp: remaining_def)
  moreover have "remaining pat val (Suc p) v (Some p) v \<longleftrightarrow> (\<exists>k. v \<le> k \<and> glob (drop (Suc p) pat) (drop k val))"
    by (auto simp: remaining_def le_less)
  ultimately show ?thesis using here by simp
qed

lemma remaining_done:
  assumes t: "on_track pat val p v star_p star_v" and v: "\<not> v < length val"
  shows "remaining pat val p v star_p star_v = glob (drop p pat) []"
proof -
  have "glob (drop p pat) []" if sp: "star_p = Some sp" "star_v < k" "glob (drop (Suc sp) pat) (drop k val)" for sp k
  proof -
    from later_attempt(2) [OF _ sp(3,2)] t sp(1) have "glob (drop p pat) (drop (k + (v - star_v)) val)" by simp
    moreover have "length val \<le> k + (v - star_v)" using v sp(2) by simp
    ultimately show ?thesis by simp
  qed
  with v show ?thesis by (auto simp: remaining_def)
qed

lemma wildcard_loop_correct:
  "on_track pat val p v star_p star_v \<Longrightarrow> wildcard_loop pat val p v star_p star_v = remaining pat val p v star_p star_v"
proof (induction pat val p v star_p star_v rule: wildcard_loop.induct)
  case (1 pat val p v star_p star_v)
  note t = "1.prems"
  note unfold = wildcard_loop.simps [of pat val p v star_p star_v]
  show ?case
  proof (cases "v < length val")
    case False
    with remaining_done [OF t False] show ?thesis by (simp add: unfold glob_Nil)
  next
    case v: True
    then have val: "drop v val = val ! v # drop (Suc v) val" by (simp add: Cons_nth_drop_Suc)
    consider (starred) "p < length pat" "pat ! p = star" | (char) "p < length pat" "pat ! p \<noteq> star" "pat ! p = qmark \<or> pat ! p = val ! v"
      | (stuck) "\<not> (p < length pat \<and> (pat ! p = star \<or> pat ! p = qmark \<or> pat ! p = val ! v))" by blast
    then show ?thesis
    proof cases
      case starred
      have "on_track pat val (Suc p) v (Some p) v" using t starred by (auto simp: on_track_def)
      from "1.IH"(1) [OF v _ this] remaining_starred [OF t starred] starred v show ?thesis by (simp add: unfold)
    next
      case char
      then have pat: "drop p pat = pat ! p # drop (Suc p) pat" by (simp add: Cons_nth_drop_Suc)
      have "on_track pat val (Suc p) (Suc v) star_p star_v" using t char v by (auto simp: on_track_def less_Suc_eq)
      moreover have "remaining pat val (Suc p) (Suc v) star_p star_v = remaining pat val p v star_p star_v"
        using char by (auto simp: remaining_def pat val)
      ultimately show ?thesis using "1.IH"(2) [OF v] char v by (simp add: unfold)
    next
      case stuck
      then have no: "\<not> glob (drop p pat) (drop v val)"
        unfolding val by (cases "p < length pat") (auto simp: Cons_nth_drop_Suc [symmetric])
      show ?thesis
      proof (cases star_p)
        case None
        have "\<not> wildcard_loop pat val p v star_p star_v" unfolding unfold using stuck v None by auto
        with no None show ?thesis by (simp add: remaining_def)
      next
        case (Some sp)
        with t v have "on_track pat val (Suc sp) (Suc star_v) star_p (Suc star_v)" by (auto simp: on_track_def)
        moreover have "remaining pat val (Suc sp) (Suc star_v) star_p (Suc star_v) = remaining pat val p v star_p star_v"
          using no Some first_later [of star_v "\<lambda>k. glob (drop (Suc sp) pat) (drop k val)"] by (simp add: remaining_def)
        ultimately show ?thesis using "1.IH"(3) [OF v _ _ Some] stuck v Some unfolding unfold by auto
      qed
    qed
  qed
qed

lemma wildcard_glob: "wildcard_match pat val = glob pat val"
proof -
  have "on_track pat val 0 0 None 0" by (simp add: on_track_def)
  from wildcard_loop_correct [OF this] show ?thesis by (simp add: wildcard_match_def remaining_def)
qed

section \<open>Properties of a search\<close>

lemma option_all_in: "option_all f xs = Some ys \<Longrightarrow> x \<in> set xs \<Longrightarrow> \<exists>y. f x = Some y \<and> y \<in> set ys"
  by (induction xs arbitrary: ys) (auto simp: bind_eq_Some_conv)

lemma option_all_map: "(\<And>x. x \<in> set xs \<Longrightarrow> f x = Some (g x)) \<Longrightarrow> option_all f xs = Some (map g xs)"
  by (induction xs) auto

text \<open>What a search may return: the entry is not in the bin, unless asked for, and in scope.\<close>

definition searchable :: "unicode \<Rightarrow> search_options \<Rightarrow> 'x db \<Rightarrow> uuid \<Rightarrow> 'x entry \<Rightarrow> bool" where
  "searchable U so db u e \<longleftrightarrow> entry_at db u = Some e
   \<and> (so_include_recycled so \<or> \<not> (\<exists>b. recycle_bin db = Some b \<and> above (group_at db) b (eb_parent (en_body e))))
   \<and> (case so_scope so of
        ScopeAll \<Rightarrow> True
      | GroupSubtree g \<Rightarrow> group_at db g \<noteq> None \<and> above (group_at db) g (eb_parent (en_body e))
      | ScopeTag tag \<Rightarrow> (\<exists>t \<in> set (eb_tags (en_body e)). u_str_lower U t = u_str_lower U tag))"

lemma scope_ok:
  assumes ok: "db_ok db"
  shows "\<exists>scope. in_scope U s db = Some scope \<and> (\<forall>u e. entry_at db u = Some e \<longrightarrow> scope e = Some (case s of
        ScopeAll \<Rightarrow> True
      | GroupSubtree g \<Rightarrow> group_at db g \<noteq> None \<and> above (group_at db) g (eb_parent (en_body e))
      | ScopeTag tag \<Rightarrow> (\<exists>t \<in> set (eb_tags (en_body e)). u_str_lower U t = u_str_lower U tag)))"
proof -
  note t = ok [unfolded db_ok_def, THEN conjunct2, THEN conjunct2]
  have parent: "(group_at db (eb_parent (en_body e)) = None) = False" if "entry_at db u = Some e" for u e
    using tree_okD(4) [OF t that] by (auto simp: entry_ok_def)
  show ?thesis
  proof (cases s)
    case (GroupSubtree g)
    show ?thesis
    proof (cases "group_at db g")
      case None
      with GroupSubtree show ?thesis by (simp add: in_scope_def collect_subtree_group_ids_def) (blast dest: parent)
    next
      case (Some gr)
      then obtain gs where "subtree db g = Some gs" "set gs = below db g" using subtree_below [OF ok, of g] by auto
      with GroupSubtree Some show ?thesis by (simp add: in_scope_def collect_subtree_group_ids_def below_def) (blast dest: parent)
    qed
  qed (auto simp: in_scope_def list_ex_iff)
qed

lemma candidates_ok:
  assumes ok: "db_ok db"
  shows "\<exists>scope es. in_scope U (so_scope so) db = Some scope \<and> candidates scope (so_include_recycled so) db = Some es
    \<and> es = filter (\<lambda>(u, e). searchable U so db u e) (db_entries db)"
proof -
  obtain scope where scope: "in_scope U (so_scope so) db = Some scope" and
    val: "\<And>u e. entry_at db u = Some e \<Longrightarrow> scope e = Some (case so_scope so of
        ScopeAll \<Rightarrow> True
      | GroupSubtree g \<Rightarrow> group_at db g \<noteq> None \<and> above (group_at db) g (eb_parent (en_body e))
      | ScopeTag tag \<Rightarrow> (\<exists>t \<in> set (eb_tags (en_body e)). u_str_lower U t = u_str_lower U tag))"
    using scope_ok [OF ok, of U "so_scope so"] by blast
  let ?f = "\<lambda>(u, e). Option.bind (if so_include_recycled so then Some False else is_entry_in_recycle_bin db u) (\<lambda>binned.
       if binned then Some [] else map_option (\<lambda>ok. if ok then [(u, e)] else []) (scope e))"
  have "?f x = Some (case x of (u, e) \<Rightarrow> if searchable U so db u e then [(u, e)] else [])" if x: "x \<in> set (db_entries db)" for x
  proof (cases x)
    case (Pair u e)
    have e: "entry_at db u = Some e" using x Pair ok by (simp add: db_ok_def hwf_hget_iff)
    show ?thesis
      unfolding Pair prod.case bin_query [OF ok] val [OF e] by (auto simp: searchable_def e)
  qed
  then have "option_all ?f (db_entries db) = Some (map (\<lambda>x. case x of (u, e) \<Rightarrow> if searchable U so db u e then [(u, e)] else []) (db_entries db))"
    by (rule option_all_map)
  moreover have "concat (map (\<lambda>x. case x of (u, e) \<Rightarrow> if searchable U so db u e then [(u, e)] else []) xs) =
      filter (\<lambda>(u, e). searchable U so db u e) xs" for xs
    by (induction xs) auto
  ultimately show ?thesis using scope by (simp add: candidates_def)
qed

lemma score_fold: "fold (score_field U m) vfs (s, fs) =
    (s + sum_list (map (rank \<circ> snd) (filter (is_match U m \<circ> fst) vfs)), fs @ map snd (filter (is_match U m \<circ> fst) vfs))"
  by (induction vfs arbitrary: s fs) (auto simp: score_field_def)

lemma rank_pos: "rank f > 0"
  by (cases f) (simp_all add: rank_def)

lemma rank_sum: "0 \<le> sum_list (map (rank \<circ> snd) vfs) \<and> (0 < sum_list (map (rank \<circ> snd) vfs) \<longleftrightarrow> vfs \<noteq> [])"
  by (induction vfs) (auto simp: rank_pos add_pos_nonneg less_imp_le)

text \<open>The fields of an entry that match.\<close>

definition matching_fields :: "unicode \<Rightarrow> search_options \<Rightarrow> 'x entry \<Rightarrow> matched_field list" where
  "matching_fields U so e = map snd (filter (is_match U (new_matcher U (so_query so) (so_mode so)) \<circ> fst) (scored_fields e))"

lemma score_entry_iff:
  "score_entry U (new_matcher U (so_query so) (so_mode so)) u e = (if matching_fields U so e = [] then None
     else Some \<lparr>sr_uuid = u, sr_score = sum_list (map rank (matching_fields U so e)), sr_fields = matching_fields U so e, sr_indices = []\<rparr>)"
  using rank_sum [of "filter (is_match U (new_matcher U (so_query so) (so_mode so)) \<circ> fst) (scored_fields e)"]
  by (auto simp: score_entry_def score_fold matching_fields_def)

lemma map_filter_uuids:
  assumes "distinct (map fst es)" "\<And>u e r. f u e = Some r \<Longrightarrow> sr_uuid r = u"
  shows "distinct (map sr_uuid (List.map_filter (\<lambda>(u, e). f u e) es))
    \<and> set (map sr_uuid (List.map_filter (\<lambda>(u, e). f u e) es)) \<subseteq> fst ` set es"
  using assms(1)
proof (induction es)
  case (Cons x es)
  then show ?case by (cases x; cases "f (fst x) (snd x)") (auto simp: List.map_filter_simps dest: assms(2))
qed (simp add: List.map_filter_simps)

lemma if_some: "(if c then None else Some x) = Some r \<longleftrightarrow> \<not> c \<and> r = x"
  by auto

lemma map_filter_mem: "r \<in> set (List.map_filter (\<lambda>(u, e). f u e) es) \<longleftrightarrow> (\<exists>u e. (u, e) \<in> set es \<and> f u e = Some r)"
proof (induction es)
  case (Cons x es)
  then show ?case by (cases x; cases "f (fst x) (snd x)") (auto simp: List.map_filter_simps)
qed (simp add: List.map_filter_simps)

text \<open>C16: The wildcard matcher - two positions and a return to the last star - always ends and decides exactly the
  meaning of the pattern: a star stands for any sequence of characters, a question mark for one, everything else for
  itself, over the whole value.\<close>

theorem wildcard_match_is_glob: "wildcard_match pat val = glob pat val"
  by (rule wildcard_glob)

text \<open>C15: On a well-formed vault a substring or wildcard search returns, and its results are exactly the entries that
  are in scope, outside the recycle bin unless asked for, and match in some field - each once, with the fields that
  match and the sum of their weights, in descending order of the score, boosted entries first among equals, then by
  UUID.\<close>

theorem search_exact:
  assumes ok: "db_ok db" and mode: "so_mode so \<noteq> ModeFuzzy" "so_query so \<noteq> []"
  shows "\<exists>rs. search_database U so db = Some rs
    \<and> sorted (map (result_key (so_boost so)) rs) \<and> distinct (map sr_uuid rs)
    \<and> (\<forall>r. r \<in> set rs \<longleftrightarrow> (\<exists>e. searchable U so db (sr_uuid r) e \<and> matching_fields U so e \<noteq> []
        \<and> r = \<lparr>sr_uuid = sr_uuid r, sr_score = sum_list (map rank (matching_fields U so e)),
               sr_fields = matching_fields U so e, sr_indices = []\<rparr>))"
proof -
  let ?score = "score_entry U (new_matcher U (so_query so) (so_mode so)) :: uuid \<Rightarrow> 'a entry \<Rightarrow> search_result option"
  obtain scope es where es: "in_scope U (so_scope so) db = Some scope" "candidates scope (so_include_recycled so) db = Some es"
    "es = filter (\<lambda>(u, e). searchable U so db u e) (db_entries db)" using candidates_ok [OF ok] by blast
  let ?hits = "List.map_filter (\<lambda>(u, e). ?score u e) es"
  have "(case so_mode so of ModeFuzzy \<Rightarrow> score_entry_fuzzy U (u_words U (so_query so)) | m \<Rightarrow> score_entry U (new_matcher U (so_query so) m)) = ?score"
    using mode(1) by (cases "so_mode so") auto
  then have run: "search_database U so db = Some (sort_key (result_key (so_boost so)) ?hits)"
    using es(1,2) mode by (simp add: search_database_def Let_def)
  have wf: "distinct (map fst (db_entries db))" using ok by (simp add: db_ok_def hwf_def)
  then have "distinct (map fst es)" unfolding es(3) by (simp add: distinct_map_filter)
  moreover have uid: "sr_uuid r = u" if "?score u e = Some r" for u and e :: "'a entry" and r
    using that unfolding score_entry_iff if_some by (elim conjE) simp
  ultimately have dist: "distinct (map sr_uuid ?hits)" using map_filter_uuids [of es ?score] by blast
  have mem: "(u, e) \<in> set es \<longleftrightarrow> searchable U so db u e" for u e
    using wf unfolding es(3) searchable_def by (auto simp: hwf_def)
  have "r \<in> set ?hits \<longleftrightarrow> (\<exists>e. searchable U so db (sr_uuid r) e \<and> matching_fields U so e \<noteq> []
        \<and> r = \<lparr>sr_uuid = sr_uuid r, sr_score = sum_list (map rank (matching_fields U so e)),
               sr_fields = matching_fields U so e, sr_indices = []\<rparr>)" for r
  proof -
    have "r \<in> set ?hits \<longleftrightarrow> (\<exists>u e. (u, e) \<in> set es \<and> ?score u e = Some r)"
      by (rule map_filter_mem)
    also have "\<dots> \<longleftrightarrow> (\<exists>e. searchable U so db (sr_uuid r) e \<and> ?score (sr_uuid r) e = Some r)"
      unfolding mem by (blast dest: uid)
    finally show ?thesis unfolding score_entry_iff if_some .
  qed
  moreover have "distinct (map sr_uuid (sort_key (result_key (so_boost so)) ?hits))"
    by (rule mset_eq_imp_distinct_iff [THEN iffD2, OF _ dist]) simp
  ultimately show ?thesis using run by simp
qed

text \<open>A vault whose one entry is under a group below the root.\<close>

definition mail_entry :: "unit entry" where
  "mail_entry = Entry \<lparr>eb_id = 7, eb_parent = 1, eb_fields = [(''Title'', Unprotected ''Mail'')], eb_tags = [''work''],
     eb_times = new_times 0, eb_attachments = [], eb_other = ()\<rparr> None"

definition mail_vault :: "unit db" where
  "mail_vault = \<lparr>db_meta = db_meta (new_db 1 0 ()), db_root = 1, db_attachments = [], db_entries = [(7, mail_entry)],
     db_groups = [(1, \<lparr>gr_id = 1, gr_parent = None, gr_name = [], gr_groups = [], gr_entries = [7], gr_times = new_times 0,
       gr_last_visible = None, gr_other = ()\<rparr>)], db_deleted = []\<rparr>"

lemma mail_vault_ok: "db_ok mail_vault"
  by (auto simp: db_ok_def mail_vault_def mail_entry_def hwf_def tree_ok_def group_ok_def entry_ok_def intro: rooted.root)

lemma search_exact_witness:
  "\<exists>rs r. search_database ascii (wildcard True (new_search ''m*l'')) mail_vault = Some rs \<and> r \<in> set rs
     \<and> sr_uuid r = 7 \<and> sr_score r = 8"
proof -
  let ?so = "wildcard True (new_search ''m*l'')"
  let ?r = "\<lparr>sr_uuid = 7, sr_score = 8, sr_fields = [FieldTitle], sr_indices = []\<rparr>"
  have so: "so_mode ?so \<noteq> ModeFuzzy" "so_query ?so \<noteq> []" by (simp_all add: wildcard_def new_search_def)
  have fields: "matching_fields ascii ?so mail_entry = [FieldTitle]"
    by (simp add: matching_fields_def wildcard_def new_search_def new_matcher_def is_match_def scored_fields_def field_or_empty_def
        en_get_def mail_entry_def f_title_def f_username_def f_url_def f_notes_def ascii_def ascii_to_lower_def ascii_upper_def
        wildcard_glob star_def qmark_def join.simps)
  have "searchable ascii ?so mail_vault 7 mail_entry"
    by (simp add: searchable_def mail_vault_def recycle_bin_def new_db_def wildcard_def new_search_def)
  then have hit: "\<exists>e. searchable ascii ?so mail_vault (sr_uuid ?r) e \<and> matching_fields ascii ?so e \<noteq> []
      \<and> ?r = \<lparr>sr_uuid = sr_uuid ?r, sr_score = sum_list (map rank (matching_fields ascii ?so e)),
               sr_fields = matching_fields ascii ?so e, sr_indices = []\<rparr>"
    by (intro exI [of _ mail_entry]) (simp add: fields rank_def)
  obtain rs where "search_database ascii ?so mail_vault = Some rs" "?r \<in> set rs"
    using search_exact [OF mail_vault_ok so, of ascii] hit by blast
  then show ?thesis by (intro exI [of _ rs] exI [of _ ?r]) simp
qed

end
