(* ===== verification/Base32.thy ===== *)
theory Base32
  imports Strings
begin

text \<open>
  The vendored base32 codec (\<open>vendor/base32/src/lib.rs\<close>) with the RFC 4648 alphabet, the one
  that the TOTP code uses: encoding by chunks of five bytes into eight characters, decoding
  through the inverse table, and the proof that decoding inverts encoding.
\<close>

unbundle bit_operations_syntax

section \<open>Tables\<close>

definition RFC4648 :: string where
  "RFC4648 = ''ABCDEFGHIJKLMNOPQRSTUVWXYZ234567''"

definition RFC4648_INV :: "int list" where
  "RFC4648_INV = [
    -1, -1, 26, 27, 28, 29, 30, 31, -1, -1, -1, -1, -1, -1, -1, -1, -1,  0,  1,  2,
     3,  4,  5,  6,  7,  8,  9, 10, 11, 12, 13, 14, 15, 16, 17, 18, 19, 20, 21, 22,
    23, 24, 25, -1, -1, -1, -1, -1, -1, -1, -1, -1, -1, -1, -1, -1, -1, -1, -1, -1,
    -1, -1, -1, -1, -1, -1, -1, -1, -1, -1, -1, -1, -1, -1, -1]"

definition RFC4648_INV_PAD :: "int list" where
  "RFC4648_INV_PAD = [
    -1, -1, 26, 27, 28, 29, 30, 31, -1, -1, -1, -1, -1,  0, -1, -1, -1,  0,  1,  2,
     3,  4,  5,  6,  7,  8,  9, 10, 11, 12, 13, 14, 15, 16, 17, 18, 19, 20, 21, 22,
    23, 24, 25, -1, -1, -1, -1, -1, -1, -1, -1, -1, -1, -1, -1, -1, -1, -1, -1, -1,
    -1, -1, -1, -1, -1, -1, -1, -1, -1, -1, -1, -1, -1, -1, -1]"

section \<open>Encoding\<close>

text \<open>\<open>slice::chunks\<close>; the size is never 0 here.\<close>

fun chunks :: "nat \<Rightarrow> 'a list \<Rightarrow> 'a list list" where
  "chunks n [] = []"
| "chunks n (x # xs) = take (Suc (n - 1)) (x # xs) # chunks n (drop (n - 1) xs)"

text \<open>A chunk copied into a zeroed buffer.\<close>

definition buffer :: "nat \<Rightarrow> bytes \<Rightarrow> bytes" where
  "buffer n xs = xs @ replicate (n - length xs) 0"

definition alphabet_char :: "8 word \<Rightarrow> char" where
  "alphabet_char w = RFC4648 ! unat w"

definition encode_group :: "bytes \<Rightarrow> bytes" where
  "encode_group buf =
     [drop_bit 3 (buf ! 0 AND 0xF8),
      push_bit 2 (buf ! 0 AND 0x07) OR drop_bit 6 (buf ! 1 AND 0xC0),
      drop_bit 1 (buf ! 1 AND 0x3E),
      push_bit 4 (buf ! 1 AND 0x01) OR drop_bit 4 (buf ! 2 AND 0xF0),
      push_bit 1 (buf ! 2 AND 0x0F) OR drop_bit 7 (buf ! 3),
      drop_bit 2 (buf ! 3 AND 0x7C),
      push_bit 3 (buf ! 3 AND 0x03) OR drop_bit 5 (buf ! 4 AND 0xE0),
      buf ! 4 AND 0x1F]"

definition base32_encode :: "bool \<Rightarrow> bytes \<Rightarrow> string" where
  "base32_encode padding data =
     (let ret = concat (map (\<lambda>chunk. map alphabet_char (encode_group (buffer 5 chunk))) (chunks 5 data))
      in if length data mod 5 = 0 then ret
         else let num_extra = 8 - (length data mod 5 * 8 + 4) div 5;
                  kept = take (length ret - num_extra) ret
              in if padding then kept @ replicate num_extra CHR ''='' else kept)"

section \<open>Decoding\<close>

definition inverse_value :: "int list \<Rightarrow> char \<Rightarrow> (8 word) option" where
  "inverse_value table c =
     (let i = unat (of_nat (of_char c) - 48 :: 8 word)
      in if i < length table \<and> table ! i \<noteq> -1 then Some (word_of_int (table ! i)) else None)"

definition decode_group :: "bytes \<Rightarrow> bytes" where
  "decode_group buf =
     [push_bit 3 (buf ! 0) OR drop_bit 2 (buf ! 1),
      push_bit 6 (buf ! 1) OR push_bit 1 (buf ! 2) OR drop_bit 4 (buf ! 3),
      push_bit 4 (buf ! 3) OR drop_bit 1 (buf ! 4),
      push_bit 7 (buf ! 4) OR push_bit 2 (buf ! 5) OR drop_bit 3 (buf ! 6),
      push_bit 5 (buf ! 6) OR buf ! 7]"

fun all_values :: "int list \<Rightarrow> string \<Rightarrow> bytes option" where
  "all_values table [] = Some []"
| "all_values table (c # cs) = (case inverse_value table c of
     None \<Rightarrow> None
   | Some w \<Rightarrow> map_option (Cons w) (all_values table cs))"

fun decode_chunks :: "int list \<Rightarrow> string list \<Rightarrow> bytes option" where
  "decode_chunks table [] = Some []"
| "decode_chunks table (chunk # rest) = (case all_values table chunk of
     None \<Rightarrow> None
   | Some buf \<Rightarrow> map_option ((@) (decode_group (buffer 8 buf))) (decode_chunks table rest))"

definition unpadded_length :: "string \<Rightarrow> nat" where
  "unpadded_length data =
     length data - length (takeWhile (\<lambda>c. c = CHR ''='') (take (min 6 (length data)) (rev data)))"

definition is_ascii :: "string \<Rightarrow> bool" where
  "is_ascii s = list_all (\<lambda>c. of_char c < (128 :: nat)) s"

definition base32_decode :: "bool \<Rightarrow> string \<Rightarrow> bytes option" where
  "base32_decode padding data =
     (if \<not> is_ascii data then None
      else map_option (take (unpadded_length data * 5 div 8))
        (decode_chunks (if padding then RFC4648_INV_PAD else RFC4648_INV) (chunks 8 data)))"

section \<open>A group of five bytes\<close>

lemma byte_eqI:
  assumes "\<And>n. n \<in> {0, 1, 2, 3, 4, 5, 6, 7} \<Longrightarrow> bit v n = bit (w :: 8 word) n"
  shows "v = w"
proof (rule bit_word_eqI)
  fix n
  assume "n < LENGTH(8)"
  then have "n \<in> {0, 1, 2, 3, 4, 5, 6, 7}" by (simp, arith)
  then show "bit v n = bit w n" by (rule assms)
qed

lemma bit_high: "8 \<le> n \<Longrightarrow> \<not> bit (w :: 8 word) n"
  using bit_imp_le_length [of w n] by auto

lemma nth_8:
  "[a, b, c, d, e, f, g, h] ! 0 = a" "[a, b, c, d, e, f, g, h] ! 1 = b" "[a, b, c, d, e, f, g, h] ! 2 = c"
  "[a, b, c, d, e, f, g, h] ! 3 = d" "[a, b, c, d, e, f, g, h] ! 4 = e" "[a, b, c, d, e, f, g, h] ! 5 = f"
  "[a, b, c, d, e, f, g, h] ! 6 = g" "[a, b, c, d, e, f, g, h] ! 7 = h"
  by simp_all

lemma nth_5:
  "[a, b, c, d, e] ! 0 = a" "[a, b, c, d, e] ! 1 = b" "[a, b, c, d, e] ! 2 = c"
  "[a, b, c, d, e] ! 3 = d" "[a, b, c, d, e] ! 4 = e"
  by simp_all

lemmas group_bits = nth_8 nth_5 bit_or_iff bit_and_iff bit_push_bit_iff bit_drop_bit_eq comp_def

lemma decode_encode_group: "decode_group (encode_group [a, b, c, d, e]) = [a, b, c, d, e]"
  unfolding decode_group_def encode_group_def
  by (simp only: list.inject simp_thms, intro conjI; rule byte_eqI; simp only: group_bits;
      elim insertE emptyE; simp add: bit_high eval_nat_numeral)

lemma encode_group_masked: "list_all (\<lambda>w. w AND mask 5 = w) (encode_group buf)"
  unfolding encode_group_def
  by (simp only: list.pred_inject simp_thms, intro conjI; rule byte_eqI; simp only: group_bits;
      elim insertE emptyE; simp add: bit_high bit_mask_iff)

lemma encode_group_small: "w \<in> set (encode_group buf) \<Longrightarrow> unat w < 32"
proof -
  assume "w \<in> set (encode_group buf)"
  with encode_group_masked [of buf] have "w = take_bit 5 w" by (simp add: list_all_iff take_bit_eq_mask)
  then have "unat w = take_bit 5 (unat w)" by (metis unsigned_take_bit_eq)
  then show ?thesis using take_bit_nat_less_exp [of 5 "unat w"] by simp
qed

lemma alphabet_inverse_table:
  "list_all (\<lambda>n. inverse_value RFC4648_INV (RFC4648 ! n) = Some (of_nat n)
     \<and> of_char (RFC4648 ! n) < (128 :: nat) \<and> RFC4648 ! n \<noteq> CHR ''='') [0..<32]"
  by (simp add: upt_rec inverse_value_def RFC4648_def RFC4648_INV_def)

lemma alphabet_inverse:
  assumes "unat w < 32"
  shows "inverse_value RFC4648_INV (alphabet_char w) = Some w"
    and "of_char (alphabet_char w) < (128 :: nat)" and "alphabet_char w \<noteq> CHR ''=''"
  using alphabet_inverse_table assms by (auto simp: list_all_iff alphabet_char_def)

section \<open>Chunks\<close>

lemma chunks_step: "0 < n \<Longrightarrow> xs \<noteq> [] \<Longrightarrow> chunks n xs = take n xs # chunks n (drop n xs)"
  by (cases xs; cases n) auto

lemma chunks_append: "length xs = n \<Longrightarrow> 0 < n \<Longrightarrow> chunks n (xs @ ys) = xs # chunks n ys"
  by (subst chunks_step) auto

lemma chunks_single: "xs \<noteq> [] \<Longrightarrow> length xs \<le> n \<Longrightarrow> chunks n xs = [xs]"
  using chunks_step [of n xs] by (cases xs) auto

text \<open>Induction over the chunks of five bytes.\<close>

lemma five_induct [case_names Nil Short Group]:
  assumes "P []"
    and "\<And>xs. 0 < length xs \<Longrightarrow> length xs < 5 \<Longrightarrow> P xs"
    and "\<And>a b c d e xs. P xs \<Longrightarrow> P (a # b # c # d # e # xs)"
  shows "P xs"
proof (induction xs rule: length_induct)
  case (1 xs)
  show ?case
  proof (cases "length xs < 5")
    case True
    then show ?thesis using assms(1,2) by (cases xs) auto
  next
    case False
    then obtain a b c d e ys where "xs = a # b # c # d # e # ys"
      by (auto simp: not_less numeral_eq_Suc Suc_le_length_iff)
    with 1 assms(3) show ?thesis by simp
  qed
qed

section \<open>Decoding inverts encoding\<close>

text \<open>The characters of the data without padding.\<close>

definition raw_encode :: "bytes \<Rightarrow> string" where
  "raw_encode data = take ((length data * 8 + 4) div 5)
     (concat (map (\<lambda>chunk. map alphabet_char (encode_group (buffer 5 chunk))) (chunks 5 data)))"

lemma length_encode_group [simp]: "length (encode_group buf) = 8"
  by (simp add: encode_group_def)

lemma encode_group_list: "\<exists>a b c d e f g h. encode_group buf = [a, b, c, d, e, f, g, h]"
  by (simp add: encode_group_def)

lemma raw_encode_Nil [simp]: "raw_encode [] = []"
  by (simp add: raw_encode_def)

lemma raw_encode_group:
  "raw_encode (a # b # c # d # e # xs) = map alphabet_char (encode_group [a, b, c, d, e]) @ raw_encode xs"
proof -
  have "(length (a # b # c # d # e # xs) * 8 + 4) div 5 = 8 + (length xs * 8 + 4) div 5"
    by simp
  then show ?thesis
    using chunks_append [of "[a, b, c, d, e]" 5 xs] by (simp add: raw_encode_def buffer_def)
qed

lemma raw_encode_short:
  assumes "0 < length xs" "length xs < 5"
  shows "raw_encode xs = take ((length xs * 8 + 4) div 5) (map alphabet_char (encode_group (buffer 5 xs)))"
  using assms by (simp add: raw_encode_def chunks_single)

lemma length_chunk_codes: "length (concat (map (\<lambda>chunk. map alphabet_char (encode_group (buffer 5 chunk))) cs)) = 8 * length cs"
  by (induction cs) auto

lemma length_chunks_5: "length (chunks 5 xs) = (length xs + 4) div 5"
proof (induction xs rule: five_induct)
  case (Short xs)
  then have "length xs = 1 \<or> length xs = 2 \<or> length xs = 3 \<or> length xs = 4" by arith
  with Short show ?case by (auto simp: chunks_single)
next
  case (Group a b c d e xs)
  then show ?case using chunks_append [of "[a, b, c, d, e]" 5 xs] by simp
qed simp

lemma kept_length:
  "8 * ((n + 4) div 5) - (if n mod 5 = 0 then 0 else 8 - (n mod 5 * 8 + 4) div 5) = (n * 8 + 4) div (5 :: nat)"
proof -
  obtain q r where n: "n = 5 * q + r" and "r < 5" by (metis mod_less_divisor mult_div_mod_eq zero_less_numeral)
  then have "r = 0 \<or> r = 1 \<or> r = 2 \<or> r = 3 \<or> r = 4" by arith
  then show ?thesis by (elim disjE) (simp_all add: n del: add_2_eq_Suc')
qed

lemma base32_encode_raw: "base32_encode False data = raw_encode data"
  using kept_length [of "length data"]
  by (simp add: base32_encode_def raw_encode_def Let_def length_chunk_codes length_chunks_5 split: if_splits)

lemma raw_encode_set: "c \<in> set (raw_encode data) \<Longrightarrow> of_char c < (128 :: nat) \<and> c \<noteq> CHR ''=''"
proof -
  assume "c \<in> set (raw_encode data)"
  then obtain chunk w where "w \<in> set (encode_group (buffer 5 chunk))" "c = alphabet_char w"
    unfolding raw_encode_def by (auto dest!: in_set_takeD)
  with alphabet_inverse(2,3) [of w] encode_group_small [of w "buffer 5 chunk"] show ?thesis by simp
qed

lemma all_values_codes: "list_all (\<lambda>w. unat w < 32) ws \<Longrightarrow> all_values RFC4648_INV (map alphabet_char ws) = Some ws"
  by (induction ws) (auto simp: alphabet_inverse)

lemma codes_of_group: "all_values RFC4648_INV (map alphabet_char (encode_group buf)) = Some (encode_group buf)"
  by (rule all_values_codes) (auto simp: list_all_iff intro: encode_group_small)

text \<open>A truncated group: the characters cut off are the ones of the padding bytes, value 0.\<close>

lemma buffer_5:
  "buffer 5 [a] = [a, 0, 0, 0, 0]" "buffer 5 [a, b] = [a, b, 0, 0, 0]"
  "buffer 5 [a, b, c] = [a, b, c, 0, 0]" "buffer 5 [a, b, c, d] = [a, b, c, d, 0]"
  by (simp_all add: buffer_def numeral_eq_Suc)

lemma buffer_8:
  "buffer 8 [a, b] = [a, b, 0, 0, 0, 0, 0, 0]" "buffer 8 [a, b, c, d] = [a, b, c, d, 0, 0, 0, 0]"
  "buffer 8 [a, b, c, d, e] = [a, b, c, d, e, 0, 0, 0]"
  "buffer 8 [a, b, c, d, e, f, g] = [a, b, c, d, e, f, g, 0]"
  by (simp_all add: buffer_def numeral_eq_Suc)

lemma short_group:
  assumes "0 < length xs" "length xs < 5"
  defines "k \<equiv> (length xs * 8 + 4) div 5"
  shows "decode_group (buffer 8 (take k (encode_group (buffer 5 xs)))) = buffer 5 xs"
proof -
  have "buffer 8 (take k (encode_group (buffer 5 xs))) = encode_group (buffer 5 xs)"
  proof -
    consider a where "xs = [a]" | a b where "xs = [a, b]" | a b c where "xs = [a, b, c]"
      | a b c d where "xs = [a, b, c, d]"
    proof -
      have "length xs = 1 \<or> length xs = 2 \<or> length xs = 3 \<or> length xs = 4" using assms(1,2) by arith
      then show ?thesis using that by (auto simp: length_Suc_conv eval_nat_numeral)
    qed
    then show ?thesis
      by cases (simp_all add: k_def buffer_5 encode_group_def buffer_8)
  qed
  moreover have "\<exists>a b c d e. buffer 5 xs = [a, b, c, d, e]" 
  proof -
    have "length (buffer 5 xs) = 5" using assms by (simp add: buffer_def)
    then show ?thesis by (auto simp: length_Suc_conv eval_nat_numeral)
  qed
  ultimately show ?thesis using decode_encode_group by metis
qed

lemma decode_raw_encode:
  "decode_chunks RFC4648_INV (chunks 8 (raw_encode data)) = Some (concat (map (buffer 5) (chunks 5 data)))"
proof (induction data rule: five_induct)
  case (Short xs)
  let ?g = "encode_group (buffer 5 xs)" and ?k = "(length xs * 8 + 4) div 5"
  have k: "0 < ?k" "?k \<le> 8" using Short div_le_mono [of 5 "length xs * 8 + 4" 5] by (simp_all add: Suc_le_eq)
  have "all_values RFC4648_INV (map alphabet_char (take ?k ?g)) = Some (take ?k ?g)"
    by (rule all_values_codes) (auto simp: list_all_iff dest!: in_set_takeD intro: encode_group_small)
  moreover have "chunks 8 (map alphabet_char (take ?k ?g)) = [map alphabet_char (take ?k ?g)]"
  proof (rule chunks_single)
    have "?g \<noteq> []" by (metis length_encode_group list.size(3) zero_neq_numeral)
    with k show "map alphabet_char (take ?k ?g) \<noteq> []" by simp
  qed simp
  ultimately show ?case
    using Short short_group [of xs] by (simp add: raw_encode_short chunks_single take_map)
next
  case (Group a b c d e xs)
  let ?g = "encode_group [a, b, c, d, e]"
  have "chunks 8 (map alphabet_char ?g @ raw_encode xs) = map alphabet_char ?g # chunks 8 (raw_encode xs)"
    by (rule chunks_append) simp_all
  moreover have "buffer 8 ?g = ?g" by (simp add: buffer_def)
  ultimately show ?case
    using Group chunks_append [of "[a, b, c, d, e]" 5 xs]
    by (simp add: raw_encode_group codes_of_group decode_encode_group buffer_def)
qed simp

lemma take_buffers: "take (length data) (concat (map (buffer 5) (chunks 5 data))) = data"
proof (induction data rule: five_induct)
  case (Short xs)
  then show ?case by (simp add: chunks_single buffer_def)
next
  case (Group a b c d e xs)
  then show ?case using chunks_append [of "[a, b, c, d, e]" 5 xs] by (simp add: buffer_def)
qed simp

lemma length_raw_encode: "length (raw_encode data) = (length data * 8 + 4) div 5"
proof -
  have "(length data * 8 + 4) div 5 \<le> 8 * ((length data + 4) div 5)" by (metis kept_length diff_le_self)
  then show ?thesis by (simp add: raw_encode_def length_chunk_codes length_chunks_5)
qed

lemma unpadded_raw: "unpadded_length (raw_encode data) = length (raw_encode data)"
proof -
  have "takeWhile (\<lambda>c. c = CHR ''='') (take n (rev (raw_encode data))) = []" for n
    using raw_encode_set [of "last (raw_encode data)" data]
    by (auto simp: takeWhile_eq_Nil_iff hd_rev)
  then show ?thesis by (simp add: unpadded_length_def)
qed

lemma base32_decode_encode: "base32_decode False (base32_encode False data) = Some data"
proof -
  have "is_ascii (raw_encode data)" using raw_encode_set by (auto simp: is_ascii_def list_all_iff)
  moreover have "(length data * 8 + 4) div 5 * 5 div 8 = length data" by presburger
  ultimately show ?thesis
    by (simp add: base32_encode_raw base32_decode_def decode_raw_encode unpadded_raw length_raw_encode
        take_buffers)
qed

end
