(* ===== verification/Totp.thy ===== *)
theory Totp
  imports Base32 Signer Entries
begin

text \<open>
  Time-based one-time passwords (\<open>falach-core/src/entry/totp.rs\<close>): the \<open>otpauth://totp/\<close> URI
  of an entry, parsed and rendered, and the codes of RFC 6238. HMAC-SHA1 is a parameter; what
  the code relies on is that it returns 20 bytes. A string is its UTF-8 bytes.
\<close>

unbundle bit_operations_syntax

section \<open>UTF-8\<close>

text \<open>\<open>String::from_utf8\<close> of the standard library accepts exactly these byte sequences.\<close>

definition byte_in :: "nat \<Rightarrow> nat \<Rightarrow> char \<Rightarrow> bool" where
  "byte_in lo hi c = (lo \<le> of_char c \<and> of_char c \<le> hi)"

abbreviation continuation :: "char \<Rightarrow> bool" where
  "continuation \<equiv> byte_in 0x80 0xBF"

text \<open>The lengths and first two bytes of a well-formed sequence of more than one byte.\<close>

definition utf8_tail :: "char \<Rightarrow> string \<Rightarrow> nat option" where
  "utf8_tail c s = (case s of [] \<Rightarrow> None | d # _ \<Rightarrow>
     if byte_in 0xC2 0xDF c \<and> continuation d then Some 1
     else if c = CHR 0xE0 \<and> byte_in 0xA0 0xBF d \<or> c = CHR 0xED \<and> byte_in 0x80 0x9F d
       \<or> (byte_in 0xE1 0xEC c \<or> byte_in 0xEE 0xEF c) \<and> continuation d then Some 2
     else if c = CHR 0xF0 \<and> byte_in 0x90 0xBF d \<or> c = CHR 0xF4 \<and> byte_in 0x80 0x8F d
       \<or> byte_in 0xF1 0xF3 c \<and> continuation d then Some 3
     else None)"

function valid_utf8 :: "string \<Rightarrow> bool" where
  "valid_utf8 [] = True"
| "valid_utf8 (c # cs) =
     (if byte_in 0 0x7F c then valid_utf8 cs
      else (case utf8_tail c cs of
        None \<Rightarrow> False
      | Some n \<Rightarrow> n \<le> length cs \<and> list_all continuation (take (n - 1) (drop 1 cs)) \<and> valid_utf8 (drop n cs)))"
  by pat_completeness auto
termination by (relation "measure length") auto

section \<open>The configuration\<close>

datatype totp_algorithm = Sha1

definition DEFAULT_PERIOD :: nat where "DEFAULT_PERIOD = 30"

definition DEFAULT_DIGITS :: nat where "DEFAULT_DIGITS = 6"

definition MAX_DIGITS :: nat where "MAX_DIGITS = 10"

definition as_uri_str :: "totp_algorithm \<Rightarrow> string" where
  "as_uri_str a = (case a of Sha1 \<Rightarrow> ''SHA1'')"

record totp =
  tp_secret :: bytes
  tp_algorithm :: totp_algorithm
  tp_digits :: nat
  tp_period :: nat
  tp_label :: string
  tp_issuer :: "string option"

section \<open>Percent encoding\<close>

definition hex_nibble :: "char \<Rightarrow> nat option" where
  "hex_nibble c = (let b = of_char c :: nat in
     if 48 \<le> b \<and> b \<le> 57 then Some (b - 48)
     else if 97 \<le> b \<and> b \<le> 102 then Some (b - 97 + 10)
     else if 65 \<le> b \<and> b \<le> 70 then Some (b - 65 + 10) else None)"

fun unescape :: "string \<Rightarrow> otp_uri_error + string" where
  "unescape [] = Inr []"
| "unescape (c # cs) =
     (if c = CHR ''%'' then
        (case cs of
           d # e # r \<Rightarrow> (case (hex_nibble d, hex_nibble e) of
             (Some hi, Some lo) \<Rightarrow> rbind (unescape r) (\<lambda>out. Inr (char_of (16 * hi + lo) # out))
           | _ \<Rightarrow> Inl InvalidEncoding)
         | _ \<Rightarrow> Inl InvalidEncoding)
      else rbind (unescape cs) (\<lambda>out. Inr (c # out)))"

definition uri_decode :: "string \<Rightarrow> otp_uri_error + string" where
  "uri_decode s = rbind (unescape s) (\<lambda>out. if valid_utf8 out then Inr out else Inl InvalidEncoding)"

definition uri_encode :: "string \<Rightarrow> string" where
  "uri_encode s = concat (map (\<lambda>c. if is_unreserved c then [c] else escape c) s)"

section \<open>Parsing\<close>

definition eq_ignore_ascii_case :: "string \<Rightarrow> string \<Rightarrow> bool" where
  "eq_ignore_ascii_case a b = (ascii_lowercase a = ascii_lowercase b)"

record otp_params =
  op_secret :: "string option"
  op_algorithm :: totp_algorithm
  op_digits :: nat
  op_period :: nat
  op_issuer :: "string option"

definition no_params :: otp_params where
  "no_params = \<lparr>op_secret = None, op_algorithm = Sha1, op_digits = DEFAULT_DIGITS,
     op_period = DEFAULT_PERIOD, op_issuer = None\<rparr>"

definition parse_param :: "string \<Rightarrow> otp_params \<Rightarrow> otp_uri_error + otp_params" where
  "parse_param pair p =
     (let (key, val) = (case split_once ''='' pair of Some kv \<Rightarrow> kv | None \<Rightarrow> (pair, [])) in
      if key = ''secret'' then Inr (p\<lparr>op_secret := Some val\<rparr>)
      else if key = ''algorithm'' then
        (if eq_ignore_ascii_case val ''SHA1'' then Inr (p\<lparr>op_algorithm := Sha1\<rparr>)
         else Inl UnsupportedAlgorithm)
      else if key = ''digits'' then
        (case parse_unsigned (2 ^ 32 - 1) val of
           None \<Rightarrow> Inl (InvalidParameter ''digits'')
         | Some n \<Rightarrow> if 1 \<le> n \<and> n \<le> MAX_DIGITS then Inr (p\<lparr>op_digits := n\<rparr>)
             else Inl (InvalidParameter ''digits''))
      else if key = ''period'' then
        (case parse_unsigned (2 ^ 64 - 1) val of
           None \<Rightarrow> Inl (InvalidParameter ''period'')
         | Some n \<Rightarrow> if n = 0 then Inl (InvalidParameter ''period'') else Inr (p\<lparr>op_period := n\<rparr>))
      else if key = ''issuer'' then rbind (uri_decode val) (\<lambda>i. Inr (p\<lparr>op_issuer := Some i\<rparr>))
      else Inr p)"

fun parse_params :: "string list \<Rightarrow> otp_params \<Rightarrow> otp_uri_error + otp_params" where
  "parse_params [] p = Inr p"
| "parse_params (pair # pairs) p = rbind (parse_param pair p) (parse_params pairs)"

definition decode_secret :: "string \<Rightarrow> bytes option" where
  "decode_secret s = (case base32_decode False s of
     Some b \<Rightarrow> Some b
   | None \<Rightarrow> base32_decode True s)"

definition finish_params :: "string \<Rightarrow> otp_params \<Rightarrow> otp_uri_error + totp" where
  "finish_params label p =
     rbind (ok_or MissingSecret (op_secret p)) (\<lambda>s.
     rbind (ok_or InvalidSecret (decode_secret s)) (\<lambda>secret.
     if secret = [] then Inl InvalidSecret
     else Inr \<lparr>tp_secret = secret, tp_algorithm = op_algorithm p, tp_digits = op_digits p,
            tp_period = op_period p, tp_label = label, tp_issuer = op_issuer p\<rparr>))"

definition split_or :: "string \<Rightarrow> string \<Rightarrow> string \<times> string" where
  "split_or sep s = (case split_once sep s of Some ab \<Rightarrow> ab | None \<Rightarrow> (s, []))"

definition parse_otpauth_uri :: "string \<Rightarrow> otp_uri_error + totp" where
  "parse_otpauth_uri uri =
     (case strip_prefix ''otpauth://'' uri of
        None \<Rightarrow> Inl NotAnOtpAuthUri
      | Some rest \<Rightarrow>
          (let (host_and_path, query) = split_or ''?'' rest;
               (host, label_path) = split_or ''/'' host_and_path
           in if \<not> eq_ignore_ascii_case host ''totp'' then Inl UnsupportedType
              else rbind (uri_decode label_path) (\<lambda>label.
                rbind (parse_params (filter (\<lambda>s. s \<noteq> []) (split_on CHR ''&'' query)) no_params)
                  (finish_params label))))"

definition from_otpauth_uri :: "string \<Rightarrow> vault_error + totp" where
  "from_otpauth_uri uri = map_err InvalidOtpUri (parse_otpauth_uri uri)"

section \<open>Rendering\<close>

definition to_otpauth_uri :: "totp \<Rightarrow> string" where
  "to_otpauth_uri t =
     ''otpauth://totp/'' @ uri_encode (tp_label t) @ ''?secret='' @ base32_encode False (tp_secret t)
     @ (case tp_issuer t of Some i \<Rightarrow> ''&issuer='' @ uri_encode i | None \<Rightarrow> [])
     @ (if tp_algorithm t \<noteq> Sha1 then ''&algorithm='' @ as_uri_str (tp_algorithm t) else [])
     @ (if tp_digits t \<noteq> DEFAULT_DIGITS then ''&digits='' @ show_nat (tp_digits t) else [])
     @ (if tp_period t \<noteq> DEFAULT_PERIOD then ''&period='' @ show_nat (tp_period t) else [])"

section \<open>Codes\<close>

text \<open>\<open>u64::to_be_bytes\<close>.\<close>

definition to_be_bytes :: "nat \<Rightarrow> bytes" where
  "to_be_bytes n = map (\<lambda>i. word_of_nat (n div 256 ^ (7 - i))) [0..<8]"

text \<open>Reading a byte panics out of range.\<close>

definition byte_at :: "bytes \<Rightarrow> nat \<Rightarrow> (8 word) option" where
  "byte_at b i = (if i < length b then Some (b ! i) else None)"

definition wide :: "8 word \<Rightarrow> 32 word" where
  "wide b = ucast b"

definition truncated :: "bytes \<Rightarrow> (32 word) option" where
  "truncated h =
     (case byte_at h (length h - 1) of None \<Rightarrow> None | Some lb \<Rightarrow>
      (let offset = unat (lb AND 0x0F) in
       case (byte_at h offset, byte_at h (offset + 1), byte_at h (offset + 2), byte_at h (offset + 3)) of
         (Some a, Some b, Some c, Some d) \<Rightarrow>
           Some (push_bit 24 (wide a AND 0x7F) OR push_bit 16 (wide b) OR push_bit 8 (wide c) OR wide d)
       | _ \<Rightarrow> None))"

definition zero_pad :: "nat \<Rightarrow> string \<Rightarrow> string" where
  "zero_pad w s = replicate (w - length s) CHR ''0'' @ s"

definition hotp_code ::
    "(bytes \<Rightarrow> bytes \<Rightarrow> bytes) \<Rightarrow> bytes \<Rightarrow> nat \<Rightarrow> totp_algorithm \<Rightarrow> nat \<Rightarrow> string option" where
  "hotp_code hmac secret counter alg digits =
     (let hmac_bytes = (case alg of Sha1 \<Rightarrow> hmac secret (to_be_bytes counter))
      in map_option (\<lambda>binary. zero_pad digits (show_nat (unat binary mod 10 ^ digits))) (truncated hmac_bytes))"

definition checked_div :: "nat \<Rightarrow> nat \<Rightarrow> nat option" where
  "checked_div a b = (if b = 0 then None else Some (a div b))"

definition code_at :: "(bytes \<Rightarrow> bytes \<Rightarrow> bytes) \<Rightarrow> totp \<Rightarrow> nat \<Rightarrow> string option" where
  "code_at hmac t time =
     hotp_code hmac (tp_secret t) (case checked_div time (tp_period t) of Some c \<Rightarrow> c | None \<Rightarrow> 0)
       (tp_algorithm t) (tp_digits t)"

definition remaining_at :: "totp \<Rightarrow> nat \<Rightarrow> nat" where
  "remaining_at t time = (if tp_period t = 0 then 0 else tp_period t - time mod tp_period t)"

text \<open>The clock reads the seconds since the epoch, \<open>None\<close> when it is set before it. A panic is
  the inner \<open>None\<close>.\<close>

definition compute_current_totp ::
    "(bytes \<Rightarrow> bytes \<Rightarrow> bytes) \<Rightarrow> nat option \<Rightarrow> 'x db \<Rightarrow> uuid \<Rightarrow> vault_error + (string option \<times> nat)" where
  "compute_current_totp hmac clock db u =
     rbind (find_entry_id db u) (\<lambda>i.
     rbind (ok_or (EntryNotFound u) (entry_at db i)) (\<lambda>e.
     rbind (ok_or (EntryHasNoTotp u) (en_get f_otp e)) (\<lambda>uri.
     rbind (from_otpauth_uri uri) (\<lambda>t.
     let now = (case clock of Some s \<Rightarrow> s | None \<Rightarrow> 0)
     in Inr (code_at hmac t now, remaining_at t now)))))"

section \<open>Well-formed configurations\<close>

definition wf_totp :: "totp \<Rightarrow> bool" where
  "wf_totp t = (tp_secret t \<noteq> [] \<and> 1 \<le> tp_digits t \<and> tp_digits t \<le> MAX_DIGITS
     \<and> 0 < tp_period t \<and> tp_period t < 2 ^ 64
     \<and> valid_utf8 (tp_label t) \<and> pred_option valid_utf8 (tp_issuer t))"

definition wf_params :: "otp_params \<Rightarrow> bool" where
  "wf_params p = (1 \<le> op_digits p \<and> op_digits p \<le> MAX_DIGITS
     \<and> 0 < op_period p \<and> op_period p < 2 ^ 64 \<and> pred_option valid_utf8 (op_issuer p))"

lemma wf_no_params: "wf_params no_params"
  by (simp add: wf_params_def no_params_def DEFAULT_DIGITS_def DEFAULT_PERIOD_def MAX_DIGITS_def)

lemma parse_unsigned_le: "parse_unsigned m s = Some n \<Longrightarrow> n \<le> m"
  by (auto simp: parse_unsigned_def Let_def split: if_splits)

lemma uri_decode_utf8: "uri_decode s = Inr v \<Longrightarrow> valid_utf8 v"
  by (auto simp: uri_decode_def rbind_eq_Inr split: if_splits)

lemma parse_param_wf: "wf_params p \<Longrightarrow> parse_param pair p = Inr q \<Longrightarrow> wf_params q"
  unfolding parse_param_def Let_def wf_params_def
  by (auto simp: rbind_eq_Inr split: prod.splits if_splits option.splits
      dest: uri_decode_utf8 dest!: parse_unsigned_le)

lemma parse_params_wf: "wf_params p \<Longrightarrow> parse_params pairs p = Inr q \<Longrightarrow> wf_params q"
  by (induction pairs arbitrary: p) (auto simp: rbind_eq_Inr dest: parse_param_wf)

lemma finish_params_wf:
  "wf_params p \<Longrightarrow> valid_utf8 label \<Longrightarrow> finish_params label p = Inr t \<Longrightarrow> wf_totp t"
  by (auto simp: finish_params_def wf_totp_def wf_params_def rbind_eq_Inr split: if_splits)

lemma parse_wf: "parse_otpauth_uri uri = Inr t \<Longrightarrow> wf_totp t"
  by (auto simp: parse_otpauth_uri_def rbind_eq_Inr split: option.splits prod.splits if_splits
      dest!: parse_params_wf [OF wf_no_params] intro: finish_params_wf uri_decode_utf8)

section \<open>Rendering and parsing\<close>

lemma hex_nibble_upper: "hex_nibble (hex_upper n) = Some (n mod 16)"
proof -
  have "list_all (\<lambda>n. hex_nibble (hex_upper n) = Some n) [0..<16]" by code_simp
  then have "hex_nibble (hex_upper (n mod 16)) = Some (n mod 16)" by (simp add: list_all_iff)
  then show ?thesis by (simp add: hex_upper_def)
qed

lemma unescape_escape: "unescape (escape c @ s) = rbind (unescape s) (\<lambda>out. Inr (c # out))"
proof -
  let ?b = "of_char c :: nat"
  have "?b < 256" by simp
  then have "?b div 16 < 16" by (simp add: less_mult_imp_div_less)
  then have "16 * (?b div 16 mod 16) + ?b mod 16 mod 16 = ?b" by simp
  then have "char_of (16 * (?b div 16 mod 16) + ?b mod 16 mod 16) = c" by (metis char_of_char)
  then show ?thesis by (simp add: escape_def Let_def hex_nibble_upper del: mod_mod_trivial)
qed

lemma unescape_encode: "unescape (uri_encode s) = Inr s"
proof (induction s)
  case (Cons c s)
  then show ?case using percent_reserved
    by (cases "is_unreserved c") (auto simp: uri_encode_def unescape_escape)
qed (simp add: uri_encode_def)

lemma uri_decode_encode: "valid_utf8 s \<Longrightarrow> uri_decode (uri_encode s) = Inr s"
  by (simp add: uri_decode_def unescape_encode)

text \<open>Rendered values have no delimiter of the URI syntax.\<close>

definition plain :: "char \<Rightarrow> bool" where
  "plain c = (c \<noteq> CHR ''&'' \<and> c \<noteq> CHR ''?'' \<and> c \<noteq> CHR ''/'')"

lemma plain_hex: "plain (hex_upper n)"
proof -
  have "list_all (\<lambda>n. plain (hex_upper n)) [0..<16]" by code_simp
  then have "plain (hex_upper (n mod 16))" by (simp add: list_all_iff)
  then show ?thesis by (simp add: hex_upper_def)
qed

lemma plain_encode: "list_all plain (uri_encode s)"
proof -
  have "is_unreserved c \<Longrightarrow> plain c" for c by (auto simp: is_unreserved_def plain_def)
  moreover have "list_all plain (escape c)" for c by (simp add: escape_def Let_def plain_hex) (simp add: plain_def)
  ultimately show ?thesis by (fastforce simp: uri_encode_def list_all_iff split: if_splits)
qed

lemma plain_show: "list_all plain (show_nat n)"
proof -
  have "is_digit c \<Longrightarrow> plain c" for c by (auto simp: is_digit_def plain_def)
  with show_nat_digits [of n] show ?thesis by (simp add: list_all_iff)
qed

lemma plain_alphabet: "unat w < 32 \<Longrightarrow> plain (alphabet_char w)"
proof -
  have "list_all plain RFC4648" by code_simp
  then show "unat w < 32 \<Longrightarrow> ?thesis" by (auto simp: alphabet_char_def list_all_length RFC4648_def)
qed

lemma plain_base32: "list_all plain (base32_encode False b)"
  unfolding list_all_iff
proof
  fix c
  assume "c \<in> set (base32_encode False b)"
  then obtain chunk w where "w \<in> set (encode_group (buffer 5 chunk))" "c = alphabet_char w"
    unfolding base32_encode_raw raw_encode_def by (auto dest!: in_set_takeD)
  with encode_group_small [of w] plain_alphabet [of w] show "plain c" by simp
qed

definition uri_params :: "totp \<Rightarrow> string list" where
  "uri_params t = [''secret='' @ base32_encode False (tp_secret t)]
     @ (case tp_issuer t of Some i \<Rightarrow> [''issuer='' @ uri_encode i] | None \<Rightarrow> [])
     @ (if tp_digits t \<noteq> DEFAULT_DIGITS then [''digits='' @ show_nat (tp_digits t)] else [])
     @ (if tp_period t \<noteq> DEFAULT_PERIOD then [''period='' @ show_nat (tp_period t)] else [])"

lemma to_uri_params:
  "to_otpauth_uri t = ''otpauth://'' @ (''totp'' @ CHR ''/'' # uri_encode (tp_label t))
     @ CHR ''?'' # join ''&'' (uri_params t)"
  by (cases "tp_algorithm t") (simp add: to_otpauth_uri_def uri_params_def split: option.split)

lemma uri_params_split: "split_on CHR ''&'' (join ''&'' (uri_params t)) = uri_params t"
proof (rule split_on_join)
  have plain: "list_all plain s \<Longrightarrow> CHR ''&'' \<notin> set s" for s by (auto simp: list_all_iff plain_def)
  show "\<forall>p\<in>set (uri_params t). CHR ''&'' \<notin> set p"
    using plain [OF plain_base32] plain [OF plain_encode] plain [OF plain_show]
    by (auto simp: uri_params_def split: option.splits if_splits)
qed (simp add: uri_params_def)

lemma parse_rendered:
  "parse_param (''secret='' @ v) p = Inr (p\<lparr>op_secret := Some v\<rparr>)"
  "valid_utf8 i \<Longrightarrow> parse_param (''issuer='' @ uri_encode i) p = Inr (p\<lparr>op_issuer := Some i\<rparr>)"
  "1 \<le> d \<Longrightarrow> d \<le> MAX_DIGITS \<Longrightarrow> parse_param (''digits='' @ show_nat d) p = Inr (p\<lparr>op_digits := d\<rparr>)"
  "0 < n \<Longrightarrow> n < 2 ^ 64 \<Longrightarrow> parse_param (''period='' @ show_nat n) p = Inr (p\<lparr>op_period := n\<rparr>)"
  by (simp_all add: parse_param_def uri_decode_encode parse_show MAX_DIGITS_def)

lemma parse_uri_params:
  "wf_totp t \<Longrightarrow> parse_params (uri_params t) no_params =
     Inr \<lparr>op_secret = Some (base32_encode False (tp_secret t)), op_algorithm = Sha1,
       op_digits = tp_digits t, op_period = tp_period t, op_issuer = tp_issuer t\<rparr>"
  by (cases "tp_issuer t") (simp_all add: wf_totp_def uri_params_def parse_rendered [simplified] no_params_def)

lemma parse_to_uri:
  assumes "wf_totp t"
  shows "parse_otpauth_uri (to_otpauth_uri t) = Inr t"
proof -
  have plain: "list_all plain s \<Longrightarrow> CHR ''?'' \<notin> set s" for s by (auto simp: list_all_iff plain_def)
  have "split_or ''?'' ((''totp'' @ CHR ''/'' # uri_encode (tp_label t)) @ CHR ''?'' # join ''&'' (uri_params t))
    = (''totp'' @ CHR ''/'' # uri_encode (tp_label t), join ''&'' (uri_params t))"
    unfolding split_or_def by (subst split_once_char) (use plain [OF plain_encode] in auto)
  moreover have "split_or ''/'' (''totp'' @ CHR ''/'' # uri_encode (tp_label t)) = (''totp'', uri_encode (tp_label t))"
    unfolding split_or_def by (subst split_once_char) auto
  moreover have "filter (\<lambda>s. s \<noteq> []) (uri_params t) = uri_params t"
    by (simp add: uri_params_def split: option.split)
  moreover have "strip_prefix ''otpauth://'' (to_otpauth_uri t) =
      Some ((''totp'' @ CHR ''/'' # uri_encode (tp_label t)) @ CHR ''?'' # join ''&'' (uri_params t))"
    by (simp only: to_uri_params strip_prefix_Some)
  ultimately show ?thesis
    using assms parse_uri_params [OF assms]
    by (cases t; cases "tp_algorithm t")
      (simp add: parse_otpauth_uri_def Let_def eq_ignore_ascii_case_def uri_params_split uri_decode_encode
        wf_totp_def finish_params_def decode_secret_def base32_decode_encode)
qed

text \<open>C17: what a URI parses to is always well formed, and rendering it gives a URI that parses to
  the same configuration: no field is lost or changed by escaping, by the base32 form of the secret
  or by leaving out the default values.\<close>

theorem totp_uri_roundtrip:
  assumes "from_otpauth_uri uri = Inr t"
  shows "wf_totp t \<and> from_otpauth_uri (to_otpauth_uri t) = Inr t"
proof -
  have "wf_totp t" using assms parse_wf by (simp add: from_otpauth_uri_def)
  then show ?thesis using parse_to_uri by (simp add: from_otpauth_uri_def)
qed

definition demo_totp :: totp where
  "demo_totp = \<lparr>tp_secret = [0x48, 0x65, 0x6C, 0x6C, 0x6F, 0x21], tp_algorithm = Sha1, tp_digits = 8,
     tp_period = 30, tp_label = ''a b'', tp_issuer = Some ''x''\<rparr>"

lemma demo_parsed:
  "from_otpauth_uri ''otpauth://TOTP/a%20b?x=1&secret=JBSWY3DPEE&digits=8&&issuer=x'' = Inr demo_totp"
proof -
  have "eq_ignore_ascii_case ''TOTP'' ''totp''" by code_simp
  moreover have "uri_decode ''a%20b'' = Inr ''a b''" by code_simp
  moreover have "uri_decode ''x'' = Inr ''x''" by code_simp
  moreover have "base32_decode False ''JBSWY3DPEE'' = Some [0x48, 0x65, 0x6C, 0x6C, 0x6F, 0x21]" by code_simp
  moreover have "decimal_value ''8'' = 8" "list_all is_digit ''8''" by code_simp+
  ultimately show ?thesis
    by (simp add: from_otpauth_uri_def parse_otpauth_uri_def split_or_def parse_param_def no_params_def
        parse_unsigned_def MAX_DIGITS_def finish_params_def decode_secret_def demo_totp_def DEFAULT_PERIOD_def)
qed

theorem totp_uri_roundtrip_witness:
  "wf_totp demo_totp \<and> from_otpauth_uri (to_otpauth_uri demo_totp) = Inr demo_totp"
  by (rule totp_uri_roundtrip [OF demo_parsed])

section \<open>Properties of the codes\<close>

text \<open>The specification of RFC 4226: the four bytes at the offset as a big-endian number,
  without the highest bit.\<close>

definition be_value :: "bytes \<Rightarrow> nat" where
  "be_value = foldl (\<lambda>n b. 256 * n + unat b) 0"

definition hotp_value :: "bytes \<Rightarrow> nat" where
  "hotp_value h = be_value (take 4 (drop (unat (last h) mod 16) h)) mod 2 ^ 31"

lemma unat_byte: "unat (b :: 8 word) < 256"
  using unsigned_less [of b] by simp

lemma unat_wide: "unat (wide b) = unat b"
  using unat_byte [of b] by (simp add: wide_def unsigned_ucast_eq take_bit_nat_eq_self)

lemma wide_bits: "bit (wide b) n \<Longrightarrow> n < 8"
  using bit_imp_le_length [of b n] by (auto simp: wide_def bit_ucast_iff)

lemma joined_sum:
  "push_bit 24 x OR push_bit 16 (wide b) OR push_bit 8 (wide c) OR wide d
   = push_bit 24 x + (push_bit 16 (wide b) + (push_bit 8 (wide c) + wide d))"
proof -
  have 1: "push_bit 8 (wide c) OR wide d = push_bit 8 (wide c) + wide d"
    by (rule disjunctive_add [symmetric]) (auto simp: bit_push_bit_iff dest!: wide_bits)
  have 2: "push_bit 16 (wide b) OR (push_bit 8 (wide c) OR wide d)
      = push_bit 16 (wide b) + (push_bit 8 (wide c) OR wide d)"
    by (rule disjunctive_add [symmetric]) (auto simp: bit_push_bit_iff bit_or_iff dest!: wide_bits)
  have 3: "push_bit 24 x OR (push_bit 16 (wide b) OR (push_bit 8 (wide c) OR wide d))
      = push_bit 24 x + (push_bit 16 (wide b) OR (push_bit 8 (wide c) OR wide d))"
    by (rule disjunctive_add [symmetric]) (auto simp: bit_push_bit_iff bit_or_iff dest!: wide_bits)
  show ?thesis using 1 2 3 by (simp add: ac_simps)
qed

lemma unat_masked: "unat (wide a AND 0x7F) = unat a mod 128"
proof -
  have "(0x7F :: 32 word) = mask 7" by (simp add: mask_eq_exp_minus_1)
  then have "wide a AND 0x7F = take_bit 7 (wide a)" by (simp only: take_bit_eq_mask)
  moreover have "unat (take_bit 7 (wide a)) = unat a mod 2 ^ 7"
    unfolding unsigned_take_bit_eq unat_wide by (rule take_bit_eq_mod)
  ultimately show ?thesis by simp
qed

lemma mod_7_bits: "k < 2 ^ 24 \<Longrightarrow> (2 ^ 24 * a + k) mod 2 ^ 31 = 2 ^ 24 * (a mod 128) + (k :: nat)"
proof -
  assume k: "k < 2 ^ 24"
  have "2 ^ 24 * (128 * (a div 128) + a mod 128) + k = 2 ^ 31 * (a div 128) + (2 ^ 24 * (a mod 128) + k)"
    unfolding distrib_left by simp
  then have "2 ^ 24 * a + k = 2 ^ 31 * (a div 128) + (2 ^ 24 * (a mod 128) + k)" by simp
  moreover have "2 ^ 24 * (a mod 128) + k < 2 ^ 31"
  proof -
    have "a mod 128 \<le> 127" using mod_less_divisor [of 128 a] by arith
    with k show ?thesis by simp
  qed
  ultimately show ?thesis by (metis mod_less mod_mult_self4)
qed

lemma joined_value:
  "unat (push_bit 24 (wide a AND 0x7F) OR push_bit 16 (wide b) OR push_bit 8 (wide c) OR wide d)
   = be_value [a, b, c, d] mod 2 ^ 31"
proof -
  let ?k = "2 ^ 16 * unat b + (2 ^ 8 * unat c + unat d)"
  note bytes = unat_byte [of a] unat_byte [of b] unat_byte [of c] unat_byte [of d]
  have k: "?k < 2 ^ 24" using bytes by simp
  have "be_value [a, b, c, d] = 2 ^ 24 * unat a + ?k" by (simp add: be_value_def)
  then have val: "be_value [a, b, c, d] mod 2 ^ 31 = 2 ^ 24 * (unat a mod 128) + ?k"
    using mod_7_bits [OF k] by simp
  then have "2 ^ 24 * (unat a mod 128) + ?k < 2 ^ 32" using mod_less_divisor [of "2 ^ 31" "be_value [a, b, c, d]"] by simp
  moreover have "unat (push_bit 24 (wide a AND 0x7F) + (push_bit 16 (wide b) + (push_bit 8 (wide c) + wide d)))
     = (2 ^ 24 * (unat a mod 128) + ?k) mod 2 ^ 32"
    by (simp only: push_bit_eq_mult unat_word_ariths unat_masked unat_wide)
       (simp add: mod_simps mult.commute del: push_bit_and)
  ultimately show ?thesis unfolding joined_sum val by simp
qed

lemma offset_value: "unat (w AND 0x0F :: 8 word) = unat w mod 16"
proof -
  have "(0x0F :: 8 word) = mask 4" by (simp add: mask_eq_exp_minus_1)
  then have "w AND 0x0F = take_bit 4 w" by (simp only: take_bit_eq_mask)
  moreover have "unat (take_bit 4 w) = unat w mod 2 ^ 4"
    unfolding unsigned_take_bit_eq by (rule take_bit_eq_mod)
  ultimately show ?thesis by simp
qed

lemma take_4: "i + 4 \<le> length h \<Longrightarrow> take 4 (drop i h) = [h ! i, h ! (i + 1), h ! (i + 2), h ! (i + 3)]"
  using Cons_nth_drop_Suc [of i h] Cons_nth_drop_Suc [of "i + 1" h] Cons_nth_drop_Suc [of "i + 2" h]
    Cons_nth_drop_Suc [of "i + 3" h]
  by (simp add: numeral_eq_Suc flip: Cons_nth_drop_Suc)

text \<open>The window of four bytes never leaves a 20 byte digest.\<close>

lemma truncated_value:
  assumes "length h = 20"
  shows "\<exists>w. truncated h = Some w \<and> unat w = hotp_value h"
proof -
  let ?o = "unat (last h) mod 16"
  have o: "?o < 16" by simp
  then have four: "take 4 (drop ?o h) = [h ! ?o, h ! (?o + 1), h ! (?o + 2), h ! (?o + 3)]"
    using assms by (intro take_4) simp
  have "h \<noteq> []" using assms by auto
  then have "byte_at h (length h - 1) = Some (last h)" using assms by (simp add: byte_at_def last_conv_nth)
  moreover have "byte_at h (?o + k) = Some (h ! (?o + k))" if "k < 4" for k
    using that o assms by (simp add: byte_at_def)
  note this [of 0] this [of 1] this [of 2] this [of 3]
  ultimately have "truncated h = Some (push_bit 24 (wide (h ! ?o) AND 0x7F)
      OR push_bit 16 (wide (h ! (?o + 1))) OR push_bit 8 (wide (h ! (?o + 2))) OR wide (h ! (?o + 3)))"
    by (simp add: truncated_def offset_value Let_def)
  then show ?thesis unfolding hotp_value_def four by (blast intro: joined_value)
qed

lemma length_show_nat: "n < 10 ^ d \<Longrightarrow> 0 < d \<Longrightarrow> length (show_nat n) \<le> d"
proof (induction n arbitrary: d rule: show_nat.induct)
  case (1 n)
  show ?case
  proof (cases "n < 10")
    case True
    with 1 show ?thesis by (simp add: show_nat.simps [of n])
  next
    case False
    with 1 obtain d' where d: "d = Suc d'" "0 < d'" by (cases d; cases "d - 1") auto
    then have "n div 10 < 10 ^ d'" using 1 by (simp add: less_mult_imp_div_less mult.commute)
    with 1 False d have "length (show_nat (n div 10)) \<le> d'" by blast
    with False d show ?thesis by (simp add: show_nat.simps [of n])
  qed
qed

lemma decimal_zeros: "decimal_value (replicate k CHR ''0'' @ s) = decimal_value s"
proof (induction k)
  case (Suc k)
  have "digit_value CHR ''0'' = 0" by code_simp
  with Suc show ?case by (simp add: decimal_value_def)
qed simp

lemma padded_code:
  assumes "1 \<le> d"
  shows "length (zero_pad d (show_nat (n mod 10 ^ d))) = d
    \<and> list_all is_digit (zero_pad d (show_nat (n mod 10 ^ d)))
    \<and> decimal_value (zero_pad d (show_nat (n mod 10 ^ d))) = n mod 10 ^ d"
proof -
  have "length (show_nat (n mod 10 ^ d)) \<le> d" using assms by (intro length_show_nat) auto
  moreover have "is_digit CHR ''0''" by (simp add: is_digit_def)
  ultimately show ?thesis
    using show_nat_digits [of "n mod 10 ^ d"]
    by (auto simp: zero_pad_def decimal_zeros decimal_show list_all_iff)
qed

text \<open>C18: for a configuration that came from a URI the code exists, that is, no byte is read out of
  the digest, it has exactly the configured number of decimal digits, and its value is the
  dynamic truncation of RFC 4226 at the time step reduced to that many digits. Between 1
  and the period many seconds remain, and until they have passed, and not after, the time step is
  the same, so the code shown stays the code.\<close>

theorem totp_code_spec:
  assumes "from_otpauth_uri uri = Inr t"
    and "\<And>key msg. length (hmac key msg) = 20"
  shows "\<exists>code. code_at hmac t time = Some code
      \<and> length code = tp_digits t \<and> list_all is_digit code
      \<and> decimal_value code =
          hotp_value (hmac (tp_secret t) (to_be_bytes (time div tp_period t))) mod 10 ^ tp_digits t
      \<and> 1 \<le> remaining_at t time \<and> remaining_at t time \<le> tp_period t
      \<and> (\<forall>d < remaining_at t time. code_at hmac t (time + d) = Some code)
      \<and> (time + remaining_at t time) div tp_period t = time div tp_period t + 1"
proof -
  have wf: "1 \<le> tp_digits t" "0 < tp_period t"
    using assms(1) parse_wf by (auto simp: from_otpauth_uri_def wf_totp_def)
  let ?p = "tp_period t"
  let ?h = "\<lambda>s. hmac (tp_secret t) (to_be_bytes (s div ?p))"
  have code: "code_at hmac t s = Some (zero_pad (tp_digits t) (show_nat (hotp_value (?h s) mod 10 ^ tp_digits t)))" for s
  proof -
    obtain w where "truncated (?h s) = Some w" "unat w = hotp_value (?h s)"
      using truncated_value [OF assms(2), of "tp_secret t" "to_be_bytes (s div ?p)"] by blast
    then show ?thesis
      using wf by (cases "tp_algorithm t") (simp add: code_at_def checked_div_def hotp_code_def)
  qed
  obtain q r where time: "time = ?p * q + r" and r: "r < ?p" using wf
    by (metis mod_less_divisor mult_div_mod_eq)
  then have remaining: "remaining_at t time = ?p - r" and q: "time div ?p = q"
    using wf by (simp_all add: remaining_at_def)
  have window: "(time + d) div ?p = q" if "d < ?p - r" for d
    using that wf unfolding time by (simp add: add.assoc)
  have "time + (?p - r) = ?p * (q + 1)" using time r by simp
  then have "(time + (?p - r)) div ?p = q + 1" using wf by simp
  with code window padded_code [OF wf(1)] r show ?thesis
    by (simp add: remaining q Suc_le_eq)
qed

definition demo_hmac :: "bytes \<Rightarrow> bytes \<Rightarrow> bytes" where
  "demo_hmac key msg = replicate 19 0x12 @ [0x0F]"

theorem totp_code_spec_witness:
  "\<exists>code. code_at demo_hmac demo_totp 59 = Some code \<and> length code = 8"
  using totp_code_spec [OF demo_parsed, of demo_hmac 59]
  by (auto simp: demo_hmac_def demo_totp_def)

end
