(* ===== verification/Credentials.thy ===== *)
theory Credentials
  imports SyncDriver Totp
begin

text \<open>
  Credential discovery (\<open>falach-sync/src/auth\<close>): where a vault's S3 credentials come from
  (\<open>source.rs\<close>), the dispatch (\<open>mod.rs\<close>) and the four resolvers: the encrypted container
  (\<open>rstcred1.rs\<close>), the AWS credentials file with its INI parser (\<open>profile.rs\<close>), prefixed environment
  variables (\<open>envvars.rs\<close>) and the instance metadata service (\<open>iam.rs\<close>). The environment, the file
  system, the metadata service, base64, Argon2id, ChaCha20-Poly1305, the JSON and the date parsers
  are fields of the record \<open>auth_host\<close>. A file path is its string here, as the configuration has it.
\<close>

section \<open>Sources and results\<close>

datatype credential_source =
    RstCred1 string string
  | AwsProfile string "string option"
  | EnvVars string
  | IamInstanceRole "string option"

record found_credentials =
  fc_access_key_id :: string
  fc_secret_access_key :: string
  fc_session_token :: "string option"
  fc_expiry :: "int option"

datatype imds_request = PutToken string nat | GetWithToken string string

record imds_credentials =
  ic_access_key_id :: string
  ic_secret_access_key :: string
  ic_token :: string
  ic_expiration :: string

record auth_host =
  ah_env :: "string \<Rightarrow> string option"
  ah_exists :: "string \<Rightarrow> bool"
  ah_read :: "string \<Rightarrow> io_error + string"
  ah_imds :: "imds_request \<Rightarrow> string + nat \<times> (string + string)"
  ah_json :: "string \<Rightarrow> string + imds_credentials"
  ah_date :: "string \<Rightarrow> string + int"
  ah_b64_encode :: "bytes \<Rightarrow> string"
  ah_b64_decode :: "string \<Rightarrow> string + bytes"
  ah_argon2 :: "bytes \<Rightarrow> bytes \<Rightarrow> string + bytes"
  ah_aead_encrypt :: "bytes \<Rightarrow> bytes \<Rightarrow> bytes \<Rightarrow> bytes \<Rightarrow> bytes option"
  ah_aead_decrypt :: "bytes \<Rightarrow> bytes \<Rightarrow> bytes \<Rightarrow> bytes \<Rightarrow> bytes option"

section \<open>Environment variables (envvars.rs)\<close>

definition resolve_env_vars :: "auth_host \<Rightarrow> string \<Rightarrow> auth_error + found_credentials" where
  "resolve_env_vars H prefix =
     (if prefix = [] then Inl EmptyEnvPrefix
      else let access_key_name = prefix @ ''AWS_ACCESS_KEY_ID'';
               secret_key_name = prefix @ ''AWS_SECRET_ACCESS_KEY'';
               session_token_name = prefix @ ''AWS_SESSION_TOKEN''
           in rbind (ok_or (MissingEnvVar access_key_name) (ah_env H access_key_name)) (\<lambda>access_key_id.
              rbind (ok_or (MissingEnvVar secret_key_name) (ah_env H secret_key_name)) (\<lambda>secret_access_key.
              Inr \<lparr>fc_access_key_id = access_key_id, fc_secret_access_key = secret_access_key,
                   fc_session_token = ah_env H session_token_name, fc_expiry = None\<rparr>)))"

section \<open>The AWS credentials file (profile.rs)\<close>

text \<open>\<open>str::lines\<close>: a line ends at a line feed, with the carriage return before it; an empty last
  line is none.\<close>

definition strip_cr :: "string \<Rightarrow> string" where
  "strip_cr s = (if ends_with_char (char_of (13 :: nat)) s then butlast s else s)"

definition line_feed :: char where
  "line_feed = char_of (10 :: nat)"

definition str_lines :: "string \<Rightarrow> string list" where
  "str_lines s = (let ps = split_on line_feed s in
     map strip_cr (butlast ps) @ (if last ps = [] then [] else [last ps]))"

definition section_name :: "string \<Rightarrow> string option" where
  "section_name trimmed = Option.bind (strip_prefix ''['' trimmed)
     (\<lambda>s. if ends_with_char CHR '']'' s then Some (butlast s) else None)"

fun scan_section :: "string list \<Rightarrow> string \<Rightarrow> bool \<Rightarrow> string \<Rightarrow> string option" where
  "scan_section [] target in_target body = (if in_target then Some body else None)"
| "scan_section (line # lines) target in_target body =
     (let trimmed = trim line in
      case section_name trimmed of
        Some name \<Rightarrow>
          if in_target then Some body
          else scan_section lines target (name = target \<or> ''['' @ target @ '']'' = trimmed) body
      | None \<Rightarrow>
          scan_section lines target in_target (if in_target then body @ line @ [line_feed] else body))"

definition find_section :: "string \<Rightarrow> string \<Rightarrow> string option" where
  "find_section contents target = scan_section (str_lines contents) target False []"

fun scan_key :: "string list \<Rightarrow> string \<Rightarrow> string option" where
  "scan_key [] key = None"
| "scan_key (line # lines) key =
     (let trimmed = trim line in
      if trimmed = [] \<or> starts_with ''#'' trimmed \<or> starts_with '';'' trimmed then scan_key lines key
      else case split_once ''='' trimmed of
        Some (k, v) \<Rightarrow> if trim k = key then Some (trim v) else scan_key lines key
      | None \<Rightarrow> scan_key lines key)"

definition get_optional_key :: "string \<Rightarrow> string \<Rightarrow> string option" where
  "get_optional_key section key = scan_key (str_lines section) key"

definition get_required_key :: "string \<Rightarrow> string \<Rightarrow> string \<Rightarrow> auth_error + string" where
  "get_required_key section key profile =
     ok_or (AwsProfileMissingKey profile key) (get_optional_key section key)"

text \<open>\<open>PathBuf::push\<close> of a relative component.\<close>

definition path_push :: "string \<Rightarrow> string \<Rightarrow> string" where
  "path_push p c = (if ends_with_char CHR ''/'' p then p @ c else p @ ''/'' @ c)"

definition default_credentials_path :: "auth_host \<Rightarrow> auth_error + string" where
  "default_credentials_path H = (case ah_env H ''HOME'' of
     Some home \<Rightarrow> if home = [] then Inl AuthHomeUnresolvable
       else Inr (path_push (path_push home ''.aws'') ''credentials'')
   | None \<Rightarrow> Inl AuthHomeUnresolvable)"

definition resolve_profile :: "auth_host \<Rightarrow> string \<Rightarrow> string option \<Rightarrow> auth_error + found_credentials" where
  "resolve_profile H profile credentials_file =
     rbind (case credentials_file of Some p \<Rightarrow> Inr p | None \<Rightarrow> default_credentials_path H) (\<lambda>path.
     if \<not> ah_exists H path then Inl (AwsCredentialsFileNotFound path)
     else rbind (map_err (AwsCredentialsFileReadFailed path) (ah_read H path)) (\<lambda>contents.
       rbind (ok_or (AwsProfileNotFound profile path) (find_section contents profile)) (\<lambda>section.
       rbind (get_required_key section ''aws_access_key_id'' profile) (\<lambda>access_key_id.
       rbind (get_required_key section ''aws_secret_access_key'' profile) (\<lambda>secret_access_key.
       Inr \<lparr>fc_access_key_id = access_key_id, fc_secret_access_key = secret_access_key,
            fc_session_token = get_optional_key section ''aws_session_token'', fc_expiry = None\<rparr>)))))"

section \<open>The instance metadata service (iam.rs)\<close>

definition DEFAULT_IMDS_ENDPOINT :: string where
  "DEFAULT_IMDS_ENDPOINT = ''http://169.254.169.254''"

definition TOKEN_TTL_SECONDS :: nat where "TOKEN_TTL_SECONDS = 21600"

definition imds_send :: "auth_host \<Rightarrow> string \<Rightarrow> imds_request \<Rightarrow> auth_error + nat \<times> (string + string)" where
  "imds_send H endpoint r = map_err (ImdsUnreachable endpoint) (ah_imds H r)"

definition imds_body :: "string + string \<Rightarrow> auth_error + string" where
  "imds_body b = map_err ImdsMalformedResponse b"

definition fetch_imds_token :: "auth_host \<Rightarrow> string \<Rightarrow> auth_error + string" where
  "fetch_imds_token H endpoint =
     rbind (imds_send H endpoint (PutToken (endpoint @ ''/latest/api/token'') TOKEN_TTL_SECONDS)) (\<lambda>(status, b).
     if status \<noteq> 200 then Inl (ImdsUnexpectedStatus status)
     else rbind (imds_body b) (\<lambda>body. Inr (trim body)))"

definition roles_path :: string where
  "roles_path = ''/latest/meta-data/iam/security-credentials/''"

definition fetch_role_name :: "auth_host \<Rightarrow> string \<Rightarrow> string \<Rightarrow> auth_error + string" where
  "fetch_role_name H endpoint token =
     rbind (imds_send H endpoint (GetWithToken (endpoint @ roles_path) token)) (\<lambda>(status, b).
     if status = 200 then rbind (imds_body b) (\<lambda>body.
       let role = trim body in if role = [] then Inl NoIamRole else Inr role)
     else if status = 404 then Inl NoIamRole
     else Inl (ImdsUnexpectedStatus status))"

definition fetch_role_credentials ::
    "auth_host \<Rightarrow> string \<Rightarrow> string \<Rightarrow> string \<Rightarrow> auth_error + found_credentials" where
  "fetch_role_credentials H endpoint token role =
     rbind (imds_send H endpoint (GetWithToken (endpoint @ roles_path @ role) token)) (\<lambda>(status, b).
     if status = 404 then Inl NoIamRole
     else if status \<noteq> 200 then Inl (ImdsUnexpectedStatus status)
     else rbind (imds_body b) (\<lambda>body.
       rbind (map_err ImdsMalformedResponse (ah_json H body)) (\<lambda>parsed.
       rbind (map_err ImdsMalformedResponse (ah_date H (ic_expiration parsed))) (\<lambda>expiry.
       Inr \<lparr>fc_access_key_id = ic_access_key_id parsed, fc_secret_access_key = ic_secret_access_key parsed,
            fc_session_token = Some (ic_token parsed), fc_expiry = Some expiry\<rparr>))))"

definition resolve_iam_instance_role :: "auth_host \<Rightarrow> string option \<Rightarrow> auth_error + found_credentials" where
  "resolve_iam_instance_role H imds_endpoint =
     (let endpoint = (case imds_endpoint of Some e \<Rightarrow> e | None \<Rightarrow> DEFAULT_IMDS_ENDPOINT) in
      rbind (fetch_imds_token H endpoint) (\<lambda>token.
      rbind (fetch_role_name H endpoint token) (\<lambda>role.
      fetch_role_credentials H endpoint token role)))"

section \<open>The encrypted container (rstcred1.rs)\<close>

definition MAGIC :: bytes where "MAGIC = as_bytes ''RC01''"

definition SALT_LEN :: nat where "SALT_LEN = 16"

definition NONCE_LEN :: nat where "NONCE_LEN = 12"

definition TAG_LEN :: nat where "TAG_LEN = 16"

definition header_len :: nat where "header_len = length MAGIC + SALT_LEN + NONCE_LEN"

text \<open>The reasons of malformed containers are display text, abbreviated here.\<close>

definition derive_key :: "auth_host \<Rightarrow> string \<Rightarrow> bytes \<Rightarrow> auth_error + bytes" where
  "derive_key H password salt = map_err RstCred1Malformed (ah_argon2 H (as_bytes password) salt)"

text \<open>The entropy source gives a salt and a nonce, each of its length, or fails.\<close>

definition encrypt_credential ::
    "auth_host \<Rightarrow> string + bytes \<Rightarrow> string + bytes \<Rightarrow> string \<Rightarrow> string \<Rightarrow> auth_error + string" where
  "encrypt_credential H salt_draw nonce_draw plaintext password =
     rbind (map_err RstCred1Malformed salt_draw) (\<lambda>salt.
     rbind (map_err RstCred1Malformed nonce_draw) (\<lambda>nonce.
     rbind (derive_key H password salt) (\<lambda>key.
     rbind (ok_or (RstCred1Malformed ''encrypt failed'') (ah_aead_encrypt H key nonce MAGIC (as_bytes plaintext)))
       (\<lambda>ciphertext_with_tag. Inr (ah_b64_encode H (MAGIC @ salt @ nonce @ ciphertext_with_tag))))))"

definition text_of :: "bytes \<Rightarrow> string" where
  "text_of b = map (\<lambda>w. char_of (unat w)) b"

definition decrypt_credential :: "auth_host \<Rightarrow> string \<Rightarrow> string \<Rightarrow> auth_error + string" where
  "decrypt_credential H container_b64 password =
     rbind (map_err RstCred1Malformed (ah_b64_decode H (trim container_b64))) (\<lambda>container.
     if length container < header_len + TAG_LEN then Inl (RstCred1Malformed ''too short'')
     else if take (length MAGIC) container \<noteq> MAGIC then Inl (RstCred1Malformed ''wrong magic bytes'')
     else
       let salt = take SALT_LEN (drop (length MAGIC) container);
           nonce = take NONCE_LEN (drop (length MAGIC + SALT_LEN) container);
           ciphertext_with_tag = drop header_len container
       in rbind (derive_key H password salt) (\<lambda>key.
          rbind (ok_or RstCred1Decryption (ah_aead_decrypt H key nonce MAGIC ciphertext_with_tag)) (\<lambda>plaintext.
          if valid_utf8 (text_of plaintext) then Inr (text_of plaintext)
          else Inl (RstCred1Malformed ''not UTF-8''))))"

definition resolve_rstcred1 :: "auth_host \<Rightarrow> string \<Rightarrow> string \<Rightarrow> string \<Rightarrow> auth_error + found_credentials" where
  "resolve_rstcred1 H access_key_id secret_encrypted password =
     rbind (decrypt_credential H secret_encrypted password) (\<lambda>secret.
     Inr \<lparr>fc_access_key_id = access_key_id, fc_secret_access_key = secret, fc_session_token = None,
          fc_expiry = None\<rparr>)"

section \<open>Dispatch (mod.rs) and hand-over to the signer (sync.rs)\<close>

definition resolve :: "auth_host \<Rightarrow> string \<Rightarrow> credential_source \<Rightarrow> auth_error + found_credentials" where
  "resolve H password src = (case src of
     RstCred1 k s \<Rightarrow> resolve_rstcred1 H k s password
   | AwsProfile profile f \<Rightarrow> resolve_profile H profile f
   | EnvVars prefix \<Rightarrow> resolve_env_vars H prefix
   | IamInstanceRole e \<Rightarrow> resolve_iam_instance_role H e)"

definition signer_credentials_from :: "found_credentials \<Rightarrow> resolved_credentials" where
  "signer_credentials_from c = \<lparr>rc_access_key_id = fc_access_key_id c,
     rc_secret_access_key = fc_secret_access_key c, rc_session_token = fc_session_token c\<rparr>"

text \<open>The environment of the driver with this discovery.\<close>

definition discovering :: "auth_host \<Rightarrow> string \<Rightarrow> (credential_source, 'h) s3_env \<Rightarrow> (credential_source, 'h) s3_env" where
  "discovering H password E = E\<lparr>se_resolve := (\<lambda>src. map_sum id signer_credentials_from (resolve H password src))\<rparr>"

section \<open>No credentials from another environment\<close>

text \<open>The environment variables a source names.\<close>

definition names_read :: "credential_source \<Rightarrow> string set" where
  "names_read src = (case src of
     EnvVars p \<Rightarrow> if p = [] then {}
       else {p @ ''AWS_ACCESS_KEY_ID'', p @ ''AWS_SECRET_ACCESS_KEY'', p @ ''AWS_SESSION_TOKEN''}
   | AwsProfile _ None \<Rightarrow> {''HOME''}
   | _ \<Rightarrow> {})"

definition default_names :: "string set" where
  "default_names = {''AWS_ACCESS_KEY_ID'', ''AWS_SECRET_ACCESS_KEY'', ''AWS_SESSION_TOKEN'', ''AWS_PROFILE''}"

lemma prefixed_not_default:
  assumes "p \<noteq> []"
  shows "p @ ''AWS_ACCESS_KEY_ID'' \<notin> default_names \<and> p @ ''AWS_SECRET_ACCESS_KEY'' \<notin> default_names
    \<and> p @ ''AWS_SESSION_TOKEN'' \<notin> default_names"
proof -
  have rev: "p @ s = t \<longleftrightarrow> rev s @ rev p = rev t" for s t :: string by (metis rev_append rev_rev_ident)
  show ?thesis using assms by (auto simp: default_names_def rev)
qed

text \<open>C26: credential discovery reads the environment only at the variables the vault's source
  names: two environments that agree there resolve to the same credentials, whatever else they
  hold. The names are never the ones a shell sets by default, so the account of the surrounding
  shell cannot be picked up.\<close>

theorem credentials_isolated:
  assumes "\<forall>n\<in>names_read src. env n = ah_env H n"
  shows "resolve (H\<lparr>ah_env := env\<rparr>) password src = resolve H password src
    \<and> names_read src \<inter> default_names = {}"
proof (cases src)
  case (RstCred1 k s)
  then show ?thesis
    by (simp add: resolve_def resolve_rstcred1_def decrypt_credential_def derive_key_def names_read_def cong: if_cong)
next
  case (AwsProfile profile f)
  with assms show ?thesis
    by (cases f) (simp_all add: resolve_def resolve_profile_def default_credentials_path_def names_read_def
        default_names_def cong: if_cong)
next
  case (EnvVars p)
  with assms prefixed_not_default [of p] show ?thesis
    by (cases "p = []") (simp_all add: resolve_def resolve_env_vars_def names_read_def)
next
  case (IamInstanceRole e)
  then show ?thesis
    by (simp add: resolve_def resolve_iam_instance_role_def fetch_imds_token_def fetch_role_name_def
        fetch_role_credentials_def imds_send_def names_read_def cong: if_cong)
qed

text \<open>A host whose shell is logged in to another account, and the same host without that.\<close>

definition quiet_host :: auth_host where
  "quiet_host = \<lparr>ah_env = map_of [(''MY_AWS_ACCESS_KEY_ID'', ''AK''), (''MY_AWS_SECRET_ACCESS_KEY'', ''S'')],
     ah_exists = (\<lambda>p. p = ''/c''), ah_read = (\<lambda>p. Inr ''''), ah_imds = (\<lambda>r. Inl ''no route''),
     ah_json = (\<lambda>s. Inl ''''), ah_date = (\<lambda>s. Inl ''''), ah_b64_encode = text_of,
     ah_b64_decode = (\<lambda>s. Inr (as_bytes s)), ah_argon2 = (\<lambda>p s. Inr p),
     ah_aead_encrypt = (\<lambda>k n a m. Some (m @ replicate 16 (of_nat (length k)))),
     ah_aead_decrypt = (\<lambda>k n a c. if drop (length c - 16) c = replicate 16 (of_nat (length k))
       then Some (take (length c - 16) c) else None)\<rparr>"

definition work_shell :: "string \<Rightarrow> string option" where
  "work_shell = (ah_env quiet_host)(''AWS_ACCESS_KEY_ID'' \<mapsto> ''WORK'', ''AWS_PROFILE'' \<mapsto> ''work'')"

theorem credentials_isolated_witness:
  "resolve (quiet_host\<lparr>ah_env := work_shell\<rparr>) ''pw'' (EnvVars ''MY_'')
     = Inr \<lparr>fc_access_key_id = ''AK'', fc_secret_access_key = ''S'', fc_session_token = None, fc_expiry = None\<rparr>"
proof -
  have "\<forall>n\<in>names_read (EnvVars ''MY_''). work_shell n = ah_env quiet_host n"
    by (simp add: names_read_def work_shell_def)
  from credentials_isolated [OF this, of "''pw''"] show ?thesis
    by (simp add: resolve_def resolve_env_vars_def quiet_host_def)
qed

text \<open>Nothing of the credentials is checked when a remote is configured: a source with an empty
  prefix is stored like any other, and every resolution of it fails.\<close>

lemma empty_prefix_configured:
  assumes "registry_get (dw_registry w) name = Some v" "endpoint_of s = Inr e"
    and "find_duplicate_target D (dw_registry w) (s3_endpoint s) (s3_bucket s) (s3_key s) (Some name) = None"
    and "s3_credentials s = EnvVars ''''"
  shows "configure_remote C D h name s w = persist_config C D h name (config_s3 s) w
    \<and> resolve H password (s3_credentials s) = Inl EmptyEnvPrefix"
  using assms by (simp add: configure_remote_def resolve_def resolve_env_vars_def)

section \<open>The credentials file as written\<close>

definition unlines :: "string list \<Rightarrow> string" where
  "unlines ls = concat (map (\<lambda>l. l @ [line_feed]) ls)"

type_synonym profile = "string \<times> (string \<times> string) list"

definition key_line :: "string \<times> string \<Rightarrow> string" where
  "key_line kv = fst kv @ '' = '' @ snd kv"

definition profile_lines :: "profile \<Rightarrow> string list" where
  "profile_lines p = (''['' @ fst p @ '']'') # map key_line (snd p)"

definition render_profiles :: "profile list \<Rightarrow> string" where
  "render_profiles ps = unlines (concat (map profile_lines ps))"

definition no_outer_space :: "string \<Rightarrow> bool" where
  "no_outer_space s = (s = [] \<or> \<not> is_space (hd s) \<and> \<not> is_space (last s))"

definition clean_pair :: "string \<times> string \<Rightarrow> bool" where
  "clean_pair kv = (fst kv \<noteq> [] \<and> no_outer_space (fst kv) \<and> no_outer_space (snd kv)
     \<and> hd (fst kv) \<notin> {CHR ''['', CHR ''#'', CHR '';''} \<and> CHR ''='' \<notin> set (fst kv)
     \<and> line_feed \<notin> set (fst kv) \<and> line_feed \<notin> set (snd kv))"

definition clean_profile :: "profile \<Rightarrow> bool" where
  "clean_profile p = (line_feed \<notin> set (fst p) \<and> list_all clean_pair (snd p))"

lemma str_lines_unlines:
  "(\<And>l. l \<in> set ls \<Longrightarrow> line_feed \<notin> set l \<and> \<not> ends_with_char (char_of (13 :: nat)) l) \<Longrightarrow>
   str_lines (unlines ls) = ls"
proof -
  assume *: "\<And>l. l \<in> set ls \<Longrightarrow> line_feed \<notin> set l \<and> \<not> ends_with_char (char_of (13 :: nat)) l"
  then have "split_on line_feed (unlines ls) = ls @ [[]]"
    by (induction ls) (auto simp: unlines_def split_on_append)
  moreover have "map strip_cr ls = ls" using * by (induction ls) (auto simp: strip_cr_def)
  ultimately show ?thesis by (simp add: str_lines_def)
qed

lemma trim_trimmed: "no_outer_space s \<Longrightarrow> trim s = s"
  by (cases "s = []") (auto simp: no_outer_space_def trim_id, simp add: trim_def trim_start_def trim_end_def)

lemma space_chars: "is_space CHR '' ''" "is_space (char_of (13 :: nat))" "\<not> is_space CHR ''=''" "\<not> is_space CHR ''[''"
  "\<not> is_space CHR '']''" "\<not> is_space CHR ''#''"
  by code_simp+

lemma header_line:
  shows "trim (''['' @ n @ '']'') = ''['' @ n @ '']''" "section_name (''['' @ n @ '']'') = Some n"
  by (simp_all add: trim_id space_chars section_name_def ends_with_char_def)

lemma trim_cons: "is_space c \<Longrightarrow> trim (c # s) = trim s"
  by (simp add: trim_def trim_start_def)

lemma trim_snoc: "is_space c \<Longrightarrow> trim (s @ [c]) = trim s"
proof (cases "list_all is_space s")
  case True
  assume "is_space c"
  with True show ?thesis
    by (auto simp: trim_def trim_start_def trim_end_def list_all_iff dropWhile_append dest: set_dropWhileD)
next
  case False
  assume "is_space c"
  with False show ?thesis
    by (auto simp: trim_def trim_start_def trim_end_def list_all_iff dropWhile_append)
qed

lemma key_line_trim:
  assumes "clean_pair kv"
  shows "trim (key_line kv) = fst kv @ '' ='' @ (if snd kv = [] then [] else '' '' @ snd kv)"
proof (cases "snd kv = []")
  case True
  have "trim (key_line kv) = trim (fst kv @ '' ='')"
    using trim_snoc [of "CHR '' ''" "fst kv @ '' =''"] True by (simp add: key_line_def space_chars)
  also have "\<dots> = fst kv @ '' =''"
    using assms by (intro trim_id) (auto simp: clean_pair_def no_outer_space_def space_chars)
  finally show ?thesis using True by simp
next
  case False
  then have "trim (key_line kv) = key_line kv"
    using assms by (intro trim_id) (auto simp: key_line_def clean_pair_def no_outer_space_def)
  with False show ?thesis by (simp add: key_line_def)
qed

lemma key_line_clean:
  assumes "clean_pair kv"
  shows "section_name (trim (key_line kv)) = None" "trim (key_line kv) \<noteq> []"
    "\<not> starts_with ''#'' (trim (key_line kv))" "\<not> starts_with '';'' (trim (key_line kv))"
    "split_once ''='' (trim (key_line kv)) = Some (fst kv @ '' '', if snd kv = [] then [] else '' '' @ snd kv)"
proof -
  obtain c cs where k: "fst kv = c # cs" "c \<notin> {CHR ''['', CHR ''#'', CHR '';''}"
    using assms by (cases "fst kv") (auto simp: clean_pair_def)
  then show "section_name (trim (key_line kv)) = None" "trim (key_line kv) \<noteq> []"
    "\<not> starts_with ''#'' (trim (key_line kv))" "\<not> starts_with '';'' (trim (key_line kv))"
    by (auto simp: key_line_trim [OF assms] section_name_def starts_with_def)
  have "CHR ''='' \<notin> set (fst kv @ '' '')" using assms by (auto simp: clean_pair_def)
  from split_once_char [OF this] show
    "split_once ''='' (trim (key_line kv)) = Some (fst kv @ '' '', if snd kv = [] then [] else '' '' @ snd kv)"
    by (simp add: key_line_trim [OF assms])
qed

lemma key_of_pair:
  assumes "clean_pair kv"
  shows "trim (fst kv @ '' '') = fst kv" "trim (if snd kv = [] then [] else '' '' @ snd kv) = snd kv"
  using assms trim_trimmed [of "fst kv"] trim_trimmed [of "snd kv"]
  by (auto simp: trim_snoc trim_cons space_chars clean_pair_def)

lemma scan_key_pairs: "list_all clean_pair kvs \<Longrightarrow> scan_key (map key_line kvs) key = map_of kvs key"
proof (induction kvs)
  case (Cons kv kvs)
  then have c: "clean_pair kv" by simp
  show ?case
    using Cons key_line_clean [OF c] key_of_pair [OF c] by (cases kv) (simp add: Let_def)
qed simp

lemma control_chars:
  "line_feed \<noteq> CHR ''[''" "line_feed \<noteq> CHR '']''" "line_feed \<noteq> CHR '' ''" "line_feed \<noteq> CHR ''=''"
  "char_of (13 :: nat) \<noteq> CHR '']''" "char_of (13 :: nat) \<noteq> CHR '' ''"
  by code_simp+

lemma line_ends:
  "clean_pair kv \<Longrightarrow> line_feed \<notin> set (key_line kv) \<and> \<not> ends_with_char (char_of (13 :: nat)) (key_line kv)"
  "clean_profile p \<Longrightarrow> line_feed \<notin> set (''['' @ fst p @ '']'') \<and> \<not> ends_with_char (char_of (13 :: nat)) (''['' @ fst p @ '']'')"
  using space_chars(2) control_chars
  by (auto simp: key_line_def clean_pair_def clean_profile_def ends_with_char_def no_outer_space_def)

lemma render_lines:
  assumes "list_all clean_profile ps"
  shows "str_lines (render_profiles ps) = concat (map profile_lines ps)"
  unfolding render_profiles_def
proof (rule str_lines_unlines)
  fix l
  assume "l \<in> set (concat (map profile_lines ps))"
  then obtain p where p: "p \<in> set ps" "l \<in> set (profile_lines p)" by auto
  with assms have "clean_profile p" by (simp add: list_all_iff)
  with p(2) line_ends(2) [of p] line_ends(1)
  show "line_feed \<notin> set l \<and> \<not> ends_with_char (char_of (13 :: nat)) l"
    by (auto simp: profile_lines_def clean_profile_def list_all_iff)
qed

lemma scan_pairs_in:
  "list_all clean_pair kvs \<Longrightarrow>
   scan_section (map key_line kvs @ rest) target True body = scan_section rest target True (body @ unlines (map key_line kvs))"
  by (induction kvs arbitrary: body) (simp_all add: key_line_clean unlines_def Let_def)

lemma scan_pairs_out:
  "list_all clean_pair kvs \<Longrightarrow>
   scan_section (map key_line kvs @ rest) target False body = scan_section rest target False body"
  by (induction kvs arbitrary: body) (simp_all add: key_line_clean Let_def)

lemma scan_after: "list_all clean_profile ps \<Longrightarrow> scan_section (concat (map profile_lines ps)) target True body = Some body"
  using header_line by (cases ps) (simp_all add: profile_lines_def Let_def)

lemma scan_profiles:
  "list_all clean_profile ps \<Longrightarrow>
   scan_section (concat (map profile_lines ps)) target False [] = map_option (\<lambda>kvs. unlines (map key_line kvs)) (map_of ps target)"
proof (induction ps)
  case (Cons p ps)
  obtain n kvs where p: "p = (n, kvs)" by (cases p)
  have c: "list_all clean_pair kvs" "list_all clean_profile ps"
    using Cons.prems by (simp_all add: p) (simp add: clean_profile_def)
  show ?case
    using Cons.IH [OF c(2)] scan_pairs_in [OF c(1)] scan_pairs_out [OF c(1)] scan_after [OF c(2)] header_line [of n]
    by (simp add: p profile_lines_def [of "(n, kvs)"] Let_def)
qed simp

lemma section_keys:
  "list_all clean_pair kvs \<Longrightarrow> get_optional_key (unlines (map key_line kvs)) key = map_of kvs key"
proof -
  assume c: "list_all clean_pair kvs"
  then have "str_lines (unlines (map key_line kvs)) = map key_line kvs"
    by (intro str_lines_unlines) (auto simp: list_all_iff dest: line_ends(1))
  with c show ?thesis by (simp add: get_optional_key_def scan_key_pairs)
qed

text \<open>C27: a credentials file of well-formed profiles gives exactly what it says. The first section
  with the profile's name counts, in it the first line of each key, with the white space around
  keys and values ignored; a profile or key that is missing is reported as such, and no key of another
  section is ever used.\<close>

theorem profile_file_exact:
  assumes "list_all clean_profile ps" "ah_exists H path" "ah_read H path = Inr (render_profiles ps)"
  shows "resolve H password (AwsProfile profile (Some path)) =
    (case map_of ps profile of
       None \<Rightarrow> Inl (AwsProfileNotFound profile path)
     | Some kvs \<Rightarrow> (case (map_of kvs ''aws_access_key_id'', map_of kvs ''aws_secret_access_key'') of
         (Some k, Some s) \<Rightarrow> Inr \<lparr>fc_access_key_id = k, fc_secret_access_key = s,
             fc_session_token = map_of kvs ''aws_session_token'', fc_expiry = None\<rparr>
       | (None, _) \<Rightarrow> Inl (AwsProfileMissingKey profile ''aws_access_key_id'')
       | (Some _, None) \<Rightarrow> Inl (AwsProfileMissingKey profile ''aws_secret_access_key'')))"
proof -
  have found: "find_section (render_profiles ps) profile
      = map_option (\<lambda>kvs. unlines (map key_line kvs)) (map_of ps profile)"
    by (simp add: find_section_def render_lines [OF assms(1)] scan_profiles [OF assms(1)])
  show ?thesis
  proof (cases "map_of ps profile")
    case None
    with found assms show ?thesis by (simp add: resolve_def resolve_profile_def)
  next
    case (Some kvs)
    with assms(1) have "list_all clean_pair kvs"
      by (auto simp: list_all_iff clean_profile_def dest!: map_of_SomeD)
    with found Some assms section_keys [of kvs] show ?thesis
      by (simp add: resolve_def resolve_profile_def get_required_key_def split: option.split)
  qed
qed

definition demo_profiles :: "profile list" where
  "demo_profiles = [(''work'', [(''aws_access_key_id'', ''W'')]),
     (''home'', [(''aws_access_key_id'', ''AK''), (''region'', ''''), (''aws_secret_access_key'', ''S='')])]"

theorem profile_file_exact_witness:
  "resolve (quiet_host\<lparr>ah_read := (\<lambda>p. Inr (render_profiles demo_profiles))\<rparr>) ''pw'' (AwsProfile ''home'' (Some ''/c''))
     = Inr \<lparr>fc_access_key_id = ''AK'', fc_secret_access_key = ''S='', fc_session_token = None, fc_expiry = None\<rparr>"
proof -
  have "list_all clean_profile demo_profiles" by code_simp
  from profile_file_exact [OF this, of "quiet_host\<lparr>ah_read := (\<lambda>p. Inr (render_profiles demo_profiles))\<rparr>" "''/c''" "''pw''" "''home''"]
  show ?thesis by (simp add: quiet_host_def) (simp add: demo_profiles_def)
qed

section \<open>The container round trip\<close>

lemma text_of_as_bytes: "text_of (as_bytes s) = s"
  by (induction s) (simp_all add: text_of_def as_bytes_def unat_of_nat take_bit_nat_eq_self)

lemma MAGIC_length [simp]: "length MAGIC = 4"
  by (simp add: MAGIC_def as_bytes_def)

text \<open>What the container relies on: base64 decodes what it encodes and emits no white space, the
  AEAD opens what it sealed with the same key, nonce and associated data, and its output has the tag.\<close>

definition aead_laws :: "auth_host \<Rightarrow> bool" where
  "aead_laws H = ((\<forall>b. ah_b64_decode H (trim (ah_b64_encode H b)) = Inr b)
     \<and> (\<forall>k n a m c. ah_aead_encrypt H k n a m = Some c \<longrightarrow>
          TAG_LEN \<le> length c \<and> ah_aead_decrypt H k n a c = Some m))"

text \<open>C28: a secret that was encrypted into a container is given back by the resolver for the same
  password. With another password it is a decryption error, not a malformed container, whenever the
  AEAD refuses the other key: the container is always well formed.\<close>

theorem container_roundtrip:
  assumes "aead_laws H" "length salt = SALT_LEN" "length nonce = NONCE_LEN" "valid_utf8 secret"
    and "encrypt_credential H (Inr salt) (Inr nonce) secret password = Inr container"
  shows "\<exists>key sealed. ah_argon2 H (as_bytes password) salt = Inr key
    \<and> ah_aead_encrypt H key nonce MAGIC (as_bytes secret) = Some sealed
    \<and> resolve H password (RstCred1 key_id container) =
        Inr \<lparr>fc_access_key_id = key_id, fc_secret_access_key = secret, fc_session_token = None, fc_expiry = None\<rparr>
    \<and> (\<forall>other k. ah_argon2 H (as_bytes other) salt = Inr k \<longrightarrow> ah_aead_decrypt H k nonce MAGIC sealed = None \<longrightarrow>
        resolve H other (RstCred1 key_id container) = Inl RstCred1Decryption)"
proof -
  obtain key sealed where key: "ah_argon2 H (as_bytes password) salt = Inr key"
    and sealed: "ah_aead_encrypt H key nonce MAGIC (as_bytes secret) = Some sealed"
    and container: "container = ah_b64_encode H (MAGIC @ salt @ nonce @ sealed)"
    using assms(5) by (auto simp: encrypt_credential_def derive_key_def rbind_eq_Inr)
  have laws: "ah_b64_decode H (trim container) = Inr (MAGIC @ salt @ nonce @ sealed)"
    "TAG_LEN \<le> length sealed" "ah_aead_decrypt H key nonce MAGIC sealed = Some (as_bytes secret)"
    using assms(1) sealed container by (auto simp: aead_laws_def)
  have parts: "take 16 (drop 4 (MAGIC @ salt @ nonce @ sealed)) = salt"
    "take 12 (drop 20 (MAGIC @ salt @ nonce @ sealed)) = nonce"
    "drop 32 (MAGIC @ salt @ nonce @ sealed) = sealed"
    using assms(2,3) by (simp_all add: SALT_LEN_def NONCE_LEN_def)
  have dec: "decrypt_credential H container pw = rbind (derive_key H pw salt) (\<lambda>k.
      rbind (ok_or RstCred1Decryption (ah_aead_decrypt H k nonce MAGIC sealed)) (\<lambda>plaintext.
      if valid_utf8 (text_of plaintext) then Inr (text_of plaintext) else Inl (RstCred1Malformed ''not UTF-8'')))" for pw
    using laws(1,2) assms(2,3) parts
    by (simp add: decrypt_credential_def header_len_def SALT_LEN_def NONCE_LEN_def Let_def)
  show ?thesis
    using key sealed laws(3) assms(4)
    by (auto simp: resolve_def resolve_rstcred1_def dec derive_key_def text_of_as_bytes)
qed

text \<open>A host with hexadecimal digits in place of base64 and a cipher that only tags.\<close>

fun unhex :: "string \<Rightarrow> bytes" where
  "unhex (c # d # s) = (case (hex_nibble c, hex_nibble d) of
     (Some m, Some n) \<Rightarrow> of_nat (16 * m + n) # unhex s
   | _ \<Rightarrow> [])"
| "unhex _ = []"

definition to_hex :: "bytes \<Rightarrow> string" where
  "to_hex b = concat (map (\<lambda>w. [hex_upper (unat w div 16), hex_upper (unat w)]) b)"

lemma unhex_to_hex: "unhex (to_hex b) = b"
proof (induction b)
  case (Cons w b)
  have "unat w < 16 * 16" using unat_byte [of w] by simp
  then have "unat w div 16 mod 16 = unat w div 16" by (simp add: less_mult_imp_div_less)
  then have "16 * (unat w div 16 mod 16) + unat w mod 16 = unat w" by simp
  then have "word_of_nat (16 * (unat w div 16 mod 16) + unat w mod 16) = w" by (subst \<open>_ = unat w\<close>) simp
  with Cons show ?case by (simp add: to_hex_def hex_nibble_upper del: of_nat_add of_nat_mult mod_mod_trivial)
qed (simp add: to_hex_def)

lemma to_hex_trim: "trim (to_hex b) = to_hex b"
proof (cases "b = []")
  case False
  have "list_all (\<lambda>n. \<not> is_space (hex_upper n)) [0..<16]" by code_simp
  then have "\<not> is_space (hex_upper (n mod 16))" for n by (simp add: list_all_iff)
  then have nosp: "\<not> is_space (hex_upper n)" for n by (simp add: hex_upper_def)
  have "to_hex b \<noteq> []" "set (to_hex b) \<subseteq> range hex_upper" using False by (cases b; auto simp: to_hex_def)+
  with hd_in_set last_in_set have "hd (to_hex b) \<in> range hex_upper" "last (to_hex b) \<in> range hex_upper" by blast+
  with nosp \<open>to_hex b \<noteq> []\<close> show ?thesis by (intro trim_id) auto
qed (simp add: to_hex_def trim_def trim_start_def trim_end_def)

definition sealing_host :: auth_host where
  "sealing_host = quiet_host\<lparr>ah_b64_encode := to_hex, ah_b64_decode := (\<lambda>s. Inr (unhex s)),
     ah_argon2 := (\<lambda>p s. Inr p),
     ah_aead_encrypt := (\<lambda>k n a m. Some (m @ replicate 16 (of_nat (length k)))),
     ah_aead_decrypt := (\<lambda>k n a c. if drop (length c - 16) c = replicate 16 (of_nat (length k))
       then Some (take (length c - 16) c) else None)\<rparr>"

lemma sealing_laws: "aead_laws sealing_host"
  by (auto simp: aead_laws_def sealing_host_def to_hex_trim unhex_to_hex TAG_LEN_def)

theorem container_roundtrip_witness:
  "\<exists>container. encrypt_credential sealing_host (Inr (replicate 16 1)) (Inr (replicate 12 2)) ''key'' ''pw'' = Inr container
    \<and> resolve sealing_host ''pw'' (RstCred1 ''AK'' container) =
        Inr \<lparr>fc_access_key_id = ''AK'', fc_secret_access_key = ''key'', fc_session_token = None, fc_expiry = None\<rparr>
    \<and> resolve sealing_host ''other'' (RstCred1 ''AK'' container) = Inl RstCred1Decryption"
proof -
  obtain container where c: "encrypt_credential sealing_host (Inr (replicate 16 1)) (Inr (replicate 12 2)) ''key'' ''pw'' = Inr container"
    by (simp add: encrypt_credential_def derive_key_def sealing_host_def)
  have "valid_utf8 ''key''" by code_simp
  from container_roundtrip [OF sealing_laws _ _ this c, of "''AK''"] obtain sealed where
    sealed: "ah_aead_encrypt sealing_host (as_bytes ''pw'') (replicate 12 2) MAGIC (as_bytes ''key'') = Some sealed"
    and ok: "resolve sealing_host ''pw'' (RstCred1 ''AK'' container) =
        Inr \<lparr>fc_access_key_id = ''AK'', fc_secret_access_key = ''key'', fc_session_token = None, fc_expiry = None\<rparr>"
    and bad: "\<And>other k. ah_argon2 sealing_host (as_bytes other) (replicate 16 1) = Inr k \<Longrightarrow>
        ah_aead_decrypt sealing_host k (replicate 12 2) MAGIC sealed = None \<Longrightarrow>
        resolve sealing_host other (RstCred1 ''AK'' container) = Inl RstCred1Decryption"
    by (auto simp: SALT_LEN_def NONCE_LEN_def sealing_host_def)
  have "resolve sealing_host ''other'' (RstCred1 ''AK'' container) = Inl RstCred1Decryption"
    by (rule bad) (use sealed in \<open>auto simp: sealing_host_def as_bytes_def\<close>)
  with c ok show ?thesis by blast
qed

end
