(* ===== verification/Commands.thy ===== *)
theory Commands
  imports Strings
begin

text \<open>
  The command registry of the terminal interface (\<open>falach-tui/src/command/registry.rs\<close>): the
  commands, the groups and contexts they belong to, and the table with one row for each.
  A set of contexts is the 16 bit mask of the source.
\<close>

unbundle bit_operations_syntax

section \<open>Commands and groups\<close>

datatype command =
    Quit | LockNow | Help | Cancel | Confirm | Next | Prev | Parent
  | Child | JumpBack | JumpForward | NextTab | PrevTab | JumpToTab | CycleScope | QuickSelect
  | OpenEntry | FocusPane | Search | AddEntry | EditEntry | DeleteEntry | CopyPassword | CopyUsername
  | RevealPassword | History | PinToggle | SortCycle | VisualMode | MoveToGroup | AddTag | RemoveTag
  | Sync | Generate

datatype group_name =
    GlobalGroup | NavigationGroup | TabsGroup | SecretsGroup | SearchGroup | EditGroup | SyncGroup | SettingsGroup

definition group_label :: "group_name \<Rightarrow> string" where
  "group_label g = (case g of
     GlobalGroup \<Rightarrow> ''Global'' | NavigationGroup \<Rightarrow> ''Navigation'' | TabsGroup \<Rightarrow> ''Tabs''
   | SecretsGroup \<Rightarrow> ''Secrets'' | SearchGroup \<Rightarrow> ''Search'' | EditGroup \<Rightarrow> ''Edit''
   | SyncGroup \<Rightarrow> ''Sync'' | SettingsGroup \<Rightarrow> ''Settings'')"

definition group_rank :: "group_name \<Rightarrow> nat" where
  "group_rank g = (case g of
     GlobalGroup \<Rightarrow> 0 | NavigationGroup \<Rightarrow> 1 | TabsGroup \<Rightarrow> 2 | SecretsGroup \<Rightarrow> 3
   | SearchGroup \<Rightarrow> 4 | EditGroup \<Rightarrow> 5 | SyncGroup \<Rightarrow> 6 | SettingsGroup \<Rightarrow> 7)"

section \<open>Contexts\<close>

type_synonym contexts = "16 word"

definition UNLOCK_LIST :: contexts where "UNLOCK_LIST = push_bit 0 1"

definition UNLOCK_PROMPT :: contexts where "UNLOCK_PROMPT = push_bit 1 1"

definition LOCK_SCREEN :: contexts where "LOCK_SCREEN = push_bit 2 1"

definition SECRETS_TREE :: contexts where "SECRETS_TREE = push_bit 3 1"

definition SECRETS_DETAIL :: contexts where "SECRETS_DETAIL = push_bit 4 1"

definition PINNED_TAB :: contexts where "PINNED_TAB = push_bit 5 1"

definition SETTINGS_TAB :: contexts where "SETTINGS_TAB = push_bit 6 1"

definition SEARCH_CTX :: contexts where "SEARCH_CTX = push_bit 7 1"

definition EDIT_CTX :: contexts where "EDIT_CTX = push_bit 8 1"

definition HISTORY_CTX :: contexts where "HISTORY_CTX = push_bit 9 1"

definition CONFIRM_CTX :: contexts where "CONFIRM_CTX = push_bit 10 1"

definition PALETTE_CTX :: contexts where "PALETTE_CTX = push_bit 11 1"

definition SYNC_UNLOCK :: contexts where "SYNC_UNLOCK = push_bit 12 1"

definition SYNC_CONFIG :: contexts where "SYNC_CONFIG = push_bit 13 1"

definition BIT_COUNT :: nat where "BIT_COUNT = 14"

definition WORKSPACE :: contexts where
  "WORKSPACE = SECRETS_TREE OR SECRETS_DETAIL OR PINNED_TAB OR SETTINGS_TAB"

definition ALL_CONTEXTS :: contexts where "ALL_CONTEXTS = push_bit BIT_COUNT 1 - 1"

definition ctx_contains :: "contexts \<Rightarrow> contexts \<Rightarrow> bool" where
  "ctx_contains a b = (a AND b \<noteq> 0)"

definition context_names :: "contexts \<Rightarrow> string list" where
  "context_names c = map snd (filter (\<lambda>(bit, _). ctx_contains c bit)
     [(UNLOCK_LIST, ''unlock-list''),
      (UNLOCK_PROMPT, ''unlock-prompt''),
      (LOCK_SCREEN, ''lock-screen''),
      (SECRETS_TREE, ''secrets-tree''),
      (SECRETS_DETAIL, ''secrets-detail''),
      (PINNED_TAB, ''pinned-tab''),
      (SETTINGS_TAB, ''settings-tab''),
      (SEARCH_CTX, ''search''),
      (EDIT_CTX, ''edit''),
      (HISTORY_CTX, ''history''),
      (CONFIRM_CTX, ''confirm''),
      (PALETTE_CTX, ''palette''),
      (SYNC_UNLOCK, ''sync-unlock''),
      (SYNC_CONFIG, ''sync-config'')])"

definition TREE_DETAIL :: contexts where "TREE_DETAIL = SECRETS_TREE OR SECRETS_DETAIL"

definition TREE_DETAIL_PINNED :: contexts where "TREE_DETAIL_PINNED = TREE_DETAIL OR PINNED_TAB"

section \<open>The table\<close>

datatype cmd_state = Enabled | Disabled | Hidden

datatype command_spec = command_spec (cs_id: command) (cs_name: string) (cs_desc: string)
  (cs_group: group_name) (cs_contexts: contexts) (cs_order: nat) (cs_quick_bar: bool)

definition COMMANDS :: "command_spec list" where
  "COMMANDS =
    [command_spec Quit ''quit'' ''quit'' GlobalGroup ALL_CONTEXTS 0 False,
     command_spec LockNow ''lock-now'' ''lock now'' GlobalGroup WORKSPACE 10 False,
     command_spec Help ''help'' ''help'' GlobalGroup (WORKSPACE OR UNLOCK_LIST OR LOCK_SCREEN) 20 True,
     command_spec Cancel ''cancel'' ''cancel / back'' GlobalGroup (SECRETS_DETAIL OR UNLOCK_PROMPT OR SEARCH_CTX OR EDIT_CTX OR HISTORY_CTX OR CONFIRM_CTX OR SYNC_UNLOCK OR SYNC_CONFIG) 30 False,
     command_spec Confirm ''confirm'' ''confirm / open'' GlobalGroup (SECRETS_TREE OR UNLOCK_LIST OR SETTINGS_TAB OR SEARCH_CTX OR EDIT_CTX OR HISTORY_CTX OR CONFIRM_CTX OR SYNC_CONFIG) 40 False,
     command_spec Next ''next'' ''down'' NavigationGroup (TREE_DETAIL_PINNED OR UNLOCK_LIST OR SETTINGS_TAB OR HISTORY_CTX OR SEARCH_CTX) 50 True,
     command_spec Prev ''prev'' ''up'' NavigationGroup (TREE_DETAIL_PINNED OR UNLOCK_LIST OR SETTINGS_TAB OR HISTORY_CTX OR SEARCH_CTX) 60 True,
     command_spec Parent ''parent'' ''collapse / parent'' NavigationGroup TREE_DETAIL 70 False,
     command_spec Child ''child'' ''expand / open'' NavigationGroup TREE_DETAIL 80 False,
     command_spec JumpBack ''jump-back'' ''jump back'' NavigationGroup (TREE_DETAIL OR PINNED_TAB) 82 False,
     command_spec JumpForward ''jump-forward'' ''jump forward'' NavigationGroup SECRETS_TREE 84 False,
     command_spec NextTab ''next-tab'' ''next tab'' TabsGroup WORKSPACE 90 False,
     command_spec PrevTab ''prev-tab'' ''previous tab'' TabsGroup WORKSPACE 100 False,
     command_spec JumpToTab ''jump-to-tab'' ''jump to tab N'' TabsGroup WORKSPACE 110 False,
     command_spec CycleScope ''cycle-scope'' ''cycle scope'' SearchGroup SEARCH_CTX 132 False,
     command_spec QuickSelect ''quick-select'' ''quick-select result'' SearchGroup SEARCH_CTX 134 False,
     command_spec OpenEntry ''open-entry'' ''secondary search action'' SearchGroup SEARCH_CTX 136 False,
     command_spec FocusPane ''focus-pane'' ''focus tree / detail'' NavigationGroup TREE_DETAIL 120 False,
     command_spec Search ''search'' ''search'' SearchGroup TREE_DETAIL 130 True,
     command_spec AddEntry ''add-entry'' ''add entry'' SecretsGroup TREE_DETAIL 140 True,
     command_spec EditEntry ''edit-entry'' ''edit entry'' SecretsGroup TREE_DETAIL 150 True,
     command_spec DeleteEntry ''delete-entry'' ''delete entry'' SecretsGroup TREE_DETAIL 160 False,
     command_spec CopyPassword ''copy-password'' ''copy password'' SecretsGroup TREE_DETAIL 170 True,
     command_spec CopyUsername ''copy-username'' ''copy username'' SecretsGroup TREE_DETAIL 180 False,
     command_spec RevealPassword ''reveal-password'' ''reveal / hide password'' SecretsGroup TREE_DETAIL_PINNED 190 False,
     command_spec History ''history'' ''history'' SecretsGroup TREE_DETAIL_PINNED 200 False,
     command_spec PinToggle ''pin-toggle'' ''pin / unpin tab'' SecretsGroup TREE_DETAIL 210 False,
     command_spec SortCycle ''sort-cycle'' ''cycle sort order'' SecretsGroup TREE_DETAIL 220 False,
     command_spec VisualMode ''visual-mode'' ''visual select'' NavigationGroup SECRETS_TREE 222 False,
     command_spec MoveToGroup ''move-to-group'' ''move to group'' SecretsGroup SECRETS_TREE 224 False,
     command_spec AddTag ''add-tag'' ''add tag'' SecretsGroup SECRETS_TREE 226 False,
     command_spec RemoveTag ''remove-tag'' ''remove tag'' SecretsGroup SECRETS_TREE 228 False,
     command_spec Sync ''sync'' ''sync'' SyncGroup TREE_DETAIL 230 False,
     command_spec Generate ''generate'' ''generate'' EditGroup EDIT_CTX 240 False]"

definition spec_for :: "command \<Rightarrow> command_spec option" where
  "spec_for c = find (\<lambda>s. cs_id s = c) COMMANDS"

text \<open>The commands of a context with their enablement, stably sorted by their place in the hint bar.\<close>

definition commands_for_specs ::
    "command_spec list \<Rightarrow> contexts \<Rightarrow> (command \<Rightarrow> cmd_state) \<Rightarrow> (command_spec \<times> cmd_state) list" where
  "commands_for_specs specs ctx state =
     sort_key (\<lambda>p. cs_order (fst p))
       (map (\<lambda>s. (s, state (cs_id s))) (filter (\<lambda>s. ctx_contains (cs_contexts s) ctx) specs))"

definition command_by_name :: "string \<Rightarrow> command option" where
  "command_by_name name = map_option cs_id (find (\<lambda>s. cs_name s = name) COMMANDS)"

section \<open>Every command has one row\<close>

lemma ctx_contains_sym: "ctx_contains a b = ctx_contains b a"
  by (simp add: ctx_contains_def and.commute)

lemma table_ids: "map cs_id COMMANDS = [Quit, LockNow, Help, Cancel, Confirm, Next, Prev, Parent, Child, JumpBack, JumpForward, NextTab, PrevTab, JumpToTab, CycleScope, QuickSelect, OpenEntry, FocusPane, Search, AddEntry, EditEntry, DeleteEntry, CopyPassword, CopyUsername, RevealPassword, History, PinToggle, SortCycle, VisualMode, MoveToGroup, AddTag, RemoveTag, Sync, Generate]"
  by (simp add: COMMANDS_def)

lemma spec_for_total: "\<exists>s. spec_for c = Some s \<and> cs_id s = c"
  by (cases c) (simp_all add: spec_for_def COMMANDS_def)

lemma table_names_distinct: "distinct (map cs_name COMMANDS)"
  by (simp add: COMMANDS_def)

lemma find_distinct_key:
  "distinct (map f xs) \<Longrightarrow> x \<in> set xs \<Longrightarrow> find (\<lambda>y. f y = f x) xs = Some x"
  by (induction xs) (auto simp: image_iff)

lemma command_by_name_inj:
  assumes "command_by_name n = Some c" "command_by_name m = Some c"
  shows "n = m"
proof -
  from assms obtain s t where s: "s \<in> set COMMANDS" "cs_name s = n" "cs_id s = c"
    and t: "t \<in> set COMMANDS" "cs_name t = m" "cs_id t = c"
    by (auto simp: command_by_name_def find_Some_iff) (metis nth_mem)+
  have "distinct (map cs_id COMMANDS)" by (simp add: table_ids)
  with s t have "s = t" by (metis distinct_map inj_onD)
  with s t show ?thesis by simp
qed

end
