(* ===== verification/Keymap.thy ===== *)
theory Keymap
  imports Commands
begin

text \<open>
  Keys of the terminal interface (\<open>falach-tui/src/command/keymap.rs\<close>): triggers and presets, the
  resolver of tab motions with its pending prefix and count, the key-string grammar, and the
  patch of a preset by the user's configuration with its rejection of conflicting bindings. Of the
  modifiers only the three the code looks at are kept; a character is one byte.
\<close>

section \<open>Key events and triggers\<close>

datatype key_code =
    KChar char | KEnter | KEsc | KTab | KBackTab | KUp | KDown | KLeft | KRight
  | KHome | KEnd | KPageUp | KPageDown | KF nat | KOther string

record key_event =
  ke_code :: key_code
  ke_ctrl :: bool
  ke_alt :: bool
  ke_shift :: bool

datatype key_trigger = Key key_event | KeySeq "key_event list" | CountSeq "key_event list"

datatype preset = Vim | Plain

definition key_event_eq :: "key_event \<Rightarrow> key_event \<Rightarrow> bool" where
  "key_event_eq bound ev =
     (ke_code bound = ke_code ev \<and> ke_ctrl bound = ke_ctrl ev \<and> ke_alt bound = ke_alt ev
      \<and> ((case ke_code bound of KChar _ \<Rightarrow> True | _ \<Rightarrow> False) \<or> ke_shift bound = ke_shift ev))"

fun seq_eq :: "key_event list \<Rightarrow> key_event list \<Rightarrow> bool" where
  "seq_eq [] [] = True"
| "seq_eq (a # as) (b # bs) = (key_event_eq a b \<and> seq_eq as bs)"
| "seq_eq _ _ = False"

fun prefix_matches :: "key_event list \<Rightarrow> key_event list \<Rightarrow> bool" where
  "prefix_matches s [] = True"
| "prefix_matches (a # as) (b # bs) = (key_event_eq a b \<and> prefix_matches as bs)"
| "prefix_matches [] (b # bs) = False"

definition plain_key :: "key_code \<Rightarrow> key_event" where
  "plain_key k = \<lparr>ke_code = k, ke_ctrl = False, ke_alt = False, ke_shift = False\<rparr>"

definition ch_ev :: "char \<Rightarrow> key_event" where
  "ch_ev c = plain_key (KChar c)"

definition ch :: "char \<Rightarrow> key_trigger" where
  "ch c = Key (ch_ev c)"

definition ctrl :: "char \<Rightarrow> key_trigger" where
  "ctrl c = Key ((ch_ev c)\<lparr>ke_ctrl := True\<rparr>)"

definition alt :: "char \<Rightarrow> key_trigger" where
  "alt c = Key ((ch_ev c)\<lparr>ke_alt := True\<rparr>)"

definition code :: "key_code \<Rightarrow> key_trigger" where
  "code k = Key (plain_key k)"

definition alt_code :: "key_code \<Rightarrow> key_trigger" where
  "alt_code k = Key ((plain_key k)\<lparr>ke_alt := True\<rparr>)"

section \<open>Presets\<close>

type_synonym key_row = "contexts \<times> key_trigger \<times> command"

definition alt_digit_jumps :: "(command \<times> key_trigger) list" where
  "alt_digit_jumps = map (\<lambda>d. (JumpToTab, alt d)) ''123456789''"

definition shared_pairs :: "(command \<times> key_trigger) list" where
  "shared_pairs =
    [(Quit, ctrl CHR ''q''), (LockNow, ctrl CHR ''l''), (Help, ch CHR ''?''), (Cancel, code KEsc),
     (Confirm, code KEnter),
     (Next, ch CHR ''j''), (Next, code KDown), (Prev, ch CHR ''k''), (Prev, code KUp),
     (Parent, ch CHR ''h''), (Parent, code KLeft), (Child, ch CHR ''l''), (Child, code KRight),
     (JumpBack, ctrl CHR ''o''), (JumpBack, alt_code KLeft),
     (JumpForward, ctrl CHR ''i''), (JumpForward, alt_code KRight),
     (CycleScope, ctrl CHR ''s''), (OpenEntry, code KTab)]
     @ map (\<lambda>d. (QuickSelect, alt d)) ''123456789''
     @ [(FocusPane, code KTab), (Search, ch CHR ''/''), (AddEntry, ch CHR ''a''), (EditEntry, ch CHR ''e''),
     (DeleteEntry, ch CHR ''d''), (CopyPassword, ch CHR ''c''), (CopyUsername, ch CHR ''C''),
     (RevealPassword, ch CHR '' ''), (History, ch CHR ''H''), (PinToggle, ch CHR ''p''),
     (SortCycle, ch CHR ''o''),
     (VisualMode, ch CHR ''v''), (MoveToGroup, ch CHR ''m''), (AddTag, ch CHR ''t''), (RemoveTag, ch CHR ''T''),
     (Sync, ch CHR ''s''), (Generate, ctrl CHR ''g'')]"

definition preset_pairs :: "preset \<Rightarrow> (command \<times> key_trigger) list" where
  "preset_pairs p = shared_pairs @ (case p of
     Vim \<Rightarrow> [(NextTab, KeySeq [ch_ev CHR ''g'', ch_ev CHR ''t'']), (PrevTab, KeySeq [ch_ev CHR ''g'', ch_ev CHR ''T'']),
             (JumpToTab, CountSeq [ch_ev CHR ''g'', ch_ev CHR ''t''])]
   | Plain \<Rightarrow> [(NextTab, ch CHR '']''), (PrevTab, ch CHR ''[''), (Help, code (KF 1))]) @ alt_digit_jumps"

text \<open>Each pair with its command's contexts; the source panics for an unregistered command.\<close>

definition preset_map :: "preset \<Rightarrow> key_row list option" where
  "preset_map p = those (map (\<lambda>(cmd, t). map_option (\<lambda>s. (cs_contexts s, t, cmd)) (spec_for cmd)) (preset_pairs p))"

section \<open>Queries\<close>

definition key_matches :: "key_row list \<Rightarrow> command \<Rightarrow> key_event \<Rightarrow> bool" where
  "key_matches km c ev = list_ex (\<lambda>(_, t, cmd). cmd = c \<and> (case t of Key k \<Rightarrow> key_event_eq k ev | _ \<Rightarrow> False)) km"

definition triggers_for :: "key_row list \<Rightarrow> contexts \<Rightarrow> command \<Rightarrow> key_trigger list" where
  "triggers_for km ctx c = map (fst \<circ> snd) (filter (\<lambda>(x, _, cmd). cmd = c \<and> ctx_contains x ctx) km)"

definition is_tab_command :: "command \<Rightarrow> bool" where
  "is_tab_command c = (c = NextTab \<or> c = PrevTab \<or> c = JumpToTab)"

definition digit_of :: "char \<Rightarrow> nat option" where
  "digit_of c = (if is_digit c then Some (digit_value c) else None)"

definition alt_digit :: "key_event \<Rightarrow> nat option" where
  "alt_digit ev = (if ke_alt ev then
     (case ke_code ev of
        KChar c \<Rightarrow> (case digit_of c of Some d \<Rightarrow> if d \<noteq> 0 then Some d else None | None \<Rightarrow> None)
      | _ \<Rightarrow> None) else None)"

definition plain_digit :: "key_event \<Rightarrow> nat option" where
  "plain_digit ev = (if ke_ctrl ev \<or> ke_alt ev then None
     else (case ke_code ev of KChar c \<Rightarrow> digit_of c | _ \<Rightarrow> None))"

section \<open>The resolver of tab motions\<close>

datatype resolution = RCommand command "nat option" | RPending "(key_event \<times> command_spec) list" | RNone

record pending_seq =
  ps_prefix :: "key_event list"
  ps_count :: "nat option"
  ps_since :: "nat option"

definition no_pending :: pending_seq where
  "no_pending = \<lparr>ps_prefix = [], ps_count = None, ps_since = None\<rparr>"

definition seq_keys :: "key_trigger \<Rightarrow> key_event list option" where
  "seq_keys t = (case t of Key _ \<Rightarrow> None | KeySeq s \<Rightarrow> Some s | CountSeq s \<Rightarrow> Some s)"

definition tab_rows :: "key_row list \<Rightarrow> contexts \<Rightarrow> (key_trigger \<times> command) list" where
  "tab_rows km ctx = map snd (filter (\<lambda>(x, _, cmd). is_tab_command cmd \<and> ctx_contains x ctx) km)"

definition sequence_triggers :: "key_row list \<Rightarrow> contexts \<Rightarrow> key_event list list" where
  "sequence_triggers km ctx = List.map_filter (\<lambda>(t, _). seq_keys t) (tab_rows km ctx)"

definition ctx_has_count_seq :: "key_row list \<Rightarrow> contexts \<Rightarrow> bool" where
  "ctx_has_count_seq km ctx =
     list_ex (\<lambda>(t, _). case t of CountSeq _ \<Rightarrow> True | _ \<Rightarrow> False) (tab_rows km ctx)"

fun continuation_rows ::
    "(key_trigger \<times> command) list \<Rightarrow> key_event list \<Rightarrow> (key_event \<times> command_spec) list \<Rightarrow>
     (key_event \<times> command_spec) list" where
  "continuation_rows [] prefix out = out"
| "continuation_rows ((t, cmd) # rows) prefix out =
     (case seq_keys t of
        None \<Rightarrow> continuation_rows rows prefix out
      | Some keys \<Rightarrow>
          if length prefix < length keys \<and> prefix_matches keys prefix
             \<and> \<not> list_ex (\<lambda>(k, _). key_event_eq k (keys ! length prefix)) out
          then continuation_rows rows prefix
                 (case spec_for cmd of Some s \<Rightarrow> out @ [(keys ! length prefix, s)] | None \<Rightarrow> out)
          else continuation_rows rows prefix out)"

definition continuations :: "key_row list \<Rightarrow> contexts \<Rightarrow> key_event list \<Rightarrow> (key_event \<times> command_spec) list" where
  "continuations km ctx prefix = continuation_rows (tab_rows km ctx) prefix []"

text \<open>The later of two rows with the same keys counts, as in the loop of the source.\<close>

fun seq_command :: "(key_trigger \<times> command) list \<Rightarrow> key_event list \<Rightarrow> command option \<Rightarrow> command option" where
  "seq_command [] keys found = found"
| "seq_command ((t, cmd) # rows) keys found = seq_command rows keys
     (case t of KeySeq s \<Rightarrow> if seq_eq s keys then Some cmd else found | _ \<Rightarrow> found)"

fun count_command :: "(key_trigger \<times> command) list \<Rightarrow> key_event list \<Rightarrow> command option \<Rightarrow> command option" where
  "count_command [] keys found = found"
| "count_command ((t, cmd) # rows) keys found = count_command rows keys
     (case t of CountSeq s \<Rightarrow> if seq_eq s keys then Some cmd else found | _ \<Rightarrow> found)"

definition opt_or :: "'a option \<Rightarrow> 'a option \<Rightarrow> 'a option" where
  "opt_or a b = (case a of None \<Rightarrow> b | Some x \<Rightarrow> Some x)"

definition completed_command :: "key_row list \<Rightarrow> contexts \<Rightarrow> key_event list \<Rightarrow> nat option \<Rightarrow> command option" where
  "completed_command km ctx keys cnt =
     (let seq_cmd = seq_command (tab_rows km ctx) keys None;
          count_cmd = count_command (tab_rows km ctx) keys None
      in if cnt \<noteq> None then opt_or count_cmd seq_cmd else opt_or seq_cmd count_cmd)"

definition direct_tab_key ::
    "key_row list \<Rightarrow> contexts \<Rightarrow> key_event \<Rightarrow> pending_seq \<Rightarrow> (resolution \<times> pending_seq) option" where
  "direct_tab_key km ctx ev p =
     map_option (\<lambda>(_, cmd). (RCommand cmd (if cmd = JumpToTab then opt_or (alt_digit ev) (ps_count p) else None), no_pending))
       (find (\<lambda>(t, _). case t of Key k \<Rightarrow> key_event_eq k ev | _ \<Rightarrow> False) (tab_rows km ctx))"

definition continue_sequence ::
    "key_row list \<Rightarrow> contexts \<Rightarrow> key_event \<Rightarrow> pending_seq \<Rightarrow> resolution \<times> pending_seq" where
  "continue_sequence km ctx ev p =
     (let depth = length (ps_prefix p) in
      if \<not> list_ex (\<lambda>keys. depth < length keys \<and> prefix_matches keys (ps_prefix p) \<and> key_event_eq (keys ! depth) ev)
             (sequence_triggers km ctx)
      then (RNone, no_pending)
      else let prefix = ps_prefix p @ [ev] in
        case completed_command km ctx prefix (ps_count p) of
          Some cmd \<Rightarrow> (RCommand cmd (if cmd = JumpToTab then ps_count p else None), no_pending)
        | None \<Rightarrow> (RPending (continuations km ctx prefix), p\<lparr>ps_prefix := prefix\<rparr>))"

text \<open>A \<open>u16\<close> that stops at its maximum.\<close>

definition saturate16 :: "nat \<Rightarrow> nat" where
  "saturate16 n = min n (2 ^ 16 - 1)"

text \<open>The first key of a sequence is read at index 0; the grammar and the presets make none empty.\<close>

definition resolve_key :: "key_row list \<Rightarrow> contexts \<Rightarrow> key_event \<Rightarrow> pending_seq \<Rightarrow> resolution \<times> pending_seq" where
  "resolve_key km ctx ev p =
     (case (if alt_digit ev \<noteq> None then direct_tab_key km ctx ev p else None) of
        Some r \<Rightarrow> r
      | None \<Rightarrow>
     if ps_prefix p \<noteq> [] then continue_sequence km ctx ev p
     else (case (if ctx_has_count_seq km ctx then plain_digit ev else None) of
        Some d \<Rightarrow> (RPending [],
          p\<lparr>ps_count := Some (saturate16 (saturate16 ((case ps_count p of Some n \<Rightarrow> n | None \<Rightarrow> 0) * 10) + d))\<rparr>)
      | None \<Rightarrow>
     (case direct_tab_key km ctx ev p of
        Some r \<Rightarrow> r
      | None \<Rightarrow>
     if list_ex (\<lambda>keys. case keys of k # _ \<Rightarrow> key_event_eq k ev | [] \<Rightarrow> False) (sequence_triggers km ctx)
     then let prefix = ps_prefix p @ [ev] in (RPending (continuations km ctx prefix), p\<lparr>ps_prefix := prefix\<rparr>)
     else (RNone, no_pending))))"

section \<open>Rendering for the help\<close>

text \<open>The arrows are the UTF-8 bytes of the source's characters.\<close>

definition arrow :: "nat \<Rightarrow> string" where
  "arrow n = [char_of (0xE2 :: nat), char_of (0x86 :: nat), char_of n]"

definition render_key :: "key_event \<Rightarrow> string" where
  "render_key k =
     (if ke_ctrl k then ''Ctrl+'' else []) @ (if ke_alt k then ''Alt+'' else []) @
     (case ke_code k of
        KChar c \<Rightarrow> if c = CHR '' '' then ''Space'' else [c]
      | KEnter \<Rightarrow> ''Enter'' | KEsc \<Rightarrow> ''Esc'' | KUp \<Rightarrow> arrow 0x91 | KDown \<Rightarrow> arrow 0x93
      | KLeft \<Rightarrow> arrow 0x90 | KRight \<Rightarrow> arrow 0x92 | KTab \<Rightarrow> ''Tab'' | KBackTab \<Rightarrow> ''Shift+Tab''
      | KF n \<Rightarrow> ''F'' @ show_nat n
      | KHome \<Rightarrow> ''Home'' | KEnd \<Rightarrow> ''End'' | KPageUp \<Rightarrow> ''PageUp'' | KPageDown \<Rightarrow> ''PageDown''
      | KOther s \<Rightarrow> s)"

definition render_trigger :: "key_trigger \<Rightarrow> string" where
  "render_trigger t = (case t of
     Key k \<Rightarrow> render_key k
   | KeySeq ks \<Rightarrow> concat (map render_key ks)
   | CountSeq ks \<Rightarrow> ''{count}'' @ concat (map render_key ks))"

definition is_alt_digit_label :: "string \<Rightarrow> bool" where
  "is_alt_digit_label s = (case Option.bind (strip_prefix ''Alt+'' s) (parse_unsigned 255) of
     Some d \<Rightarrow> 1 \<le> d \<and> d \<le> 9 | None \<Rightarrow> False)"

definition collapse_alt_digits :: "string list \<Rightarrow> string list" where
  "collapse_alt_digits parts =
     (if list_all (\<lambda>d. ''Alt+'' @ [d] \<in> set parts) ''123456789''
      then filter (\<lambda>p. \<not> is_alt_digit_label p) parts @ [''Alt+1..9''] else parts)"

definition rendered_key_parts :: "key_row list \<Rightarrow> command \<Rightarrow> string list" where
  "rendered_key_parts km c =
     collapse_alt_digits (map (\<lambda>(_, t, _). render_trigger t) (filter (\<lambda>(_, _, cmd). cmd = c) km))"

definition rendered_keys :: "key_row list \<Rightarrow> command \<Rightarrow> string option" where
  "rendered_keys km c = (let parts = rendered_key_parts km c in
     if parts = [] then None else Some (join '' / '' parts))"

section \<open>The key-string grammar\<close>

datatype key_parse_error = KeyEmpty | SequenceTooLong | UnknownModifier | UnknownKey

definition is_ascii_graphic :: "char \<Rightarrow> bool" where
  "is_ascii_graphic c = (let b = of_char c :: nat in 33 \<le> b \<and> b \<le> 126)"

definition named_key :: "string \<Rightarrow> key_code option" where
  "named_key s = map_of
     [(''space'', KChar CHR '' ''), (''esc'', KEsc), (''enter'', KEnter), (''tab'', KTab),
      (''backtab'', KBackTab), (''up'', KUp), (''down'', KDown), (''left'', KLeft), (''right'', KRight),
      (''home'', KHome), (''end'', KEnd), (''pgup'', KPageUp), (''pgdn'', KPageDown)] s"

definition parse_keycode :: "string \<Rightarrow> key_parse_error + key_code" where
  "parse_keycode s = (case s of
     [] \<Rightarrow> Inl KeyEmpty
   | [c] \<Rightarrow> if is_ascii_graphic c then Inr (KChar c) else Inl UnknownKey
   | _ \<Rightarrow> let lower = ascii_lowercase s in
       case Option.bind (strip_prefix ''f'' lower) (parse_unsigned 255) of
         Some n \<Rightarrow> if 1 \<le> n \<and> n \<le> 12 then Inr (KF n) else ok_or UnknownKey (named_key lower)
       | None \<Rightarrow> ok_or UnknownKey (named_key lower))"

text \<open>The modifiers before a key, to a control and an alt flag.\<close>

fun parse_modifiers :: "string list \<Rightarrow> bool \<times> bool \<Rightarrow> key_parse_error + bool \<times> bool" where
  "parse_modifiers [] m = Inr m"
| "parse_modifiers (s # ss) m =
     (if ascii_lowercase s = ''ctrl'' then parse_modifiers ss (True, snd m)
      else if ascii_lowercase s = ''alt'' then parse_modifiers ss (fst m, True)
      else Inl UnknownModifier)"

definition key_with :: "key_code \<Rightarrow> bool \<times> bool \<Rightarrow> key_event" where
  "key_with k m = \<lparr>ke_code = k, ke_ctrl = fst m, ke_alt = snd m, ke_shift = False\<rparr>"

definition strip_suffix :: "string \<Rightarrow> string \<Rightarrow> string option" where
  "strip_suffix suffix s = map_option rev (strip_prefix (rev suffix) (rev s))"

definition parse_single :: "string \<Rightarrow> key_parse_error + key_event" where
  "parse_single token =
     (if token = [] then Inl KeyEmpty
      else if token = ''+'' then Inr (plain_key (KChar CHR ''+''))
      else case strip_suffix ''++'' token of
        Some modifier_src \<Rightarrow>
          if modifier_src = [] then Inl UnknownModifier
          else rbind (parse_modifiers (split_on CHR ''+'' modifier_src) (False, False)) (\<lambda>m.
            Inr (key_with (KChar CHR ''+'') m))
      | None \<Rightarrow>
          let segments = split_on CHR ''+'' token in
          rbind (parse_modifiers (butlast segments) (False, False)) (\<lambda>m.
          rbind (parse_keycode (last segments)) (\<lambda>k. Inr (key_with k m))))"

fun parse_all :: "string list \<Rightarrow> key_parse_error + key_event list" where
  "parse_all [] = Inr []"
| "parse_all (t # ts) = rbind (parse_single t) (\<lambda>k. rbind (parse_all ts) (\<lambda>ks. Inr (k # ks)))"

definition parse_key :: "string \<Rightarrow> key_parse_error + key_trigger" where
  "parse_key s =
     (if s = [] then Inl KeyEmpty
      else if CHR '' '' \<in> set s then
        let tokens = split_on CHR '' '' s in
        if length tokens > 2 then Inl SequenceTooLong
        else rbind (parse_all tokens) (\<lambda>ks. Inr (KeySeq ks))
      else rbind (parse_single s) (\<lambda>k. Inr (Key k)))"

definition render_key_grammar :: "key_event \<Rightarrow> string" where
  "render_key_grammar k =
     (if ke_ctrl k then ''ctrl+'' else []) @ (if ke_alt k then ''alt+'' else []) @
     (case ke_code k of
        KChar c \<Rightarrow> if c = CHR '' '' then ''space'' else [c]
      | KEsc \<Rightarrow> ''esc'' | KEnter \<Rightarrow> ''enter'' | KTab \<Rightarrow> ''tab'' | KBackTab \<Rightarrow> ''backtab''
      | KUp \<Rightarrow> ''up'' | KDown \<Rightarrow> ''down'' | KLeft \<Rightarrow> ''left'' | KRight \<Rightarrow> ''right''
      | KHome \<Rightarrow> ''home'' | KEnd \<Rightarrow> ''end'' | KPageUp \<Rightarrow> ''pgup'' | KPageDown \<Rightarrow> ''pgdn''
      | KF n \<Rightarrow> ''f'' @ show_nat n | KOther s \<Rightarrow> ascii_lowercase s)"

definition render_grammar :: "key_trigger \<Rightarrow> string" where
  "render_grammar t = (case t of
     Key k \<Rightarrow> render_key_grammar k
   | KeySeq ks \<Rightarrow> join '' '' (map render_key_grammar ks)
   | CountSeq ks \<Rightarrow> join '' '' (map render_key_grammar ks))"

section \<open>The patch of a preset\<close>

datatype bind_value = Unbind bool | One string | Many "string list"

text \<open>The bindings in the order of the slots' names, each slot once.\<close>

record keymap_patch =
  kp_preset :: "preset option"
  kp_bindings :: "(string \<times> bind_value) list"

datatype keymap_warning =
    UnknownSlot string | InvalidBinding string | RebindRejected string string string

definition triggers_conflict :: "key_trigger \<Rightarrow> key_trigger \<Rightarrow> bool" where
  "triggers_conflict a b = (case (a, b) of
     (Key x, Key y) \<Rightarrow> key_event_eq x y
   | (KeySeq x, KeySeq y) \<Rightarrow> seq_eq x y
   | (CountSeq x, CountSeq y) \<Rightarrow> seq_eq x y
   | _ \<Rightarrow> False)"

fun parse_many :: "string list \<Rightarrow> key_trigger list option" where
  "parse_many [] = Some []"
| "parse_many (s # ss) = (case parse_key s of
     Inl _ \<Rightarrow> None
   | Inr t \<Rightarrow> map_option (Cons t) (parse_many ss))"

definition parse_bind_value :: "bind_value \<Rightarrow> key_trigger list option" where
  "parse_bind_value v = (case v of
     Unbind b \<Rightarrow> if b then None else Some []
   | One s \<Rightarrow> parse_many [s]
   | Many ss \<Rightarrow> parse_many ss)"

definition contexts_of :: "command \<Rightarrow> contexts" where
  "contexts_of c = (case spec_for c of Some s \<Rightarrow> cs_contexts s | None \<Rightarrow> ALL_CONTEXTS)"

definition rebind :: "command \<Rightarrow> key_trigger list \<Rightarrow> key_row list \<Rightarrow> key_row list" where
  "rebind c ts km = filter (\<lambda>(_, _, cmd). cmd \<noteq> c) km @ map (\<lambda>t. (contexts_of c, t, c)) ts"

definition restore :: "command \<Rightarrow> key_row list \<Rightarrow> key_row list \<Rightarrow> key_row list" where
  "restore c original km = filter (\<lambda>(_, _, cmd). cmd \<noteq> c) km @ filter (\<lambda>(_, _, cmd). cmd = c) original"

definition row_conflict :: "key_row list \<Rightarrow> command \<Rightarrow> key_row \<Rightarrow> (command \<times> string) option" where
  "row_conflict km c row = (case row of (ci, ti, _) \<Rightarrow>
     map_option (\<lambda>(_, _, other). (other, render_grammar ti))
       (find (\<lambda>(cj, tj, other). other \<noteq> c \<and> ctx_contains ci cj \<and> triggers_conflict ti tj) km))"

fun first_some :: "('a \<Rightarrow> 'b option) \<Rightarrow> 'a list \<Rightarrow> 'b option" where
  "first_some f [] = None"
| "first_some f (x # xs) = (case f x of None \<Rightarrow> first_some f xs | Some y \<Rightarrow> Some y)"

definition first_conflict :: "key_row list \<Rightarrow> command \<Rightarrow> (command \<times> string) option" where
  "first_conflict km c = first_some (row_conflict km c) (filter (\<lambda>(_, _, cmd). cmd = c) km)"

fun apply_bindings ::
    "(string \<times> bind_value) list \<Rightarrow> key_row list \<Rightarrow> key_row list \<times> keymap_warning list \<times> command list" where
  "apply_bindings [] km = (km, [], [])"
| "apply_bindings ((slot, v) # bs) km =
     (case command_by_name slot of
        None \<Rightarrow> (case apply_bindings bs km of (km', ws, rs) \<Rightarrow> (km', UnknownSlot slot # ws, rs))
      | Some cmd \<Rightarrow> (case parse_bind_value v of
          Some ts \<Rightarrow> (case apply_bindings bs (rebind cmd ts km) of (km', ws, rs) \<Rightarrow> (km', ws, cmd # rs))
        | None \<Rightarrow> (case apply_bindings bs km of (km', ws, rs) \<Rightarrow> (km', InvalidBinding slot # ws, rs))))"

definition spec_name :: "command \<Rightarrow> string" where
  "spec_name c = (case spec_for c of Some s \<Rightarrow> cs_name s | None \<Rightarrow> ''?'')"

lemma spec_name_neq: "c \<noteq> d \<Longrightarrow> spec_name c \<noteq> spec_name d"
proof
  assume neq: "c \<noteq> d" and eq: "spec_name c = spec_name d"
  obtain s t where s: "spec_for c = Some s" "cs_id s = c" and t: "spec_for d = Some t" "cs_id t = d"
    using spec_for_total by meson
  then have mem: "s \<in> set COMMANDS" "t \<in> set COMMANDS"
    by (auto simp: spec_for_def find_Some_iff)
  moreover have "cs_name s = cs_name t" using eq s t by (simp add: spec_name_def)
  ultimately have "s = t" using table_names_distinct by (metis distinct_map inj_onD)
  with s t neq show False by simp
qed

text \<open>The first conflicting command gets its default back, until none conflicts.\<close>

function reject_conflicts ::
    "key_row list \<Rightarrow> command list \<Rightarrow> key_row list \<Rightarrow> key_row list \<times> keymap_warning list" where
  "reject_conflicts original active km =
     (case List.extract (\<lambda>c. first_conflict km c \<noteq> None) active of
        None \<Rightarrow> (km, [])
      | Some (before, cmd, after) \<Rightarrow>
          (case first_conflict km cmd of
             None \<Rightarrow> (km, [])
           | Some (other, key) \<Rightarrow>
               apsnd (Cons (RebindRejected (spec_name cmd) (spec_name other) key))
                 (reject_conflicts original (before @ after) (restore cmd original km))))"
  by pat_completeness auto
termination
  by (relation "measure (\<lambda>(original, active, km). length active)") (auto dest: List.extract_SomeE)

declare reject_conflicts.simps [simp del]

definition from_patch :: "keymap_patch \<Rightarrow> (key_row list \<times> keymap_warning list) option" where
  "from_patch patch =
     map_option (\<lambda>original.
       case apply_bindings (kp_bindings patch) original of (km, warnings, rebound) \<Rightarrow>
         apsnd ((@) warnings) (reject_conflicts original rebound km))
       (preset_map (case kp_preset patch of Some p \<Rightarrow> p | None \<Rightarrow> Vim))"

section \<open>Conflicts\<close>

definition rows_for :: "command \<Rightarrow> key_row list \<Rightarrow> key_row list" where
  "rows_for c km = filter (\<lambda>(_, _, cmd). cmd = c) km"

definition rows_clash :: "key_row \<Rightarrow> key_row \<Rightarrow> bool" where
  "rows_clash r1 r2 = (case (r1, r2) of ((ci, ti, c), (cj, tj, d)) \<Rightarrow>
     c \<noteq> d \<and> triggers_conflict ti tj \<and> ctx_contains ci cj)"

definition conflict_free :: "key_row list \<Rightarrow> bool" where
  "conflict_free km = list_all (\<lambda>r1. list_all (\<lambda>r2. \<not> rows_clash r1 r2) km) km"

lemma key_event_eq_sym: "key_event_eq a b = key_event_eq b a"
  by (auto simp: key_event_eq_def split: key_code.splits)

lemma seq_eq_sym: "seq_eq a b = seq_eq b a"
  by (induction a b rule: seq_eq.induct) (auto simp: key_event_eq_sym)

lemma triggers_conflict_sym: "triggers_conflict a b = triggers_conflict b a"
  by (cases a; cases b) (simp_all add: triggers_conflict_def key_event_eq_sym seq_eq_sym)

lemma rows_clash_sym: "rows_clash r s = rows_clash s r"
  by (auto simp: rows_clash_def triggers_conflict_sym ctx_contains_sym split: prod.splits)

lemma first_some_None: "first_some f xs = None \<longleftrightarrow> (\<forall>x\<in>set xs. f x = None)"
  by (induction xs) (auto split: option.splits)

lemma first_conflict_None:
  "first_conflict km c = None \<longleftrightarrow> (\<forall>r\<in>set (rows_for c km). \<forall>s\<in>set km. \<not> rows_clash r s)"
  by (fastforce simp: first_conflict_def first_some_None row_conflict_def find_None_iff rows_for_def rows_clash_def)

lemma rows_for_append: "rows_for c (xs @ ys) = rows_for c xs @ rows_for c ys"
  by (simp add: rows_for_def)

lemma rows_for_other: "rows_for d (filter (\<lambda>(_, _, cmd). cmd \<noteq> c) km) = (if d = c then [] else rows_for d km)"
  by (induction km) (auto simp: rows_for_def)

lemma rows_for_rows: "rows_for d (rows_for c km) = (if d = c then rows_for c km else [])"
  by (induction km) (auto simp: rows_for_def)

lemma rows_for_restore:
  "rows_for d (restore c original km) = (if d = c then rows_for c original else rows_for d km)"
  using rows_for_rows [of d c original]
  by (simp add: restore_def rows_for_append rows_for_other) (simp add: rows_for_def)

lemma rows_for_rebind:
  "rows_for d (rebind c ts km) = (if d = c then map (\<lambda>t. (contexts_of c, t, c)) ts else rows_for d km)"
  by (simp add: rebind_def rows_for_append rows_for_other) (simp add: rows_for_def filter_map comp_def)

lemma row_in_rows: "(x, t, c) \<in> set km \<longleftrightarrow> (x, t, c) \<in> set (rows_for c km)"
  by (simp add: rows_for_def)

text \<open>What the loop keeps: commands that are not active have their default rows.\<close>

definition defaults_but :: "command set \<Rightarrow> key_row list \<Rightarrow> key_row list \<Rightarrow> bool" where
  "defaults_but A original km = (\<forall>c. c \<notin> A \<longrightarrow> rows_for c km = rows_for c original)"

lemma no_active_conflict:
  assumes "conflict_free original" "defaults_but (set active) original km"
    and "\<forall>c\<in>set active. first_conflict km c = None"
  shows "conflict_free km"
  unfolding conflict_free_def list_all_iff
proof (intro ballI notI)
  fix r s
  assume rs: "r \<in> set km" "s \<in> set km" "rows_clash r s"
  obtain x t c y u d where r: "r = (x, t, c)" and s: "s = (y, u, d)" by (cases r; cases s) auto
  have rows: "r \<in> set (rows_for c km)" "s \<in> set (rows_for d km)"
    using rs unfolding r s by (simp_all flip: row_in_rows)
  have "c \<notin> set active" using assms(3) rs rows by (auto simp: first_conflict_None)
  moreover have "d \<notin> set active"
    using assms(3) rs rows rows_clash_sym [of r s] by (auto simp: first_conflict_None)
  ultimately have "r \<in> set original" "s \<in> set original"
    using rows assms(2) unfolding r s by (simp_all add: defaults_but_def row_in_rows [of _ _ _ original])
  with rs(3) assms(1) show False by (auto simp: conflict_free_def list_all_iff)
qed

lemma defaults_restore:
  "defaults_but (set (before @ cmd # after)) original km \<Longrightarrow>
   defaults_but (set (before @ after)) original (restore cmd original km)"
  by (auto simp: defaults_but_def rows_for_restore)

lemma reject_conflicts_free:
  "conflict_free original \<Longrightarrow> defaults_but (set active) original km \<Longrightarrow>
   conflict_free (fst (reject_conflicts original active km))"
proof (induction original active km rule: reject_conflicts.induct)
  case (1 original active km)
  show ?case
  proof (cases "List.extract (\<lambda>c. first_conflict km c \<noteq> None) active")
    case None
    then have "\<forall>c\<in>set active. first_conflict km c = None"
      unfolding extract_None_iff by blast
    with no_active_conflict [OF "1.prems"] have "conflict_free km" .
    then show ?thesis by (subst reject_conflicts.simps, subst None) simp
  next
    case (Some p)
    obtain before cmd after where p: "p = (before, cmd, after)" by (cases p) auto
    with Some have "first_conflict km cmd \<noteq> None" "active = before @ cmd # after"
      by (auto simp: extract_Some_iff)
    then obtain other key where "first_conflict km cmd = Some (other, key)" by auto
    with "1.IH" [OF Some [unfolded p] refl refl this refl] "1.prems" Some p defaults_restore
      \<open>active = before @ cmd # after\<close>
    show ?thesis by (subst reject_conflicts.simps, subst Some) simp
  qed
qed

lemma apply_bindings_defaults:
  "apply_bindings bs km = (km', ws, rs) \<Longrightarrow> defaults_but (set rs) km km'"
proof (induction bs km arbitrary: km' ws rs rule: apply_bindings.induct)
  case (2 slot v bs km)
  then show ?case
    by (auto simp: defaults_but_def rows_for_rebind split: option.splits prod.splits)
qed (simp add: defaults_but_def)

definition row_of :: "command \<times> key_trigger \<Rightarrow> key_row" where
  "row_of p = (contexts_of (fst p), snd p, fst p)"

lemma preset_rows: "preset_map p = Some (map row_of (preset_pairs p))"
proof -
  have "those (map (\<lambda>(cmd, t). map_option (\<lambda>s. (cs_contexts s, t, cmd)) (spec_for cmd)) ps) = Some (map row_of ps)" for ps
  proof (induction ps)
    case (Cons q ps)
    obtain c t where q: "q = (c, t)" by (cases q)
    obtain s where "spec_for c = Some s" using spec_for_total by blast
    with Cons show ?case by (simp add: q row_of_def contexts_of_def)
  qed simp
  then show ?thesis by (simp add: preset_map_def)
qed

lemma conflict_free_subset: "set a \<subseteq> set b \<Longrightarrow> conflict_free b \<Longrightarrow> conflict_free a"
  by (auto simp: conflict_free_def list_all_iff)

text \<open>The pairs of both presets together have no conflict.\<close>

definition all_pairs :: "(command \<times> key_trigger) list" where
  "all_pairs = preset_pairs Vim @ [(NextTab, ch CHR '']''), (PrevTab, ch CHR ''[''), (Help, code (KF 1))]"

fun clashing :: "(command \<times> key_trigger) list \<Rightarrow> (command \<times> key_trigger) list \<Rightarrow> (command \<times> command) list" where
  "clashing [] ps = []"
| "clashing ((c, t) # qs) ps =
     map (\<lambda>p. (c, fst p)) (filter (\<lambda>(d, u). triggers_conflict t u \<and> c \<noteq> d) ps) @ clashing qs ps"

lemma clashing_rows:
  "(c, t) \<in> set qs \<Longrightarrow> (d, u) \<in> set ps \<Longrightarrow> triggers_conflict t u \<Longrightarrow> c \<noteq> d \<Longrightarrow> (c, d) \<in> set (clashing qs ps)"
  by (induction qs) (auto simp: image_iff)

lemma all_pairs_clashing:
  "set (clashing all_pairs all_pairs) \<subseteq>
     {(OpenEntry, FocusPane), (FocusPane, OpenEntry), (QuickSelect, JumpToTab), (JumpToTab, QuickSelect)}"
proof -
  have "list_all (\<lambda>p. p \<in> set [(OpenEntry, FocusPane), (FocusPane, OpenEntry), (QuickSelect, JumpToTab),
      (JumpToTab, QuickSelect)]) (clashing all_pairs all_pairs)"
    by code_simp
  then show ?thesis by (auto simp: list_all_iff)
qed

lemma apart_contexts:
  "\<not> ctx_contains (contexts_of OpenEntry) (contexts_of FocusPane)"
  "\<not> ctx_contains (contexts_of QuickSelect) (contexts_of JumpToTab)"
  by (simp_all add: contexts_of_def spec_for_def COMMANDS_def ctx_contains_def SEARCH_CTX_def TREE_DETAIL_def
      SECRETS_TREE_def SECRETS_DETAIL_def WORKSPACE_def PINNED_TAB_def SETTINGS_TAB_def)

lemma all_pairs_free: "conflict_free (map row_of all_pairs)"
  unfolding conflict_free_def list_all_iff
proof (intro ballI notI)
  fix r s
  assume "r \<in> set (map row_of all_pairs)" "s \<in> set (map row_of all_pairs)" "rows_clash r s"
  then obtain c t d u where in_pairs: "(c, t) \<in> set all_pairs" "(d, u) \<in> set all_pairs"
    and clash: "c \<noteq> d" "triggers_conflict t u" "ctx_contains (contexts_of c) (contexts_of d)"
    by (auto simp: row_of_def rows_clash_def)
  from clashing_rows [OF in_pairs clash(2,1)] all_pairs_clashing clash(3) apart_contexts ctx_contains_sym
  show False by blast
qed

lemma preset_conflict_free: "conflict_free (map row_of (preset_pairs p))"
proof (rule conflict_free_subset [OF _ all_pairs_free])
  show "set (map row_of (preset_pairs p)) \<subseteq> set (map row_of all_pairs)"
    by (cases p) (auto simp: all_pairs_def preset_pairs_def)
qed

section \<open>What a patch does\<close>

definition patch_default :: "keymap_patch \<Rightarrow> key_row list" where
  "patch_default patch = map row_of (preset_pairs (case kp_preset patch of Some p \<Rightarrow> p | None \<Rightarrow> Vim))"

lemma rejected_rows:
  "reject_conflicts original active km = (km', ws) \<Longrightarrow> distinct active \<Longrightarrow>
   rows_for c km' = (if c \<in> set active \<and> (\<exists>other key. RebindRejected (spec_name c) other key \<in> set ws)
     then rows_for c original else rows_for c km)"
proof (induction original active km arbitrary: km' ws rule: reject_conflicts.induct)
  case (1 original active km)
  show ?case
  proof (cases "List.extract (\<lambda>c. first_conflict km c \<noteq> None) active")
    case None
    with "1.prems" show ?thesis by (subst (asm) reject_conflicts.simps, subst (asm) None) simp
  next
    case (Some p)
    obtain before cmd after where p: "p = (before, cmd, after)" by (cases p) auto
    with Some have ex: "first_conflict km cmd \<noteq> None" and active: "active = before @ cmd # after"
      by (auto simp: extract_Some_iff)
    then obtain other key where fc: "first_conflict km cmd = Some (other, key)" by auto
    obtain km2 ws2 where rec: "reject_conflicts original (before @ after) (restore cmd original km) = (km2, ws2)"
      by (cases "reject_conflicts original (before @ after) (restore cmd original km)") auto
    have res: "km' = km2" "ws = RebindRejected (spec_name cmd) (spec_name other) key # ws2"
      using "1.prems"(1) Some p fc rec by (subst (asm) reject_conflicts.simps, subst (asm) Some, simp)+
    have dist: "distinct (before @ after)" "cmd \<notin> set (before @ after)" using "1.prems"(2) active by auto
    note IH = "1.IH" [OF Some [unfolded p] refl refl fc refl rec dist(1)]
    show ?thesis
    proof (cases "c = cmd")
      case True
      with IH dist(2) show ?thesis by (simp add: res active rows_for_restore) blast
    next
      case False
      then have "spec_name c \<noteq> spec_name cmd" by (rule spec_name_neq)
      with False IH show ?thesis by (auto simp: res active rows_for_restore)
    qed
  qed
qed

text \<open>What the slot of a command asks for.\<close>

fun patched_in :: "(string \<times> bind_value) list \<Rightarrow> command \<Rightarrow> key_trigger list option" where
  "patched_in [] c = None"
| "patched_in ((slot, v) # bs) c = (if command_by_name slot = Some c then parse_bind_value v else patched_in bs c)"

definition bound_rows :: "command \<Rightarrow> key_trigger list \<Rightarrow> key_row list" where
  "bound_rows c ts = map (\<lambda>t. (contexts_of c, t, c)) ts"

lemma patched_in_other:
  "slot \<notin> fst ` set bs \<Longrightarrow> command_by_name slot = Some c \<Longrightarrow> patched_in bs c = None"
  by (induction bs) (auto dest: command_by_name_inj)

lemma apply_bindings_rows:
  "apply_bindings bs km = (km', ws, rs) \<Longrightarrow> distinct (map fst bs) \<Longrightarrow>
   distinct rs \<and> set rs = {c. patched_in bs c \<noteq> None} \<and> (\<forall>a b k. RebindRejected a b k \<notin> set ws)
   \<and> (\<forall>c. rows_for c km' = (case patched_in bs c of Some ts \<Rightarrow> bound_rows c ts | None \<Rightarrow> rows_for c km))"
proof (induction bs km arbitrary: km' ws rs rule: apply_bindings.induct)
  case (2 slot v bs km)
  show ?case
  proof (cases "command_by_name slot")
    case None
    with 2 show ?thesis by (auto split: prod.splits)
  next
    case (Some cmd)
    then have other: "patched_in bs cmd = None" using "2.prems"(2) patched_in_other [of slot bs cmd] by auto
    show ?thesis
    proof (cases "parse_bind_value v")
      case None
      with 2 Some other show ?thesis by (auto split: prod.splits)
    next
      case (Some ts)
      note slot = \<open>command_by_name slot = Some cmd\<close>
      obtain km2 ws2 rs2 where rec: "apply_bindings bs (rebind cmd ts km) = (km2, ws2, rs2)"
        by (cases "apply_bindings bs (rebind cmd ts km)") auto
      have res: "km' = km2" "ws = ws2" "rs = cmd # rs2" using "2.prems"(1) slot Some rec by simp_all
      from "2.IH"(3) [OF slot Some rec] "2.prems"(2) other show ?thesis
        by (auto simp: res slot Some rows_for_rebind bound_rows_def split: option.split)
    qed
  qed
qed simp

definition rejected :: "keymap_warning list \<Rightarrow> command \<Rightarrow> bool" where
  "rejected ws c = (\<exists>other key. RebindRejected (spec_name c) other key \<in> set ws)"

lemma patch_result:
  assumes "distinct (map fst (kp_bindings patch))"
  shows "\<exists>km ws. from_patch patch = Some (km, ws) \<and> conflict_free km
    \<and> (\<forall>c. rows_for c km = (case patched_in (kp_bindings patch) c of
         Some ts \<Rightarrow> if rejected ws c then rows_for c (patch_default patch) else bound_rows c ts
       | None \<Rightarrow> rows_for c (patch_default patch)))"
proof -
  let ?orig = "patch_default patch"
  obtain km1 ws1 rs where ap: "apply_bindings (kp_bindings patch) ?orig = (km1, ws1, rs)"
    by (cases "apply_bindings (kp_bindings patch) ?orig") auto
  obtain km ws2 where rj: "reject_conflicts ?orig rs km1 = (km, ws2)" by (cases "reject_conflicts ?orig rs km1") auto
  note rows = apply_bindings_rows [OF ap assms]
  have "from_patch patch = Some (km, ws1 @ ws2)"
    using ap rj by (simp add: from_patch_def preset_rows patch_default_def)
  moreover have "conflict_free km"
    using reject_conflicts_free [OF _ apply_bindings_defaults [OF ap]] preset_conflict_free rj
    by (auto simp: patch_default_def)
  moreover have "rejected (ws1 @ ws2) c = (\<exists>other key. RebindRejected (spec_name c) other key \<in> set ws2)" for c
    using rows by (auto simp: rejected_def)
  ultimately show ?thesis
    using rows rejected_rows [OF rj] by (intro exI [of _ km] exI [of _ "ws1 @ ws2"]) (auto split: option.split)
qed

text \<open>C33: every patch gives a keymap in which no two commands of a common context share a trigger.
  Each command has exactly the bindings its slot asks for, or, when a warning names it as rejected or
  its slot is absent or invalid, the bindings of the preset.\<close>

theorem keymap_patch_sound:
  assumes "distinct (map fst (kp_bindings patch))"
  shows "\<exists>km ws. from_patch patch = Some (km, ws) \<and> conflict_free km
    \<and> (\<forall>c. rows_for c km = (case patched_in (kp_bindings patch) c of
         Some ts \<Rightarrow> if rejected ws c then rows_for c (patch_default patch) else bound_rows c ts
       | None \<Rightarrow> rows_for c (patch_default patch)))"
  by (rule patch_result [OF assms])

text \<open>The rebinding that frees a key another rebinding takes: both are settled.\<close>

definition crossing_patch :: keymap_patch where
  "crossing_patch = \<lparr>kp_preset = None, kp_bindings =
     [(''pin-toggle'', One ''o''), (''sort-cycle'', One ''e''), (''copy-password'', One ''y'')]\<rparr>"

theorem keymap_patch_sound_witness:
  "\<exists>km ws. from_patch crossing_patch = Some (km, ws) \<and> conflict_free km"
  using keymap_patch_sound [of crossing_patch] by (auto simp: crossing_patch_def)

section \<open>The grammar round trip\<close>

definition special_codes :: "key_code list" where
  "special_codes = [KChar CHR '' '', KChar CHR ''+'', KEsc, KEnter, KTab, KBackTab, KUp, KDown, KLeft, KRight,
     KHome, KEnd, KPageUp, KPageDown] @ map KF [1..<13]"

definition modifier_sets :: "(bool \<times> bool) list" where
  "modifier_sets = [(False, False), (False, True), (True, False), (True, True)]"

lemma special_keys_parse:
  "list_all (\<lambda>k. list_all (\<lambda>m. parse_single (render_key_grammar (key_with k m)) = Inr (key_with k m)
      \<and> CHR '' '' \<notin> set (render_key_grammar (key_with k m))) modifier_sets) special_codes"
  by code_simp

lemma lower_modifiers: "ascii_lowercase ''ctrl'' = ''ctrl''" "ascii_lowercase ''alt'' = ''alt''"
  by code_simp+

lemma graphic_not_space: "is_ascii_graphic c \<Longrightarrow> c \<noteq> CHR '' ''"
  by (auto simp: is_ascii_graphic_def)

lemma char_keys_parse:
  assumes "is_ascii_graphic c" "c \<noteq> CHR ''+''"
  shows "parse_single (render_key_grammar (key_with (KChar c) m)) = Inr (key_with (KChar c) m)
    \<and> CHR '' '' \<notin> set (render_key_grammar (key_with (KChar c) m))"
  using assms graphic_not_space [OF assms(1)]
  by (cases m; cases "fst m"; cases "snd m")
    (simp_all add: render_key_grammar_def key_with_def parse_single_def strip_suffix_def parse_keycode_def
      lower_modifiers plain_key_def Let_def)

text \<open>The keys the grammar can name.\<close>

definition grammar_code :: "key_code \<Rightarrow> bool" where
  "grammar_code k = (k \<in> set special_codes \<or> (case k of KChar c \<Rightarrow> is_ascii_graphic c | _ \<Rightarrow> False))"

lemma grammar_key_parse:
  assumes "grammar_code k"
  shows "parse_single (render_key_grammar (key_with k m)) = Inr (key_with k m)
    \<and> CHR '' '' \<notin> set (render_key_grammar (key_with k m))"
proof -
  have m: "m \<in> set modifier_sets" by (cases m) (auto simp: modifier_sets_def)
  have "k \<in> set special_codes \<or> (\<exists>c. k = KChar c \<and> is_ascii_graphic c \<and> c \<noteq> CHR ''+'')"
    using assms by (cases k) (auto simp: grammar_code_def special_codes_def)
  then show ?thesis
    using special_keys_parse m char_keys_parse [of _ m] by (auto simp only: list_all_iff)
qed

lemma parse_keycode_grammar: "parse_keycode s = Inr k \<Longrightarrow> grammar_code k"
proof -
  have named: "named_key s = Some k \<Longrightarrow> grammar_code k" for s
    by (auto simp: named_key_def grammar_code_def special_codes_def split: if_splits)
  have "1 \<le> n \<Longrightarrow> n \<le> 12 \<Longrightarrow> grammar_code (KF n)" for n by (auto simp: grammar_code_def special_codes_def)
  with named show "parse_keycode s = Inr k \<Longrightarrow> grammar_code k"
    by (auto simp: parse_keycode_def Let_def grammar_code_def split: list.splits if_splits option.splits)
qed

lemma parse_single_grammar: "parse_single s = Inr k \<Longrightarrow> \<exists>c m. k = key_with c m \<and> grammar_code c"
proof -
  have plus: "grammar_code (KChar CHR ''+'')" by (simp add: grammar_code_def special_codes_def)
  have "plain_key c = key_with c (False, False)" for c by (simp add: plain_key_def key_with_def)
  with plus show "parse_single s = Inr k \<Longrightarrow> ?thesis"
    by (auto simp: parse_single_def Let_def rbind_eq_Inr split: if_splits option.splits
        dest: parse_keycode_grammar)
qed

lemma parse_single_render:
  "parse_single s = Inr k \<Longrightarrow> parse_single (render_key_grammar k) = Inr k \<and> CHR '' '' \<notin> set (render_key_grammar k)
   \<and> render_key_grammar k \<noteq> []"
proof -
  assume "parse_single s = Inr k"
  then have "parse_single (render_key_grammar k) = Inr k \<and> CHR '' '' \<notin> set (render_key_grammar k)"
    using parse_single_grammar grammar_key_parse by metis
  then show ?thesis by (auto simp: parse_single_def)
qed

lemma parse_all_render:
  "parse_all ts = Inr ks \<Longrightarrow> parse_all (map render_key_grammar ks) = Inr ks \<and> length ks = length ts
   \<and> (\<forall>k\<in>set ks. CHR '' '' \<notin> set (render_key_grammar k))"
  by (induction ts arbitrary: ks) (auto simp: rbind_eq_Inr parse_single_render)

lemma split_on_two: "c \<in> set s \<Longrightarrow> 2 \<le> length (split_on c s)"
proof (induction s)
  case (Cons x s)
  have "split_on c s \<noteq> []" by (cases s) (auto split: list.split)
  with Cons show ?case by (cases "split_on c s") (auto split: list.split)
qed simp

lemma join_two: "length ks = 2 \<Longrightarrow> join '' '' (map f ks) = f (ks ! 0) @ '' '' @ f (ks ! 1)"
  by (cases ks; cases "tl ks") auto

text \<open>A key string that parses is rendered, in the grammar of the configuration, to a string that
  parses to the same trigger. So what the hint bar and the conflict warnings show can be typed into the
  configuration.\<close>

theorem key_grammar_roundtrip:
  assumes "parse_key s = Inr t"
  shows "parse_key (render_grammar t) = Inr t"
proof (cases "CHR '' '' \<in> set s")
  case False
  with assms obtain k where k: "parse_single s = Inr k" "t = Key k"
    by (auto simp: parse_key_def rbind_eq_Inr split: if_splits)
  with parse_single_render [OF k(1)] show ?thesis by (auto simp: parse_key_def render_grammar_def)
next
  case True
  with assms obtain ks where ks: "length (split_on CHR '' '' s) \<le> 2" "parse_all (split_on CHR '' '' s) = Inr ks"
    "t = KeySeq ks"
    by (auto simp: parse_key_def rbind_eq_Inr Let_def split: if_splits)
  have "length (split_on CHR '' '' s) = 2" using split_on_two [OF True] ks(1) by simp
  then have two: "length ks = 2" using parse_all_render [OF ks(2)] by simp
  let ?r = "map render_key_grammar ks"
  have "?r \<noteq> []" "\<forall>p\<in>set ?r. CHR '' '' \<notin> set p" using two parse_all_render [OF ks(2)] by auto
  then have split: "split_on CHR '' '' (join '' '' ?r) = ?r" by (rule split_on_join)
  have "CHR '' '' \<in> set (join '' '' ?r)" "join '' '' ?r \<noteq> []" by (simp_all add: join_two [OF two])
  with split two parse_all_render [OF ks(2)] show ?thesis
    by (simp add: parse_key_def render_grammar_def ks(3) Let_def)
qed

theorem key_grammar_roundtrip_witness:
  "parse_key (render_grammar (KeySeq [key_with (KF 5) (True, False), ch_ev CHR ''x'']))
     = Inr (KeySeq [key_with (KF 5) (True, False), ch_ev CHR ''x''])"
proof -
  have "parse_key ''CTRL+f05 x'' = Inr (KeySeq [key_with (KF 5) (True, False), ch_ev CHR ''x''])" by code_simp
  then show ?thesis by (rule key_grammar_roundtrip)
qed

section \<open>The resolver\<close>

definition proper_prefix :: "key_row list \<Rightarrow> contexts \<Rightarrow> key_event list \<Rightarrow> bool" where
  "proper_prefix km ctx ks = list_ex (\<lambda>keys. length ks < length keys \<and> prefix_matches keys ks) (sequence_triggers km ctx)"

lemma prefix_matches_full: "length ks = length keys \<Longrightarrow> prefix_matches keys ks = seq_eq keys ks"
  by (induction keys ks rule: prefix_matches.induct) (auto simp: length_Suc_conv)

lemma prefix_matches_snoc:
  "length ks < length keys \<Longrightarrow> prefix_matches keys ks \<Longrightarrow> key_event_eq (keys ! length ks) k \<Longrightarrow>
   prefix_matches keys (ks @ [k])"
  by (induction keys ks rule: prefix_matches.induct) (auto simp: neq_Nil_conv)

lemma seq_command_keeps: "\<exists>d. seq_command rows keys (Some c) = Some d"
  by (induction rows arbitrary: c) (auto split: key_trigger.splits)

lemma count_command_keeps: "\<exists>d. count_command rows keys (Some c) = Some d"
  by (induction rows arbitrary: c) (auto split: key_trigger.splits)

lemma seq_command_found: "(KeySeq s, c) \<in> set rows \<Longrightarrow> seq_eq s keys \<Longrightarrow> \<exists>d. seq_command rows keys found = Some d"
  by (induction rows arbitrary: found) (auto simp: seq_command_keeps split: key_trigger.splits)

lemma count_command_found: "(CountSeq s, c) \<in> set rows \<Longrightarrow> seq_eq s keys \<Longrightarrow> \<exists>d. count_command rows keys found = Some d"
  by (induction rows arbitrary: found) (auto simp: count_command_keeps split: key_trigger.splits)

lemma completed_exists:
  assumes "keys \<in> set (sequence_triggers km ctx)" "seq_eq keys ks"
  shows "completed_command km ctx ks n \<noteq> None"
proof -
  obtain t c where row: "(t, c) \<in> set (tab_rows km ctx)" "seq_keys t = Some keys"
    using assms(1) by (auto simp: sequence_triggers_def List.map_filter_def)
  then have "seq_command (tab_rows km ctx) ks None \<noteq> None \<or> count_command (tab_rows km ctx) ks None \<noteq> None"
    using seq_command_found [of keys c "tab_rows km ctx" ks None]
      count_command_found [of keys c "tab_rows km ctx" ks None] assms(2)
    by (cases t) (auto simp: seq_keys_def)
  then show ?thesis by (auto simp: completed_command_def opt_or_def Let_def split: option.splits)
qed

lemma seq_command_tab:
  "seq_command rows keys found = Some c \<Longrightarrow> found = Some c \<or> c \<in> snd ` set rows"
  by (induction rows keys found rule: seq_command.induct) (auto split: key_trigger.splits if_splits)

lemma count_command_tab:
  "count_command rows keys found = Some c \<Longrightarrow> found = Some c \<or> c \<in> snd ` set rows"
  by (induction rows keys found rule: count_command.induct) (auto split: key_trigger.splits if_splits)

lemma tab_rows_tab: "(t, c) \<in> set (tab_rows km ctx) \<Longrightarrow> is_tab_command c"
  by (auto simp: tab_rows_def)

lemma completed_tab: "completed_command km ctx ks n = Some c \<Longrightarrow> is_tab_command c"
  using seq_command_tab [of "tab_rows km ctx" ks None c] count_command_tab [of "tab_rows km ctx" ks None c]
  by (auto simp: completed_command_def opt_or_def Let_def dest!: tab_rows_tab split: option.splits if_splits)

lemma direct_tab: "direct_tab_key km ctx ev p = Some (r, p') \<Longrightarrow>
   p' = no_pending \<and> (\<exists>c n. r = RCommand c n \<and> is_tab_command c)"
  by (auto simp: direct_tab_key_def find_Some_iff) (metis nth_mem tab_rows_tab)

definition settled :: "key_row list \<Rightarrow> contexts \<Rightarrow> resolution \<times> pending_seq \<Rightarrow> bool" where
  "settled km ctx rp = (case rp of (r, p') \<Rightarrow> case r of
     RCommand c _ \<Rightarrow> is_tab_command c \<and> p' = no_pending
   | RNone \<Rightarrow> p' = no_pending
   | RPending _ \<Rightarrow> ps_prefix p' = [] \<and> ps_count p' \<noteq> None \<or> proper_prefix km ctx (ps_prefix p'))"

lemma continue_settled: "settled km ctx (continue_sequence km ctx ev p)"
proof -
  let ?ks = "ps_prefix p"
  show ?thesis
  proof (cases "list_ex (\<lambda>keys. length ?ks < length keys \<and> prefix_matches keys ?ks \<and> key_event_eq (keys ! length ?ks) ev)
      (sequence_triggers km ctx)")
    case True
    then obtain keys where keys: "keys \<in> set (sequence_triggers km ctx)" "length ?ks < length keys"
      "prefix_matches keys (?ks @ [ev])" by (auto simp: list_ex_iff prefix_matches_snoc)
    show ?thesis
    proof (cases "completed_command km ctx (?ks @ [ev]) (ps_count p)")
      case None
      then have "length keys \<noteq> length (?ks @ [ev])"
        using completed_exists [OF keys(1)] keys(3) prefix_matches_full [of "?ks @ [ev]" keys] by metis
      with keys have "proper_prefix km ctx (?ks @ [ev])"
        unfolding proper_prefix_def list_ex_iff by (intro bexI [of _ keys]) auto
      with True None show ?thesis by (simp add: continue_sequence_def settled_def Let_def)
    next
      case (Some c)
      with True completed_tab [OF Some] show ?thesis by (simp add: continue_sequence_def settled_def Let_def)
    qed
  qed (simp add: continue_sequence_def settled_def Let_def)
qed


text \<open>The sequences of a keymap have two keys, from the presets or from the grammar.\<close>

definition two_keys :: "key_row list \<Rightarrow> bool" where
  "two_keys km = list_all (\<lambda>(_, t, _). case seq_keys t of Some ks \<Rightarrow> length ks = 2 | None \<Rightarrow> True) km"

lemma parse_key_two:
  assumes "parse_key s = Inr t"
  shows "case seq_keys t of Some ks \<Rightarrow> length ks = 2 | None \<Rightarrow> True"
proof (cases "CHR '' '' \<in> set s")
  case False
  with assms have "\<exists>k. t = Key k" by (auto simp: parse_key_def rbind_eq_Inr split: if_splits)
  then show ?thesis by (auto simp: seq_keys_def)
next
  case True
  with assms obtain ks where "length (split_on CHR '' '' s) \<le> 2" "parse_all (split_on CHR '' '' s) = Inr ks" "t = KeySeq ks"
    by (auto simp: parse_key_def rbind_eq_Inr Let_def split: if_splits)
  with split_on_two [OF True] parse_all_render [of "split_on CHR '' '' s" ks] show ?thesis
    by (simp add: seq_keys_def)
qed

lemma parse_many_two: "parse_many ss = Some ts \<Longrightarrow> list_all (\<lambda>t. case seq_keys t of Some ks \<Rightarrow> length ks = 2 | None \<Rightarrow> True) ts"
  by (induction ss arbitrary: ts) (auto split: sum.splits dest: parse_key_two)

lemma parse_bind_two: "parse_bind_value v = Some ts \<Longrightarrow> list_all (\<lambda>t. case seq_keys t of Some ks \<Rightarrow> length ks = 2 | None \<Rightarrow> True) ts"
  using parse_many_two [of _ ts]
  by (auto simp: parse_bind_value_def simp del: parse_many.simps split: bind_value.splits if_splits)

lemma two_keys_rebind:
  "two_keys km \<Longrightarrow> list_all (\<lambda>t. case seq_keys t of Some ks \<Rightarrow> length ks = 2 | None \<Rightarrow> True) ts \<Longrightarrow> two_keys (rebind c ts km)"
  by (auto simp: two_keys_def rebind_def list_all_iff)

lemma two_keys_restore: "two_keys km \<Longrightarrow> two_keys original \<Longrightarrow> two_keys (restore c original km)"
  by (auto simp: two_keys_def restore_def list_all_iff)

lemma two_keys_apply: "apply_bindings bs km = (km', ws, rs) \<Longrightarrow> two_keys km \<Longrightarrow> two_keys km'"
proof (induction bs km arbitrary: km' ws rs rule: apply_bindings.induct)
  case (2 slot v bs km)
  have "two_keys (rebind c ts km)" if "parse_bind_value v = Some ts" for c ts
    using two_keys_rebind [OF "2.prems"(2) parse_bind_two [OF that]] .
  with 2 show ?case by (auto split: option.splits prod.splits)
qed simp

lemma two_keys_reject: "two_keys original \<Longrightarrow> two_keys km \<Longrightarrow> two_keys (fst (reject_conflicts original active km))"
proof (induction original active km rule: reject_conflicts.induct)
  case (1 original active km)
  then show ?case
    by (subst reject_conflicts.simps) (auto split: option.splits prod.splits simp: two_keys_restore)
qed

lemma two_keys_preset: "two_keys (map row_of (preset_pairs p))"
proof -
  have "list_all (\<lambda>q. case seq_keys (snd q) of Some ks \<Rightarrow> length ks = 2 | None \<Rightarrow> True) all_pairs" by code_simp
  moreover have "set (preset_pairs p) \<subseteq> set all_pairs" by (cases p) (auto simp: all_pairs_def preset_pairs_def)
  ultimately show ?thesis by (auto simp: two_keys_def row_of_def list_all_iff)
qed

lemma two_keys_patch: "from_patch patch = Some (km, ws) \<Longrightarrow> two_keys km"
proof -
  assume "from_patch patch = Some (km, ws)"
  then obtain km1 ws1 rs where "apply_bindings (kp_bindings patch) (patch_default patch) = (km1, ws1, rs)"
    and "km = fst (reject_conflicts (patch_default patch) rs km1)"
    by (auto simp: from_patch_def preset_rows patch_default_def split: prod.splits)
      (metis fst_apsnd fst_conv)
  with two_keys_apply two_keys_reject two_keys_preset show ?thesis by (metis patch_default_def)
qed

lemma two_keys_sequences: "two_keys km \<Longrightarrow> keys \<in> set (sequence_triggers km ctx) \<Longrightarrow> length keys = 2"
  by (fastforce simp: two_keys_def list_all_iff sequence_triggers_def tab_rows_def List.map_filter_def)

lemma start_proper:
  assumes "two_keys km" "list_ex (\<lambda>keys. case keys of k # _ \<Rightarrow> key_event_eq k ev | [] \<Rightarrow> False) (sequence_triggers km ctx)"
  shows "proper_prefix km ctx [ev]"
proof -
  obtain k ks where keys: "k # ks \<in> set (sequence_triggers km ctx)" "key_event_eq k ev"
    using assms(2) by (auto simp: list_ex_iff neq_Nil_conv split: list.splits)
  with two_keys_sequences [OF assms(1)] have "length (k # ks) = 2" by blast
  with keys show ?thesis unfolding proper_prefix_def list_ex_iff by (intro bexI [of _ "k # ks"]) auto
qed

lemma two_keys_settled:
  assumes "two_keys km"
  shows "settled km ctx (resolve_key km ctx ev p)"
proof -
  have direct: "settled km ctx r" if "direct_tab_key km ctx ev p = Some r" for r
    using that direct_tab by (cases r) (fastforce simp: settled_def)
  let ?alt = "if alt_digit ev \<noteq> None then direct_tab_key km ctx ev p else None"
  let ?digit = "if ctx_has_count_seq km ctx then plain_digit ev else None"
  show ?thesis
  proof (cases ?alt)
    case (Some r)
    then have "direct_tab_key km ctx ev p = Some r" by (simp split: if_splits)
    with Some direct show ?thesis unfolding resolve_key_def by simp
  next
    case alt: None
    show ?thesis
    proof (cases "ps_prefix p = []")
      case False
      with alt continue_settled show ?thesis unfolding resolve_key_def alt by simp
    next
      case True
      then show ?thesis
        using direct start_proper [OF assms, of ev ctx] unfolding resolve_key_def alt
        by (cases ?digit; cases "direct_tab_key km ctx ev p")
          (auto simp: settled_def Let_def no_pending_def)
    qed
  qed
qed

text \<open>C34: after every key the resolver of a configured keymap is settled. When it answers with a command,
  always one of the tab commands, or passes the key on, nothing is pending any more; otherwise a
  count is pending or what was typed is a proper prefix of a sequence of the context, so some next
  key completes it and no dead end is ever waited in.\<close>

theorem resolve_settled:
  assumes "from_patch patch = Some (km, ws)"
  shows "settled km ctx (resolve_key km ctx ev p)"
  by (rule two_keys_settled [OF two_keys_patch [OF assms]])

theorem resolve_settled_witness:
  "settled (map row_of (preset_pairs Plain)) WORKSPACE
     (resolve_key (map row_of (preset_pairs Plain)) WORKSPACE (ch_ev CHR '']'') no_pending)"
proof (rule resolve_settled)
  show "from_patch \<lparr>kp_preset = Some Plain, kp_bindings = []\<rparr> = Some (map row_of (preset_pairs Plain), [])"
    by (simp add: from_patch_def preset_rows reject_conflicts.simps [of _ "[]"] extract_Nil_code)
qed

section \<open>The vim motions\<close>

fun run_keys :: "key_row list \<Rightarrow> contexts \<Rightarrow> key_event list \<Rightarrow> pending_seq \<Rightarrow> resolution list \<times> pending_seq" where
  "run_keys km ctx [] p = ([], p)"
| "run_keys km ctx (k # ks) p = (case resolve_key km ctx k p of
     (r, p') \<Rightarrow> apfst (Cons r) (run_keys km ctx ks p'))"

definition vim :: "key_row list" where
  "vim = map row_of (preset_pairs Vim)"

lemma tab_contexts: "contexts_of NextTab = WORKSPACE" "contexts_of PrevTab = WORKSPACE" "contexts_of JumpToTab = WORKSPACE"
  "ctx_contains WORKSPACE WORKSPACE"
  by (simp_all add: contexts_of_def spec_for_def COMMANDS_def ctx_contains_def WORKSPACE_def
      SECRETS_TREE_def SECRETS_DETAIL_def PINNED_TAB_def SETTINGS_TAB_def)

lemma tab_rows_pairs:
  "tab_rows (map row_of ps) ctx =
   map (\<lambda>(c, t). (t, c)) (filter (\<lambda>(c, t). is_tab_command c \<and> ctx_contains (contexts_of c) ctx) ps)"
  by (induction ps) (auto simp: tab_rows_def row_of_def)

lemma vim_tab_rows: "tab_rows vim WORKSPACE = [(KeySeq [ch_ev CHR ''g'', ch_ev CHR ''t''], NextTab),
    (KeySeq [ch_ev CHR ''g'', ch_ev CHR ''T''], PrevTab), (CountSeq [ch_ev CHR ''g'', ch_ev CHR ''t''], JumpToTab)]
    @ map (\<lambda>d. (alt d, JumpToTab)) ''123456789''"
  unfolding vim_def tab_rows_pairs
  by (simp add: preset_pairs_def shared_pairs_def alt_digit_jumps_def tab_contexts is_tab_command_def)

lemma vim_count_seq: "ctx_has_count_seq vim WORKSPACE"
  by (simp add: ctx_has_count_seq_def vim_tab_rows)

lemma vim_sequences: "sequence_triggers vim WORKSPACE =
    [[ch_ev CHR ''g'', ch_ev CHR ''t''], [ch_ev CHR ''g'', ch_ev CHR ''T''], [ch_ev CHR ''g'', ch_ev CHR ''t'']]"
  by (simp add: sequence_triggers_def vim_tab_rows List.map_filter_def seq_keys_def alt_def)

lemma plain_ch: "alt_digit (ch_ev c) = None" "plain_digit (ch_ev c) = digit_of c"
  "key_event_eq (ch_ev c) (ch_ev d) \<longleftrightarrow> c = d" "\<not> key_event_eq ((ch_ev c)\<lparr>ke_alt := True\<rparr>) (ch_ev d)"
  by (auto simp: alt_digit_def plain_digit_def ch_ev_def plain_key_def key_event_eq_def)

lemma vim_no_direct: "direct_tab_key vim WORKSPACE (ch_ev c) p = None"
  by (simp add: direct_tab_key_def vim_tab_rows plain_ch alt_def)

lemma vim_digit:
  "is_digit c \<Longrightarrow> ps_prefix p = [] \<Longrightarrow> resolve_key vim WORKSPACE (ch_ev c) p =
     (RPending [], p\<lparr>ps_count := Some (saturate16 (saturate16 ((case ps_count p of Some n \<Rightarrow> n | None \<Rightarrow> 0) * 10) + digit_value c))\<rparr>)"
  by (simp add: resolve_key_def plain_ch vim_count_seq digit_of_def)

lemma vim_start: "ps_prefix p = [] \<Longrightarrow> \<exists>cs. resolve_key vim WORKSPACE (ch_ev CHR ''g'') p
    = (RPending cs, p\<lparr>ps_prefix := [ch_ev CHR ''g'']\<rparr>)"
  by (simp add: resolve_key_def plain_ch vim_no_direct vim_sequences digit_of_def is_digit_def Let_def)

lemma vim_second: "ps_prefix p = [ch_ev CHR ''g''] \<Longrightarrow> resolve_key vim WORKSPACE (ch_ev c) p =
    (if c = CHR ''t'' then (case ps_count p of Some n \<Rightarrow> RCommand JumpToTab (Some n) | None \<Rightarrow> RCommand NextTab None)
     else if c = CHR ''T'' then RCommand PrevTab None else RNone, no_pending)"
  by (auto simp: resolve_key_def plain_ch vim_no_direct vim_sequences continue_sequence_def completed_command_def
      vim_tab_rows opt_or_def alt_def Let_def split: option.split)

lemma saturate_step: "saturate16 (saturate16 (saturate16 n * 10) + d) = saturate16 (10 * n + d)"
  by (auto simp: saturate16_def min_def)

text \<open>A run of digits, after the count \<open>n\<close>.\<close>

definition counting :: "nat \<Rightarrow> pending_seq" where
  "counting n = \<lparr>ps_prefix = [], ps_count = Some (saturate16 n), ps_since = None\<rparr>"

lemma vim_digits_from:
  "list_all is_digit ds \<Longrightarrow> snd (run_keys vim WORKSPACE (map ch_ev ds) (counting n)) =
     counting (foldl (\<lambda>n c. 10 * n + digit_value c) n ds)"
proof (induction ds arbitrary: n)
  case (Cons d ds)
  then have "resolve_key vim WORKSPACE (ch_ev d) (counting n) = (RPending [], counting (10 * n + digit_value d))"
    using vim_digit [of d "counting n"] saturate_step [of n "digit_value d"] by (simp add: counting_def)
  with Cons show ?case by simp
qed simp

lemma vim_digits:
  assumes "list_all is_digit ds" "ds \<noteq> []"
  shows "snd (run_keys vim WORKSPACE (map ch_ev ds) no_pending) = counting (decimal_value ds)"
proof -
  obtain d es where ds: "ds = d # es" using assms(2) by (cases ds) auto
  with assms(1) have "resolve_key vim WORKSPACE (ch_ev d) no_pending = (RPending [], counting (digit_value d))"
    using vim_digit [of d no_pending] saturate_step [of 0 "digit_value d"]
    by (simp add: counting_def no_pending_def saturate16_def)
  with vim_digits_from [of es "digit_value d"] assms(1) show ?thesis by (simp add: ds decimal_value_def)
qed

lemma run_keys_append:
  "run_keys km ctx (as @ bs) p = (case run_keys km ctx as p of (rs, p') \<Rightarrow> apfst ((@) rs) (run_keys km ctx bs p'))"
  by (induction as arbitrary: p) (auto simp: apfst_def map_prod_def split: prod.splits)

text \<open>The vim tab motions. In the default keymap digits followed by \<open>g t\<close> end in a jump to the tab
  with that decimal number, cut at the largest 16 bit value; without digits \<open>g t\<close> goes to
  the next tab and \<open>g T\<close>, with or without digits, to the previous one; any other key
  after \<open>g\<close> is passed on. In every case nothing is pending afterwards.\<close>

theorem vim_tab_motions:
  assumes "list_all is_digit ds"
  shows "\<exists>rs. run_keys vim WORKSPACE (map ch_ev ds @ [ch_ev CHR ''g'', ch_ev c]) no_pending =
    (rs @ [if c = CHR ''t'' then if ds = [] then RCommand NextTab None
             else RCommand JumpToTab (Some (saturate16 (decimal_value ds)))
           else if c = CHR ''T'' then RCommand PrevTab None else RNone], no_pending)"
proof -
  let ?p = "if ds = [] then no_pending else counting (decimal_value ds)"
  obtain rs where run: "run_keys vim WORKSPACE (map ch_ev ds) no_pending = (rs, ?p)"
    using vim_digits [OF assms] by (cases "run_keys vim WORKSPACE (map ch_ev ds) no_pending"; cases "ds = []") auto
  have pre: "ps_prefix ?p = []" "ps_count ?p = (if ds = [] then None else Some (saturate16 (decimal_value ds)))"
    by (simp_all add: no_pending_def counting_def)
  obtain cs where "resolve_key vim WORKSPACE (ch_ev CHR ''g'') ?p = (RPending cs, ?p\<lparr>ps_prefix := [ch_ev CHR ''g'']\<rparr>)"
    using vim_start [OF pre(1)] by blast
  with run pre(2) vim_second [of "?p\<lparr>ps_prefix := [ch_ev CHR ''g'']\<rparr>" c] show ?thesis
    by (intro exI [of _ "rs @ [RPending cs]"]) (simp add: run_keys_append)
qed

theorem vim_tab_motions_witness:
  "\<exists>rs. run_keys vim WORKSPACE (map ch_ev ''70000'' @ [ch_ev CHR ''g'', ch_ev CHR ''t'']) no_pending =
    (rs @ [RCommand JumpToTab (Some 65535)], no_pending)"
proof -
  have "list_all is_digit ''70000''" "decimal_value ''70000'' = 70000"
    by (simp_all add: is_digit_def decimal_value_def digit_value_def)
  then show ?thesis using vim_tab_motions [of "''70000''" "CHR ''t''"] by (simp add: saturate16_def)
qed

section \<open>Bindings that never act\<close>

lemma parsed_not_count: "parse_key s = Inr t \<Longrightarrow> t \<noteq> CountSeq ks"
  by (auto simp: parse_key_def rbind_eq_Inr Let_def split: if_splits)

lemma bound_not_count: "parse_bind_value v = Some ts \<Longrightarrow> CountSeq ks \<notin> set ts"
proof -
  have "parse_many ss = Some ts \<Longrightarrow> CountSeq ks \<notin> set ts" for ss ts
    by (induction ss arbitrary: ts) (auto split: sum.splits dest: parsed_not_count)
  then show "parse_bind_value v = Some ts \<Longrightarrow> ?thesis"
    by (auto simp: parse_bind_value_def simp del: parse_many.simps split: bind_value.splits if_splits)
qed

lemma patched_not_count: "patched_in bs c = Some ts \<Longrightarrow> CountSeq ks \<notin> set ts"
  by (induction bs) (auto split: if_splits dest: bound_not_count)

lemma preset_count: "(c, CountSeq ks) \<in> set (preset_pairs p) \<Longrightarrow> c = JumpToTab"
proof -
  have "list_all (\<lambda>q. case snd q of CountSeq _ \<Rightarrow> fst q = JumpToTab | _ \<Rightarrow> True) all_pairs" by code_simp
  then have all: "(c, CountSeq ks) \<in> set all_pairs \<Longrightarrow> c = JumpToTab" by (fastforce simp: list_all_iff)
  have "set (preset_pairs p) \<subseteq> set all_pairs" by (cases p) (auto simp: all_pairs_def preset_pairs_def)
  with all show "(c, CountSeq ks) \<in> set (preset_pairs p) \<Longrightarrow> c = JumpToTab" by blast
qed

lemma default_count: "(x, CountSeq ks, c) \<in> set (patch_default patch) \<Longrightarrow> c = JumpToTab"
proof -
  assume "(x, CountSeq ks, c) \<in> set (patch_default patch)"
  then obtain p q where q: "q \<in> set (preset_pairs p)" "row_of q = (x, CountSeq ks, c)"
    unfolding patch_default_def set_map image_iff by metis
  from q(2) have "q = (c, CountSeq ks)" by (auto simp: row_of_def prod_eq_iff)
  with q(1) preset_count show ?thesis by blast
qed

text \<open>A tab jump bound to other keys loses its count: the grammar only makes fixed sequences, so
  no context takes a count any more, digits are passed on, and a sequence jumps without a number.\<close>

lemma rebound_jump_loses_count:
  assumes "distinct (map fst (kp_bindings patch))" "from_patch patch = Some (km, ws)"
    and "patched_in (kp_bindings patch) JumpToTab = Some ts" "\<not> rejected ws JumpToTab"
  shows "\<not> ctx_has_count_seq km ctx"
proof -
  have "(x, CountSeq ks, c) \<notin> set km" for x ks c
  proof
    assume "(x, CountSeq ks, c) \<in> set km"
    then have row: "(x, CountSeq ks, c) \<in> set (rows_for c km)" by (simp add: rows_for_def)
    have rows: "rows_for c km = (case patched_in (kp_bindings patch) c of
         Some ts \<Rightarrow> if rejected ws c then rows_for c (patch_default patch) else bound_rows c ts
       | None \<Rightarrow> rows_for c (patch_default patch))"
      using patch_result [OF assms(1)] assms(2) by auto
    have "(x, CountSeq ks, c) \<in> set (rows_for c (patch_default patch)) \<Longrightarrow> c = JumpToTab"
      using default_count by (simp flip: row_in_rows)
    with row rows assms(3,4) patched_not_count show False
      by (auto simp: bound_rows_def split: option.splits if_splits)
  qed
  then show ?thesis by (auto simp: ctx_has_count_seq_def tab_rows_def list_ex_iff split: key_trigger.splits)
qed

text \<open>A sequence bound to a command other than the tab commands is accepted without a warning and
  never fires: the single-key match and the resolver both ignore it.\<close>

lemma other_sequence_dead:
  assumes "distinct (map fst (kp_bindings patch))" "from_patch patch = Some (km, ws)" "\<not> is_tab_command c"
    and "patched_in (kp_bindings patch) c = Some [KeySeq ks]" "\<not> rejected ws c"
  shows "\<not> key_matches km c ev \<and> fst (resolve_key km ctx ev p) \<noteq> RCommand c n"
proof
  have "rows_for c km = bound_rows c [KeySeq ks]" using patch_result [OF assms(1)] assms(2,4,5) by auto
  then have "t = KeySeq ks" if "(x, t, c) \<in> set km" for x t
    using that row_in_rows [of x t c km] by (simp add: bound_rows_def)
  then show "\<not> key_matches km c ev" by (fastforce simp: key_matches_def list_ex_iff)
  show "fst (resolve_key km ctx ev p) \<noteq> RCommand c n"
    using two_keys_settled [OF two_keys_patch [OF assms(2)], of ctx ev p] assms(3)
    by (cases "resolve_key km ctx ev p") (auto simp: settled_def)
qed

end
