(* ===== verification/TextInput.thy ===== *)
theory TextInput
  imports Strings
begin

text \<open>
  The two hand-written text editors of the terminal interface: the masked password field
  (\<open>falach-tui/src/widgets/password_input.rs\<close>) and the multi-line notes editor
  (\<open>falach-tui/src/widgets/text_area.rs\<close>). Both keep a cursor as a byte offset into a Rust string, so a
  text is a list of code points here, its length is counted in UTF-8 bytes, and an access at an offset
  that is no character boundary panics (\<open>None\<close>). Both are shown to refine an editor that keeps the text
  before and after the cursor.
\<close>

section \<open>Rust strings by byte offset\<close>

type_synonym codepoints = "nat list"

definition utf8_len :: "nat \<Rightarrow> nat" where
  "utf8_len c = (if c < 0x80 then 1 else if c < 0x800 then 2 else if c < 0x10000 then 3 else 4)"

definition byte_len :: "codepoints \<Rightarrow> nat" where
  "byte_len s = sum_list (map utf8_len s)"

fun split_byte :: "nat \<Rightarrow> codepoints \<Rightarrow> (codepoints \<times> codepoints) option" where
  "split_byte 0 s = Some ([], s)"
| "split_byte (Suc n) [] = None"
| "split_byte (Suc n) (c # s) =
     (if utf8_len c \<le> Suc n then map_option (apfst (Cons c)) (split_byte (Suc n - utf8_len c) s) else None)"

definition is_char_boundary :: "codepoints \<Rightarrow> nat \<Rightarrow> bool" where
  "is_char_boundary s p = (split_byte p s \<noteq> None)"

definition str_insert :: "nat \<Rightarrow> nat \<Rightarrow> codepoints \<Rightarrow> codepoints option" where
  "str_insert p c s = map_option (\<lambda>(a, b). a @ c # b) (split_byte p s)"

definition str_remove :: "nat \<Rightarrow> codepoints \<Rightarrow> codepoints option" where
  "str_remove p s = (case split_byte p s of Some (a, c # b) \<Rightarrow> Some (a @ b) | _ \<Rightarrow> None)"

definition prev_boundary :: "codepoints \<Rightarrow> nat \<Rightarrow> nat option" where
  "prev_boundary s p = map_option (\<lambda>(a, b). if a = [] then 0 else byte_len (butlast a)) (split_byte p s)"

definition next_boundary :: "codepoints \<Rightarrow> nat \<Rightarrow> nat option" where
  "next_boundary s p =
     map_option (\<lambda>(a, b). case b of [] \<Rightarrow> p | c # _ \<Rightarrow> p + utf8_len c) (split_byte p s)"

fun floor_loop :: "codepoints \<Rightarrow> nat \<Rightarrow> nat" where
  "floor_loop s 0 = 0"
| "floor_loop s (Suc p) = (if is_char_boundary s (Suc p) then Suc p else floor_loop s p)"

definition floor_boundary :: "codepoints \<Rightarrow> nat \<Rightarrow> nat" where
  "floor_boundary s p = floor_loop s (min p (byte_len s))"

lemma utf8_len_pos [simp]: "0 < utf8_len c"
  by (simp add: utf8_len_def)

lemma byte_len_simps [simp]:
  "byte_len [] = 0" "byte_len (c # s) = utf8_len c + byte_len s" "byte_len (s @ t) = byte_len s + byte_len t"
  by (simp_all add: byte_len_def)

lemma byte_len_eq_0 [simp]: "(byte_len s = 0) = (s = [])"
  by (cases s) (auto simp: utf8_len_def)

lemma split_byteD: "split_byte p s = Some (a, b) \<Longrightarrow> s = a @ b \<and> p = byte_len a"
  by (induction p s arbitrary: a rule: split_byte.induct)
    (auto simp: apfst_def map_prod_def split: if_splits prod.splits)

lemma split_byte_append [simp]: "split_byte (byte_len a) (a @ b) = Some (a, b)"
proof (induction a)
  case (Cons c a)
  obtain n where "utf8_len c + byte_len a = Suc n" "utf8_len c \<le> Suc n" "Suc n - utf8_len c = byte_len a"
    using utf8_len_pos [of c] by (metis add_diff_cancel_left' add_gr_0 gr0_conv_Suc le_add1)
  then show ?case by (simp add: Cons)
qed simp

lemma split_byte_iff: "(split_byte p s = Some (a, b)) = (s = a @ b \<and> p = byte_len a)"
  using split_byteD by auto

lemma split_byte_end [simp]: "split_byte (byte_len a) a = Some (a, [])"
  by (simp add: split_byte_iff)

lemma split_byte_zero [simp]: "split_byte 0 s = Some ([], s)"
  by simp

lemma floor_loop_boundary: "is_char_boundary s (floor_loop s p)"
  by (induction p) (simp_all add: is_char_boundary_def)

lemma floor_loop_le: "floor_loop s p \<le> p"
  by (induction p) (simp_all add: le_Suc_eq)

lemma floor_loop_greatest: "is_char_boundary s q \<Longrightarrow> q \<le> p \<Longrightarrow> q \<le> floor_loop s p"
  by (induction p) (auto simp: le_Suc_eq)

lemma floor_boundary_spec:
  "is_char_boundary s (floor_boundary s p) \<and> floor_boundary s p \<le> p \<and>
   (\<forall>q \<le> p. is_char_boundary s q \<longrightarrow> q \<le> floor_boundary s p)"
proof -
  have "q \<le> byte_len s" if "is_char_boundary s q" for q
    using that by (auto simp: is_char_boundary_def split_byte_iff)
  then show ?thesis
    using floor_loop_boundary floor_loop_le [of s "min p (byte_len s)"] floor_loop_greatest
    by (auto simp: floor_boundary_def)
qed

lemma boundary_ends:
  assumes "s = a @ b" "p = byte_len a"
  shows "prev_boundary s p = Some (if a = [] then 0 else byte_len (butlast a))"
    and "next_boundary s p = Some (case b of [] \<Rightarrow> p | c # _ \<Rightarrow> p + utf8_len c)"
    and "str_insert p c s = Some (a @ c # b)"
  using assms by (simp_all add: prev_boundary_def next_boundary_def str_insert_def split: list.split)

section \<open>Keys\<close>

text \<open>What the editors look at in a key event: its code, and whether Ctrl is held.\<close>

datatype input_key = IChar nat | IEnter | IEsc | IBackspace | ILeft | IRight | IUp | IDown | IOther

text \<open>The abstract editor: the text before and after the cursor.\<close>

type_synonym zipper = "codepoints \<times> codepoints"

fun z_left :: "zipper \<Rightarrow> zipper" where
  "z_left (a, b) = (if a = [] then (a, b) else (butlast a, last a # b))"

fun z_right :: "zipper \<Rightarrow> zipper" where
  "z_right (a, b) = (case b of [] \<Rightarrow> (a, b) | c # b' \<Rightarrow> (a @ [c], b'))"

fun z_insert :: "nat \<Rightarrow> zipper \<Rightarrow> zipper" where
  "z_insert c (a, b) = (a @ [c], b)"

fun z_backspace :: "zipper \<Rightarrow> zipper" where
  "z_backspace (a, b) = (butlast a, b)"


section \<open>The password field\<close>

datatype input_action = InputContinue | InputSubmit | InputCancel

record password_input =
  pi_buffer :: codepoints
  pi_cursor :: nat

definition pi_new :: password_input where
  "pi_new = \<lparr>pi_buffer = [], pi_cursor = 0\<rparr>"

definition pi_with_value :: "codepoints \<Rightarrow> password_input" where
  "pi_with_value seed = \<lparr>pi_buffer = seed, pi_cursor = byte_len seed\<rparr>"

definition pi_set_value :: "codepoints \<Rightarrow> password_input \<Rightarrow> password_input" where
  "pi_set_value v p = p\<lparr>pi_buffer := v, pi_cursor := byte_len v\<rparr>"

definition pi_insert_char :: "nat \<Rightarrow> password_input \<Rightarrow> password_input option" where
  "pi_insert_char c p = map_option (\<lambda>b. p\<lparr>pi_buffer := b, pi_cursor := pi_cursor p + utf8_len c\<rparr>)
     (str_insert (pi_cursor p) c (pi_buffer p))"

definition pi_backspace :: "password_input \<Rightarrow> password_input option" where
  "pi_backspace p =
     (if pi_cursor p = 0 then Some p
      else Option.bind (prev_boundary (pi_buffer p) (pi_cursor p)) (\<lambda>prev.
        map_option (\<lambda>b. p\<lparr>pi_buffer := b, pi_cursor := prev\<rparr>) (str_remove prev (pi_buffer p))))"

definition pi_cursor_left :: "password_input \<Rightarrow> password_input option" where
  "pi_cursor_left p =
     (if 0 < pi_cursor p
      then map_option (\<lambda>c. p\<lparr>pi_cursor := c\<rparr>) (prev_boundary (pi_buffer p) (pi_cursor p)) else Some p)"

definition pi_cursor_right :: "password_input \<Rightarrow> password_input option" where
  "pi_cursor_right p =
     (if pi_cursor p < byte_len (pi_buffer p)
      then map_option (\<lambda>c. p\<lparr>pi_cursor := c\<rparr>) (next_boundary (pi_buffer p) (pi_cursor p)) else Some p)"

definition pi_on_key :: "input_key \<times> bool \<Rightarrow> password_input \<Rightarrow> (input_action \<times> password_input) option" where
  "pi_on_key key p = (case fst key of
     IEnter \<Rightarrow> Some (InputSubmit, p)
   | IEsc \<Rightarrow> Some (InputCancel, p)
   | IBackspace \<Rightarrow> map_option (Pair InputContinue) (pi_backspace p)
   | ILeft \<Rightarrow> map_option (Pair InputContinue) (pi_cursor_left p)
   | IRight \<Rightarrow> map_option (Pair InputContinue) (pi_cursor_right p)
   | IChar c \<Rightarrow> if snd key then Some (InputContinue, p)
       else map_option (Pair InputContinue) (pi_insert_char c p)
   | _ \<Rightarrow> Some (InputContinue, p))"

definition pi_len_chars :: "password_input \<Rightarrow> nat" where
  "pi_len_chars p = length (pi_buffer p)"

definition pi_cursor_chars :: "password_input \<Rightarrow> nat option" where
  "pi_cursor_chars p = map_option (\<lambda>(a, _). length a) (split_byte (pi_cursor p) (pi_buffer p))"

text \<open>The masked rendering: one bullet (U+2022) per character, clipped to the width of the field.\<close>

definition pi_masked :: "nat \<Rightarrow> password_input \<Rightarrow> codepoints" where
  "pi_masked width p = replicate (min (pi_len_chars p) width) 0x2022"

section \<open>The notes editor\<close>

record text_area =
  ta_lines :: "codepoints list"
  ta_row :: nat
  ta_col :: nat

definition ta_new :: text_area where
  "ta_new = \<lparr>ta_lines = [[]], ta_row = 0, ta_col = 0\<rparr>"

fun split_lines :: "codepoints \<Rightarrow> codepoints list" where
  "split_lines [] = [[]]"
| "split_lines (c # s) =
     (if c = 10 then [] # split_lines s else (case split_lines s of [] \<Rightarrow> [[c]] | l # ls \<Rightarrow> (c # l) # ls))"

fun join_lines :: "codepoints list \<Rightarrow> codepoints" where
  "join_lines [] = []"
| "join_lines [l] = l"
| "join_lines (l # ls) = l @ 10 # join_lines ls"

definition ta_from_str :: "codepoints \<Rightarrow> text_area" where
  "ta_from_str v = (let lines = split_lines v in
     \<lparr>ta_lines = lines, ta_row = length lines - 1, ta_col = byte_len (last lines)\<rparr>)"

definition ta_value :: "text_area \<Rightarrow> codepoints" where
  "ta_value t = join_lines (ta_lines t)"

definition line_at :: "text_area \<Rightarrow> nat \<Rightarrow> codepoints option" where
  "line_at t r = (if r < length (ta_lines t) then Some (ta_lines t ! r) else None)"

definition ta_cursor :: "text_area \<Rightarrow> (nat \<times> nat) option" where
  "ta_cursor t = Option.bind (line_at t (ta_row t)) (\<lambda>l.
     map_option (\<lambda>(a, _). (ta_row t, length a)) (split_byte (ta_col t) l))"

definition ta_insert_char :: "nat \<Rightarrow> text_area \<Rightarrow> text_area option" where
  "ta_insert_char c t = Option.bind (line_at t (ta_row t)) (\<lambda>l.
     map_option (\<lambda>l'. t\<lparr>ta_lines := (ta_lines t)[ta_row t := l'], ta_col := ta_col t + utf8_len c\<rparr>)
       (str_insert (ta_col t) c l))"

definition ta_split_line :: "text_area \<Rightarrow> text_area option" where
  "ta_split_line t = Option.bind (line_at t (ta_row t)) (\<lambda>l.
     map_option (\<lambda>(a, b). t\<lparr>ta_lines := take (ta_row t) (ta_lines t) @ a # b # drop (Suc (ta_row t)) (ta_lines t),
         ta_row := Suc (ta_row t), ta_col := 0\<rparr>)
       (split_byte (ta_col t) l))"

definition ta_backspace :: "text_area \<Rightarrow> text_area option" where
  "ta_backspace t =
     (if 0 < ta_col t then
        Option.bind (line_at t (ta_row t)) (\<lambda>l.
        Option.bind (prev_boundary l (ta_col t)) (\<lambda>prev.
        map_option (\<lambda>l'. t\<lparr>ta_lines := (ta_lines t)[ta_row t := l'], ta_col := prev\<rparr>) (str_remove prev l)))
      else if 0 < ta_row t then
        Option.bind (line_at t (ta_row t)) (\<lambda>current.
        map_option (\<lambda>l. t\<lparr>ta_lines := take (ta_row t - 1) (ta_lines t) @ (l @ current) # drop (Suc (ta_row t)) (ta_lines t),
            ta_row := ta_row t - 1, ta_col := byte_len l\<rparr>)
          (line_at t (ta_row t - 1)))
      else Some t)"

definition ta_move_left :: "text_area \<Rightarrow> text_area option" where
  "ta_move_left t =
     (if 0 < ta_col t then
        Option.bind (line_at t (ta_row t)) (\<lambda>l.
        map_option (\<lambda>c. t\<lparr>ta_col := c\<rparr>) (prev_boundary l (ta_col t)))
      else if 0 < ta_row t then
        map_option (\<lambda>l. t\<lparr>ta_row := ta_row t - 1, ta_col := byte_len l\<rparr>) (line_at t (ta_row t - 1))
      else Some t)"

definition ta_move_right :: "text_area \<Rightarrow> text_area option" where
  "ta_move_right t = Option.bind (line_at t (ta_row t)) (\<lambda>l.
     if ta_col t < byte_len l then map_option (\<lambda>c. t\<lparr>ta_col := c\<rparr>) (next_boundary l (ta_col t))
     else if ta_row t + 1 < length (ta_lines t) then Some (t\<lparr>ta_row := ta_row t + 1, ta_col := 0\<rparr>)
     else Some t)"

definition ta_move_up :: "text_area \<Rightarrow> text_area option" where
  "ta_move_up t =
     (if 0 < ta_row t then
        map_option (\<lambda>l. t\<lparr>ta_row := ta_row t - 1, ta_col := floor_boundary l (min (ta_col t) (byte_len l))\<rparr>)
          (line_at t (ta_row t - 1))
      else Some t)"

definition ta_move_down :: "text_area \<Rightarrow> text_area option" where
  "ta_move_down t =
     (if ta_row t + 1 < length (ta_lines t) then
        map_option (\<lambda>l. t\<lparr>ta_row := ta_row t + 1, ta_col := floor_boundary l (min (ta_col t) (byte_len l))\<rparr>)
          (line_at t (ta_row t + 1))
      else Some t)"

definition ta_on_key :: "input_key \<times> bool \<Rightarrow> text_area \<Rightarrow> (bool \<times> text_area) option" where
  "ta_on_key key t = (case fst key of
     IChar c \<Rightarrow> if snd key then Some (False, t) else map_option (Pair True) (ta_insert_char c t)
   | IEnter \<Rightarrow> map_option (Pair True) (ta_split_line t)
   | IBackspace \<Rightarrow> map_option (Pair True) (ta_backspace t)
   | ILeft \<Rightarrow> map_option (Pair True) (ta_move_left t)
   | IRight \<Rightarrow> map_option (Pair True) (ta_move_right t)
   | IUp \<Rightarrow> map_option (Pair True) (ta_move_up t)
   | IDown \<Rightarrow> map_option (Pair True) (ta_move_down t)
   | _ \<Rightarrow> Some (False, t))"


section \<open>Runs of keys\<close>

fun type_keys :: "('k \<Rightarrow> 's \<Rightarrow> ('r \<times> 's) option) \<Rightarrow> 'k list \<Rightarrow> 's \<Rightarrow> ('r list \<times> 's) option" where
  "type_keys on_key [] s = Some ([], s)"
| "type_keys on_key (k # ks) s = Option.bind (on_key k s) (\<lambda>(r, s').
     map_option (apfst (Cons r)) (type_keys on_key ks s'))"

fun edits :: "('k \<Rightarrow> zipper \<Rightarrow> zipper \<Rightarrow> bool) \<Rightarrow> 'k list \<Rightarrow> zipper \<Rightarrow> zipper \<Rightarrow> bool" where
  "edits edit [] z z' = (z' = z)"
| "edits edit (k # ks) z z' = (\<exists>y. edit k z y \<and> edits edit ks y z')"

text \<open>
  What an editor promises its screen: from a valid state no key panics, the next state is valid, and
  the text around the cursor changes as the abstract edit of the key says.
\<close>

locale key_editor =
  fixes ok :: "'s \<Rightarrow> bool"
    and on_key :: "'k \<Rightarrow> 's \<Rightarrow> ('r \<times> 's) option"
    and contents :: "'s \<Rightarrow> zipper"
    and edit :: "'k \<Rightarrow> zipper \<Rightarrow> zipper \<Rightarrow> bool"
  assumes key: "ok s \<Longrightarrow> \<exists>r s'. on_key k s = Some (r, s') \<and> ok s' \<and> edit k (contents s) (contents s')"
begin

lemma typed:
  "ok s \<Longrightarrow> \<exists>rs s'. type_keys on_key ks s = Some (rs, s') \<and> length rs = length ks \<and> ok s' \<and>
     edits edit ks (contents s) (contents s')"
proof (induction ks arbitrary: s)
  case (Cons k ks)
  obtain r s' where "on_key k s = Some (r, s')" "ok s'" "edit k (contents s) (contents s')"
    using key [OF Cons.prems, of k] by blast
  moreover obtain rs t where "type_keys on_key ks s' = Some (rs, t)" "length rs = length ks" "ok t"
      "edits edit ks (contents s') (contents t)"
    using Cons.IH [OF \<open>ok s'\<close>] by blast
  ultimately have "type_keys on_key (k # ks) s = Some (r # rs, t) \<and> length (r # rs) = length (k # ks) \<and> ok t \<and>
      edits edit (k # ks) (contents s) (contents t)"
    by (simp del: split_paired_Ex) blast
  then show ?case by blast
qed simp

end

lemma edits_function: "edits (\<lambda>k z z'. z' = f k z) ks z z' = (z' = fold f ks z)"
  by (induction ks arbitrary: z) auto

section \<open>The password field refines the abstract editor\<close>

definition pi_ok :: "password_input \<Rightarrow> bool" where
  "pi_ok p = is_char_boundary (pi_buffer p) (pi_cursor p)"

definition pi_contents :: "password_input \<Rightarrow> zipper" where
  "pi_contents p = the (split_byte (pi_cursor p) (pi_buffer p))"

definition pi_edit :: "input_key \<times> bool \<Rightarrow> zipper \<Rightarrow> zipper" where
  "pi_edit key z = (case fst key of
     IChar c \<Rightarrow> if snd key then z else z_insert c z
   | IBackspace \<Rightarrow> z_backspace z | ILeft \<Rightarrow> z_left z | IRight \<Rightarrow> z_right z | _ \<Rightarrow> z)"

lemma pi_ok_iff:
  "(pi_ok p \<and> pi_contents p = (a, b)) = (pi_buffer p = a @ b \<and> pi_cursor p = byte_len a)"
  by (auto simp: pi_ok_def pi_contents_def is_char_boundary_def split_byte_iff)

lemma butlast_last_append: "a \<noteq> [] \<Longrightarrow> butlast a @ last a # b = a @ b"
  by (metis append_butlast_last_id append_Cons append_assoc append_self_conv2)

lemma pi_step:
  assumes "pi_buffer p = a @ b" "pi_cursor p = byte_len a"
  shows "\<exists>r p'. pi_on_key k p = Some (r, p') \<and> pi_ok p' \<and> pi_contents p' = pi_edit k (a, b)"
proof -
  have left: "str_remove (byte_len (butlast a)) (a @ b) = Some (butlast a @ b)" if "a \<noteq> []"
    using that split_byte_append [of "butlast a" "last a # b"]
    by (simp add: str_remove_def butlast_last_append)
  have right: "split_byte (byte_len a + utf8_len c) (a @ c # d) = Some (a @ [c], d)" for c d
    using split_byte_append [of "a @ [c]" d] by simp
  have prev: "split_byte (byte_len (butlast a)) (a @ b) = Some (butlast a, last a # b)" if "a \<noteq> []"
    using that split_byte_append [of "butlast a" "last a # b"] by (simp add: butlast_last_append)
  note defs = pi_on_key_def pi_edit_def pi_ok_def pi_contents_def is_char_boundary_def pi_insert_char_def
    pi_backspace_def pi_cursor_left_def pi_cursor_right_def boundary_ends [of _ a b]
  show ?thesis
    using assms right left prev
    by (cases "fst k") (auto simp: defs boundary_ends [OF refl refl] split: list.split)
qed

interpretation masked: key_editor pi_ok pi_on_key pi_contents "\<lambda>k z z'. z' = pi_edit k z"
proof
  fix p :: password_input and k
  assume "pi_ok p"
  moreover obtain a b where "pi_contents p = (a, b)" by fastforce
  ultimately show "\<exists>r p'. pi_on_key k p = Some (r, p') \<and> pi_ok p' \<and> pi_contents p' = pi_edit k (pi_contents p)"
    using pi_step [of p a b k] pi_ok_iff [of p a b] by simp
qed


section \<open>The notes editor refines the abstract editor\<close>

definition ta_ok :: "text_area \<Rightarrow> bool" where
  "ta_ok t = (ta_row t < length (ta_lines t) \<and> is_char_boundary (ta_lines t ! ta_row t) (ta_col t))"

definition ta_contents :: "text_area \<Rightarrow> zipper" where
  "ta_contents t = (case the (split_byte (ta_col t) (ta_lines t ! ta_row t)) of (a, b) \<Rightarrow>
     (join_lines (take (ta_row t) (ta_lines t) @ [a]), join_lines (b # drop (Suc (ta_row t)) (ta_lines t))))"

text \<open>Up and Down keep the text and move the cursor towards the start and the end.\<close>

definition ta_edit :: "input_key \<times> bool \<Rightarrow> zipper \<Rightarrow> zipper \<Rightarrow> bool" where
  "ta_edit key z z' = (case fst key of
     IChar c \<Rightarrow> z' = (if snd key then z else z_insert c z)
   | IEnter \<Rightarrow> z' = z_insert 10 z
   | IBackspace \<Rightarrow> z' = z_backspace z
   | ILeft \<Rightarrow> z' = z_left z
   | IRight \<Rightarrow> z' = z_right z
   | IUp \<Rightarrow> fst z' @ snd z' = fst z @ snd z \<and> length (fst z') \<le> length (fst z)
   | IDown \<Rightarrow> fst z' @ snd z' = fst z @ snd z \<and> length (snd z') \<le> length (snd z)
   | _ \<Rightarrow> z' = z)"

text \<open>A text area by its parts: the lines above, the line before and after the cursor, the lines below.\<close>

definition ta_area :: "codepoints list \<Rightarrow> codepoints \<Rightarrow> codepoints \<Rightarrow> codepoints list \<Rightarrow> text_area" where
  "ta_area pre a b post = \<lparr>ta_lines = pre @ (a @ b) # post, ta_row = length pre, ta_col = byte_len a\<rparr>"

lemma join_lines_append:
  "xs \<noteq> [] \<Longrightarrow> ys \<noteq> [] \<Longrightarrow> join_lines (xs @ ys) = join_lines xs @ 10 # join_lines ys"
proof (induction xs rule: join_lines.induct)
  case (2 l)
  then show ?case by (cases ys) auto
qed auto

lemma join_lines_last: "join_lines (pre @ [a @ x]) = join_lines (pre @ [a]) @ x"
  by (cases "pre = []") (auto simp: join_lines_append)

lemma join_lines_first: "join_lines ((x @ b) # post) = x @ join_lines (b # post)"
  by (cases post) auto

lemma join_lines_two: "join_lines (pre @ [l, a]) = join_lines (pre @ [l]) @ 10 # a"
  using join_lines_append [of "pre @ [l]" "[a]"] by simp

lemma join_lines_Cons: "join_lines ((c # b) # post) = c # join_lines (b # post)"
  by (cases post) auto

lemma area_ok: "ta_ok (ta_area pre a b post)"
  by (simp add: ta_ok_def ta_area_def is_char_boundary_def)

lemma area_contents: "ta_contents (ta_area pre a b post) = (join_lines (pre @ [a]), join_lines (b # post))"
  by (simp add: ta_contents_def ta_area_def)

lemma area_cases:
  assumes "ta_ok t"
  obtains pre a b post where "t = ta_area pre a b post"
proof -
  obtain a b where "split_byte (ta_col t) (ta_lines t ! ta_row t) = Some (a, b)"
    using assms by (auto simp: ta_ok_def is_char_boundary_def)
  then have "ta_lines t ! ta_row t = a @ b" "ta_col t = byte_len a" by (auto simp: split_byte_iff)
  moreover have "take (ta_row t) (ta_lines t) @ ta_lines t ! ta_row t # drop (Suc (ta_row t)) (ta_lines t) = ta_lines t"
    using assms by (simp add: ta_ok_def flip: id_take_nth_drop)
  ultimately have "t = ta_area (take (ta_row t) (ta_lines t)) a b (drop (Suc (ta_row t)) (ta_lines t))"
    using assms by (cases t) (simp add: ta_area_def ta_ok_def)
  then show thesis by (rule that)
qed

lemma area_value: "ta_value (ta_area pre a b post) = join_lines (pre @ [a]) @ join_lines (b # post)"
proof -
  have "join_lines (pre @ (a @ b) # post) = join_lines (pre @ [a]) @ join_lines (b # post)"
    by (cases "pre = []") (simp_all add: join_lines_append join_lines_first)
  then show ?thesis by (simp add: ta_value_def ta_area_def)
qed

lemma area_simps [simp]:
  "ta_lines (ta_area pre a b post) = pre @ (a @ b) # post" "ta_row (ta_area pre a b post) = length pre"
  "ta_col (ta_area pre a b post) = byte_len a"
  by (simp_all add: ta_area_def)

lemma line_at_area [simp]:
  "line_at (ta_area pre a b post) (length pre) = Some (a @ b)"
  "line_at (ta_area (pre @ [l]) a b post) (length pre) = Some l"
  "line_at (ta_area (pre @ [l]) a b post) (Suc (length pre)) = Some (a @ b)"
  "line_at (ta_area pre a b (l # post)) (Suc (length pre)) = Some l"
  by (simp_all add: line_at_def nth_append)


lemma area_insert: "ta_insert_char c (ta_area pre a b post) = Some (ta_area pre (a @ [c]) b post)"
  by (simp add: ta_insert_char_def boundary_ends)

lemma area_split: "ta_split_line (ta_area pre a b post) = Some (ta_area (pre @ [a]) [] b post)"
  by (simp add: ta_split_line_def)

lemma area_backspace:
  "ta_backspace (ta_area pre a b post) = Some
     (if a \<noteq> [] then ta_area pre (butlast a) b post
      else if pre \<noteq> [] then ta_area (butlast pre) (last pre) b post else ta_area pre a b post)"
proof (cases "a = []")
  case False
  then have "str_remove (byte_len (butlast a)) (a @ b) = Some (butlast a @ b)"
    using split_byte_append [of "butlast a" "last a # b"] by (simp add: str_remove_def butlast_last_append)
  with False show ?thesis by (simp add: ta_backspace_def boundary_ends)
next
  case True
  show ?thesis
    by (cases pre rule: rev_cases) (simp_all add: True ta_backspace_def)
qed

lemma area_left:
  "ta_move_left (ta_area pre a b post) = Some
     (if a \<noteq> [] then ta_area pre (butlast a) (last a # b) post
      else if pre \<noteq> [] then ta_area (butlast pre) (last pre) [] (b # post) else ta_area pre a b post)"
proof (cases "a = []")
  case False
  then show ?thesis
    by (simp add: ta_move_left_def boundary_ends)
next
  case True
  show ?thesis
    by (cases pre rule: rev_cases) (simp_all add: True ta_move_left_def)
qed

lemma area_right:
  "ta_move_right (ta_area pre a b post) = Some
     (case b of c # b' \<Rightarrow> ta_area pre (a @ [c]) b' post
      | [] \<Rightarrow> (case post of l # post' \<Rightarrow> ta_area (pre @ [a]) [] l post' | [] \<Rightarrow> ta_area pre a b post))"
  by (cases b; cases post) (simp_all add: ta_move_right_def boundary_ends)

lemma floor_split:
  obtains a b where "l = a @ b" "floor_boundary l p = byte_len a"
  using floor_boundary_spec [of l p] by (auto simp: is_char_boundary_def split_byte_iff)

lemma area_up:
  "\<exists>t'. ta_move_up (ta_area pre a b post) = Some t' \<and> ta_ok t' \<and> ta_edit (IUp, x) (ta_contents (ta_area pre a b post)) (ta_contents t')"
proof (cases pre rule: rev_cases)
  case Nil
  then show ?thesis by (simp add: ta_move_up_def area_ok ta_edit_def)
next
  case (snoc pre' l)
  obtain a' b' where "l = a' @ b'" "floor_boundary l (min (byte_len a) (byte_len l)) = byte_len a'"
    by (rule floor_split)
  with snoc have "ta_move_up (ta_area pre a b post) = Some (ta_area pre' a' b' ((a @ b) # post))"
    by (simp add: ta_move_up_def)
  moreover have "join_lines (pre @ [a]) @ join_lines (b # post) = join_lines (pre' @ [a']) @ join_lines (b' # (a @ b) # post)"
    using snoc \<open>l = a' @ b'\<close> by (simp add: join_lines_two join_lines_last [of pre'] join_lines_first)
  ultimately show ?thesis
    using snoc \<open>l = a' @ b'\<close>
    by (simp add: area_ok area_contents ta_edit_def join_lines_two join_lines_last [of pre'])
qed

lemma area_down:
  "\<exists>t'. ta_move_down (ta_area pre a b post) = Some t' \<and> ta_ok t' \<and> ta_edit (IDown, x) (ta_contents (ta_area pre a b post)) (ta_contents t')"
proof (cases post)
  case Nil
  then show ?thesis by (simp add: ta_move_down_def area_ok ta_edit_def)
next
  case (Cons l post')
  obtain a' b' where "l = a' @ b'" "floor_boundary l (min (byte_len a) (byte_len l)) = byte_len a'"
    by (rule floor_split)
  with Cons have "ta_move_down (ta_area pre a b post) = Some (ta_area (pre @ [a @ b]) a' b' post')"
    by (simp add: ta_move_down_def)
  moreover have "join_lines (pre @ [a]) @ join_lines (b # post) = join_lines (pre @ [a @ b, a']) @ join_lines (b' # post')"
    using Cons \<open>l = a' @ b'\<close> by (simp add: join_lines_two join_lines_last [of pre a] join_lines_first)
  ultimately show ?thesis
    using Cons \<open>l = a' @ b'\<close> by (simp add: area_ok area_contents ta_edit_def join_lines_first)
qed


lemma area_left_contents:
  "\<exists>t'. ta_move_left (ta_area pre a b post) = Some t' \<and> ta_ok t' \<and> ta_contents t' = z_left (ta_contents (ta_area pre a b post))"
proof (cases a rule: rev_cases)
  case Nil
  then show ?thesis
    by (cases pre rule: rev_cases) (simp_all add: area_left area_ok area_contents join_lines_two)
next
  case (snoc a' c)
  then show ?thesis by (simp add: area_left area_ok area_contents join_lines_last join_lines_Cons)
qed

lemma area_right_contents:
  "\<exists>t'. ta_move_right (ta_area pre a b post) = Some t' \<and> ta_ok t' \<and> ta_contents t' = z_right (ta_contents (ta_area pre a b post))"
proof (cases b)
  case Nil
  then show ?thesis
    by (cases post) (simp_all add: area_right area_ok area_contents join_lines_two)
next
  case (Cons c b')
  then show ?thesis by (simp add: area_right area_ok area_contents join_lines_last join_lines_Cons)
qed

lemma area_key:
  "\<exists>r t'. ta_on_key k (ta_area pre a b post) = Some (r, t') \<and> ta_ok t' \<and> ta_edit k (ta_contents (ta_area pre a b post)) (ta_contents t')"
proof (cases "fst k")
  case IBackspace
  have "join_lines (pre @ [[]]) = (if pre = [] then [] else join_lines (butlast pre @ [last pre]) @ [10])"
    by (cases pre rule: rev_cases) (simp_all add: join_lines_two)
  with IBackspace show ?thesis
    by (cases a rule: rev_cases)
      (auto simp: ta_on_key_def area_backspace area_ok area_contents ta_edit_def join_lines_last join_lines_first)
next
  case ILeft
  then show ?thesis using area_left_contents [of pre a b post] by (cases k) (auto simp: ta_on_key_def ta_edit_def)
next
  case IRight
  then show ?thesis using area_right_contents [of pre a b post] by (cases k) (auto simp: ta_on_key_def ta_edit_def)
next
  case IUp
  then show ?thesis using area_up [of pre a b post "snd k"] by (cases k) (auto simp: ta_on_key_def)
next
  case IDown
  then show ?thesis using area_down [of pre a b post "snd k"] by (cases k) (auto simp: ta_on_key_def)
qed (auto simp: ta_on_key_def area_insert area_split area_ok area_contents ta_edit_def join_lines_last join_lines_two)

interpretation multiline: key_editor ta_ok ta_on_key ta_contents ta_edit
proof
  fix t :: text_area and k
  assume "ta_ok t"
  then obtain pre a b post where "t = ta_area pre a b post" by (rule area_cases)
  then show "\<exists>r t'. ta_on_key k t = Some (r, t') \<and> ta_ok t' \<and> ta_edit k (ta_contents t) (ta_contents t')"
    using area_key by simp
qed


section \<open>Any run of keys\<close>

lemma split_lines_Cons: "\<exists>l ls. split_lines v = l # ls"
  by (cases v) (auto split: list.split)

lemma join_split_lines: "join_lines (split_lines v) = v"
proof (induction v)
  case (Cons c v)
  obtain l ls where "split_lines v = l # ls" using split_lines_Cons by blast
  with Cons show ?case using join_lines_first [of "[c]" l ls] by simp
qed simp

lemma from_str_area: "ta_from_str v = ta_area (butlast (split_lines v)) (last (split_lines v)) [] []"
  using split_lines_Cons [of v] by (auto simp: ta_from_str_def ta_area_def Let_def)

lemma from_str_contents: "ta_ok (ta_from_str v) \<and> ta_contents (ta_from_str v) = (v, [])"
proof -
  obtain l ls where "split_lines v = l # ls" using split_lines_Cons by blast
  then have "butlast (split_lines v) @ [last (split_lines v)] = split_lines v" by simp
  then show ?thesis by (simp add: from_str_area area_ok area_contents join_split_lines)
qed

lemma contents_value: "ta_ok t \<Longrightarrow> ta_value t = fst (ta_contents t) @ snd (ta_contents t)"
  by (erule area_cases) (simp add: area_value area_contents)

lemma password_field_run:
  "\<exists>rs p. type_keys pi_on_key ks (pi_with_value v) = Some (rs, p) \<and>
     pi_buffer p = fst (fold pi_edit ks (v, [])) @ snd (fold pi_edit ks (v, [])) \<and>
     pi_cursor p = byte_len (fst (fold pi_edit ks (v, [])))"
proof -
  have start: "pi_ok (pi_with_value v) \<and> pi_contents (pi_with_value v) = (v, [])"
    by (simp add: pi_ok_iff pi_with_value_def)
  then obtain rs p where "type_keys pi_on_key ks (pi_with_value v) = Some (rs, p)" "pi_ok p"
      "pi_contents p = fold pi_edit ks (v, [])"
    using masked.typed [of "pi_with_value v" ks] by (auto simp: edits_function)
  then show ?thesis using pi_ok_iff [of p "fst (pi_contents p)" "snd (pi_contents p)"] by auto
qed

lemma notes_editor_run:
  "\<exists>rs t. type_keys ta_on_key ks (ta_from_str v) = Some (rs, t) \<and> ta_ok t \<and>
     edits ta_edit ks (v, []) (ta_contents t) \<and> ta_value t = fst (ta_contents t) @ snd (ta_contents t)"
  using multiline.typed [of "ta_from_str v" ks] from_str_contents [of v] contents_value by fastforce

text \<open>C35: the two text editors refine an editor that keeps the text before and after the cursor. From
  any initial text and for any sequence of keys no byte offset is off a character boundary, so nothing
  panics; the masked field holds exactly what the abstract editor holds, with its cursor between the two
  parts; the notes editor changes the text around the cursor as each key says, a line break being one
  character, and Up and Down only move the cursor.\<close>

theorem text_editors_refine:
  "(\<exists>rs p. type_keys pi_on_key ks (pi_with_value v) = Some (rs, p) \<and>
      pi_buffer p = fst (fold pi_edit ks (v, [])) @ snd (fold pi_edit ks (v, [])) \<and>
      pi_cursor p = byte_len (fst (fold pi_edit ks (v, [])))) \<and>
   (\<exists>rs t. type_keys ta_on_key ks (ta_from_str v) = Some (rs, t) \<and> ta_ok t \<and>
      edits ta_edit ks (v, []) (ta_contents t) \<and> ta_value t = fst (ta_contents t) @ snd (ta_contents t))"
  by (intro conjI password_field_run notes_editor_run)

end
