(* ===== verification/Tabs.thy ===== *)
theory Tabs
  imports TextInput Kdbx
begin

text \<open>
  Workspace state that remembers where the user was: the tab bar with its pinned entries
  (\<open>falach-tui/src/tabs.rs\<close>), the recents list (\<open>falach-tui/src/recents.rs\<close>) and the jump history
  (\<open>falach-tui/src/jump_history.rs\<close>). The lists of identifiers are most-recently-used lists; they are
  compared with the log of all uses.
\<close>

section \<open>Most recently used\<close>

text \<open>The distinct elements of a list in the order of their first occurrence.\<close>

fun firsts :: "'a list \<Rightarrow> 'a list" where
  "firsts [] = []"
| "firsts (x # xs) = x # filter (\<lambda>y. y \<noteq> x) (firsts xs)"

text \<open>The loop that reads a persisted list: push what is new, stop at the cap.\<close>

fun dedup_capped :: "nat \<Rightarrow> 'a list \<Rightarrow> 'a list \<Rightarrow> 'a list" where
  "dedup_capped cap out [] = out"
| "dedup_capped cap out (x # xs) =
     (if x \<notin> set out
      then (if length out + 1 = cap then out @ [x] else dedup_capped cap (out @ [x]) xs)
      else dedup_capped cap out xs)"

lemma set_firsts [simp]: "set (firsts xs) = set xs"
  by (induction xs) auto

lemma distinct_firsts [simp]: "distinct (firsts xs)"
  by (induction xs) auto

lemma firsts_filter: "firsts (filter P xs) = filter P (firsts xs)"
  by (induction xs) (auto simp: filter_filter intro: filter_cong)

lemma firsts_append: "firsts (xs @ ys) = firsts xs @ filter (\<lambda>y. y \<notin> set xs) (firsts ys)"
  by (induction xs) (auto simp: filter_filter intro: filter_cong)

lemma firsts_distinct: "distinct xs \<Longrightarrow> firsts xs = xs"
  by (induction xs) (auto simp: filter_id_conv)

lemma dedup_capped_eq:
  "distinct out \<Longrightarrow> length out < cap \<Longrightarrow> dedup_capped cap out xs = take cap (firsts (out @ xs))"
proof (induction cap out xs rule: dedup_capped.induct)
  case (1 cap out)
  then show ?case by (simp add: firsts_distinct)
next
  case (2 cap out x xs)
  show ?case
  proof (cases "x \<in> set out")
    case True
    then show ?thesis using 2 by (simp add: firsts_append firsts_distinct filter_filter cong: conj_cong)
        (metis (mono_tags, lifting) filter_cong)
  next
    case False
    have "firsts (out @ x # xs) = (out @ [x]) @ filter (\<lambda>y. y \<notin> set (out @ [x])) (firsts xs)"
      using False 2 by (simp add: firsts_append firsts_distinct filter_filter conj_commute)
    then show ?thesis using 2 False
      by (cases "cap = Suc (length out)") (simp_all add: firsts_append firsts_distinct)
  qed
qed

text \<open>Touching an element of a capped list is adding a use to the log.\<close>

lemma length_filter_neq: "distinct xs \<Longrightarrow> length xs \<le> Suc (length (filter (\<lambda>y. y \<noteq> x) xs))"
proof (induction xs)
  case (Cons y ys)
  moreover have "x \<notin> set ys \<Longrightarrow> filter (\<lambda>y. y \<noteq> x) ys = ys" by (auto simp: filter_id_conv)
  ultimately show ?case by (cases "x \<in> set ys") auto
qed simp

lemma take_touch:
  assumes "distinct xs"
  shows "take n (x # filter (\<lambda>y. y \<noteq> x) (take n xs)) = take n (x # filter (\<lambda>y. y \<noteq> x) xs)"
proof (cases n)
  case (Suc m)
  let ?f = "filter (\<lambda>y. y \<noteq> x)"
  have "m \<le> length (?f (take n xs)) \<or> drop n xs = []"
    using length_filter_neq [of "take n xs" x] assms Suc by auto
  moreover have "?f xs = ?f (take n xs) @ ?f (drop n xs)"
    by (metis append_take_drop_id filter_append)
  ultimately show ?thesis using Suc by auto
qed simp

lemma take_firsts_Cons: "take n (x # filter (\<lambda>y. y \<noteq> x) (take n (firsts xs))) = take n (firsts (x # xs))"
  by (simp add: take_touch)

section \<open>Recents\<close>

type_synonym recents = "uuid list"

definition RECENTS_CAP :: nat where "RECENTS_CAP = 50"

definition recents_from_persisted :: "uuid list \<Rightarrow> recents" where
  "recents_from_persisted l = dedup_capped RECENTS_CAP [] l"

definition recents_bump :: "uuid \<Rightarrow> recents \<Rightarrow> recents" where
  "recents_bump u r = take RECENTS_CAP (u # filter (\<lambda>v. v \<noteq> u) r)"

definition recents_remove :: "uuid \<Rightarrow> recents \<Rightarrow> recents" where
  "recents_remove u r = filter (\<lambda>v. v \<noteq> u) r"

fun index_of :: "'a \<Rightarrow> 'a list \<Rightarrow> nat option" where
  "index_of x [] = None"
| "index_of x (y # ys) = (if y = x then Some 0 else map_option Suc (index_of x ys))"

definition recents_rank :: "uuid \<Rightarrow> recents \<Rightarrow> nat option" where
  "recents_rank u r = index_of u r"

lemma recents_from_persisted_eq: "recents_from_persisted l = take RECENTS_CAP (firsts l)"
  by (simp add: recents_from_persisted_def dedup_capped_eq RECENTS_CAP_def)

lemma recents_bumps: "fold recents_bump us (recents_from_persisted l) = recents_from_persisted (rev us @ l)"
proof (induction us rule: rev_induct)
  case (snoc u us)
  have "recents_bump u (recents_from_persisted xs) = recents_from_persisted (u # xs)" for xs
    unfolding recents_bump_def recents_from_persisted_eq by (rule take_firsts_Cons)
  with snoc show ?case by simp
qed simp

lemma index_of_iff: "(index_of x xs = Some n) = (n < length xs \<and> xs ! n = x \<and> x \<notin> set (take n xs))"
proof (induction xs arbitrary: n)
  case (Cons y ys)
  then show ?case by (cases n) auto
qed simp

lemma index_of_None [simp]: "(index_of x xs = None) = (x \<notin> set xs)"
  by (induction xs) auto

lemma recents_reload: "length r \<le> RECENTS_CAP \<Longrightarrow> distinct r \<Longrightarrow> recents_from_persisted r = r"
  by (simp add: recents_from_persisted_eq firsts_distinct)

section \<open>Jump history\<close>

record jump_history =
  jh_back :: "uuid list"
  jh_forward :: "uuid list"

definition JUMP_HISTORY_CAP :: nat where "JUMP_HISTORY_CAP = 100"

definition jump_default :: jump_history where
  "jump_default = \<lparr>jh_back = [], jh_forward = []\<rparr>"

definition last_is :: "'a list \<Rightarrow> 'a \<Rightarrow> bool" where
  "last_is xs x = (xs \<noteq> [] \<and> last xs = x)"

definition jump_cap :: "jump_history \<Rightarrow> jump_history" where
  "jump_cap h = h\<lparr>jh_back := drop (length (jh_back h) - JUMP_HISTORY_CAP) (jh_back h)\<rparr>"

definition jump_push :: "uuid \<Rightarrow> jump_history \<Rightarrow> jump_history" where
  "jump_push u h =
     (if last_is (jh_back h) u then h else jump_cap (h\<lparr>jh_forward := [], jh_back := jh_back h @ [u]\<rparr>))"

definition jump_back :: "uuid \<Rightarrow> jump_history \<Rightarrow> uuid option \<times> jump_history" where
  "jump_back current h =
     (let h = (if last_is (jh_back h) current then h else jump_push current h) in
      if length (jh_back h) < 2 then (None, h)
      else let left = last (jh_back h); rest = butlast (jh_back h) in
        (Some (last rest), h\<lparr>jh_back := rest, jh_forward := jh_forward h @ [left]\<rparr>))"

definition jump_forward :: "uuid \<Rightarrow> jump_history \<Rightarrow> uuid option \<times> jump_history" where
  "jump_forward current h =
     (if jh_forward h = [] then (None, h)
      else let next = last (jh_forward h);
               back = (if last_is (jh_back h) current then jh_back h else jh_back h @ [current]) in
        (Some next, jump_cap (h\<lparr>jh_forward := butlast (jh_forward h), jh_back := back @ [next]\<rparr>)))"

definition jump_clear :: "jump_history \<Rightarrow> jump_history" where
  "jump_clear h = h\<lparr>jh_back := [], jh_forward := []\<rparr>"

lemma jump_cap_bound: "length (jh_back (jump_cap h)) \<le> JUMP_HISTORY_CAP"
  by (simp add: jump_cap_def)

lemma jump_cap_id: "length (jh_back h) \<le> JUMP_HISTORY_CAP \<Longrightarrow> jump_cap h = h"
  by (simp add: jump_cap_def)

lemma jump_bounds:
  assumes "length (jh_back h) \<le> JUMP_HISTORY_CAP"
  shows "length (jh_back (jump_push u h)) \<le> JUMP_HISTORY_CAP"
    and "length (jh_back (snd (jump_back u h))) \<le> JUMP_HISTORY_CAP"
    and "length (jh_back (snd (jump_forward u h))) \<le> JUMP_HISTORY_CAP"
  using assms jump_cap_bound
  by (auto simp: jump_push_def jump_back_def jump_forward_def Let_def intro: le_trans [OF diff_le_self])

lemma jump_push_last: "last_is (jh_back (jump_push u h)) u"
  by (auto simp: jump_push_def jump_cap_def last_is_def JUMP_HISTORY_CAP_def)

text \<open>Forward undoes back, from wherever back stepped away.\<close>

lemma jump_back_forward:
  assumes "length (jh_back h) \<le> JUMP_HISTORY_CAP" "jump_back current h = (Some prev, h')"
  shows "jump_forward prev h' = (Some current, jump_push current h)"
proof -
  define g where "g = jump_push current h"
  have bound: "length (jh_back g) \<le> JUMP_HISTORY_CAP" and "last_is (jh_back g) current"
    using jump_bounds(1) [OF assms(1)] jump_push_last by (auto simp: g_def)
  then obtain ys where ys: "jh_back g = ys @ [current]"
    by (metis append_butlast_last_id last_is_def)
  have "(if last_is (jh_back h) current then h else jump_push current h) = g" by (simp add: g_def jump_push_def)
  with assms(2) have "ys \<noteq> []" and prev: "prev = last ys" "h' = g\<lparr>jh_back := ys, jh_forward := jh_forward g @ [current]\<rparr>"
    unfolding jump_back_def by (auto simp: Let_def ys split: if_splits)
  then have "jump_forward prev h' = (Some current, jump_cap (g\<lparr>jh_back := ys @ [current]\<rparr>))"
    by (simp add: jump_forward_def last_is_def)
  also have "g\<lparr>jh_back := ys @ [current]\<rparr> = g" by (simp flip: ys)
  finally show ?thesis using bound by (simp add: jump_cap_id g_def)
qed

text \<open>Stepping forward from a selection that was moved onto the next node by hand puts that node into
  the trail twice, and the next step back stays where it is.\<close>

lemma jump_forward_twice:
  assumes "jh_back h = [a]" "jh_forward h = [b]" "a \<noteq> b"
  shows "jump_forward b h = (Some b, \<lparr>jh_back = [a, b, b], jh_forward = []\<rparr>) \<and>
    fst (jump_back b (snd (jump_forward b h))) = Some b"
  using assms by (cases h) (simp add: jump_forward_def jump_back_def jump_cap_def last_is_def JUMP_HISTORY_CAP_def)


section \<open>The tab bar\<close>

definition MAX_PINS :: nat where "MAX_PINS = 5"

datatype tab = SecretsTab | PinnedTab uuid | SettingsTab

datatype pin_change = PinAdded | PinnedEvicting uuid | Unpinned

record tab_bar =
  tb_active :: nat
  tb_pinned :: "uuid list"
  tb_activation :: "uuid list"

definition tab_bar_new :: tab_bar where
  "tab_bar_new = \<lparr>tb_active = 0, tb_pinned = [], tb_activation = []\<rparr>"

definition with_pins :: "uuid list \<Rightarrow> tab_bar" where
  "with_pins pins = (let pinned = dedup_capped MAX_PINS [] pins in
     \<lparr>tb_active = 0, tb_pinned = pinned, tb_activation = rev pinned\<rparr>)"

definition tab_count :: "tab_bar \<Rightarrow> nat" where
  "tab_count b = length (tb_pinned b) + 2"

definition tab_resolve :: "tab_bar \<Rightarrow> nat \<Rightarrow> tab option" where
  "tab_resolve b i =
     (if i = 0 then Some SecretsTab
      else if i \<le> length (tb_pinned b) then Some (PinnedTab (tb_pinned b ! (i - 1)))
      else if i = length (tb_pinned b) + 1 then Some SettingsTab
      else None)"

text \<open>\<open>active_tab\<close> unwraps the resolution: \<open>None\<close> is its panic.\<close>

definition active_tab :: "tab_bar \<Rightarrow> tab option" where
  "active_tab b = tab_resolve b (tb_active b)"

definition to_front :: "uuid \<Rightarrow> uuid list \<Rightarrow> uuid list" where
  "to_front u l = u # filter (\<lambda>v. v \<noteq> u) l"

definition record_activation :: "tab_bar \<Rightarrow> tab_bar option" where
  "record_activation b = (case active_tab b of
     Some (PinnedTab u) \<Rightarrow> Some (b\<lparr>tb_activation := to_front u (tb_activation b)\<rparr>)
   | Some _ \<Rightarrow> Some b
   | None \<Rightarrow> None)"

definition tab_next :: "tab_bar \<Rightarrow> tab_bar option" where
  "tab_next b = record_activation (b\<lparr>tb_active := (tb_active b + 1) mod tab_count b\<rparr>)"

definition tab_prev :: "tab_bar \<Rightarrow> tab_bar option" where
  "tab_prev b = record_activation (b\<lparr>tb_active := (tb_active b + tab_count b - 1) mod tab_count b\<rparr>)"

definition tab_jump_to :: "nat \<Rightarrow> tab_bar \<Rightarrow> tab_bar option" where
  "tab_jump_to n b =
     (if 1 \<le> n \<and> n \<le> tab_count b then record_activation (b\<lparr>tb_active := n - 1\<rparr>) else Some b)"

definition is_pinned :: "tab_bar \<Rightarrow> uuid \<Rightarrow> bool" where
  "is_pinned b u = (u \<in> set (tb_pinned b))"

definition clamp_active :: "tab_bar \<Rightarrow> tab_bar" where
  "clamp_active b = (if tb_active b > tab_count b - 1 then b\<lparr>tb_active := tab_count b - 1\<rparr> else b)"

definition unpin :: "uuid \<Rightarrow> tab_bar \<Rightarrow> tab_bar" where
  "unpin u b = b\<lparr>tb_pinned := filter (\<lambda>v. v \<noteq> u) (tb_pinned b), tb_activation := filter (\<lambda>v. v \<noteq> u) (tb_activation b)\<rparr>"

definition eviction_victim :: "tab_bar \<Rightarrow> uuid option" where
  "eviction_victim b =
     (if length (tb_pinned b) \<ge> MAX_PINS
      then (if tb_activation b = [] then None else Some (last (tb_activation b))) else None)"

definition toggle_pin :: "uuid \<Rightarrow> tab_bar \<Rightarrow> pin_change \<times> tab_bar" where
  "toggle_pin u b =
     (if u \<in> set (tb_pinned b) then (Unpinned, clamp_active (unpin u b))
      else let victim = eviction_victim b;
               b1 = (case victim of Some v \<Rightarrow> unpin v b | None \<Rightarrow> b);
               b2 = b1\<lparr>tb_pinned := tb_pinned b1 @ [u], tb_activation := u # tb_activation b1\<rparr> in
        (case victim of Some v \<Rightarrow> PinnedEvicting v | None \<Rightarrow> PinAdded, clamp_active b2))"

section \<open>The log of uses\<close>

datatype tab_op = TabNext | TabPrev | TabJump nat | TabToggle uuid

definition tab_step :: "tab_op \<Rightarrow> tab_bar \<Rightarrow> tab_bar option" where
  "tab_step oper b = (case oper of
     TabNext \<Rightarrow> tab_next b | TabPrev \<Rightarrow> tab_prev b | TabJump n \<Rightarrow> tab_jump_to n b
   | TabToggle u \<Rightarrow> Some (snd (toggle_pin u b)))"

text \<open>What an operation uses: the pinned tab it lands on, or the entry it pins.\<close>

definition moves :: "tab_op \<Rightarrow> tab_bar \<Rightarrow> bool" where
  "moves oper b = (case oper of TabNext \<Rightarrow> True | TabPrev \<Rightarrow> True | TabJump n \<Rightarrow> 1 \<le> n \<and> n \<le> tab_count b | TabToggle _ \<Rightarrow> False)"

definition uses :: "tab_op \<Rightarrow> tab_bar \<Rightarrow> tab_bar \<Rightarrow> uuid list" where
  "uses oper b b' = (case oper of
     TabToggle u \<Rightarrow> if is_pinned b u then [] else [u]
   | _ \<Rightarrow> if moves oper b then (case active_tab b' of Some (PinnedTab u) \<Rightarrow> [u] | _ \<Rightarrow> []) else [])"

text \<open>The bar after a sequence of operations, with the log of uses, newest first.\<close>

fun tab_run :: "tab_op list \<Rightarrow> tab_bar \<times> uuid list \<Rightarrow> (tab_bar \<times> uuid list) option" where
  "tab_run [] s = Some s"
| "tab_run (oper # opers) (b, log) = Option.bind (tab_step oper b) (\<lambda>b'. tab_run opers (b', uses oper b b' @ log))"

definition tab_inv :: "tab_bar \<Rightarrow> uuid list \<Rightarrow> bool" where
  "tab_inv b log = (distinct (tb_pinned b) \<and> length (tb_pinned b) \<le> MAX_PINS \<and> set (tb_pinned b) \<subseteq> set log \<and>
     tb_active b < tab_count b \<and> tb_activation b = filter (\<lambda>u. u \<in> set (tb_pinned b)) (firsts log))"

lemma tab_resolve_Some: "i < tab_count b \<Longrightarrow> \<exists>t. tab_resolve b i = Some t"
  by (auto simp: tab_resolve_def tab_count_def)

lemma tab_resolve_pinned: "tab_resolve b i = Some (PinnedTab u) \<Longrightarrow> u \<in> set (tb_pinned b)"
  by (auto simp: tab_resolve_def split: if_splits)

lemma to_front_log:
  "u \<in> P \<Longrightarrow> to_front u (filter (\<lambda>v. v \<in> P) (firsts log)) = filter (\<lambda>v. v \<in> P) (firsts (u # log))"
  by (auto simp: to_front_def filter_filter intro: filter_cong)

lemma record_activation_inv:
  assumes "tab_inv b log" "i < tab_count b"
  shows "\<exists>b'. record_activation (b\<lparr>tb_active := i\<rparr>) = Some b' \<and> active_tab b' = tab_resolve b i \<and> tb_pinned b' = tb_pinned b \<and>
    tab_inv b' ((case tab_resolve b i of Some (PinnedTab u) \<Rightarrow> [u] | _ \<Rightarrow> []) @ log)"
proof -
  have same: "tab_resolve (b\<lparr>tb_active := i, tb_activation := l\<rparr>) k = tab_resolve b k"
      "tab_resolve (b\<lparr>tb_active := i\<rparr>) k = tab_resolve b k" for l k
    by (simp_all add: tab_resolve_def)
  obtain t where t: "tab_resolve b i = Some t" using tab_resolve_Some [OF assms(2)] by blast
  show ?thesis
  proof (cases t)
    case (PinnedTab u)
    with t have "u \<in> set (tb_pinned b)" using tab_resolve_pinned by simp
    then show ?thesis
      using t PinnedTab assms to_front_log [of u "set (tb_pinned b)" log]
      by (auto simp: record_activation_def active_tab_def same tab_inv_def tab_count_def simp del: firsts.simps)
  qed (use t assms in \<open>simp_all add: record_activation_def active_tab_def same tab_inv_def tab_count_def\<close>)
qed


lemma clamp_fields [simp]:
  "tb_pinned (clamp_active b) = tb_pinned b" "tb_activation (clamp_active b) = tb_activation b"
  "tab_count (clamp_active b) = tab_count b" "tb_active (clamp_active b) < tab_count b"
  by (auto simp: clamp_active_def tab_count_def)

lemma activation_set: "tab_inv b log \<Longrightarrow> set (tb_activation b) = set (tb_pinned b)"
  by (auto simp: tab_inv_def)

lemma length_without: "distinct xs \<Longrightarrow> v \<in> set xs \<Longrightarrow> Suc (length (filter (\<lambda>u. u \<noteq> v) xs)) = length xs"
proof (induction xs)
  case (Cons x xs)
  moreover have "v \<notin> set xs \<Longrightarrow> filter (\<lambda>u. u \<noteq> v) xs = xs" by (auto simp: filter_id_conv)
  ultimately show ?case by auto
qed simp

lemma unpin_inv:
  assumes "tab_inv b log"
  shows "tab_inv (clamp_active (unpin u b)) log"
  using assms le_trans [OF length_filter_le]
  by (auto simp: tab_inv_def unpin_def conj_commute)

lemma pin_inv:
  assumes "tab_inv b log" "u \<notin> set (tb_pinned b)" "length (tb_pinned b) < MAX_PINS"
  shows "tab_inv (clamp_active (b\<lparr>tb_pinned := tb_pinned b @ [u], tb_activation := u # tb_activation b\<rparr>)) (u # log)"
proof -
  have "filter (\<lambda>v. v \<in> insert u (set (tb_pinned b))) (firsts (u # log)) = u # filter (\<lambda>v. v \<in> set (tb_pinned b)) (firsts log)"
    using assms(2) by (auto simp: filter_filter intro: filter_cong)
  then show ?thesis using assms by (auto simp: tab_inv_def simp del: firsts.simps)
qed

lemma victim_pinned:
  assumes "tab_inv b log" "MAX_PINS \<le> length (tb_pinned b)"
  shows "eviction_victim b = Some (last (tb_activation b)) \<and> last (tb_activation b) \<in> set (tb_pinned b)"
proof -
  have "tb_activation b \<noteq> []"
    using assms activation_set [OF assms(1)] by (auto simp: MAX_PINS_def)
  then show ?thesis using assms(2) activation_set [OF assms(1)] last_in_set by (fastforce simp: eviction_victim_def)
qed

lemma toggle_inv:
  assumes "tab_inv b log"
  shows "tab_inv (snd (toggle_pin u b)) ((if is_pinned b u then [] else [u]) @ log)"
proof (cases "is_pinned b u")
  case True
  then show ?thesis using unpin_inv [OF assms] by (simp add: toggle_pin_def is_pinned_def)
next
  case new: False
  then have "u \<notin> set (tb_pinned b)" by (simp add: is_pinned_def)
  show ?thesis
  proof (cases "length (tb_pinned b) < MAX_PINS")
    case True
    then show ?thesis using pin_inv [OF assms _ True] \<open>u \<notin> set (tb_pinned b)\<close>
      by (simp add: toggle_pin_def is_pinned_def eviction_victim_def)
  next
    case False
    define v where "v = last (tb_activation b)"
    have v: "eviction_victim b = Some v" "v \<in> set (tb_pinned b)"
      using victim_pinned [OF assms] False by (auto simp: v_def)
    define c where "c = clamp_active (unpin v b)"
    have "tab_inv c log" unfolding c_def by (rule unpin_inv [OF assms])
    moreover have "u \<notin> set (tb_pinned c)" using \<open>u \<notin> set (tb_pinned b)\<close> by (simp add: c_def unpin_def)
    moreover have "length (tb_pinned c) < MAX_PINS"
      using length_without [OF _ v(2)] assms by (simp add: tab_inv_def c_def unpin_def)
    ultimately have "tab_inv (clamp_active (c\<lparr>tb_pinned := tb_pinned c @ [u], tb_activation := u # tb_activation c\<rparr>)) (u # log)"
      by (rule pin_inv)
    moreover have "tab_inv (clamp_active (unpin v b\<lparr>tb_pinned := tb_pinned c @ [u], tb_activation := u # tb_activation c\<rparr>)) l =
        tab_inv (clamp_active (c\<lparr>tb_pinned := tb_pinned c @ [u], tb_activation := u # tb_activation c\<rparr>)) l" for l
      by (simp add: tab_inv_def)
    ultimately show ?thesis
      using new v(1) by (simp add: toggle_pin_def is_pinned_def c_def Let_def)
  qed
qed

lemma tab_step_inv:
  assumes "tab_inv b log"
  shows "\<exists>b'. tab_step oper b = Some b' \<and> tab_inv b' (uses oper b b' @ log)"
proof -
  have cnt: "0 < tab_count b" "tb_active b < tab_count b" using assms by (simp_all add: tab_count_def tab_inv_def)
  have go: "\<exists>b'. record_activation (b\<lparr>tb_active := i\<rparr>) = Some b' \<and>
      tab_inv b' ((case active_tab b' of Some (PinnedTab u) \<Rightarrow> [u] | _ \<Rightarrow> []) @ log)" if "i < tab_count b" for i
    using record_activation_inv [OF assms that] by force
  show ?thesis
  proof (cases oper)
    case TabNext
    then show ?thesis using go [of "(tb_active b + 1) mod tab_count b"] cnt
      by (simp add: tab_step_def tab_next_def uses_def moves_def)
  next
    case TabPrev
    then show ?thesis using go [of "(tb_active b + tab_count b - 1) mod tab_count b"] cnt
      by (simp add: tab_step_def tab_prev_def uses_def moves_def)
  next
    case (TabJump n)
    then show ?thesis using go [of "n - 1"] assms
      by (cases "1 \<le> n \<and> n \<le> tab_count b") (auto simp: tab_step_def tab_jump_to_def uses_def moves_def)
  next
    case (TabToggle u)
    then show ?thesis using toggle_inv [OF assms, of u] by (simp add: tab_step_def uses_def)
  qed
qed

lemma tab_run_inv:
  "tab_inv b log \<Longrightarrow> \<exists>b' log'. tab_run opers (b, log) = Some (b', log') \<and> tab_inv b' log'"
proof (induction opers arbitrary: b log)
  case (Cons oper opers)
  from tab_step_inv [OF Cons.prems] obtain b' where "tab_step oper b = Some b'" "tab_inv b' (uses oper b b' @ log)"
    by blast
  with Cons.IH show ?case by simp
qed simp

lemma with_pins_inv: "tab_inv (with_pins pins) (rev (tb_pinned (with_pins pins)))"
proof -
  have "dedup_capped MAX_PINS [] pins = take MAX_PINS (firsts pins)"
    by (simp add: dedup_capped_eq MAX_PINS_def)
  then show ?thesis
    by (simp add: tab_inv_def with_pins_def tab_count_def firsts_distinct Let_def)
qed

text \<open>C36: the tab bar. From any persisted list of pins and after any operations, nothing panics, the
  pins are distinct and at most five, the active tab exists, and the activation list is the pinned
  entries in the order of their latest use in the log of all uses. So pinning a sixth entry evicts the
  pinned entry whose latest use is the oldest.\<close>

theorem tab_bar_lru:
  "\<exists>b log. tab_run opers (with_pins pins, rev (tb_pinned (with_pins pins))) = Some (b, log) \<and> tab_inv b log \<and>
     active_tab b \<noteq> None \<and>
     fst (toggle_pin u b) =
       (if is_pinned b u then Unpinned
        else if length (tb_pinned b) < MAX_PINS then PinAdded
        else PinnedEvicting (last (filter (\<lambda>v. v \<in> set (tb_pinned b)) (firsts log))))"
proof -
  obtain b log where run: "tab_run opers (with_pins pins, rev (tb_pinned (with_pins pins))) = Some (b, log)"
      and inv: "tab_inv b log"
    using tab_run_inv [OF with_pins_inv] by blast
  have "active_tab b \<noteq> None"
    using inv tab_resolve_Some [of "tb_active b" b] by (auto simp: active_tab_def tab_inv_def)
  moreover have "fst (toggle_pin u b) = (if is_pinned b u then Unpinned
        else if length (tb_pinned b) < MAX_PINS then PinAdded
        else PinnedEvicting (last (filter (\<lambda>v. v \<in> set (tb_pinned b)) (firsts log))))"
    using victim_pinned [OF inv] inv
    by (auto simp: toggle_pin_def is_pinned_def Let_def tab_inv_def eviction_victim_def)
  ultimately show ?thesis using run inv by blast
qed

text \<open>On the Secrets tab a pin changes no tab under the user.\<close>

lemma toggle_keeps_secrets: "tb_active b = 0 \<Longrightarrow> active_tab (snd (toggle_pin u b)) = Some SecretsTab"
  by (auto simp: toggle_pin_def active_tab_def tab_resolve_def clamp_active_def unpin_def Let_def split: option.split)


section \<open>Laying out the tab strip\<close>

text \<open>The display width of a string is the \<open>unicode-width\<close> crate's: a parameter \<open>w\<close>.\<close>

definition lit :: "string \<Rightarrow> codepoints" where
  "lit s = map of_char s"

definition SEP :: codepoints where "SEP = [0x20, 0x2502, 0x20]"

definition ELLIPSIS :: codepoints where "ELLIPSIS = [0x2026]"

definition PIN_LABEL_FLOOR :: nat where "PIN_LABEL_FLOOR = 8"

fun take_width :: "(codepoints \<Rightarrow> nat) \<Rightarrow> nat \<Rightarrow> nat \<Rightarrow> codepoints \<Rightarrow> codepoints" where
  "take_width w used budget [] = []"
| "take_width w used budget (c # s) =
     (if used + w [c] > budget then [] else c # take_width w (used + w [c]) budget s)"

definition take_width_prefix :: "(codepoints \<Rightarrow> nat) \<Rightarrow> codepoints \<Rightarrow> nat \<Rightarrow> codepoints" where
  "take_width_prefix w s budget = take_width w 0 budget s"

definition take_width_suffix :: "(codepoints \<Rightarrow> nat) \<Rightarrow> codepoints \<Rightarrow> nat \<Rightarrow> codepoints" where
  "take_width_suffix w s budget = rev (take_width w 0 budget (rev s))"

definition middle_ellipsis :: "(codepoints \<Rightarrow> nat) \<Rightarrow> codepoints \<Rightarrow> nat \<Rightarrow> codepoints" where
  "middle_ellipsis w s max_width =
     (if w s \<le> max_width then s
      else if max_width \<le> 1 then ELLIPSIS
      else let budget = max_width - 1;
               head_budget = (budget + 1) div 2;
               tail_budget = budget - head_budget in
        take_width_prefix w s head_budget @ ELLIPSIS @ take_width_suffix w s tail_budget)"

definition width_of :: "(codepoints \<Rightarrow> nat) \<Rightarrow> codepoints list \<Rightarrow> nat" where
  "width_of w labels = sum_list (map w labels) + (length labels - 1) * w SEP"

definition tab_labels :: "tab_bar \<Rightarrow> codepoints list \<Rightarrow> (codepoints \<Rightarrow> codepoints) \<Rightarrow> codepoints list" where
  "tab_labels b titles pin_label =
     (let out = lit ''Secrets'' #
          map (\<lambda>i. pin_label (if i < length titles then titles ! i else lit ''(pinned)'')) [0..<length (tb_pinned b)] @
          [lit ''Settings'']
      in map (\<lambda>(i, label).
           let l = lit (show_nat (i + 1)) @ lit '':'' @ label in
           if i = tb_active b then lit ''['' @ l @ lit '']'' else l) (enumerate 0 out))"

definition with_active :: "tab_bar \<Rightarrow> codepoints list \<Rightarrow> (codepoints \<times> bool) list" where
  "with_active b labels = map (\<lambda>(i, label). (label, i = tb_active b)) (enumerate 0 labels)"

definition layout_parts :: "(codepoints \<Rightarrow> nat) \<Rightarrow> tab_bar \<Rightarrow> codepoints list \<Rightarrow> nat \<Rightarrow> (codepoints \<times> bool) list \<times> codepoints" where
  "layout_parts w b titles avail =
     (let labels = tab_labels b titles id in
      if width_of w labels \<le> avail then (with_active b labels, SEP)
      else let shrunk = tab_labels b titles (\<lambda>t. middle_ellipsis w t PIN_LABEL_FLOOR) in
      if width_of w shrunk \<le> avail then (with_active b shrunk, SEP)
      else (with_active b (map (\<lambda>i. let n = lit (show_nat (i + 1)) in
              if i = tb_active b then lit ''['' @ n @ lit '']'' else n) [0..<tab_count b]), lit '' ''))"

text \<open>Rectangles of 16-bit terminal cells; additions saturate.\<close>

record rect =
  rx :: nat
  ry :: nat
  rwidth :: nat
  rheight :: nat

definition u16 :: "nat \<Rightarrow> nat" where
  "u16 n = min n 65535"

definition rright :: "rect \<Rightarrow> nat" where
  "rright r = u16 (rx r + rwidth r)"

fun regions :: "(codepoints \<Rightarrow> nat) \<Rightarrow> nat \<Rightarrow> rect \<Rightarrow> nat \<Rightarrow> nat \<Rightarrow> (codepoints \<times> bool) list \<Rightarrow> (rect \<times> nat) list" where
  "regions w separator_width area x index [] = []"
| "regions w separator_width area x index ((label, _) # labels) =
     (let x = (if index > 0 then u16 (x + separator_width) else x);
          width = u16 (w label) in
      (\<lparr>rx = x, ry = ry area, rwidth = min width (rright area - x), rheight = 1\<rparr>, index) #
      regions w separator_width area (u16 (x + width)) (index + 1) labels)"

definition hit_regions :: "(codepoints \<Rightarrow> nat) \<Rightarrow> tab_bar \<Rightarrow> codepoints list \<Rightarrow> rect \<Rightarrow> (rect \<times> nat) list" where
  "hit_regions w b titles area =
     (case layout_parts w b titles (rwidth area) of (labels, separator) \<Rightarrow>
        regions w (u16 (w separator)) area (rx area) 0 labels)"

section \<open>Every tab is addressable, no cell is two tabs\<close>

lemma layout_length: "length (fst (layout_parts w b titles avail)) = tab_count b"
  by (simp add: layout_parts_def with_active_def tab_labels_def tab_count_def Let_def)

lemma regions_spec:
  assumes "area_x \<le> x" "x \<le> 65535"
  shows "map snd (regions w sw area x i labels) = [i..<i + length labels] \<and>
    (\<forall>(r, _) \<in> set (regions w sw area x i labels). x \<le> rx r \<and> (rwidth r = 0 \<or> rx r + rwidth r \<le> rright area)) \<and>
    sorted_wrt (\<lambda>p q. rx (fst p) + rwidth (fst p) \<le> rx (fst q)) (regions w sw area x i labels)"
  using assms
proof (induction w sw area x i labels rule: regions.induct)
  case (2 w sw area x i label b labels)
  define x' where "x' = (if i > 0 then u16 (x + sw) else x)"
  define width where "width = u16 (w label)"
  have x': "x \<le> x'" "x' \<le> 65535" "area_x \<le> u16 (x' + width)" "u16 (x' + width) \<le> 65535"
    using "2.prems" by (auto simp: x'_def u16_def)
  define r0 where "r0 = \<lparr>rx = x', ry = ry area, rwidth = min width (rright area - x'), rheight = 1\<rparr>"
  define rest where "rest = regions w sw area (u16 (x' + width)) (i + 1) labels"
  have IH: "map snd rest = [i + 1..<i + 1 + length labels]"
      "\<forall>(r, _) \<in> set rest. u16 (x' + width) \<le> rx r \<and> (rwidth r = 0 \<or> rx r + rwidth r \<le> rright area)"
      "sorted_wrt (\<lambda>p q. rx (fst p) + rwidth (fst p) \<le> rx (fst q)) rest"
    using "2.IH" [of x' width, OF x'_def width_def x'(3,4)] by (simp_all add: rest_def)
  have r0: "rx r0 = x'" "rx r0 + rwidth r0 \<le> u16 (x' + width)" "rwidth r0 = 0 \<or> rx r0 + rwidth r0 \<le> rright area"
    using x' by (auto simp: r0_def u16_def rright_def min_def)
  have "x' \<le> u16 (x' + width)" using x' by (simp add: u16_def)
  then have "(case p of (r, _) \<Rightarrow> x \<le> rx r \<and> (rwidth r = 0 \<or> rx r + rwidth r \<le> rright area)) \<and>
      rx r0 + rwidth r0 \<le> rx (fst p)" if "p \<in> set rest" for p
    using bspec [OF IH(2) that] x'(1) r0(2) by (auto split: prod.splits)
  moreover have "regions w sw area x i ((label, b) # labels) = (r0, i) # rest"
    by (simp add: x'_def width_def r0_def rest_def Let_def)
  ultimately show ?case
    using IH(1,3) r0(1,3) x'(1) by (simp add: upt_conv_Cons del: upt_Suc)
qed simp

lemma hit_regions_spec:
  assumes "rx area \<le> 65535"
  shows "map snd (hit_regions w b titles area) = [0..<tab_count b] \<and>
    (\<forall>(r, _) \<in> set (hit_regions w b titles area). rx area \<le> rx r \<and> (rwidth r = 0 \<or> rx r + rwidth r \<le> rright area)) \<and>
    sorted_wrt (\<lambda>p q. rx (fst p) + rwidth (fst p) \<le> rx (fst q)) (hit_regions w b titles area)"
proof -
  obtain labels sep where l: "layout_parts w b titles (rwidth area) = (labels, sep)" by fastforce
  then have "length labels = tab_count b" using layout_length [of w b titles "rwidth area"] by simp
  then show ?thesis
    using regions_spec [of "rx area" "rx area" w "u16 (w sep)" area 0 labels] assms by (simp add: hit_regions_def l)
qed


text \<open>Where the width of a string is the sum of the widths of its characters, a shortened label fits.
  The \<open>unicode-width\<close> crate is no such sum on emoji presentation sequences: there the hypothesis fails.\<close>

lemma take_width_fits:
  assumes w: "\<And>s. w s = sum_list (map cw s)"
  shows "used \<le> budget \<Longrightarrow> used + w (take_width w used budget s) \<le> budget"
proof (induction s arbitrary: used)
  case (Cons c s)
  have "w [c] = cw c" "\<And>t. w (c # t) = cw c + w t" by (simp_all add: w)
  then show ?case using Cons.prems Cons.IH [of "used + cw c"] by (simp add: add.assoc)
qed (simp add: w)

lemma middle_ellipsis_fits:
  assumes w: "\<And>s. w s = sum_list (map cw s)" and one: "w ELLIPSIS = 1" "1 \<le> n"
  shows "w (middle_ellipsis w s n) \<le> n"
proof -
  define h t where "h = n div 2" and "t = n - Suc h"
  have "w (take_width w 0 k x) \<le> k" for k x
    using take_width_fits [OF w, of 0 k x] by simp
  then have "w (take_width w 0 h s) + w (take_width w 0 t (rev s)) \<le> h + t"
    by (intro add_mono)
  also have "h + t = n - 1" using one by (simp add: h_def t_def)
  also have "w (take_width w 0 t (rev s)) = w (rev (take_width w 0 t (rev s)))"
    by (simp only: w sum_list_rev flip: rev_map)
  moreover have "w (a @ b) = w a + w b" for a b by (simp add: w)
  ultimately have "w (take_width w 0 h s @ ELLIPSIS @ rev (take_width w 0 t (rev s))) \<le> n"
    using one by simp
  then show ?thesis
    using one by (simp add: middle_ellipsis_def take_width_prefix_def take_width_suffix_def Let_def flip: h_def t_def)
qed

end
