(* ===== verification/EntryTree.thy ===== *)
theory EntryTree
  imports Search Tabs
begin

text \<open>
  The group and entry tree of the Secrets tab (\<open>falach-tui/src/widgets/entry_tree.rs\<close>): the flattening of the
  visible part of the vault into rows, the sort orders, and the navigation over the rows. The recursion into
  groups is a partial function, \<open>None\<close> when it does not return. Case folding is the \<open>unicode\<close> parameter of the
  search.
\<close>

section \<open>State and rows\<close>

datatype sort_order = RecentlyUsed | ByTitle | LastModified | ByGroup

definition sort_label :: "sort_order \<Rightarrow> string" where
  "sort_label s = (case s of RecentlyUsed \<Rightarrow> ''Recently used'' | ByTitle \<Rightarrow> ''Title''
     | LastModified \<Rightarrow> ''Last modified'' | ByGroup \<Rightarrow> ''Group'')"

definition sort_next :: "sort_order \<Rightarrow> sort_order" where
  "sort_next s = (case s of RecentlyUsed \<Rightarrow> ByTitle | ByTitle \<Rightarrow> LastModified | LastModified \<Rightarrow> ByGroup
     | ByGroup \<Rightarrow> RecentlyUsed)"

datatype row_kind = GroupRow (rk_expanded: bool) (rk_has_children: bool) | EntryRow

record tree_row =
  tr_uuid :: uuid
  tr_depth :: nat
  tr_kind :: row_kind

definition is_group :: "tree_row \<Rightarrow> bool" where
  "is_group r = (case tr_kind r of GroupRow _ _ \<Rightarrow> True | EntryRow \<Rightarrow> False)"

record tree_state =
  ts_expanded :: "uuid set"
  ts_selected :: "uuid option"
  ts_sort :: sort_order

definition with_sort :: "sort_order \<Rightarrow> tree_state" where
  "with_sort s = \<lparr>ts_expanded = {}, ts_selected = None, ts_sort = s\<rparr>"

definition tree_state_new :: tree_state where
  "tree_state_new = with_sort RecentlyUsed"

definition cycle_sort :: "tree_state \<Rightarrow> tree_state" where
  "cycle_sort t = t\<lparr>ts_sort := sort_next (ts_sort t)\<rparr>"

section \<open>Flattening\<close>

definition title_key :: "unicode \<Rightarrow> 'x db \<Rightarrow> uuid \<Rightarrow> string" where
  "title_key U db u = (case get_entry u db of Inl _ \<Rightarrow> [] | Inr e \<Rightarrow> u_str_lower U (field_or_empty f_title e))"

text \<open>The comparators as keys: a used entry before an unused one; newest first, unknown times last.\<close>

definition recent_key :: "unicode \<Rightarrow> recents \<Rightarrow> 'x db \<Rightarrow> uuid \<Rightarrow> bool \<times> nat \<times> string \<times> uuid" where
  "recent_key U recents db u = (case recents_rank u recents of
     Some r \<Rightarrow> (False, r, [], 0) | None \<Rightarrow> (True, 0, title_key U db u, u))"

definition modified_key :: "'x db \<Rightarrow> uuid \<Rightarrow> bool \<times> int \<times> uuid" where
  "modified_key db u =
     (case (case get_entry u db of Inl _ \<Rightarrow> None | Inr e \<Rightarrow> tm_last_modification (eb_times (en_body e))) of
        Some t \<Rightarrow> (False, - t, u) | None \<Rightarrow> (True, 0, u))"

definition sort_entries :: "unicode \<Rightarrow> 'x db \<Rightarrow> sort_order \<Rightarrow> recents \<Rightarrow> uuid list \<Rightarrow> uuid list" where
  "sort_entries U db so recents entries = (case so of
     ByGroup \<Rightarrow> entries
   | ByTitle \<Rightarrow> sort_key (\<lambda>u. (title_key U db u, u)) entries
   | RecentlyUsed \<Rightarrow> sort_key (recent_key U recents db) entries
   | LastModified \<Rightarrow> sort_key (modified_key db) entries)"

definition child_groups :: "unicode \<Rightarrow> 'x db \<Rightarrow> uuid option \<Rightarrow> 'x group \<Rightarrow> uuid list" where
  "child_groups U db recycle gr = map snd (sort
     (List.map_filter (\<lambda>u. map_option (\<lambda>g. (u_str_lower U (gr_name g), u)) (group_at db u))
       (filter (\<lambda>u. recycle \<noteq> Some u) (child_group_uuids gr))))"

definition group_row :: "'x db \<Rightarrow> uuid set \<Rightarrow> nat \<Rightarrow> uuid \<Rightarrow> tree_row" where
  "group_row db expanded depth c = \<lparr>tr_uuid = c, tr_depth = depth, tr_kind = GroupRow (c \<in> expanded)
     (case group_at db c of None \<Rightarrow> False | Some g \<Rightarrow> \<not> (gr_groups g = [] \<and> gr_entries g = []))\<rparr>"

definition entry_row :: "nat \<Rightarrow> uuid \<Rightarrow> tree_row" where
  "entry_row depth e = \<lparr>tr_uuid = e, tr_depth = depth, tr_kind = EntryRow\<rparr>"

partial_function (option) walk ::
    "unicode \<Rightarrow> 'x db \<Rightarrow> uuid set \<Rightarrow> sort_order \<Rightarrow> recents \<Rightarrow> uuid option \<Rightarrow> nat \<Rightarrow> uuid \<Rightarrow> tree_row list option" where
  "walk U db expanded so recents recycle depth g = (case group_at db g of
     None \<Rightarrow> Some []
   | Some gr \<Rightarrow> Option.bind
       (option_all (\<lambda>c.
          if c \<in> expanded
          then Option.bind (walk U db expanded so recents recycle (depth + 1) c) (\<lambda>rows. Some (group_row db expanded depth c # rows))
          else Some [group_row db expanded depth c])
         (child_groups U db recycle gr))
       (\<lambda>rowss. Some (concat rowss @ map (entry_row depth) (sort_entries U db so recents (entry_uuids gr)))))"

definition build_rows :: "unicode \<Rightarrow> 'x db \<Rightarrow> tree_state \<Rightarrow> recents \<Rightarrow> tree_row list option" where
  "build_rows U db t recents = walk U db (ts_expanded t) (ts_sort t) recents (recycle_bin db) 0 (db_root db)"

section \<open>Navigation\<close>

definition selected_index :: "tree_state \<Rightarrow> tree_row list \<Rightarrow> nat option" where
  "selected_index t rows = Option.bind (ts_selected t) (\<lambda>u. index_of u (map tr_uuid rows))"

definition selected_is_entry :: "tree_state \<Rightarrow> tree_row list \<Rightarrow> bool" where
  "selected_is_entry t rows = (case selected_index t rows of None \<Rightarrow> False | Some i \<Rightarrow> \<not> is_group (rows ! i))"

definition select_first :: "tree_row list \<Rightarrow> tree_state \<Rightarrow> tree_state" where
  "select_first rows t = t\<lparr>ts_selected := (case rows of [] \<Rightarrow> None | r # _ \<Rightarrow> Some (tr_uuid r))\<rparr>"

definition select_node :: "uuid \<Rightarrow> tree_state \<Rightarrow> tree_state" where
  "select_node u t = t\<lparr>ts_selected := Some u\<rparr>"

definition expand_group :: "uuid \<Rightarrow> tree_state \<Rightarrow> tree_state" where
  "expand_group g t = t\<lparr>ts_expanded := insert g (ts_expanded t)\<rparr>"

definition set_selected :: "uuid \<Rightarrow> tree_state \<Rightarrow> bool \<times> tree_state" where
  "set_selected u t = (ts_selected t \<noteq> Some u, t\<lparr>ts_selected := Some u\<rparr>)"

definition clear_selection :: "tree_state \<Rightarrow> bool \<times> tree_state" where
  "clear_selection t = (ts_selected t \<noteq> None, t\<lparr>ts_selected := None\<rparr>)"

definition index_or_first :: "tree_state \<Rightarrow> tree_row list \<Rightarrow> nat" where
  "index_or_first t rows = (case selected_index t rows of Some i \<Rightarrow> i | None \<Rightarrow> 0)"

definition move_next :: "tree_row list \<Rightarrow> tree_state \<Rightarrow> bool \<times> tree_state" where
  "move_next rows t =
     (if rows = [] then clear_selection t
      else set_selected (tr_uuid (rows ! min (index_or_first t rows + 1) (length rows - 1))) t)"

definition move_prev :: "tree_row list \<Rightarrow> tree_state \<Rightarrow> bool \<times> tree_state" where
  "move_prev rows t =
     (if rows = [] then clear_selection t else set_selected (tr_uuid (rows ! (index_or_first t rows - 1))) t)"

definition collapse_or_parent :: "tree_row list \<Rightarrow> tree_state \<Rightarrow> bool \<times> tree_state" where
  "collapse_or_parent rows t = (case selected_index t rows of
     None \<Rightarrow> (False, t)
   | Some i \<Rightarrow>
       (case tr_kind (rows ! i) of
          GroupRow True _ \<Rightarrow> (False, t\<lparr>ts_expanded := ts_expanded t - {tr_uuid (rows ! i)}\<rparr>)
        | _ \<Rightarrow>
            if tr_depth (rows ! i) = 0 then (False, t)
            else (case find (\<lambda>r. tr_depth r < tr_depth (rows ! i)) (rev (take i rows)) of
                Some r \<Rightarrow> set_selected (tr_uuid r) t | None \<Rightarrow> (False, t))))"

definition expand_or_child :: "tree_row list \<Rightarrow> tree_state \<Rightarrow> bool \<times> tree_state" where
  "expand_or_child rows t = (case selected_index t rows of
     None \<Rightarrow> (False, t)
   | Some i \<Rightarrow>
       (case tr_kind (rows ! i) of
          GroupRow False True \<Rightarrow> (False, t\<lparr>ts_expanded := insert (tr_uuid (rows ! i)) (ts_expanded t)\<rparr>)
        | GroupRow True _ \<Rightarrow>
            if i + 1 < length rows \<and> tr_depth (rows ! (i + 1)) > tr_depth (rows ! i)
            then set_selected (tr_uuid (rows ! (i + 1))) t else (False, t)
        | _ \<Rightarrow> (False, t)))"

definition toggle_expand :: "tree_row list \<Rightarrow> tree_state \<Rightarrow> bool \<times> tree_state" where
  "toggle_expand rows t = (case selected_index t rows of
     None \<Rightarrow> (False, t)
   | Some i \<Rightarrow>
       if is_group (rows ! i)
       then (let u = tr_uuid (rows ! i) in
         (True, t\<lparr>ts_expanded := (if u \<in> ts_expanded t then ts_expanded t - {u} else insert u (ts_expanded t))\<rparr>))
       else (False, t))"


section \<open>What is visible\<close>

text \<open>Below an open group at a depth: its groups but the recycle bin, its entries, and what is visible below its
  expanded groups.\<close>

inductive shown :: "'x db \<Rightarrow> uuid set \<Rightarrow> uuid option \<Rightarrow> uuid \<Rightarrow> nat \<Rightarrow> tree_row \<Rightarrow> bool" for db ex bin where
  group: "group_at db g = Some gr \<Longrightarrow> c \<in> set (gr_groups gr) \<Longrightarrow> bin \<noteq> Some c \<Longrightarrow> shown db ex bin g d (group_row db ex d c)"
| entry: "group_at db g = Some gr \<Longrightarrow> e \<in> set (gr_entries gr) \<Longrightarrow> shown db ex bin g d (entry_row d e)"
| deeper: "group_at db g = Some gr \<Longrightarrow> c \<in> set (gr_groups gr) \<Longrightarrow> bin \<noteq> Some c \<Longrightarrow> c \<in> ex \<Longrightarrow>
    shown db ex bin c (Suc d) r \<Longrightarrow> shown db ex bin g d r"

inductive_simps shown_simps: "shown db ex bin g d r"

definition node_parent :: "'x db \<Rightarrow> tree_row \<Rightarrow> uuid option" where
  "node_parent db r = (if is_group r then Option.bind (group_at db (tr_uuid r)) gr_parent
     else map_option (\<lambda>e. eb_parent (en_body e)) (entry_at db (tr_uuid r)))"

text \<open>Rows are nested when the parent of each is the nearest earlier row that is shallower, or the group the
  flattening started from; \<open>before\<close> are the earlier rows, nearest first.\<close>

definition placed :: "'x db \<Rightarrow> nat \<Rightarrow> uuid \<Rightarrow> tree_row list \<Rightarrow> tree_row \<Rightarrow> bool" where
  "placed db d g before r = (d \<le> tr_depth r \<and>
     (if tr_depth r = d then node_parent db r = Some g
      else \<exists>p. find (\<lambda>x. tr_depth x < tr_depth r) before = Some p \<and> node_parent db r = Some (tr_uuid p)))"

fun nested :: "'x db \<Rightarrow> nat \<Rightarrow> uuid \<Rightarrow> tree_row list \<Rightarrow> tree_row list \<Rightarrow> bool" where
  "nested db d g before [] = True"
| "nested db d g before (r # rows) = (placed db d g before r \<and> nested db d g (r # before) rows)"

lemma find_append: "find P (xs @ ys) = (case find P xs of Some x \<Rightarrow> Some x | None \<Rightarrow> find P ys)"
  by (induction xs) auto

lemma placed_mono: "placed db d g a r \<Longrightarrow> placed db d g (a @ b) r"
  by (auto simp: placed_def find_append)

lemma nested_mono: "nested db d g a rows \<Longrightarrow> nested db d g (a @ b) rows"
  by (induction rows arbitrary: a) (auto simp: placed_mono simp flip: append_Cons)

lemma nested_append: "nested db d g a (xs @ ys) = (nested db d g a xs \<and> nested db d g (rev xs @ a) ys)"
  by (induction xs arbitrary: a) auto

lemma nested_concat: "(\<And>xs. xs \<in> set xss \<Longrightarrow> nested db d g [] xs) \<Longrightarrow> nested db d g [] (concat xss)"
proof (induction xss)
  case (Cons xs xss)
  then show ?case using nested_mono [of db d g "[]" "concat xss" "rev xs"] by (simp add: nested_append)
qed simp

lemma nested_under:
  assumes "nested db (Suc d) c a rows" "\<forall>x \<in> set a. d < tr_depth x" "tr_depth h = d" "tr_uuid h = c"
  shows "nested db d g (a @ [h]) rows"
  using assms(1,2)
proof (induction rows arbitrary: a)
  case (Cons r rows)
  have "placed db d g (a @ [h]) r"
  proof (cases "tr_depth r = Suc d")
    case True
    have "find (\<lambda>x. tr_depth x < tr_depth r) a = None"
      using Cons.prems(2) True by (auto simp: find_None_iff)
    then show ?thesis using Cons.prems(1) True assms(3,4) by (auto simp: placed_def find_append)
  next
    case False
    then show ?thesis using Cons.prems(1) by (auto simp: placed_def find_append)
  qed
  moreover have "d < tr_depth r" using Cons.prems(1) by (simp add: placed_def)
  ultimately show ?case using Cons.IH [of "r # a"] Cons.prems by simp
qed simp

lemma nested_at: "nested db d g a rows \<Longrightarrow> i < length rows \<Longrightarrow> placed db d g (rev (take i rows) @ a) (rows ! i)"
proof (induction rows arbitrary: a i)
  case (Cons r rows)
  then show ?case by (cases i) auto
qed simp

section \<open>Every operation of the flattening\<close>

lemma db_group: "db_ok db \<Longrightarrow> group_at db g = Some gr \<Longrightarrow> group_ok (db_root db) (group_at db) (entry_at db) g gr"
  unfolding db_ok_def using tree_okD(2) by blast

lemma db_child:
  "db_ok db \<Longrightarrow> group_at db g = Some gr \<Longrightarrow> c \<in> set (gr_groups gr) \<Longrightarrow> \<exists>cg. group_at db c = Some cg \<and> gr_parent cg = Some g"
  using db_group unfolding group_ok_def by blast

lemma db_entry:
  "db_ok db \<Longrightarrow> group_at db g = Some gr \<Longrightarrow> e \<in> set (gr_entries gr) \<Longrightarrow> \<exists>en. entry_at db e = Some en \<and> eb_parent (en_body en) = g"
  using db_group unfolding group_ok_def by blast

lemma child_groups_mset:
  assumes "db_ok db" "group_at db g = Some gr"
  shows "mset (child_groups U db recycle gr) = mset (filter (\<lambda>u. recycle \<noteq> Some u) (gr_groups gr))"
proof -
  let ?f = "\<lambda>u. map_option (\<lambda>g. (u_str_lower U (gr_name g), u)) (group_at db u)"
  have "map snd (List.map_filter ?f us) = us" if "set us \<subseteq> set (gr_groups gr)" for us
    using that db_child [OF assms] by (induction us) (force simp: map_filter_simps)+
  then have "map snd (List.map_filter ?f (filter (\<lambda>u. recycle \<noteq> Some u) (child_group_uuids gr))) =
      filter (\<lambda>u. recycle \<noteq> Some u) (child_group_uuids gr)"
    by (auto simp: child_group_uuids_def)
  then show ?thesis
    unfolding child_groups_def mset_map mset_sort by (simp add: child_group_uuids_def flip: mset_map)
qed

lemma set_child_groups:
  assumes "db_ok db" "group_at db g = Some gr"
  shows "set (child_groups U db recycle gr) = {c \<in> set (gr_groups gr). recycle \<noteq> Some c}"
  using mset_eq_setD [OF child_groups_mset [OF assms, of U recycle]] by auto

lemma distinct_child_groups:
  assumes "db_ok db" "group_at db g = Some gr"
  shows "distinct (child_groups U db recycle gr)"
  using mset_eq_imp_distinct_iff [OF child_groups_mset [OF assms, of U recycle]] db_group [OF assms]
  by (simp add: group_ok_def)

lemma sort_entries_perm [simp]:
  "set (sort_entries U db so rec es) = set es" "distinct (sort_entries U db so rec es) = distinct es"
  by (simp_all add: sort_entries_def split: sort_order.split)


section \<open>No row twice\<close>

lemma above_linear: "above G a k \<Longrightarrow> above G b k \<Longrightarrow> above G a b \<or> above G b a"
proof (induction arbitrary: b rule: above.induct)
  case (up k gr p)
  from up.prems up.hyps show ?case
    by (cases rule: above.cases) (auto dest: up.IH intro: above.up)
qed simp

lemma siblings_disjoint:
  assumes ok: "db_ok db" and gr: "group_at db g = Some gr" and c: "c \<in> set (gr_groups gr)" "c' \<in> set (gr_groups gr)" "c \<noteq> c'"
  shows "below db c \<inter> below db c' = {}"
proof -
  have no: "\<not> above (group_at db) x y" if x: "x \<in> set (gr_groups gr)" "y \<in> set (gr_groups gr)" "x \<noteq> y" for x y
  proof
    assume "above (group_at db) x y"
    then have "above (group_at db) x g"
      using db_child [OF ok gr x(2)] x(3) by (cases rule: above.cases) auto
    then have "g \<in> below db x" "x \<in> below db g"
      using gr below_step(1) [OF ok gr] x(1) db_child [OF ok gr x(1)] by (auto simp: below_def intro: above.here)
    then have "below db g \<subseteq> below db x" by (auto simp: below_def intro: above_trans)
    with below_step(2) [OF ok gr x(1)] show False by blast
  qed
  show ?thesis using above_linear no [OF c] no [OF c(2,1)] c(3) by (fastforce simp: below_def)
qed

lemma row_fields [simp]:
  "tr_uuid (group_row db ex d c) = c" "tr_depth (group_row db ex d c) = d" "is_group (group_row db ex d c)"
  "tr_uuid (entry_row d c) = c" "tr_depth (entry_row d c) = d" "\<not> is_group (entry_row d c)"
  by (simp_all add: group_row_def entry_row_def is_group_def)

text \<open>The group a row hangs on: itself, or its parent for an entry.\<close>

definition home :: "'x db \<Rightarrow> tree_row \<Rightarrow> uuid option" where
  "home db r = (if is_group r then Some (tr_uuid r) else node_parent db r)"

lemma shown_below:
  assumes "db_ok db" "shown db ex bin g d r"
  shows "\<exists>h. home db r = Some h \<and> h \<in> below db g \<and> (is_group r \<longrightarrow> h \<noteq> g)"
  using assms(2)
proof induction
  case (group g gr c d)
  then have "c \<in> below db c" using db_child [OF assms(1) group(1,2)] by (auto simp: below_def intro: above.here)
  moreover have "below db c \<subset> below db g" by (rule below_step(2) [OF assms(1) group(1,2)])
  moreover have "c \<noteq> g" using calculation by auto
  ultimately show ?case by (auto simp: home_def)
next
  case (entry g gr e d)
  then show ?case using db_entry [OF assms(1) entry(1,2)]
    by (auto simp: home_def node_parent_def below_def intro: above.here)
next
  case (deeper g gr c d r)
  then obtain h where "home db r = Some h" "h \<in> below db c" by blast
  moreover have "h \<noteq> g"
  proof
    assume "h = g"
    with \<open>h \<in> below db c\<close> have "below db g \<subseteq> below db c" by (auto simp: below_def intro: above_trans)
    with below_step(2) [OF assms(1) deeper(1,2)] show False by blast
  qed
  ultimately show ?case using below_step(2) [OF assms(1) deeper(1,2)] by blast
qed

lemma distinct_concat_map:
  "distinct cs \<Longrightarrow> (\<And>c. c \<in> set cs \<Longrightarrow> distinct (f c)) \<Longrightarrow>
   (\<And>c c'. c \<in> set cs \<Longrightarrow> c' \<in> set cs \<Longrightarrow> c \<noteq> c' \<Longrightarrow> set (f c) \<inter> set (f c') = {}) \<Longrightarrow> distinct (concat (map f cs))"
proof (induction cs)
  case (Cons c cs)
  then have "set (f c) \<inter> set (f c') = {}" if "c' \<in> set cs" for c' using that by auto
  with Cons show ?case by auto
qed simp


text \<open>One open group: what its recursion gives, given what the expanded children give.\<close>

definition flat :: "'x db \<Rightarrow> uuid set \<Rightarrow> uuid option \<Rightarrow> nat \<Rightarrow> uuid \<Rightarrow> tree_row list \<Rightarrow> bool" where
  "flat db ex bin d g rows = (distinct rows \<and> set rows = {r. shown db ex bin g d r} \<and> nested db d g [] rows)"

definition child_rows :: "'x db \<Rightarrow> uuid set \<Rightarrow> (uuid \<Rightarrow> tree_row list) \<Rightarrow> nat \<Rightarrow> uuid \<Rightarrow> tree_row list" where
  "child_rows db ex sub d c = group_row db ex d c # (if c \<in> ex then sub c else [])"

lemma nested_entries:
  assumes "\<forall>e \<in> set es. \<exists>en. entry_at db e = Some en \<and> eb_parent (en_body en) = g"
  shows "nested db d g a (map (entry_row d) es)"
  using assms by (induction es arbitrary: a) (auto simp: placed_def node_parent_def)

lemma nested_child_rows:
  assumes "db_ok db" "group_at db g = Some gr" "c \<in> set (gr_groups gr)" "c \<in> ex \<Longrightarrow> nested db (Suc d) c [] (sub c)"
  shows "nested db d g [] (child_rows db ex sub d c)"
proof -
  have "placed db d g [] (group_row db ex d c)"
    using db_child [OF assms(1-3)] by (auto simp: placed_def node_parent_def)
  moreover have "nested db d g [group_row db ex d c] (sub c)" if "c \<in> ex"
    using nested_under [OF assms(4) [OF that], of "group_row db ex d c" g] by simp
  ultimately show ?thesis by (simp add: child_rows_def)
qed

lemma home_child_rows:
  assumes "db_ok db" "group_at db g = Some gr" "c \<in> set (gr_groups gr)" "flat db ex bin (Suc d) c (sub c)"
    and "r \<in> set (child_rows db ex sub d c)"
  shows "\<exists>h. home db r = Some h \<and> h \<in> below db c"
proof (cases "r = group_row db ex d c")
  case True
  then show ?thesis using db_child [OF assms(1-3)] by (auto simp: home_def below_def intro: above.here)
next
  case False
  with assms(4,5) have "shown db ex bin c (Suc d) r" by (auto simp: child_rows_def flat_def split: if_splits)
  then show ?thesis using shown_below [OF assms(1)] by blast
qed

lemma distinct_rows:
  assumes ok: "db_ok db" and gr: "group_at db g = Some gr"
    and sub: "\<And>c. c \<in> set (gr_groups gr) \<Longrightarrow> flat db ex bin (Suc d) c (sub c)"
    and cs: "distinct cs" "set cs = {c \<in> set (gr_groups gr). bin \<noteq> Some c}" and es: "distinct es" "set es = set (gr_entries gr)"
  shows "distinct (concat (map (child_rows db ex sub d) cs) @ map (entry_row d) es)"
proof -
  have home: "\<exists>h. home db r = Some h \<and> h \<in> below db c"
    if "c \<in> set (gr_groups gr)" "r \<in> set (child_rows db ex sub d c)" for c r
    using home_child_rows [OF ok gr that(1) sub [OF that(1)] that(2)] .
  have "distinct (child_rows db ex sub d c)" if c: "c \<in> set (gr_groups gr)" for c
    using sub [OF c] shown_below [OF ok, of ex bin c "Suc d" "group_row db ex d c"]
    by (auto simp: child_rows_def flat_def home_def)
  moreover have "set (child_rows db ex sub d c) \<inter> set (child_rows db ex sub d c') = {}"
    if "c \<in> set (gr_groups gr)" "c' \<in> set (gr_groups gr)" "c \<noteq> c'" for c c'
    using siblings_disjoint [OF ok gr that] home [OF that(1)] home [OF that(2)] that(1,2) by fastforce
  ultimately have "distinct (concat (map (child_rows db ex sub d) cs))"
    using cs by (intro distinct_concat_map) auto
  moreover have "distinct (map (entry_row d) es)"
    using es(1) by (auto simp: distinct_map inj_on_def entry_row_def)
  moreover have "entry_row d e \<notin> set (child_rows db ex sub d c)" if "e \<in> set es" "c \<in> set (gr_groups gr)" for e c
  proof
    assume "entry_row d e \<in> set (child_rows db ex sub d c)"
    then have "g \<in> below db c"
      using home [OF that(2)] db_entry [OF ok gr, of e] that(1) es(2) by (fastforce simp: home_def node_parent_def)
    then have "below db g \<subseteq> below db c" by (auto simp: below_def intro: above_trans)
    with below_step(2) [OF ok gr that(2)] show False by blast
  qed
  ultimately show ?thesis using cs(2) by auto
qed

lemma flat_step:
  assumes ok: "db_ok db" and gr: "group_at db g = Some gr"
    and sub: "\<And>c. c \<in> set (gr_groups gr) \<Longrightarrow> flat db ex bin (Suc d) c (sub c)"
    and cs: "distinct cs" "set cs = {c \<in> set (gr_groups gr). bin \<noteq> Some c}" and es: "distinct es" "set es = set (gr_entries gr)"
  shows "flat db ex bin d g (concat (map (child_rows db ex sub d) cs) @ map (entry_row d) es)"
proof -
  have "nested db d g [] (concat (map (child_rows db ex sub d) cs))"
    using nested_child_rows [OF ok gr] sub cs by (intro nested_concat) (auto simp: flat_def)
  moreover have "nested db d g a (map (entry_row d) es)" for a
    using nested_entries es db_entry [OF ok gr] by metis
  moreover have "r \<in> set (child_rows db ex sub d c) \<longleftrightarrow> r = group_row db ex d c \<or> c \<in> ex \<and> shown db ex bin c (Suc d) r"
    if "c \<in> set (gr_groups gr)" for r c
    using sub [OF that] by (auto simp: child_rows_def flat_def)
  then have "set (concat (map (child_rows db ex sub d) cs) @ map (entry_row d) es) = {r. shown db ex bin g d r}"
    using gr cs es by (auto simp: shown_simps [of db ex bin g d])
  moreover have "distinct (concat (map (child_rows db ex sub d) cs) @ map (entry_row d) es)"
    by (rule distinct_rows [OF ok gr sub cs es])
  ultimately show ?thesis by (simp add: flat_def nested_append)
qed

lemma option_all_map_Some: "(\<And>x. x \<in> set xs \<Longrightarrow> f x = Some (h x)) \<Longrightarrow> option_all f xs = Some (map h xs)"
  by (induction xs) auto

lemma walk_flat:
  assumes ok: "db_ok db"
  shows "group_at db g \<noteq> None \<Longrightarrow> \<exists>rows. walk U db ex so rec bin d g = Some rows \<and> flat db ex bin d g rows"
proof (induction "card (below db g)" arbitrary: g d rule: less_induct)
  case less
  then obtain gr where gr: "group_at db g = Some gr" by auto
  have fin: "finite (below db g)"
    by (rule finite_subset [OF _ finite_dom_map_of [of "db_groups db"]]) (auto simp: below_def)
  have "\<exists>rows. walk U db ex so rec bin (Suc d) c = Some rows \<and> flat db ex bin (Suc d) c rows" if c: "c \<in> set (gr_groups gr)" for c
    using less.hyps [OF psubset_card_mono [OF fin below_step(2) [OF ok gr c]], of "Suc d"] db_child [OF ok gr c] by auto
  then obtain sub where sub: "\<And>c. c \<in> set (gr_groups gr) \<Longrightarrow> walk U db ex so rec bin (Suc d) c = Some (sub c)"
      "\<And>c. c \<in> set (gr_groups gr) \<Longrightarrow> flat db ex bin (Suc d) c (sub c)"
    by metis
  have "walk U db ex so rec bin d g = Some (concat (map (child_rows db ex sub d) (child_groups U db bin gr)) @
      map (entry_row d) (sort_entries U db so rec (entry_uuids gr)))"
    by (subst walk.simps)
      (simp add: gr, subst option_all_map_Some [where h = "child_rows db ex sub d"],
        auto simp: sub(1) child_rows_def set_child_groups [OF ok gr])
  moreover have "flat db ex bin d g (concat (map (child_rows db ex sub d) (child_groups U db bin gr)) @
      map (entry_row d) (sort_entries U db so rec (entry_uuids gr)))"
    using db_group [OF ok gr] distinct_child_groups [OF ok gr]
    by (intro flat_step [OF ok gr sub(2)]) (simp_all add: set_child_groups [OF ok gr] entry_uuids_def group_ok_def)
  ultimately show ?case by blast
qed


section \<open>The rows are the visible nodes\<close>

lemma root_present: "db_ok db \<Longrightarrow> group_at db (db_root db) \<noteq> None"
  by (auto simp: db_ok_def tree_ok_def)

lemma build_rows_flat:
  assumes "db_ok db"
  shows "\<exists>rows. build_rows U db t recents = Some rows \<and> flat db (ts_expanded t) (recycle_bin db) 0 (db_root db) rows"
  unfolding build_rows_def by (rule walk_flat [OF assms root_present [OF assms]])

lemma selected_index_Some:
  "selected_index t rows = Some i \<Longrightarrow> i < length rows \<and> ts_selected t = Some (tr_uuid (rows ! i))"
  by (auto simp: selected_index_def index_of_iff bind_eq_Some_conv)

text \<open>Left on anything but an expanded group selects the parent group, whatever is sorted in between.\<close>

lemma collapse_selects_parent:
  assumes "db_ok db" "build_rows U db t0 recents = Some rows" "selected_index t rows = Some i"
    and "\<not> (is_group (rows ! i) \<and> rk_expanded (tr_kind (rows ! i)))" "0 < tr_depth (rows ! i)"
  shows "\<exists>p. node_parent db (rows ! i) = Some p \<and> collapse_or_parent rows t = set_selected p t"
proof -
  have "nested db 0 (db_root db) [] rows" using build_rows_flat [OF assms(1), of U t0 recents] assms(2) by (auto simp: flat_def)
  then have "placed db 0 (db_root db) (rev (take i rows)) (rows ! i)"
    using nested_at [of db 0 "db_root db" "[]" rows i] selected_index_Some [OF assms(3)] by simp
  then obtain p where "find (\<lambda>x. tr_depth x < tr_depth (rows ! i)) (rev (take i rows)) = Some p"
      "node_parent db (rows ! i) = Some (tr_uuid p)"
    using assms(5) by (auto simp: placed_def)
  then show ?thesis
    using assms(3-5) by (auto simp: collapse_or_parent_def is_group_def split: row_kind.splits bool.split)
qed

text \<open>Moving keeps the selection on a row that is there.\<close>

lemma move_visible:
  assumes "rows \<noteq> []"
  shows "\<exists>i < length rows. ts_selected (snd (move_next rows t)) = Some (tr_uuid (rows ! i))"
    and "\<exists>i < length rows. ts_selected (snd (move_prev rows t)) = Some (tr_uuid (rows ! i))"
proof -
  have "index_or_first t rows < length rows"
    using assms selected_index_Some by (fastforce simp: index_or_first_def split: option.split)
  with assms have "min (index_or_first t rows + 1) (length rows - 1) < length rows" "index_or_first t rows - 1 < length rows"
    by (auto simp: min_def)
  with assms show "\<exists>i < length rows. ts_selected (snd (move_next rows t)) = Some (tr_uuid (rows ! i))"
    "\<exists>i < length rows. ts_selected (snd (move_prev rows t)) = Some (tr_uuid (rows ! i))"
    unfolding move_next_def move_prev_def set_selected_def by auto
qed

text \<open>C37: the tree of the Secrets tab. On a well-formed vault the flattening returns, and its rows are the
  visible nodes, each once: every group but the recycle bin and every entry whose groups up to the root are
  expanded, at its depth. The parent of a row below the top is the nearest earlier row that is shallower, so
  Left on anything but an expanded group selects the parent group.\<close>

theorem tree_rows_exact:
  assumes "db_ok db"
  shows "\<exists>rows. build_rows U db t recents = Some rows \<and> distinct rows \<and>
    set rows = {r. shown db (ts_expanded t) (recycle_bin db) (db_root db) 0 r} \<and>
    (\<forall>i t'. selected_index t' rows = Some i \<and> 0 < tr_depth (rows ! i) \<and>
        \<not> (is_group (rows ! i) \<and> rk_expanded (tr_kind (rows ! i))) \<longrightarrow>
      (\<exists>p. node_parent db (rows ! i) = Some p \<and> collapse_or_parent rows t' = set_selected p t'))"
proof -
  obtain rows where rows: "build_rows U db t recents = Some rows"
      "flat db (ts_expanded t) (recycle_bin db) 0 (db_root db) rows"
    using build_rows_flat [OF assms] by blast
  then show ?thesis using collapse_selects_parent [OF assms rows(1)] by (auto simp: flat_def)
qed


text \<open>A vault with an entry in a group below the root.\<close>

definition nested_vault :: "unit db" where
  "nested_vault = \<lparr>db_meta = db_meta (new_db 1 0 ()), db_root = 1, db_attachments = [],
     db_entries = [(7, map_body (\<lambda>b. b\<lparr>eb_parent := 2\<rparr>) mail_entry)],
     db_groups = [(1, (new_group 1 1 0 ())\<lparr>gr_parent := None, gr_groups := [2]\<rparr>),
       (2, (new_group 2 1 0 ())\<lparr>gr_entries := [7]\<rparr>)], db_deleted = []\<rparr>"

lemma nested_vault_ok: "db_ok nested_vault"
proof -
  let ?G = "group_at nested_vault" and ?E = "entry_at nested_vault"
  have "rooted 1 ?G 1" by (rule rooted.root)
  moreover from this have "rooted 1 ?G 2"
    by (rule rooted.child [of ?G 2 "(new_group 2 1 0 ())\<lparr>gr_entries := [7]\<rparr>" 1, rotated 2])
      (simp_all add: nested_vault_def new_group_def)
  ultimately have "tree_ok 1 ?G ?E"
    by (auto simp: tree_ok_def group_ok_def entry_ok_def nested_vault_def mail_entry_def new_group_def map_body_def split: if_splits)
  then show ?thesis by (simp add: db_ok_def nested_vault_def hwf_def)
qed

lemma tree_rows_exact_witness:
  "\<exists>rows i. build_rows ascii nested_vault \<lparr>ts_expanded = {2}, ts_selected = None, ts_sort = ByTitle\<rparr> [] = Some rows \<and>
     rows ! i = entry_row 1 7 \<and>
     collapse_or_parent rows \<lparr>ts_expanded = {2}, ts_selected = Some 7, ts_sort = ByTitle\<rparr> =
       (True, \<lparr>ts_expanded = {2}, ts_selected = Some 2, ts_sort = ByTitle\<rparr>)"
proof -
  let ?t = "\<lparr>ts_expanded = {2}, ts_selected = None, ts_sort = ByTitle\<rparr>" and ?t' = "\<lparr>ts_expanded = {2}, ts_selected = Some 7, ts_sort = ByTitle\<rparr>"
  obtain rows where rows: "build_rows ascii nested_vault ?t [] = Some rows"
      "set rows = {r. shown nested_vault {2} (recycle_bin nested_vault) 1 0 r}"
      "\<And>i. selected_index ?t' rows = Some i \<Longrightarrow> 0 < tr_depth (rows ! i) \<Longrightarrow> \<not> is_group (rows ! i) \<Longrightarrow>
        \<exists>p. node_parent nested_vault (rows ! i) = Some p \<and> collapse_or_parent rows ?t' = set_selected p ?t'"
    using tree_rows_exact [OF nested_vault_ok, of ascii ?t "[]"] by (auto simp: nested_vault_def)
  have look: "group_at nested_vault 1 = Some ((new_group 1 1 0 ())\<lparr>gr_parent := None, gr_groups := [2]\<rparr>)"
      "group_at nested_vault 2 = Some ((new_group 2 1 0 ())\<lparr>gr_entries := [7]\<rparr>)" "recycle_bin nested_vault = None"
    by (simp_all add: nested_vault_def recycle_bin_def new_db_def)
  have two: "shown nested_vault {2} None 2 d r \<longleftrightarrow> r = entry_row d 7" for d r
    by (subst shown_simps) (auto simp: look(2) new_group_def)
  have "shown nested_vault {2} None 1 0 r \<longleftrightarrow> r = group_row nested_vault {2} 0 2 \<or> r = entry_row 1 7" for r
    by (subst shown_simps) (simp add: look(1) two new_group_def del: One_nat_def, auto)
  then have mem: "r \<in> set rows \<longleftrightarrow> r = group_row nested_vault {2} 0 2 \<or> r = entry_row 1 7" for r
    by (simp add: rows(2) look(3))
  then have "7 \<in> set (map tr_uuid rows)" by (simp add: image_iff) (metis row_fields(4))
  then obtain i where i: "index_of 7 (map tr_uuid rows) = Some i"
    using index_of_None [of 7 "map tr_uuid rows"] by (cases "index_of 7 (map tr_uuid rows)") auto
  then have "i < length rows" "tr_uuid (rows ! i) = 7" by (auto simp: index_of_iff)
  then have "rows ! i = entry_row 1 7" using mem [of "rows ! i"] by auto
  with i rows(3) [of i] have "collapse_or_parent rows ?t' = set_selected 2 ?t'"
    by (auto simp: selected_index_def node_parent_def nested_vault_def mail_entry_def map_body_def)
  with rows(1) \<open>rows ! i = entry_row 1 7\<close> show ?thesis by (auto simp: set_selected_def)
qed

end
