(* ===== verification/LineInput.thy ===== *)
theory LineInput
  imports Keymap
begin

text \<open>
  The single-line input of the vendored \<open>tui-input\<close> crate, with the conversion of key events into requests: the
  text fields of the search, edit, tag, palette and sync forms. On ASCII text a code point is one byte and one
  grapheme, except CR LF, which is one grapheme. The word segmentation of Unicode is a parameter: the start
  of every segment with its text, as \<open>split_word_bound_indices\<close> gives them. Events with the Meta modifier are not
  represented.
\<close>

section \<open>State and requests\<close>

type_synonym word_bounds = "string \<Rightarrow> (nat \<times> string) list"

record line_input =
  li_value :: string
  li_cursor :: nat
  li_yank :: string
  li_cut :: bool

datatype input_request =
    SetCursor nat | InsertChar char | GoToPrevChar | GoToNextChar | GoToPrevWord | GoToNextWord | GoToStart | GoToEnd
  | DeletePrevChar | DeleteNextChar | DeletePrevWord | DeleteNextWord | DeleteLine | DeleteTillEnd | Yank

record state_changed =
  sc_value :: bool
  sc_cursor :: bool

definition li_new :: "string \<Rightarrow> line_input" where
  "li_new v = \<lparr>li_value = v, li_cursor = length v, li_yank = [], li_cut = False\<rparr>"

definition li_default :: line_input where
  "li_default = \<lparr>li_value = [], li_cursor = 0, li_yank = [], li_cut = False\<rparr>"

section \<open>Graphemes and words\<close>

definition prev_grapheme :: "string \<Rightarrow> nat \<Rightarrow> nat option" where
  "prev_grapheme s p =
     (if p = 0 then None
      else if 2 \<le> p \<and> p \<le> length s \<and> s ! (p - 1) = CHR 0x0A \<and> s ! (p - 2) = CHR 0x0D then Some (p - 2)
      else Some (p - 1))"

definition next_grapheme :: "string \<Rightarrow> nat \<Rightarrow> nat option" where
  "next_grapheme s p =
     (if length s \<le> p then None
      else if p + 1 < length s \<and> s ! p = CHR 0x0D \<and> s ! (p + 1) = CHR 0x0A then Some (p + 2)
      else Some (p + 1))"

definition is_ascii_punctuation :: "char \<Rightarrow> bool" where
  "is_ascii_punctuation c = (let n = of_char c :: nat in
     (0x21 \<le> n \<and> n \<le> 0x2F) \<or> (0x3A \<le> n \<and> n \<le> 0x40) \<or> (0x5B \<le> n \<and> n \<le> 0x60) \<or> (0x7B \<le> n \<and> n \<le> 0x7E))"

definition is_word :: "string \<Rightarrow> bool" where
  "is_word s = list_ex (\<lambda>c. \<not> is_space c \<and> \<not> is_ascii_punctuation c) s"

definition prev_word_byte :: "word_bounds \<Rightarrow> string \<Rightarrow> nat \<Rightarrow> nat" where
  "prev_word_byte W s p =
     (case find (\<lambda>(_, w). is_word w) (rev (filter (\<lambda>(i, _). i < p) (W s))) of Some (i, _) \<Rightarrow> i | None \<Rightarrow> 0)"

definition next_word_byte :: "word_bounds \<Rightarrow> string \<Rightarrow> nat \<Rightarrow> nat" where
  "next_word_byte W s p =
     (case find (\<lambda>(_, w). is_word w) (filter (\<lambda>(i, _). p < i) (W s)) of Some (i, _) \<Rightarrow> i | None \<Rightarrow> length s)"

section \<open>Handling a request\<close>

datatype yank_side = YankLeft | YankRight

definition add_to_yank :: "string \<Rightarrow> yank_side \<Rightarrow> line_input \<Rightarrow> line_input" where
  "add_to_yank deleted side i =
     (if li_cut i then i\<lparr>li_yank := (case side of YankLeft \<Rightarrow> deleted @ li_yank i | YankRight \<Rightarrow> li_yank i @ deleted)\<rparr>
      else i\<lparr>li_yank := deleted\<rparr>)"

definition set_last_was_cut :: "input_request \<Rightarrow> line_input \<Rightarrow> line_input" where
  "set_last_was_cut r i = i\<lparr>li_cut := (r \<in> {DeleteLine, DeletePrevWord, DeleteNextWord, DeleteTillEnd})\<rparr>"

definition changed :: "bool \<Rightarrow> bool \<Rightarrow> state_changed option" where
  "changed v c = Some \<lparr>sc_value = v, sc_cursor = c\<rparr>"

definition cut_range :: "nat \<Rightarrow> nat \<Rightarrow> string \<Rightarrow> string" where
  "cut_range a b s = take a s @ drop b s"

definition range_of :: "nat \<Rightarrow> nat \<Rightarrow> string \<Rightarrow> string" where
  "range_of a b s = take (b - a) (drop a s)"

definition insert_at :: "nat \<Rightarrow> string \<Rightarrow> string \<Rightarrow> string" where
  "insert_at p t s = take p s @ t @ drop p s"

text \<open>A request that moves by a grapheme and finds none returns at once (\<open>?\<close>), without touching the cut flag.\<close>

definition handle_request :: "word_bounds \<Rightarrow> input_request \<Rightarrow> line_input \<Rightarrow> state_changed option \<times> line_input" where
  "handle_request W r i = (let s = li_value i; p = li_cursor i; fin = apsnd (set_last_was_cut r) in case r of
     SetCursor q \<Rightarrow> fin (if p = min q (length s) then (None, i) else (changed False True, i\<lparr>li_cursor := min q (length s)\<rparr>))
   | InsertChar c \<Rightarrow> fin (changed True True, i\<lparr>li_value := insert_at p [c] s, li_cursor := p + 1\<rparr>)
   | DeletePrevChar \<Rightarrow> (case prev_grapheme s p of None \<Rightarrow> (None, i)
       | Some q \<Rightarrow> fin (changed True True, i\<lparr>li_value := cut_range q p s, li_cursor := p - (p - q)\<rparr>))
   | DeleteNextChar \<Rightarrow> (case next_grapheme s p of None \<Rightarrow> (None, i)
       | Some q \<Rightarrow> fin (changed True False, i\<lparr>li_value := cut_range p q s\<rparr>))
   | GoToPrevChar \<Rightarrow> (case prev_grapheme s p of None \<Rightarrow> (None, i)
       | Some q \<Rightarrow> fin (changed False True, i\<lparr>li_cursor := p - (p - q)\<rparr>))
   | GoToPrevWord \<Rightarrow> fin (if p = 0 then (None, i) else (changed False True, i\<lparr>li_cursor := prev_word_byte W s p\<rparr>))
   | GoToNextChar \<Rightarrow> (case next_grapheme s p of None \<Rightarrow> (None, i)
       | Some q \<Rightarrow> fin (changed False True, i\<lparr>li_cursor := p + (q - p)\<rparr>))
   | GoToNextWord \<Rightarrow> fin (if p = length s then (None, i) else (changed False True, i\<lparr>li_cursor := next_word_byte W s p\<rparr>))
   | DeleteLine \<Rightarrow> fin (if s = [] then (None, i)
       else (changed True True, (add_to_yank s (if p = length s then YankLeft else YankRight) i)\<lparr>li_value := [], li_cursor := 0\<rparr>))
   | DeletePrevWord \<Rightarrow> fin (if p = 0 then (None, i)
       else (let q = prev_word_byte W s p in
         (changed True True, (add_to_yank (range_of q p s) YankLeft i)\<lparr>li_value := cut_range q p s, li_cursor := q\<rparr>)))
   | DeleteNextWord \<Rightarrow> fin (if p = length s then (None, i)
       else (let q = next_word_byte W s p in
         (changed True False, (add_to_yank (range_of p q s) YankRight i)\<lparr>li_value := cut_range p q s\<rparr>)))
   | GoToStart \<Rightarrow> fin (if p = 0 then (None, i) else (changed False True, i\<lparr>li_cursor := 0\<rparr>))
   | GoToEnd \<Rightarrow> fin (if p = length s then (None, i) else (changed False True, i\<lparr>li_cursor := length s\<rparr>))
   | DeleteTillEnd \<Rightarrow> fin (changed True False, (add_to_yank (drop p s) YankRight i)\<lparr>li_value := take p s\<rparr>)
   | Yank \<Rightarrow> fin (if li_yank i = [] then (None, i)
       else (changed True True, i\<lparr>li_value := insert_at p (li_yank i) s, li_cursor := p + length (li_yank i)\<rparr>)))"

section \<open>Key events (backend/crossterm.rs)\<close>

definition only_mods :: "bool \<Rightarrow> bool \<Rightarrow> bool \<Rightarrow> key_event \<Rightarrow> bool" where
  "only_mods ctl al sh k = (ke_ctrl k = ctl \<and> ke_alt k = al \<and> ke_shift k = sh)"

definition to_input_request :: "key_event \<Rightarrow> input_request option" where
  "to_input_request k =
     (let none = only_mods False False False k; ctl = only_mods True False False k; alt = only_mods False True False k
      in case ke_code k of
        KOther n \<Rightarrow>
          if n = ''Backspace'' then (if none then Some DeletePrevChar else if alt then Some DeletePrevWord else None)
          else if n = ''Delete'' then (if none then Some DeleteNextChar else if ctl then Some DeleteNextWord else None)
          else None
      | KLeft \<Rightarrow> if none then Some GoToPrevChar else if ctl then Some GoToPrevWord else None
      | KRight \<Rightarrow> if none then Some GoToNextChar else if ctl then Some GoToNextWord else None
      | KHome \<Rightarrow> if none then Some GoToStart else None
      | KEnd \<Rightarrow> if none then Some GoToEnd else None
      | KChar c \<Rightarrow>
          if ctl \<and> c = CHR ''h'' then Some DeletePrevChar
          else if ctl \<and> c = CHR ''b'' then Some GoToPrevChar
          else if ctl \<and> c = CHR ''f'' then Some GoToNextChar
          else if ctl \<and> c = CHR ''u'' then Some DeleteLine
          else if ctl \<and> c = CHR ''w'' then Some DeletePrevWord
          else if ctl \<and> c = CHR ''k'' then Some DeleteTillEnd
          else if ctl \<and> c = CHR ''y'' then Some Yank
          else if ctl \<and> c = CHR ''a'' then Some GoToStart
          else if ctl \<and> c = CHR ''e'' then Some GoToEnd
          else if none \<or> only_mods False False True k \<or> only_mods True True False k then Some (InsertChar c)
          else None
      | _ \<Rightarrow> None)"

text \<open>\<open>feed_input\<close> of \<open>app.rs\<close>, with the answer whether the request was handled.\<close>

definition li_feed :: "word_bounds \<Rightarrow> key_event \<Rightarrow> line_input \<Rightarrow> bool \<times> line_input" where
  "li_feed W k i = (case to_input_request k of
     None \<Rightarrow> (False, i)
   | Some r \<Rightarrow> apfst (\<lambda>c. c \<noteq> None) (handle_request W r i))"

definition feed_input :: "word_bounds \<Rightarrow> key_event \<Rightarrow> line_input \<Rightarrow> line_input" where
  "feed_input W k i = snd (li_feed W k i)"

section \<open>The cursor stays in the text\<close>

definition li_ok :: "line_input \<Rightarrow> bool" where
  "li_ok i = (li_cursor i \<le> length (li_value i))"

definition bounds_ok :: "word_bounds \<Rightarrow> bool" where
  "bounds_ok W = (\<forall>s. \<forall>(i, w) \<in> set (W s). i \<le> length s)"

lemma li_ok_new [simp]: "li_ok (li_new v)" "li_ok li_default"
  by (simp_all add: li_ok_def li_new_def li_default_def)

lemma find_in: "find P xs = Some x \<Longrightarrow> x \<in> set xs"
  by (auto simp: find_Some_iff)

lemma prev_word_le: "bounds_ok W \<Longrightarrow> p \<le> length s \<Longrightarrow> prev_word_byte W s p \<le> p"
  by (auto simp: prev_word_byte_def dest: find_in split: option.split)

lemma next_word_bounds: "bounds_ok W \<Longrightarrow> p \<le> length s \<Longrightarrow> p \<le> next_word_byte W s p \<and> next_word_byte W s p \<le> length s"
  by (fastforce simp: next_word_byte_def bounds_ok_def dest: find_in split: option.split)

lemma grapheme_bounds:
  "prev_grapheme s p = Some q \<Longrightarrow> q < p"
  "next_grapheme s p = Some q \<Longrightarrow> p < q \<and> q \<le> length s"
  by (auto simp: prev_grapheme_def next_grapheme_def split: if_splits)

lemma add_to_yank_simps [simp]:
  "li_value (add_to_yank d x i) = li_value i" "li_cursor (add_to_yank d x i) = li_cursor i"
  by (simp_all add: add_to_yank_def)

lemma li_ok_cut [simp]: "li_ok (set_last_was_cut r i) = li_ok i"
  by (simp add: li_ok_def set_last_was_cut_def)

lemma handle_request_ok:
  assumes "bounds_ok W" "li_ok i"
  shows "li_ok (snd (handle_request W r i))"
  using assms prev_word_le [OF assms(1), of "li_cursor i" "li_value i"] next_word_bounds [OF assms(1), of "li_cursor i" "li_value i"]
    grapheme_bounds [of "li_value i" "li_cursor i"]
  by (cases r) (auto simp: handle_request_def Let_def li_ok_def changed_def insert_at_def cut_range_def set_last_was_cut_def
      dest: grapheme_bounds split: option.splits)

lemma feed_input_ok: "bounds_ok W \<Longrightarrow> li_ok i \<Longrightarrow> li_ok (feed_input W k i)"
  by (simp add: feed_input_def li_feed_def handle_request_ok split: option.split)

text \<open>Without a cut before it, a yank inserts what the last cut removed.\<close>

lemma cut_then_yank:
  assumes "li_ok i" "\<not> li_cut i" "li_value i \<noteq> []"
  shows "li_value (snd (handle_request W Yank (snd (handle_request W DeleteLine i)))) = li_value i"
  using assms by (simp add: handle_request_def Let_def changed_def set_last_was_cut_def add_to_yank_def insert_at_def)

end
