(* ===== verification/EditForm.thy ===== *)
theory EditForm
  imports LineInput EntryTree Totp Passwords
begin

text \<open>
  The form that adds or edits an entry (\<open>falach-tui/src/overlay/edit.rs\<close>) with its generate panel
  (\<open>overlay/generate.rs\<close>), and what \<open>app.rs\<close> does with its values (\<open>apply_add\<close>, \<open>apply_update\<close>, the key handlers).
  A text of the vault is a string of bytes, the editors of \<open>TextInput\<close> work on code points: \<open>cps\<close> and \<open>of_cps\<close> convert.
  A message of the form is a value. An operation that panics is \<open>None\<close>.
\<close>

section \<open>The generate panel\<close>

datatype gen_kind = GenPassword | GenPassphrase

definition MIN_LENGTH :: nat where "MIN_LENGTH = 8"
definition MAX_LENGTH :: nat where "MAX_LENGTH = 128"
definition MIN_WORDS :: nat where "MIN_WORDS = 3"
definition MAX_WORDS :: nat where "MAX_WORDS = 12"

record gen_state =
  gs_kind :: gen_kind
  gs_length :: nat
  gs_words :: nat
  gs_classes :: char_set
  gs_exclude_ambiguous :: bool
  gs_preview :: string
  gs_error :: "gen_error option"

text \<open>The random source, one answer per request for bytes, and the word list.\<close>

type_synonym generator = "(nat \<Rightarrow> u8 list option) \<times> string list"

definition default_separator :: string where
  "default_separator = ''-''"

definition regenerate :: "generator \<Rightarrow> gen_state \<Rightarrow> gen_state option" where
  "regenerate R g = (case (case gs_kind g of
       GenPassword \<Rightarrow> generate_password (fst R) \<lparr>pb_length = gs_length g, pb_classes = gs_classes g,
           pb_exclude_ambiguous = gs_exclude_ambiguous g\<rparr>
     | GenPassphrase \<Rightarrow> generate_passphrase (fst R) (snd R) \<lparr>pp_words = gs_words g, pp_separator = default_separator\<rparr>) of
     Inr secret \<Rightarrow> Some (g\<lparr>gs_preview := secret, gs_error := None\<rparr>)
   | Inl (Failed e) \<Rightarrow> Some (g\<lparr>gs_preview := [], gs_error := Some e\<rparr>)
   | Inl Panic \<Rightarrow> None)"

definition gen_new :: "generator \<Rightarrow> gen_state option" where
  "gen_new R = regenerate R \<lparr>gs_kind = GenPassword, gs_length = 20, gs_words = 6, gs_classes = all_classes,
     gs_exclude_ambiguous = False, gs_preview = [], gs_error = None\<rparr>"

definition toggle_kind :: "generator \<Rightarrow> gen_state \<Rightarrow> gen_state option" where
  "toggle_kind R g = regenerate R (g\<lparr>gs_kind := (case gs_kind g of GenPassword \<Rightarrow> GenPassphrase | GenPassphrase \<Rightarrow> GenPassword)\<rparr>)"

definition grow :: "generator \<Rightarrow> gen_state \<Rightarrow> gen_state option" where
  "grow R g = regenerate R (case gs_kind g of
     GenPassword \<Rightarrow> g\<lparr>gs_length := min (gs_length g + 1) MAX_LENGTH\<rparr>
   | GenPassphrase \<Rightarrow> g\<lparr>gs_words := min (gs_words g + 1) MAX_WORDS\<rparr>)"

definition shrink :: "generator \<Rightarrow> gen_state \<Rightarrow> gen_state option" where
  "shrink R g = regenerate R (case gs_kind g of
     GenPassword \<Rightarrow> g\<lparr>gs_length := max (gs_length g - 1) MIN_LENGTH\<rparr>
   | GenPassphrase \<Rightarrow> g\<lparr>gs_words := max (gs_words g - 1) MIN_WORDS\<rparr>)"

datatype char_class = ClassLower | ClassUpper | ClassDigits | ClassSymbols

definition toggle_class :: "generator \<Rightarrow> char_class \<Rightarrow> gen_state \<Rightarrow> gen_state option" where
  "toggle_class R c g =
     (if gs_kind g \<noteq> GenPassword then Some g
      else let cs = gs_classes g in regenerate R (g\<lparr>gs_classes := (case c of
          ClassLower \<Rightarrow> cs\<lparr>cs_lowercase := \<not> cs_lowercase cs\<rparr>
        | ClassUpper \<Rightarrow> cs\<lparr>cs_uppercase := \<not> cs_uppercase cs\<rparr>
        | ClassDigits \<Rightarrow> cs\<lparr>cs_digits := \<not> cs_digits cs\<rparr>
        | ClassSymbols \<Rightarrow> cs\<lparr>cs_symbols := \<not> cs_symbols cs\<rparr>)\<rparr>))"

definition toggle_ambiguous :: "generator \<Rightarrow> gen_state \<Rightarrow> gen_state option" where
  "toggle_ambiguous R g =
     (if gs_kind g \<noteq> GenPassword then Some g
      else regenerate R (g\<lparr>gs_exclude_ambiguous := \<not> gs_exclude_ambiguous g\<rparr>))"

section \<open>The form\<close>

definition cps :: "string \<Rightarrow> codepoints" where
  "cps = map of_char"

definition of_cps :: "codepoints \<Rightarrow> string" where
  "of_cps = map char_of"

datatype col = ColName | ColValue

datatype edit_field =
    FieldKind | FieldTitle | FieldUsername | FieldPassword | FieldUrl | FieldTotpUri | FieldNotes | FieldTags
  | FieldCustom nat col | FieldCustomAdd

datatype persist_error = ReadOnlySession | VaultFailed vault_error

datatype form_error = TitleRequired | BadTag string | ReservedName | SaveFailed persist_error

record custom_row =
  cr_name :: line_input
  cr_value :: password_input
  cr_protected :: bool

record edit_state =
  es_is_new :: bool
  es_target :: "uuid option"
  es_group :: uuid
  es_kind :: entry_kind
  es_title :: line_input
  es_username :: line_input
  es_password :: password_input
  es_reveal :: bool
  es_url :: line_input
  es_totp_uri :: password_input
  es_notes :: text_area
  es_tags :: line_input
  es_custom :: "custom_row list"
  es_original_custom :: "string list"
  es_focus :: nat
  es_generating :: "gen_state option"
  es_error :: "form_error option"

record edit_values =
  ev_kind :: entry_kind
  ev_title :: string
  ev_username :: string
  ev_password :: string
  ev_url :: string
  ev_totp_uri :: string
  ev_notes :: string
  ev_tags :: "string list"
  ev_custom :: "custom_field list"
  ev_removed :: "string list"

text \<open>\<open>util::is_otp_field\<close>\<close>

definition is_otp_field :: "unicode \<Rightarrow> string \<Rightarrow> bool" where
  "is_otp_field U name = (let lower = u_str_lower U name in lower = ''otp'' \<or> sublist ''totp'' lower)"

definition new_add :: "uuid \<Rightarrow> edit_state" where
  "new_add g = \<lparr>es_is_new = True, es_target = None, es_group = g, es_kind = Credential, es_title = li_default,
     es_username = li_default, es_password = pi_new, es_reveal = False, es_url = li_default, es_totp_uri = pi_new,
     es_notes = ta_new, es_tags = li_default, es_custom = [], es_original_custom = [], es_focus = 0,
     es_generating = None, es_error = None\<rparr>"

definition custom_names :: "unicode \<Rightarrow> 'x entry \<Rightarrow> string list" where
  "custom_names U e = filter (\<lambda>n. \<not> is_otp_field U n) (custom_field_names e)"

definition custom_row_of :: "'x entry \<Rightarrow> string \<Rightarrow> custom_row" where
  "custom_row_of e n = \<lparr>cr_name = li_new n, cr_value = pi_with_value (cps (field_or_empty n e)),
     cr_protected = (custom_field_is_protected n e = Some True)\<rparr>"

text \<open>\<open>Uuid::nil\<close> is 0.\<close>

definition from_entry :: "unicode \<Rightarrow> uuid \<Rightarrow> 'x entry \<Rightarrow> edit_state" where
  "from_entry U u e = \<lparr>es_is_new = False, es_target = Some u, es_group = 0, es_kind = view_kind e,
     es_title = li_new (field_or_empty f_title e), es_username = li_new (field_or_empty f_username e),
     es_password = pi_with_value (cps (field_or_empty f_password e)), es_reveal = False,
     es_url = li_new (field_or_empty f_url e), es_totp_uri = pi_new, es_notes = ta_from_str (cps (field_or_empty f_notes e)),
     es_tags = li_new (join '' '' (tags_from_entry (eb_tags (en_body e)))),
     es_custom = map (custom_row_of e) (custom_names U e), es_original_custom = custom_names U e, es_focus = 0,
     es_generating = None, es_error = None\<rparr>"

section \<open>Focus\<close>

definition fields :: "edit_state \<Rightarrow> edit_field list" where
  "fields s =
     (if es_is_new s then [FieldKind] else []) @ [FieldTitle]
     @ (case es_kind s of
          Credential \<Rightarrow> [FieldUsername, FieldPassword, FieldUrl]
        | TotpEntry \<Rightarrow> (if es_is_new s then [FieldTotpUri] else []) @ [FieldUsername, FieldUrl]
        | SecureNote \<Rightarrow> [])
     @ [FieldNotes, FieldTags]
     @ concat (map (\<lambda>i. [FieldCustom i ColName, FieldCustom i ColValue]) [0..<length (es_custom s)])
     @ [FieldCustomAdd]"

definition focused :: "edit_state \<Rightarrow> edit_field" where
  "focused s = fields s ! min (es_focus s) (length (fields s) - 1)"

definition focus_next :: "edit_state \<Rightarrow> edit_state" where
  "focus_next s = s\<lparr>es_focus := (es_focus s + 1) mod length (fields s)\<rparr>"

definition focus_prev :: "edit_state \<Rightarrow> edit_state" where
  "focus_prev s = s\<lparr>es_focus := (es_focus s + length (fields s) - 1) mod length (fields s)\<rparr>"

definition clamp_focus :: "edit_state \<Rightarrow> edit_state" where
  "clamp_focus s = s\<lparr>es_focus := min (es_focus s) (length (fields s) - 1)\<rparr>"

definition cycle_kind :: "edit_state \<Rightarrow> edit_state" where
  "cycle_kind s = (if es_is_new s then clamp_focus (s\<lparr>es_kind := (case es_kind s of
     Credential \<Rightarrow> SecureNote | SecureNote \<Rightarrow> TotpEntry | TotpEntry \<Rightarrow> Credential)\<rparr>) else s)"

definition cycle_kind_back :: "edit_state \<Rightarrow> edit_state" where
  "cycle_kind_back s = (if es_is_new s then clamp_focus (s\<lparr>es_kind := (case es_kind s of
     Credential \<Rightarrow> TotpEntry | TotpEntry \<Rightarrow> SecureNote | SecureNote \<Rightarrow> Credential)\<rparr>) else s)"

definition add_custom_row :: "edit_state \<Rightarrow> edit_state" where
  "add_custom_row s =
     (let s1 = s\<lparr>es_custom := es_custom s @ [\<lparr>cr_name = li_default, cr_value = pi_new, cr_protected = False\<rparr>]\<rparr>
      in case index_of (FieldCustom (length (es_custom s1) - 1) ColName) (fields s1) of
           Some i \<Rightarrow> s1\<lparr>es_focus := i\<rparr> | None \<Rightarrow> s1)"

definition remove_custom_row :: "nat \<Rightarrow> edit_state \<Rightarrow> edit_state" where
  "remove_custom_row i s =
     (if i < length (es_custom s)
      then clamp_focus (s\<lparr>es_custom := take i (es_custom s) @ drop (Suc i) (es_custom s)\<rparr>) else s)"

section \<open>Reading the form\<close>

fun split_any :: "(char \<Rightarrow> bool) \<Rightarrow> string \<Rightarrow> string list" where
  "split_any P [] = [[]]"
| "split_any P (x # xs) =
     (if P x then [] # split_any P xs
      else (case split_any P xs of [] \<Rightarrow> [[x]] | p # ps \<Rightarrow> (x # p) # ps))"

definition is_tag_separator :: "char \<Rightarrow> bool" where
  "is_tag_separator c = (c = CHR '','' \<or> c = CHR '' '' \<or> c = CHR 0x09)"

fun tags_loop :: "string list \<Rightarrow> string list \<Rightarrow> form_error + string list" where
  "tags_loop [] acc = Inr acc"
| "tags_loop (t # ts) acc = (case tag_from t of
     Inl _ \<Rightarrow> Inl (BadTag t)
   | Inr tag \<Rightarrow> tags_loop ts (if tag \<in> set acc then acc else acc @ [tag]))"

definition parse_tags :: "string \<Rightarrow> form_error + string list" where
  "parse_tags raw = tags_loop (filter (\<lambda>t. t \<noteq> []) (split_any is_tag_separator raw)) []"

fun custom_loop :: "unicode \<Rightarrow> custom_row list \<Rightarrow> custom_field list \<Rightarrow> form_error + custom_field list" where
  "custom_loop U [] acc = Inr acc"
| "custom_loop U (r # rs) acc =
     (let name = trim (li_value (cr_name r))
      in if name = [] then custom_loop U rs acc
         else if is_otp_field U name then Inl ReservedName
         else custom_loop U rs (filter (\<lambda>f. cf_name f \<noteq> name) acc
           @ [\<lparr>cf_name = name, cf_value = of_cps (pi_buffer (cr_value r)), cf_protected = cr_protected r\<rparr>]))"

definition form_snapshot :: "unicode \<Rightarrow> edit_state \<Rightarrow> form_error + edit_values" where
  "form_snapshot U s =
     (let title = trim (li_value (es_title s))
      in if title = [] then Inl TitleRequired
         else rbind (parse_tags (li_value (es_tags s))) (\<lambda>tags.
           rbind (custom_loop U (es_custom s) []) (\<lambda>custom. Inr
             \<lparr>ev_kind = es_kind s, ev_title = title, ev_username = li_value (es_username s),
              ev_password = of_cps (pi_buffer (es_password s)), ev_url = li_value (es_url s),
              ev_totp_uri = trim (of_cps (pi_buffer (es_totp_uri s))), ev_notes = of_cps (ta_value (es_notes s)),
              ev_tags = tags, ev_custom = custom,
              ev_removed = filter (\<lambda>n. n \<notin> set (map cf_name custom)) (es_original_custom s)\<rparr>)))"

section \<open>Applying the values (app.rs)\<close>

definition totp_draft :: "string \<Rightarrow> string \<Rightarrow> vault_error + draft" where
  "totp_draft title uri = rbind (from_otpauth_uri uri) (\<lambda>_.
     Inr (with_custom_field f_otp uri True (new_draft TotpEntry title)))"

definition with_tags :: "string list \<Rightarrow> draft \<Rightarrow> draft" where
  "with_tags ts d = d\<lparr>dr_tags := dr_tags d @ ts\<rparr>"

definition draft_of :: "edit_values \<Rightarrow> vault_error + draft" where
  "draft_of v =
     rbind (case ev_kind v of
         Credential \<Rightarrow> Inr (new_draft Credential (ev_title v))
       | SecureNote \<Rightarrow> Inr (new_draft SecureNote (ev_title v))
       | TotpEntry \<Rightarrow> totp_draft (ev_title v) (ev_totp_uri v)) (\<lambda>d0.
       let d1 = (if ev_kind v = Credential \<or> ev_kind v = TotpEntry then with_url (ev_url v) (with_username (ev_username v) d0) else d0);
           d2 = (if ev_kind v = Credential then with_password (ev_password v) d1 else d1);
           d3 = with_tags (ev_tags v) (with_notes (ev_notes v) d2)
       in Inr (fold (\<lambda>f. with_custom_field (cf_name f) (cf_value f) (cf_protected f)) (ev_custom v) d3))"

definition apply_add :: "uuid \<Rightarrow> time \<Rightarrow> 'x \<Rightarrow> uuid \<Rightarrow> edit_values \<Rightarrow> ('x, uuid) vault_act" where
  "apply_add fresh now other g v db = (case draft_of v of
     Inl e \<Rightarrow> (Inl (Failed e), db)
   | Inr d \<Rightarrow> add_entry fresh now other g d db)"

definition update_ops :: "edit_values \<Rightarrow> view_op list" where
  "update_ops v = SetTitle (ev_title v)
     # (case ev_kind v of
          Credential \<Rightarrow> [SetUsername (ev_username v), SetPassword (ev_password v), SetUrl (ev_url v)]
        | TotpEntry \<Rightarrow> [SetUsername (ev_username v), SetUrl (ev_url v)]
        | SecureNote \<Rightarrow> [])
     @ [SetNotes (ev_notes v), SetTags (ev_tags v)]
     @ map (\<lambda>f. SetCustomField (cf_name f) (cf_value f) (cf_protected f)) (ev_custom v)
     @ map RemoveCustomField (ev_removed v)"

definition apply_update :: "time \<Rightarrow> time \<Rightarrow> uuid \<Rightarrow> edit_values \<Rightarrow> ('x, unit) vault_act" where
  "apply_update tf now u v = update_entry tf now u (update_ops v, None)"

section \<open>Keys of the form (app.rs)\<close>

definition input_key_of :: "key_event \<Rightarrow> input_key \<times> bool" where
  "input_key_of k = (case ke_code k of
     KChar c \<Rightarrow> IChar (of_char c) | KEnter \<Rightarrow> IEnter | KEsc \<Rightarrow> IEsc | KLeft \<Rightarrow> ILeft | KRight \<Rightarrow> IRight
   | KUp \<Rightarrow> IUp | KDown \<Rightarrow> IDown | KOther n \<Rightarrow> if n = ''Backspace'' then IBackspace else IOther | _ \<Rightarrow> IOther, ke_ctrl k)"

definition pi_feed :: "key_event \<Rightarrow> password_input \<Rightarrow> password_input option" where
  "pi_feed k p = map_option snd (pi_on_key (input_key_of k) p)"

definition on_generate_key :: "generator \<Rightarrow> key_event \<Rightarrow> edit_state \<Rightarrow> edit_state option" where
  "on_generate_key R k s = (case ke_code k of
     KEsc \<Rightarrow> Some (s\<lparr>es_generating := None\<rparr>)
   | KEnter \<Rightarrow> (case es_generating s of None \<Rightarrow> Some s
       | Some g \<Rightarrow> Some (s\<lparr>es_generating := None, es_password := pi_set_value (cps (gs_preview g)) (es_password s),
           es_reveal := False\<rparr>))
   | kc \<Rightarrow> (case es_generating s of None \<Rightarrow> Some s
       | Some g \<Rightarrow> map_option (\<lambda>g'. s\<lparr>es_generating := Some g'\<rparr>)
           (case kc of
              KTab \<Rightarrow> toggle_kind R g
            | KChar c \<Rightarrow>
                if c = CHR ''+'' \<or> c = CHR ''='' then grow R g
                else if c = CHR ''-'' \<or> c = CHR ''_'' then shrink R g
                else if c = CHR ''r'' then regenerate R g
                else if c = CHR ''l'' then toggle_class R ClassLower g
                else if c = CHR ''u'' then toggle_class R ClassUpper g
                else if c = CHR ''d'' then toggle_class R ClassDigits g
                else if c = CHR ''s'' then toggle_class R ClassSymbols g
                else if c = CHR ''b'' then toggle_ambiguous R g
                else Some g
            | _ \<Rightarrow> Some g)))"

definition ctrl_char :: "char \<Rightarrow> key_event \<Rightarrow> bool" where
  "ctrl_char c k = (ke_ctrl k \<and> ke_code k = KChar c)"

text \<open>Field-specific editing.\<close>

definition edit_field_key :: "word_bounds \<Rightarrow> key_event \<Rightarrow> edit_state \<Rightarrow> edit_state option" where
  "edit_field_key W k s = (case focused s of
     FieldKind \<Rightarrow> Some
       (if ke_code k = KLeft \<or> ke_code k = KChar CHR ''h'' then cycle_kind_back s
        else if ke_code k = KRight \<or> ke_code k = KChar CHR ''l'' \<or> ke_code k = KChar CHR '' '' then cycle_kind s
        else s)
   | FieldTitle \<Rightarrow> Some (s\<lparr>es_title := feed_input W k (es_title s)\<rparr>)
   | FieldUsername \<Rightarrow> Some (s\<lparr>es_username := feed_input W k (es_username s)\<rparr>)
   | FieldUrl \<Rightarrow> Some (s\<lparr>es_url := feed_input W k (es_url s)\<rparr>)
   | FieldTotpUri \<Rightarrow> map_option (\<lambda>p. s\<lparr>es_totp_uri := p\<rparr>) (pi_feed k (es_totp_uri s))
   | FieldTags \<Rightarrow> Some (s\<lparr>es_tags := feed_input W k (es_tags s)\<rparr>)
   | FieldPassword \<Rightarrow>
       if ctrl_char CHR ''r'' k then Some (s\<lparr>es_reveal := \<not> es_reveal s\<rparr>)
       else map_option (\<lambda>p. s\<lparr>es_password := p\<rparr>) (pi_feed k (es_password s))
   | FieldNotes \<Rightarrow> map_option (\<lambda>(_, t). s\<lparr>es_notes := t\<rparr>) (ta_on_key (input_key_of k) (es_notes s))
   | FieldCustom i c \<Rightarrow>
       if ctrl_char CHR ''d'' k then Some (remove_custom_row i s)
       else if length (es_custom s) \<le> i then Some s
       else (let row = es_custom s ! i in case c of
           ColName \<Rightarrow> Some (s\<lparr>es_custom := (es_custom s)[i := row\<lparr>cr_name := feed_input W k (cr_name row)\<rparr>]\<rparr>)
         | ColValue \<Rightarrow> map_option (\<lambda>p. s\<lparr>es_custom := (es_custom s)[i := row\<lparr>cr_value := p\<rparr>]\<rparr>) (pi_feed k (cr_value row)))
   | FieldCustomAdd \<Rightarrow> Some s)"

text \<open>What a key asks of the caller: close the form, save it, or keep it.\<close>

datatype edit_reply = EditClose | EditSave | EditKeep edit_state

definition on_edit_key :: "generator \<Rightarrow> word_bounds \<Rightarrow> key_event \<Rightarrow> edit_state \<Rightarrow> edit_reply option" where
  "on_edit_key R W k s =
     (if es_generating s \<noteq> None then map_option EditKeep (on_generate_key R k s)
      else if ke_code k = KEsc then Some EditClose
      else if ctrl_char CHR ''s'' k then Some EditSave
      else if ctrl_char CHR ''g'' k \<and> es_kind s = Credential
        then map_option (\<lambda>g. EditKeep (s\<lparr>es_generating := Some g\<rparr>)) (gen_new R)
      else if ke_code k = KTab then Some (EditKeep (focus_next s))
      else if ke_code k = KBackTab then Some (EditKeep (focus_prev s))
      else if ke_code k = KEnter \<and> focused s = FieldCustomAdd then Some (EditKeep (add_custom_row s))
      else if ke_code k = KEnter \<and> focused s \<noteq> FieldNotes then Some (EditKeep (focus_next s))
      else map_option EditKeep (edit_field_key W k s))"

section \<open>The focus\<close>

text \<open>The focused field is a field of the form, and a focused custom row exists; every change keeps the index in
  range.\<close>

lemma fields_nonempty [simp]: "fields s \<noteq> []" "0 < length (fields s)"
  by (simp_all add: fields_def)

definition focus_ok :: "edit_state \<Rightarrow> bool" where
  "focus_ok s = (es_focus s < length (fields s))"

lemma clamped_lt: "min n (length (fields s) - 1) < length (fields s)"
  using fields_nonempty(2) [of s] by linarith

lemma focused_in: "focused s \<in> set (fields s)"
  unfolding focused_def by (rule nth_mem [OF clamped_lt])

lemma custom_fields: "FieldCustom i c \<in> set (fields s) \<longleftrightarrow> i < length (es_custom s)"
  by (cases c) (auto simp: fields_def split: entry_kind.splits)

lemma focused_custom: "focused s = FieldCustom i c \<Longrightarrow> i < length (es_custom s)"
  using focused_in [of s] custom_fields by simp

lemma clamp_ok [simp]: "focus_ok (clamp_focus s)"
proof -
  have "fields (clamp_focus s) = fields s" by (simp add: clamp_focus_def fields_def)
  then show ?thesis using clamped_lt [of "es_focus s" s] by (simp add: focus_ok_def clamp_focus_def)
qed

lemma fields_focus [simp]: "fields (s\<lparr>es_focus := n\<rparr>) = fields s"
  by (simp add: fields_def)

lemma focus_moves_ok [simp]: "focus_ok (focus_next s)" "focus_ok (focus_prev s)"
  by (simp_all add: focus_ok_def focus_next_def focus_prev_def)

lemma cycle_kind_ok: "focus_ok s \<Longrightarrow> focus_ok (cycle_kind s) \<and> focus_ok (cycle_kind_back s)"
  by (simp add: cycle_kind_def cycle_kind_back_def)

lemma remove_row_ok: "focus_ok s \<Longrightarrow> focus_ok (remove_custom_row i s)"
  by (simp add: remove_custom_row_def)

text \<open>Adding a row moves the focus to its name.\<close>

lemma add_row_focuses: "focus_ok (add_custom_row s) \<and> focused (add_custom_row s) = FieldCustom (length (es_custom s)) ColName"
proof -
  let ?s = "s\<lparr>es_custom := es_custom s @ [\<lparr>cr_name = li_default, cr_value = pi_new, cr_protected = False\<rparr>]\<rparr>"
  have "FieldCustom (length (es_custom s)) ColName \<in> set (fields ?s)" by (simp add: custom_fields)
  then obtain i where i: "index_of (FieldCustom (length (es_custom s)) ColName) (fields ?s) = Some i"
    using index_of_None by fastforce
  then have "i < length (fields ?s)" "fields ?s ! i = FieldCustom (length (es_custom s)) ColName"
    by (simp_all add: index_of_iff)
  with i show ?thesis by (simp add: add_custom_row_def focus_ok_def focused_def)
qed

section \<open>Saving a form that was not changed\<close>

lemma of_cps_cps [simp]: "of_cps (cps s) = s"
  by (induction s) (simp_all add: cps_def of_cps_def)

lemma of_cps_Nil [simp]: "of_cps [] = []"
  by (simp add: of_cps_def)

lemma join_split_text [simp]: "join_lines (split_lines v) = v"
proof (induction v)
  case (Cons c v)
  show ?case
  proof (cases "split_lines v")
    case Nil
    with Cons show ?thesis by simp
  next
    case (Cons l ls)
    with Cons.IH show ?thesis by (cases ls) auto
  qed
qed simp

lemma value_from_str [simp]: "ta_value (ta_from_str v) = v"
  by (simp add: ta_value_def ta_from_str_def Let_def)

definition plain_tag :: "string \<Rightarrow> bool" where
  "plain_tag t = (t \<noteq> [] \<and> \<not> list_ex is_tag_separator t \<and> is_ok (tag_from t))"

lemma split_any_append: "\<not> list_ex P a \<Longrightarrow> P c \<Longrightarrow> split_any P (a @ c # b) = a # split_any P b"
  by (induction a) auto

lemma split_any_none: "\<not> list_ex P a \<Longrightarrow> split_any P a = [a]"
  by (induction a) auto

lemma split_any_join:
  "ts \<noteq> [] \<Longrightarrow> \<forall>t\<in>set ts. \<not> list_ex P t \<Longrightarrow> P c \<Longrightarrow> split_any P (join [c] ts) = ts"
  by (induction ts rule: induct_list012) (auto simp: split_any_none split_any_append)

lemma tags_loop_plain:
  "\<forall>t\<in>set ts. is_ok (tag_from t) \<Longrightarrow> distinct (acc @ ts) \<Longrightarrow> tags_loop ts acc = Inr (acc @ ts)"
  by (induction ts arbitrary: acc) (auto simp: tag_from_def split: if_splits)

lemma parse_tags_join: "\<forall>t\<in>set ts. plain_tag t \<Longrightarrow> distinct ts \<Longrightarrow> parse_tags (join '' '' ts) = Inr ts"
proof (cases "ts = []")
  case False
  assume a: "\<forall>t\<in>set ts. plain_tag t" "distinct ts"
  have "split_any is_tag_separator (join '' '' ts) = ts"
    using a False by (intro split_any_join) (simp_all add: plain_tag_def is_tag_separator_def)
  with a tags_loop_plain [of ts "[]"] show ?thesis by (simp add: parse_tags_def plain_tag_def cong: filter_cong)
qed (simp add: parse_tags_def)

definition field_of_row :: "'x entry \<Rightarrow> string \<Rightarrow> custom_field" where
  "field_of_row e n = \<lparr>cf_name = n, cf_value = field_or_empty n e, cf_protected = (custom_field_is_protected n e = Some True)\<rparr>"

lemma cf_name_row [simp]: "cf_name (field_of_row e n) = n" "map cf_name (map (field_of_row e) ns) = ns"
  by (simp_all add: field_of_row_def comp_def)

lemma custom_loop_rows:
  "\<forall>n\<in>set ns. n \<noteq> [] \<and> trim n = n \<and> \<not> is_otp_field U n \<Longrightarrow> distinct (map cf_name acc @ ns) \<Longrightarrow>
   custom_loop U (map (custom_row_of e) ns) acc = Inr (acc @ map (field_of_row e) ns)"
proof (induction ns arbitrary: acc)
  case (Cons n ns)
  have "filter (\<lambda>f. cf_name f \<noteq> n) acc = acc" using Cons.prems by (auto simp: filter_id_conv)
  moreover have "custom_row_of e n = \<lparr>cr_name = li_new n, cr_value = pi_with_value (cps (field_or_empty n e)),
     cr_protected = (custom_field_is_protected n e = Some True)\<rparr>" by (simp add: custom_row_of_def)
  ultimately show ?case using Cons.prems Cons.IH [of "acc @ [field_of_row e n]"]
    by (simp add: Let_def li_new_def pi_with_value_def field_of_row_def)
qed simp

lemma touch_simps [simp]:
  "eb_fields (touch now b) = eb_fields b" "eb_tags (touch now b) = eb_tags b"
  "eb_attachments (touch now b) = eb_attachments b" "eb_parent (touch now b) = eb_parent b" "eb_other (touch now b) = eb_other b"
  by (simp_all add: set_last_modification_def)

lemmas field_edits = set_unprotected_def set_protected_def body_set_def set_tags_view_def set_custom_field_view_def

definition stored :: "custom_field \<Rightarrow> string secret_value" where
  "stored f = (if cf_protected f then Protected (cf_value f) else Unprotected (cf_value f))"

lemma fold_customs:
  "let b' = fold (view_edit now) (map (\<lambda>f. SetCustomField (cf_name f) (cf_value f) (cf_protected f)) (map (field_of_row e) ns)) b
   in hget (eb_fields b') n = (if n \<in> set ns then Some (stored (field_of_row e n)) else hget (eb_fields b) n)
    \<and> eb_tags b' = eb_tags b \<and> eb_attachments b' = eb_attachments b \<and> eb_parent b' = eb_parent b"
  by (induction ns arbitrary: b) (auto simp: Let_def field_edits stored_def)

definition unchanged_values :: "'x entry \<Rightarrow> string list \<Rightarrow> edit_values" where
  "unchanged_values e names = \<lparr>ev_kind = view_kind e, ev_title = field_or_empty f_title e, ev_username = field_or_empty f_username e,
     ev_password = field_or_empty f_password e, ev_url = field_or_empty f_url e, ev_totp_uri = [],
     ev_notes = field_or_empty f_notes e, ev_tags = eb_tags (en_body e), ev_custom = map (field_of_row e) names, ev_removed = []\<rparr>"

definition plain_entry :: "unicode \<Rightarrow> 'x entry \<Rightarrow> bool" where
  "plain_entry U e = (hwf (eb_fields (en_body e)) \<and> field_or_empty f_title e \<noteq> []
     \<and> trim (field_or_empty f_title e) = field_or_empty f_title e
     \<and> list_all plain_tag (eb_tags (en_body e)) \<and> distinct (eb_tags (en_body e))
     \<and> list_all (\<lambda>n. n \<noteq> [] \<and> trim n = n) (custom_names U e))"

lemma snapshot_unchanged:
  assumes "plain_entry U e"
  shows "form_snapshot U (from_entry U u e) = Inr (unchanged_values e (custom_names U e))"
proof -
  have tags: "tags_from_entry (eb_tags (en_body e)) = eb_tags (en_body e)"
    using assms by (auto simp: plain_entry_def tags_from_entry_def plain_tag_def list_all_iff filter_id_conv)
  have "distinct (custom_names U e)"
    using assms by (auto simp: plain_entry_def custom_names_def custom_field_names_def hwf_def)
  moreover have "\<forall>n\<in>set (custom_names U e). n \<noteq> [] \<and> trim n = n \<and> \<not> is_otp_field U n"
    using assms by (auto simp: plain_entry_def list_all_iff custom_names_def)
  ultimately have "custom_loop U (map (custom_row_of e) (custom_names U e)) [] = Inr (map (field_of_row e) (custom_names U e))"
    using custom_loop_rows [of "custom_names U e" U "[]" e] by simp
  moreover have "parse_tags (join '' '' (eb_tags (en_body e))) = Inr (eb_tags (en_body e))"
    using assms by (intro parse_tags_join) (auto simp: plain_entry_def list_all_iff)
  ultimately show ?thesis using assms tags
    by (simp add: plain_entry_def form_snapshot_def from_entry_def unchanged_values_def li_new_def pi_with_value_def pi_new_def
        trim_def trim_start_def trim_end_def Let_def filter_empty_conv image_image)
qed

lemma fold_no_dups: "distinct (acc @ ts) \<Longrightarrow> fold (\<lambda>t acc. if t \<in> set acc then acc else acc @ [t]) ts acc = acc @ ts"
  by (induction ts arbitrary: acc) auto

lemma names_distinct [simp]:
  "f_title \<noteq> f_username" "f_title \<noteq> f_password" "f_title \<noteq> f_url" "f_title \<noteq> f_notes" "f_username \<noteq> f_password"
  "f_username \<noteq> f_url" "f_username \<noteq> f_notes" "f_password \<noteq> f_url" "f_password \<noteq> f_notes" "f_url \<noteq> f_notes"
  "f_username \<noteq> f_title" "f_password \<noteq> f_title" "f_url \<noteq> f_title" "f_notes \<noteq> f_title" "f_password \<noteq> f_username"
  "f_url \<noteq> f_username" "f_notes \<noteq> f_username" "f_url \<noteq> f_password" "f_notes \<noteq> f_password" "f_notes \<noteq> f_url"
  by (simp_all add: f_title_def f_username_def f_password_def f_url_def f_notes_def)

text \<open>What the body is after the unchanged values were written, field by field.\<close>

definition same_as_read :: "'x body \<Rightarrow> 'x entry \<Rightarrow> bool" where
  "same_as_read b e = ((\<forall>n. field_or_empty n (Entry b None) = field_or_empty n e)
     \<and> (\<forall>n. n \<notin> set known_fields \<longrightarrow> custom_field_is_protected n (Entry b None) = custom_field_is_protected n e)
     \<and> eb_tags b = eb_tags (en_body e) \<and> eb_attachments b = eb_attachments (en_body e) \<and> eb_parent b = eb_parent (en_body e))"

lemma standard_ops:
  fixes e :: "'x entry"
  assumes "distinct (eb_tags (en_body e))"
  shows "let b = fold (view_edit now) (SetTitle (field_or_empty f_title e)
       # (case view_kind e of
            Credential \<Rightarrow> [SetUsername (field_or_empty f_username e), SetPassword (field_or_empty f_password e), SetUrl (field_or_empty f_url e)]
          | TotpEntry \<Rightarrow> [SetUsername (field_or_empty f_username e), SetUrl (field_or_empty f_url e)]
          | SecureNote \<Rightarrow> [])
       @ [SetNotes (field_or_empty f_notes e), SetTags (eb_tags (en_body e))]) (en_body e)
     in same_as_read b e"
proof -
  have "fold (\<lambda>t acc. if t \<in> set acc then acc else acc @ [t]) (eb_tags (en_body e)) [] = eb_tags (en_body e)"
    using assms fold_no_dups [of "[]"] by simp
  then show ?thesis
    by (auto simp: Let_def same_as_read_def field_edits field_or_empty_def en_get_def custom_field_is_protected_def known_fields_def
      split: option.splits entry_kind.splits)
qed

lemma custom_name_present:
  "n \<in> set (custom_names U e) \<Longrightarrow> n \<notin> set known_fields \<and> (\<exists>v. hget (eb_fields (en_body e)) n = Some v)"
  by (auto simp: custom_names_def custom_field_names_def dest: weak_map_of_SomeI)

lemma stored_read:
  "hget (eb_fields (en_body e)) n = Some v \<Longrightarrow> exposed (stored (field_of_row e n)) = field_or_empty n e
     \<and> is_protected (stored (field_of_row e n)) = is_protected v"
  by (auto simp: stored_def field_of_row_def custom_field_is_protected_def is_protected_def split: secret_value.splits)

lemma customs_read:
  assumes "same_as_read b e"
  shows "same_as_read (fold (view_edit now) (map (\<lambda>f. SetCustomField (cf_name f) (cf_value f) (cf_protected f))
    (map (field_of_row e) (custom_names U e))) b) e"
proof -
  define c where "c = fold (view_edit now) (map (\<lambda>f. SetCustomField (cf_name f) (cf_value f) (cf_protected f))
    (map (field_of_row e) (custom_names U e))) b"
  have look: "hget (eb_fields c) n = (if n \<in> set (custom_names U e) then Some (stored (field_of_row e n)) else hget (eb_fields b) n)"
    and rest: "eb_tags c = eb_tags b" "eb_attachments c = eb_attachments b" "eb_parent c = eb_parent b" for n
    using fold_customs [of now e "custom_names U e" b n] by (simp_all add: Let_def c_def)
  have read_c: "field_or_empty n (Entry c None) = (case hget (eb_fields c) n of None \<Rightarrow> [] | Some v \<Rightarrow> exposed v)" for n
    by (simp add: field_or_empty_def en_get_def split: option.split)
  have "field_or_empty n (Entry c None) = field_or_empty n e" for n
  proof (cases "n \<in> set (custom_names U e)")
    case True
    then obtain v where "hget (eb_fields (en_body e)) n = Some v" using custom_name_present by blast
    from stored_read [OF this] True show ?thesis by (simp add: read_c look)
  next
    case False
    then have "field_or_empty n (Entry c None) = field_or_empty n (Entry b None)" by (simp add: field_or_empty_def en_get_def look)
    with assms show ?thesis by (simp add: same_as_read_def)
  qed
  moreover have "custom_field_is_protected n (Entry c None) = custom_field_is_protected n e" if "n \<notin> set known_fields" for n
  proof (cases "n \<in> set (custom_names U e)")
    case True
    then obtain v where v: "hget (eb_fields (en_body e)) n = Some v" using custom_name_present by blast
    with stored_read [OF v] True show ?thesis by (simp add: custom_field_is_protected_def look)
  next
    case False
    then have "custom_field_is_protected n (Entry c None) = custom_field_is_protected n (Entry b None)"
      by (simp add: custom_field_is_protected_def look)
    with assms that show ?thesis by (simp add: same_as_read_def)
  qed
  ultimately have "same_as_read c e" using assms rest by (simp add: same_as_read_def)
  then show ?thesis by (simp only: c_def)
qed

lemma unchanged_update_ops:
  assumes "distinct (eb_tags (en_body e))"
  shows "same_as_read (fold (view_edit now) (update_ops (unchanged_values e (custom_names U e))) (en_body e)) e"
  using customs_read [OF standard_ops [OF assms, of now, unfolded Let_def], of now U]
  by (cases "view_kind e") (simp_all add: update_ops_def unchanged_values_def comp_def)

lemma same_as_read_touch: "same_as_read b e \<Longrightarrow> same_as_read (touch now b) e"
  by (simp add: same_as_read_def field_or_empty_def en_get_def custom_field_is_protected_def)


definition login_entry :: "unit entry" where
  "login_entry = Entry \<lparr>eb_id = 7, eb_parent = 1, eb_fields = [(''Title'', Unprotected ''Mail''), (''UserName'', Unprotected ''me''),
       (''PIN'', Protected ''12'')], eb_tags = [''work'', ''web''], eb_times = new_times 0, eb_attachments = [], eb_other = ()\<rparr> (Some [])"

definition login_db :: "unit db" where
  "login_db = (new_db 1 0 ())\<lparr>db_entries := [(7, login_entry)]\<rparr>"

lemma login_plain: "plain_entry ascii login_entry"
proof -
  have "custom_names ascii login_entry = [''PIN'']" by code_simp
  moreover have "list_all plain_tag (eb_tags (en_body login_entry))" by code_simp
  ultimately show ?thesis
    by (simp add: plain_entry_def) (simp add: login_entry_def hwf_def field_or_empty_def en_get_def f_title_def, code_simp)
qed


section \<open>Where the form changes an entry nobody edited\<close>

text \<open>A tag with a space is two tags after the form was saved unchanged.\<close>

lemma form_splits_tag:
  "map_sum id ev_tags (form_snapshot ascii (from_entry ascii 7 (map_body (\<lambda>b. b\<lparr>eb_tags := [''my bank'']\<rparr>) login_entry)))
   = Inr [''my'', ''bank'']"
  by code_simp

text \<open>A custom row named like a standard field is accepted. It is written last, so the password of the form is lost
  and the field is not protected.\<close>

lemma custom_row_replaces_password:
  assumes "last_row = \<lparr>cf_name = f_password, cf_value = x, cf_protected = False\<rparr>" "ev_custom v = [last_row]" "ev_removed v = []"
  shows "hget (eb_fields (fold (view_edit now) (update_ops v) b)) f_password = Some (Unprotected x)"
  using assms by (simp add: update_ops_def field_edits)

lemma custom_row_password_accepted: "\<not> is_otp_field ascii f_password"
  by code_simp

end
