(* ===== verification/Overlays.thy ===== *)
theory Overlays
  imports EditForm
begin

text \<open>
  The modal overlays of the terminal interface besides the edit form (\<open>falach-tui/src/overlay\<close>): the search modal
  with its preview (\<open>search.rs\<close>), the command palette (\<open>palette.rs\<close>), the history viewer (\<open>history.rs\<close>), the pickers
  of the bulk operations (\<open>bulk.rs\<close>) and the form of the sync target (\<open>sync_config.rs\<close>). What a text looks like on the
  screen is a list of code points; styles are flags. The format of a time is a parameter.
\<close>

section \<open>Search: state and selection\<close>

datatype pane = TreePane | DetailPane

record saved_view =
  sv_selected :: "uuid option"
  sv_focus :: pane
  sv_scroll :: nat

record search_row =
  sw_uuid :: uuid
  sw_title :: string
  sw_username :: string
  sw_url_host :: string
  sw_tags :: string
  sw_indices :: "nat list"

record search_state =
  ss_input :: line_input
  ss_results :: "search_row list"
  ss_selected :: nat
  ss_scroll :: nat
  ss_scope :: search_scope
  ss_saved :: saved_view

definition search_new :: "search_scope \<Rightarrow> saved_view \<Rightarrow> search_state" where
  "search_new scope saved = \<lparr>ss_input = li_default, ss_results = [], ss_selected = 0, ss_scroll = 0, ss_scope = scope,
     ss_saved = saved\<rparr>"

definition clamp_selection :: "search_state \<Rightarrow> search_state" where
  "clamp_selection s =
     (if ss_results s = [] then s\<lparr>ss_selected := 0, ss_scroll := 0\<rparr>
      else (let sel = min (ss_selected s) (length (ss_results s) - 1)
            in s\<lparr>ss_selected := sel, ss_scroll := min (ss_scroll s) sel\<rparr>))"

definition set_results :: "search_row list \<Rightarrow> search_state \<Rightarrow> search_state" where
  "set_results rows s = clamp_selection (s\<lparr>ss_results := rows\<rparr>)"

definition search_next :: "search_state \<Rightarrow> search_state" where
  "search_next s = (if ss_results s = [] then s else s\<lparr>ss_selected := min (ss_selected s + 1) (length (ss_results s) - 1)\<rparr>)"

definition search_prev :: "search_state \<Rightarrow> search_state" where
  "search_prev s = s\<lparr>ss_selected := ss_selected s - 1\<rparr>"

definition ensure_selected_visible :: "nat \<Rightarrow> search_state \<Rightarrow> search_state" where
  "ensure_selected_visible viewport s =
     s\<lparr>ss_scroll := (if ss_selected s < ss_scroll s then ss_selected s
        else if 0 < viewport \<and> ss_scroll s + viewport \<le> ss_selected s then ss_selected s + 1 - viewport
        else ss_scroll s)\<rparr>"

definition nth_opt :: "'a list \<Rightarrow> nat \<Rightarrow> 'a option" where
  "nth_opt xs i = (if i < length xs then Some (xs ! i) else None)"

definition search_selected_uuid :: "search_state \<Rightarrow> uuid option" where
  "search_selected_uuid s = map_option sw_uuid (nth_opt (ss_results s) (ss_selected s))"

definition quick_select_uuid :: "nat \<Rightarrow> search_state \<Rightarrow> uuid option" where
  "quick_select_uuid n s = (if n = 0 then None else map_option sw_uuid (nth_opt (ss_results s) (ss_scroll s + n - 1)))"

text \<open>The number shown in front of a row (\<open>result_line\<close>).\<close>

definition quick_label :: "nat \<Rightarrow> nat \<Rightarrow> nat option" where
  "quick_label offset i = (if offset \<le> i \<and> i - offset < 9 then Some (i - offset + 1) else None)"

lemma quick_select_label:
  "i < length (ss_results s) \<Longrightarrow> quick_label (ss_scroll s) i = Some n \<Longrightarrow>
   quick_select_uuid n s = Some (sw_uuid (ss_results s ! i)) \<and> 1 \<le> n \<and> n \<le> 9"
  by (auto simp: quick_label_def quick_select_uuid_def nth_opt_def split: if_splits)

lemma min_last [simp]: "xs \<noteq> [] \<Longrightarrow> min n (length xs - Suc 0) < length xs"
  by (cases xs) auto

definition search_ok :: "search_state \<Rightarrow> bool" where
  "search_ok s = (if ss_results s = [] then ss_selected s = 0 else ss_selected s < length (ss_results s))"

lemma search_moves_ok:
  "search_ok (set_results rows s)" "search_ok s \<Longrightarrow> search_ok (search_next s)" "search_ok s \<Longrightarrow> search_ok (search_prev s)"
  by (auto simp: search_ok_def set_results_def clamp_selection_def search_next_def search_prev_def Let_def min_last)

lemma selected_is_visible:
  assumes "0 < v"
  shows "let t = ensure_selected_visible v s in ss_scroll t \<le> ss_selected t \<and> ss_selected t < ss_scroll t + v"
  using assms by (auto simp: ensure_selected_visible_def Let_def)

section \<open>Search: geometry and labels\<close>

definition SEARCH_MIN_WIDTH :: "16 word" where "SEARCH_MIN_WIDTH = 60"
definition SEARCH_MIN_HEIGHT :: "16 word" where "SEARCH_MIN_HEIGHT = 16"
definition PREVIEW_MIN_WIDTH :: "16 word" where "PREVIEW_MIN_WIDTH = 70"

record screen_rect =
  rx :: "16 word"
  ry :: "16 word"
  rw :: "16 word"
  rh :: "16 word"

text \<open>The modal and whether the preview is shown; the areas inside the modal are the layout library's. The arithmetic
  is that of \<open>u16\<close> and wraps.\<close>

definition search_layout :: "screen_rect \<Rightarrow> (screen_rect \<times> bool) option" where
  "search_layout t =
     (if rw t < SEARCH_MIN_WIDTH \<or> rh t < SEARCH_MIN_HEIGHT then None
      else (let w = min (max (rw t * 4 div 5) SEARCH_MIN_WIDTH) (rw t);
                h = min (max (rh t * 7 div 10) SEARCH_MIN_HEIGHT) (rh t)
            in Some (\<lparr>rx = rx t + (rw t - w) div 2, ry = ry t + (rh t - h) div 2, rw = w, rh = h\<rparr>, PREVIEW_MIN_WIDTH \<le> w)))"

definition ellipsis :: nat where "ellipsis = 0x2026"

definition truncate16 :: "codepoints \<Rightarrow> codepoints" where
  "truncate16 s = (if length s \<le> 16 then s else take 7 s @ [ellipsis] @ drop (length s - 8) s)"

definition scope_label :: "(uuid \<Rightarrow> string) \<Rightarrow> search_scope \<Rightarrow> codepoints" where
  "scope_label group_name scope = (case scope of
     ScopeAll \<Rightarrow> cps ''[ALL]''
   | GroupSubtree u \<Rightarrow> cps ''[GROUP:'' @ truncate16 (cps (group_name u)) @ cps '']''
   | ScopeTag t \<Rightarrow> cps ''[TAG:'' @ truncate16 (cps t) @ cps '']'')"

lemma truncate16_length: "length (truncate16 s) \<le> 16"
  by (simp add: truncate16_def)

definition url_host :: "string \<Rightarrow> string" where
  "url_host url = (let rest = (case split_once ''://'' url of None \<Rightarrow> url | Some (_, r) \<Rightarrow> r) in hd (split_on CHR ''/'' rest))"

text \<open>The window of \<open>max_chars\<close> around the matched characters, with the positions of the matches in it.\<close>

definition truncate_around_match :: "'a \<Rightarrow> 'a list \<Rightarrow> nat list \<Rightarrow> nat \<Rightarrow> 'a list \<times> nat list" where
  "truncate_around_match dots text indices max_chars =
     (if length text \<le> max_chars \<or> max_chars < 3 then (text, indices)
      else
        let matched_start = min (if indices = [] then 0 else Min (set indices)) (length text - 1);
            matched_end = min (if indices = [] then matched_start else Max (set indices)) (length text - 1);
            window = min (max_chars - 2) (length text);
            mid = matched_start + (matched_end - matched_start) div 2;
            start = min (mid - window div 2) (length text - window);
            stop = start + window;
            prefix = (if 0 < start then 1 else 0)
        in ((if 0 < start then [dots] else []) @ take window (drop start text) @ (if stop < length text then [dots] else []),
            map (\<lambda>i. i - start + prefix) (filter (\<lambda>i. start \<le> i \<and> i < stop) indices)))"

text \<open>A truncated title fits, and what is highlighted in it are matched characters of the title.\<close>

lemma framed:
  "length m \<le> n - 2 \<Longrightarrow> 3 \<le> n \<Longrightarrow> length ((if a then [d] else []) @ m @ (if b then [d] else [])) \<le> n"
  "k < length m \<Longrightarrow> k + (if a then 1 else 0) < length ((if a then [d] else []) @ m @ r)
     \<and> ((if a then [d] else []) @ m @ r) ! (k + (if a then 1 else 0)) = m ! k"
  by (auto simp: nth_append)

lemma truncate_cases:
  assumes "\<not> (length text \<le> max_chars \<or> max_chars < 3)"
  defines "window \<equiv> min (max_chars - 2) (length text)"
  shows "\<exists>start \<le> length text - window. truncate_around_match dots text indices max_chars =
    ((if 0 < start then [dots] else []) @ take window (drop start text) @ (if start + window < length text then [dots] else []),
     map (\<lambda>i. i - start + (if 0 < start then 1 else 0)) (filter (\<lambda>i. start \<le> i \<and> i < start + window) indices))"
  unfolding truncate_around_match_def Let_def window_def if_not_P [OF assms(1)] by (intro exI conjI, rule min.cobounded2, rule refl)

lemma truncate_around_match_fits:
  assumes "3 \<le> max_chars"
  shows "length (fst (truncate_around_match dots text indices max_chars)) \<le> max_chars"
proof (cases "length text \<le> max_chars \<or> max_chars < 3")
  case False
  obtain start where "fst (truncate_around_match dots text indices max_chars) = (if 0 < start then [dots] else [])
      @ take (min (max_chars - 2) (length text)) (drop start text)
      @ (if start + min (max_chars - 2) (length text) < length text then [dots] else [])"
    using truncate_cases [OF False, of dots indices] by auto
  moreover have "length (take (min (max_chars - 2) (length text)) (drop start text)) \<le> max_chars - 2" by simp
  ultimately show ?thesis using assms framed(1) by metis
qed (use assms in \<open>auto simp: truncate_around_match_def\<close>)

lemma truncate_around_match_indices:
  assumes "truncate_around_match dots text indices max_chars = (seen, adjusted)" "j \<in> set adjusted"
    "\<forall>i\<in>set indices. i < length text"
  shows "\<exists>i\<in>set indices. j < length seen \<and> seen ! j = text ! i"
proof (cases "length text \<le> max_chars \<or> max_chars < 3")
  case True
  with assms show ?thesis by (auto simp: truncate_around_match_def)
next
  case False
  define window where "window = min (max_chars - 2) (length text)"
  obtain start where s: "start \<le> length text - window"
      "seen = (if 0 < start then [dots] else []) @ take window (drop start text) @ (if start + window < length text then [dots] else [])"
      "adjusted = map (\<lambda>i. i - start + (if 0 < start then 1 else 0)) (filter (\<lambda>i. start \<le> i \<and> i < start + window) indices)"
    using truncate_cases [OF False, of dots indices] assms(1) unfolding window_def by auto
  from assms(2) s(3) obtain i where i: "i \<in> set indices" "start \<le> i" "i < start + window" "j = i - start + (if 0 < start then 1 else 0)"
    by auto
  have "window \<le> length text" by (simp add: window_def)
  with s(1) have "start + window \<le> length text" by linarith
  then have mid: "length (take window (drop start text)) = window" "take window (drop start text) ! (i - start) = text ! i"
    using i by simp_all
  have "i - start < length (take window (drop start text))" unfolding mid(1) using i by linarith
  from framed(2) [OF this, of "0 < start" dots] have "j < length seen \<and> seen ! j = text ! i"
    unfolding s(2) i(4) mid(2) by blast
  with i(1) show ?thesis by blast
qed

text \<open>The spans of a text, a match flag each.\<close>

fun highlight_loop :: "nat set \<Rightarrow> nat \<Rightarrow> 'a list \<Rightarrow> bool \<Rightarrow> 'a list \<Rightarrow> ('a list \<times> bool) list" where
  "highlight_loop hl i buf flag [] = (if buf = [] then [] else [(buf, flag)])"
| "highlight_loop hl i buf flag (c # cs) =
     (if (i \<in> hl) \<noteq> flag \<and> buf \<noteq> [] then (buf, flag) # highlight_loop hl (i + 1) [c] (i \<in> hl) cs
      else highlight_loop hl (i + 1) (buf @ [c]) (i \<in> hl) cs)"

definition highlight :: "'a list \<Rightarrow> nat list \<Rightarrow> ('a list \<times> bool) list" where
  "highlight text indices = (if indices = [] then [(text, False)] else highlight_loop (set indices) 0 [] False text)"

definition flat_spans :: "('a list \<times> bool) list \<Rightarrow> ('a \<times> bool) list" where
  "flat_spans spans = concat (map (\<lambda>(t, f). map (\<lambda>c. (c, f)) t) spans)"

lemma highlight_loop_flat:
  "flat_spans (highlight_loop hl i buf flag cs) = map (\<lambda>c. (c, flag)) buf @ map (\<lambda>(j, c). (c, j \<in> hl)) (zip [i..<i + length cs] cs)"
proof (induction hl i buf flag cs rule: highlight_loop.induct)
  case (2 hl i buf flag c cs)
  have "[i..<i + length (c # cs)] = i # [i + 1..<i + 1 + length cs]" by (simp add: upt_rec)
  with 2 show ?case by (auto simp: flat_spans_def)
qed (simp add: flat_spans_def)

text \<open>The spans are the text, and a character is highlighted exactly when its position is a match.\<close>

lemma highlight_exact: "flat_spans (highlight text indices) = map (\<lambda>(j, c). (c, j \<in> set indices)) (zip [0..<length text] text)"
proof (cases "indices = []")
  case True
  have "map (\<lambda>c. (c, False)) text = map (\<lambda>(j, c). (c, False)) (zip [0..<length text] text)"
    by (intro nth_equalityI) auto
  with True show ?thesis by (simp add: highlight_def flat_spans_def)
qed (simp add: highlight_def highlight_loop_flat [of _ 0 "[]"])

section \<open>Search: rows and preview\<close>

text \<open>\<open>str::lines\<close> counts a final line only when it is not empty.\<close>

definition line_count :: "string \<Rightarrow> nat" where
  "line_count s = (let ls = split_on CHR 0x0A s in if last ls = [] then length ls - 1 else length ls)"

definition build_preview ::
    "(bytes \<Rightarrow> bytes) \<Rightarrow> (time \<Rightarrow> string) \<Rightarrow> 'x db \<Rightarrow> uuid \<Rightarrow> 'x entry \<Rightarrow> (string \<times> string) list option" where
  "build_preview sha fmt db u e = (case list_attachments sha u db of Inl _ \<Rightarrow> None | Inr attachments \<Rightarrow> Some (
     [(''Title'', field_or_empty f_title e)]
     @ (if field_or_empty f_username e = [] then [] else [(''Username'', field_or_empty f_username e)])
     @ (if field_or_empty f_url e = [] then [] else [(''URL'', field_or_empty f_url e)])
     @ (let tags = tags_from_entry (eb_tags (en_body e)) in if tags = [] then [] else [(''Tags'', join '', '' tags)])
     @ (case tm_last_modification (eb_times (en_body e)) of None \<Rightarrow> [] | Some t \<Rightarrow> [(''Modified'', fmt t)])
     @ (if attachments = [] then [] else [(''Attachments'', show_nat (length attachments))])
     @ (if view_kind e = TotpEntry then [(''TOTP'', ''configured'')] else [])
     @ (let notes = field_or_empty f_notes e in
        if notes = [] then [] else [(''Notes'', show_nat (line_count notes) @ '' line(s)'')])))"

definition build_search_row :: "'x db \<Rightarrow> search_result \<Rightarrow> search_row" where
  "build_search_row db r = (let idx = (case hget (sr_indices r) Search.FieldTitle of None \<Rightarrow> [] | Some is \<Rightarrow> is) in
     case get_entry (sr_uuid r) db of
       Inl _ \<Rightarrow> \<lparr>sw_uuid = sr_uuid r, sw_title = ''(missing)'', sw_username = [], sw_url_host = [], sw_tags = [], sw_indices = idx\<rparr>
     | Inr e \<Rightarrow> \<lparr>sw_uuid = sr_uuid r, sw_title = field_or_empty f_title e, sw_username = field_or_empty f_username e,
         sw_url_host = url_host (field_or_empty f_url e), sw_tags = join '', '' (tags_from_entry (eb_tags (en_body e))), sw_indices = idx\<rparr>)"

text \<open>What may be shown of an entry: its title, user name, URL, tags and modification time, whether it has a one-time
  password, how many lines its notes have, and its attachments by name and index.\<close>

definition same_public :: "'x entry \<Rightarrow> 'x entry \<Rightarrow> bool" where
  "same_public e e' =
     ((\<forall>k\<in>{f_title, f_username, f_url}. field_or_empty k e' = field_or_empty k e)
      \<and> eb_tags (en_body e') = eb_tags (en_body e)
      \<and> tm_last_modification (eb_times (en_body e')) = tm_last_modification (eb_times (en_body e))
      \<and> eb_attachments (en_body e') = eb_attachments (en_body e)
      \<and> (en_get f_otp e' = None) = (en_get f_otp e = None)
      \<and> (field_or_empty f_notes e' = []) = (field_or_empty f_notes e = [])
      \<and> line_count (field_or_empty f_notes e') = line_count (field_or_empty f_notes e))"

lemma kind_totp: "(view_kind e = TotpEntry) = (en_get f_otp e \<noteq> None)"
  by (simp add: view_kind_def)

text \<open>C39: The preview pane and the result row of an entry do not depend on its secrets. Replacing the entry by any
  other with the same title, user name, URL, tags, modification time, attachments and number of note lines, and with a
  one-time password exactly when the other has one - whatever the password, the secret of the one-time password, the
  protected and custom fields and the text of the notes are - gives the same preview and the same row.\<close>

theorem preview_hides_secrets:
  assumes "entry_at db u = Some e" "same_public e e'" "sr_uuid r = u"
  shows "build_preview sha fmt (edit_entry u (\<lambda>_. e') db) u e' = build_preview sha fmt db u e
    \<and> build_search_row (edit_entry u (\<lambda>_. e') db) r = build_search_row db r"
proof -
  have "list_attachments sha u (edit_entry u (\<lambda>_. e') db) = list_attachments sha u db"
    using assms by (simp add: list_attachments_def same_public_def)
  then have "build_preview sha fmt (edit_entry u (\<lambda>_. e') db) u e' = build_preview sha fmt db u e"
    using assms(2) by (cases "list_attachments sha u db") (simp_all add: build_preview_def kind_totp same_public_def Let_def)
  moreover have "build_search_row (edit_entry u (\<lambda>_. e') db) r = build_search_row db r"
    using assms by (simp add: build_search_row_def get_entry_def same_public_def)
  ultimately show ?thesis ..
qed

lemma preview_hides_secrets_witness:
  "build_preview id (\<lambda>_. []) (edit_entry 7 (\<lambda>_. map_body (set_protected f_password ''secret'') login_entry) login_db) 7
     (map_body (set_protected f_password ''secret'') login_entry) = build_preview id (\<lambda>_. []) login_db 7 login_entry"
proof -
  have "entry_at login_db 7 = Some login_entry" by (simp add: login_db_def)
  moreover have "same_public login_entry (map_body (set_protected f_password ''secret'') login_entry)"
    by (simp add: same_public_def field_or_empty_def en_get_def set_protected_def body_set_def f_password_def f_title_def
        f_username_def f_url_def f_otp_def f_notes_def)
  moreover have "sr_uuid (browse_hit 7) = 7" by (simp add: browse_hit_def)
  ultimately show ?thesis using preview_hides_secrets by blast
qed

section \<open>The history viewer\<close>

record history_snapshot =
  hs_modified :: string
  hs_title :: string
  hs_username :: string
  hs_url :: string
  hs_notes :: string
  hs_has_password :: bool

record history_state =
  hy_title :: string
  hy_snapshots :: "history_snapshot list"
  hy_selected :: nat

definition snapshot_of :: "(time \<Rightarrow> string) \<Rightarrow> 'x entry \<Rightarrow> history_snapshot" where
  "snapshot_of fmt v = \<lparr>hs_modified = (case tm_last_modification (eb_times (en_body v)) of None \<Rightarrow> ''(unknown)'' | Some t \<Rightarrow> fmt t),
     hs_title = field_or_empty f_title v, hs_username = field_or_empty f_username v, hs_url = field_or_empty f_url v,
     hs_notes = field_or_empty f_notes v, hs_has_password = (field_or_empty f_password v \<noteq> [])\<rparr>"

definition from_views :: "(time \<Rightarrow> string) \<Rightarrow> string \<Rightarrow> 'x entry list \<Rightarrow> history_state" where
  "from_views fmt title views = \<lparr>hy_title = title, hy_snapshots = rev (map (snapshot_of fmt) views), hy_selected = 0\<rparr>"

definition history_next :: "history_state \<Rightarrow> history_state" where
  "history_next h = (if hy_snapshots h = [] then h else h\<lparr>hy_selected := min (hy_selected h + 1) (length (hy_snapshots h) - 1)\<rparr>)"

definition history_prev :: "history_state \<Rightarrow> history_state" where
  "history_prev h = h\<lparr>hy_selected := hy_selected h - 1\<rparr>"

definition history_ok :: "history_state \<Rightarrow> bool" where
  "history_ok h = (hy_snapshots h = [] \<or> hy_selected h < length (hy_snapshots h))"

lemma history_moves_ok:
  "history_ok (from_views fmt t vs)" "history_ok h \<Longrightarrow> history_ok (history_next h)" "history_ok h \<Longrightarrow> history_ok (history_prev h)"
  by (auto simp: history_ok_def from_views_def history_next_def history_prev_def)

text \<open>The history of an entry is kept newest first, so the viewer, which reverses it, shows the version an update has
  just recorded last.\<close>

lemma newest_version_shown_last:
  "hy_snapshots (from_views fmt title (view_history (push_history old e))) =
   hy_snapshots (from_views fmt title (view_history e)) @ [snapshot_of fmt (Entry (en_body old) None)]"
  by (simp add: from_views_def view_history_def push_history_def history_add_def split: option.split)

section \<open>Pickers of the bulk operations\<close>

datatype tag_action = TagAdd | TagRemove

record group_picker =
  gp_groups :: "(uuid \<times> string) list"
  gp_selected :: nat
  gp_count :: nat

definition picker_new :: "(uuid \<times> string) list \<Rightarrow> nat \<Rightarrow> group_picker" where
  "picker_new groups n = \<lparr>gp_groups = groups, gp_selected = 0, gp_count = n\<rparr>"

definition picker_next :: "group_picker \<Rightarrow> group_picker" where
  "picker_next p = (if gp_groups p = [] then p else p\<lparr>gp_selected := min (gp_selected p + 1) (length (gp_groups p) - 1)\<rparr>)"

definition picker_prev :: "group_picker \<Rightarrow> group_picker" where
  "picker_prev p = p\<lparr>gp_selected := gp_selected p - 1\<rparr>"

definition picker_uuid :: "group_picker \<Rightarrow> uuid option" where
  "picker_uuid p = map_option fst (nth_opt (gp_groups p) (gp_selected p))"

record tag_input =
  ti_input :: line_input
  ti_action :: tag_action
  ti_count :: nat

definition tag_input_new :: "tag_action \<Rightarrow> nat \<Rightarrow> tag_input" where
  "tag_input_new a n = \<lparr>ti_input = li_default, ti_action = a, ti_count = n\<rparr>"

text \<open>The destinations of a bulk move (\<open>walk_group_choices\<close> of \<open>app.rs\<close>): every group in depth-first order with
  its name indented, but not the recycle bin. \<open>None\<close> when the recursion does not return.\<close>

partial_function (option) walk_group_choices ::
    "unicode \<Rightarrow> 'x db \<Rightarrow> uuid option \<Rightarrow> nat \<Rightarrow> uuid \<Rightarrow> (uuid \<times> string) list option" where
  "walk_group_choices U db recycle depth g =
     (if recycle = Some g then Some []
      else (case group_at db g of
        None \<Rightarrow> Some []
      | Some gr \<Rightarrow> Option.bind
          (option_all (\<lambda>c. walk_group_choices U db recycle (depth + 1) c)
            (sort_key (\<lambda>c. case group_at db c of None \<Rightarrow> [] | Some x \<Rightarrow> u_str_lower U (gr_name x)) (child_group_uuids gr)))
          (\<lambda>rest. Some ((g, concat (replicate depth ''  '') @ gr_name gr) # concat rest))))"

definition collect_group_choices :: "unicode \<Rightarrow> 'x db \<Rightarrow> (uuid \<times> string) list option" where
  "collect_group_choices U db = walk_group_choices U db (recycle_bin db) 0 (db_root db)"

section \<open>The form of the sync target\<close>

datatype sync_field = SfEndpoint | SfRegion | SfBucket | SfKey | SfPathStyle | SfAccessKeyId | SfSecret | SfMaster

definition SYNC_FIELDS :: "sync_field list" where
  "SYNC_FIELDS = [SfEndpoint, SfRegion, SfBucket, SfKey, SfPathStyle, SfAccessKeyId, SfSecret, SfMaster]"

datatype 'e sync_form_error = FieldsRequired | SecretRequired | MasterRequired | NoVaultSelected | EncryptFailed 'e
  | RegistryUnavailable | ConfigureFailed 'e

record 'e sync_config_state =
  sf_endpoint :: line_input
  sf_region :: line_input
  sf_bucket :: line_input
  sf_key :: line_input
  sf_path_style :: bool
  sf_access_key_id :: line_input
  sf_secret :: password_input
  sf_master :: password_input
  sf_focus :: nat
  sf_error :: "'e sync_form_error option"

definition sync_form_new :: "'e sync_config_state" where
  "sync_form_new = \<lparr>sf_endpoint = li_default, sf_region = li_default, sf_bucket = li_default, sf_key = li_default,
     sf_path_style = False, sf_access_key_id = li_default, sf_secret = pi_new, sf_master = pi_new, sf_focus = 0, sf_error = None\<rparr>"

definition sync_focused :: "'e sync_config_state \<Rightarrow> sync_field" where
  "sync_focused s = SYNC_FIELDS ! min (sf_focus s) (length SYNC_FIELDS - 1)"

definition sync_focus_next :: "'e sync_config_state \<Rightarrow> 'e sync_config_state" where
  "sync_focus_next s = s\<lparr>sf_focus := (sf_focus s + 1) mod length SYNC_FIELDS\<rparr>"

definition sync_focus_prev :: "'e sync_config_state \<Rightarrow> 'e sync_config_state" where
  "sync_focus_prev s = s\<lparr>sf_focus := (sf_focus s + length SYNC_FIELDS - 1) mod length SYNC_FIELDS\<rparr>"

definition sync_field_key :: "word_bounds \<Rightarrow> key_event \<Rightarrow> 'e sync_config_state \<Rightarrow> 'e sync_config_state option" where
  "sync_field_key W k s = (case sync_focused s of
     SfEndpoint \<Rightarrow> Some (s\<lparr>sf_endpoint := feed_input W k (sf_endpoint s)\<rparr>)
   | SfRegion \<Rightarrow> Some (s\<lparr>sf_region := feed_input W k (sf_region s)\<rparr>)
   | SfBucket \<Rightarrow> Some (s\<lparr>sf_bucket := feed_input W k (sf_bucket s)\<rparr>)
   | SfKey \<Rightarrow> Some (s\<lparr>sf_key := feed_input W k (sf_key s)\<rparr>)
   | SfPathStyle \<Rightarrow> Some (if ke_code k = KChar CHR '' '' then s\<lparr>sf_path_style := \<not> sf_path_style s\<rparr> else s)
   | SfAccessKeyId \<Rightarrow> Some (s\<lparr>sf_access_key_id := feed_input W k (sf_access_key_id s)\<rparr>)
   | SfSecret \<Rightarrow> map_option (\<lambda>p. s\<lparr>sf_secret := p\<rparr>) (pi_feed k (sf_secret s))
   | SfMaster \<Rightarrow> map_option (\<lambda>p. s\<lparr>sf_master := p\<rparr>) (pi_feed k (sf_master s)))"

section \<open>The palette\<close>

record palette_state =
  pl_input :: line_input
  pl_selected :: nat
  pl_underlying :: contexts

definition palette_new :: "contexts \<Rightarrow> palette_state" where
  "palette_new ctx = \<lparr>pl_input = li_default, pl_selected = 0, pl_underlying = ctx\<rparr>"

definition palette_filter :: "palette_state \<Rightarrow> string" where
  "palette_filter p = li_value (pl_input p)"

record palette_row =
  pr_spec :: command_spec
  pr_state :: cmd_state
  pr_keys :: string
  pr_indices :: "nat list"

definition palette_row_state :: "(command \<Rightarrow> cmd_state) \<Rightarrow> contexts \<Rightarrow> command_spec \<Rightarrow> cmd_state" where
  "palette_row_state st underlying spec = (if \<not> ctx_contains (cs_contexts spec) underlying then cmd_state.Disabled else st (cs_id spec))"

definition score_row :: "unicode \<Rightarrow> string \<Rightarrow> command_spec \<Rightarrow> (int \<times> nat list) option" where
  "score_row U flt spec = (case fuzzy_match_terms U flt (cs_desc spec) of
     Some m \<Rightarrow> Some (fm_score m, fm_indices m)
   | None \<Rightarrow> map_option (\<lambda>m. (fm_score m, [])) (fuzzy_match_terms U flt (cs_name spec)))"

definition spec_place :: "command_spec \<Rightarrow> nat \<times> nat" where
  "spec_place spec = (group_rank (cs_group spec), cs_order spec)"

text \<open>The enabled test of a command and its keys as text are arguments.\<close>

definition build_palette_rows ::
    "unicode \<Rightarrow> (command \<Rightarrow> cmd_state) \<Rightarrow> (command \<Rightarrow> string option) \<Rightarrow> contexts \<Rightarrow> string \<Rightarrow> palette_row list" where
  "build_palette_rows U st keys underlying flt0 =
     (let flt = trim flt0;
          specs = filter (\<lambda>s. palette_row_state st underlying s \<noteq> cmd_state.Hidden) COMMANDS;
          scored = (if flt = [] then sort_key (\<lambda>(_, s, _). spec_place s) (map (\<lambda>s. (0, s, [])) specs)
            else sort_key (\<lambda>(score, s, _). (- score, spec_place s))
              (List.map_filter (\<lambda>s. map_option (\<lambda>(score, is). (score, s, is)) (score_row U flt s)) specs))
      in map (\<lambda>(_, s, is). \<lparr>pr_spec = s, pr_state = palette_row_state st underlying s,
           pr_keys = (case keys (cs_id s) of None \<Rightarrow> [] | Some x \<Rightarrow> x), pr_indices = is\<rparr>) scored)"

text \<open>The display line of every command row: one header line per group when unfiltered.\<close>

fun display_lines_from :: "bool \<Rightarrow> nat \<Rightarrow> group_name option \<Rightarrow> nat \<Rightarrow> palette_row list \<Rightarrow> (nat \<times> nat) list" where
  "display_lines_from unfiltered line prev_group i [] = []"
| "display_lines_from unfiltered line prev_group i (r # rs) =
     (let g = Some (cs_group (pr_spec r))
      in if unfiltered \<and> g \<noteq> prev_group then (i, line + 1) # display_lines_from unfiltered (line + 2) g (i + 1) rs
         else (i, line) # display_lines_from unfiltered (line + 1) prev_group (i + 1) rs)"

definition command_display_lines :: "palette_row list \<Rightarrow> bool \<Rightarrow> (nat \<times> nat) list" where
  "command_display_lines rows unfiltered = display_lines_from unfiltered 0 None 0 rows"

fun selected_line_from :: "nat \<Rightarrow> group_name option \<Rightarrow> nat \<Rightarrow> nat \<Rightarrow> palette_row list \<Rightarrow> nat" where
  "selected_line_from line prev_group i selected [] = line"
| "selected_line_from line prev_group i selected (r # rs) =
     (let g = Some (cs_group (pr_spec r)); line' = (if g \<noteq> prev_group then line + 1 else line)
      in if i = selected then line' else selected_line_from (line' + 1) g (i + 1) selected rs)"

definition selected_display_line :: "palette_row list \<Rightarrow> nat \<Rightarrow> bool \<Rightarrow> nat" where
  "selected_display_line rows selected unfiltered =
     (if unfiltered then selected_line_from 0 None 0 selected rows else selected)"

lemma display_lines_fst: "map fst (display_lines_from uf line prev_group i rows) = [i..<i + length rows]"
  by (induction uf line prev_group i rows rule: display_lines_from.induct) (auto simp: Let_def upt_rec)

text \<open>The line a click is matched with is the line the selection scrolls to.\<close>

lemma selected_line_agrees:
  "k < length rows \<Longrightarrow> selected_line_from line prev_group i (i + k) rows = snd (display_lines_from True line prev_group i rows ! k)"
proof (induction rows arbitrary: line prev_group i k)
  case (Cons r rows)
  show ?case
  proof (cases k)
    case (Suc n)
    with Cons.prems have "n < length rows" by simp
    from Cons.IH [OF this, of _ _ "Suc i"] Suc show ?thesis by (auto simp: Let_def)
  qed (auto simp: Let_def)
qed simp

lemma display_lines_filtered: "display_lines_from False line prev_group i rows = zip [i..<i + length rows] [line..<line + length rows]"
proof (induction rows arbitrary: line i)
  case (Cons r rows)
  have "[i..<i + length (r # rows)] = i # [i + 1..<i + 1 + length rows]"
    "[line..<line + length (r # rows)] = line # [line + 1..<line + 1 + length rows]" by (simp_all add: upt_rec)
  with Cons show ?case by (simp add: Let_def)
qed simp

lemma palette_lines_agree:
  "k < length rows \<Longrightarrow> selected_display_line rows k uf = snd (command_display_lines rows uf ! k)"
  using selected_line_agrees [of k rows 0 None 0]
  by (cases uf) (simp_all add: selected_display_line_def command_display_lines_def display_lines_filtered)

text \<open>The unfiltered palette lists every command that is not hidden, once, by group and place.\<close>

lemma palette_unfiltered:
  assumes "trim flt = []"
  shows "map pr_spec (build_palette_rows U st keys ctx flt) = sort_key spec_place (filter (\<lambda>s. palette_row_state st ctx s \<noteq> cmd_state.Hidden) COMMANDS)"
proof -
  have "map (\<lambda>(_, s, _). s) (sort_key (\<lambda>(_, s, _). spec_place s) (map (\<lambda>s. (0 :: int, s, [] :: nat list)) xs)) = sort_key spec_place xs" for xs
  proof (induction xs)
    case (Cons x xs)
    have ins: "map (\<lambda>(_, s, _). s) (insort_key (\<lambda>(_, s, _). spec_place s) (0 :: int, y, [] :: nat list) zs) =
        insort_key spec_place y (map (\<lambda>(_, s, _). s) zs)" for y zs
      by (induction zs) auto
    show ?case using Cons by (simp add: ins)
  qed simp
  then show ?thesis using assms by (simp add: build_palette_rows_def Let_def comp_def split_def)
qed

text \<open>A row that runs is enabled in the context below the palette.\<close>

lemma palette_enabled:
  "r \<in> set (build_palette_rows U st keys ctx flt) \<Longrightarrow> pr_state r = cmd_state.Enabled \<Longrightarrow>
   ctx_contains (cs_contexts (pr_spec r)) ctx \<and> st (cs_id (pr_spec r)) = cmd_state.Enabled"
  by (auto simp: build_palette_rows_def Let_def palette_row_state_def split: if_splits)

end
