(* ===== verification/Settings.thy ===== *)
theory Settings
  imports Registry Keymap EntryTree Credentials
begin

text \<open>
  The two configuration files of the terminal interface: the preferences of \<open>config.toml\<close>
  (\<open>falach-tui/src/user_config.rs\<close>), which every change reloads under a lock, and the pins and recents of
  \<open>tui.toml\<close> (\<open>falach-tui/src/config.rs\<close>). TOML parsing and printing, derived by serde, are the codecs
  \<open>prefs_codec\<close> and \<open>ui_codec\<close>: they work on file contents, and a failed parse carries the start of its span.
\<close>

section \<open>Preferences\<close>

datatype theme_mode = ThemeAuto | ThemeDark | ThemeLight

datatype enter_action = EnterCopy | EnterOpen

record behavior_cfg =
  bc_default_sort :: sort_order
  bc_sync_on_unlock :: bool
  bc_sync_on_lock_quit :: bool
  bc_confirm_quit :: bool

record theme_cfg =
  tc_dark :: string
  tc_light :: string
  tc_mode :: theme_mode

record search_cfg =
  sc_default_scope :: string
  sc_enter_action :: enter_action

record layout_cfg =
  lc_tree_ratio :: u8

record user_config =
  uc_mouse :: bool
  uc_behavior :: behavior_cfg
  uc_keymap :: keymap_patch
  uc_theme :: theme_cfg
  uc_search :: search_cfg
  uc_layout :: layout_cfg

definition TREE_RATIO_MIN :: u8 where "TREE_RATIO_MIN = 20"
definition TREE_RATIO_MAX :: u8 where "TREE_RATIO_MAX = 60"

definition default_search_scope :: string where "default_search_scope = ''all''"

definition behavior_default :: behavior_cfg where
  "behavior_default = \<lparr>bc_default_sort = RecentlyUsed, bc_sync_on_unlock = False, bc_sync_on_lock_quit = False,
     bc_confirm_quit = False\<rparr>"

definition theme_default :: theme_cfg where
  "theme_default = \<lparr>tc_dark = ''default-dark'', tc_light = ''default-light'', tc_mode = ThemeAuto\<rparr>"

definition search_default :: search_cfg where
  "search_default = \<lparr>sc_default_scope = default_search_scope, sc_enter_action = EnterCopy\<rparr>"

definition layout_default :: layout_cfg where
  "layout_default = \<lparr>lc_tree_ratio = 35\<rparr>"

definition user_config_default :: user_config where
  "user_config_default = \<lparr>uc_mouse = True, uc_behavior = behavior_default, uc_keymap = \<lparr>kp_preset = None, kp_bindings = []\<rparr>,
     uc_theme = theme_default, uc_search = search_default, uc_layout = layout_default\<rparr>"

section \<open>Accessors\<close>

definition cfg_default_sort :: "user_config \<Rightarrow> sort_order" where
  "cfg_default_sort c = bc_default_sort (uc_behavior c)"

definition cycle_default_sort :: "user_config \<Rightarrow> user_config" where
  "cycle_default_sort c = c\<lparr>uc_behavior := (uc_behavior c)\<lparr>bc_default_sort := sort_next (cfg_default_sort c)\<rparr>\<rparr>"

definition sync_on_unlock :: "user_config \<Rightarrow> bool" where
  "sync_on_unlock c = bc_sync_on_unlock (uc_behavior c)"

definition sync_on_lock_quit :: "user_config \<Rightarrow> bool" where
  "sync_on_lock_quit c = bc_sync_on_lock_quit (uc_behavior c)"

definition confirm_quit :: "user_config \<Rightarrow> bool" where
  "confirm_quit c = bc_confirm_quit (uc_behavior c)"

definition set_sync_on_unlock :: "bool \<Rightarrow> user_config \<Rightarrow> user_config" where
  "set_sync_on_unlock b c = c\<lparr>uc_behavior := (uc_behavior c)\<lparr>bc_sync_on_unlock := b\<rparr>\<rparr>"

definition set_sync_on_lock_quit :: "bool \<Rightarrow> user_config \<Rightarrow> user_config" where
  "set_sync_on_lock_quit b c = c\<lparr>uc_behavior := (uc_behavior c)\<lparr>bc_sync_on_lock_quit := b\<rparr>\<rparr>"

section \<open>Parsing and range checks\<close>

datatype config_notice =
    UnknownScope | RatioOutOfRange u8 u8 | NoConfigDir io_error | NoConfigParent io_error path
  | UnreadableDefaults path | NoConfigLock vault_error path
  | UnparsableDefaults path "nat option" | NotWritten vault_error path

datatype config_error =
    NotCreated io_error path | NotLocked vault_error path | NotRead io_error path
  | Unparsable path "nat option" | NeedsNormalization path | NotSerialized | NotSaved vault_error path

record prefs_codec =
  pk_parse :: "bytes \<Rightarrow> nat option + user_config"
  pk_print :: "user_config \<Rightarrow> unit + bytes"

definition clamp_ratio :: "u8 \<Rightarrow> u8" where
  "clamp_ratio r = (if r < TREE_RATIO_MIN then TREE_RATIO_MIN else if TREE_RATIO_MAX < r then TREE_RATIO_MAX else r)"

definition clamp_config :: "user_config \<Rightarrow> user_config \<times> config_notice list" where
  "clamp_config cfg =
     (let scope_ok = (sc_default_scope (uc_search cfg) \<in> {''all'', ''group'', ''tag''});
          cfg1 = (if scope_ok then cfg else cfg\<lparr>uc_search := (uc_search cfg)\<lparr>sc_default_scope := default_search_scope\<rparr>\<rparr>);
          raw = lc_tree_ratio (uc_layout cfg1); clamped = clamp_ratio raw
      in (if clamped = raw then cfg1 else cfg1\<lparr>uc_layout := \<lparr>lc_tree_ratio = clamped\<rparr>\<rparr>,
          (if scope_ok then [] else [UnknownScope]) @ (if clamped = raw then [] else [RatioOutOfRange raw clamped])))"

definition line_of :: "bytes \<Rightarrow> nat \<Rightarrow> nat" where
  "line_of contents at = length (filter (\<lambda>b. b = 10) (take (min at (length contents)) contents)) + 1"

definition parse_strict_and_clamp :: "prefs_codec \<Rightarrow> path \<Rightarrow> bytes \<Rightarrow> config_error + user_config" where
  "parse_strict_and_clamp P p contents = (case pk_parse P contents of
     Inl at \<Rightarrow> Inl (Unparsable p (map_option (line_of contents) at))
   | Inr parsed \<Rightarrow> (case clamp_config parsed of (cfg, warnings) \<Rightarrow>
       if warnings = [] then Inr cfg else Inl (NeedsNormalization p)))"

definition parse_and_clamp :: "prefs_codec \<Rightarrow> path \<Rightarrow> bytes \<Rightarrow> user_config \<times> config_notice list" where
  "parse_and_clamp P p contents = (case pk_parse P contents of
     Inr cfg \<Rightarrow> clamp_config cfg
   | Inl at \<Rightarrow> (user_config_default, [UnparsableDefaults p (map_option (line_of contents) at)]))"

section \<open>Reading and writing\<close>

text \<open>\<open>read_to_string\<close>: contents that are not UTF-8 are an I/O error of their own.\<close>

definition invalid_data :: io_error where
  "invalid_data = IoOther 84"

definition read_to_string :: "path \<Rightarrow> (disk, io_error, bytes) act" where
  "read_to_string p = abind (disk_read p) (\<lambda>b. if valid_utf8 (text_of b) then areturn b else athrow invalid_data)"

definition create_parent :: "path \<Rightarrow> (disk, io_error \<times> path, unit) act" where
  "create_parent p = (case path_parent p of
     None \<Rightarrow> areturn ()
   | Some parent \<Rightarrow> if parent = [] then areturn () else aerr (\<lambda>x. (fst x, parent)) (disk_op id))"

definition config_save_unlocked :: "prefs_codec \<Rightarrow> path \<Rightarrow> user_config \<Rightarrow> (disk, config_error, unit) act" where
  "config_save_unlocked P p c = (case pk_print P c of
     Inl _ \<Rightarrow> athrow NotSerialized
   | Inr body \<Rightarrow> aerr (\<lambda>e. NotSaved e p) (disk_write p body))"

text \<open>The guard is dropped on every exit.\<close>

definition holding :: "nat \<Rightarrow> (disk, 'e, 'a) act \<Rightarrow> (disk, 'e, 'a) act" where
  "holding h body d = (case body d of (r, d') \<Rightarrow> (r, disk_unlock h d'))"

definition latest_config :: "prefs_codec \<Rightarrow> path \<Rightarrow> (disk, config_error, user_config) act" where
  "latest_config P p d = (case read_to_string p d of
     (Inr contents, d') \<Rightarrow> (parse_strict_and_clamp P p contents, d')
   | (Inl e, d') \<Rightarrow> (if e = IoNotFound then Inr user_config_default else Inl (NotRead e p), d'))"

definition update_at ::
    "prefs_codec \<Rightarrow> path \<Rightarrow> nat \<Rightarrow> (user_config \<Rightarrow> user_config) \<Rightarrow> (disk, config_error, user_config) act" where
  "update_at P p h upd =
     abind (aerr (\<lambda>(e, q). NotCreated e q) (create_parent p)) (\<lambda>_.
     abind (aerr (\<lambda>e. NotLocked e p) (disk_lock Exclusive p h)) (\<lambda>_.
     holding h (abind (latest_config P p) (\<lambda>latest.
       abind (config_save_unlocked P p (upd latest)) (\<lambda>_. areturn (upd latest))))))"

text \<open>The first start writes a commented catalog of the defaults; its text is an argument. The file is read again under
  the lock, since another process may have written it meanwhile.\<close>

definition load_or_generate :: "prefs_codec \<Rightarrow> bytes \<Rightarrow> nat \<Rightarrow> path \<Rightarrow> disk \<Rightarrow> (user_config \<times> config_notice list) \<times> disk" where
  "load_or_generate P catalog h p d =
     (let give_up = (\<lambda>w. (user_config_default, [w])) in
      case read_to_string p d of
        (Inr contents, d1) \<Rightarrow> (parse_and_clamp P p contents, d1)
      | (Inl e, d1) \<Rightarrow>
          if e \<noteq> IoNotFound then (give_up (UnreadableDefaults p), d1)
          else (case disk_lock Exclusive p h d1 of
              (Inl e', d2) \<Rightarrow> (give_up (NoConfigLock e' p), d2)
            | (Inr _, d2) \<Rightarrow> (case read_to_string p d2 of
                (Inr contents, d3) \<Rightarrow> (parse_and_clamp P p contents, disk_unlock h d3)
              | (Inl e'', d3) \<Rightarrow>
                  if e'' \<noteq> IoNotFound then (give_up (UnreadableDefaults p), disk_unlock h d3)
                  else (case disk_write p catalog d3 of
                      (Inl w, d4) \<Rightarrow> (give_up (NotWritten w p), disk_unlock h d4)
                    | (Inr _, d4) \<Rightarrow> ((user_config_default, []), disk_unlock h d4)))))"

definition load_config :: "prefs_codec \<Rightarrow> bytes \<Rightarrow> nat \<Rightarrow> falach_paths \<Rightarrow> disk \<Rightarrow> (user_config \<times> config_notice list) \<times> disk" where
  "load_config P catalog h paths d = (case disk_op id d of
     (Inl (e, _), d') \<Rightarrow> ((user_config_default, [NoConfigDir e]), d')
   | (Inr _, d') \<Rightarrow> load_or_generate P catalog h (config_toml paths) d')"

definition load_config_from :: "prefs_codec \<Rightarrow> bytes \<Rightarrow> nat \<Rightarrow> path \<Rightarrow> disk \<Rightarrow> (user_config \<times> config_notice list) \<times> disk" where
  "load_config_from P catalog h p d = (case create_parent p d of
     (Inl (e, q), d') \<Rightarrow> ((user_config_default, [NoConfigParent e q]), d')
   | (Inr _, d') \<Rightarrow> load_or_generate P catalog h p d')"

section \<open>Pins and recents (config.rs)\<close>

record 'tv vault_ui_state =
  vu_pinned :: "uuid list"
  vu_recents :: "uuid list"
  vu_extra :: "(string, 'tv) hmap"

record 'tv tui_config =
  tu_vaults :: "(string, 'tv vault_ui_state) hmap"
  tu_extra :: "(string, 'tv) hmap"

definition tui_default :: "'tv tui_config" where
  "tui_default = \<lparr>tu_vaults = [], tu_extra = []\<rparr>"

text \<open>The on-disk form adds a version number that is written and never checked.\<close>

record 'tv ui_codec =
  uk_parse :: "bytes \<Rightarrow> nat + nat \<times> 'tv tui_config"
  uk_print :: "nat \<times> 'tv tui_config \<Rightarrow> nat + bytes"

definition CONFIG_VERSION :: nat where "CONFIG_VERSION = 1"

definition config_path :: "falach_paths \<Rightarrow> path" where
  "config_path paths = fp_state_dir paths @ [''tui.toml'']"

definition vault_state :: "string \<Rightarrow> 'tv tui_config \<Rightarrow> 'tv vault_ui_state option" where
  "vault_state n c = hget (tu_vaults c) n"

definition set_vault_state :: "string \<Rightarrow> uuid list \<Rightarrow> uuid list \<Rightarrow> 'tv tui_config \<Rightarrow> 'tv tui_config" where
  "set_vault_state n pinned recents c =
     (let e = (case hget (tu_vaults c) n of Some e \<Rightarrow> e | None \<Rightarrow> \<lparr>vu_pinned = [], vu_recents = [], vu_extra = []\<rparr>)
      in c\<lparr>tu_vaults := hput n (e\<lparr>vu_pinned := pinned, vu_recents := recents\<rparr>) (tu_vaults c)\<rparr>)"

datatype ui_notice = UnreadableUi | UnparsableUi

definition tui_load :: "'tv ui_codec \<Rightarrow> path \<Rightarrow> disk \<Rightarrow> ('tv tui_config \<times> ui_notice option) \<times> disk" where
  "tui_load C p d = (case read_to_string p d of
     (Inl e, d') \<Rightarrow> ((tui_default, if e = IoNotFound then None else Some UnreadableUi), d')
   | (Inr contents, d') \<Rightarrow> (case uk_parse C contents of
       Inr (_, c) \<Rightarrow> ((c, None), d')
     | Inl _ \<Rightarrow> ((tui_default, Some UnparsableUi), d')))"

datatype tui_error = UiIo vault_error | UiParse nat

definition tui_save :: "'tv ui_codec \<Rightarrow> path \<Rightarrow> 'tv tui_config \<Rightarrow> (disk, tui_error, unit) act" where
  "tui_save C p c = abind (aerr (UiIo \<circ> vio) (disk_op id)) (\<lambda>_.
     case uk_print C (CONFIG_VERSION, c) of
       Inl e \<Rightarrow> athrow (UiParse e)
     | Inr body \<Rightarrow> aerr UiIo (disk_write p body))"

section \<open>Updates merge with the latest file\<close>

definition in_range :: "user_config \<Rightarrow> bool" where
  "in_range c = (snd (clamp_config c) = [])"

lemma clamp_ratio_range: "TREE_RATIO_MIN \<le> clamp_ratio r \<and> clamp_ratio r \<le> TREE_RATIO_MAX"
  by (auto simp: clamp_ratio_def TREE_RATIO_MIN_def TREE_RATIO_MAX_def not_less)

lemma clamp_ratio_fixed: "clamp_ratio (clamp_ratio r) = clamp_ratio r"
  by (auto simp: clamp_ratio_def TREE_RATIO_MIN_def TREE_RATIO_MAX_def)

lemma in_range_iff:
  "in_range c = (sc_default_scope (uc_search c) \<in> {''all'', ''group'', ''tag''}
     \<and> clamp_ratio (lc_tree_ratio (uc_layout c)) = lc_tree_ratio (uc_layout c))"
  by (simp add: in_range_def clamp_config_def Let_def)

lemma in_range_clamp: "in_range c \<Longrightarrow> clamp_config c = (c, [])"
  by (simp add: in_range_iff clamp_config_def Let_def)

lemma clamp_clean: "clamp_config c = (c', []) \<Longrightarrow> c' = c \<and> in_range c"
  by (metis in_range_clamp in_range_def prod.inject snd_conv)

lemma clamped_in_range: "in_range (fst (clamp_config c))"
  by (simp add: in_range_iff clamp_config_def Let_def clamp_ratio_fixed default_search_scope_def)

lemma default_in_range: "in_range user_config_default"
  by code_simp

lemma read_to_string_files:
  assumes "read_to_string p d = (r, d')"
  shows "d_files d' = d_files d \<and> (\<forall>b. r = Inr b \<longrightarrow> d_files d p = Some b) \<and> (r = Inl IoNotFound \<longrightarrow> d_files d p = None)"
  using assms disk_read_files [of p d] unfolding read_to_string_def abind_def invalid_data_def
  by (auto split: prod.splits sum.splits if_splits)

lemma create_parent_files: "create_parent p d = (r, d') \<Longrightarrow> d_files d' = d_files d"
  by (auto simp: create_parent_def aerr_def disk_op_id_files split: option.splits if_splits prod.splits)

text \<open>What was read under the lock: the parsed file, or the defaults when there is none.\<close>

definition read_as :: "prefs_codec \<Rightarrow> bytes option \<Rightarrow> user_config \<Rightarrow> bool" where
  "read_as P b c = (case b of None \<Rightarrow> c = user_config_default | Some contents \<Rightarrow> pk_parse P contents = Inr c \<and> in_range c)"

lemma latest_config_files:
  assumes "latest_config P p d = (r, d')"
  shows "d_files d' = d_files d \<and> (\<forall>c. r = Inr c \<longrightarrow> read_as P (d_files d p) c)"
proof -
  obtain x d1 where x: "read_to_string p d = (x, d1)" by fastforce
  show ?thesis
  proof (cases x)
    case (Inl e)
    then show ?thesis using assms x read_to_string_files [OF x]
      by (auto simp: latest_config_def read_as_def split: if_splits)
  next
    case (Inr b)
    then show ?thesis using assms x read_to_string_files [OF x]
      by (auto simp: latest_config_def read_as_def parse_strict_and_clamp_def dest: clamp_clean
          split: sum.splits prod.splits if_splits)
  qed
qed


lemma disk_unlock_files [simp]: "d_files (disk_unlock h d) = d_files d"
  by (simp add: disk_unlock_def)

lemma config_save_files:
  assumes "config_save_unlocked P p c d = (r, d')"
  shows "(\<forall>q. q \<noteq> p \<longrightarrow> d_files d' q = d_files d q)
    \<and> (r = Inr () \<longrightarrow> (\<exists>b. pk_print P c = Inr b \<and> d_files d' p = Some b))
    \<and> (d_files d' p = d_files d p \<or> (\<exists>b. pk_print P c = Inr b \<and> d_files d' p = Some b))"
proof (cases "pk_print P c")
  case (Inr b)
  obtain x d1 where x: "disk_write p b d = (x, d1)" by fastforce
  from disk_write_cases [OF x] x assms Inr show ?thesis
    by (cases x) (auto simp: config_save_unlocked_def aerr_def)
qed (use assms in \<open>auto simp: config_save_unlocked_def\<close>)

text \<open>What an update does to the files: the update applied to the preferences read under the lock, or nothing but a
  failed write.\<close>

definition updated_to :: "prefs_codec \<Rightarrow> (user_config \<Rightarrow> user_config) \<Rightarrow> bytes option \<Rightarrow> user_config \<Rightarrow> bytes option \<Rightarrow> bool" where
  "updated_to P f old c new = (\<exists>latest. read_as P old latest \<and> c = f latest \<and> (\<exists>b. pk_print P c = Inr b \<and> new = Some b))"

lemma update_at_cases:
  assumes "update_at P p h f d = (r, d')"
  shows "(\<forall>q. q \<noteq> p \<longrightarrow> d_files d' q = d_files d q)
    \<and> (\<forall>c. r = Inr c \<longrightarrow> updated_to P f (d_files d p) c (d_files d' p))
    \<and> (d_files d' p = d_files d p \<or> (\<exists>c. updated_to P f (d_files d p) c (d_files d' p)))"
proof -
  obtain r1 d1 where 1: "create_parent p d = (r1, d1)" by fastforce
  obtain r2 d2 where 2: "disk_lock Exclusive p h d1 = (r2, d2)" by fastforce
  obtain r3 d3 where 3: "latest_config P p d2 = (r3, d3)" by fastforce
  have same: "d_files d1 = d_files d" "d_files d2 = d_files d" "d_files d3 = d_files d"
    using create_parent_files [OF 1] disk_lock_files [OF 2] latest_config_files [OF 3] by simp_all
  show ?thesis
  proof (cases "\<exists>x h2 latest. r1 = Inr x \<and> r2 = Inr h2 \<and> r3 = Inr latest")
    case False
    then have "d_files d' = d_files d" "\<exists>e. r = Inl e"
      using assms 1 2 3 same
      by (cases r1; cases r2; cases r3; simp add: update_at_def abind_def aerr_def holding_def; fastforce)+
    then show ?thesis by auto
  next
    case True
    then obtain x h2 latest where ok: "r1 = Inr x" "r2 = Inr h2" "r3 = Inr latest" by blast
    obtain r4 d4 where 4: "config_save_unlocked P p (f latest) d3 = (r4, d4)" by fastforce
    have "d_files d' = d_files d4" "r = map_sum id (\<lambda>_. f latest) r4"
      using assms 1 2 3 4 ok by (cases r4; auto simp: update_at_def abind_def aerr_def holding_def)+
    moreover have "read_as P (d_files d p) latest" using latest_config_files [OF 3] ok same by simp
    ultimately show ?thesis using config_save_files [OF 4] same
      by (cases r4) (auto simp: updated_to_def)
  qed
qed


section \<open>Two sessions\<close>

definition parses_back :: "prefs_codec \<Rightarrow> bool" where
  "parses_back P = (\<forall>c b. pk_print P c = Inr b \<longrightarrow> pk_parse P b = Inr c)"

lemma updated_parses: "parses_back P \<Longrightarrow> updated_to P f old c (Some b) \<Longrightarrow> pk_parse P b = Inr c"
  by (auto simp: updated_to_def parses_back_def)

text \<open>One session after the other: the second change is applied to the outcome of the first, and a file that does not
  parse is never overwritten.\<close>

lemma updates_in_sequence:
  assumes "parses_back P" "update_at P p h f d = (Inr a, d1)" "d_files d2 p = d_files d1 p" "update_at P p h' g d2 = (r, d3)"
  shows "(\<forall>c. r = Inr c \<longrightarrow> c = g a)
    \<and> (d_files d3 p = d_files d1 p \<or> (\<exists>b. d_files d3 p = Some b \<and> pk_parse P b = Inr (g a)))
    \<and> (is_ok r \<longrightarrow> map_option (pk_parse P) (d_files d3 p) = Some (Inr (g a)))
    \<and> (\<forall>q. q \<noteq> p \<longrightarrow> d_files d1 q = d_files d q \<and> d_files d3 q = d_files d2 q)
    \<and> (\<forall>contents e d4 d5 x. d_files d4 p = Some contents \<longrightarrow> pk_parse P contents = Inl e \<longrightarrow>
        update_at P p h g d4 = (x, d5) \<longrightarrow> d_files d5 = d_files d4 \<and> \<not> is_ok x)"
proof -
  note u1 = update_at_cases [OF assms(2)] and u2 = update_at_cases [OF assms(4)]
  obtain b where b: "d_files d1 p = Some b" using u1 by (auto simp: updated_to_def)
  then have "pk_parse P b = Inr a" using u1 updated_parses [OF assms(1), of f "d_files d p" a b] by simp
  then have g: "updated_to P g (d_files d2 p) c new \<Longrightarrow> c = g a \<and> (\<exists>b'. new = Some b' \<and> pk_parse P b' = Inr (g a))" for c new
    using b assms(1,3) by (auto simp: updated_to_def read_as_def parses_back_def)
  have bad: "d_files d5 = d_files d4 \<and> \<not> is_ok x"
    if "d_files d4 p = Some contents" "pk_parse P contents = Inl e" "update_at P p h g d4 = (x, d5)" for contents e d4 d5 x
  proof -
    have no: "\<not> updated_to P g (d_files d4 p) c new" for c new using that by (simp add: updated_to_def read_as_def)
    note c = update_at_cases [OF that(3)]
    have "d_files d5 q = d_files d4 q" for q using c no by (cases "q = p") simp_all
    moreover have "\<not> is_ok x" using c no by (simp add: is_ok_iff)
    ultimately show ?thesis by blast
  qed
  have "\<forall>c. r = Inr c \<longrightarrow> c = g a" using u2 g by blast
  moreover have "d_files d3 p = d_files d1 p \<or> (\<exists>b. d_files d3 p = Some b \<and> pk_parse P b = Inr (g a))"
    using u2 g assms(3) by metis
  moreover have "is_ok r \<longrightarrow> map_option (pk_parse P) (d_files d3 p) = Some (Inr (g a))"
    using u2 g by (metis is_ok_iff option.map(2))
  moreover have "\<forall>q. q \<noteq> p \<longrightarrow> d_files d1 q = d_files d q \<and> d_files d3 q = d_files d2 q" using u1 u2 by blast
  ultimately show ?thesis using bad by blast
qed

section \<open>Sessions that interleave\<close>

text \<open>The actions of \<open>update\_at\<close> one by one, as other processes may act between them. A stage is what is left to do:
  \<open>UHeld r\<close> has its result and still holds the guard, \<open>UDone r\<close> has returned it.\<close>

datatype update_stage =
    UStart | ULocking | UReading | UWriting user_config
  | UHeld "config_error + user_config" | UDone "config_error + user_config"

fun update_next ::
    "prefs_codec \<Rightarrow> path \<Rightarrow> nat \<Rightarrow> (user_config \<Rightarrow> user_config) \<Rightarrow> update_stage \<times> disk \<Rightarrow> update_stage \<times> disk" where
  "update_next P p h upd (UStart, d) = (case create_parent p d of
     (Inl (e, q), d') \<Rightarrow> (UDone (Inl (NotCreated e q)), d') | (Inr _, d') \<Rightarrow> (ULocking, d'))"
| "update_next P p h upd (ULocking, d) = (case disk_lock Exclusive p h d of
     (Inl e, d') \<Rightarrow> (UDone (Inl (NotLocked e p)), d') | (Inr _, d') \<Rightarrow> (UReading, d'))"
| "update_next P p h upd (UReading, d) = (case latest_config P p d of
     (Inl e, d') \<Rightarrow> (UHeld (Inl e), d') | (Inr latest, d') \<Rightarrow> (UWriting (upd latest), d'))"
| "update_next P p h upd (UWriting c, d) = (case config_save_unlocked P p c d of
     (Inl e, d') \<Rightarrow> (UHeld (Inl e), d') | (Inr _, d') \<Rightarrow> (UHeld (Inr c), d'))"
| "update_next P p h upd (UHeld r, d) = (UDone r, disk_unlock h d)"
| "update_next P p h upd (UDone r, d) = (UDone r, d)"

text \<open>Without others the five actions are \<open>update\_at\<close>.\<close>

lemma update_at_staged: "(update_next P p h upd ^^ 5) (UStart, d) = map_prod UDone id (update_at P p h upd d)"
  by (auto simp: numeral_eq_Suc update_at_def abind_def aerr_def areturn_def holding_def split: prod.split sum.split)

text \<open>A world of sessions, each with its update and its own guard, numbered by the open file of the guard. The log is
  the order in which their writes replaced the file. Everybody else may do what leaves the file and its lock alone.\<close>

definition locks_of :: "path \<Rightarrow> disk \<Rightarrow> lock_table" where
  "locks_of p d = filter (\<lambda>(l, _, _). l = sidecar_lock_path p) (d_locks d)"

definition wrote :: "path \<Rightarrow> update_stage \<Rightarrow> disk \<Rightarrow> update_stage \<Rightarrow> disk \<Rightarrow> bool" where
  "wrote p s d s' d' = (case s of UWriting c \<Rightarrow> s' = UHeld (Inr c) \<or> d_files d' p \<noteq> d_files d p | _ \<Rightarrow> False)"

inductive updates_run ::
    "prefs_codec \<Rightarrow> path \<Rightarrow> (nat \<Rightarrow> user_config \<Rightarrow> user_config) \<Rightarrow> disk \<Rightarrow> (nat \<Rightarrow> update_stage) \<Rightarrow> disk \<Rightarrow> nat list \<Rightarrow> bool"
    for P p fs d0 where
  run_start: "updates_run P p fs d0 (\<lambda>_. UStart) d0 []"
| run_session: "updates_run P p fs d0 st d log \<Longrightarrow> update_next P p h (fs h) (st h, d) = (s, d') \<Longrightarrow>
    updates_run P p fs d0 (st(h := s)) d' (if wrote p (st h) d s d' then log @ [h] else log)"
| run_other: "updates_run P p fs d0 st d log \<Longrightarrow> d_files d' p = d_files d p \<Longrightarrow> locks_of p d' = locks_of p d \<Longrightarrow>
    updates_run P p fs d0 st d' log"

text \<open>The preferences before any of them, and what a file holds after the updates of the log.\<close>

definition start_config :: "prefs_codec \<Rightarrow> bytes option \<Rightarrow> user_config" where
  "start_config P b = (case b of None \<Rightarrow> user_config_default | Some contents \<Rightarrow>
     (case pk_parse P contents of Inr c \<Rightarrow> c | Inl _ \<Rightarrow> user_config_default))"

definition holds_updates ::
    "prefs_codec \<Rightarrow> bytes option \<Rightarrow> (nat \<Rightarrow> user_config \<Rightarrow> user_config) \<Rightarrow> nat list \<Rightarrow> bytes option \<Rightarrow> bool" where
  "holds_updates P old fs log new = (if log = [] then new = old
     else read_as P old (start_config P old) \<and> (\<exists>b. new = Some b \<and> pk_parse P b = Inr (fold fs log (start_config P old))))"

lemma read_as_updates:
  assumes "holds_updates P old fs log new" "read_as P new c"
  shows "c = fold fs log (start_config P old) \<and> read_as P old (start_config P old)"
  using assms by (auto simp: holds_updates_def read_as_def start_config_def split: if_split_asm option.split_asm)

definition in_critical :: "update_stage \<Rightarrow> bool" where
  "in_critical s = (case s of UReading \<Rightarrow> True | UWriting _ \<Rightarrow> True | UHeld _ \<Rightarrow> True | _ \<Rightarrow> False)"

definition result_of :: "update_stage \<Rightarrow> (config_error + user_config) option" where
  "result_of s = (case s of UHeld r \<Rightarrow> Some r | UDone r \<Rightarrow> Some r | _ \<Rightarrow> None)"

text \<open>The invariant: whoever is between taking and dropping the guard has the only lock of the file, so what it read is
  what the file holds until it writes.\<close>

definition guarded_by :: "path \<Rightarrow> (nat \<Rightarrow> update_stage) \<Rightarrow> disk \<Rightarrow> bool" where
  "guarded_by p st d = ((locks_of p d = [] \<and> (\<forall>h. \<not> in_critical (st h)))
     \<or> (\<exists>h. locks_of p d = [(sidecar_lock_path p, Exclusive, h)] \<and> (\<forall>h'. in_critical (st h') \<longleftrightarrow> h' = h)))"

definition serialized ::
    "prefs_codec \<Rightarrow> bytes option \<Rightarrow> (nat \<Rightarrow> user_config \<Rightarrow> user_config) \<Rightarrow> nat list \<Rightarrow> nat \<Rightarrow> update_stage \<Rightarrow> bool" where
  "serialized P old fs log h s =
     ((\<forall>c. s = UWriting c \<longrightarrow> c = fs h (fold fs log (start_config P old)) \<and> read_as P old (start_config P old))
    \<and> (h \<in> set log \<longrightarrow> result_of s \<noteq> None)
    \<and> (\<forall>c. result_of s = Some (Inr c) \<longrightarrow> (\<exists>before after. log = before @ h # after
         \<and> c = fs h (fold fs before (start_config P old)))))"

lemma disk_lock_cases:
  assumes "disk_lock Exclusive p h d = (r, d')"
  shows "d_files d' = d_files d \<and> ((\<exists>e. r = Inl e) \<and> d_locks d' = d_locks d
    \<or> (\<exists>x. r = Inr x) \<and> d_locks d' = (sidecar_lock_path p, Exclusive, h) # d_locks d \<and> compatible Exclusive (sidecar_lock_path p) (d_locks d))"
  using assms by (auto simp: disk_lock_def acquire_def Let_def aerr_def abind_def areturn_def athrow_def pop_trouble_def map_err_def
      split: prod.split_asm option.split_asm if_split_asm list.split_asm)

lemma locks_of_lock:
  assumes "disk_lock Exclusive p h d = (r, d')"
  shows "(\<exists>e. r = Inl e) \<and> locks_of p d' = locks_of p d
    \<or> (\<exists>x. r = Inr x) \<and> locks_of p d = [] \<and> locks_of p d' = [(sidecar_lock_path p, Exclusive, h)]"
  using disk_lock_cases [OF assms]
  by (auto simp: locks_of_def compatible_def list_all_iff filter_empty_conv)

lemma locks_of_unlock: "locks_of p (disk_unlock h d) = release h (locks_of p d)"
  by (simp add: locks_of_def disk_unlock_def release_def conj_commute split_def)

lemma locks_of_other:
  "create_parent p d = (r, d') \<Longrightarrow> locks_of q d' = locks_of q d"
  "latest_config P p d = (r', d') \<Longrightarrow> locks_of q d' = locks_of q d"
  "config_save_unlocked P p c d = (r'', d') \<Longrightarrow> locks_of q d' = locks_of q d"
  by (auto simp: locks_of_def create_parent_def latest_config_def read_to_string_def config_save_unlocked_def abind_def aerr_def
      areturn_def athrow_def disk_op_def pop_trouble_def disk_write_def disk_read_def
      split: option.split_asm if_split_asm prod.split_asm list.split_asm sum.split_asm disk_trouble.split_asm)

lemma in_critical_simps [simp]:
  "\<not> in_critical UStart" "\<not> in_critical ULocking" "in_critical UReading" "in_critical (UWriting c)" "in_critical (UHeld r)"
  "\<not> in_critical (UDone r)"
  by (simp_all add: in_critical_def)

lemma guarded_same:
  "guarded_by p st d \<Longrightarrow> locks_of p d' = locks_of p d \<Longrightarrow> in_critical s = in_critical (st h) \<Longrightarrow> guarded_by p (st(h := s)) d'"
  unfolding guarded_by_def by (simp; metis)

text \<open>One action of a session, by its stage.\<close>

lemma step_guarded:
  assumes g: "guarded_by p st d" and step: "update_next P p h upd (st h, d) = (s, d')"
  shows "guarded_by p (st(h := s)) d'"
proof (cases "st h")
  case UStart
  then show ?thesis using step locks_of_other(1) [of p d _ d' p]
    by (intro guarded_same [OF g]) (auto split: prod.split_asm sum.split_asm)
next
  case ULocking
  obtain r d1 where l: "disk_lock Exclusive p h d = (r, d1)" by fastforce
  then have d1: "d' = d1" using ULocking step by (auto split: sum.split_asm)
  show ?thesis
  proof (cases r)
    case (Inl e)
    then show ?thesis using ULocking step l locks_of_lock [OF l] d1 by (intro guarded_same [OF g]) auto
  next
    case (Inr x)
    then have "locks_of p d = []" "locks_of p d' = [(sidecar_lock_path p, Exclusive, h)]" "s = UReading"
      using ULocking step l locks_of_lock [OF l] d1 by auto
    then show ?thesis using g by (auto simp: guarded_by_def)
  qed
next
  case UReading
  then show ?thesis using step locks_of_other(2) [of P p d _ d' p]
    by (intro guarded_same [OF g]) (auto split: prod.split_asm sum.split_asm)
next
  case (UWriting c)
  then show ?thesis using step locks_of_other(3) [of P p c d _ d' p]
    by (intro guarded_same [OF g]) (auto split: prod.split_asm sum.split_asm)
next
  case (UHeld r)
  then have "in_critical (st h)" by simp
  with g have "locks_of p d = [(sidecar_lock_path p, Exclusive, h)]" "\<And>h'. in_critical (st h') \<longleftrightarrow> h' = h"
    by (auto simp: guarded_by_def)
  then show ?thesis using step UHeld by (auto simp: guarded_by_def locks_of_unlock release_def)
next
  case (UDone r)
  then show ?thesis using step by (intro guarded_same [OF g]) auto
qed

lemma update_next_files:
  assumes "update_next P p h upd (s, d) = (s', d')" "\<And>c. s \<noteq> UWriting c"
  shows "d_files d' = d_files d \<and> \<not> wrote p s d s' d'"
proof -
  have "d_files d' = d_files d"
  proof (cases s)
    case UStart
    then show ?thesis using assms(1) create_parent_files [of p d] by (cases "create_parent p d") (auto split: sum.split_asm)
  next
    case ULocking
    then show ?thesis using assms(1) disk_lock_files [of Exclusive p h d]
      by (cases "disk_lock Exclusive p h d") (auto split: sum.split_asm)
  next
    case UReading
    then show ?thesis using assms(1) latest_config_files [of P p d]
      by (cases "latest_config P p d") (auto split: sum.split_asm)
  qed (use assms in auto)
  moreover have "\<not> wrote p s d s' d'" using assms(2) by (simp add: wrote_def split: update_stage.split)
  ultimately show ?thesis by simp
qed

lemma serialized_quiet:
  assumes "serialized P old fs log h s" "update_next P p h (fs h) (s, d) = (s', d')" "\<And>c. s \<noteq> UWriting c"
    and "holds_updates P old fs log (d_files d p)"
  shows "serialized P old fs log h s'"
proof (cases s)
  case UReading
  obtain r d1 where l: "latest_config P p d = (r, d1)" by fastforce
  show ?thesis
  proof (cases r)
    case (Inr c)
    then have "read_as P (d_files d p) c" using latest_config_files [OF l] by simp
    from read_as_updates [OF assms(4) this] show ?thesis
      using assms(1,2) UReading l Inr by (auto simp: serialized_def result_of_def)
  qed (use assms(1,2) UReading l in \<open>auto simp: serialized_def result_of_def\<close>)
qed (use assms(1-3) in \<open>auto simp: serialized_def result_of_def split: prod.split_asm sum.split_asm\<close>)

lemma serialized_others:
  "serialized P old fs log k s \<Longrightarrow> \<not> in_critical s \<Longrightarrow> serialized P old fs (log @ [h]) k s \<or> k = h"
  by (cases s) (fastforce simp: serialized_def result_of_def)+

lemma step_serialized:
  assumes P: "parses_back P" and g: "guarded_by p st d" and f: "holds_updates P old fs log (d_files d p)"
    and all: "\<And>k. serialized P old fs log k (st k)" and dist: "distinct log"
    and step: "update_next P p h (fs h) (st h, d) = (s, d')"
  shows "let log' = if wrote p (st h) d s d' then log @ [h] else log in
    holds_updates P old fs log' (d_files d' p) \<and> (\<forall>k. serialized P old fs log' k ((st(h := s)) k)) \<and> distinct log'"
proof (cases "\<exists>c. st h = UWriting c")
  case False
  then have "d_files d' = d_files d" "\<not> wrote p (st h) d s d'" using update_next_files [OF step] by auto
  moreover have "serialized P old fs log h s" using serialized_quiet [OF all step _ f] False by blast
  ultimately show ?thesis using f all dist by simp
next
  case True
  then obtain c where c: "st h = UWriting c" by blast
  then have new: "c = fs h (fold fs log (start_config P old))" "read_as P old (start_config P old)" "h \<notin> set log"
    using all [of h] by (auto simp: serialized_def result_of_def)
  obtain r d1 where w: "config_save_unlocked P p c d = (r, d1)" by fastforce
  then have d1: "d' = d1" "s = UHeld (map_sum id (\<lambda>_. c) r)" using c step by (cases r; auto)+
  note saved = config_save_files [OF w, folded d1(1)]
  show ?thesis
  proof (cases "wrote p (st h) d s d'")
    case False
    then obtain e where "r = Inl e" "d_files d' p = d_files d p" using c d1(2) by (cases r) (auto simp: wrote_def)
    then show ?thesis using False f all d1(2) new(3) dist by (auto simp: Let_def serialized_def result_of_def)
  next
    case True
    then obtain b where "pk_print P c = Inr b" "d_files d' p = Some b" using c d1(2) saved by (cases r) (auto simp: wrote_def)
    then have "holds_updates P old fs (log @ [h]) (d_files d' p)"
      using P new(1,2) by (simp add: holds_updates_def parses_back_def)
    moreover have "serialized P old fs (log @ [h]) h s"
      using d1(2) new(1) by (cases r) (auto simp: serialized_def result_of_def)
    moreover have "serialized P old fs (log @ [h]) k (st k)" if "k \<noteq> h" for k
    proof -
      have "in_critical (st h)" using c by simp
      then have "\<not> in_critical (st k)" using g that by (auto simp: guarded_by_def)
      then show ?thesis using serialized_others [OF all] that by blast
    qed
    ultimately show ?thesis using True new(3) dist by (simp add: Let_def)
  qed
qed

lemma updates_invariant:
  assumes "updates_run P p fs d0 st d log" "parses_back P" "locks_of p d0 = []"
  shows "guarded_by p st d \<and> holds_updates P (d_files d0 p) fs log (d_files d p)
    \<and> (\<forall>k. serialized P (d_files d0 p) fs log k (st k)) \<and> distinct log"
  using assms(1)
proof (induction rule: updates_run.induct)
  case run_start
  then show ?case using assms(3) by (simp add: guarded_by_def holds_updates_def serialized_def result_of_def)
next
  case (run_session st d log h s d')
  then show ?case using step_guarded [of p st d P h "fs h" s d']
      step_serialized [OF assms(2), of p st d "d_files d0 p" fs log h s d'] by (simp add: Let_def fun_upd_def)
next
  case (run_other st d log d')
  then show ?case by (simp add: guarded_by_def)
qed

text \<open>C40: Changes of the preferences by concurrent sessions are never undone. \<open>update\_at\<close> is five actions, between which
  other sessions, and anything that leaves the file and its lock alone, may act. In every interleaving of any number of
  sessions, at most one is between taking and dropping the guard, and the file holds the updates of all sessions whose
  write has replaced it, each once, applied one after the other to what it held at first; a session that succeeded is one
  of them and returns the preferences right after its own update. While no write has happened the file is untouched, and
  it stays so when it does not parse.\<close>

theorem config_update_merges:
  assumes "parses_back P" "updates_run P p fs d0 st d log" "locks_of p d0 = []"
  shows "(update_next P p h upd ^^ 5) (UStart, d1) = map_prod UDone id (update_at P p h upd d1)
    \<and> (\<forall>i j. in_critical (st i) \<and> in_critical (st j) \<longrightarrow> i = j)
    \<and> distinct log \<and> (log = [] \<longrightarrow> d_files d p = d_files d0 p)
    \<and> (log \<noteq> [] \<longrightarrow> read_as P (d_files d0 p) (start_config P (d_files d0 p))
        \<and> map_option (pk_parse P) (d_files d p) = Some (Inr (fold fs log (start_config P (d_files d0 p)))))
    \<and> (\<forall>i c. result_of (st i) = Some (Inr c) \<longrightarrow> (\<exists>before after. log = before @ i # after
        \<and> c = fs i (fold fs before (start_config P (d_files d0 p)))))"
proof -
  from updates_invariant [OF assms(2,1,3)] have i: "guarded_by p st d" "holds_updates P (d_files d0 p) fs log (d_files d p)"
    "\<And>k. serialized P (d_files d0 p) fs log k (st k)" "distinct log" by auto
  have "\<forall>i j. in_critical (st i) \<and> in_critical (st j) \<longrightarrow> i = j" using i(1) by (auto simp: guarded_by_def)
  moreover have "(log = [] \<longrightarrow> d_files d p = d_files d0 p)
      \<and> (log \<noteq> [] \<longrightarrow> read_as P (d_files d0 p) (start_config P (d_files d0 p))
        \<and> map_option (pk_parse P) (d_files d p) = Some (Inr (fold fs log (start_config P (d_files d0 p)))))"
    using i(2) by (auto simp: holds_updates_def)
  moreover have "\<forall>i c. result_of (st i) = Some (Inr c) \<longrightarrow> (\<exists>before after. log = before @ i # after
        \<and> c = fs i (fold fs before (start_config P (d_files d0 p))))" using i(3) by (simp add: serialized_def)
  ultimately show ?thesis using update_at_staged i(4) by blast
qed

definition both_syncs :: "bool \<Rightarrow> bool \<Rightarrow> user_config" where
  "both_syncs x y = set_sync_on_unlock x (set_sync_on_lock_quit y user_config_default)"

definition two_flags_codec :: prefs_codec where
  "two_flags_codec = \<lparr>pk_parse = (\<lambda>b. case b of [x, y] \<Rightarrow> Inr (both_syncs (x = 1) (y = 1)) | _ \<Rightarrow> Inl None),
     pk_print = (\<lambda>c. if c = both_syncs (sync_on_unlock c) (sync_on_lock_quit c)
       then Inr [of_bool (sync_on_unlock c), of_bool (sync_on_lock_quit c)] else Inl ())\<rparr>"

lemma two_flags_parse_back: "parses_back two_flags_codec"
  by (auto simp: parses_back_def two_flags_codec_def split: if_splits)

definition calm_disk :: disk where
  "calm_disk = \<lparr>d_files = (\<lambda>_. None), d_troubles = [], d_locks = [], d_seed = 0\<rparr>"

text \<open>Runs that a schedule determines: who acts next.\<close>

definition schedule_step ::
    "prefs_codec \<Rightarrow> path \<Rightarrow> (nat \<Rightarrow> user_config \<Rightarrow> user_config) \<Rightarrow> nat \<Rightarrow> (nat \<Rightarrow> update_stage) \<times> disk \<times> nat list \<Rightarrow>
     (nat \<Rightarrow> update_stage) \<times> disk \<times> nat list" where
  "schedule_step P p fs h w = (case w of (st, d, log) \<Rightarrow> case update_next P p h (fs h) (st h, d) of (s, d') \<Rightarrow>
     (st(h := s), d', if wrote p (st h) d s d' then log @ [h] else log))"

lemma scheduled:
  "updates_run P p fs d0 st d log \<Longrightarrow> fold (schedule_step P p fs) hs (st, d, log) = (st', d', log') \<Longrightarrow> updates_run P p fs d0 st' d' log'"
proof (induction hs arbitrary: st d log)
  case (Cons h hs)
  obtain s d1 where n: "update_next P p h (fs h) (st h, d) = (s, d1)" by fastforce
  show ?case using Cons.IH [OF run_session [OF Cons.prems(1) n]] Cons.prems(2) n by (simp add: schedule_step_def fun_upd_def)
qed simp

text \<open>Session 2 comes while session 1 holds the guard and is refused; session 3 comes later.\<close>

definition three_sessions :: "(nat \<Rightarrow> update_stage) \<times> disk \<times> nat list" where
  "three_sessions = fold (schedule_step two_flags_codec [''c'']
       (\<lambda>h. if h = 1 then set_sync_on_unlock True else set_sync_on_lock_quit True))
     [1, 2, 1, 2, 1, 1, 1, 3, 3, 3, 3] (\<lambda>_. UStart, calm_disk, [])"

lemma config_update_merges_witness:
  "map_option (pk_parse two_flags_codec) (d_files (fst (snd three_sessions)) [''c'']) = Some (Inr (both_syncs True True))
    \<and> snd (snd three_sessions) = [1, 3]"
proof -
  let ?fs = "\<lambda>h. if h = 1 then set_sync_on_unlock True else set_sync_on_lock_quit True"
  obtain st d log where w: "three_sessions = (st, d, log)" by (cases three_sessions)
  have run: "updates_run two_flags_codec [''c''] ?fs calm_disk st d log"
    by (rule scheduled [OF run_start w [unfolded three_sessions_def]])
  have "snd (snd three_sessions) = [1, 3]" by code_simp
  then have log: "log = [1, 3]" by (simp add: w)
  have "locks_of [''c''] calm_disk = []" by (simp add: locks_of_def calm_disk_def)
  from config_update_merges [OF two_flags_parse_back run this, of 1 id calm_disk]
  have "map_option (pk_parse two_flags_codec) (d_files d [''c'']) = Some (Inr (fold ?fs log (start_config two_flags_codec None)))"
    using log by (simp add: calm_disk_def)
  moreover have "fold ?fs [1 :: nat, 3] (start_config two_flags_codec None) = both_syncs True True" by code_simp
  ultimately show ?thesis by (simp add: w log)
qed

end
