(* ===== verification/Session.thy ===== *)
theory Session
  imports Overlays Settings SyncDriver AutoLock
begin

text \<open>
  The state of the terminal application (\<open>falach-tui/src/app.rs\<close>) and what it does as a whole: the background sync that
  takes the vault and the registry away (\<open>sync_runtime.rs\<close>), locking, unlocking, saving, and the status line. A step gets
  its outside world as the record \<open>app_env\<close>: the KDBX library, the codecs, the clock, fresh identifiers, the clipboard,
  the sync engine. \<open>None\<close> is a panic, or a call that does not return.
\<close>

section \<open>The status line (widgets/status\_bar.rs)\<close>

datatype severity = SevSuccess | SevInfo | SevWarning | SevError

record transient =
  tn_message :: string
  tn_severity :: severity
  tn_expires :: nat

type_synonym status_bar = "transient option"

definition DEFAULT_TTL :: nat where "DEFAULT_TTL = from_secs 3"

definition set_with :: "severity \<Rightarrow> string \<Rightarrow> nat \<Rightarrow> status_bar" where
  "set_with s m now = Some \<lparr>tn_message = m, tn_severity = s, tn_expires = now + DEFAULT_TTL\<rparr>"

definition status_tick :: "nat \<Rightarrow> status_bar \<Rightarrow> status_bar" where
  "status_tick now b = (case b of None \<Rightarrow> None | Some t \<Rightarrow> if tn_expires t \<le> now then None else Some t)"

section \<open>Background sync (sync\_runtime.rs)\<close>

datatype sync_trigger = TrigManual | TrigOnUnlock | TrigOnLock | TrigOnQuit

type_synonym app_registry = "toml_value registry"
type_synonym ('x, 'key) app_vault = "('x db, 'key) vault"

record ('x, 'key) sync_result =
  rs_vault :: "('x, 'key) app_vault"
  rs_registry :: app_registry
  rs_outcome :: "sync_error + sync_outcome"
  rs_trigger :: sync_trigger

datatype ('x, 'key) sync_msg = SyncActivity | SyncDone "('x, 'key) sync_result" | SyncWorkerLost

text \<open>What the worker thread owns, and the messages it has sent that are not drained yet. The channel is open while the
  worker lives; \<open>wk_job = None\<close> is a worker that has ended.\<close>

record ('x, 'key) sync_job =
  jb_vault :: "('x, 'key) app_vault"
  jb_registry :: app_registry
  jb_name :: string
  jb_password :: string
  jb_trigger :: sync_trigger

record ('x, 'key) worker =
  wk_job :: "('x, 'key) sync_job option"
  wk_sent :: "('x, 'key) sync_msg list"

type_synonym ('x, 'key) sync_runtime = "('x, 'key) worker option"

definition sync_start :: "('x, 'key) sync_job \<Rightarrow> ('x, 'key) sync_runtime" where
  "sync_start j = Some \<lparr>wk_job = Some j, wk_sent = []\<rparr>"

definition is_done :: "('x, 'key) sync_msg \<Rightarrow> bool" where
  "is_done m = (case m of SyncDone _ \<Rightarrow> True | _ \<Rightarrow> False)"

fun drain_until_done :: "('x, 'key) sync_msg list \<Rightarrow> ('x, 'key) sync_msg list \<times> ('x, 'key) sync_msg list \<times> bool" where
  "drain_until_done [] = ([], [], False)"
| "drain_until_done (m # ms) = (if is_done m then ([m], ms, True)
     else (case drain_until_done ms of (xs, rest, fin) \<Rightarrow> (m # xs, rest, fin)))"

text \<open>All that was sent, up to the result; a dead worker without a result is reported as lost. Either ends the sync.\<close>

definition sync_drain :: "('x, 'key) sync_runtime \<Rightarrow> ('x, 'key) sync_msg list \<times> ('x, 'key) sync_runtime" where
  "sync_drain r = (case r of None \<Rightarrow> ([], None)
   | Some w \<Rightarrow> (case drain_until_done (wk_sent w) of (ms, rest, fin) \<Rightarrow>
       if fin then (ms, None)
       else if wk_job w = None then (ms @ [SyncWorkerLost], None)
       else (ms, Some (w\<lparr>wk_sent := rest\<rparr>))))"

text \<open>The worker: it may report activity, it runs the engine once and hands everything back, or it panics, which drops the vault.\<close>

type_synonym ('x, 'key) engine =
  "('x, 'key) sync_job \<Rightarrow> disk \<Rightarrow> ((sync_error + sync_outcome) \<times> ('x, 'key) app_vault \<times> app_registry) \<times> disk"

datatype worker_event = WorkerPings | WorkerFinishes | WorkerPanics

definition worker_step ::
    "('x, 'key) engine \<Rightarrow> worker_event \<Rightarrow> ('x, 'key) sync_runtime \<Rightarrow> disk \<Rightarrow> ('x, 'key) sync_runtime \<times> disk" where
  "worker_step G ev r d = (case r of None \<Rightarrow> (r, d) | Some w \<Rightarrow> (case wk_job w of None \<Rightarrow> (r, d)
   | Some j \<Rightarrow> (case ev of
       WorkerPings \<Rightarrow> (Some (w\<lparr>wk_sent := wk_sent w @ [SyncActivity]\<rparr>), d)
     | WorkerPanics \<Rightarrow> (Some (w\<lparr>wk_job := None\<rparr>), disk_unlock (v_lock (jb_vault j)) d)
     | WorkerFinishes \<Rightarrow> (case G j d of ((out, v, reg), d') \<Rightarrow>
         (Some (w\<lparr>wk_job := None, wk_sent := wk_sent w @ [SyncDone
            \<lparr>rs_vault = v, rs_registry = reg, rs_outcome = out, rs_trigger = jb_trigger j\<rparr>]\<rparr>), d')))))"

section \<open>The application state\<close>

datatype phase = UnlockList | UnlockPrompt string password_input nat | LockScreen | Workspace

datatype tree_mode = TreeNormal | TreeVisual nat

datatype overlay =
    OvSearch search_state
  | OvEdit edit_state
  | OvHistory history_state
  | OvConfirmDelete uuid string
  | OvConfirmBulkDelete "uuid list" "string list"
  | OvConfirmQuit
  | OvGroupPicker group_picker
  | OvTagInput tag_input
  | OvSyncUnlock password_input sync_trigger
  | OvSyncConfig "(auth_error + sync_error) sync_config_state"
  | OvPalette palette_state

datatype mouse_target =
    MouseTreeRow nat | MouseDetail | MouseTab nat | MouseHintMore | MouseSearchRow nat | MousePaletteRow nat

record ('x, 'key) app =
  a_phase :: phase
  a_vault :: "('x, 'key) app_vault option"
  a_registry :: "app_registry option"
  a_paths :: falach_paths
  a_ui :: "toml_value tui_config"
  a_user :: user_config
  a_user_path :: path
  a_recents :: recents
  a_notices :: "string list"
  a_controller :: controller
  a_keys :: "key_row list"
  a_theme_light :: bool
  a_mouse :: bool
  a_read_only :: bool
  a_selected_vault :: "string option"
  a_list_index :: nat
  a_status :: "string option"
  a_tabs :: tab_bar
  a_bar :: status_bar
  a_tree :: tree_state
  a_jumps :: jump_history
  a_mode :: tree_mode
  a_marks :: "uuid set"
  a_regions :: "(screen_rect \<times> mouse_target) list"
  a_focus :: pane
  a_reveal :: bool
  a_scroll :: nat
  a_pending :: pending_seq
  a_overlay :: "overlay option"
  a_sync :: "('x, 'key) sync_runtime"
  a_lock_pending :: bool
  a_settings_index :: nat
  a_sync_status :: "string option"
  a_should_quit :: bool
  a_disk :: disk

text \<open>The world of one step. The texts of errors, the formatting of times, the number of lines of the detail pane and
  the choice of a theme are arguments; dashes and arrows of messages are written in ASCII; \<open>e_fresh i\<close> is the identifier the \<open>i\<close>-th operation of a batch may draw.\<close>

record ('x, 'key) app_env =
  e_kdbx :: "('x db, 'key) kdbx"
  e_toml :: "toml_value toml"
  e_codec :: "(credential_source, toml_value) config_codec"
  e_prefs :: prefs_codec
  e_ui :: "toml_value ui_codec"
  e_unicode :: unicode
  e_words :: word_bounds
  e_generator :: generator
  e_clipboard :: "string \<Rightarrow> security_error + unit"
  e_auth :: auth_host
  e_draws :: "(string + bytes) \<times> (string + bytes)"
  e_now :: nat
  e_start :: time
  e_time :: time
  e_fresh :: "nat \<Rightarrow> uuid"
  e_blank :: 'x
  e_handle :: nat
  e_format :: "time \<Rightarrow> string"
  e_lines :: "'x db \<Rightarrow> uuid \<Rightarrow> bool \<Rightarrow> nat option"
  e_theme_names :: "string list"
  e_resolve_theme :: "theme_cfg \<Rightarrow> string option \<Rightarrow> string list \<times> bool"
  e_show_vault :: "vault_error \<Rightarrow> string"
  e_show_sync :: "sync_error \<Rightarrow> string"
  e_show_security :: "security_error \<Rightarrow> string"
  e_show_config :: "config_error \<Rightarrow> string"
  e_show_ui :: "tui_error \<Rightarrow> string"

definition say :: "('x, 'key) app_env \<Rightarrow> severity \<Rightarrow> string \<Rightarrow> ('x, 'key) app \<Rightarrow> ('x, 'key) app" where
  "say E s m a = a\<lparr>a_bar := set_with s m (e_now E)\<rparr>"

definition is_syncing :: "('x, 'key) app \<Rightarrow> bool" where
  "is_syncing a = (a_sync a \<noteq> None)"

definition the_db :: "('x, 'key) app \<Rightarrow> 'x db option" where
  "the_db a = map_option v_database (a_vault a)"

definition app_entry :: "uuid \<Rightarrow> ('x, 'key) app \<Rightarrow> 'x entry option" where
  "app_entry u a = Option.bind (the_db a) (\<lambda>db. case get_entry u db of Inl _ \<Rightarrow> None | Inr e \<Rightarrow> Some e)"

definition selected_entry_uuid :: "('x, 'key) app \<Rightarrow> uuid option" where
  "selected_entry_uuid a = Option.bind (ts_selected (a_tree a)) (\<lambda>u. map_option (\<lambda>_. u) (app_entry u a))"

definition entry_title :: "('x, 'key) app \<Rightarrow> uuid \<Rightarrow> string" where
  "entry_title a u = (case app_entry u a of None \<Rightarrow> ''(entry)''
   | Some e \<Rightarrow> let t = field_or_empty f_title e in if t = [] then ''(untitled)'' else t)"

definition group_name_for :: "('x, 'key) app \<Rightarrow> uuid \<Rightarrow> string" where
  "group_name_for a g = (case Option.bind (the_db a) (\<lambda>db. group_at db g) of None \<Rightarrow> ''(group)'' | Some gr \<Rightarrow> gr_name gr)"

definition app_rows :: "('x, 'key) app_env \<Rightarrow> ('x, 'key) app \<Rightarrow> tree_row list option option" where
  "app_rows E a = (case the_db a of None \<Rightarrow> Some None
   | Some db \<Rightarrow> map_option Some (build_rows (e_unicode E) db (a_tree a) (a_recents a)))"

section \<open>Saving (app.rs)\<close>

definition persist_vault :: "('x, 'key) app_env \<Rightarrow> (('x, 'key) app, persist_error, unit) act" where
  "persist_vault E a =
     (if a_read_only a then (Inl ReadOnlySession, say E SevWarning ''Read-only session - vault not saved.'' a)
      else (case a_vault a of None \<Rightarrow> (Inr (), a)
        | Some v \<Rightarrow> (case vault_save (e_kdbx E) v (a_disk a) of (r, d) \<Rightarrow> (map_err VaultFailed r, a\<lparr>a_disk := d\<rparr>))))"

definition show_persist :: "('x, 'key) app_env \<Rightarrow> persist_error \<Rightarrow> string" where
  "show_persist E e = (case e of ReadOnlySession \<Rightarrow> ''read-only session - vault not saved'' | VaultFailed v \<Rightarrow> e_show_vault E v)"

definition save_ui_config :: "('x, 'key) app_env \<Rightarrow> ('x, 'key) app \<Rightarrow> ('x, 'key) app" where
  "save_ui_config E a = (case tui_save (e_ui E) (config_path (a_paths a)) (a_ui a) (a_disk a) of
     (Inr _, d) \<Rightarrow> a\<lparr>a_disk := d\<rparr>
   | (Inl e, d) \<Rightarrow> say E SevError (''Could not save tui.toml: '' @ e_show_ui E e) (a\<lparr>a_disk := d\<rparr>))"

definition persist_ui_state :: "('x, 'key) app_env \<Rightarrow> ('x, 'key) app \<Rightarrow> ('x, 'key) app" where
  "persist_ui_state E a = (case a_selected_vault a of None \<Rightarrow> a
   | Some name \<Rightarrow> if a_vault a = None then a
       else save_ui_config E (a\<lparr>a_ui := set_vault_state name (tb_pinned (a_tabs a)) (a_recents a) (a_ui a)\<rparr>))"

text \<open>The preferences after the update, and whether it was stored.\<close>

definition update_user_config ::
    "('x, 'key) app_env \<Rightarrow> (user_config \<Rightarrow> user_config) \<Rightarrow> ('x, 'key) app \<Rightarrow> bool \<times> ('x, 'key) app" where
  "update_user_config E f a = (case update_at (e_prefs E) (a_user_path a) (e_handle E) f (a_disk a) of
     (Inr latest, d) \<Rightarrow> (True, a\<lparr>a_disk := d, a_user := latest\<rparr>)
   | (Inl e, d) \<Rightarrow> (False, say E SevError (e_show_config E e) (a\<lparr>a_disk := d\<rparr>)))"

section \<open>The per-vault lock timeout (app.rs)\<close>

definition lock_seconds :: "('x, 'key) app \<Rightarrow> nat option option" where
  "lock_seconds a = (case a_selected_vault a of None \<Rightarrow> Some None
   | Some name \<Rightarrow> map_option (\<lambda>r. Option.bind (registry_get r name) (\<lambda>v. idle_timeout_seconds_from_extra (rv_extra v))) (a_registry a))"

definition current_auto_lock_seconds :: "('x, 'key) app \<Rightarrow> nat option" where
  "current_auto_lock_seconds a = map_option (\<lambda>s. case s of Some n \<Rightarrow> n | None \<Rightarrow> al_timeout default_auto_lock div from_secs 1) (lock_seconds a)"

definition vault_auto_lock_override :: "('x, 'key) app \<Rightarrow> auto_lock_config option option" where
  "vault_auto_lock_override a = map_option (\<lambda>s. case s of None \<Rightarrow> None
     | Some n \<Rightarrow> let cfg = \<lparr>al_timeout = from_secs n\<rparr> in if is_ok (validate_config cfg) then Some cfg else None) (lock_seconds a)"

definition arm_auto_lock :: "nat \<Rightarrow> ('x, 'key) app \<Rightarrow> ('x, 'key) app option" where
  "arm_auto_lock now a = map_option (\<lambda>over. a\<lparr>a_controller := (case over of
       None \<Rightarrow> unlock now (a_controller a)
     | Some cfg \<Rightarrow> (case new_controller cfg of Inr c \<Rightarrow> unlock now c | Inl _ \<Rightarrow> unlock now (a_controller a)))\<rparr>)
     (vault_auto_lock_override a)"

definition set_auto_lock :: "('x, 'key) app_env \<Rightarrow> nat \<Rightarrow> ('x, 'key) app \<Rightarrow> ('x, 'key) app option" where
  "set_auto_lock E seconds a = (case a_selected_vault a of None \<Rightarrow> Some a
   | Some name \<Rightarrow> Option.bind (a_registry a) (\<lambda>r.
       case update_registered_extra (e_toml E) r name (apply_idle_timeout (Some seconds)) (e_handle E) (a_disk a) of
         (Inl e, d) \<Rightarrow> Some (say E SevError (''Could not save auto-lock: '' @ e_show_vault E e) (a\<lparr>a_disk := d\<rparr>))
       | (Inr r', d) \<Rightarrow> map_option
           (say E SevSuccess (''Auto-lock: '' @ show_nat (seconds div 60) @ '' min (saved)''))
           (arm_auto_lock (e_now E) (a\<lparr>a_disk := d, a_registry := Some r'\<rparr>))))"

definition AUTO_LOCK_CYCLE_SECS :: "nat list" where
  "AUTO_LOCK_CYCLE_SECS = [60, 300, 600, 900, 1800]"

definition cycle_auto_lock :: "('x, 'key) app_env \<Rightarrow> ('x, 'key) app \<Rightarrow> ('x, 'key) app option" where
  "cycle_auto_lock E a = Option.bind (current_auto_lock_seconds a) (\<lambda>current.
     set_auto_lock E (AUTO_LOCK_CYCLE_SECS ! (case index_of current AUTO_LOCK_CYCLE_SECS of
       None \<Rightarrow> 0 | Some i \<Rightarrow> (i + 1) mod length AUTO_LOCK_CYCLE_SECS)) a)"

section \<open>Locking and the end of a sync (app.rs)\<close>

text \<open>Dropping the vault releases its lock on the file.\<close>

definition drop_vault :: "('x, 'key) app \<Rightarrow> ('x, 'key) app" where
  "drop_vault a = (case a_vault a of None \<Rightarrow> a | Some v \<Rightarrow> a\<lparr>a_vault := None, a_disk := disk_unlock (v_lock v) (a_disk a)\<rparr>)"

definition lock_app :: "('x, 'key) app \<Rightarrow> ('x, 'key) app" where
  "lock_app a = (drop_vault a)\<lparr>a_status := None, a_overlay := None, a_jumps := jump_clear (a_jumps a), a_mode := TreeNormal,
     a_marks := {}, a_phase := LockScreen\<rparr>"

definition recover_from_lost_worker :: "('x, 'key) app_env \<Rightarrow> ('x, 'key) app \<Rightarrow> ('x, 'key) app" where
  "recover_from_lost_worker E a = (case registry_load (e_toml E) (a_paths a) (a_disk a) of (r, d) \<Rightarrow>
     let message = ''Sync worker failed unexpectedly; vault locked.''
     in (lock_app (a\<lparr>a_registry := Some (case r of Inr reg \<Rightarrow> reg | Inl _ \<Rightarrow> with_paths (a_paths a)), a_disk := d,
          a_lock_pending := False, a_sync_status := Some message\<rparr>))\<lparr>a_status := Some message\<rparr>)"

definition outcome_message :: "sync_outcome \<Rightarrow> string" where
  "outcome_message out = (case out of
     AlreadyInSync \<Rightarrow> ''Up to date.''
   | Pushed _ \<Rightarrow> ''Synced ^.''
   | FastReplaced \<Rightarrow> ''Updated from remote.''
   | Merged delta _ \<Rightarrow> ''Merged: '' @ show_nat (length (ed_added delta)) @ '' added . '' @ show_nat (length (ed_modified delta))
       @ '' changed . '' @ show_nat (length (ed_removed delta)) @ '' removed.'')"

definition surface_outcome :: "sync_outcome \<Rightarrow> nat \<Rightarrow> ('x, 'key) app \<Rightarrow> ('x, 'key) app" where
  "surface_outcome out now a = a\<lparr>a_bar := set_with SevSuccess (outcome_message out) now, a_sync_status := Some (outcome_message out)\<rparr>"

definition reclamp_tree_selection :: "('x, 'key) app_env \<Rightarrow> ('x, 'key) app \<Rightarrow> ('x, 'key) app option" where
  "reclamp_tree_selection E a0 = (let a = a0\<lparr>a_scroll := 0\<rparr> in
     map_option (\<lambda>rows. case rows of None \<Rightarrow> a
       | Some rs \<Rightarrow> (case ts_selected (a_tree a) of
           Some u \<Rightarrow> if u \<in> set (map tr_uuid rs) then a else a\<lparr>a_tree := select_first rs (a_tree a)\<rparr>
         | None \<Rightarrow> a\<lparr>a_tree := select_first rs (a_tree a)\<rparr>)) (app_rows E a))"

definition sync_error_message :: "('x, 'key) app_env \<Rightarrow> sync_error \<Rightarrow> string" where
  "sync_error_message E e = (case e of
     Unresolvable _ _ \<Rightarrow> ''Sync conflict needs manual resolution: '' @ e_show_sync E e @ ''. Pre-merge state kept as a .kdbx.bak file.''
   | _ \<Rightarrow> ''Sync failed: '' @ e_show_sync E e)"

definition retain_marks :: "('x, 'key) app \<Rightarrow> ('x, 'key) app" where
  "retain_marks a = (let marks = {u \<in> a_marks a. app_entry u a \<noteq> None}
     in a\<lparr>a_marks := marks, a_mode := (if marks = {} then TreeNormal else a_mode a)\<rparr>)"

definition integrate_sync_result ::
    "('x, 'key) app_env \<Rightarrow> ('x, 'key) sync_result \<Rightarrow> nat \<Rightarrow> ('x, 'key) app \<Rightarrow> ('x, 'key) app option" where
  "integrate_sync_result E rs now a0 = (let a = a0\<lparr>a_registry := Some (rs_registry rs)\<rparr> in case rs_outcome rs of
     Inr out \<Rightarrow> Option.bind (reclamp_tree_selection E (surface_outcome out now (a\<lparr>a_vault := Some (rs_vault rs)\<rparr>))) (\<lambda>a1.
       let a2 = retain_marks a1
       in Some (if a_lock_pending a2 then lock_app (a2\<lparr>a_lock_pending := False\<rparr>)
         else (case rs_trigger rs of
             TrigOnLock \<Rightarrow> lock_app a2
           | TrigOnQuit \<Rightarrow> a2\<lparr>a_should_quit := True\<rparr>
           | _ \<Rightarrow> a2)))
   | Inl e \<Rightarrow> let message = sync_error_message E e
       in Some ((lock_app (a\<lparr>a_disk := disk_unlock (v_lock (rs_vault rs)) (a_disk a), a_lock_pending := False,
            a_sync_status := Some message\<rparr>))\<lparr>a_status := Some message\<rparr>))"

definition on_sync_message ::
    "('x, 'key) app_env \<Rightarrow> nat \<Rightarrow> ('x, 'key) sync_msg \<Rightarrow> ('x, 'key) app \<Rightarrow> ('x, 'key) app option" where
  "on_sync_message E now m a = (case m of
     SyncActivity \<Rightarrow> Some (a\<lparr>a_controller := register_activity now (a_controller a)\<rparr>)
   | SyncDone rs \<Rightarrow> integrate_sync_result E rs now a
   | SyncWorkerLost \<Rightarrow> Some (recover_from_lost_worker E a))"

fun on_sync_messages ::
    "('x, 'key) app_env \<Rightarrow> nat \<Rightarrow> ('x, 'key) sync_msg list \<Rightarrow> ('x, 'key) app \<Rightarrow> ('x, 'key) app option" where
  "on_sync_messages E now [] a = Some a"
| "on_sync_messages E now (m # ms) a = Option.bind (on_sync_message E now m a) (on_sync_messages E now ms)"

text \<open>\<open>tick\<close>: the messages of the worker first, then the clock. A lock that is due while the worker holds the vault is
  noted for its return.\<close>

definition check_clock :: "nat \<Rightarrow> ('x, 'key) app \<Rightarrow> ('x, 'key) app" where
  "check_clock now a =
     (if a_vault a \<noteq> None \<or> is_syncing a then
        (case tick now (a_controller a) of (st, c) \<Rightarrow> let a1 = a\<lparr>a_controller := c\<rparr> in
           if st \<noteq> Locked then a1 else if a_vault a \<noteq> None then lock_app a1 else a1\<lparr>a_lock_pending := True\<rparr>)
      else a)"

definition app_tick :: "('x, 'key) app_env \<Rightarrow> nat \<Rightarrow> ('x, 'key) app \<Rightarrow> ('x, 'key) app option" where
  "app_tick E now a = (case sync_drain (a_sync a) of (ms, r) \<Rightarrow>
     map_option (check_clock now) (on_sync_messages E now ms (a\<lparr>a_bar := status_tick now (a_bar a), a_sync := r\<rparr>)))"

section \<open>Starting a sync, leaving (app.rs)\<close>

definition selected_sync_config :: "('x, 'key) app_env \<Rightarrow> ('x, 'key) app \<Rightarrow> (credential_source, toml_value) sync_config option" where
  "selected_sync_config E a = Option.bind (a_selected_vault a) (\<lambda>name. Option.bind (a_registry a) (\<lambda>r.
     Option.bind (registry_get r name) (from_vault_entry (e_codec E))))"

definition sync_configured :: "('x, 'key) app_env \<Rightarrow> ('x, 'key) app \<Rightarrow> bool" where
  "sync_configured E a = (selected_sync_config E a \<noteq> None)"

definition should_sync_on_leave :: "('x, 'key) app_env \<Rightarrow> ('x, 'key) app \<Rightarrow> bool" where
  "should_sync_on_leave E a = (\<not> a_read_only a \<and> sync_on_lock_quit (a_user a) \<and> a_vault a \<noteq> None \<and> sync_configured E a)"

definition start_sync :: "('x, 'key) app_env \<Rightarrow> sync_trigger \<Rightarrow> string \<Rightarrow> ('x, 'key) app \<Rightarrow> ('x, 'key) app" where
  "start_sync E trig pw a =
     (if a_read_only a then say E SevWarning ''Read-only session - sync disabled.'' a
      else (case (a_selected_vault a, a_vault a, a_registry a) of
          (Some name, Some v, Some r) \<Rightarrow> say E SevInfo ''Syncing...''
            (a\<lparr>a_vault := None, a_registry := None, a_sync_status := Some ''Syncing...'',
               a_sync := sync_start \<lparr>jb_vault = v, jb_registry = r, jb_name = name, jb_password = pw, jb_trigger = trig\<rparr>\<rparr>)
        | _ \<Rightarrow> a))"

definition request_sync :: "('x, 'key) app_env \<Rightarrow> ('x, 'key) app \<Rightarrow> ('x, 'key) app" where
  "request_sync E a =
     (if is_syncing a then say E SevInfo ''Sync already in progress.'' a
      else if \<not> sync_configured E a then say E SevWarning ''No sync target configured (Settings -> configure).'' a
      else a\<lparr>a_overlay := Some (OvSyncUnlock pi_new TrigManual)\<rparr>)"

definition request_lock :: "('x, 'key) app_env \<Rightarrow> ('x, 'key) app \<Rightarrow> ('x, 'key) app" where
  "request_lock E a =
     (if is_syncing a then say E SevInfo ''Will lock when the sync finishes.'' (a\<lparr>a_lock_pending := True\<rparr>)
      else if should_sync_on_leave E a then a\<lparr>a_overlay := Some (OvSyncUnlock pi_new TrigOnLock)\<rparr>
      else lock_app a)"

definition do_quit :: "('x, 'key) app_env \<Rightarrow> ('x, 'key) app \<Rightarrow> ('x, 'key) app" where
  "do_quit E a =
     (if a_phase a = Workspace \<and> \<not> is_syncing a \<and> should_sync_on_leave E a
      then a\<lparr>a_overlay := Some (OvSyncUnlock pi_new TrigOnQuit)\<rparr>
      else a\<lparr>a_should_quit := True\<rparr>)"

definition request_quit :: "('x, 'key) app_env \<Rightarrow> ('x, 'key) app \<Rightarrow> ('x, 'key) app" where
  "request_quit E a = (if confirm_quit (a_user a) then a\<lparr>a_overlay := Some OvConfirmQuit\<rparr> else do_quit E a)"

definition cancel_pending_sync :: "sync_trigger \<Rightarrow> ('x, 'key) app \<Rightarrow> ('x, 'key) app" where
  "cancel_pending_sync pending a = (case pending of
     TrigOnLock \<Rightarrow> lock_app a | TrigOnQuit \<Rightarrow> a\<lparr>a_should_quit := True\<rparr> | _ \<Rightarrow> a)"

section \<open>Unlocking (app.rs)\<close>

definition MAX_UNLOCK_ATTEMPTS :: nat where "MAX_UNLOCK_ATTEMPTS = 3"

definition open_unlock_prompt_for :: "string \<Rightarrow> ('x, 'key) app \<Rightarrow> ('x, 'key) app" where
  "open_unlock_prompt_for name a = a\<lparr>a_selected_vault := Some name, a_status := None, a_phase := UnlockPrompt name pi_new 0\<rparr>"

definition hydrate_workspace :: "('x, 'key) app \<Rightarrow> ('x, 'key) app" where
  "hydrate_workspace a =
     (let st = Option.bind (a_selected_vault a) (\<lambda>name. vault_state name (a_ui a));
          pinned = (case st of Some s \<Rightarrow> vu_pinned s | None \<Rightarrow> []);
          recents = (case st of Some s \<Rightarrow> recents_from_persisted (vu_recents s) | None \<Rightarrow> [])
      in a\<lparr>a_tabs := with_pins (filter (\<lambda>u. app_entry u a \<noteq> None) pinned), a_recents := recents\<rparr>)"

definition reset_secrets_view :: "('x, 'key) app_env \<Rightarrow> ('x, 'key) app \<Rightarrow> ('x, 'key) app option" where
  "reset_secrets_view E a0 =
     (let a1 = a0\<lparr>a_tree := with_sort (cfg_default_sort (a_user a0)), a_focus := TreePane, a_reveal := False, a_scroll := 0\<rparr>;
          a = (if a_notices a1 = [] then a1 else say E SevWarning (join ''; '' (a_notices a1)) (a1\<lparr>a_notices := []\<rparr>))
      in map_option (\<lambda>rows. case rows of None \<Rightarrow> a | Some rs \<Rightarrow> a\<lparr>a_tree := select_first rs (a_tree a)\<rparr>) (app_rows E a))"

text \<open>The vault is open: arm the clock, load its tabs, show the tree, and sync when that is asked for.\<close>

definition enter_workspace :: "('x, 'key) app_env \<Rightarrow> string \<Rightarrow> string \<Rightarrow> ('x, 'key) app_vault \<Rightarrow> ('x, 'key) app \<Rightarrow> ('x, 'key) app option" where
  "enter_workspace E name typed v a =
     Option.bind (arm_auto_lock (e_now E) (a\<lparr>a_vault := Some v, a_selected_vault := Some name\<rparr>)) (\<lambda>a1.
     map_option (\<lambda>a2. let a3 = a2\<lparr>a_phase := Workspace\<rparr>
         in if sync_on_unlock (a_user a3) \<and> sync_configured E a3 then start_sync E TrigOnUnlock typed a3 else a3)
       (reset_secrets_view E ((hydrate_workspace a1)\<lparr>a_pending := no_pending\<rparr>)))"

definition try_unlock :: "('x, 'key) app_env \<Rightarrow> ('x, 'key) app \<Rightarrow> ('x, 'key) app option" where
  "try_unlock E a = (case a_phase a of
     UnlockPrompt name inp attempts \<Rightarrow>
       (case Option.bind (a_registry a) (\<lambda>r. registry_get r name) of
          None \<Rightarrow> Some (a\<lparr>a_phase := UnlockList\<rparr>)
        | Some reg \<Rightarrow> (let typed = of_cps (pi_buffer inp) in
            case vault_open (e_kdbx E) (rv_path reg) typed None (e_handle E) (a_disk a) of
              (Inr v, d) \<Rightarrow> enter_workspace E name typed v (a\<lparr>a_disk := d, a_phase := UnlockList\<rparr>)
            | (Inl AuthenticationFailed, d) \<Rightarrow> Some (
                if MAX_UNLOCK_ATTEMPTS \<le> attempts + 1
                then a\<lparr>a_disk := d, a_phase := UnlockList,
                  a_status := Some (show_nat MAX_UNLOCK_ATTEMPTS @ '' incorrect attempts; vault remains locked.'')\<rparr>
                else a\<lparr>a_disk := d, a_phase := UnlockPrompt name pi_new (attempts + 1)\<rparr>)
            | (Inl e, d) \<Rightarrow> Some (a\<lparr>a_disk := d, a_phase := UnlockList,
                a_status := Some (''Could not open vault: '' @ e_show_vault E e)\<rparr>)))
   | _ \<Rightarrow> Some a)"

definition on_unlock_prompt_key :: "('x, 'key) app_env \<Rightarrow> key_event \<Rightarrow> ('x, 'key) app \<Rightarrow> ('x, 'key) app option" where
  "on_unlock_prompt_key E k a = (case a_phase a of
     UnlockPrompt name inp attempts \<Rightarrow> Option.bind (pi_on_key (input_key_of k) inp) (\<lambda>(act, inp').
       let a1 = a\<lparr>a_phase := UnlockPrompt name inp' attempts\<rparr> in case act of
         InputContinue \<Rightarrow> Some a1
       | InputCancel \<Rightarrow> Some (a1\<lparr>a_phase := UnlockList\<rparr>)
       | InputSubmit \<Rightarrow> try_unlock E a1)
   | _ \<Rightarrow> Some a)"

definition on_lock_screen_key :: "('x, 'key) app \<Rightarrow> ('x, 'key) app option" where
  "on_lock_screen_key a = (case a_selected_vault a of
     None \<Rightarrow> Some (a\<lparr>a_phase := UnlockList\<rparr>)
   | Some name \<Rightarrow> map_option (\<lambda>r. a\<lparr>a_phase := UnlockList, a_list_index :=
       (case position (\<lambda>v. rv_name v = name) (reg_vaults r) of Some i \<Rightarrow> i | None \<Rightarrow> a_list_index a)\<rparr>) (a_registry a))"

definition unlock_list_nav :: "command \<Rightarrow> ('x, 'key) app \<Rightarrow> ('x, 'key) app option" where
  "unlock_list_nav c a = map_option (\<lambda>r. let n = length (reg_vaults r) in
     if n = 0 then a
     else if c = Next then a\<lparr>a_list_index := min (a_list_index a + 1) (n - 1)\<rparr>
     else if c = Prev then a\<lparr>a_list_index := a_list_index a - 1\<rparr>
     else if c = Confirm \<and> a_list_index a < n then open_unlock_prompt_for (rv_name (reg_vaults r ! a_list_index a)) a
     else a) (a_registry a)"

end
