(* ===== verification/SessionKeys.thy ===== *)
theory SessionKeys
  imports Session
begin

text \<open>
  What keys, commands and the mouse do to the application (\<open>falach-tui/src/app.rs\<close>): navigation, search, marks and batch
  operations, the settings rows, the overlays, and the single path on which every command runs.
\<close>

section \<open>The tree\<close>

text \<open>The first result of a list of calls that may not return.\<close>

fun option_first :: "('a \<Rightarrow> 'b option option) \<Rightarrow> 'a list \<Rightarrow> 'b option option" where
  "option_first f [] = Some None"
| "option_first f (x # xs) = Option.bind (f x) (\<lambda>r. case r of Some y \<Rightarrow> Some (Some y) | None \<Rightarrow> option_first f xs)"

lemma option_first_mono [partial_function_mono]:
  assumes "\<And>x. mono_option (\<lambda>f. B x f)"
  shows "mono_option (\<lambda>f. option_first (\<lambda>x. B x f) xs)"
proof (induction xs)
  case (Cons x xs)
  have "mono_option (\<lambda>f. case y of None \<Rightarrow> option_first (\<lambda>x. B x f) xs | Some z \<Rightarrow> Some (Some z))" for y
    using Cons by (cases y) (auto intro!: partial_function_mono)
  then show ?case by (auto intro!: partial_function_mono assms)
qed (auto intro!: partial_function_mono)

partial_function (option) node_path :: "'x db \<Rightarrow> uuid \<Rightarrow> uuid \<Rightarrow> uuid list option option" where
  "node_path db g target = (case group_at db g of
     None \<Rightarrow> Some None
   | Some gr \<Rightarrow> if target \<in> set (entry_uuids gr) then Some (Some [target])
       else option_first (\<lambda>c. if c = target then Some (Some [c])
           else Option.bind (node_path db c target) (\<lambda>r. Some (map_option (Cons c) r))) (child_group_uuids gr))"

definition path_to :: "uuid \<Rightarrow> ('x, 'key) app \<Rightarrow> uuid list option option" where
  "path_to u a = (case the_db a of None \<Rightarrow> Some None | Some db \<Rightarrow> node_path db (db_root db) u)"

definition expand_all :: "uuid list \<Rightarrow> tree_state \<Rightarrow> tree_state" where
  "expand_all gs t = fold expand_group gs t"

definition expand_ancestors :: "uuid \<Rightarrow> ('x, 'key) app \<Rightarrow> ('x, 'key) app option" where
  "expand_ancestors u a = map_option (\<lambda>p. case p of None \<Rightarrow> a
     | Some path \<Rightarrow> a\<lparr>a_tree := expand_all (butlast path) (a_tree a)\<rparr>) (path_to u a)"

definition is_group_node :: "uuid \<Rightarrow> ('x, 'key) app \<Rightarrow> bool" where
  "is_group_node u a = (case the_db a of None \<Rightarrow> False | Some db \<Rightarrow> group_at db u \<noteq> None)"

definition current_tree_group :: "('x, 'key) app \<Rightarrow> uuid option option" where
  "current_tree_group a = (case (the_db a, ts_selected (a_tree a)) of
     (Some db, Some u) \<Rightarrow> if is_group_node u a then Some (Some u)
       else map_option (\<lambda>p. case p of None \<Rightarrow> None
         | Some path \<Rightarrow> if 2 \<le> length path then Some (path ! (length path - 2)) else None) (path_to u a)
   | _ \<Rightarrow> Some None)"

definition add_target_group :: "('x, 'key) app_env \<Rightarrow> ('x, 'key) app \<Rightarrow> uuid option" where
  "add_target_group E a = (case the_db a of None \<Rightarrow> Some 0
   | Some db \<Rightarrow> (case ts_selected (a_tree a) of None \<Rightarrow> Some (db_root db)
     | Some u \<Rightarrow> if is_group_node u a then Some u
       else map_option (\<lambda>rows. case Option.bind rows (\<lambda>rs. Option.bind (index_of u (map tr_uuid rs)) (\<lambda>i.
             find (\<lambda>r. tr_depth r < tr_depth (rs ! i)) (rev (take i rs)))) of
           Some r \<Rightarrow> tr_uuid r | None \<Rightarrow> db_root db) (app_rows E a)))"

section \<open>Visiting entries\<close>

definition visit :: "('x, 'key) app_env \<Rightarrow> uuid \<Rightarrow> ('x, 'key) app \<Rightarrow> ('x, 'key) app" where
  "visit E u a = persist_ui_state E (a\<lparr>a_recents := recents_bump u (a_recents a)\<rparr>)"

definition enter_detail :: "('x, 'key) app_env \<Rightarrow> uuid \<Rightarrow> ('x, 'key) app \<Rightarrow> ('x, 'key) app" where
  "enter_detail E u a = visit E u (a\<lparr>a_jumps := jump_push u (a_jumps a), a_focus := DetailPane\<rparr>)"

definition to_tab :: "nat \<Rightarrow> ('x, 'key) app \<Rightarrow> ('x, 'key) app option" where
  "to_tab n a = map_option (\<lambda>b. a\<lparr>a_tabs := b\<rparr>) (tab_jump_to n (a_tabs a))"

definition jump_to_entry :: "('x, 'key) app_env \<Rightarrow> uuid \<Rightarrow> ('x, 'key) app \<Rightarrow> ('x, 'key) app option" where
  "jump_to_entry E u a = Option.bind (expand_ancestors u a) (\<lambda>a1.
     map_option (\<lambda>a2. visit E u (a2\<lparr>a_tree := select_node u (a_tree a2), a_focus := DetailPane, a_reveal := False, a_scroll := 0\<rparr>))
       (to_tab 1 (a1\<lparr>a_jumps := jump_push u (a_jumps a1)\<rparr>)))"

definition jump_to_history :: "('x, 'key) app_env \<Rightarrow> uuid \<Rightarrow> ('x, 'key) app \<Rightarrow> ('x, 'key) app option" where
  "jump_to_history E u a =
     (if a_vault a = None then Some a
      else Option.bind (expand_ancestors u a) (\<lambda>a1. map_option (\<lambda>a2.
        let a3 = a2\<lparr>a_tree := select_node u (a_tree a2), a_reveal := False, a_scroll := 0\<rparr>
        in if is_group_node u a then a3\<lparr>a_focus := TreePane\<rparr> else visit E u (a3\<lparr>a_focus := DetailPane\<rparr>)) (to_tab 1 a1)))"

definition current_jump_uuid :: "('x, 'key) app \<Rightarrow> uuid option option" where
  "current_jump_uuid a = map_option (\<lambda>t. case t of PinnedTab u \<Rightarrow> Some u | _ \<Rightarrow> ts_selected (a_tree a)) (active_tab (a_tabs a))"

definition jump_command ::
    "('x, 'key) app_env \<Rightarrow> (uuid \<Rightarrow> jump_history \<Rightarrow> uuid option \<times> jump_history) \<Rightarrow> string \<Rightarrow> ('x, 'key) app \<Rightarrow> ('x, 'key) app option" where
  "jump_command E walk_history nothing a = Option.bind (current_jump_uuid a) (\<lambda>cur. case cur of None \<Rightarrow> Some a
     | Some u \<Rightarrow> (case walk_history u (a_jumps a) of
         (Some target, h) \<Rightarrow> jump_to_history E target (a\<lparr>a_jumps := h\<rparr>)
       | (None, h) \<Rightarrow> Some (a\<lparr>a_jumps := h, a_status := Some nothing\<rparr>)))"

definition do_jump_back :: "('x, 'key) app_env \<Rightarrow> ('x, 'key) app \<Rightarrow> ('x, 'key) app option" where
  "do_jump_back E = jump_command E jump_back ''no earlier entry''"

definition do_jump_forward :: "('x, 'key) app_env \<Rightarrow> ('x, 'key) app \<Rightarrow> ('x, 'key) app option" where
  "do_jump_forward E = jump_command E jump_forward ''no later entry''"

section \<open>Marks\<close>

definition marked_uuids :: "('x, 'key) app \<Rightarrow> uuid list" where
  "marked_uuids a = sorted_list_of_set (a_marks a)"

definition recompute_visual_marks :: "('x, 'key) app_env \<Rightarrow> ('x, 'key) app \<Rightarrow> ('x, 'key) app option" where
  "recompute_visual_marks E a = (case a_mode a of TreeNormal \<Rightarrow> Some a
   | TreeVisual anchor \<Rightarrow> map_option (\<lambda>rows. case rows of None \<Rightarrow> a
     | Some rs \<Rightarrow> let cursor = (case selected_index (a_tree a) rs of Some i \<Rightarrow> i | None \<Rightarrow> anchor);
           lo = min anchor cursor; hi = max anchor cursor;
           span = (if hi < length rs then take (hi + 1 - lo) (drop lo rs) else [])
         in a\<lparr>a_marks := set (map tr_uuid (filter (\<lambda>r. tr_kind r = EntryRow) span))\<rparr>) (app_rows E a))"

definition enter_visual_mode :: "('x, 'key) app_env \<Rightarrow> ('x, 'key) app \<Rightarrow> ('x, 'key) app option" where
  "enter_visual_mode E a = Option.bind (app_rows E a) (\<lambda>rows. case rows of None \<Rightarrow> Some a
     | Some rs \<Rightarrow> recompute_visual_marks E (a\<lparr>a_mode := TreeVisual (case selected_index (a_tree a) rs of Some i \<Rightarrow> i | None \<Rightarrow> 0)\<rparr>))"

definition toggle_current_mark :: "('x, 'key) app \<Rightarrow> ('x, 'key) app" where
  "toggle_current_mark a = (case selected_entry_uuid a of None \<Rightarrow> a
   | Some u \<Rightarrow> a\<lparr>a_marks := (if u \<in> a_marks a then a_marks a - {u} else insert u (a_marks a))\<rparr>)"

section \<open>Batch operations\<close>

text \<open>An operation on the vault in memory; it keeps what it changed before it failed.\<close>

definition on_app_vault :: "('x, 'a) Entries.vault_act \<Rightarrow> ('x, 'key) app \<Rightarrow> ((vault_error + 'a) \<times> ('x, 'key) app) option" where
  "on_app_vault m a = (case a_vault a of None \<Rightarrow> None
   | Some v \<Rightarrow> (case m (v_database v) of
       (Inl Panic, _) \<Rightarrow> None
     | (Inl (Failed e), db) \<Rightarrow> Some (Inl e, a\<lparr>a_vault := Some (v\<lparr>v_database := db\<rparr>)\<rparr>)
     | (Inr x, db) \<Rightarrow> Some (Inr x, a\<lparr>a_vault := Some (v\<lparr>v_database := db\<rparr>)\<rparr>)))"

text \<open>\<open>try_for_each\<close>: one after the other until one fails; each gets its place in the batch.\<close>

fun for_each :: "(nat \<Rightarrow> uuid \<Rightarrow> ('x, unit) Entries.vault_act) \<Rightarrow> nat \<Rightarrow> uuid list \<Rightarrow> ('x, unit) Entries.vault_act" where
  "for_each f i [] = areturn ()"
| "for_each f i (u # us) = abind (f i u) (\<lambda>_. for_each f (i + 1) us)"

definition require_entries :: "uuid list \<Rightarrow> ('x, unit) Entries.vault_act" where
  "require_entries us = for_each (\<lambda>_ u db. (case get_entry u db of Inl e \<Rightarrow> Inl (Failed e) | Inr _ \<Rightarrow> Inr (), db)) 0 us"

definition then_persist ::
    "('x, 'key) app_env \<Rightarrow> (vault_error + 'a) \<times> ('x, 'key) app \<Rightarrow> (persist_error + 'a) \<times> ('x, 'key) app" where
  "then_persist E p = (case p of
     (Inl e, a) \<Rightarrow> (Inl (VaultFailed e), a)
   | (Inr x, a) \<Rightarrow> (case persist_vault E a of (Inl e, a') \<Rightarrow> (Inl e, a') | (Inr _, a') \<Rightarrow> (Inr x, a')))"

definition entries_word :: "nat \<Rightarrow> string" where
  "entries_word n = show_nat n @ '' entr'' @ (if n = 1 then ''y'' else ''ies'')"

definition finish_bulk_op ::
    "('x, 'key) app_env \<Rightarrow> nat \<Rightarrow> string \<Rightarrow> (vault_error + unit) \<times> ('x, 'key) app \<Rightarrow> ('x, 'key) app" where
  "finish_bulk_op E n verb p = (case then_persist E p of
     (Inl e, a) \<Rightarrow> say E SevError (''Bulk '' @ verb @ '' failed: '' @ show_persist E e) a
   | (Inr _, a) \<Rightarrow> say E SevSuccess (verb @ '' '' @ entries_word n)
       (persist_ui_state E (a\<lparr>a_marks := {}, a_mode := TreeNormal\<rparr>)))"

text \<open>Without a vault nothing is done, and the batch counts as done.\<close>

definition on_vault_or_skip :: "('x, unit) Entries.vault_act \<Rightarrow> ('x, 'key) app \<Rightarrow> ((vault_error + unit) \<times> ('x, 'key) app) option" where
  "on_vault_or_skip m a = (if a_vault a = None then Some (Inr (), a) else on_app_vault m a)"

definition move_batch :: "('x, 'key) app_env \<Rightarrow> uuid \<Rightarrow> uuid list \<Rightarrow> ('x, unit) Entries.vault_act" where
  "move_batch E target us = abind (\<lambda>db. (if group_at db target = None then Inl (Failed (GroupNotFound target)) else Inr (), db)) (\<lambda>_.
     abind (require_entries us) (\<lambda>_. for_each (\<lambda>_ u. move_entry (e_time E) u target) 0 us))"

definition apply_move_to_group :: "('x, 'key) app_env \<Rightarrow> uuid \<Rightarrow> ('x, 'key) app \<Rightarrow> ('x, 'key) app option" where
  "apply_move_to_group E target a = (let us = marked_uuids a in
     map_option (finish_bulk_op E (length us) ''moved'') (on_vault_or_skip (move_batch E target us) a))"

definition tag_batch :: "('x, 'key) app_env \<Rightarrow> tag_action \<Rightarrow> string \<Rightarrow> uuid list \<Rightarrow> ('x, unit) Entries.vault_act" where
  "tag_batch E act tag us = abind (require_entries us) (\<lambda>_.
     for_each (\<lambda>_ u. update_entry (e_start E) (e_time E) u
       ([case act of TagAdd \<Rightarrow> AddTag tag | TagRemove \<Rightarrow> RemoveTag tag], None)) 0 us)"

definition apply_tag :: "('x, 'key) app_env \<Rightarrow> tag_action \<Rightarrow> string \<Rightarrow> ('x, 'key) app \<Rightarrow> ('x, 'key) app option" where
  "apply_tag E act raw a = (let us = marked_uuids a in
     map_option (finish_bulk_op E (length us) (case act of TagAdd \<Rightarrow> ''tagged'' | TagRemove \<Rightarrow> ''untagged''))
       (case tag_from raw of Inl e \<Rightarrow> Some (Inl e, a) | Inr tag \<Rightarrow> on_vault_or_skip (tag_batch E act tag us) a))"

text \<open>An entry that is gone leaves the recents and the tabs, and the selection moves to the first row.\<close>

definition forget_entry :: "uuid \<Rightarrow> ('x, 'key) app \<Rightarrow> ('x, 'key) app" where
  "forget_entry u a = a\<lparr>a_recents := recents_remove u (a_recents a),
     a_tabs := (if is_pinned (a_tabs a) u then snd (toggle_pin u (a_tabs a)) else a_tabs a)\<rparr>"

definition reselect :: "('x, 'key) app_env \<Rightarrow> uuid list \<Rightarrow> ('x, 'key) app \<Rightarrow> ('x, 'key) app option" where
  "reselect E gone a = (case ts_selected (a_tree a) of
     Some u \<Rightarrow> if u \<in> set gone then map_option (\<lambda>rows. a\<lparr>a_tree := select_first (case rows of None \<Rightarrow> [] | Some rs \<Rightarrow> rs) (a_tree a)\<rparr>)
         (app_rows E a) else Some a
   | None \<Rightarrow> Some a)"

definition perform_bulk_delete :: "('x, 'key) app_env \<Rightarrow> uuid list \<Rightarrow> ('x, 'key) app \<Rightarrow> ('x, 'key) app option" where
  "perform_bulk_delete E us a =
     Option.bind (on_vault_or_skip (abind (require_entries us) (\<lambda>_.
       for_each (\<lambda>i u. delete_entry (e_fresh E i) (e_time E) (e_blank E) u) 0 us)) a) (\<lambda>p. case then_persist E p of
         (Inl e, a1) \<Rightarrow> Some (say E SevError (''Bulk delete failed: '' @ show_persist E e) a1)
       | (Inr _, a1) \<Rightarrow> map_option (\<lambda>a2. say E SevSuccess (''deleted '' @ entries_word (length us)) (persist_ui_state E a2))
           (reselect E us ((fold forget_entry us a1)\<lparr>a_marks := {}, a_mode := TreeNormal\<rparr>)))"

definition perform_delete :: "('x, 'key) app_env \<Rightarrow> uuid \<Rightarrow> ('x, 'key) app \<Rightarrow> ('x, 'key) app option" where
  "perform_delete E u a =
     (if a_vault a = None then Some a
      else Option.bind (on_app_vault (delete_entry (e_fresh E 0) (e_time E) (e_blank E) u) a) (\<lambda>p. case then_persist E p of
         (Inl e, a1) \<Rightarrow> Some (say E SevError (''Delete failed: '' @ show_persist E e) a1)
       | (Inr _, a1) \<Rightarrow> map_option (\<lambda>a2. say E SevSuccess ''Entry deleted.'' (persist_ui_state E a2))
           (reselect E [u] (forget_entry u a1))))"

text \<open>Saving the form: the entry becomes the target of the form before the file is written, so that saving again
  updates it.\<close>

definition perform_save :: "('x, 'key) app_env \<Rightarrow> edit_state \<Rightarrow> ('x, 'key) app \<Rightarrow> (bool \<times> edit_state \<times> ('x, 'key) app) option" where
  "perform_save E s a = (case form_snapshot (e_unicode E) s of
     Inl e \<Rightarrow> Some (False, s\<lparr>es_error := Some e\<rparr>, a)
   | Inr v \<Rightarrow> if a_vault a = None then Some (False, s, a)
       else Option.bind (on_app_vault (case es_target s of
             Some u \<Rightarrow> abind (apply_update (e_start E) (e_time E) u v) (\<lambda>_. areturn u)
           | None \<Rightarrow> apply_add (e_fresh E 0) (e_time E) (e_blank E) (es_group s) v) a) (\<lambda>p.
         let s1 = (case fst p of Inr u \<Rightarrow> if es_target s = None then s\<lparr>es_target := Some u\<rparr> else s | Inl _ \<Rightarrow> s)
         in case then_persist E p of
           (Inl e, a1) \<Rightarrow> Some (False, s1\<lparr>es_error := Some (SaveFailed e)\<rparr>, a1)
         | (Inr u, a1) \<Rightarrow> (let t1 = (if es_is_new s then expand_group (es_group s) (a_tree a1) else a_tree a1)
             in Some (True, s1, say E SevSuccess (''Entry '' @ (if es_is_new s then ''added'' else ''updated'') @ ''.'')
               (visit E u (a1\<lparr>a_tree := select_node u t1\<rparr>))))))"

section \<open>Search\<close>

definition run_search :: "('x, 'key) app_env \<Rightarrow> ('x, 'key) app \<Rightarrow> search_state \<Rightarrow> search_state option" where
  "run_search E a s = (case the_db a of None \<Rightarrow> Some (set_results [] s)
   | Some db \<Rightarrow> map_option (\<lambda>rs. set_results (map (build_search_row db) rs) s)
       (search_database (e_unicode E)
         ((fuzzy_search (li_value (ss_input s)))\<lparr>so_scope := ss_scope s, so_boost := a_recents a\<rparr>) db))"

definition first_tag :: "uuid \<Rightarrow> ('x, 'key) app \<Rightarrow> string option" where
  "first_tag u a = Option.bind (app_entry u a) (\<lambda>e. case tags_from_entry (eb_tags (en_body e)) of [] \<Rightarrow> None | t # _ \<Rightarrow> Some t)"

definition first_tag_scope :: "search_state \<Rightarrow> ('x, 'key) app \<Rightarrow> search_scope option" where
  "first_tag_scope s a = Option.bind (search_selected_uuid s) (\<lambda>u. map_option ScopeTag (first_tag u a))"

definition or_all :: "search_scope option \<Rightarrow> search_scope" where
  "or_all s = (case s of None \<Rightarrow> ScopeAll | Some x \<Rightarrow> x)"

definition next_search_scope :: "search_state \<Rightarrow> ('x, 'key) app \<Rightarrow> search_scope option" where
  "next_search_scope s a = (case ss_scope s of
     ScopeAll \<Rightarrow> map_option (\<lambda>g. case g of Some g' \<Rightarrow> GroupSubtree g' | None \<Rightarrow> or_all (first_tag_scope s a)) (current_tree_group a)
   | GroupSubtree _ \<Rightarrow> Some (or_all (first_tag_scope s a))
   | ScopeTag _ \<Rightarrow> Some ScopeAll)"

definition opening_scope :: "('x, 'key) app \<Rightarrow> search_scope option" where
  "opening_scope a = (let w = sc_default_scope (uc_search (a_user a)) in
     if w = ''group'' then map_option (\<lambda>g. or_all (map_option GroupSubtree g)) (current_tree_group a)
     else if w = ''tag'' then Some (or_all (Option.bind (selected_entry_uuid a) (\<lambda>u. map_option ScopeTag (first_tag u a))))
     else Some ScopeAll)"

definition open_search :: "('x, 'key) app_env \<Rightarrow> ('x, 'key) app \<Rightarrow> ('x, 'key) app option" where
  "open_search E a = Option.bind (opening_scope a) (\<lambda>scope.
     map_option (\<lambda>s. a\<lparr>a_overlay := Some (OvSearch s)\<rparr>)
       (run_search E a (search_new scope \<lparr>sv_selected = ts_selected (a_tree a), sv_focus = a_focus a, sv_scroll = a_scroll a\<rparr>)))"

definition restore_saved_view :: "saved_view \<Rightarrow> ('x, 'key) app \<Rightarrow> ('x, 'key) app" where
  "restore_saved_view v a = a\<lparr>a_tree := (case sv_selected v of Some u \<Rightarrow> select_node u (a_tree a) | None \<Rightarrow> a_tree a),
     a_focus := sv_focus v, a_scroll := sv_scroll v\<rparr>"

datatype copy_field = CopyPasswordField | CopyUsernameField

definition copy_label :: "copy_field \<Rightarrow> string" where
  "copy_label f = (case f of CopyPasswordField \<Rightarrow> ''Password'' | CopyUsernameField \<Rightarrow> ''Username'')"

definition copy_field_of :: "('x, 'key) app_env \<Rightarrow> uuid \<Rightarrow> copy_field \<Rightarrow> ('x, 'key) app \<Rightarrow> ('x, 'key) app" where
  "copy_field_of E u f a = (case app_entry u a of None \<Rightarrow> a
   | Some e \<Rightarrow> (let t = field_or_empty (case f of CopyPasswordField \<Rightarrow> f_password | CopyUsernameField \<Rightarrow> f_username) e
       in if t = [] then say E SevWarning (copy_label f @ '' is empty.'') a
          else (case e_clipboard E t of
              Inr _ \<Rightarrow> visit E u (say E SevSuccess (copy_label f @ '' copied (clears in 30s).'') a)
            | Inl x \<Rightarrow> say E SevError (''Copy failed: '' @ e_show_security E x) a)))"

definition search_primary_action :: "('x, 'key) app_env \<Rightarrow> uuid \<Rightarrow> ('x, 'key) app \<Rightarrow> ('x, 'key) app option" where
  "search_primary_action E u a = (case sc_enter_action (uc_search (a_user a)) of
     EnterCopy \<Rightarrow> Some (copy_field_of E u CopyPasswordField a) | EnterOpen \<Rightarrow> jump_to_entry E u a)"

definition search_secondary_action :: "('x, 'key) app_env \<Rightarrow> uuid \<Rightarrow> ('x, 'key) app \<Rightarrow> ('x, 'key) app option" where
  "search_secondary_action E u a = (case sc_enter_action (uc_search (a_user a)) of
     EnterCopy \<Rightarrow> jump_to_entry E u a | EnterOpen \<Rightarrow> Some (copy_field_of E u CopyPasswordField a))"

section \<open>Opening overlays\<close>

definition with_overlay :: "overlay \<Rightarrow> ('x, 'key) app \<Rightarrow> ('x, 'key) app" where
  "with_overlay o' a = a\<lparr>a_overlay := Some o'\<rparr>"

definition open_add :: "('x, 'key) app_env \<Rightarrow> ('x, 'key) app \<Rightarrow> ('x, 'key) app option" where
  "open_add E a = map_option (\<lambda>g. with_overlay (OvEdit (new_add g)) a) (add_target_group E a)"

definition open_edit :: "('x, 'key) app_env \<Rightarrow> ('x, 'key) app \<Rightarrow> ('x, 'key) app" where
  "open_edit E a = (case selected_entry_uuid a of None \<Rightarrow> say E SevWarning ''Select an entry to edit.'' a
   | Some u \<Rightarrow> (case app_entry u a of None \<Rightarrow> a | Some e \<Rightarrow> with_overlay (OvEdit (from_entry (e_unicode E) u e)) a))"

definition open_delete_confirm :: "('x, 'key) app_env \<Rightarrow> ('x, 'key) app \<Rightarrow> ('x, 'key) app" where
  "open_delete_confirm E a =
     (if a_marks a \<noteq> {} then with_overlay (OvConfirmBulkDelete (marked_uuids a) (map (entry_title a) (marked_uuids a))) a
      else (case selected_entry_uuid a of None \<Rightarrow> say E SevWarning ''Select an entry to delete.'' a
        | Some u \<Rightarrow> with_overlay (OvConfirmDelete u (entry_title a u)) a))"

definition open_history_for :: "('x, 'key) app_env \<Rightarrow> uuid \<Rightarrow> ('x, 'key) app \<Rightarrow> ('x, 'key) app" where
  "open_history_for E u a = (case app_entry u a of None \<Rightarrow> a
   | Some e \<Rightarrow> with_overlay (OvHistory (from_views (e_format E) (entry_title a u) (view_history e))) a)"

definition open_history :: "('x, 'key) app_env \<Rightarrow> ('x, 'key) app \<Rightarrow> ('x, 'key) app" where
  "open_history E a = (case selected_entry_uuid a of
     None \<Rightarrow> say E SevWarning ''Select an entry to view its history.'' a | Some u \<Rightarrow> open_history_for E u a)"

definition do_copy :: "('x, 'key) app_env \<Rightarrow> copy_field \<Rightarrow> ('x, 'key) app \<Rightarrow> ('x, 'key) app" where
  "do_copy E f a = (case selected_entry_uuid a of
     None \<Rightarrow> say E SevWarning ''Select an entry first.'' a | Some u \<Rightarrow> copy_field_of E u f a)"

definition toggle_pin_selected :: "('x, 'key) app_env \<Rightarrow> ('x, 'key) app \<Rightarrow> ('x, 'key) app" where
  "toggle_pin_selected E a = (case ts_selected (a_tree a) of None \<Rightarrow> a
   | Some u \<Rightarrow> if app_entry u a = None then say E SevWarning ''Only entries can be pinned.'' a
       else (case toggle_pin u (a_tabs a) of (change, tabs) \<Rightarrow>
         persist_ui_state E (say E SevSuccess (case change of
             PinAdded \<Rightarrow> ''Pinned entry.''
           | Unpinned \<Rightarrow> ''Unpinned entry.''
           | PinnedEvicting old \<Rightarrow> ''Pinned entry; unpinned \"'' @ entry_title a old @ ''\" (max '' @ show_nat MAX_PINS @ '' pins).'')
           (a\<lparr>a_tabs := tabs\<rparr>))))"

definition open_group_picker :: "('x, 'key) app_env \<Rightarrow> ('x, 'key) app \<Rightarrow> ('x, 'key) app option" where
  "open_group_picker E a =
     (if a_read_only a \<or> a_marks a = {} then Some a
      else map_option (\<lambda>gs. with_overlay (OvGroupPicker (picker_new gs (card (a_marks a)))) a)
        (case the_db a of None \<Rightarrow> Some [] | Some db \<Rightarrow> collect_group_choices (e_unicode E) db))"

definition open_tag_input :: "tag_action \<Rightarrow> ('x, 'key) app \<Rightarrow> ('x, 'key) app" where
  "open_tag_input act a =
     (if a_read_only a \<or> a_marks a = {} then a else with_overlay (OvTagInput (tag_input_new act (card (a_marks a)))) a)"

definition open_sync_config :: "('x, 'key) app_env \<Rightarrow> ('x, 'key) app \<Rightarrow> ('x, 'key) app" where
  "open_sync_config E a =
     (if a_vault a = None then say E SevWarning ''Unlock a vault to configure sync.'' a
      else with_overlay (OvSyncConfig sync_form_new) a)"

section \<open>Settings\<close>

definition SETTINGS_ROW_COUNT :: nat where "SETTINGS_ROW_COUNT = 6"

definition current_theme_name :: "('x, 'key) app \<Rightarrow> string" where
  "current_theme_name a = (if a_theme_light a then tc_light (uc_theme (a_user a)) else tc_dark (uc_theme (a_user a)))"

definition set_theme_name :: "bool \<Rightarrow> string \<Rightarrow> user_config \<Rightarrow> user_config" where
  "set_theme_name light n c = c\<lparr>uc_theme := (if light then (uc_theme c)\<lparr>tc_light := n\<rparr> else (uc_theme c)\<lparr>tc_dark := n\<rparr>)\<rparr>"

definition cycle_theme :: "('x, 'key) app_env \<Rightarrow> ('x, 'key) app \<Rightarrow> ('x, 'key) app" where
  "cycle_theme E a = (let names = e_theme_names E in if names = [] then a
     else (let i = (case index_of (current_theme_name a) names of Some i \<Rightarrow> i | None \<Rightarrow> 0);
               nxt = names ! ((i + 1) mod length names)
       in case update_user_config E (set_theme_name (a_theme_light a) nxt) a of
           (False, a1) \<Rightarrow> a1
         | (True, a1) \<Rightarrow> (case e_resolve_theme E (uc_theme (a_user a1)) None of (notices, light) \<Rightarrow>
             (if notices = [] then say E SevSuccess (''Theme: '' @ nxt) else say E SevError (join ''; '' notices))
               (a1\<lparr>a_theme_light := light\<rparr>))))"

definition on_off :: "bool \<Rightarrow> string" where
  "on_off b = (if b then ''on'' else ''off'')"

definition update_and_say ::
    "('x, 'key) app_env \<Rightarrow> (user_config \<Rightarrow> user_config) \<Rightarrow> (user_config \<Rightarrow> string) \<Rightarrow> ('x, 'key) app \<Rightarrow> ('x, 'key) app" where
  "update_and_say E f msg a = (case update_user_config E f a of
     (True, a1) \<Rightarrow> say E SevSuccess (msg (a_user a1)) a1 | (False, a1) \<Rightarrow> a1)"

definition activate_settings_row :: "('x, 'key) app_env \<Rightarrow> ('x, 'key) app \<Rightarrow> ('x, 'key) app option" where
  "activate_settings_row E a =
     (let i = a_settings_index a; unlocks = (\<not> sync_on_unlock (a_user a)); leaves = (\<not> sync_on_lock_quit (a_user a)) in
      if i = 0 then Some (update_and_say E cycle_default_sort (\<lambda>c. ''Default sort: '' @ sort_label (cfg_default_sort c)) a)
      else if i = 1 then Some (cycle_theme E a)
      else if i = 2 then (if a_read_only a then Some (say E SevWarning ''Read-only session - auto-lock unchanged.'' a)
        else cycle_auto_lock E a)
      else if i = 3 then Some (update_and_say E (set_sync_on_unlock unlocks) (\<lambda>_. ''Auto-sync on unlock: '' @ on_off unlocks) a)
      else if i = 4 then Some (update_and_say E (set_sync_on_lock_quit leaves) (\<lambda>_. ''Auto-sync on lock/quit: '' @ on_off leaves) a)
      else if i = 5 then Some (if a_read_only a then say E SevWarning ''Read-only session - sync is disabled.'' a
        else open_sync_config E a)
      else Some a)"

definition settings_command :: "('x, 'key) app_env \<Rightarrow> command \<Rightarrow> ('x, 'key) app \<Rightarrow> ('x, 'key) app option" where
  "settings_command E c a =
     (if c = Next then Some (a\<lparr>a_settings_index := min (a_settings_index a + 1) (SETTINGS_ROW_COUNT - 1)\<rparr>)
      else if c = Prev then Some (a\<lparr>a_settings_index := a_settings_index a - 1\<rparr>)
      else if c = Confirm then activate_settings_row E a
      else Some a)"

text \<open>Storing a sync target: the credential is encrypted with the typed master password, the registry checks for
  duplicates and writes the file.\<close>

definition s3_of_form :: "string \<Rightarrow> (auth_error + sync_error) sync_config_state \<Rightarrow> (credential_source, toml_value) s3_config" where
  "s3_of_form container s =
     (let c0 = new_s3_config (trim (li_value (sf_bucket s))) (trim (li_value (sf_key s))) (trim (li_value (sf_region s)))
            (RstCred1 (trim (li_value (sf_access_key_id s))) container);
          ep = trim (li_value (sf_endpoint s));
          c1 = (if ep = [] then c0 else set_endpoint (Some ep) c0)
      in if sf_path_style s then set_path_style True c1 else c1)"

definition configure_registry ::
    "('x, 'key) app_env \<Rightarrow> string \<Rightarrow> (credential_source, toml_value) s3_config \<Rightarrow> app_registry \<Rightarrow> disk \<Rightarrow>
     (sync_error + unit) \<times> app_registry \<times> disk" where
  "configure_registry E name s3 r d = (case registry_get r name of
     None \<Rightarrow> (Inl (SyncVault (NotRegistered name)), r, d)
   | Some _ \<Rightarrow> (case endpoint_of s3 of
       Inl e \<Rightarrow> (Inl e, r, d)
     | Inr _ \<Rightarrow> (case find_duplicate_target (e_codec E) r (s3_endpoint s3) (s3_bucket s3) (s3_key s3) (Some name) of
         Some existing \<Rightarrow> (Inl (DuplicateTarget (s3_endpoint s3) (s3_bucket s3) (s3_key s3) existing), r, d)
       | None \<Rightarrow> (case update_registry_sync_block (e_codec E) name (config_s3 s3) r of
           (Inl e, r1) \<Rightarrow> (Inl e, r1, d)
         | (Inr _, r1) \<Rightarrow> (case registry_save (e_toml E) r1 (e_handle E) d of
             (Inl e, d1) \<Rightarrow> (Inl (SyncVault e), r1, d1)
           | (Inr r2, d1) \<Rightarrow> (Inr (), r2, d1))))))"

definition perform_configure_sync ::
    "('x, 'key) app_env \<Rightarrow> (auth_error + sync_error) sync_config_state \<Rightarrow> ('x, 'key) app \<Rightarrow>
     bool \<times> (auth_error + sync_error) sync_config_state \<times> ('x, 'key) app" where
  "perform_configure_sync E s a =
     (let fail = (\<lambda>e. (False, s\<lparr>sf_error := Some e\<rparr>, a)); blank_field = (\<lambda>i. trim (li_value i) = [])
      in if blank_field (sf_bucket s) \<or> blank_field (sf_key s) \<or> blank_field (sf_region s) \<or> blank_field (sf_access_key_id s)
           then fail FieldsRequired
         else if pi_buffer (sf_secret s) = [] then fail SecretRequired
         else if pi_buffer (sf_master s) = [] then fail MasterRequired
         else (case a_selected_vault a of None \<Rightarrow> fail NoVaultSelected
           | Some name \<Rightarrow>
             (case encrypt_credential (e_auth E) (fst (e_draws E)) (snd (e_draws E)) (of_cps (pi_buffer (sf_secret s)))
                 (of_cps (pi_buffer (sf_master s))) of
                Inl e \<Rightarrow> fail (EncryptFailed (Inl e))
              | Inr container \<Rightarrow> (case a_registry a of None \<Rightarrow> fail RegistryUnavailable
                | Some r \<Rightarrow> (case configure_registry E name (s3_of_form container s) r (a_disk a) of
                    (Inr _, r1, d) \<Rightarrow> (True, s, say E SevSuccess ''Sync target configured.''
                      (a\<lparr>a_registry := Some r1, a_disk := d, a_sync_status := Some ''Sync target configured.''\<rparr>))
                  | (Inl e, r1, d) \<Rightarrow> (False, s\<lparr>sf_error := Some (ConfigureFailed (Inr e))\<rparr>,
                      a\<lparr>a_registry := Some r1, a_disk := d\<rparr>))))))"

section \<open>Navigation\<close>

text \<open>A motion of the tree, and whether the selection changed: then the detail pane starts afresh.\<close>

definition tree_moved :: "bool \<times> tree_state \<Rightarrow> ('x, 'key) app \<Rightarrow> ('x, 'key) app" where
  "tree_moved m a = (let a1 = a\<lparr>a_tree := snd m\<rparr> in if fst m then a1\<lparr>a_reveal := False, a_scroll := 0\<rparr> else a1)"

definition open_selected :: "('x, 'key) app_env \<Rightarrow> ('x, 'key) app \<Rightarrow> ('x, 'key) app" where
  "open_selected E a = (case ts_selected (a_tree a) of Some u \<Rightarrow> enter_detail E u a | None \<Rightarrow> a)"

definition tree_command :: "('x, 'key) app_env \<Rightarrow> command \<Rightarrow> ('x, 'key) app \<Rightarrow> ('x, 'key) app option" where
  "tree_command E c a = map_option (\<lambda>rows. case rows of None \<Rightarrow> a
     | Some rs \<Rightarrow> (let t = a_tree a in
         if c = Next then tree_moved (move_next rs t) a
         else if c = Prev then tree_moved (move_prev rs t) a
         else if c = Parent then tree_moved (collapse_or_parent rs t) a
         else if c = Child then (if selected_is_entry t rs then open_selected E a else tree_moved (expand_or_child rs t) a)
         else if c = Confirm then (if selected_is_entry t rs then open_selected E a else a\<lparr>a_tree := snd (toggle_expand rs t)\<rparr>)
         else a)) (app_rows E a)"

text \<open>The scroll offset is a \<open>u16\<close>: it saturates, and so does the number of lines.\<close>

definition max_scroll_for :: "('x, 'key) app_env \<Rightarrow> ('x, 'key) app \<Rightarrow> uuid \<Rightarrow> nat" where
  "max_scroll_for E a u = (case Option.bind (the_db a) (\<lambda>db. e_lines E db u (a_reveal a)) of None \<Rightarrow> 0 | Some n \<Rightarrow> saturate16 n)"

definition scroll_command :: "nat \<Rightarrow> command \<Rightarrow> ('x, 'key) app \<Rightarrow> ('x, 'key) app" where
  "scroll_command limit c a =
     (if c = Next then a\<lparr>a_scroll := min (saturate16 (a_scroll a + 1)) limit\<rparr>
      else if c = Prev then a\<lparr>a_scroll := a_scroll a - 1\<rparr> else a)"

definition detail_command :: "('x, 'key) app_env \<Rightarrow> command \<Rightarrow> ('x, 'key) app \<Rightarrow> ('x, 'key) app" where
  "detail_command E c a =
     (if c = Parent \<or> c = Cancel then a\<lparr>a_focus := TreePane\<rparr>
      else scroll_command (case ts_selected (a_tree a) of None \<Rightarrow> 0 | Some u \<Rightarrow> max_scroll_for E a u) c a)"

definition exec_context_nav :: "('x, 'key) app_env \<Rightarrow> command \<Rightarrow> ('x, 'key) app \<Rightarrow> ('x, 'key) app option" where
  "exec_context_nav E c a = (case a_phase a of
     UnlockList \<Rightarrow> unlock_list_nav c a
   | Workspace \<Rightarrow> Option.bind (active_tab (a_tabs a)) (\<lambda>t. case t of
       SecretsTab \<Rightarrow> (case a_focus a of TreePane \<Rightarrow> tree_command E c a | DetailPane \<Rightarrow> Some (detail_command E c a))
     | PinnedTab u \<Rightarrow> Some (scroll_command (max_scroll_for E a u) c a)
     | SettingsTab \<Rightarrow> settings_command E c a)
   | _ \<Rightarrow> Some a)"

definition nav_commands :: "command list" where
  "nav_commands = [Next, Prev, Parent, Child, Confirm, Cancel]"

definition nav_command_for :: "('x, 'key) app \<Rightarrow> key_event \<Rightarrow> command option" where
  "nav_command_for a k = find (\<lambda>c. key_matches (a_keys a) c k) nav_commands"

section \<open>Enablement and execution of commands\<close>

definition current_context :: "('x, 'key) app \<Rightarrow> contexts option" where
  "current_context a = (case a_overlay a of
     Some ov \<Rightarrow> Some (case ov of
         OvSearch _ \<Rightarrow> SEARCH_CTX | OvEdit _ \<Rightarrow> EDIT_CTX | OvHistory _ \<Rightarrow> HISTORY_CTX
       | OvSyncUnlock _ _ \<Rightarrow> SYNC_UNLOCK | OvSyncConfig _ \<Rightarrow> SYNC_CONFIG | OvPalette _ \<Rightarrow> PALETTE_CTX
       | _ \<Rightarrow> CONFIRM_CTX)
   | None \<Rightarrow> (case a_phase a of
         UnlockList \<Rightarrow> Some UNLOCK_LIST
       | UnlockPrompt _ _ _ \<Rightarrow> Some UNLOCK_PROMPT
       | LockScreen \<Rightarrow> Some LOCK_SCREEN
       | Workspace \<Rightarrow> map_option (\<lambda>t. case t of
           SecretsTab \<Rightarrow> (case a_focus a of TreePane \<Rightarrow> SECRETS_TREE | DetailPane \<Rightarrow> SECRETS_DETAIL)
         | PinnedTab _ \<Rightarrow> PINNED_TAB
         | SettingsTab \<Rightarrow> SETTINGS_TAB) (active_tab (a_tabs a))))"

definition RO_MUTATING_COMMANDS :: "command list" where
  "RO_MUTATING_COMMANDS = [AddEntry, EditEntry, DeleteEntry, MoveToGroup, command.AddTag, command.RemoveTag, Sync]"

definition available_during_sync :: "command \<Rightarrow> bool" where
  "available_during_sync c = (c = Quit \<or> c = command.LockNow \<or> c = Help \<or> c = NextTab \<or> c = PrevTab \<or> c = JumpToTab)"

definition enabled_if :: "bool \<Rightarrow> cmd_state" where
  "enabled_if b = (if b then cmd_state.Enabled else cmd_state.Disabled)"

definition on_pinned_tab :: "('x, 'key) app \<Rightarrow> bool" where
  "on_pinned_tab a = (case active_tab (a_tabs a) of Some (PinnedTab _) \<Rightarrow> True | _ \<Rightarrow> False)"

definition context_entry_present :: "('x, 'key) app \<Rightarrow> bool" where
  "context_entry_present a = (on_pinned_tab a \<or> selected_entry_uuid a \<noteq> None)"

definition command_state :: "('x, 'key) app_env \<Rightarrow> ('x, 'key) app \<Rightarrow> command \<Rightarrow> cmd_state" where
  "command_state E a c =
     (if is_syncing a \<and> \<not> available_during_sync c then cmd_state.Disabled
      else if a_read_only a \<and> c \<in> set RO_MUTATING_COMMANDS then cmd_state.Disabled
      else if c \<in> {CopyPassword, CopyUsername, EditEntry, PinToggle} then enabled_if (selected_entry_uuid a \<noteq> None)
      else if c = DeleteEntry then enabled_if (a_marks a \<noteq> {} \<or> selected_entry_uuid a \<noteq> None)
      else if c \<in> {MoveToGroup, command.AddTag, command.RemoveTag} then enabled_if (a_marks a \<noteq> {})
      else if c \<in> {RevealPassword, History} then enabled_if (context_entry_present a)
      else if c = Sync then enabled_if (sync_configured E a)
      else cmd_state.Enabled)"

definition open_palette :: "('x, 'key) app \<Rightarrow> ('x, 'key) app option" where
  "open_palette a = map_option (\<lambda>ctx. with_overlay (OvPalette (palette_new ctx)) (a\<lparr>a_pending := no_pending\<rparr>)) (current_context a)"

definition on_tab_switched :: "('x, 'key) app_env \<Rightarrow> ('x, 'key) app \<Rightarrow> ('x, 'key) app option" where
  "on_tab_switched E a0 = (let a = a0\<lparr>a_reveal := False, a_scroll := 0\<rparr> in
     map_option (\<lambda>t. case t of PinnedTab u \<Rightarrow> visit E u (a\<lparr>a_jumps := jump_push u (a_jumps a)\<rparr>) | _ \<Rightarrow> a) (active_tab (a_tabs a)))"

definition apply_tab_motion :: "('x, 'key) app_env \<Rightarrow> command \<Rightarrow> nat option \<Rightarrow> ('x, 'key) app \<Rightarrow> ('x, 'key) app option" where
  "apply_tab_motion E c cnt a =
     (if c = NextTab \<or> c = PrevTab \<or> c = JumpToTab then
        Option.bind (if c = NextTab then tab_next (a_tabs a) else if c = PrevTab then tab_prev (a_tabs a)
            else tab_jump_to (case cnt of Some n \<Rightarrow> n | None \<Rightarrow> 0) (a_tabs a))
          (\<lambda>b. on_tab_switched E (a\<lparr>a_tabs := b\<rparr>))
      else Some a)"

definition toggle_focus :: "('x, 'key) app \<Rightarrow> ('x, 'key) app" where
  "toggle_focus a = a\<lparr>a_focus := (case a_focus a of TreePane \<Rightarrow> DetailPane | DetailPane \<Rightarrow> TreePane)\<rparr>"

definition cycle_tree_sort :: "('x, 'key) app_env \<Rightarrow> ('x, 'key) app \<Rightarrow> ('x, 'key) app" where
  "cycle_tree_sort E a = (let t = cycle_sort (a_tree a) in say E SevSuccess (''Sort: '' @ sort_label (ts_sort t)) (a\<lparr>a_tree := t\<rparr>))"

definition exec_reveal :: "('x, 'key) app \<Rightarrow> ('x, 'key) app" where
  "exec_reveal a = (if context_entry_present a then a\<lparr>a_reveal := \<not> a_reveal a\<rparr> else a)"

definition exec_history :: "('x, 'key) app_env \<Rightarrow> ('x, 'key) app \<Rightarrow> ('x, 'key) app option" where
  "exec_history E a = map_option (\<lambda>t. case t of PinnedTab u \<Rightarrow> open_history_for E u a | _ \<Rightarrow> open_history E a) (active_tab (a_tabs a))"

text \<open>The command proper, once the guards have let it pass.\<close>

definition run_command :: "('x, 'key) app_env \<Rightarrow> command \<Rightarrow> ('x, 'key) app \<Rightarrow> ('x, 'key) app option" where
  "run_command E c a = (case c of
     FocusPane \<Rightarrow> Some (toggle_focus a)
   | Search \<Rightarrow> open_search E a
   | AddEntry \<Rightarrow> open_add E a
   | EditEntry \<Rightarrow> Some (open_edit E a)
   | DeleteEntry \<Rightarrow> Some (open_delete_confirm E a)
   | CopyPassword \<Rightarrow> Some (do_copy E CopyPasswordField a)
   | CopyUsername \<Rightarrow> Some (do_copy E CopyUsernameField a)
   | RevealPassword \<Rightarrow> Some (exec_reveal a)
   | History \<Rightarrow> exec_history E a
   | PinToggle \<Rightarrow> Some (toggle_pin_selected E a)
   | SortCycle \<Rightarrow> Some (cycle_tree_sort E a)
   | Sync \<Rightarrow> Some (request_sync E a)
   | JumpBack \<Rightarrow> do_jump_back E a
   | JumpForward \<Rightarrow> do_jump_forward E a
   | VisualMode \<Rightarrow> enter_visual_mode E a
   | MoveToGroup \<Rightarrow> open_group_picker E a
   | command.AddTag \<Rightarrow> Some (open_tag_input TagAdd a)
   | command.RemoveTag \<Rightarrow> Some (open_tag_input TagRemove a)
   | _ \<Rightarrow> if c \<in> set nav_commands then exec_context_nav E c a else Some a)"

definition execute_command :: "('x, 'key) app_env \<Rightarrow> command \<Rightarrow> nat option \<Rightarrow> ('x, 'key) app \<Rightarrow> ('x, 'key) app option" where
  "execute_command E c cnt a =
     (if a_read_only a \<and> c \<in> set RO_MUTATING_COMMANDS
      then Some (say E SevWarning ''Read-only session - that action is disabled.'' a)
      else if c = Quit then Some (request_quit E a)
      else if c = command.LockNow then Some (if a_phase a = Workspace then request_lock E a else a)
      else if c = Help then open_palette a
      else if c = NextTab \<or> c = PrevTab \<or> c = JumpToTab then apply_tab_motion E c cnt a
      else if is_syncing a then Some a
      else run_command E c a)"

section \<open>Keys of the overlays\<close>

text \<open>A handler gets the overlay moved out of the application. It answers whether the overlay stays, the overlay, and the
  application; what it opened itself remains when the old overlay does not come back.\<close>

type_synonym ('s, 'x, 'key) overlay_reply = "(bool \<times> 's \<times> ('x, 'key) app) option"

definition keep :: "'s \<Rightarrow> ('x, 'key) app \<Rightarrow> ('s, 'x, 'key) overlay_reply" where
  "keep s a = Some (True, s, a)"

definition close :: "'s \<Rightarrow> ('x, 'key) app option \<Rightarrow> ('s, 'x, 'key) overlay_reply" where
  "close s r = map_option (\<lambda>a. (False, s, a)) r"

definition key_digit :: "key_event \<Rightarrow> nat option" where
  "key_digit k = (case ke_code k of KChar c \<Rightarrow> digit_of c | _ \<Rightarrow> None)"

definition act_on :: "uuid option \<Rightarrow> (uuid \<Rightarrow> ('x, 'key) app \<Rightarrow> ('x, 'key) app option) \<Rightarrow> ('x, 'key) app \<Rightarrow> ('x, 'key) app option" where
  "act_on u f a = (case u of None \<Rightarrow> Some a | Some x \<Rightarrow> f x a)"

definition search_edit :: "('x, 'key) app_env \<Rightarrow> key_event \<Rightarrow> search_state \<Rightarrow> ('x, 'key) app \<Rightarrow> (search_state, 'x, 'key) overlay_reply" where
  "search_edit E k s a = (case to_input_request k of None \<Rightarrow> keep s a
   | Some req \<Rightarrow> (case handle_request (e_words E) req (ss_input s) of (change, i) \<Rightarrow> let s1 = s\<lparr>ss_input := i\<rparr> in
       if change = None then keep s1 a else map_option (\<lambda>s2. (True, s2, a)) (run_search E a s1)))"

definition on_search_key :: "('x, 'key) app_env \<Rightarrow> key_event \<Rightarrow> search_state \<Rightarrow> ('x, 'key) app \<Rightarrow> (search_state, 'x, 'key) overlay_reply" where
  "on_search_key E k s a =
     (if key_matches (a_keys a) Cancel k then close s (Some (restore_saved_view (ss_saved s) a))
      else if key_matches (a_keys a) CycleScope k then
        Option.bind (next_search_scope s a) (\<lambda>scope. map_option (\<lambda>s1. (True, s1, a)) (run_search E a (s\<lparr>ss_scope := scope\<rparr>)))
      else if key_matches (a_keys a) OpenEntry k then close s (act_on (search_selected_uuid s) (search_secondary_action E) a)
      else if key_matches (a_keys a) QuickSelect k then
        (case Option.bind (key_digit k) (\<lambda>n. quick_select_uuid n s) of
           Some u \<Rightarrow> close s (search_primary_action E u a) | None \<Rightarrow> keep s a)
      else if ke_code k = KEnter then close s (act_on (search_selected_uuid s) (search_primary_action E) a)
      else if ke_code k = KDown \<or> ctrl_char CHR ''n'' k then keep (search_next s) a
      else if ke_code k = KUp \<or> ctrl_char CHR ''p'' k then keep (search_prev s) a
      else search_edit E k s a)"

definition on_history_key :: "key_event \<Rightarrow> history_state \<Rightarrow> ('x, 'key) app \<Rightarrow> (history_state, 'x, 'key) overlay_reply" where
  "on_history_key k h a =
     (if ke_code k = KEsc then close h (Some a)
      else if ke_code k = KDown \<or> ke_code k = KChar CHR ''j'' then keep (history_next h) a
      else if ke_code k = KUp \<or> ke_code k = KChar CHR ''k'' then keep (history_prev h) a
      else keep h a)"

definition says_yes :: "key_event \<Rightarrow> bool" where
  "says_yes k = (ke_code k = KChar CHR ''y'' \<or> ke_code k = KChar CHR ''Y'')"

definition says_no :: "key_event \<Rightarrow> bool" where
  "says_no k = (ke_code k = KChar CHR ''n'' \<or> ke_code k = KChar CHR ''N'' \<or> ke_code k = KEsc)"

definition on_confirm_key ::
    "(('x, 'key) app \<Rightarrow> ('x, 'key) app option) \<Rightarrow> key_event \<Rightarrow> ('x, 'key) app \<Rightarrow> (unit, 'x, 'key) overlay_reply" where
  "on_confirm_key yes k a = (if says_yes k then close () (yes a) else if says_no k then close () (Some a) else keep () a)"

definition on_group_picker_key :: "('x, 'key) app_env \<Rightarrow> key_event \<Rightarrow> group_picker \<Rightarrow> ('x, 'key) app \<Rightarrow> (group_picker, 'x, 'key) overlay_reply" where
  "on_group_picker_key E k p a =
     (if ke_code k = KEsc then close p (Some a)
      else if ke_code k = KDown \<or> ke_code k = KChar CHR ''j'' then keep (picker_next p) a
      else if ke_code k = KUp \<or> ke_code k = KChar CHR ''k'' then keep (picker_prev p) a
      else if ke_code k = KEnter then close p (act_on (picker_uuid p) (apply_move_to_group E) a)
      else keep p a)"

definition on_tag_input_key :: "('x, 'key) app_env \<Rightarrow> key_event \<Rightarrow> tag_input \<Rightarrow> ('x, 'key) app \<Rightarrow> (tag_input, 'x, 'key) overlay_reply" where
  "on_tag_input_key E k t a =
     (if ke_code k = KEsc then close t (Some a)
      else if ke_code k = KEnter then (let tag = trim (li_value (ti_input t)) in
        close t (if tag = [] then Some a else apply_tag E (ti_action t) tag a))
      else keep (t\<lparr>ti_input := feed_input (e_words E) k (ti_input t)\<rparr>) a)"

definition on_sync_unlock_key ::
    "('x, 'key) app_env \<Rightarrow> key_event \<Rightarrow> sync_trigger \<Rightarrow> password_input \<Rightarrow> ('x, 'key) app \<Rightarrow> (password_input, 'x, 'key) overlay_reply" where
  "on_sync_unlock_key E k pending inp a = Option.bind (pi_on_key (input_key_of k) inp) (\<lambda>(act, inp'). case act of
     InputContinue \<Rightarrow> keep inp' a
   | InputCancel \<Rightarrow> close inp' (Some (cancel_pending_sync pending a))
   | InputSubmit \<Rightarrow> close inp' (Some (start_sync E pending (of_cps (pi_buffer inp')) a)))"

definition on_sync_config_key ::
    "('x, 'key) app_env \<Rightarrow> key_event \<Rightarrow> (auth_error + sync_error) sync_config_state \<Rightarrow> ('x, 'key) app \<Rightarrow>
     ((auth_error + sync_error) sync_config_state, 'x, 'key) overlay_reply" where
  "on_sync_config_key E k s a =
     (if ke_code k = KEsc then close s (Some a)
      else if ctrl_char CHR ''s'' k then (case perform_configure_sync E s a of (done_it, s1, a1) \<Rightarrow> Some (\<not> done_it, s1, a1))
      else if ke_code k = KTab then keep (sync_focus_next s) a
      else if ke_code k = KBackTab then keep (sync_focus_prev s) a
      else Option.bind (sync_field_key (e_words E) k s) (\<lambda>s1. keep s1 a))"

definition on_edit_overlay_key :: "('x, 'key) app_env \<Rightarrow> key_event \<Rightarrow> edit_state \<Rightarrow> ('x, 'key) app \<Rightarrow> (edit_state, 'x, 'key) overlay_reply" where
  "on_edit_overlay_key E k s a = Option.bind (on_edit_key (e_generator E) (e_words E) k s) (\<lambda>r. case r of
     EditClose \<Rightarrow> close s (Some a)
   | EditSave \<Rightarrow> map_option (\<lambda>(saved, s1, a1). (\<not> saved, s1, a1)) (perform_save E s a)
   | EditKeep s1 \<Rightarrow> keep s1 a)"

definition palette_rows_of :: "('x, 'key) app_env \<Rightarrow> palette_state \<Rightarrow> ('x, 'key) app \<Rightarrow> palette_row list" where
  "palette_rows_of E p a =
     build_palette_rows (e_unicode E) (command_state E a) (rendered_keys (a_keys a)) (pl_underlying p) (palette_filter p)"

definition on_palette_key :: "('x, 'key) app_env \<Rightarrow> key_event \<Rightarrow> palette_state \<Rightarrow> ('x, 'key) app \<Rightarrow> (palette_state, 'x, 'key) overlay_reply" where
  "on_palette_key E k p a = (let rows = palette_rows_of E p a in
     if ke_code k = KEsc then close p (Some a)
     else if ke_code k = KEnter then (case nth_opt rows (pl_selected p) of
         None \<Rightarrow> keep p a
       | Some row \<Rightarrow> if pr_state row = cmd_state.Enabled then close p (execute_command E (cs_id (pr_spec row)) None a)
           else keep p (say E SevWarning ''Not available here.'' a))
     else if ke_code k = KUp \<or> ctrl_char CHR ''p'' k then keep (p\<lparr>pl_selected := pl_selected p - 1\<rparr>) a
     else if ke_code k = KDown \<or> ctrl_char CHR ''n'' k
       then keep (if rows = [] then p else p\<lparr>pl_selected := min (pl_selected p + 1) (length rows - 1)\<rparr>) a
     else (case to_input_request k of None \<Rightarrow> keep p a
       | Some req \<Rightarrow> (case handle_request (e_words E) req (pl_input p) of (change, i) \<Rightarrow>
           keep (if change = None then p\<lparr>pl_input := i\<rparr> else p\<lparr>pl_input := i, pl_selected := 0\<rparr>) a)))"

text \<open>The overlay is taken out, and put back when its handler keeps it.\<close>

definition put_back :: "('s \<Rightarrow> overlay) \<Rightarrow> ('s, 'x, 'key) overlay_reply \<Rightarrow> ('x, 'key) app option" where
  "put_back con r = map_option (\<lambda>(stays, s, a). if stays then with_overlay (con s) a else a) r"

definition on_overlay_key :: "('x, 'key) app_env \<Rightarrow> key_event \<Rightarrow> ('x, 'key) app \<Rightarrow> ('x, 'key) app option" where
  "on_overlay_key E k a0 = (case a_overlay a0 of None \<Rightarrow> Some a0
   | Some ov \<Rightarrow> (let a = a0\<lparr>a_overlay := None\<rparr> in case ov of
       OvSearch s \<Rightarrow> put_back OvSearch (on_search_key E k s a)
     | OvEdit s \<Rightarrow> put_back OvEdit (on_edit_overlay_key E k s a)
     | OvHistory h \<Rightarrow> put_back OvHistory (on_history_key k h a)
     | OvConfirmDelete u title \<Rightarrow> put_back (\<lambda>_. ov) (on_confirm_key (perform_delete E u) k a)
     | OvConfirmBulkDelete us titles \<Rightarrow> put_back (\<lambda>_. ov) (on_confirm_key (perform_bulk_delete E us) k a)
     | OvConfirmQuit \<Rightarrow> put_back (\<lambda>_. ov) (on_confirm_key (Some \<circ> do_quit E) k a)
     | OvGroupPicker p \<Rightarrow> put_back OvGroupPicker (on_group_picker_key E k p a)
     | OvTagInput t \<Rightarrow> put_back OvTagInput (on_tag_input_key E k t a)
     | OvSyncUnlock inp pending \<Rightarrow> put_back (\<lambda>i. OvSyncUnlock i pending) (on_sync_unlock_key E k pending inp a)
     | OvSyncConfig s \<Rightarrow> put_back OvSyncConfig (on_sync_config_key E k s a)
     | OvPalette p \<Rightarrow> put_back OvPalette (on_palette_key E k p a)))"

section \<open>Keys of the workspace\<close>

definition on_pinned_key :: "('x, 'key) app_env \<Rightarrow> key_event \<Rightarrow> ('x, 'key) app \<Rightarrow> ('x, 'key) app option" where
  "on_pinned_key E k a = (case find (\<lambda>c. key_matches (a_keys a) c k) ([JumpBack, RevealPassword, History] @ nav_commands) of
     None \<Rightarrow> Some a | Some c \<Rightarrow> execute_command E c None a)"

definition on_settings_key :: "('x, 'key) app_env \<Rightarrow> key_event \<Rightarrow> ('x, 'key) app \<Rightarrow> ('x, 'key) app option" where
  "on_settings_key E k a = (case nav_command_for a k of None \<Rightarrow> Some a | Some c \<Rightarrow> execute_command E c None a)"

text \<open>Visual mode: \<open>Some None\<close> is a key it leaves to the normal dispatch.\<close>

definition handle_visual_key :: "('x, 'key) app_env \<Rightarrow> key_event \<Rightarrow> ('x, 'key) app \<Rightarrow> ('x, 'key) app option option" where
  "handle_visual_key E k a =
     (if key_matches (a_keys a) Next k then map_option Some (Option.bind (tree_command E Next a) (recompute_visual_marks E))
      else if key_matches (a_keys a) Prev k then map_option Some (Option.bind (tree_command E Prev a) (recompute_visual_marks E))
      else if ke_code k = KChar CHR '' '' then Some (Some (toggle_current_mark a))
      else if ke_code k = KEsc then Some (Some (a\<lparr>a_mode := TreeNormal\<rparr>))
      else Some None)"

definition secrets_commands :: "pane \<Rightarrow> command list" where
  "secrets_commands f = [FocusPane, JumpBack] @ (case f of TreePane \<Rightarrow> [JumpForward] | DetailPane \<Rightarrow> [])
     @ [RevealPassword, SortCycle, PinToggle, Search, AddEntry, EditEntry, DeleteEntry, History, CopyPassword, CopyUsername, Sync,
        VisualMode, MoveToGroup, command.AddTag, command.RemoveTag] @ nav_commands"

definition on_secrets_normal_key :: "('x, 'key) app_env \<Rightarrow> key_event \<Rightarrow> ('x, 'key) app \<Rightarrow> ('x, 'key) app option" where
  "on_secrets_normal_key E k a =
     (if a_mode a = TreeNormal \<and> a_marks a \<noteq> {} \<and> ke_code k = KEsc then Some (a\<lparr>a_marks := {}\<rparr>)
      else if a_focus a = TreePane \<and> ke_code k = KChar CHR '' '' then Some (toggle_current_mark a)
      else (case find (\<lambda>c. key_matches (a_keys a) c k) (secrets_commands (a_focus a)) of
          None \<Rightarrow> Some a | Some c \<Rightarrow> execute_command E c None a))"

definition on_secrets_key :: "('x, 'key) app_env \<Rightarrow> key_event \<Rightarrow> ('x, 'key) app \<Rightarrow> ('x, 'key) app option" where
  "on_secrets_key E k a = (case a_mode a of
     TreeNormal \<Rightarrow> on_secrets_normal_key E k a
   | TreeVisual _ \<Rightarrow> Option.bind (handle_visual_key E k a) (\<lambda>r. case r of
       Some a1 \<Rightarrow> Some a1 | None \<Rightarrow> on_secrets_normal_key E k a))"

definition dispatch_active_tab_key :: "('x, 'key) app_env \<Rightarrow> key_event \<Rightarrow> ('x, 'key) app \<Rightarrow> ('x, 'key) app option" where
  "dispatch_active_tab_key E k a = Option.bind (active_tab (a_tabs a)) (\<lambda>t. case t of
     SecretsTab \<Rightarrow> on_secrets_key E k a | SettingsTab \<Rightarrow> on_settings_key E k a | PinnedTab _ \<Rightarrow> on_pinned_key E k a)"

definition stamp_pending :: "nat \<Rightarrow> pending_seq \<Rightarrow> pending_seq" where
  "stamp_pending now p = (if ps_prefix p \<noteq> [] \<and> ps_since p = None then p\<lparr>ps_since := Some now\<rparr> else p)"

definition on_workspace_key :: "('x, 'key) app_env \<Rightarrow> key_event \<Rightarrow> ('x, 'key) app \<Rightarrow> ('x, 'key) app option" where
  "on_workspace_key E k a = (case resolve_key (a_keys a) WORKSPACE k (a_pending a) of
     (RCommand c cnt, p) \<Rightarrow> execute_command E c cnt (a\<lparr>a_pending := p\<rparr>)
   | (RPending _, p) \<Rightarrow> Some (a\<lparr>a_pending := stamp_pending (e_now E) p\<rparr>)
   | (RNone, p) \<Rightarrow> dispatch_active_tab_key E k (a\<lparr>a_pending := p\<rparr>))"

definition on_unlock_list_key :: "('x, 'key) app_env \<Rightarrow> key_event \<Rightarrow> ('x, 'key) app \<Rightarrow> ('x, 'key) app option" where
  "on_unlock_list_key E k a = (case nav_command_for a k of None \<Rightarrow> Some a | Some c \<Rightarrow> execute_command E c None a)"

text \<open>\<open>handle_event\<close> for a pressed key. The password prompt takes \<open>?\<close> as a character.\<close>

definition at_prompt :: "('x, 'key) app \<Rightarrow> bool" where
  "at_prompt a = (case a_phase a of UnlockPrompt _ _ _ \<Rightarrow> True | _ \<Rightarrow> False)"

definition on_key :: "('x, 'key) app_env \<Rightarrow> key_event \<Rightarrow> ('x, 'key) app \<Rightarrow> ('x, 'key) app option" where
  "on_key E k a =
     (if key_matches (a_keys a) Quit k then execute_command E Quit None a
      else if key_matches (a_keys a) command.LockNow k \<and> a_phase a = Workspace then execute_command E command.LockNow None a
      else if a_overlay a \<noteq> None then on_overlay_key E k a
      else if key_matches (a_keys a) Help k \<and> \<not> at_prompt a then execute_command E Help None a
      else (case a_phase a of
          UnlockList \<Rightarrow> on_unlock_list_key E k a
        | UnlockPrompt _ _ _ \<Rightarrow> on_unlock_prompt_key E k a
        | LockScreen \<Rightarrow> on_lock_screen_key a
        | Workspace \<Rightarrow> on_workspace_key E k a))"

section \<open>The mouse\<close>

definition in_screen_rect :: "16 word \<Rightarrow> 16 word \<Rightarrow> screen_rect \<Rightarrow> bool" where
  "in_screen_rect col row r = (rx r \<le> col \<and> unat col < saturate16 (unat (rx r) + unat (rw r))
     \<and> ry r \<le> row \<and> unat row < saturate16 (unat (ry r) + unat (rh r)))"

definition mouse_target_at :: "16 word \<Rightarrow> 16 word \<Rightarrow> ('x, 'key) app \<Rightarrow> mouse_target option" where
  "mouse_target_at col row a =
     (if a_phase a \<noteq> Workspace then None
      else (let target = map_option snd (find (\<lambda>(r, _). in_screen_rect col row r) (rev (a_regions a)))
        in case target of
             Some (MouseSearchRow _) \<Rightarrow> target | Some (MousePaletteRow _) \<Rightarrow> target
           | _ \<Rightarrow> if a_overlay a = None then target else None))"

definition mouse_select_tree_row :: "('x, 'key) app_env \<Rightarrow> nat \<Rightarrow> ('x, 'key) app \<Rightarrow> ('x, 'key) app option" where
  "mouse_select_tree_row E i a = map_option (\<lambda>rows. case Option.bind rows (\<lambda>rs. nth_opt rs i) of None \<Rightarrow> a
     | Some r \<Rightarrow> a\<lparr>a_tree := select_node (tr_uuid r) (a_tree a), a_focus := TreePane, a_reveal := False, a_scroll := 0\<rparr>) (app_rows E a)"

definition apply_mouse_target :: "('x, 'key) app_env \<Rightarrow> mouse_target \<Rightarrow> ('x, 'key) app \<Rightarrow> ('x, 'key) app option" where
  "apply_mouse_target E t a = (case t of
     MouseTab i \<Rightarrow> Option.bind (to_tab (i + 1) a) (on_tab_switched E)
   | MouseHintMore \<Rightarrow> execute_command E Help None a
   | MouseDetail \<Rightarrow> Some (a\<lparr>a_focus := DetailPane\<rparr>)
   | MouseTreeRow i \<Rightarrow> mouse_select_tree_row E i a
   | MouseSearchRow i \<Rightarrow> Some (case a_overlay a of
       Some (OvSearch s) \<Rightarrow> if i < length (ss_results s) then with_overlay (OvSearch (s\<lparr>ss_selected := i\<rparr>)) a else a | _ \<Rightarrow> a)
   | MousePaletteRow i \<Rightarrow> Some (case a_overlay a of
       Some (OvPalette p) \<Rightarrow> with_overlay (OvPalette (p\<lparr>pl_selected := i\<rparr>)) a | _ \<Rightarrow> a))"

definition scroll_search :: "command \<Rightarrow> ('x, 'key) app \<Rightarrow> ('x, 'key) app" where
  "scroll_search c a = (case a_overlay a of
     Some (OvSearch s) \<Rightarrow> with_overlay (OvSearch (((if c = Next then search_next else if c = Prev then search_prev else id) ^^ 3) s)) a
   | _ \<Rightarrow> a)"

definition scroll_palette :: "('x, 'key) app_env \<Rightarrow> command \<Rightarrow> ('x, 'key) app \<Rightarrow> ('x, 'key) app" where
  "scroll_palette E c a = (case a_overlay a of
     Some (OvPalette p) \<Rightarrow> (let n = length (palette_rows_of E p a);
         move = (\<lambda>q. if c = Next then (if 0 < n then q\<lparr>pl_selected := min (pl_selected q + 1) (n - 1)\<rparr> else q)
           else if c = Prev then q\<lparr>pl_selected := pl_selected q - 1\<rparr> else q)
       in with_overlay (OvPalette ((move ^^ 3) p)) a)
   | _ \<Rightarrow> a)"

fun nav_times :: "nat \<Rightarrow> ('x, 'key) app_env \<Rightarrow> command \<Rightarrow> ('x, 'key) app \<Rightarrow> ('x, 'key) app option" where
  "nav_times 0 E c a = Some a"
| "nav_times (Suc n) E c a = Option.bind (exec_context_nav E c a) (nav_times n E c)"

definition mouse_scroll :: "('x, 'key) app_env \<Rightarrow> 16 word \<Rightarrow> 16 word \<Rightarrow> command \<Rightarrow> ('x, 'key) app \<Rightarrow> ('x, 'key) app option" where
  "mouse_scroll E col row c a = (case mouse_target_at col row a of
     Some (MouseSearchRow _) \<Rightarrow> Some (scroll_search c a)
   | Some (MousePaletteRow _) \<Rightarrow> Some (scroll_palette E c a)
   | Some MouseDetail \<Rightarrow> nav_times 3 E c (a\<lparr>a_focus := DetailPane\<rparr>)
   | Some (MouseTreeRow _) \<Rightarrow> nav_times 3 E c (a\<lparr>a_focus := TreePane\<rparr>)
   | _ \<Rightarrow> nav_times 3 E c a)"

datatype mouse_kind = MouseDownLeft | MouseScrollDown | MouseScrollUp | MouseOther

definition on_mouse :: "('x, 'key) app_env \<Rightarrow> mouse_kind \<Rightarrow> 16 word \<Rightarrow> 16 word \<Rightarrow> ('x, 'key) app \<Rightarrow> ('x, 'key) app option" where
  "on_mouse E m col row a =
     (if \<not> a_mouse a then Some a
      else (case m of
          MouseDownLeft \<Rightarrow> (case mouse_target_at col row a of None \<Rightarrow> Some a | Some t \<Rightarrow> apply_mouse_target E t a)
        | MouseScrollDown \<Rightarrow> mouse_scroll E col row Next a
        | MouseScrollUp \<Rightarrow> mouse_scroll E col row Prev a
        | MouseOther \<Rightarrow> Some a))"

end
