(* ===== verification/Startup.thy ===== *)
theory Startup
  imports SessionKeys
begin

text \<open>
  How a session starts and runs: the command-line arguments and the key listing (\<open>falach-tui/src/args.rs\<close>), the
  construction of the application (\<open>app.rs\<close>, \<open>lib.rs\<close>) and the event loop (\<open>event.rs\<close>).
\<close>

section \<open>Command-line arguments (args.rs)\<close>

datatype dump_format = DumpText | DumpJson

record tui_args =
  ta_vault :: "string option"
  ta_theme :: "string option"
  ta_config :: "path option"
  ta_no_mouse :: bool
  ta_read_only :: bool
  ta_dump :: "dump_format option"

definition default_args :: tui_args where
  "default_args = \<lparr>ta_vault = None, ta_theme = None, ta_config = None, ta_no_mouse = False, ta_read_only = False, ta_dump = None\<rparr>"

datatype arg_error =
    UnknownFlag string | UnexpectedArgument string | UnknownDumpFormat string | FlagTakesNoValue string | FlagNeedsValue string

datatype parse_outcome = RunArgs tui_args | HelpMessage | VersionMessage

definition split_flag :: "string \<Rightarrow> string \<times> string option" where
  "split_flag arg = (case split_once ''='' arg of Some (f, v) \<Rightarrow> (f, Some v) | None \<Rightarrow> (arg, None))"

definition take_value :: "string \<Rightarrow> string option \<Rightarrow> string list \<Rightarrow> arg_error + string \<times> string list" where
  "take_value flag inline rest = (case inline of
     Some v \<Rightarrow> Inr (v, rest)
   | None \<Rightarrow> (case rest of [] \<Rightarrow> Inl (FlagNeedsValue flag) | v # rest' \<Rightarrow> Inr (v, rest')))"

definition reject_inline :: "string \<Rightarrow> string option \<Rightarrow> arg_error + unit" where
  "reject_inline flag inline = (if inline = None then Inr () else Inl (FlagTakesNoValue flag))"

text \<open>One argument: the parse ends with an outcome, or goes on with what is left. Paths are read by the argument \<open>P\<close>.\<close>

definition arg_step ::
    "(string \<Rightarrow> path) \<Rightarrow> string \<Rightarrow> tui_args \<Rightarrow> string list \<Rightarrow> arg_error + (parse_outcome + tui_args \<times> string list)" where
  "arg_step P arg args rest =
     (case split_flag arg of (flag, inline) \<Rightarrow>
        let valued = (\<lambda>upd. map_sum id (\<lambda>(v, rest'). Inr (upd v, rest')) (take_value flag inline rest));
            switch = (\<lambda>args'. map_sum id (\<lambda>_. Inr (args', rest)) (reject_inline flag inline))
        in if flag = ''--help'' \<or> flag = ''-h'' then Inr (Inl HelpMessage)
           else if flag = ''--version'' \<or> flag = ''-V'' then Inr (Inl VersionMessage)
           else if flag = ''--no-mouse'' then switch (args\<lparr>ta_no_mouse := True\<rparr>)
           else if flag = ''--read-only'' then switch (args\<lparr>ta_read_only := True\<rparr>)
           else if flag = ''--dump-keys'' then
             (case inline of
                None \<Rightarrow> Inr (Inr (args\<lparr>ta_dump := Some DumpText\<rparr>, rest))
              | Some f \<Rightarrow> if f = ''text'' then Inr (Inr (args\<lparr>ta_dump := Some DumpText\<rparr>, rest))
                  else if f = ''json'' then Inr (Inr (args\<lparr>ta_dump := Some DumpJson\<rparr>, rest))
                  else Inl (UnknownDumpFormat f))
           else if flag = ''--vault'' then valued (\<lambda>v. args\<lparr>ta_vault := Some v\<rparr>)
           else if flag = ''--theme'' then valued (\<lambda>v. args\<lparr>ta_theme := Some v\<rparr>)
           else if flag = ''--config'' then valued (\<lambda>v. args\<lparr>ta_config := Some (P v)\<rparr>)
           else if starts_with ''-'' flag then Inl (UnknownFlag flag)
           else Inl (UnexpectedArgument flag))"

lemma arg_step_shrinks: "arg_step P arg args rest = Inr (Inr (args', rest')) \<Longrightarrow> length rest' \<le> length rest"
  unfolding arg_step_def Let_def
  by (auto simp: take_value_def reject_inline_def split: prod.splits if_splits option.splits list.splits)

function parse_args_from :: "(string \<Rightarrow> path) \<Rightarrow> tui_args \<Rightarrow> string list \<Rightarrow> arg_error + parse_outcome" where
  "parse_args_from P args [] = Inr (RunArgs args)"
| "parse_args_from P args (arg # rest) = (case arg_step P arg args rest of
     Inl e \<Rightarrow> Inl e
   | Inr (Inl out) \<Rightarrow> Inr out
   | Inr (Inr (args', rest')) \<Rightarrow> parse_args_from P args' rest')"
  by pat_completeness auto
termination
  by (relation "measure (\<lambda>(P, args, rest). length rest)") (auto simp: less_Suc_eq_le arg_step_shrinks)

text \<open>The first item is the name of the program.\<close>

definition parse_args :: "(string \<Rightarrow> path) \<Rightarrow> string list \<Rightarrow> arg_error + parse_outcome" where
  "parse_args P argv = parse_args_from P default_args (tl argv)"

record effective =
  ef_theme :: "string option"
  ef_mouse :: bool
  ef_read_only :: bool

definition effective_args :: "tui_args \<Rightarrow> user_config \<Rightarrow> effective" where
  "effective_args args cfg =
     \<lparr>ef_theme = ta_theme args, ef_mouse = (uc_mouse cfg \<and> \<not> ta_no_mouse args), ef_read_only = ta_read_only args\<rparr>"

section \<open>The key listing (args.rs)\<close>

definition sorted_specs :: "command_spec list" where
  "sorted_specs = sort_key (group_rank \<circ> cs_group) COMMANDS"

definition dump_keys_line :: "key_row list \<Rightarrow> command_spec \<Rightarrow> string" where
  "dump_keys_line km s = group_label (cs_group s) @ [CHR 0x09] @ cs_name s @ [CHR 0x09]
     @ (case rendered_keys km (cs_id s) of None \<Rightarrow> ''(unbound)'' | Some ks \<Rightarrow> ks) @ [CHR 0x09] @ cs_desc s @ [CHR 0x0A]"

definition dump_keys_text :: "key_row list \<Rightarrow> string" where
  "dump_keys_text km = concat (map (dump_keys_line km) sorted_specs)"

definition json_escape :: "string \<Rightarrow> string" where
  "json_escape s = concat (map (\<lambda>c.
     if c = CHR 0x22 then [CHR 0x5C, CHR 0x22] else if c = CHR 0x5C then [CHR 0x5C, CHR 0x5C]
     else if c = CHR 0x0A then [CHR 0x5C, CHR ''n''] else if c = CHR 0x09 then [CHR 0x5C, CHR ''t''] else [c]) s)"

definition json_quoted :: "string \<Rightarrow> string" where
  "json_quoted s = [CHR 0x22] @ json_escape s @ [CHR 0x22]"

definition json_field :: "string \<Rightarrow> string \<Rightarrow> string" where
  "json_field name v = [CHR 0x22] @ name @ [CHR 0x22] @ '': '' @ v"

definition dump_keys_object :: "key_row list \<Rightarrow> command_spec \<Rightarrow> string" where
  "dump_keys_object km s = ''  {'' @ join '', ''
     [json_field ''name'' (json_quoted (cs_name s)),
      json_field ''keys'' (''['' @ join '', '' (map json_quoted (rendered_key_parts km (cs_id s))) @ '']''),
      json_field ''desc'' (json_quoted (cs_desc s)),
      json_field ''group'' (json_quoted (group_label (cs_group s))),
      json_field ''contexts'' (''['' @ join '', '' (map json_quoted (context_names (cs_contexts s))) @ '']'')] @ ''}''"

definition dump_keys_json :: "key_row list \<Rightarrow> string" where
  "dump_keys_json km = ''['' @ [CHR 0x0A] @ join ('','' @ [CHR 0x0A]) (map (dump_keys_object km) sorted_specs) @ [CHR 0x0A]
     @ '']'' @ [CHR 0x0A]"

definition dump_keys :: "key_row list \<Rightarrow> dump_format \<Rightarrow> string" where
  "dump_keys km f = (case f of DumpText \<Rightarrow> dump_keys_text km | DumpJson \<Rightarrow> dump_keys_json km)"

section \<open>The application at the start (app.rs, lib.rs)\<close>

datatype startup_error =
    NoVaultsRegistered | UnknownVault string | StartupCore vault_error | StartupSecurity security_error

text \<open>The text of the generated preferences, the wording of notices, and the user's themes with their notices.\<close>

record startup_env =
  se_catalog :: bytes
  se_show_notice :: "config_notice \<Rightarrow> string"
  se_show_warning :: "keymap_warning \<Rightarrow> string"
  se_show_ui_notice :: "ui_notice \<Rightarrow> string"
  se_theme_notices :: "string list"

text \<open>As everywhere in the session, \<open>None\<close> is a panic.\<close>

definition app_from_registry ::
    "('x, 'key) app_env \<Rightarrow> startup_env \<Rightarrow> app_registry \<Rightarrow> falach_paths \<Rightarrow> auto_lock_config \<Rightarrow> disk \<Rightarrow>
     (startup_error + ('x, 'key) app) option" where
  "app_from_registry E S r paths cfg d =
     (if reg_vaults r = [] then Some (Inl NoVaultsRegistered)
      else (case tui_load (e_ui E) (config_path paths) d of ((ui, warning), d1) \<Rightarrow>
        (case new_controller cfg of
           Inl e \<Rightarrow> Some (Inl (StartupSecurity e))
         | Inr c \<Rightarrow> map_option (\<lambda>keys. Inr
             \<lparr>a_phase = UnlockList, a_vault = None, a_registry = Some r, a_paths = paths, a_ui = ui,
              a_user = user_config_default, a_user_path = config_toml paths, a_recents = [],
              a_notices = (case warning of None \<Rightarrow> [] | Some w \<Rightarrow> [se_show_ui_notice S w]), a_controller = c, a_keys = keys,
              a_theme_light = False, a_mouse = True, a_read_only = False, a_selected_vault = None, a_list_index = 0,
              a_status = None, a_tabs = tab_bar_new, a_bar = None, a_tree = tree_state_new,
              a_jumps = \<lparr>jh_back = [], jh_forward = []\<rparr>, a_mode = TreeNormal, a_marks = {}, a_regions = [],
              a_focus = TreePane, a_reveal = False, a_scroll = 0, a_pending = no_pending, a_overlay = None, a_sync = None,
              a_lock_pending = False, a_settings_index = 0, a_sync_status = None, a_should_quit = False, a_disk = d1\<rparr>)
             (preset_map Vim))))"

definition load_preferences ::
    "('x, 'key) app_env \<Rightarrow> startup_env \<Rightarrow> tui_args \<Rightarrow> falach_paths \<Rightarrow> disk \<Rightarrow> (user_config \<times> config_notice list) \<times> disk" where
  "load_preferences E S args paths d = (case ta_config args of
     Some p \<Rightarrow> load_config_from (e_prefs E) (se_catalog S) (e_handle E) p d
   | None \<Rightarrow> load_config (e_prefs E) (se_catalog S) (e_handle E) paths d)"

definition apply_args ::
    "('x, 'key) app_env \<Rightarrow> startup_env \<Rightarrow> tui_args \<Rightarrow> ('x, 'key) app \<Rightarrow> (startup_error + ('x, 'key) app) option" where
  "apply_args E S args a =
     (case load_preferences E S args (a_paths a) (a_disk a) of ((cfg, notices), d) \<Rightarrow>
       Option.bind (from_patch (uc_keymap cfg)) (\<lambda>(keys, warnings).
         let eff = effective_args args cfg;
             themed = e_resolve_theme E (uc_theme cfg) (ef_theme eff);
             a1 = a\<lparr>a_user_path := (case ta_config args of Some p \<Rightarrow> p | None \<Rightarrow> config_toml (a_paths a)), a_disk := d, a_user := cfg,
               a_keys := keys, a_mouse := ef_mouse eff, a_read_only := ef_read_only eff, a_theme_light := snd themed,
               a_notices := a_notices a @ map (se_show_notice S) notices @ map (se_show_warning S) warnings
                 @ se_theme_notices S @ fst themed\<rparr>
         in case ta_vault args of
              None \<Rightarrow> Some (Inr a1)
            | Some name \<Rightarrow> map_option (\<lambda>r. if registry_get r name = None then Inl (UnknownVault name)
                else Inr (open_unlock_prompt_for name a1)) (a_registry a1)))"

definition app_new ::
    "('x, 'key) app_env \<Rightarrow> startup_env \<Rightarrow> tui_args \<Rightarrow> (vault_error + falach_paths) \<Rightarrow> disk \<Rightarrow> (startup_error + ('x, 'key) app) option" where
  "app_new E S args found d = (case found of
     Inl e \<Rightarrow> Some (Inl (StartupCore e))
   | Inr paths \<Rightarrow> (case registry_load (e_toml E) paths d of
       (Inl e, _) \<Rightarrow> Some (Inl (StartupCore e))
     | (Inr r, d1) \<Rightarrow> Option.bind (app_from_registry E S r paths default_auto_lock d1) (\<lambda>made. case made of
         Inl e \<Rightarrow> Some (Inl e) | Inr a \<Rightarrow> apply_args E S args a)))"

section \<open>The event loop (event.rs)\<close>

datatype input_event =
    KeyPressed key_event
  | MouseMoved mouse_kind "16 word" "16 word"
  | OtherInput

text \<open>Any press of a key and any mouse event is activity; releases, repeats and resizes are not.\<close>

definition register_input :: "nat \<Rightarrow> ('x, 'key) app \<Rightarrow> ('x, 'key) app" where
  "register_input now a = a\<lparr>a_controller := register_activity now (a_controller a)\<rparr>"

definition on_input :: "('x, 'key) app_env \<Rightarrow> input_event \<Rightarrow> ('x, 'key) app \<Rightarrow> ('x, 'key) app option" where
  "on_input E ev a = (case ev of
     KeyPressed k \<Rightarrow> on_key E k (register_input (e_now E) a)
   | MouseMoved m col row \<Rightarrow> on_mouse E m col row (register_input (e_now E) a)
   | OtherInput \<Rightarrow> Some a)"

text \<open>Drawing reads the application, but for two cells: the clickable regions, and the scroll position of the results.\<close>

definition draw_app :: "(screen_rect \<times> mouse_target) list \<Rightarrow> nat \<Rightarrow> ('x, 'key) app \<Rightarrow> ('x, 'key) app" where
  "draw_app areas viewport a = (let a1 = a\<lparr>a_regions := areas\<rparr> in case a_overlay a of
     Some (OvSearch s) \<Rightarrow> with_overlay (OvSearch (ensure_selected_visible viewport s)) a1
   | _ \<Rightarrow> a1)"

definition FRAME_BUDGET :: nat where "FRAME_BUDGET = 50000000"

definition poll_for :: "nat \<Rightarrow> ('x, 'key) app \<Rightarrow> nat" where
  "poll_for now a = (if a_vault a = None then FRAME_BUDGET
     else (case time_until_lock now (a_controller a) of None \<Rightarrow> FRAME_BUDGET | Some d \<Rightarrow> min d FRAME_BUDGET))"

text \<open>One turn of the loop: tick, draw, stop if asked, wait for an event. \<open>Inl\<close> is the end of the session.\<close>

definition loop_turn ::
    "('x, 'key) app_env \<Rightarrow> (screen_rect \<times> mouse_target) list \<Rightarrow> nat \<Rightarrow> (('x, 'key) app_env \<times> input_event) option \<Rightarrow>
     ('x, 'key) app \<Rightarrow> (('x, 'key) app + ('x, 'key) app) option" where
  "loop_turn E areas viewport arrived a = Option.bind (app_tick E (e_now E) a) (\<lambda>a1.
     let a2 = draw_app areas viewport a1 in
     if a_should_quit a2 then Some (Inl a2)
     else (case arrived of None \<Rightarrow> Some (Inr a2) | Some (E', ev) \<Rightarrow> map_option Inr (on_input E' ev a2)))"

end
