(* ===== verification/SessionSafety.thy ===== *)
theory SessionSafety
  imports Startup
begin

text \<open>
  What the session keeps: who owns the vault and the registry, that a lock is never lost, what a read-only session leaves
  untouched, and that a disabled command does nothing. Most operations only change the view; the relation \<open>view\<close> states
  what they keep, and the properties follow over every run of the event loop.
\<close>

text \<open>Calls that may not return: what a returned result says of the steps.\<close>

lemma bindE [elim!]: "Option.bind m f = Some c \<Longrightarrow> (\<And>x. m = Some x \<Longrightarrow> f x = Some c \<Longrightarrow> P) \<Longrightarrow> P"
  by (cases m) auto

lemma mapE [elim!]: "map_option f m = Some c \<Longrightarrow> (\<And>x. m = Some x \<Longrightarrow> c = f x \<Longrightarrow> P) \<Longrightarrow> P"
  by (cases m) auto

declare map_option_eq_Some [iff del]

section \<open>Operations that only change the view\<close>

definition core :: "('x, 'key) app \<Rightarrow> app_registry option \<times> falach_paths \<times> path \<times> bool \<times> ('x, 'key) sync_runtime \<times> bool
    \<times> phase \<times> ('x, 'key) app_vault option \<times> controller" where
  "core a = (a_registry a, a_paths a, a_user_path a, a_read_only a, a_sync a, a_lock_pending a, a_phase a, a_vault a, a_controller a)"

definition prefs_files :: "('x, 'key) app \<Rightarrow> path set" where
  "prefs_files a = {config_path (a_paths a), a_user_path a}"

definition spares :: "path set \<Rightarrow> disk \<Rightarrow> disk \<Rightarrow> bool" where
  "spares ps d d' = (\<forall>p. p \<notin> ps \<longrightarrow> d_files d' p = d_files d p)"

text \<open>The overlays from which a vault, its file or the registry is changed, and those that may be open while the worker
  has the vault.\<close>

definition mutating :: "overlay \<Rightarrow> bool" where
  "mutating ov = (case ov of
     OvSearch _ \<Rightarrow> False | OvHistory _ \<Rightarrow> False | OvConfirmQuit \<Rightarrow> False | OvPalette _ \<Rightarrow> False | _ \<Rightarrow> True)"

definition chrome :: "overlay \<Rightarrow> bool" where
  "chrome ov = (case ov of OvConfirmQuit \<Rightarrow> True | OvPalette _ \<Rightarrow> True | _ \<Rightarrow> False)"

definition fits :: "bool \<Rightarrow> bool \<Rightarrow> overlay option \<Rightarrow> bool" where
  "fits ro busy ov = (case ov of None \<Rightarrow> True | Some o' \<Rightarrow> (ro \<longrightarrow> \<not> mutating o') \<and> (busy \<longrightarrow> chrome o'))"

definition overlay_fits :: "('x, 'key) app \<Rightarrow> bool" where
  "overlay_fits a = fits (a_read_only a) (a_sync a \<noteq> None) (a_overlay a)"

definition view :: "('x, 'key) app \<Rightarrow> ('x, 'key) app \<Rightarrow> bool" where
  "view a b = (core b = core a \<and> spares (prefs_files a) (a_disk a) (a_disk b) \<and> (overlay_fits a \<longrightarrow> overlay_fits b))"

lemmas view_defs = view_def core_def prefs_files_def spares_def overlay_fits_def

lemma view_refl [simp]: "view a a"
  by (simp add: view_def spares_def)

lemma view_trans: "view a b \<Longrightarrow> view b c \<Longrightarrow> view a c"
  by (auto simp: view_defs)

lemma view_inert [simp]:
  "view a (b\<lparr>a_ui := x1\<rparr>) = view a b" "view a (b\<lparr>a_user := x2\<rparr>) = view a b" "view a (b\<lparr>a_recents := x3\<rparr>) = view a b"
  "view a (b\<lparr>a_notices := x4\<rparr>) = view a b" "view a (b\<lparr>a_keys := x5\<rparr>) = view a b" "view a (b\<lparr>a_theme_light := x6\<rparr>) = view a b"
  "view a (b\<lparr>a_selected_vault := x7\<rparr>) = view a b" "view a (b\<lparr>a_list_index := x8\<rparr>) = view a b"
  "view a (b\<lparr>a_status := x9\<rparr>) = view a b" "view a (b\<lparr>a_tabs := x10\<rparr>) = view a b" "view a (b\<lparr>a_bar := x11\<rparr>) = view a b"
  "view a (b\<lparr>a_tree := x12\<rparr>) = view a b" "view a (b\<lparr>a_jumps := x13\<rparr>) = view a b" "view a (b\<lparr>a_mode := x14\<rparr>) = view a b"
  "view a (b\<lparr>a_marks := x15\<rparr>) = view a b" "view a (b\<lparr>a_regions := x16\<rparr>) = view a b" "view a (b\<lparr>a_focus := x17\<rparr>) = view a b"
  "view a (b\<lparr>a_reveal := x18\<rparr>) = view a b" "view a (b\<lparr>a_scroll := x19\<rparr>) = view a b" "view a (b\<lparr>a_pending := x20\<rparr>) = view a b"
  "view a (b\<lparr>a_settings_index := x21\<rparr>) = view a b" "view a (b\<lparr>a_sync_status := x22\<rparr>) = view a b"
  "view a (b\<lparr>a_should_quit := x23\<rparr>) = view a b" "view a (b\<lparr>a_mouse := x24\<rparr>) = view a b"
  by (simp_all add: view_defs)

lemma view_say [simp]: "view a (say E s m b) = view a b"
  by (simp add: say_def)

lemma view_overlay: "view a b \<Longrightarrow> fits (a_read_only a) (a_sync a \<noteq> None) (Some ov) \<Longrightarrow> view a (b\<lparr>a_overlay := Some ov\<rparr>)"
  by (auto simp: view_defs)

lemma view_disk: "view a b \<Longrightarrow> spares (prefs_files a) (a_disk b) d \<Longrightarrow> view a (b\<lparr>a_disk := d\<rparr>)"
  by (auto simp: view_defs)

lemma view_core:
  assumes "view a b"
  shows "a_registry b = a_registry a" "a_paths b = a_paths a" "a_user_path b = a_user_path a" "a_read_only b = a_read_only a"
    "a_sync b = a_sync a" "a_lock_pending b = a_lock_pending a" "a_phase b = a_phase a" "a_vault b = a_vault a"
    "a_controller b = a_controller a"
  using assms by (simp_all add: view_def core_def)

section \<open>Writing the two preference files\<close>

lemma tui_save_spares: "tui_save C p c d = (r, d') \<Longrightarrow> p \<in> ps \<Longrightarrow> spares ps d d'"
  by (auto simp: tui_save_def abind_def aerr_def spares_def athrow_def dest!: disk_op_id_files disk_write_cases
      split: prod.splits sum.splits)

lemma update_at_spares: "update_at P p h f d = (r, d') \<Longrightarrow> p \<in> ps \<Longrightarrow> spares ps d d'"
  by (auto simp: update_at_def abind_def aerr_def spares_def areturn_def holding_def
      dest!: create_parent_files disk_lock_files latest_config_files config_save_files split: prod.splits sum.splits)


lemma view_save_ui [simp]: "view a b \<Longrightarrow> view a (save_ui_config E b)"
  by (auto simp: save_ui_config_def intro!: view_disk tui_save_spares simp: prefs_files_def view_core
      split: prod.splits sum.splits)

lemma view_persist_ui [simp]: "view a b \<Longrightarrow> view a (persist_ui_state E b)"
  by (simp add: persist_ui_state_def split: option.splits)

lemma view_update_user: "update_user_config E f b = (ok, c) \<Longrightarrow> view a b \<Longrightarrow> view a c"
  by (auto simp: update_user_config_def intro!: view_disk update_at_spares simp: prefs_files_def view_core
      split: prod.splits sum.splits)

section \<open>Navigation and search only change the view\<close>

lemma view_visit [simp]: "view a b \<Longrightarrow> view a (visit E u b)" "view a b \<Longrightarrow> view a (enter_detail E u b)"
  by (simp_all add: visit_def enter_detail_def)

lemma view_tree:
  "expand_ancestors u b = Some c \<Longrightarrow> view a b \<longrightarrow> view a c" "to_tab n b = Some c \<Longrightarrow> view a b \<longrightarrow> view a c"
  by (auto simp: expand_ancestors_def to_tab_def split: option.splits)

lemma view_jump_to_entry: "jump_to_entry E u b = Some c \<Longrightarrow> view a b \<longrightarrow> view a c"
  unfolding jump_to_entry_def by (auto dest!: view_tree [where a = a])

lemma view_jump_to_history: "jump_to_history E u b = Some c \<Longrightarrow> view a b \<longrightarrow> view a c"
  unfolding jump_to_history_def Let_def by (auto dest!: view_tree [where a = a] split: if_split_asm)

lemma view_jump_command: "jump_command E w s b = Some c \<Longrightarrow> view a b \<longrightarrow> view a c"
  unfolding jump_command_def
  by (auto dest!: view_jump_to_history [where a = a] split: option.split_asm prod.split_asm)

lemma view_marks:
  "recompute_visual_marks E b = Some c \<Longrightarrow> view a b \<longrightarrow> view a c" "view a b \<Longrightarrow> view a (toggle_current_mark b)"
  by (auto simp: recompute_visual_marks_def toggle_current_mark_def Let_def split: tree_mode.splits option.splits)

lemma view_enter_visual: "enter_visual_mode E b = Some c \<Longrightarrow> view a b \<longrightarrow> view a c"
  unfolding enter_visual_mode_def by (auto dest!: view_marks(1) [where a = a] split: option.split_asm)

lemma view_copy [simp]: "view a b \<Longrightarrow> view a (copy_field_of E u f b)" "view a b \<Longrightarrow> view a (do_copy E f b)"
  by (simp_all add: copy_field_of_def do_copy_def Let_def split: option.splits sum.splits)

lemma view_search_action:
  "search_primary_action E u b = Some c \<Longrightarrow> view a b \<longrightarrow> view a c"
  "search_secondary_action E u b = Some c \<Longrightarrow> view a b \<longrightarrow> view a c"
  unfolding search_primary_action_def search_secondary_action_def
  by (auto dest!: view_jump_to_entry [where a = a] split: enter_action.split_asm)

lemma view_restore [simp]: "view a (restore_saved_view v b) = view a b"
  by (simp add: restore_saved_view_def split: option.splits)

lemma view_tree_moved [simp]: "view a (tree_moved m b) = view a b"
  by (simp add: tree_moved_def Let_def)

lemma view_tree_command: "tree_command E k b = Some c \<Longrightarrow> view a b \<longrightarrow> view a c"
  by (auto simp: tree_command_def open_selected_def Let_def split: option.splits if_splits)

lemma view_scrolls [simp]: "view a (scroll_command n k b) = view a b" "view a (detail_command E k b) = view a b"
  by (simp_all add: scroll_command_def detail_command_def)

lemma view_tab_switched: "on_tab_switched E b = Some c \<Longrightarrow> view a b \<longrightarrow> view a c"
  unfolding on_tab_switched_def Let_def by (auto split: tab.split)

lemma view_tab_motion: "apply_tab_motion E k n b = Some c \<Longrightarrow> view a b \<longrightarrow> view a c"
  unfolding apply_tab_motion_def by (auto dest!: view_tab_switched [where a = a] split: if_split_asm)

lemma view_pin [simp]: "view a b \<Longrightarrow> view a (toggle_pin_selected E b)"
  by (simp add: toggle_pin_selected_def split: option.splits prod.splits)


section \<open>Opening overlays\<close>

lemma fits_idle [simp]: "fits ro False (Some ov) = (ro \<longrightarrow> \<not> mutating ov)" "fits ro busy None"
  by (simp_all add: fits_def)

lemma mutating_simps [simp]:
  "\<not> mutating (OvSearch s)" "\<not> mutating (OvHistory h)" "\<not> mutating OvConfirmQuit" "\<not> mutating (OvPalette p)"
  "chrome OvConfirmQuit" "chrome (OvPalette p)"
  by (simp_all add: mutating_def chrome_def)

lemma view_open:
  assumes "a_sync b = None"
  shows "open_search E b = Some c \<Longrightarrow> view b c" "view b (open_history_for E u b)" "view b (open_history E b)"
    "view b (open_tag_input act b)" "open_group_picker E b = Some c \<Longrightarrow> view b c"
    "\<not> a_read_only b \<Longrightarrow> open_add E b = Some c \<Longrightarrow> view b c" "\<not> a_read_only b \<Longrightarrow> view b (open_edit E b)"
    "\<not> a_read_only b \<Longrightarrow> view b (open_delete_confirm E b)" "\<not> a_read_only b \<Longrightarrow> view b (open_sync_config E b)"
    "\<not> a_read_only b \<Longrightarrow> view b (request_sync E b)"
  using assms
  by (auto simp: open_search_def open_history_for_def open_history_def open_tag_input_def open_group_picker_def open_add_def
      open_edit_def open_delete_confirm_def open_sync_config_def request_sync_def with_overlay_def is_syncing_def
      intro!: view_overlay split: option.splits if_splits)

lemma view_palette: "open_palette b = Some c \<Longrightarrow> view b c"
  by (auto simp: open_palette_def with_overlay_def fits_def intro!: view_overlay)

section \<open>Operations that keep who owns the vault\<close>

definition owns :: "('x, 'key) app \<Rightarrow> ('x, 'key) app \<Rightarrow> bool" where
  "owns a b = (a_paths b = a_paths a \<and> a_user_path b = a_user_path a \<and> a_read_only b = a_read_only a \<and> a_sync b = a_sync a
     \<and> a_lock_pending b = a_lock_pending a \<and> a_phase b = a_phase a \<and> (a_vault b = None) = (a_vault a = None)
     \<and> (a_registry b = None) = (a_registry a = None)
     \<and> (ac_state (a_controller b) = Locked \<longrightarrow> ac_state (a_controller a) = Locked)
     \<and> (overlay_fits a \<longrightarrow> overlay_fits b) \<and> (a_read_only a \<longrightarrow> view a b))"

lemma view_overlay_fits: "view a b \<Longrightarrow> overlay_fits a \<Longrightarrow> overlay_fits b"
  by (simp add: view_def)

lemma view_owns: "view a b \<Longrightarrow> owns a b"
  unfolding owns_def using view_core [of a b] view_overlay_fits [of a b] by simp

lemma owns_refl [simp]: "owns a a"
  by (simp add: view_owns)

lemma owns_trans: "owns a b \<Longrightarrow> owns b c \<Longrightarrow> owns a c"
  by (auto simp: owns_def intro: view_trans)

lemma owns_view: "owns a b \<Longrightarrow> view b c \<Longrightarrow> owns a c"
  using owns_trans view_owns by blast

lemma owns_inert [simp]:
  "owns a (b\<lparr>a_marks := x1\<rparr>) = owns a b" "owns a (b\<lparr>a_mode := x2\<rparr>) = owns a b" "owns a (b\<lparr>a_tree := x3\<rparr>) = owns a b"
  "owns a (b\<lparr>a_sync_status := x4\<rparr>) = owns a b" "owns a (say E s m b) = owns a b"
  by (simp_all add: owns_def overlay_fits_def say_def)

lemma owns_persist_ui [simp]: "owns a b \<Longrightarrow> owns a (persist_ui_state E b)" "owns a b \<Longrightarrow> owns a (visit E u b)"
  by (auto intro: owns_view)

text \<open>Writing is for sessions that are not read-only.\<close>

lemma owns_write:
  assumes "\<not> a_read_only a"
  shows "owns a (b\<lparr>a_disk := d\<rparr>) = owns a b" "a_vault b = Some v \<Longrightarrow> owns a (b\<lparr>a_vault := Some v'\<rparr>) = owns a b"
    "a_registry b = Some r \<Longrightarrow> owns a (b\<lparr>a_registry := Some r'\<rparr>) = owns a b"
  using assms by (auto simp: owns_def overlay_fits_def)

lemma owns_on_vault: "\<not> a_read_only a \<Longrightarrow> on_app_vault m b = Some (r, c) \<Longrightarrow> owns a b \<Longrightarrow> owns a c"
  by (auto simp: on_app_vault_def owns_write split: option.split_asm prod.split_asm sum.split_asm fault.split_asm)

lemma owns_on_vault_or_skip: "\<not> a_read_only a \<Longrightarrow> on_vault_or_skip m b = Some (r, c) \<Longrightarrow> owns a b \<Longrightarrow> owns a c"
  by (auto simp: on_vault_or_skip_def owns_on_vault split: if_split_asm)

lemma owns_persist: "\<not> a_read_only a \<Longrightarrow> persist_vault E b = (r, c) \<Longrightarrow> owns a b \<Longrightarrow> owns a c"
  by (auto simp: persist_vault_def owns_write split: option.split_asm prod.split_asm if_split_asm)

lemma owns_then_persist: "\<not> a_read_only a \<Longrightarrow> then_persist E (r0, b) = (r, c) \<Longrightarrow> owns a b \<Longrightarrow> owns a c"
  by (auto simp: then_persist_def owns_persist split: prod.split_asm sum.split_asm)


lemma owns_finish_bulk: "\<not> a_read_only a \<Longrightarrow> owns a b \<Longrightarrow> owns a (finish_bulk_op E n verb (r, b))"
  using owns_then_persist [of a E r b] by (auto simp: finish_bulk_op_def split: prod.split sum.split)

lemma owns_fold_forget: "owns a (fold forget_entry us b) = owns a b"
  by (induction us arbitrary: b) (auto simp: forget_entry_def owns_def overlay_fits_def)

lemma owns_reselect: "reselect E gone b = Some c \<Longrightarrow> owns a b \<longrightarrow> owns a c"
  by (auto simp: reselect_def split: option.split_asm if_split_asm)

lemma owns_bulk:
  assumes "\<not> a_read_only b"
  shows "apply_move_to_group E g b = Some c \<Longrightarrow> owns b c" "apply_tag E act tag b = Some c \<Longrightarrow> owns b c"
    "perform_bulk_delete E us b = Some c \<Longrightarrow> owns b c" "perform_delete E u b = Some c \<Longrightarrow> owns b c"
proof -
  note steps = owns_on_vault_or_skip [OF assms] owns_on_vault [OF assms] owns_then_persist [OF assms]
  show "apply_move_to_group E g b = Some c \<Longrightarrow> owns b c"
    by (auto simp: apply_move_to_group_def Let_def intro!: owns_finish_bulk [OF assms] dest: steps(1))
  show "apply_tag E act tag b = Some c \<Longrightarrow> owns b c"
    unfolding apply_tag_def Let_def
    by (auto intro!: owns_finish_bulk [OF assms] dest: steps(1) split: sum.split_asm)
  show "perform_bulk_delete E us b = Some c \<Longrightarrow> owns b c"
    unfolding perform_bulk_delete_def
    by (auto dest!: steps owns_reselect [where a = b] simp: owns_fold_forget split: prod.split_asm sum.split_asm)
  show "perform_delete E u b = Some c \<Longrightarrow> owns b c"
    unfolding perform_delete_def
    by (auto dest!: steps owns_reselect [where a = b] simp: owns_fold_forget [of _ "[u]", simplified]
        split: prod.split_asm sum.split_asm if_split_asm)
qed

lemma owns_save:
  assumes "\<not> a_read_only b" "perform_save E s b = Some (ok, s', c)"
  shows "owns b c"
proof (cases "\<exists>v. form_snapshot (e_unicode E) s = Inr v \<and> a_vault b \<noteq> None")
  case False
  with assms(2) show ?thesis by (auto simp: perform_save_def split: sum.split_asm)
next
  case True
  then obtain v where v: "form_snapshot (e_unicode E) s = Inr v" "a_vault b \<noteq> None" by blast
  let ?m = "case es_target s of
      Some u \<Rightarrow> abind (apply_update (e_start E) (e_time E) u v) (\<lambda>_. areturn u)
    | None \<Rightarrow> apply_add (e_fresh E 0) (e_time E) (e_blank E) (es_group s) v"
  from assms(2) v obtain p where p: "on_app_vault ?m b = Some p" by (auto simp: perform_save_def)
  obtain r b1 where rb: "p = (r, b1)" by fastforce
  obtain q b2 where q: "then_persist E (r, b1) = (q, b2)" by fastforce
  have "owns b b2"
    using owns_then_persist [OF assms(1) q owns_on_vault [OF assms(1) p [unfolded rb]]] by simp
  with assms(2) v p rb q show ?thesis
    by (cases q) (auto simp: perform_save_def Let_def)
qed

section \<open>Settings\<close>

lemma arm_controller: "arm_auto_lock now b = Some c \<Longrightarrow> \<exists>k. c = b\<lparr>a_controller := k\<rparr> \<and> ac_state k = Active"
  unfolding arm_auto_lock_def by (erule mapE) (auto simp: unlock_def split: option.split sum.split)

lemma owns_armed: "\<not> a_read_only a \<Longrightarrow> ac_state k = Active \<Longrightarrow> owns a b \<Longrightarrow> owns a (b\<lparr>a_controller := k\<rparr>)"
  by (auto simp: owns_def overlay_fits_def)

lemma owns_arm: "arm_auto_lock now b = Some c \<Longrightarrow> \<not> a_read_only a \<Longrightarrow> owns a b \<Longrightarrow> owns a c"
  using owns_armed by (blast dest: arm_controller)

lemma owns_set_auto_lock: "\<not> a_read_only b \<Longrightarrow> set_auto_lock E n b = Some c \<Longrightarrow> owns b c"
  unfolding set_auto_lock_def
  by (auto simp: owns_write dest!: owns_arm [where a = b] split: option.split_asm prod.split_asm sum.split_asm)

lemma view_settings [simp]:
  "view a b \<Longrightarrow> view a (update_and_say E f msg b)" "view a b \<Longrightarrow> view a (cycle_theme E b)"
  by (auto simp: update_and_say_def cycle_theme_def Let_def dest!: view_update_user [of _ _ _ _ _ a]
      split: prod.split bool.split)

lemma owns_settings:
  assumes "a_sync b = None"
  shows "settings_command E k b = Some c \<Longrightarrow> owns b c"
proof -
  have "activate_settings_row E b = Some c \<Longrightarrow> owns b c"
    using assms view_open(9) [of b E]
    unfolding activate_settings_row_def Let_def cycle_auto_lock_def
    by (auto intro: view_owns owns_set_auto_lock split: if_split_asm)
  then show "settings_command E k b = Some c \<Longrightarrow> owns b c"
    by (auto simp: settings_command_def intro!: view_owns split: if_split_asm)
qed

lemma owns_configure: "\<not> a_read_only b \<Longrightarrow> perform_configure_sync E s b = (ok, s', c) \<Longrightarrow> owns b c"
  unfolding perform_configure_sync_def Let_def
  by (auto simp: owns_write split: option.split_asm prod.split_asm sum.split_asm if_split_asm)


section \<open>Commands\<close>

lemma owns_scrolls:
  "owns b (scroll_command n k b)" "owns b (detail_command E k b)" "tree_command E k b = Some c \<Longrightarrow> owns b c"
  using view_tree_command [of E k b c b] by (auto intro!: view_owns)

lemma owns_context_nav:
  "a_sync b = None \<Longrightarrow> a_phase b = Workspace \<Longrightarrow> exec_context_nav E k b = Some c \<Longrightarrow> owns b c"
  unfolding exec_context_nav_def
  by (auto simp: owns_scrolls dest: owns_settings split: tab.split_asm pane.split_asm)

lemma owns_run_command:
  assumes "a_sync b = None" "\<not> (a_read_only b \<and> k \<in> set RO_MUTATING_COMMANDS)"
    "a_phase b = Workspace \<or> k \<notin> set nav_commands" "run_command E k b = Some c"
  shows "owns b c"
proof -
  have ro: "k \<in> set RO_MUTATING_COMMANDS \<Longrightarrow> \<not> a_read_only b" using assms(2) by blast
  have "k \<in> set nav_commands \<Longrightarrow> exec_context_nav E k b = Some c \<Longrightarrow> owns b c"
    using owns_context_nav assms(1,3) by blast
  moreover have "k \<notin> set nav_commands \<Longrightarrow> view b c"
    using assms(4) ro view_open [OF assms(1)] view_jump_command [where a = b and b = b] view_enter_visual [where a = b and b = b]
    by (cases k) (auto simp: run_command_def RO_MUTATING_COMMANDS_def toggle_focus_def exec_reveal_def cycle_tree_sort_def
        Let_def exec_history_def do_jump_back_def do_jump_forward_def nav_commands_def split: tab.split_asm)
  ultimately show ?thesis using assms(4) view_owns
    by (cases k) (auto simp: run_command_def nav_commands_def)
qed


section \<open>The invariant of a session\<close>

text \<open>The worker sends pings, then at most its result as its last message.\<close>

definition worker_ok :: "('x, 'key) sync_runtime \<Rightarrow> bool" where
  "worker_ok r = (case r of None \<Rightarrow> True | Some w \<Rightarrow>
     set (wk_sent w) \<subseteq> {SyncActivity}
     \<or> wk_job w = None \<and> (\<exists>ms rs. wk_sent w = ms @ [SyncDone rs] \<and> set ms \<subseteq> {SyncActivity}))"

text \<open>The vault is with the workspace or with the worker, and so is the registry; a pending lock waits for the worker; a
  locked controller has no open vault; what a read-only session or the worker forbids is not open.\<close>

definition session_ok :: "('x, 'key) app \<Rightarrow> bool" where
  "session_ok a = ((a_vault a \<noteq> None \<longrightarrow> a_phase a = Workspace)
     \<and> (a_registry a = None) = (a_sync a \<noteq> None)
     \<and> (a_sync a \<noteq> None \<longrightarrow> a_vault a = None \<and> a_phase a = Workspace \<and> \<not> a_read_only a)
     \<and> (a_phase a = Workspace \<longrightarrow> a_vault a \<noteq> None \<or> a_sync a \<noteq> None)
     \<and> (a_lock_pending a \<longrightarrow> a_sync a \<noteq> None)
     \<and> (ac_state (a_controller a) = Locked \<longrightarrow> a_vault a = None \<and> (a_sync a \<noteq> None \<longrightarrow> a_lock_pending a))
     \<and> overlay_fits a \<and> worker_ok (a_sync a))"

text \<open>What a read-only session shows was read from the file.\<close>

definition opened_from :: "('x db, 'key) kdbx \<Rightarrow> disk \<Rightarrow> ('x, 'key) app_vault \<Rightarrow> bool" where
  "opened_from K d v = (\<exists>b. d_files d (v_path v) = Some b \<and> kx_open K b (v_key v) = Inr (v_database v))"

definition left_alone :: "('x db, 'key) kdbx \<Rightarrow> ('x, 'key) app \<Rightarrow> ('x, 'key) app \<Rightarrow> bool" where
  "left_alone K a b = (a_registry b = a_registry a \<and> spares (prefs_files a) (a_disk a) (a_disk b)
     \<and> (\<forall>v. a_vault b = Some v \<longrightarrow> a_vault a = Some v \<or> v_path v \<in> prefs_files a \<or> opened_from K (a_disk a) v))"

definition safe :: "('x db, 'key) kdbx \<Rightarrow> ('x, 'key) app \<Rightarrow> ('x, 'key) app \<Rightarrow> bool" where
  "safe K a b = (a_paths b = a_paths a \<and> a_user_path b = a_user_path a \<and> a_read_only b = a_read_only a \<and> session_ok b
     \<and> (a_read_only a \<longrightarrow> left_alone K a b))"

lemma owns_ok: "session_ok a \<Longrightarrow> owns a b \<Longrightarrow> session_ok b"
  unfolding session_ok_def owns_def by (elim conjE) (intro conjI; simp)

lemma view_unchanged: "view a b \<Longrightarrow> left_alone K a b"
  unfolding left_alone_def using view_core [of a b] by (simp add: view_def)

lemma owns_safe: "session_ok a \<Longrightarrow> owns a b \<Longrightarrow> safe K a b"
  using owns_ok [of a b] by (simp add: safe_def owns_def view_unchanged)

lemma view_safe: "session_ok a \<Longrightarrow> view a b \<Longrightarrow> safe K a b"
  by (simp add: owns_safe view_owns)

lemma safe_refl [simp]: "safe K a a = session_ok a"
  by (auto simp: safe_def left_alone_def spares_def)

lemma safe_ok: "safe K a b \<Longrightarrow> session_ok b"
  by (simp add: safe_def)

lemma left_alone_trans:
  assumes "left_alone K a b" "left_alone K b c" "prefs_files b = prefs_files a"
  shows "left_alone K a c"
proof -
  have read: "v_path v \<in> prefs_files a \<or> opened_from K (a_disk a) v" if "opened_from K (a_disk b) v" for v
    using that assms(1) by (auto simp: left_alone_def spares_def opened_from_def)
  with assms show ?thesis unfolding left_alone_def spares_def by metis
qed

lemma safe_trans: "safe K a b \<Longrightarrow> safe K b c \<Longrightarrow> safe K a c"
  using left_alone_trans [of K a b c] by (simp add: safe_def prefs_files_def)

lemma safe_view: "safe K a b \<Longrightarrow> view b c \<Longrightarrow> safe K a c"
  using safe_trans view_safe safe_ok by blast


lemma fits_busy: "fits ro busy (Some ov) = ((ro \<longrightarrow> \<not> mutating ov) \<and> (busy \<longrightarrow> chrome ov))"
  by (simp add: fits_def)

lemma unlock_spares [simp]: "spares ps d (disk_unlock h d') = spares ps d d'"
  by (simp add: spares_def)

lemma spares_refl [simp]: "spares ps d d"
  by (simp add: spares_def)

section \<open>Leaving, locking and handing the vault to the worker\<close>

lemma lock_core [simp]:
  "a_vault (lock_app a) = None" "a_registry (lock_app a) = a_registry a" "a_paths (lock_app a) = a_paths a"
  "a_user_path (lock_app a) = a_user_path a" "a_read_only (lock_app a) = a_read_only a" "a_sync (lock_app a) = a_sync a"
  "a_lock_pending (lock_app a) = a_lock_pending a" "a_phase (lock_app a) = LockScreen" "a_overlay (lock_app a) = None"
  "a_controller (lock_app a) = a_controller a" "d_files (a_disk (lock_app a)) = d_files (a_disk a)"
  by (simp_all add: lock_app_def drop_vault_def split: option.split)

lemma safe_lock:
  assumes "session_ok a" "a_sync a = None"
  shows "safe K a (lock_app a)"
  using assms by (auto simp: safe_def session_ok_def left_alone_def spares_def overlay_fits_def)

lemma safe_start_sync:
  assumes "session_ok a" "a_overlay a = None"
  shows "safe K a (start_sync E trig pw a)"
proof (cases "a_read_only a \<or> a_selected_vault a = None \<or> a_vault a = None \<or> a_registry a = None")
  case True
  then have "start_sync E trig pw a = a \<or> (\<exists>s m. start_sync E trig pw a = say E s m a)"
    by (auto simp: start_sync_def split: option.split)
  then show ?thesis using assms(1) by (auto intro: view_safe)
next
  case False
  then show ?thesis using assms
    by (auto simp: start_sync_def say_def sync_start_def safe_def session_ok_def overlay_fits_def worker_ok_def)
qed

lemma leave_idle: "session_ok a \<Longrightarrow> should_sync_on_leave E a \<Longrightarrow> \<not> a_read_only a \<and> a_sync a = None"
  by (auto simp: session_ok_def should_sync_on_leave_def)

lemma view_sync_prompt: "\<not> a_read_only a \<and> a_sync a = None \<Longrightarrow> view a (a\<lparr>a_overlay := Some (OvSyncUnlock pi trig)\<rparr>)"
  by (auto intro!: view_overlay)

lemma safe_request_lock: "session_ok a \<Longrightarrow> a_phase a = Workspace \<Longrightarrow> safe K a (request_lock E a)"
  using leave_idle [of a E] view_sync_prompt [of a] safe_lock [of a K]
  by (auto simp: request_lock_def is_syncing_def intro: view_safe)
    (auto simp: safe_def session_ok_def overlay_fits_def say_def)

lemma view_do_quit: "session_ok a \<Longrightarrow> view a (do_quit E a)"
  using leave_idle [of a E] view_sync_prompt [of a] by (auto simp: do_quit_def)

lemma view_request_quit: "session_ok a \<Longrightarrow> view a (request_quit E a)"
  using view_do_quit [of a E] by (auto simp: request_quit_def fits_busy intro!: view_overlay)

lemma safe_cancel: "session_ok a \<Longrightarrow> a_sync a = None \<Longrightarrow> safe K a (cancel_pending_sync trig a)"
  using safe_lock [of a K] by (auto simp: cancel_pending_sync_def intro: view_safe split: sync_trigger.split)

section \<open>The vault list\<close>

lemma safe_list_nav:
  assumes "session_ok a" "a_phase a = UnlockList" "unlock_list_nav k a = Some c"
  shows "safe K a c"
proof -
  have "view a c \<or> (\<exists>name. c = open_unlock_prompt_for name a)"
    using assms(3) unfolding unlock_list_nav_def Let_def by (auto split: if_split_asm)
  moreover have "safe K a (open_unlock_prompt_for name a)" for name
    using assms(1,2) by (auto simp: open_unlock_prompt_for_def safe_def session_ok_def left_alone_def overlay_fits_def)
  ultimately show ?thesis using assms(1) view_safe by blast
qed

lemma safe_context_nav:
  assumes "session_ok a" "a_sync a = None" "exec_context_nav E k a = Some c"
  shows "safe K a c"
proof (cases "a_phase a")
  case UnlockList
  then show ?thesis using safe_list_nav [OF assms(1) UnlockList] assms(3) by (simp add: exec_context_nav_def)
next
  case Workspace
  then show ?thesis using owns_safe [OF assms(1) owns_context_nav [OF assms(2) Workspace assms(3)]] by simp
qed (use assms in \<open>auto simp: exec_context_nav_def\<close>)

lemma safe_execute:
  assumes ok: "session_ok a" and run: "execute_command E k cnt a = Some c"
  shows "safe K a c"
proof -
  have nav: "k \<in> set nav_commands \<Longrightarrow> run_command E k a = exec_context_nav E k a"
    by (cases k) (auto simp: run_command_def nav_commands_def)
  have "safe K a c" if "\<not> (a_read_only a \<and> k \<in> set RO_MUTATING_COMMANDS)" "a_sync a = None" "run_command E k a = Some c"
  proof (cases "k \<in> set nav_commands")
    case True
    then show ?thesis using safe_context_nav [OF ok that(2)] that(3) nav by simp
  next
    case False
    then show ?thesis using owns_safe [OF ok owns_run_command [OF that(2,1) _ that(3)]] by simp
  qed
  then show ?thesis
    using run view_safe [OF ok, of c K] view_request_quit [OF ok, of E] safe_request_lock [OF ok, of K E]
      view_tab_motion [of E k cnt a c a] view_palette [of a c]
    by (auto simp: execute_command_def is_syncing_def split: if_split_asm)
qed


section \<open>Keys of the overlays\<close>

text \<open>What a handler may answer: a safe step, and when the overlay stays, the worker and the mode are as before.\<close>

definition reply_ok :: "('x db, 'key) kdbx \<Rightarrow> ('x, 'key) app \<Rightarrow> ('s, 'x, 'key) overlay_reply \<Rightarrow> bool" where
  "reply_ok K a r = (\<forall>stays s b. r = Some (stays, s, b) \<longrightarrow> safe K a b \<and> (stays \<longrightarrow> a_sync b = a_sync a))"

lemma reply_keep [simp]: "reply_ok K a (keep s b) = (safe K a b \<and> a_sync b = a_sync a)"
  by (auto simp: reply_ok_def keep_def)

lemma reply_close: "(\<And>b. r = Some b \<Longrightarrow> safe K a b) \<Longrightarrow> reply_ok K a (close s r)"
  by (auto simp: reply_ok_def close_def)

lemma reply_owns: "session_ok a \<Longrightarrow> owns a b \<Longrightarrow> reply_ok K a (Some (stays, s, b))"
  by (simp add: reply_ok_def owns_safe) (simp add: owns_def)

lemma reply_none [simp]: "reply_ok K a None"
  by (simp add: reply_ok_def)

lemma put_back_safe:
  assumes "reply_ok K a r" "\<And>s. fits (a_read_only a) (a_sync a \<noteq> None) (Some (con s))" "put_back con r = Some c"
  shows "safe K a c"
proof -
  obtain stays s b where r: "r = Some (stays, s, b)" "c = (if stays then with_overlay (con s) b else b)"
    using assms(3) by (auto simp: put_back_def)
  with assms(1) have b: "safe K a b" "stays \<Longrightarrow> a_sync b = a_sync a" by (auto simp: reply_ok_def)
  have "view b (with_overlay (con s) b)" if "stays"
    unfolding with_overlay_def using b assms(2) that by (intro view_overlay) (simp_all add: safe_def)
  with r b(1) show ?thesis by (auto intro: safe_view)
qed

lemma reply_view: "session_ok a \<Longrightarrow> (\<And>b. r = Some b \<Longrightarrow> view a b) \<Longrightarrow> reply_ok K a (close s r)"
  by (auto intro: reply_close view_safe)

lemma reply_search:
  assumes "session_ok a"
  shows "reply_ok K a (on_search_key E k s a)"
proof -
  have primary: "reply_ok K a (close s' (search_primary_action E u a))" for s' :: search_state and u
    using view_search_action(1) [of E u a _ a] by (intro reply_view [OF assms]) simp
  have act: "reply_ok K a (close s (act_on u (search_primary_action E) a))"
    "reply_ok K a (close s (act_on u (search_secondary_action E) a))" for u
    by (intro reply_view [OF assms]; auto simp: act_on_def dest: view_search_action [where a = a] split: option.split_asm)+
  have restored: "reply_ok K a (close s (Some (restore_saved_view v a)))" for v
    by (intro reply_view [OF assms]) auto
  have edit: "reply_ok K a (search_edit E k s a)"
    using assms unfolding search_edit_def
    by (auto simp: reply_ok_def keep_def Let_def split: option.split_asm prod.split_asm if_split_asm)
  have scope: "reply_ok K a (Option.bind x (\<lambda>scope. map_option (\<lambda>s1. (True, s1, a)) (f scope)))"
    for x :: "search_scope option" and f :: "search_scope \<Rightarrow> search_state option" using assms by (auto simp: reply_ok_def)
  show ?thesis using assms primary act restored edit scope
    by (simp add: on_search_key_def split: option.split)
qed

lemma safe_say [simp]: "session_ok a \<Longrightarrow> safe K a (say E s m a)" "a_sync (say E s m a) = a_sync a"
  by (auto intro: view_safe) (simp add: say_def)

lemma reply_simple:
  assumes "session_ok a"
  shows "reply_ok K a (on_history_key k h a)" "reply_ok K a (on_palette_key E k pl a)"
  using assms safe_execute [OF assms]
  by (auto simp: on_history_key_def on_palette_key_def Let_def intro!: reply_close split: option.split prod.split)

lemma reply_confirm: "session_ok a \<Longrightarrow> (\<And>b. yes a = Some b \<Longrightarrow> safe K a b) \<Longrightarrow> reply_ok K a (on_confirm_key yes k a)"
  by (auto simp: on_confirm_key_def intro!: reply_close)

lemma reply_writing:
  assumes "session_ok a" "\<not> a_read_only a" "a_sync a = None" "a_overlay a = None"
  shows "reply_ok K a (on_edit_overlay_key E k es a)" "reply_ok K a (on_group_picker_key E k gp a)"
    "reply_ok K a (on_tag_input_key E k ti a)" "reply_ok K a (on_sync_unlock_key E k trig pi a)"
    "reply_ok K a (on_sync_config_key E k sc a)"
proof -
  note own = owns_safe [OF assms(1)] reply_owns [OF assms(1)]
  show "reply_ok K a (on_edit_overlay_key E k es a)"
    using assms(1) owns_save [OF assms(2), of E es] own unfolding on_edit_overlay_key_def reply_ok_def
    by (fastforce simp: keep_def close_def split: edit_reply.split_asm)
  show "reply_ok K a (on_group_picker_key E k gp a)"
    using assms(1) owns_bulk(1) [OF assms(2)] own(1)
    by (auto simp: on_group_picker_key_def act_on_def intro!: reply_close split: option.split)
  show "reply_ok K a (on_tag_input_key E k ti a)"
    using assms(1) owns_bulk(2) [OF assms(2)] own(1)
    by (auto simp: on_tag_input_key_def Let_def intro!: reply_close)
  show "reply_ok K a (on_sync_unlock_key E k trig pi a)"
    using assms(1) safe_cancel [OF assms(1,3)] safe_start_sync [OF assms(1,4)]
    unfolding on_sync_unlock_key_def reply_ok_def by (auto simp: keep_def close_def split: input_action.split_asm)
  show "reply_ok K a (on_sync_config_key E k sc a)"
    using assms(1) owns_configure [OF assms(2), of E sc] own
    unfolding on_sync_config_key_def reply_ok_def by (auto simp: keep_def close_def owns_def split: if_split_asm prod.split_asm)
qed


lemma fits_same:
  "mutating (OvEdit es)" "mutating (OvGroupPicker gp)" "mutating (OvTagInput ti)" "mutating (OvSyncUnlock pi trig)"
  "mutating (OvSyncConfig sc)" "mutating (OvConfirmDelete u t)" "mutating (OvConfirmBulkDelete us ts)"
  "\<not> chrome (OvEdit es)" "\<not> chrome (OvGroupPicker gp)" "\<not> chrome (OvTagInput ti)" "\<not> chrome (OvSyncUnlock pi trig)"
  "\<not> chrome (OvSyncConfig sc)" "\<not> chrome (OvConfirmDelete u t)" "\<not> chrome (OvConfirmBulkDelete us ts)"
  "\<not> chrome (OvSearch s)" "\<not> chrome (OvHistory h)"
  by (simp_all add: mutating_def chrome_def)

lemma safe_overlay_key:
  assumes ok: "session_ok a0" and run: "on_overlay_key E k a0 = Some c"
  shows "safe K a0 c"
proof (cases "a_overlay a0")
  case (Some ov)
  let ?a = "a0\<lparr>a_overlay := None\<rparr>"
  have v: "view a0 ?a" by (simp add: view_defs)
  have a: "session_ok ?a" "a_overlay ?a = None" using ok by (auto simp: session_ok_def overlay_fits_def)
  have fit: "fits (a_read_only ?a) (a_sync ?a \<noteq> None) (Some ov)"
    using ok Some by (simp add: session_ok_def overlay_fits_def)
  have idle: "mutating ov \<Longrightarrow> \<not> a_read_only ?a" "\<not> chrome ov \<Longrightarrow> a_sync ?a = None"
    using fit by (auto simp: fits_busy)
  have writing: "\<not> a_read_only ?a \<Longrightarrow> a_sync ?a = None \<Longrightarrow> put_back OvEdit (on_edit_overlay_key E k es ?a) = Some c \<Longrightarrow> safe K ?a c"
    "\<not> a_read_only ?a \<Longrightarrow> a_sync ?a = None \<Longrightarrow> put_back OvGroupPicker (on_group_picker_key E k gp ?a) = Some c \<Longrightarrow> safe K ?a c"
    "\<not> a_read_only ?a \<Longrightarrow> a_sync ?a = None \<Longrightarrow> put_back OvTagInput (on_tag_input_key E k ti ?a) = Some c \<Longrightarrow> safe K ?a c"
    "\<not> a_read_only ?a \<Longrightarrow> a_sync ?a = None \<Longrightarrow> put_back (\<lambda>i. OvSyncUnlock i trig) (on_sync_unlock_key E k trig pi ?a) = Some c \<Longrightarrow> safe K ?a c"
    "\<not> a_read_only ?a \<Longrightarrow> a_sync ?a = None \<Longrightarrow> put_back OvSyncConfig (on_sync_config_key E k sc ?a) = Some c \<Longrightarrow> safe K ?a c"
    for es gp ti trig pi sc
    using put_back_safe [OF reply_writing(1) [OF a(1) _ _ a(2)]] put_back_safe [OF reply_writing(2) [OF a(1) _ _ a(2)]]
      put_back_safe [OF reply_writing(3) [OF a(1) _ _ a(2)]] put_back_safe [OF reply_writing(4) [OF a(1) _ _ a(2)]]
      put_back_safe [OF reply_writing(5) [OF a(1) _ _ a(2)]] by (simp_all add: fits_busy)
  have "safe K ?a c"
  proof (cases ov)
    case (OvSearch s)
    show ?thesis by (rule put_back_safe [where con = OvSearch, OF reply_search [OF a(1), of K E k s]])
      (use run Some idle OvSearch in \<open>simp_all add: on_overlay_key_def fits_busy fits_same\<close>)
  next
    case (OvHistory h)
    show ?thesis by (rule put_back_safe [where con = OvHistory, OF reply_simple(1) [OF a(1), of K k h]])
      (use run Some idle OvHistory in \<open>simp_all add: on_overlay_key_def fits_busy fits_same\<close>)
  next
    case (OvPalette p)
    show ?thesis by (rule put_back_safe [where con = OvPalette, OF reply_simple(2) [OF a(1), of K E k p]])
      (use run Some OvPalette in \<open>simp_all add: on_overlay_key_def fits_busy\<close>)
  next
    case OvConfirmQuit
    have "reply_ok K ?a (on_confirm_key (Some \<circ> do_quit E) k ?a)"
      using view_safe [OF a(1) view_do_quit [OF a(1)]] by (intro reply_confirm [OF a(1)]) auto
    then show ?thesis by (rule put_back_safe [where con = "\<lambda>_. ov"])
      (use run Some fit OvConfirmQuit in \<open>simp_all add: on_overlay_key_def\<close>)
  next
    case (OvConfirmDelete u t)
    with idle have w: "\<not> a_read_only ?a" by (simp add: fits_same)
    from reply_confirm [OF a(1) owns_safe [OF a(1) owns_bulk(4) [OF w]]] show ?thesis
      by (rule put_back_safe [where con = "\<lambda>_. ov"])
        (use run Some fit OvConfirmDelete in \<open>simp_all add: on_overlay_key_def\<close>)
  next
    case (OvConfirmBulkDelete us ts)
    with idle have w: "\<not> a_read_only ?a" by (simp add: fits_same)
    from reply_confirm [OF a(1) owns_safe [OF a(1) owns_bulk(3) [OF w]]] show ?thesis
      by (rule put_back_safe [where con = "\<lambda>_. ov"])
        (use run Some fit OvConfirmBulkDelete in \<open>simp_all add: on_overlay_key_def\<close>)
  next
    case (OvEdit es)
    then show ?thesis using run Some idle writing(1) [of es] by (simp add: on_overlay_key_def fits_same)
  next
    case (OvGroupPicker gp)
    then show ?thesis using run Some idle writing(2) [of gp] by (simp add: on_overlay_key_def fits_same)
  next
    case (OvTagInput ti)
    then show ?thesis using run Some idle writing(3) [of ti] by (simp add: on_overlay_key_def fits_same)
  next
    case (OvSyncUnlock pi trig)
    then show ?thesis using run Some idle writing(4) [of trig pi] by (simp add: on_overlay_key_def fits_same)
  next
    case (OvSyncConfig sc)
    then show ?thesis using run Some idle writing(5) [of sc] by (simp add: on_overlay_key_def fits_same)
  qed
  with view_safe [OF ok v] show ?thesis by (rule safe_trans)
qed (use assms in \<open>simp add: on_overlay_key_def\<close>)


section \<open>Keys of the workspace\<close>

lemma view_visual:
  "handle_visual_key E k a = Some (Some b) \<Longrightarrow> view a b"
  unfolding handle_visual_key_def
  by (auto dest!: view_tree_command [where a = a] view_marks(1) [where a = a] intro: view_marks(2) split: if_split_asm)

lemma safe_secrets_normal:
  assumes "session_ok a" "on_secrets_normal_key E k a = Some c"
  shows "safe K a c"
proof -
  have marks: "safe K a (a\<lparr>a_marks := m\<rparr>)" "safe K a (toggle_current_mark a)" for m
    by (rule view_safe [OF assms(1)]; simp add: view_marks(2))+
  show ?thesis using assms marks safe_execute [OF assms(1), of E _ None c K]
    by (auto simp: on_secrets_normal_key_def split: if_split_asm option.split_asm)
qed

lemma safe_secrets_key:
  assumes "session_ok a" "on_secrets_key E k a = Some c"
  shows "safe K a c"
proof (cases "a_mode a")
  case TreeNormal
  then show ?thesis using assms safe_secrets_normal by (simp add: on_secrets_key_def)
next
  case (TreeVisual n)
  then obtain r where "handle_visual_key E k a = Some r" "(case r of Some b \<Rightarrow> Some b | None \<Rightarrow> on_secrets_normal_key E k a) = Some c"
    using assms(2) by (auto simp: on_secrets_key_def)
  then show ?thesis using view_safe [OF assms(1) view_visual] safe_secrets_normal [OF assms(1)]
    by (cases r) auto
qed

lemma safe_dispatch:
  assumes "session_ok a" "dispatch_active_tab_key E k a = Some c"
  shows "safe K a c"
proof -
  obtain t where t: "active_tab (a_tabs a) = Some t" using assms(2) by (auto simp: dispatch_active_tab_key_def)
  show ?thesis
    using assms t safe_secrets_key [of a E k c K] safe_execute [OF assms(1), of E _ None c K]
    by (cases t) (simp_all add: dispatch_active_tab_key_def on_settings_key_def on_pinned_key_def split: option.split_asm)
qed

lemma safe_workspace_key:
  assumes "session_ok a" "on_workspace_key E k a = Some c"
  shows "safe K a c"
proof -
  have p: "view a (a\<lparr>a_pending := q\<rparr>)" for q by simp
  note step = safe_trans [OF view_safe [OF assms(1) p]]
  have ok: "session_ok (a\<lparr>a_pending := q\<rparr>)" for q using safe_ok [OF view_safe [OF assms(1) p]] .
  show ?thesis using assms(2) unfolding on_workspace_key_def
    by (auto intro: step safe_execute [OF ok] safe_dispatch [OF ok] view_safe [OF assms(1)] split: prod.split_asm resolution.split_asm)
qed

section \<open>Unlocking\<close>

lemma vault_open_reads:
  assumes "vault_open K p pw None h d = (r, d')"
  shows "d_files d' = d_files d" "r = Inr v \<Longrightarrow> opened_from K d v"
proof -
  have read: "\<And>q x y. disk_read q x = y \<Longrightarrow> d_files (snd y) = d_files x \<and> (\<forall>b. fst y = Inr b \<longrightarrow> d_files x q = Some b)"
    using disk_read_files by fastforce
  show "d_files d' = d_files d"
    using assms by (auto simp: vault_open_def abind_def aerr_def locked_def keyfile_material_def open_database_def areturn_def
        aresult_def map_err_def dest!: disk_lock_files read split: if_split_asm prod.split_asm sum.split_asm)
  show "r = Inr v \<Longrightarrow> opened_from K d v"
    using assms by (auto simp: vault_open_def abind_def aerr_def locked_def keyfile_material_def open_database_def areturn_def
        aresult_def map_err_def opened_from_def dest!: disk_lock_files read split: if_split_asm prod.split_asm sum.split_asm)
qed


text \<open>Filling the workspace from the files and the vault is a matter of the view.\<close>

lemma view_hydrate [simp]: "view a (hydrate_workspace b) = view a b"
  by (simp add: hydrate_workspace_def Let_def)

lemma view_reset: "reset_secrets_view E b = Some c \<Longrightarrow> view a b \<longrightarrow> view a c"
  unfolding reset_secrets_view_def Let_def by (auto split: option.split_asm)

lemma reset_overlay: "reset_secrets_view E b = Some c \<Longrightarrow> a_overlay c = a_overlay b \<and> a_disk c = a_disk b"
  unfolding reset_secrets_view_def Let_def by (auto simp: say_def split: option.split_asm)

lemma entered_workspace:
  assumes "enter_workspace E name typed v a = Some c"
  shows "\<exists>b. (c = b \<or> c = start_sync E TrigOnUnlock typed b) \<and> a_vault b = Some v \<and> a_registry b = a_registry a
    \<and> a_paths b = a_paths a \<and> a_user_path b = a_user_path a \<and> a_read_only b = a_read_only a \<and> a_sync b = a_sync a
    \<and> a_lock_pending b = a_lock_pending a \<and> a_phase b = Workspace \<and> ac_state (a_controller b) = Active
    \<and> a_overlay b = a_overlay a \<and> a_disk b = a_disk a"
proof -
  let ?a0 = "a\<lparr>a_vault := Some v, a_selected_vault := Some name\<rparr>"
  obtain a1 a2 where a1: "arm_auto_lock (e_now E) ?a0 = Some a1"
    and a2: "reset_secrets_view E ((hydrate_workspace a1)\<lparr>a_pending := no_pending\<rparr>) = Some a2"
    and c: "c = (let a3 = a2\<lparr>a_phase := Workspace\<rparr>
         in if sync_on_unlock (a_user a3) \<and> sync_configured E a3 then start_sync E TrigOnUnlock typed a3 else a3)"
    using assms unfolding enter_workspace_def by blast
  obtain k where k: "a1 = ?a0\<lparr>a_controller := k\<rparr>" "ac_state k = Active" using arm_controller [OF a1] by blast
  have "view a1 a2" using view_reset [OF a2, of a1] by simp
  moreover have "a_overlay a2 = a_overlay a" "a_disk a2 = a_disk a"
    using reset_overlay [OF a2] k(1) by (simp_all add: hydrate_workspace_def Let_def)
  ultimately show ?thesis using c k view_core [of a1 a2]
    by (intro exI [of _ "a2\<lparr>a_phase := Workspace\<rparr>"]) (auto simp: Let_def)
qed


lemma safe_enter:
  assumes ok: "session_ok a" and idle: "a_overlay a = None" "a_sync a = None"
    and v: "v_path v \<in> prefs_files a \<or> opened_from K (a_disk a) v"
    and c: "enter_workspace E name typed v a = Some c"
  shows "safe K a c"
proof -
  obtain b where b: "c = b \<or> c = start_sync E TrigOnUnlock typed b" "a_vault b = Some v" "a_registry b = a_registry a"
    "a_paths b = a_paths a" "a_user_path b = a_user_path a" "a_read_only b = a_read_only a" "a_sync b = a_sync a"
    "a_lock_pending b = a_lock_pending a" "a_phase b = Workspace" "ac_state (a_controller b) = Active"
    "a_overlay b = a_overlay a" "a_disk b = a_disk a"
    using entered_workspace [OF c] by blast
  have "safe K a b" using b ok idle v by (auto simp: safe_def session_ok_def left_alone_def overlay_fits_def)
  moreover have "safe K b (start_sync E TrigOnUnlock typed b)"
    using safe_start_sync [OF safe_ok [OF calculation]] b(11) idle(1) by simp
  ultimately show ?thesis using b(1) safe_trans by blast
qed

text \<open>Steps before the workspace: the phase changes, and the files are only read.\<close>

lemma safe_outside:
  assumes "session_ok a" "a_vault a = None" "a_sync a = None" "core b = core (a\<lparr>a_phase := p\<rparr>)" "p \<noteq> Workspace"
    "a_overlay b = a_overlay a" "d_files (a_disk b) = d_files (a_disk a)"
  shows "safe K a b"
  using assms by (auto simp: safe_def session_ok_def left_alone_def core_def overlay_fits_def spares_def)

lemma safe_try_unlock:
  assumes ok: "session_ok a" and idle: "a_overlay a = None" "a_phase a = UnlockPrompt n pi m"
    and run: "try_unlock E a = Some c"
  shows "safe (e_kdbx E) a c"
proof -
  have out: "a_vault a = None" "a_sync a = None" using ok idle(2) by (auto simp: session_ok_def)
  note outside = safe_outside [OF ok out]
  show ?thesis
  proof (cases "Option.bind (a_registry a) (\<lambda>r. registry_get r n)")
    case None
    then show ?thesis using run idle(2) by (auto simp: try_unlock_def core_def intro!: outside)
  next
    case (Some reg)
    obtain r d where o: "vault_open (e_kdbx E) (rv_path reg) (of_cps (pi_buffer pi)) None (e_handle E) (a_disk a) = (r, d)"
      by fastforce
    note files = vault_open_reads(1) [OF o]
    let ?b = "a\<lparr>a_disk := d, a_phase := UnlockList\<rparr>"
    have b: "safe (e_kdbx E) a ?b" using files by (auto intro!: outside simp: core_def)
    show ?thesis
    proof (cases r)
      case (Inl e)
      then show ?thesis using run idle(2) Some o files
        by (cases "e = AuthenticationFailed") (auto simp: try_unlock_def Let_def core_def intro!: outside split: vault_error.split_asm if_split_asm)
    next
      case (Inr v)
      then have "opened_from (e_kdbx E) (a_disk ?b) v"
        using vault_open_reads(2) [OF o, of v] files by (simp add: opened_from_def)
      then have "safe (e_kdbx E) ?b c"
        using run idle Some o Inr out by (intro safe_enter [OF safe_ok [OF b]]) (auto simp: try_unlock_def Let_def)
      with b show ?thesis by (rule safe_trans)
    qed
  qed
qed


lemma safe_prompt_key:
  assumes ok: "session_ok a" and idle: "a_overlay a = None" and run: "on_unlock_prompt_key E k a = Some c"
  shows "safe (e_kdbx E) a c"
proof (cases "a_phase a")
  case (UnlockPrompt n inp m)
  have out: "a_vault a = None" "a_sync a = None" using ok UnlockPrompt by (auto simp: session_ok_def)
  obtain act inp' where act: "pi_on_key (input_key_of k) inp = Some (act, inp')"
    using run UnlockPrompt by (auto simp: on_unlock_prompt_key_def)
  let ?b = "a\<lparr>a_phase := UnlockPrompt n inp' m\<rparr>"
  have b: "safe (e_kdbx E) a ?b" by (rule safe_outside [OF ok out]) (auto simp: core_def)
  have "safe (e_kdbx E) ?b c"
  proof (cases act)
    case InputContinue
    then show ?thesis using run UnlockPrompt act safe_ok [OF b] by (simp add: on_unlock_prompt_key_def)
  next
    case InputCancel
    then show ?thesis using run UnlockPrompt act out
      by (intro safe_outside [OF safe_ok [OF b]]) (auto simp: on_unlock_prompt_key_def core_def)
  next
    case InputSubmit
    then have "try_unlock E ?b = Some c" using run UnlockPrompt act by (simp add: on_unlock_prompt_key_def Let_def)
    then show ?thesis using idle by (intro safe_try_unlock [OF safe_ok [OF b]]) auto
  qed
  with b show ?thesis by (rule safe_trans)
qed (use ok run in \<open>simp_all add: on_unlock_prompt_key_def\<close>)

lemma safe_lock_screen_key:
  assumes ok: "session_ok a" and ph: "a_phase a = LockScreen" and run: "on_lock_screen_key a = Some c"
  shows "safe K a c"
proof -
  have out: "a_vault a = None" "a_sync a = None" using ok ph by (auto simp: session_ok_def)
  from run obtain i where "c = a\<lparr>a_phase := UnlockList\<rparr> \<or> c = a\<lparr>a_phase := UnlockList, a_list_index := i\<rparr>"
    by (auto simp: on_lock_screen_key_def split: option.split_asm)
  then show ?thesis by (auto intro!: safe_outside [OF ok out] simp: core_def)
qed

lemma safe_key:
  assumes "session_ok a" "on_key E k a = Some c"
  shows "safe (e_kdbx E) a c"
proof (cases "\<exists>cmd. execute_command E cmd None a = Some c")
  case True
  then show ?thesis using safe_execute [OF assms(1)] by blast
next
  case False
  then consider "on_overlay_key E k a = Some c"
    | "a_overlay a = None" "(case a_phase a of UnlockList \<Rightarrow> on_unlock_list_key E k a | UnlockPrompt _ _ _ \<Rightarrow> on_unlock_prompt_key E k a
        | LockScreen \<Rightarrow> on_lock_screen_key a | Workspace \<Rightarrow> on_workspace_key E k a) = Some c"
    using assms(2) by (auto simp: on_key_def split: if_split_asm)
  then show ?thesis
  proof cases
    case 1
    then show ?thesis using safe_overlay_key [OF assms(1)] by blast
  next
    case 2
    have "on_unlock_list_key E k a = Some c \<Longrightarrow> safe (e_kdbx E) a c"
      using assms(1) safe_execute [OF assms(1)] by (auto simp: on_unlock_list_key_def split: option.split_asm)
    then show ?thesis
      using 2 assms(1) safe_prompt_key [OF assms(1) 2(1), of E k c] safe_lock_screen_key [OF assms(1), of c]
        safe_workspace_key [OF assms(1), of E k c] by (simp split: phase.split_asm)
  qed
qed

section \<open>The mouse\<close>

lemma nav_busy:
  assumes "a_sync a \<noteq> None" "session_ok a" "k = Next \<or> k = Prev" "exec_context_nav E k a = Some c"
  shows "view a c"
proof -
  have ph: "a_phase a = Workspace" using assms(1,2) by (auto simp: session_ok_def)
  have "settings_command E k a = Some b \<Longrightarrow> view a b" for b using assms(3) by (auto simp: settings_command_def)
  then show ?thesis using assms(4) ph view_tree_command [of E k a c a]
    by (auto simp: exec_context_nav_def split: tab.split_asm pane.split_asm)
qed

lemma safe_nav:
  assumes "session_ok a" "k = Next \<or> k = Prev" "exec_context_nav E k a = Some c"
  shows "safe K a c"
  using safe_context_nav [OF assms(1) _ assms(3)] view_safe [OF assms(1) nav_busy [OF _ assms]] by blast

lemma safe_nav_times: "session_ok a \<Longrightarrow> k = Next \<or> k = Prev \<Longrightarrow> nav_times n E k a = Some c \<Longrightarrow> safe K a c"
proof (induction n arbitrary: a)
  case (Suc n)
  then obtain b where "exec_context_nav E k a = Some b" "nav_times n E k b = Some c" by auto
  then show ?case using safe_nav [OF Suc.prems(1,2)] Suc.IH [OF safe_ok Suc.prems(2)] safe_trans by blast
qed simp

lemma view_same_overlay:
  assumes "session_ok a" "a_overlay a = Some ov" "mutating o' = mutating ov" "chrome o' = chrome ov"
  shows "view a (with_overlay o' a)"
  using assms by (auto simp: with_overlay_def session_ok_def overlay_fits_def fits_busy intro!: view_overlay)

lemma safe_mouse:
  assumes ok: "session_ok a" and run: "on_mouse E m col row a = Some c"
  shows "safe K a c"
proof -
  note inert = view_safe [OF ok]
  have focused: "nav_times n E k (a\<lparr>a_focus := f\<rparr>) = Some c \<Longrightarrow> safe K a c" if "k = Next \<or> k = Prev" for n k f
    using safe_trans [OF inert [of "a\<lparr>a_focus := f\<rparr>"]] safe_nav_times [OF safe_ok [OF inert [of "a\<lparr>a_focus := f\<rparr>"]] that] by simp
  have plain: "nav_times n E k a = Some c \<Longrightarrow> safe K a c" if "k = Next \<or> k = Prev" for n k
    using safe_nav_times [OF ok that] .
  have search: "safe K a (scroll_search k a)" and palette: "safe K a (scroll_palette E k a)" for k
    using ok view_same_overlay [OF ok] by (auto simp: scroll_search_def scroll_palette_def Let_def fits_same intro!: inert split: option.split overlay.split)
  have scroll: "mouse_scroll E col row k a = Some c \<Longrightarrow> safe K a c" if "k = Next \<or> k = Prev" for k
    using focused [OF that] plain [OF that] search palette
    unfolding mouse_scroll_def by (auto simp del: nav_times.simps split: option.split_asm mouse_target.split_asm)
  have "apply_mouse_target E t a = Some c \<Longrightarrow> safe K a c" for t
    using ok safe_execute [OF ok, of E Help None c] view_same_overlay [OF ok]
    unfolding apply_mouse_target_def mouse_select_tree_row_def
    by (auto simp: fits_same dest!: view_tree(2) [where a = a] view_tab_switched [where a = a] intro!: inert
        split: mouse_target.split_asm option.splits overlay.split)
  then show ?thesis using run ok scroll by (auto simp: on_mouse_def split: if_split_asm mouse_kind.split_asm option.split_asm)
qed


section \<open>Messages of the worker and the clock\<close>

definition pings :: "('x, 'key) sync_msg list \<Rightarrow> bool" where
  "pings ms = (set ms \<subseteq> {SyncActivity})"

definition terminal :: "('x, 'key) sync_msg \<Rightarrow> bool" where
  "terminal m = (m \<noteq> SyncActivity)"

lemma drain_pings: "pings ms \<Longrightarrow> drain_until_done (ms @ rest) =
    (case drain_until_done rest of (xs, ys, fin) \<Rightarrow> (ms @ xs, ys, fin))"
  by (induction ms) (auto simp: pings_def is_done_def split: prod.splits)

lemma drained:
  assumes "worker_ok s" "sync_drain s = (ms, r)"
  shows "pings ms \<and> (r = None) = (s = None) \<and> worker_ok r
    \<or> s \<noteq> None \<and> r = None \<and> (\<exists>as t. ms = as @ [t] \<and> pings as \<and> terminal t)"
proof (cases s)
  case None
  then show ?thesis using assms by (simp add: sync_drain_def pings_def)
next
  case (Some w)
  show ?thesis
  proof (cases "set (wk_sent w) \<subseteq> {SyncActivity}")
    case True
    then have "drain_until_done (wk_sent w) = (wk_sent w, [], False)"
      using drain_pings [of "wk_sent w" "[]"] by (simp add: pings_def)
    then show ?thesis using assms(2) Some True
      by (auto simp: sync_drain_def pings_def terminal_def worker_ok_def split: if_split_asm)
  next
    case False
    then obtain as rs where sent: "wk_sent w = as @ [SyncDone rs]" "pings as"
      using assms(1) Some by (auto simp: worker_ok_def pings_def)
    then have "drain_until_done (wk_sent w) = (as @ [SyncDone rs], [], True)"
      using drain_pings [of as "[SyncDone rs]"] by (simp add: is_done_def)
    moreover have "terminal (SyncDone rs)" by (simp add: terminal_def)
    ultimately show ?thesis using assms(2) Some sent by (simp add: sync_drain_def) blast
  qed
qed

lemma activity_locked: "ac_state (register_activity now c) = Locked \<longleftrightarrow> ac_state c = Locked"
  by (simp add: register_activity_def split: lock_state.split)

lemma pings_run:
  "pings ms \<Longrightarrow> \<exists>k. on_sync_messages E now (ms @ rest) a = on_sync_messages E now rest (a\<lparr>a_controller := k\<rparr>)
     \<and> (ac_state k = Locked \<longleftrightarrow> ac_state (a_controller a) = Locked)"
proof (induction ms arbitrary: a)
  case Nil
  show ?case by (intro exI [of _ "a_controller a"]) simp
next
  case (Cons m ms)
  then have "m = SyncActivity" "pings ms" by (auto simp: pings_def)
  with Cons.IH [of "a\<lparr>a_controller := register_activity now (a_controller a)\<rparr>"]
  show ?case by (simp add: on_sync_message_def activity_locked)
qed

lemma view_reclamp: "reclamp_tree_selection E b = Some c \<Longrightarrow> view b c \<and> a_overlay c = a_overlay b"
  unfolding reclamp_tree_selection_def Let_def by (auto split: option.split)

lemma view_retain [simp]: "view a (retain_marks b) = view a b" "a_overlay (retain_marks b) = a_overlay b"
  by (simp_all add: retain_marks_def Let_def)

text \<open>The session right after the worker's last message was taken from the channel.\<close>

definition awaiting :: "('x, 'key) app \<Rightarrow> bool" where
  "awaiting a = (a_sync a = None \<and> \<not> a_read_only a \<and> a_vault a = None \<and> a_phase a = Workspace
     \<and> (ac_state (a_controller a) = Locked \<longrightarrow> a_lock_pending a))"

text \<open>Its effect: a session in order again, and a lock that was pending has happened.\<close>

definition settles :: "('x, 'key) app \<Rightarrow> ('x, 'key) app \<Rightarrow> bool" where
  "settles a b = (a_paths b = a_paths a \<and> a_user_path b = a_user_path a \<and> a_read_only b = a_read_only a \<and> session_ok b
     \<and> a_sync b = None \<and> (a_lock_pending a \<longrightarrow> a_phase b = LockScreen \<and> a_overlay b = None))"

lemma settles_locked:
  assumes "awaiting a" "a_paths b = a_paths a" "a_user_path b = a_user_path a" "a_read_only b = a_read_only a"
    "a_sync b = a_sync a" "a_registry b \<noteq> None" "\<not> a_lock_pending b"
  shows "settles a (lock_app b)" "settles a ((lock_app b)\<lparr>a_status := st\<rparr>)"
  using assms by (auto simp: settles_def awaiting_def session_ok_def overlay_fits_def worker_ok_def)

lemma terminal_settles:
  assumes w: "awaiting a" and t: "terminal t" and run: "on_sync_message E now t a = Some c"
  shows "settles a c"
proof (cases t)
  case SyncActivity
  then show ?thesis using t by (simp add: terminal_def)
next
  case SyncWorkerLost
  then show ?thesis using run w
    by (auto simp: on_sync_message_def recover_from_lost_worker_def Let_def intro!: settles_locked split: prod.split_asm)
next
  case (SyncDone rs)
  let ?a = "a\<lparr>a_registry := Some (rs_registry rs)\<rparr>"
  have int: "integrate_sync_result E rs now a = Some c" using run SyncDone by (simp add: on_sync_message_def)
  show ?thesis
  proof (cases "rs_outcome rs")
    case (Inl e)
    then show ?thesis using int w by (auto simp: integrate_sync_result_def Let_def intro!: settles_locked)
  next
    case (Inr out)
    then obtain a1 where a1: "reclamp_tree_selection E (surface_outcome out now (?a\<lparr>a_vault := Some (rs_vault rs)\<rparr>)) = Some a1"
      and c: "c = (if a_lock_pending (retain_marks a1) then lock_app ((retain_marks a1)\<lparr>a_lock_pending := False\<rparr>)
         else (case rs_trigger rs of TrigOnLock \<Rightarrow> lock_app (retain_marks a1)
           | TrigOnQuit \<Rightarrow> (retain_marks a1)\<lparr>a_should_quit := True\<rparr> | _ \<Rightarrow> retain_marks a1))"
      using int by (auto simp: integrate_sync_result_def Let_def)
    have v: "view (surface_outcome out now (?a\<lparr>a_vault := Some (rs_vault rs)\<rparr>)) (retain_marks a1)"
      using view_reclamp [OF a1] by simp
    note f = view_core [OF v, unfolded surface_outcome_def]
    have "settles a (retain_marks a1)" "settles a ((retain_marks a1)\<lparr>a_should_quit := True\<rparr>)" if "\<not> a_lock_pending a"
      using that w f by (auto simp: settles_def awaiting_def session_ok_def overlay_fits_def fits_def worker_ok_def split: option.split)
    moreover have "settles a (lock_app (retain_marks a1))" if "\<not> a_lock_pending a"
      using that w f by (intro settles_locked) auto
    moreover have "settles a (lock_app ((retain_marks a1)\<lparr>a_lock_pending := False\<rparr>))"
      using w f by (intro settles_locked) auto
    ultimately show ?thesis using c f(6) by (auto split: sync_trigger.split)
  qed
qed


lemma safe_clock:
  assumes "session_ok a"
  shows "safe K a (check_clock now a)"
proof (cases "a_vault a \<noteq> None \<or> is_syncing a")
  case True
  obtain st k where k: "tick now (a_controller a) = (st, k)" by fastforce
  have st: "ac_state k = st" using k by (auto simp: tick_def Let_def)
  let ?a = "a\<lparr>a_controller := k\<rparr>"
  have quiet: "safe K a ?a" if "st \<noteq> Locked"
    using that st assms by (auto simp: safe_def session_ok_def left_alone_def overlay_fits_def)
  have lock: "safe K a (lock_app ?a)" if "a_vault a \<noteq> None"
    using that assms by (auto simp: safe_def session_ok_def left_alone_def spares_def overlay_fits_def)
  have postponed: "safe K a (?a\<lparr>a_lock_pending := True\<rparr>)" if "a_vault a = None"
    using that True assms by (auto simp: safe_def session_ok_def left_alone_def overlay_fits_def is_syncing_def)
  show ?thesis using True k quiet lock postponed by (auto simp: check_clock_def Let_def)
qed (use assms in \<open>simp add: check_clock_def\<close>)

lemma clock_after_lock: "a_phase a = LockScreen \<Longrightarrow> session_ok a \<Longrightarrow> check_clock now a = a"
  by (auto simp: check_clock_def session_ok_def is_syncing_def)

lemma clock_keeps:
  assumes "session_ok m"
  shows "a_sync (check_clock now m) = a_sync m" "a_sync m \<noteq> None \<Longrightarrow> a_lock_pending m \<Longrightarrow> a_lock_pending (check_clock now m)"
proof -
  obtain st k where k: "tick now (a_controller m) = (st, k)" by fastforce
  show "a_sync (check_clock now m) = a_sync m" using k by (simp add: check_clock_def Let_def)
  assume "a_sync m \<noteq> None" "a_lock_pending m"
  moreover from this(1) have "a_vault m = None" using assms by (simp add: session_ok_def)
  ultimately show "a_lock_pending (check_clock now m)" using k by (simp add: check_clock_def Let_def)
qed

text \<open>A tick either leaves the worker at its work, or it takes its last message.\<close>

lemma tick_cases:
  assumes ok: "session_ok a" and run: "app_tick E now a = Some c"
  shows "safe K a c \<and> (a_sync c = None) = (a_sync a = None) \<and> (a_sync a \<noteq> None \<and> a_lock_pending a \<longrightarrow> a_lock_pending c)
    \<or> a_sync a \<noteq> None \<and> (\<exists>w m. a_paths w = a_paths a \<and> a_user_path w = a_user_path a \<and> a_read_only w = a_read_only a
        \<and> a_lock_pending w = a_lock_pending a \<and> settles w m \<and> c = check_clock now m)"
proof -
  obtain ms r where d: "sync_drain (a_sync a) = (ms, r)" by fastforce
  let ?b = "a\<lparr>a_bar := status_tick now (a_bar a), a_sync := r\<rparr>"
  obtain m where m: "on_sync_messages E now ms ?b = Some m" "c = check_clock now m"
    using run d by (auto simp: app_tick_def)
  from drained [OF _ d] ok consider
      "pings ms" "(r = None) = (a_sync a = None)" "worker_ok r"
    | as t where "a_sync a \<noteq> None" "r = None" "ms = as @ [t]" "pings as" "terminal t"
    by (auto simp: session_ok_def)
  then show ?thesis
  proof cases
    case 1
    obtain k where k: "m = ?b\<lparr>a_controller := k\<rparr>" "ac_state k = Locked \<longleftrightarrow> ac_state (a_controller ?b) = Locked"
      using pings_run [OF 1(1), of E now "[]" ?b] m(1) by auto
    have s: "safe K a m" using ok 1 k by (auto simp: safe_def session_ok_def left_alone_def overlay_fits_def)
    moreover have "safe K m c" using safe_clock [OF safe_ok [OF s]] m(2) by simp
    moreover have "a_sync c = r" "r \<noteq> None \<Longrightarrow> a_lock_pending a \<Longrightarrow> a_lock_pending c"
      using clock_keeps [OF safe_ok [OF s]] m(2) k(1) by simp_all
    ultimately show ?thesis using 1(2) safe_trans [of K a m c] by simp
  next
    case 2
    obtain k where k: "on_sync_messages E now [t] (?b\<lparr>a_controller := k\<rparr>) = Some m"
        "ac_state k = Locked \<longleftrightarrow> ac_state (a_controller ?b) = Locked"
      using pings_run [OF 2(4), of E now "[t]" ?b] m(1) 2(3) by auto
    let ?w = "?b\<lparr>a_controller := k\<rparr>"
    have "awaiting ?w" using ok 2(1,2) k(2) by (auto simp: awaiting_def session_ok_def)
    moreover have "on_sync_message E now t ?w = Some m" using k(1) by (cases "on_sync_message E now t ?w") auto
    ultimately have "settles ?w m" using terminal_settles 2(5) by blast
    then show ?thesis using 2(1) m(2) by (intro disjI2 conjI exI [of _ ?w] exI [of _ m]) auto
  qed
qed

lemma safe_tick:
  assumes ok: "session_ok a" and run: "app_tick E now a = Some c"
  shows "safe K a c"
  using tick_cases [OF assms, of K]
proof (elim disjE conjE exE)
  fix w m
  assume w: "a_sync a \<noteq> None" "a_paths w = a_paths a" "a_user_path w = a_user_path a" "a_read_only w = a_read_only a"
    and m: "settles w m" and c: "c = check_clock now m"
  have "session_ok m" using m by (simp add: settles_def)
  then have "safe K m c" using safe_clock c by blast
  then show "safe K a c" using ok w m by (auto simp: settles_def safe_def session_ok_def)
qed

section \<open>Runs of the event loop\<close>

text \<open>What can happen: input, a tick, the drawing of a frame, and a step of the worker. The environment of a step is
  arbitrary, but for the KDBX library.\<close>

inductive session_step :: "('x db, 'key) kdbx \<Rightarrow> ('x, 'key) app \<Rightarrow> ('x, 'key) app \<Rightarrow> bool" for K where
  step_input: "e_kdbx E = K \<Longrightarrow> on_input E ev a = Some b \<Longrightarrow> session_step K a b"
| step_tick: "e_kdbx E = K \<Longrightarrow> app_tick E now a = Some b \<Longrightarrow> session_step K a b"
| step_draw: "session_step K a (draw_app areas viewport a)"
| step_worker: "worker_step G ev (a_sync a) (a_disk a) = (r, d) \<Longrightarrow> session_step K a (a\<lparr>a_sync := r, a_disk := d\<rparr>)"

inductive session_run :: "('x db, 'key) kdbx \<Rightarrow> ('x, 'key) app \<Rightarrow> ('x, 'key) app \<Rightarrow> bool" for K where
  run_start: "session_run K a a"
| run_step: "session_run K a b \<Longrightarrow> session_step K b c \<Longrightarrow> session_run K a c"

inductive_cases session_stepE: "session_step K a b"


lemma safe_register: "session_ok a \<Longrightarrow> safe K a (register_input now a)"
  by (auto simp: register_input_def safe_def session_ok_def left_alone_def overlay_fits_def activity_locked)

lemma safe_input:
  assumes "session_ok a" "on_input E ev a = Some b"
  shows "safe (e_kdbx E) a b"
proof -
  note r = safe_register [OF assms(1), of "e_kdbx E" "e_now E"]
  show ?thesis using assms safe_trans [OF r safe_key [OF safe_ok [OF r]]] safe_trans [OF r safe_mouse [OF safe_ok [OF r]]]
    by (cases ev) (auto simp: on_input_def)
qed

lemma view_draw: "session_ok a \<Longrightarrow> view a (draw_app areas viewport a)"
  using view_overlay [of a "a\<lparr>a_regions := areas\<rparr>"]
  by (auto simp: draw_app_def Let_def with_overlay_def session_ok_def overlay_fits_def fits_busy fits_same
      split: option.split overlay.split)

lemma worker_step_ok: "worker_ok s \<Longrightarrow> worker_step G ev s d = (r, d') \<Longrightarrow> worker_ok r"
  by (cases s) (auto simp: worker_ok_def worker_step_def split: option.split_asm worker_event.split_asm prod.split_asm)

lemma safe_worker:
  assumes ok: "session_ok a" and step: "worker_step G ev (a_sync a) (a_disk a) = (r, d)"
  shows "safe K a (a\<lparr>a_sync := r, a_disk := d\<rparr>)"
proof -
  have "(r = None) = (a_sync a = None)" "a_sync a = None \<Longrightarrow> d = a_disk a"
    using step by (cases "a_sync a"; auto simp: worker_step_def split: option.split_asm worker_event.split_asm prod.split_asm)+
  moreover have "worker_ok r" using ok worker_step_ok [OF _ step] by (simp add: session_ok_def)
  ultimately show ?thesis using ok by (auto simp: safe_def session_ok_def left_alone_def overlay_fits_def)
qed

lemma safe_step: "session_step K a b \<Longrightarrow> session_ok a \<Longrightarrow> safe K a b"
  by (erule session_stepE) (auto intro: safe_input safe_tick view_safe view_draw safe_worker)

lemma safe_run: "session_run K a b \<Longrightarrow> session_ok a \<Longrightarrow> safe K a b"
  by (induction rule: session_run.induct) (auto intro: safe_trans safe_step safe_ok)

section \<open>The start\<close>

lemma registry_load_files: "registry_load C p d = (r, d') \<Longrightarrow> d_files d' = d_files d"
  by (auto simp: registry_load_def dest!: disk_read_files split: prod.split_asm sum.split_asm io_error.split_asm if_split_asm)

lemma tui_load_files: "tui_load C p d = (r, d') \<Longrightarrow> d_files d' = d_files d"
  by (auto simp: tui_load_def dest!: read_to_string_files split: prod.split_asm sum.split_asm)

lemma load_or_generate_spares: "load_or_generate P cat h p d = (r, d') \<Longrightarrow> spares {p} d d'"
  by (auto simp: load_or_generate_def Let_def spares_def dest!: read_to_string_files disk_lock_files disk_write_cases
      split: prod.split_asm sum.split_asm if_split_asm)

lemma load_preferences_spares:
  assumes "load_preferences E S args paths d = (r, d')"
  shows "spares {case ta_config args of Some p \<Rightarrow> p | None \<Rightarrow> config_toml paths} d d'"
proof -
  have op: "spares ps d1 d'" if "spares ps d2 d'" "d_files d2 = d_files d1" for ps d1 d2
    using that by (simp add: spares_def)
  show ?thesis using assms
    by (auto simp: load_preferences_def load_config_def load_config_from_def dest!: load_or_generate_spares disk_op_id_files
        create_parent_files intro: op split: option.split_asm prod.split_asm sum.split_asm) (auto simp: spares_def)
qed

lemma applied_args:
  assumes "apply_args E S args b = Some (Inr a)" "load_preferences E S args (a_paths b) (a_disk b) = ((cfg, notices), d)"
  shows "a_read_only a = ta_read_only args \<and> a_disk a = d \<and> a_paths a = a_paths b
    \<and> a_user_path a = (case ta_config args of Some p \<Rightarrow> p | None \<Rightarrow> config_toml (a_paths b))
    \<and> a_vault a = a_vault b \<and> a_registry a = a_registry b \<and> a_sync a = a_sync b \<and> a_lock_pending a = a_lock_pending b
    \<and> a_overlay a = a_overlay b \<and> a_controller a = a_controller b
    \<and> (a_phase a = a_phase b \<or> a_phase a \<noteq> Workspace)"
  using assms unfolding apply_args_def Let_def
  by (auto simp: effective_args_def open_unlock_prompt_for_def split: option.split_asm if_split_asm)

lemma started:
  assumes "app_new E S args found d = Some (Inr a)"
  shows "session_ok a" "a_read_only a = ta_read_only args" "spares (prefs_files a) d (a_disk a)" "a_vault a = None"
proof -
  obtain paths r d1 a1 where r: "registry_load (e_toml E) paths d = (Inr r, d1)"
    and a1: "app_from_registry E S r paths default_auto_lock d1 = Some (Inr a1)" and a: "apply_args E S args a1 = Some (Inr a)"
    using assms by (auto simp: app_new_def split: sum.split_asm prod.split_asm)
  have d1: "d_files (a_disk a1) = d_files d"
    using a1 registry_load_files [OF r] by (auto simp: app_from_registry_def dest!: tui_load_files split: if_split_asm prod.split_asm sum.split_asm)
  have c1: "a_vault a1 = None" "a_registry a1 = Some r" "a_phase a1 = UnlockList" "a_sync a1 = None" "\<not> a_lock_pending a1"
    "a_overlay a1 = None" "a_paths a1 = paths"
    using a1 by (auto simp: app_from_registry_def split: if_split_asm prod.split_asm sum.split_asm)
  obtain cfg notices d2 where p: "load_preferences E S args (a_paths a1) (a_disk a1) = ((cfg, notices), d2)" by (metis surj_pair)
  note f = applied_args [OF a p]
  show "session_ok a" using f c1 by (auto simp: session_ok_def overlay_fits_def worker_ok_def)
  show "a_read_only a = ta_read_only args" "a_vault a = None" using f c1(1) by simp_all
  show "spares (prefs_files a) d (a_disk a)"
    using load_preferences_spares [OF p] d1 f by (auto simp: spares_def prefs_files_def split: option.split_asm)
qed


section \<open>A lock that waits for the worker\<close>

definition waits :: "('x, 'key) app \<Rightarrow> ('x, 'key) app \<Rightarrow> bool" where
  "waits a b = (a_sync b = a_sync a \<and> (a_lock_pending a \<longrightarrow> a_lock_pending b))"

lemma view_waits: "view a b \<Longrightarrow> waits a b"
  by (simp add: waits_def view_core)

lemma execute_waits:
  assumes "session_ok a" "a_sync a \<noteq> None" "execute_command E k cnt a = Some c"
  shows "waits a c"
proof -
  have "waits a (request_lock E a)" using assms(2) by (simp add: request_lock_def is_syncing_def waits_def say_def)
  then show ?thesis
    using assms view_waits view_request_quit [OF assms(1), of E] view_tab_motion [of E k cnt a c a] view_palette [of a c]
    by (auto simp: execute_command_def is_syncing_def split: if_split_asm)
qed

lemma put_back_waits:
  "put_back con r = Some c \<Longrightarrow> (\<And>x s e. r = Some (x, s, e) \<Longrightarrow> waits a e) \<Longrightarrow> waits a c"
  by (auto simp: put_back_def with_overlay_def waits_def)

lemma overlay_waits:
  assumes ok: "session_ok a" and busy: "a_sync a \<noteq> None" and run: "on_overlay_key E k a = Some c"
  shows "waits a c"
proof (cases "a_overlay a")
  case (Some ov)
  let ?a = "a\<lparr>a_overlay := None\<rparr>"
  have a: "session_ok ?a" "a_sync ?a \<noteq> None" using ok busy by (auto simp: session_ok_def overlay_fits_def)
  have same: "waits ?a ?a" by (simp add: waits_def)
  have "chrome ov" using ok busy Some by (auto simp: session_ok_def overlay_fits_def fits_busy)
  then consider "ov = OvConfirmQuit" | p where "ov = OvPalette p" by (cases ov) (auto simp: chrome_def)
  then have "waits ?a c"
  proof cases
    case 1
    have q: "waits ?a (do_quit E ?a)" using view_waits view_do_quit [OF a(1)] by blast
    have "on_confirm_key (Some \<circ> do_quit E) k ?a = Some (x, s, e) \<Longrightarrow> waits ?a e" for x s e
      using q same unfolding on_confirm_key_def close_def keep_def by (auto split: if_split_asm)
    moreover have "put_back (\<lambda>_. ov) (on_confirm_key (Some \<circ> do_quit E) k ?a) = Some c"
      using run Some 1 by (simp add: on_overlay_key_def)
    ultimately show ?thesis using put_back_waits by blast
  next
    case 2
    have q: "execute_command E cm None ?a = Some e \<Longrightarrow> waits ?a e" for cm e using execute_waits [OF a] .
    have "on_palette_key E k p ?a = Some (x, s, e) \<Longrightarrow> waits ?a e" for x s e
      using q same unfolding on_palette_key_def Let_def close_def keep_def
      by (auto simp: waits_def say_def split: if_split_asm option.split_asm prod.split_asm)
    moreover have "put_back OvPalette (on_palette_key E k p ?a) = Some c"
      using run Some 2 by (simp add: on_overlay_key_def)
    ultimately show ?thesis using put_back_waits by blast
  qed
  then show ?thesis by (simp add: waits_def)
qed (use run in \<open>simp add: on_overlay_key_def waits_def\<close>)

lemma secrets_waits:
  assumes "session_ok a" "a_sync a \<noteq> None" "on_secrets_normal_key E k a = Some c"
  shows "waits a c"
proof -
  have "waits a (a\<lparr>a_marks := m\<rparr>)" "waits a (toggle_current_mark a)" "waits a a" for m
    using view_marks(2) [of a a] by (auto intro: view_waits)
  then show ?thesis using assms(3) execute_waits [OF assms(1,2), of E _ None c]
    by (auto simp: on_secrets_normal_key_def split: if_split_asm option.split_asm)
qed

lemma dispatch_waits:
  assumes "session_ok a" "a_sync a \<noteq> None" "dispatch_active_tab_key E k a = Some c"
  shows "waits a c"
proof -
  have same: "waits a a" by (simp add: waits_def)
  obtain t where t: "active_tab (a_tabs a) = Some t" using assms(3) by (auto simp: dispatch_active_tab_key_def)
  have "on_secrets_key E k a = Some c \<Longrightarrow> waits a c"
  proof (cases "a_mode a")
    case (TreeVisual n)
    assume "on_secrets_key E k a = Some c"
    with TreeVisual obtain r where "handle_visual_key E k a = Some r"
        "(case r of Some b \<Rightarrow> Some b | None \<Rightarrow> on_secrets_normal_key E k a) = Some c"
      by (auto simp: on_secrets_key_def)
    then show ?thesis using view_waits [OF view_visual] secrets_waits [OF assms(1,2)] by (cases r) auto
  qed (use secrets_waits [OF assms(1,2)] in \<open>simp add: on_secrets_key_def\<close>)
  then show ?thesis using assms(3) t same execute_waits [OF assms(1,2), of E _ None c]
    by (cases t) (auto simp: dispatch_active_tab_key_def on_settings_key_def on_pinned_key_def split: option.split_asm)
qed

lemma key_waits:
  assumes ok: "session_ok a" "a_sync a \<noteq> None" and run: "on_key E k a = Some c"
  shows "waits a c"
proof -
  have ph: "a_phase a = Workspace" using ok by (auto simp: session_ok_def)
  have p: "session_ok (a\<lparr>a_pending := q\<rparr>)" "a_sync (a\<lparr>a_pending := q\<rparr>) \<noteq> None" for q
    using safe_ok [OF view_safe [OF ok(1), of "a\<lparr>a_pending := q\<rparr>"]] ok(2) by simp_all
  have "on_workspace_key E k a = Some c \<Longrightarrow> waits a c"
    using execute_waits [OF p] dispatch_waits [OF p] unfolding on_workspace_key_def
    by (auto simp: waits_def split: prod.split_asm resolution.split_asm)
  then show ?thesis using run ph execute_waits [OF ok] overlay_waits [OF ok]
    by (auto simp: on_key_def split: if_split_asm)
qed


lemma nav_waits:
  "session_ok b \<Longrightarrow> a_sync b \<noteq> None \<Longrightarrow> k = Next \<or> k = Prev \<Longrightarrow> nav_times n E k b = Some c \<Longrightarrow> waits b c"
proof (induction n arbitrary: b)
  case (Suc n)
  then obtain d where d: "exec_context_nav E k b = Some d" "nav_times n E k d = Some c" by auto
  have v: "view b d" using nav_busy [OF Suc.prems(2,1,3) d(1)] .
  then have "waits d c"
    using Suc.IH [OF safe_ok [OF view_safe [OF Suc.prems(1) v]] _ Suc.prems(3) d(2)] Suc.prems(2) view_core(5) [OF v] by simp
  with view_waits [OF v] show ?case by (simp add: waits_def)
qed (simp add: waits_def)

lemma scroll_waits:
  assumes ok: "session_ok a" "a_sync a \<noteq> None" and k: "k = Next \<or> k = Prev" and run: "mouse_scroll E col row k a = Some c"
  shows "waits a c"
proof -
  have focused: "nav_times 3 E k (a\<lparr>a_focus := f\<rparr>) = Some c \<Longrightarrow> waits a c" for f
    using nav_waits [OF safe_ok [OF view_safe [OF ok(1), of "a\<lparr>a_focus := f\<rparr>"]] _ k] ok(2) by (simp add: waits_def)
  have wheel: "waits a (scroll_search k a)" "waits a (scroll_palette E k a)"
    by (auto simp: scroll_search_def scroll_palette_def Let_def with_overlay_def waits_def split: option.split overlay.split)
  show ?thesis
    using run focused wheel nav_waits [OF ok k, of 3 E c]
    by (cases "mouse_target_at col row a"; cases "the (mouse_target_at col row a)")
      (auto simp: mouse_scroll_def simp del: nav_times.simps)
qed

lemma click_waits:
  assumes ok: "session_ok a" "a_sync a \<noteq> None" and run: "apply_mouse_target E t a = Some c"
  shows "waits a c"
proof (cases t)
  case (MouseTab i)
  then obtain b where "to_tab (i + 1) a = Some b" "on_tab_switched E b = Some c" using run by (auto simp: apply_mouse_target_def)
  then have "view a c" using view_tree(2) [of "i + 1" a b a] view_tab_switched [of E b c a] by simp
  then show ?thesis by (rule view_waits)
next
  case MouseHintMore
  then show ?thesis using run execute_waits [OF ok] by (simp add: apply_mouse_target_def)
qed (use run in \<open>auto simp: apply_mouse_target_def mouse_select_tree_row_def with_overlay_def waits_def
    split: option.splits overlay.splits\<close>)

lemma waits_refl [simp]: "waits a a"
  by (simp add: waits_def)

lemma mouse_waits:
  assumes "session_ok a" "a_sync a \<noteq> None" "on_mouse E m col row a = Some c"
  shows "waits a c"
  using assms(3) scroll_waits [OF assms(1,2), of _ E col row c] click_waits [OF assms(1,2), of E _ c]
  by (cases m) (auto simp: on_mouse_def split: if_split_asm option.split_asm)

lemma input_waits:
  assumes ok: "session_ok a" "a_sync a \<noteq> None" and run: "on_input E ev a = Some c"
  shows "waits a c"
proof -
  let ?r = "register_input (e_now E) a"
  have r: "session_ok ?r" "a_sync ?r \<noteq> None" "waits a ?r"
    using safe_ok [OF safe_register [OF ok(1)]] ok(2) by (auto simp: register_input_def waits_def)
  have "c = a \<or> waits ?r c"
    using run mouse_waits [OF r(1,2)] key_waits [OF r(1,2)] by (cases ev) (auto simp: on_input_def)
  then show ?thesis using r(3) by (auto simp: waits_def)
qed

end
