(* ===== verification/Desk.thy ===== *)
theory Desk
  imports Startup
begin

text \<open>
  A small session for the witnesses: a registry with one vault, whose password is empty and which may ask for a sync when
  it is opened, on a disk without troubles; started with the vault named on the command line.
\<close>

definition desk_kdbx :: "(unit db, string) kdbx" where
  "desk_kdbx = \<lparr>kx_key = (\<lambda>pw m. Inr pw), kx_open = (\<lambda>b k. if b = [7] then Inr nested_vault else Inl OpenFormat),
     kx_save = (\<lambda>db k s. Inr [7]), kx_root = (\<lambda>_. 1), kx_kdf = (\<lambda>_. 0), kx_fresh = (\<lambda>_. nested_vault)\<rparr>"

definition desk :: "bool \<Rightarrow> nat \<Rightarrow> (unit, string) app_env" where
  "desk syncs now = \<lparr>e_kdbx = desk_kdbx,
     e_toml = \<lparr>toml_parse = (\<lambda>b. if b = [9] then Inr \<lparr>od_version = 1, od_vaults =
         [\<lparr>rv_name = ''v'', rv_path = [''v''], rv_created_at = [], rv_keyfile_path = None, rv_extra = [(sync_key, TomlString [])]\<rparr>], od_extra = []\<rparr> else Inl 0),
       toml_print = (\<lambda>_. Inl 0)\<rparr>,
     e_codec = \<lparr>cc_print = (\<lambda>_. TomlString []), cc_parse = (\<lambda>_. Some (config_s3 (new_s3_config ''b'' ''k'' ''r'' (EnvVars ''E''))))\<rparr>,
     e_prefs = \<lparr>pk_parse = (\<lambda>_. Inr (both_syncs syncs False)), pk_print = (\<lambda>_. Inl ())\<rparr>, e_ui = \<lparr>uk_parse = (\<lambda>_. Inl 0), uk_print = (\<lambda>_. Inl 0)\<rparr>,
     e_unicode = ascii, e_words = (\<lambda>_. []), e_generator = (\<lambda>_. None, []), e_clipboard = (\<lambda>_. Inr ()), e_auth = quiet_host,
     e_draws = (Inl [], Inl []), e_now = now, e_start = 0, e_time = 0, e_fresh = id, e_blank = (), e_handle = 3,
     e_format = (\<lambda>_. []), e_lines = (\<lambda>_ _ _. None), e_theme_names = [], e_resolve_theme = (\<lambda>_ _. ([], False)),
     e_show_vault = (\<lambda>_. []), e_show_sync = (\<lambda>_. []), e_show_security = (\<lambda>_. []), e_show_config = (\<lambda>_. []), e_show_ui = (\<lambda>_. [])\<rparr>"

definition desk_start :: startup_env where
  "desk_start = \<lparr>se_catalog = [], se_show_notice = (\<lambda>_. []), se_show_warning = (\<lambda>_. []), se_show_ui_notice = (\<lambda>_. []),
     se_theme_notices = []\<rparr>"

definition desk_disk :: disk where
  "desk_disk = \<lparr>d_files = (\<lambda>p. if p = [''s'', ''vaults.toml''] then Some [9] else if p = [''v''] then Some [7]
       else if p = [''s'', ''config.toml''] then Some [65] else None),
     d_troubles = [], d_locks = [], d_seed = 0\<rparr>"

definition desk_registry :: app_registry where
  "desk_registry = \<lparr>reg_paths = with_state_dir [''s''], reg_version = 1, reg_vaults =
     [\<lparr>rv_name = ''v'', rv_path = [''v''], rv_created_at = [], rv_keyfile_path = None, rv_extra = [(sync_key, TomlString [])]\<rparr>], reg_extra = [],
     reg_baseline = Some [9]\<rparr>"

definition desk_args :: "bool \<Rightarrow> tui_args" where
  "desk_args ro = default_args\<lparr>ta_vault := Some ''v'', ta_read_only := ro\<rparr>"

definition desk_fresh :: "(unit, string) app" where
  "desk_fresh = \<lparr>a_phase = UnlockList, a_vault = None, a_registry = Some desk_registry,
     a_paths = with_state_dir [''s''], a_ui = tui_default, a_user = user_config_default, a_user_path = [''s'', ''config.toml''],
     a_recents = [], a_notices = [], a_controller = \<lparr>ac_config = default_auto_lock, ac_state = Active, ac_last = None,
       ac_queue = [], ac_sources = []\<rparr>,
     a_keys = vim, a_theme_light = False, a_mouse = True, a_read_only = False,
     a_selected_vault = None, a_list_index = 0, a_status = None, a_tabs = tab_bar_new, a_bar = None,
     a_tree = tree_state_new, a_jumps = \<lparr>jh_back = [], jh_forward = []\<rparr>, a_mode = TreeNormal, a_marks = {},
     a_regions = [], a_focus = TreePane, a_reveal = False, a_scroll = 0, a_pending = no_pending, a_overlay = None,
     a_sync = None, a_lock_pending = False, a_settings_index = 0, a_sync_status = None, a_should_quit = False,
     a_disk = desk_disk\<rparr>"

definition desk_prompt :: "bool \<Rightarrow> bool \<Rightarrow> (unit, string) app" where
  "desk_prompt syncs ro = open_unlock_prompt_for ''v'' (desk_fresh\<lparr>a_user := both_syncs syncs False, a_read_only := ro\<rparr>)"

lemma desk_starts:
  "app_new (desk syncs now) desk_start (desk_args ro) (Inr (with_state_dir [''s''])) desk_disk = Some (Inr (desk_prompt syncs ro))"
proof -
  have keys: "from_patch (uc_keymap (both_syncs syncs False)) = Some (vim, [])" and vim: "preset_map Vim = Some vim"
    by (simp_all add: vim_def both_syncs_def set_sync_on_unlock_def set_sync_on_lock_quit_def user_config_default_def from_patch_def preset_rows reject_conflicts.simps [of _ "[]"] extract_Nil_code)
  have paths: "vaults_toml (with_state_dir [''s'']) = [''s'', ''vaults.toml'']" "config_toml (with_state_dir [''s'']) = [''s'', ''config.toml'']"
      "config_path (with_state_dir [''s'']) = [''s'', ''tui.toml'']" "uc_mouse (both_syncs syncs False)"
    by (simp_all add: both_syncs_def set_sync_on_unlock_def set_sync_on_lock_quit_def vaults_toml_def config_toml_def config_path_def with_state_dir_def user_config_default_def)
  have disk: "d_troubles desk_disk = []" "d_files desk_disk [''s'', ''vaults.toml''] = Some [9]" "d_files desk_disk [''s'', ''tui.toml''] = None"
      "d_files desk_disk [''s'', ''config.toml''] = Some [65]"
    by (simp_all add: desk_disk_def)
  have codecs: "toml_parse (e_toml (desk syncs now)) [9] = Inr \<lparr>od_version = 1, od_vaults = reg_vaults desk_registry, od_extra = []\<rparr>"
      "pk_parse (e_prefs (desk syncs now)) [65] = Inr (both_syncs syncs False)"
    by (simp_all add: desk_def desk_registry_def)
  have reg: "registry_load (e_toml (desk syncs now)) (with_state_dir [''s'']) desk_disk = (Inr desk_registry, desk_disk)"
    by (simp add: registry_load_def calm_read disk paths codecs schema_version_def) (simp add: desk_registry_def)
  have timeout: "validate_config default_auto_lock = Inr ()"
    by (simp add: validate_config_def default_auto_lock_def default_idle_timeout_def from_secs_def)
  have c: "new_controller default_auto_lock = Inr \<lparr>ac_config = default_auto_lock, ac_state = Active, ac_last = None,
       ac_queue = [], ac_sources = []\<rparr>"
    using timeout by (simp add: new_controller_def rbind_def)
  have ui: "tui_load (e_ui (desk syncs now)) [''s'', ''tui.toml''] desk_disk = ((tui_default, None), desk_disk)"
    by (simp add: tui_load_def read_to_string_def abind_def calm_read disk)
  have clamp: "clamp_config (both_syncs syncs False) = (both_syncs syncs False, [])" by (cases syncs) code_simp+
  have plain: "valid_utf8 (text_of [65])" by code_simp
  have prefs: "load_preferences (desk syncs now) desk_start (desk_args ro) (with_state_dir [''s'']) desk_disk =
      ((both_syncs syncs False, []), desk_disk)"
    by (simp add: load_preferences_def desk_args_def default_args_def load_config_def calm_op disk
        load_or_generate_def Let_def read_to_string_def abind_def calm_read paths areturn_def parse_and_clamp_def codecs plain clamp)
  have args: "ta_config (desk_args ro) = None" "ta_vault (desk_args ro) = Some ''v''" "ta_read_only (desk_args ro) = ro"
      "ta_theme (desk_args ro) = None" "ta_no_mouse (desk_args ro) = False"
    by (simp_all add: desk_args_def default_args_def)
  have start: "se_show_notice desk_start = (\<lambda>_. [])" "se_show_warning desk_start = (\<lambda>_. [])" "se_theme_notices desk_start = []"
      "e_resolve_theme (desk syncs now) = (\<lambda>_ _. ([], False))"
    by (simp_all add: desk_start_def desk_def)
  have registered: "reg_vaults desk_registry \<noteq> []" "registry_get desk_registry ''v'' \<noteq> None"
    by (simp_all add: desk_registry_def registry_get_def)
  have fresh: "app_from_registry (desk syncs now) desk_start desk_registry (with_state_dir [''s'']) default_auto_lock desk_disk
      = Some (Inr desk_fresh)"
    by (simp only: app_from_registry_def ui c vim registered paths desk_fresh_def
        if_False prod.case option.case sum.case option.map start list.map append_Nil2)
  have f: "a_paths desk_fresh = with_state_dir [''s'']" "a_disk desk_fresh = desk_disk" "a_notices desk_fresh = []"
    "a_registry desk_fresh = Some desk_registry" by (simp_all add: desk_fresh_def)
  have same: "desk_fresh\<lparr>a_user_path := [''s'', ''config.toml''], a_disk := desk_disk, a_user := both_syncs syncs False, a_keys := vim,
      a_mouse := True, a_read_only := ro, a_theme_light := False, a_notices := []\<rparr> = desk_fresh\<lparr>a_user := both_syncs syncs False, a_read_only := ro\<rparr>"
    by (simp add: desk_fresh_def)
  have "apply_args (desk syncs now) desk_start (desk_args ro) desk_fresh = Some (Inr (desk_prompt syncs ro))"
    by (simp add: apply_args_def f prefs keys effective_args_def args paths start registered same desk_prompt_def)
  then show ?thesis by (simp add: app_new_def reg fresh)
qed

text \<open>Enter at the prompt opens the vault: its password is empty.\<close>

definition desk_enter :: input_event where
  "desk_enter = KeyPressed \<lparr>ke_code = KEnter, ke_ctrl = False, ke_alt = False, ke_shift = False\<rparr>"

definition desk_vault :: "(unit, string) app_vault" where
  "desk_vault = \<lparr>v_path = [''v''], v_database = nested_vault, v_key = [], v_keyfile = None, v_lock = 3\<rparr>"

lemma desk_unlocks:
  "vault_open desk_kdbx [''v''] [] None 3 desk_disk = (Inr desk_vault, desk_disk\<lparr>d_locks := [(sidecar_lock_path [''v''], Exclusive, 3)]\<rparr>)"
proof -
  have disk: "d_troubles desk_disk = []" "d_files desk_disk [''v''] = Some [7]" "d_locks desk_disk = []"
    by (simp_all add: desk_disk_def)
  have k: "build_key_from_material desk_kdbx [] None = Inr []" "kx_open desk_kdbx [7] [] = Inr nested_vault"
    by (simp_all add: build_key_from_material_def desk_kdbx_def)
  show ?thesis
    by (simp add: vault_open_def path_exists_def disk k abind_def aerr_def calm_lock calm_read compatible_def locked_def
        keyfile_material_def open_database_def areturn_def aresult_def desk_vault_def)
qed

lemma key_matches_pairs: "key_matches (map row_of ps) c ev = list_ex (\<lambda>(cmd, t). cmd = c \<and> (case t of Key k \<Rightarrow> key_event_eq k ev | _ \<Rightarrow> False)) ps"
  by (induction ps) (auto simp: key_matches_def row_of_def)

text \<open>What the state before a sync that starts by itself has.\<close>

definition desk_ready :: "nat \<Rightarrow> bool \<Rightarrow> (unit, string) app \<Rightarrow> bool" where
  "desk_ready now ro b = (a_vault b = Some desk_vault \<and> a_phase b = Workspace \<and> a_sync b = None \<and> a_read_only b = ro
    \<and> a_selected_vault b = Some ''v'' \<and> a_registry b = Some desk_registry
    \<and> a_controller b = \<lparr>ac_config = default_auto_lock, ac_state = Active, ac_last = Some now, ac_queue = [], ac_sources = []\<rparr>)"

lemma desk_reset:
  assumes "a_vault x = Some desk_vault"
  shows "\<exists>b. reset_secrets_view E x = Some b \<and> a_vault b = a_vault x \<and> a_user b = a_user x \<and> a_sync b = a_sync x
    \<and> a_controller b = a_controller x \<and> a_read_only b = a_read_only x \<and> a_selected_vault b = a_selected_vault x \<and> a_registry b = a_registry x"
proof -
  define y where "y = (let a1 = x\<lparr>a_tree := with_sort (cfg_default_sort (a_user x)), a_focus := TreePane, a_reveal := False, a_scroll := 0\<rparr>
    in if a_notices a1 = [] then a1 else say E SevWarning (join ''; '' (a_notices a1)) (a1\<lparr>a_notices := []\<rparr>))"
  have y: "a_vault y = a_vault x" "a_user y = a_user x" "a_sync y = a_sync x" "a_controller y = a_controller x"
      "a_read_only y = a_read_only x" "a_selected_vault y = a_selected_vault x" "a_registry y = a_registry x"
    by (simp_all add: y_def Let_def say_def)
  have "the_db y = Some nested_vault" using y(1) assms by (simp add: the_db_def desk_vault_def)
  then obtain rs where "app_rows E y = Some (Some rs)"
    using build_rows_flat [OF nested_vault_ok, of "e_unicode E" "a_tree y" "a_recents y"] by (auto simp: app_rows_def)
  then have "reset_secrets_view E x = Some (y\<lparr>a_tree := select_first rs (a_tree y)\<rparr>)"
    unfolding reset_secrets_view_def Let_def y_def [symmetric, unfolded Let_def] by simp
  then show ?thesis using y by simp
qed

lemma desk_opened:
  "\<exists>b. desk_ready now ro b \<and> on_input (desk syncs now) desk_enter (desk_prompt syncs ro) =
    Some (if syncs then start_sync (desk syncs now) TrigOnUnlock [] b else b)"
proof -
  let ?k = "\<lparr>ke_code = KEnter, ke_ctrl = False, ke_alt = False, ke_shift = False\<rparr>"
  have "\<not> list_ex (\<lambda>(c, t). c = Quit \<and> (case t of Key k \<Rightarrow> key_event_eq k ?k | _ \<Rightarrow> False)) (preset_pairs Vim)" by code_simp
  then have quit: "\<not> key_matches vim Quit ?k" by (simp only: vim_def key_matches_pairs not_False_eq_True)
  let ?a = "register_input now (desk_prompt syncs ro)"
  let ?a1 = "?a\<lparr>a_disk := desk_disk\<lparr>d_locks := [(sidecar_lock_path [''v''], Exclusive, 3)]\<rparr>, a_phase := UnlockList\<rparr>"
  have f: "a_keys ?a = vim" "a_phase ?a = UnlockPrompt ''v'' pi_new 0" "a_overlay ?a = None" "a_registry ?a = Some desk_registry"
      "a_disk ?a = desk_disk" "a_sync ?a = None" "a_user ?a = both_syncs syncs False" "a_read_only ?a = ro"
      "a_controller ?a = \<lparr>ac_config = default_auto_lock, ac_state = Active, ac_last = Some now, ac_queue = [], ac_sources = []\<rparr>"
    by (simp_all add: desk_prompt_def register_input_def open_unlock_prompt_for_def desk_fresh_def register_activity_def)
  have e: "e_kdbx (desk syncs now) = desk_kdbx" "e_handle (desk syncs now) = 3" "e_now (desk syncs now) = now"
    by (simp_all add: desk_def)
  have reg: "registry_get desk_registry ''v'' =
      Some \<lparr>rv_name = ''v'', rv_path = [''v''], rv_created_at = [], rv_keyfile_path = None, rv_extra = [(sync_key, TomlString [])]\<rparr>"
    by (simp add: registry_get_def desk_registry_def)
  have "on_input (desk syncs now) desk_enter (desk_prompt syncs ro) = try_unlock (desk syncs now) (?a\<lparr>a_phase := UnlockPrompt ''v'' pi_new 0\<rparr>)"
    by (simp add: on_input_def desk_enter_def e f on_key_def quit at_prompt_def on_unlock_prompt_key_def input_key_of_def pi_on_key_def)
  also have "\<dots> = enter_workspace (desk syncs now) ''v'' [] desk_vault ?a1"
    by (simp add: try_unlock_def f e reg desk_unlocks pi_new_def of_cps_def)
  finally have run: "on_input (desk syncs now) desk_enter (desk_prompt syncs ro) = enter_workspace (desk syncs now) ''v'' [] desk_vault ?a1" .
  have armed: "arm_auto_lock now (?a1\<lparr>a_vault := Some desk_vault, a_selected_vault := Some ''v''\<rparr>)
      = Some (?a1\<lparr>a_vault := Some desk_vault, a_selected_vault := Some ''v''\<rparr>)" (is "_ = Some ?a2")
    by (simp add: arm_auto_lock_def vault_auto_lock_override_def lock_seconds_def f reg idle_timeout_seconds_from_extra_def
        lock_table_key_def sync_key_def unlock_def)
  let ?h = "(hydrate_workspace ?a2)\<lparr>a_pending := no_pending\<rparr>"
  have h: "a_vault ?h = Some desk_vault" "a_user ?h = both_syncs syncs False" "a_sync ?h = None" "a_controller ?h = a_controller ?a"
      "a_read_only ?h = ro" "a_selected_vault ?h = Some ''v''" "a_registry ?h = Some desk_registry"
    by (simp_all add: hydrate_workspace_def Let_def f)
  from desk_reset [OF h(1), of "desk syncs now"] h obtain b where b: "reset_secrets_view (desk syncs now) ?h = Some b"
      "a_vault b = Some desk_vault" "a_user b = both_syncs syncs False" "a_sync b = None" "a_controller b = a_controller ?a"
      "a_read_only b = ro" "a_selected_vault b = Some ''v''" "a_registry b = Some desk_registry"
    by auto
  let ?b = "b\<lparr>a_phase := Workspace\<rparr>"
  have "sync_configured (desk syncs now) ?b"
    using b by (simp add: sync_configured_def selected_sync_config_def reg from_vault_entry_def desk_def)
  moreover have "sync_on_unlock (a_user ?b) = syncs" using b by (simp add: both_syncs_def set_sync_on_unlock_def sync_on_unlock_def)
  ultimately have "sync_on_unlock (a_user ?b) \<and> sync_configured (desk syncs now) ?b \<longleftrightarrow> syncs" by blast
  then have entered: "enter_workspace (desk syncs now) ''v'' [] desk_vault ?a1 =
      Some (if syncs then start_sync (desk syncs now) TrigOnUnlock [] ?b else ?b)"
    by (simp only: enter_workspace_def e armed Option.bind.bind_lunit b(1) option.map Let_def)
  have "desk_ready now ro ?b" using b f by (simp add: desk_ready_def)
  then show ?thesis by (intro exI [of _ ?b] conjI) (simp_all only: run entered)
qed

end
