(* ===== verification/SessionProperties.thy ===== *)
theory SessionProperties
  imports SessionSafety Desk
begin

text \<open>What every run of the event loop keeps, over the operations of the whole terminal client: who owns the vault and the
  registry, that a read-only session leaves the files alone, that a postponed lock is not lost, that an unattended session
  locks, and that a disabled command does nothing. Each theorem is followed by its instance on the session of \<open>Desk\<close>.\<close>

section \<open>Properties\<close>

text \<open>What every reached state keeps, shared by the properties.\<close>

lemma session_invariant_kept:
  assumes "app_new E S args found d = Some (Inr a0)" "session_run (e_kdbx E) a0 a"
  shows "session_ok a \<and> (a_lock_pending a \<longrightarrow> is_syncing a)"
  using safe_ok [OF safe_run [OF assms(2) started(1) [OF assms(1)]]] by (auto simp: session_ok_def is_syncing_def)

text \<open>Who owns what. In every state that a session reaches from its start, by input, ticks, drawing and the steps of
  the sync worker in any order, the registry is with the worker exactly while a sync runs; the workspace is shown exactly
  when a vault is open or with the worker, never both; a lock is postponed only while the worker has the vault; a locked
  controller means no open vault; and during a sync no overlay but the palette and the quit question can be open.\<close>

theorem session_invariant:
  assumes "app_new E S args found d = Some (Inr a0)" "session_run (e_kdbx E) a0 a"
  shows "(a_registry a = None) = is_syncing a
    \<and> (a_phase a = Workspace) = (a_vault a \<noteq> None \<or> is_syncing a)
    \<and> \<not> (a_vault a \<noteq> None \<and> is_syncing a)
    \<and> (a_lock_pending a \<longrightarrow> is_syncing a)
    \<and> (ac_state (a_controller a) = Locked \<longrightarrow> a_vault a = None)
    \<and> (is_syncing a \<longrightarrow> a_overlay a = None \<or> a_overlay a = Some OvConfirmQuit \<or> (\<exists>p. a_overlay a = Some (OvPalette p)))"
proof -
  have "session_ok a" using session_invariant_kept [OF assms] by blast
  then have o: "overlay_fits a" and "(a_registry a = None) = is_syncing a
    \<and> (a_phase a = Workspace) = (a_vault a \<noteq> None \<or> is_syncing a)
    \<and> \<not> (a_vault a \<noteq> None \<and> is_syncing a)
    \<and> (a_lock_pending a \<longrightarrow> is_syncing a) \<and> (ac_state (a_controller a) = Locked \<longrightarrow> a_vault a = None)"
    by (auto simp: session_ok_def is_syncing_def)
  moreover from o have "is_syncing a \<longrightarrow> a_overlay a = None \<or> a_overlay a = Some OvConfirmQuit \<or> (\<exists>p. a_overlay a = Some (OvPalette p))"
    by (auto simp: overlay_fits_def fits_def is_syncing_def chrome_def split: option.split_asm overlay.split_asm)
  ultimately show ?thesis by blast
qed

lemma desk_run:
  assumes "on_input (desk syncs now) desk_enter (desk_prompt syncs ro) = Some a"
  shows "session_run desk_kdbx (desk_prompt syncs ro) a"
proof -
  have "e_kdbx (desk syncs now) = desk_kdbx" by (simp add: desk_def)
  then show ?thesis using assms by (metis run_start run_step step_input)
qed

lemma session_invariant_witness:
  "\<exists>a. session_run desk_kdbx (desk_prompt True False) a \<and> is_syncing a \<and> a_registry a = None \<and> a_vault a = None"
proof -
  obtain b where b: "desk_ready 7 False b"
    and run: "on_input (desk True 7) desk_enter (desk_prompt True False) = Some (start_sync (desk True 7) TrigOnUnlock [] b)"
    using desk_opened [of 7 False True] by auto
  let ?a = "start_sync (desk True 7) TrigOnUnlock [] b"
  have "is_syncing ?a" using b by (simp add: desk_ready_def start_sync_def is_syncing_def sync_start_def say_def)
  moreover have "e_kdbx (desk True 7) = desk_kdbx" by (simp add: desk_def)
  ultimately show ?thesis
    using session_invariant [OF desk_starts [of True 7 False], of ?a] desk_run [OF run] by (intro exI [of _ ?a]) auto
qed

text \<open>A read-only session leaves everything else alone. Started with the read-only switch, in every state it reaches
  no sync has started, the registry is as it was loaded, every file but the interface state and the preferences is as it
  was at the start, and an open vault (unless one of these two files was registered as one) is what its file held.\<close>

theorem read_only_session:
  assumes "app_new E S args found d = Some (Inr a0)" "ta_read_only args" "session_run (e_kdbx E) a0 a"
  shows "\<not> is_syncing a \<and> a_registry a = a_registry a0
    \<and> (\<forall>p. p \<notin> {config_path (a_paths a0), a_user_path a0} \<longrightarrow> d_files (a_disk a) p = d_files d p)
    \<and> (\<forall>v. a_vault a = Some v \<longrightarrow> v_path v \<in> {config_path (a_paths a0), a_user_path a0}
        \<or> (\<exists>b. d_files d (v_path v) = Some b \<and> kx_open (e_kdbx E) b (v_key v) = Inr (v_database v)))"
proof -
  note s = started [OF assms(1)]
  have r: "safe (e_kdbx E) a0 a" "a_read_only a0" using safe_run [OF assms(3) s(1)] s(2) assms(2) by simp_all
  then have u: "left_alone (e_kdbx E) a0 a" "session_ok a" "a_read_only a" by (simp_all add: safe_def)
  then have "\<not> is_syncing a" by (auto simp: session_ok_def is_syncing_def)
  moreover have files: "d_files (a_disk a) p = d_files d p" "d_files (a_disk a0) p = d_files d p" if "p \<notin> prefs_files a0" for p
    using u(1) s(3) that by (simp_all add: left_alone_def spares_def)
  moreover have "v_path v \<in> prefs_files a0 \<or> (\<exists>b. d_files d (v_path v) = Some b \<and> kx_open (e_kdbx E) b (v_key v) = Inr (v_database v))"
    if "a_vault a = Some v" for v
    using u(1) s(4) that files(2) [of "v_path v"] by (cases "v_path v \<in> prefs_files a0") (auto simp: left_alone_def opened_from_def)
  ultimately show ?thesis using u(1) by (simp add: left_alone_def prefs_files_def)
qed

lemma read_only_session_witness:
  "\<exists>a. session_run desk_kdbx (desk_prompt False True) a \<and> a_vault a = Some desk_vault \<and> d_files (a_disk a) [''v''] = Some [7]"
proof -
  obtain a where a: "on_input (desk False 7) desk_enter (desk_prompt False True) = Some a" "a_vault a = Some desk_vault"
    using desk_opened [of 7 True False] by (auto simp: desk_ready_def)
  have k: "e_kdbx (desk False 7) = desk_kdbx" by (simp add: desk_def)
  note run = desk_run [OF a(1)]
  have "ta_read_only (desk_args True)" by (simp add: desk_args_def)
  moreover have "[''v''] \<notin> {config_path (a_paths (desk_prompt False True)), a_user_path (desk_prompt False True)}" "d_files desk_disk [''v''] = Some [7]"
    by (simp_all add: desk_prompt_def open_unlock_prompt_for_def desk_fresh_def config_path_def with_state_dir_def desk_disk_def)
  ultimately have "d_files (a_disk a) [''v''] = Some [7]"
    using read_only_session [OF desk_starts [of False 7 True], unfolded k, OF _ run] by simp
  with run a(2) show ?thesis by blast
qed

text \<open>A postponed lock is never lost. A lock that fell due, or was asked for, while the worker held the vault stays
  noted whatever happens next - every key, click, tick, frame and step of the worker - until the worker's last message,
  a result, an error or its death, is taken from the channel; that tick then ends on the lock screen with the vault
  dropped and every overlay closed.\<close>

theorem deferred_lock_kept:
  assumes "app_new E S args found d = Some (Inr a0)" "session_run (e_kdbx E) a0 a" "a_lock_pending a" "session_step (e_kdbx E) a b"
  shows "a_lock_pending b \<and> is_syncing b \<or> a_phase b = LockScreen \<and> a_vault b = None \<and> a_overlay b = None \<and> \<not> is_syncing b"
proof -
  have ok: "session_ok a" using session_invariant_kept [OF assms(1,2)] by blast
  then have busy: "a_sync a \<noteq> None" using assms(3) by (simp add: session_ok_def)
  have kept: "a_lock_pending b \<and> is_syncing b" if "waits a b" using that assms(3) busy by (simp add: waits_def is_syncing_def)
  from assms(4) show ?thesis
  proof (cases rule: session_step.cases)
    case (step_input E' ev)
    then show ?thesis using kept input_waits [OF ok busy] by blast
  next
    case (step_tick E' now)
    from tick_cases [OF ok step_tick(2), of "e_kdbx E"] show ?thesis
    proof (elim disjE conjE exE)
      assume "(a_sync b = None) = (a_sync a = None)" "a_sync a \<noteq> None \<and> a_lock_pending a \<longrightarrow> a_lock_pending b"
      then show ?thesis using busy assms(3) by (simp add: is_syncing_def)
    next
      fix w m assume m: "a_lock_pending w = a_lock_pending a" "settles w m" "b = check_clock now m"
      then have l: "session_ok m" "a_phase m = LockScreen" "a_overlay m = None" "a_sync m = None"
        using assms(3) by (simp_all add: settles_def)
      then have "b = m" using clock_after_lock m(3) by simp
      then show ?thesis using l by (auto simp: session_ok_def is_syncing_def)
    qed
  next
    case (step_draw areas viewport)
    then show ?thesis using kept view_waits [OF view_draw [OF ok]] by blast
  next
    case (step_worker G ev r d')
    then have "a_sync b \<noteq> None"
      using busy by (cases "a_sync a"; auto simp: worker_step_def dest: sym split: option.split_asm worker_event.split_asm prod.split_asm)
    then show ?thesis using step_worker assms(3) by (simp add: is_syncing_def)
  qed
qed

text \<open>A lock that falls due while the worker is at work is noted by the second tick after it.\<close>

lemma busy_ticks:
  assumes "a_sync a = Some \<lparr>wk_job = Some j, wk_sent = []\<rparr>" "a_vault a = None" "ac_state (a_controller a) = Active"
    and "ac_last (a_controller a) = Some s" "ac_queue (a_controller a) = []" "al_timeout (ac_config (a_controller a)) \<le> t - s"
  shows "\<exists>b c. app_tick E t a = Some b \<and> app_tick E t b = Some c \<and> a_lock_pending c"
proof -
  let ?k = "a_controller a"
  have first: "tick t ?k = (Expired, ?k\<lparr>ac_state := Expired\<rparr>)"
    using assms(3-6) by (simp add: tick_def drain_events.simps apply_idle_logic_def)
  have second: "tick t (?k\<lparr>ac_state := Expired\<rparr>) = (Locked, ?k\<lparr>ac_state := Locked\<rparr>)"
    using assms(5) by (simp add: tick_def drain_events.simps apply_idle_logic_def)
  show ?thesis using assms(1,2) first second
    by (simp add: app_tick_def sync_drain_def check_clock_def Let_def is_syncing_def)
qed

lemma deferred_lock_kept_witness:
  "\<exists>a. session_run desk_kdbx (desk_prompt True False) a \<and> a_lock_pending a
    \<and> a_lock_pending (draw_app [] 0 a) \<and> is_syncing (draw_app [] 0 a)"
proof -
  obtain b where b: "desk_ready 7 False b"
    and run: "on_input (desk True 7) desk_enter (desk_prompt True False) = Some (start_sync (desk True 7) TrigOnUnlock [] b)"
    using desk_opened [of 7 False True] by auto
  let ?a = "start_sync (desk True 7) TrigOnUnlock [] b" and ?t = "default_idle_timeout + 7"
  have k: "e_kdbx (desk True 7) = desk_kdbx" by (simp add: desk_def)
  have "\<exists>j. a_sync ?a = Some \<lparr>wk_job = Some j, wk_sent = []\<rparr>" "a_vault ?a = None" "ac_state (a_controller ?a) = Active"
    "ac_last (a_controller ?a) = Some 7" "ac_queue (a_controller ?a) = []" "al_timeout (ac_config (a_controller ?a)) \<le> ?t - 7"
    using b by (simp_all add: desk_ready_def start_sync_def sync_start_def say_def default_auto_lock_def)
  then obtain x c where x: "app_tick (desk True 7) ?t ?a = Some x" "app_tick (desk True 7) ?t x = Some c" "a_lock_pending c"
    using busy_ticks by blast
  have r: "session_run desk_kdbx (desk_prompt True False) c"
    by (rule run_step [OF run_step [OF desk_run [OF run] step_tick [OF k x(1)]] step_tick [OF k x(2)]])
  from deferred_lock_kept [OF desk_starts [of True 7 False], unfolded k, OF r x(3) step_draw [of _ c "[]" 0]]
  have "a_lock_pending (draw_app [] 0 c) \<and> is_syncing (draw_app [] 0 c) \<or> a_phase (draw_app [] 0 c) = LockScreen \<and> \<not> is_syncing (draw_app [] 0 c)"
    by blast
  moreover have "is_syncing (draw_app [] 0 c) = is_syncing c"
    by (auto simp: draw_app_def Let_def with_overlay_def is_syncing_def split: option.split overlay.split)
  moreover have "is_syncing c" using session_invariant_kept [OF desk_starts [of True 7 False], unfolded k, OF r] x(3) by blast
  ultimately show ?thesis using r x(3) by blast
qed

lemma idle_drain: "sync_drain None = ([], None)"
  by (simp add: sync_drain_def)

text \<open>An unattended session locks. With the vault open, no sync running and the last activity at \<open>s\<close>: a tick before
  the timeout leaves the vault open, and once the timeout has passed, two ticks without input in between, whatever frames
  are drawn, drop the vault, show the lock screen, close every overlay and clear the marks and the jump history.\<close>

theorem session_locks_when_idle:
  assumes "a_vault a \<noteq> None" "a_sync a = None" "ac_state (a_controller a) = Active" "ac_last (a_controller a) = Some s"
    and "ac_queue (a_controller a) = []" "app_tick E t1 a = Some b" "app_tick E' t2 (draw_app areas viewport b) = Some c"
  shows "if t1 - s < al_timeout (ac_config (a_controller a)) then a_vault b = a_vault a \<and> a_phase b = a_phase a
    else a_vault c = None \<and> a_phase c = LockScreen \<and> a_overlay c = None \<and> a_marks c = {} \<and> a_jumps c = jump_clear (a_jumps b)"
proof -
  let ?k = "a_controller a"
  have first: "tick t1 ?k = (if t1 - s < al_timeout (ac_config ?k) then (Active, ?k) else (Expired, ?k\<lparr>ac_state := Expired\<rparr>))"
    using assms(3-5) by (simp add: tick_def drain_events.simps apply_idle_logic_def)
  have second: "tick t2 (?k\<lparr>ac_state := Expired\<rparr>) = (Locked, ?k\<lparr>ac_state := Locked\<rparr>)"
    using assms(5) by (simp add: tick_def drain_events.simps apply_idle_logic_def)
  have b: "b = a\<lparr>a_bar := status_tick t1 (a_bar a), a_sync := None, a_controller := snd (tick t1 ?k)\<rparr>"
    using assms(1,2,6) first by (auto simp: app_tick_def idle_drain check_clock_def Let_def)
  have d: "a_vault (draw_app areas viewport b) = a_vault b" "a_sync (draw_app areas viewport b) = a_sync b"
      "a_controller (draw_app areas viewport b) = a_controller b" "a_jumps (draw_app areas viewport b) = a_jumps b"
    by (auto simp: draw_app_def Let_def with_overlay_def split: option.split overlay.split)
  show ?thesis
  proof (cases "t1 - s < al_timeout (ac_config ?k)")
    case False
    then have "a_controller b = ?k\<lparr>ac_state := Expired\<rparr>" "a_vault b = a_vault a" "a_sync b = None" using b first assms(2) by simp_all
    then show ?thesis using False assms(1,7) second d
      by (auto simp: app_tick_def idle_drain check_clock_def Let_def lock_app_def drop_vault_def)
  qed (simp add: b)
qed

text \<open>The first overdue tick only notes the expiry, and with no deadline left the loop then waits for a whole frame.\<close>

lemma overdue_tick_waits:
  assumes "a_vault a \<noteq> None" "a_sync a = None" "ac_state (a_controller a) = Active" "ac_last (a_controller a) = Some s"
    and "ac_queue (a_controller a) = []" "al_timeout (ac_config (a_controller a)) \<le> now - s" "app_tick E now a = Some b"
  shows "a_vault b = a_vault a \<and> a_phase b = a_phase a \<and> poll_for later b = FRAME_BUDGET"
proof -
  have "tick now (a_controller a) = (Expired, (a_controller a)\<lparr>ac_state := Expired\<rparr>)"
    using assms(3-6) by (simp add: tick_def drain_events.simps apply_idle_logic_def)
  then have "b = a\<lparr>a_bar := status_tick now (a_bar a), a_sync := None, a_controller := (a_controller a)\<lparr>ac_state := Expired\<rparr>\<rparr>"
    using assms(1,2,7) by (auto simp: app_tick_def idle_drain check_clock_def Let_def)
  then show ?thesis by (simp add: poll_for_def time_until_lock_def)
qed

text \<open>Deleting the selected entry moves the selection and keeps the password revealed.\<close>

lemma reveal_kept:
  "on_app_vault m a = Some (r, b) \<Longrightarrow> a_reveal b = a_reveal a"
  "a_reveal (snd (persist_vault E a)) = a_reveal a"
  "a_reveal (persist_ui_state E a) = a_reveal a"
  "reselect E gone a = Some b \<Longrightarrow> a_reveal b = a_reveal a"
proof -
  show "on_app_vault m a = Some (r, b) \<Longrightarrow> a_reveal b = a_reveal a"
    by (auto simp: on_app_vault_def split: option.split_asm prod.split_asm sum.split_asm fault.split_asm)
  show "a_reveal (snd (persist_vault E a)) = a_reveal a"
    by (auto simp: persist_vault_def say_def split: option.splits prod.splits)
  show "a_reveal (persist_ui_state E a) = a_reveal a"
    by (auto simp: persist_ui_state_def save_ui_config_def say_def split: option.splits prod.splits sum.splits)
  show "reselect E gone a = Some b \<Longrightarrow> a_reveal b = a_reveal a"
    by (auto simp: reselect_def split: option.split_asm if_split_asm)
qed

lemma reveal_persisted: "then_persist E p = (r, b) \<Longrightarrow> a_reveal b = a_reveal (snd p)"
  using reveal_kept(2) [of E "snd p"] by (auto simp: then_persist_def split: prod.split_asm sum.split_asm)

lemma delete_keeps_reveal:
  assumes "perform_delete E u a = Some b"
  shows "a_reveal b = a_reveal a"
proof (cases "a_vault a")
  case (Some v)
  then obtain r a1 where m: "on_app_vault (delete_entry (e_fresh E 0) (e_time E) (e_blank E) u) a = Some (r, a1)"
    using assms by (auto simp: perform_delete_def)
  obtain q a2 where t: "then_persist E (r, a1) = (q, a2)" by fastforce
  have a2: "a_reveal a2 = a_reveal a" using reveal_kept(1) [OF m] reveal_persisted [OF t] by simp
  show ?thesis
  proof (cases q)
    case (Inl e)
    then show ?thesis using assms m t a2 Some by (auto simp: perform_delete_def say_def)
  next
    case (Inr x)
    then obtain a3 where "reselect E [u] (forget_entry u a2) = Some a3" "b = say E SevSuccess ''Entry deleted.'' (persist_ui_state E a3)"
      using assms m t Some by (auto simp: perform_delete_def)
    then show ?thesis using reveal_kept(3,4) a2 by (fastforce simp: say_def forget_entry_def)
  qed
qed (use assms in \<open>simp add: perform_delete_def\<close>)

lemma session_locks_when_idle_witness:
  "\<exists>a b c. on_input (desk False 7) desk_enter (desk_prompt False False) = Some a \<and> a_vault a = Some desk_vault
    \<and> app_tick (desk False 7) (default_idle_timeout + 7) a = Some b
    \<and> app_tick (desk False 7) (default_idle_timeout + 7) (draw_app [] 0 b) = Some c \<and> a_vault c = None \<and> a_phase c = LockScreen"
proof -
  let ?t = "default_idle_timeout + 7"
  obtain a where a: "desk_ready 7 False a" "on_input (desk False 7) desk_enter (desk_prompt False False) = Some a"
    using desk_opened [of 7 False False] by auto
  have f: "a_vault a = Some desk_vault" "a_vault a \<noteq> None" "a_sync a = None" "ac_state (a_controller a) = Active"
      "ac_last (a_controller a) = Some 7" "ac_queue (a_controller a) = []" "al_timeout (ac_config (a_controller a)) = default_idle_timeout"
    using a(1) by (simp_all add: desk_ready_def default_auto_lock_def)
  obtain b where b: "app_tick (desk False 7) ?t a = Some b" "a_sync b = None"
    using f(3) by (simp add: app_tick_def idle_drain check_clock_def Let_def split: prod.split)
  have "a_sync (draw_app [] 0 b) = None"
    using b(2) by (auto simp: draw_app_def Let_def with_overlay_def split: option.split overlay.split)
  then obtain c where c: "app_tick (desk False 7) ?t (draw_app [] 0 b) = Some c" by (simp add: app_tick_def idle_drain)
  from session_locks_when_idle [OF f(2-6) b(1) c] f(7) have "a_vault c = None" "a_phase c = LockScreen" by simp_all
  with a(2) f(1) b(1) c show ?thesis by blast
qed

definition bar_only :: "('x, 'key) app \<Rightarrow> ('x, 'key) app option \<Rightarrow> bool" where
  "bar_only a r = (\<exists>bar. r = Some (a\<lparr>a_bar := bar\<rparr>))"

lemma bar_only_simps [simp]: "bar_only a (Some a)" "bar_only a (Some (say E s m a))"
  unfolding bar_only_def say_def by (rule exI [of _ "a_bar a"], simp, blast)

lemma unselected_noop:
  assumes "selected_entry_uuid a = None"
  shows "bar_only a (Some (do_copy E f a))" "bar_only a (Some (open_edit E a))" "bar_only a (Some (toggle_pin_selected E a))"
    "a_marks a = {} \<Longrightarrow> bar_only a (Some (open_delete_confirm E a))" "bar_only a (Some (open_history E a))"
  using assms by (auto simp: do_copy_def open_edit_def toggle_pin_selected_def open_delete_confirm_def open_history_def
      selected_entry_uuid_def split: option.split)

lemma unmarked_noop:
  assumes "a_marks a = {}"
  shows "bar_only a (open_group_picker E a)" "bar_only a (Some (open_tag_input x a))"
  using assms by (simp_all add: open_group_picker_def open_tag_input_def)

lemma entryless_noop:
  assumes "\<not> context_entry_present a" "active_tab (a_tabs a) = Some t"
  shows "bar_only a (Some (exec_reveal a))" "bar_only a (exec_history E a)"
  using assms unselected_noop(5) [of a E]
  by (auto simp: exec_reveal_def exec_history_def context_entry_present_def on_pinned_tab_def split: tab.split_asm tab.split)

lemma disabled_run:
  assumes d: "command_state E a c = cmd_state.Disabled" "active_tab (a_tabs a) = Some t"
    and free: "\<not> is_syncing a" "\<not> (a_read_only a \<and> c \<in> set RO_MUTATING_COMMANDS)"
  shows "bar_only a (run_command E c a) \<and> \<not> available_during_sync c"
proof -
  consider "c \<in> {CopyPassword, CopyUsername, EditEntry, PinToggle}" "selected_entry_uuid a = None"
    | "c = DeleteEntry" "a_marks a = {}" "selected_entry_uuid a = None"
    | "c \<in> {MoveToGroup, command.AddTag, command.RemoveTag}" "a_marks a = {}"
    | "c \<in> {RevealPassword, History}" "\<not> context_entry_present a"
    | "c = Sync" "\<not> sync_configured E a"
    using d(1) free by (auto simp: command_state_def enabled_if_def available_during_sync_def split: if_split_asm)
  then show ?thesis
  proof cases
    case 1
    then show ?thesis using unselected_noop by (auto simp: run_command_def available_during_sync_def)
  next
    case 2
    then show ?thesis using unselected_noop by (auto simp: run_command_def available_during_sync_def)
  next
    case 3
    then show ?thesis using unmarked_noop by (auto simp: run_command_def available_during_sync_def)
  next
    case 4
    then show ?thesis using entryless_noop [OF 4(2) d(2)] by (auto simp: run_command_def available_during_sync_def)
  next
    case 5
    then show ?thesis using free by (simp add: run_command_def available_during_sync_def request_sync_def)
  qed
qed

text \<open>A command that the palette and the help show as disabled does nothing: executed in any state with a tab, it
  changes the status bar at most.\<close>

theorem disabled_commands_noop:
  assumes "command_state E a c = cmd_state.Disabled" "active_tab (a_tabs a) \<noteq> None"
  shows "\<exists>bar. execute_command E c cnt a = Some (a\<lparr>a_bar := bar\<rparr>)"
proof -
  obtain t where t: "active_tab (a_tabs a) = Some t" using assms(2) by blast
  have "bar_only a (execute_command E c cnt a)"
  proof (cases "a_read_only a \<and> c \<in> set RO_MUTATING_COMMANDS")
    case False
    show ?thesis
    proof (cases "is_syncing a")
      case True
      with assms(1) False have "\<not> available_during_sync c"
        by (auto simp: command_state_def enabled_if_def available_during_sync_def split: if_split_asm)
      with True False show ?thesis by (auto simp: execute_command_def available_during_sync_def)
    next
      case idle: False
      from disabled_run [OF assms(1) t idle False] idle False show ?thesis
        by (auto simp: execute_command_def available_during_sync_def)
    qed
  qed (simp add: execute_command_def)
  then show ?thesis by (simp add: bar_only_def)
qed

lemma disabled_commands_noop_witness:
  "\<exists>bar. execute_command (desk False 7) CopyPassword None (desk_prompt False False) = Some ((desk_prompt False False)\<lparr>a_bar := bar\<rparr>)"
proof (rule disabled_commands_noop)
  have f: "a_sync (desk_prompt False False) = None" "\<not> a_read_only (desk_prompt False False)" "a_tree (desk_prompt False False) = tree_state_new"
      "a_tabs (desk_prompt False False) = tab_bar_new" "a_vault (desk_prompt False False) = None"
    by (simp_all add: desk_prompt_def open_unlock_prompt_for_def desk_fresh_def)
  then show "command_state (desk False 7) (desk_prompt False False) CopyPassword = cmd_state.Disabled"
    by (simp add: command_state_def is_syncing_def enabled_if_def selected_entry_uuid_def app_entry_def the_db_def split: option.split)
  show "active_tab (a_tabs (desk_prompt False False)) \<noteq> None" using f by (simp add: active_tab_def tab_bar_new_def tab_resolve_def)
qed

end
