(* ===== verification/Spec2Isabelle.thy ===== *)
theory Spec2Isabelle
  imports Sampling Passwords SyncDriver AutoLock MergeAdapter Search Credentials Keymap EntryTree Overlays SessionProperties
begin

text \<open>
  Falach is a password manager over KDBX databases that synchronises its vaults through an S3 object
  store. This library models its own code (the crates under \<open>src/crates\<close>) and the parts of
  two vendored crates it edits or relies on (\<open>src/vendor/keepass\<close>, \<open>src/vendor/base32\<close>).

  \<^bold>\<open>Parts and how they interact.\<close> The core crate opens a vault file into a database in memory, edits
  it and writes it back. Every write goes through one atomic file replacement under an advisory lock.
  A registry file names the vaults and carries one block per feature, among them the sync block. The sync crate
  compares the local file, the remote object and the pointers of the last sync, and copies, uploads or merges.
  The security crate locks an idle session, the generator crate makes passwords, and the terminal
  interface puts all of it behind keys, tabs and a tree of entries.

  \<^bold>\<open>Conventions\<close> (\<open>Prelude\<close>, \<open>Strings\<close>, \<open>Files\<close>).
  \<^item> A Rust struct is a record, an enum a datatype, a fallible function returns \<open>error + 'a\<close>
    with \<open>Inl\<close> the error, and stateful code passes its state (the action type of \<open>Prelude\<close>).
  \<^item> A hash map is a map together with an explicit iteration order where the code iterates.
  \<^item> Machine integers are naturals or integers with their bounds, saturation and wrap-around written out, or words
    where the code works on bits. Strings are ASCII strings with the functions of \<open>Strings\<close>; where offsets of
    UTF-8 text matter (\<open>TextInput\<close>), characters are code points with their encoded length.
  \<^item> A function that may not return is a \<open>partial_function (option)\<close>: \<open>climbs_to\<close>, \<open>subtree\<close> and \<open>walk\<close> give
    \<open>None\<close> on a database whose parent links or child lists have a cycle.
    \<open>vault_ops_return\<close> and \<open>tree_rows_exact\<close> prove that they return on every database the operations
    can reach. All other loops are total: the merge loop of a sync by the code's own bound on attempts, the wildcard
    loop by a lexicographic measure, the base32 and percent codecs by the length of their input.
    There is no fuel in the library.

  \<^bold>\<open>Parameters.\<close> Code outside the repository is an argument of the definitions that use it, and what
  is relied on is a named hypothesis that a witness discharges with a concrete function: the KDBX format
  (parse and serialise, key derivation) and its merge, SHA-256, HMAC, Argon2id, ChaCha20-Poly1305, base64, JSON and
  TOML (codecs), the HTTP library and the object service, the clock and the calendar, the random generator, the environment,
  the Unicode tables and display widths, and answers of the operating system (a schedule of failures).

  \<^bold>\<open>Files\<close> (\<open>falach-core\<close>).
  \<^item> \<open>Atomic\<close>: \<open>atomic.rs\<close> at the level of system calls over inodes and directories, with a crash after any of
    them; \<open>write_atomic_crash_safe\<close>. \<open>Disk\<close>: whole files as the other components see them, and the
    refinement \<open>write_atomic_refines\<close> between the two. \<open>Locking\<close>: \<open>locking.rs\<close> and mutual exclusion over any
    run of several processes.
  \<^item> \<open>Registry\<close>: \<open>registry.rs\<close> and \<open>paths.rs\<close>. The locale \<open>catalogue\<close> states what a catalogue of named entries
    promises; its interpretation on the registry carries the lemmas on lookup after register and deregister. Conflict
    detection and the round trip over the file are \<open>registry_no_lost_update\<close>, \<open>registry_save_load_roundtrip\<close>.
  \<^item> \<open>VaultFile\<close>: \<open>vault.rs\<close> and \<open>unlock.rs\<close> (create, open, save, re-key, replace).

  \<^bold>\<open>The database\<close> (\<open>vendor/keepass/src/db\<close>, \<open>falach-core/src/entry\<close>).
  \<^item> \<open>Kdbx\<close> holds entries, groups, attachments, tombstones and what a save and open do to tags and attachment
    references; \<open>Entries\<close> the operations of \<open>crud.rs\<close>, \<open>group.rs\<close>, \<open>expiration.rs\<close>, \<open>attachment.rs\<close>.
  \<^item> \<open>KdbxTree\<close> states the invariant (the groups are a tree, parent links and child lists agree) and its
    preservation; \<open>VaultOps\<close> makes every operation a step, and shows the invariant along all runs, that
    every operation returns, and the transaction behaviour of \<open>update_entry\<close>.
  \<^item> \<open>AttachmentPool\<close>: which attachments survive a save and the next open.
  \<^item> \<open>Search\<close> and \<open>FuzzyMatch\<close>: \<open>search.rs\<close> against the meaning of a pattern and the set of visible entries, \<open>fuzzy.rs\<close>
    against the best of all alignments.
  \<^item> \<open>Totp\<close> and \<open>Base32\<close>: \<open>totp.rs\<close> and the vendored codec.

  \<^bold>\<open>Sync\<close> (\<open>falach-sync\<close>).
  \<^item> \<open>Transport\<close>: the locale \<open>sync_transport\<close> is what a sync relies on (versions name contents, a conditional
    put replaces exactly the expected version), interpreted on the in-memory transport with other writers acting
    between any two calls.
  \<^item> \<open>SyncMachine\<close>: \<open>sync.rs\<close>, \<open>backup.rs\<close>. The steps are composed as in \<open>run_state_machine\<close>, every early return a
    branch. The lemmas give the footprint of a run, the backup before any change, and, in the context of the
    locale, what each outcome means; \<open>sync_outcome_effects\<close> states it over the in-memory transport.
  \<^item> \<open>Endpoint\<close>, \<open>Signer\<close>, \<open>S3Client\<close>, \<open>S3Transport\<close>: \<open>s3/*.rs\<close> and \<open>transport/s3.rs\<close>. The locale \<open>s3_store\<close> holds the laws
    of a backend that enforces conditional writes, and \<open>sync_transport\<close> is a sublocale of it.
    \<open>ObjectStore\<close> is a service with the documented semantics of S3; the client's requests against it satisfy
    the laws, so the theorems of the state machine hold over S3 (\<open>sync_over_s3_effects\<close>).
  \<^item> \<open>SyncDriver\<close>: \<open>config.rs\<close>, the operations around the machine, \<open>sync_log.rs\<close>. \<open>Credentials\<close>: \<open>auth/*.rs\<close>.
    \<open>MergeAdapter\<close>: \<open>merge/mod.rs\<close> around an arbitrary library merge.

  \<^bold>\<open>Generator and security\<close> (\<open>falach-genpw\<close>, \<open>falach-security\<close>).
  \<^item> \<open>Sampling\<close>: the locale \<open>index_source\<close> is the interface of an index sampler, interpreted on the byte cursor.
    \<open>Passwords\<close> builds passwords and passphrases on it.
  \<^item> \<open>AutoLock\<close>: the controller with its event channel against a reference computed from times and demands, the lock
    override of a vault, the clipboard.

  \<^bold>\<open>Terminal interface\<close> (\<open>falach-tui\<close>).
  \<^item> \<open>Commands\<close>, \<open>Keymap\<close>: \<open>command/registry.rs\<close> and \<open>command/keymap.rs\<close>: table, presets, resolver, grammar of keys, patches.
  \<^item> \<open>TextInput\<close>: the two text editors; the locale \<open>key_editor\<close> is the contract with an editor of the text before and after the
    cursor, interpreted on both.
  \<^item> \<open>Tabs\<close>: \<open>tabs.rs\<close>, \<open>recents.rs\<close>, \<open>jump_history.rs\<close>. \<open>EntryTree\<close>: \<open>widgets/entry_tree.rs\<close>.
  \<^item> \<open>LineInput\<close>: the vendored single-line input. \<open>EditForm\<close>: \<open>overlay/edit.rs\<close> and \<open>overlay/generate.rs\<close> with the handlers of
    \<open>app.rs\<close> that feed the form and write its values to the vault. \<open>Overlays\<close>: the other files of \<open>overlay/\<close>.
  \<^item> \<open>Settings\<close>: \<open>user_config.rs\<close> and \<open>config.rs\<close>, the two preference files; the updates of several instances run
    interleaved, action by action, with the lock that keeps them apart.
  \<^item> \<open>Session\<close>: the state of the application (\<open>app.rs\<close>) with unlocking, locking, saving and the background sync
    (\<open>sync_runtime.rs\<close>), which takes the vault and the registry away and hands them back as messages.
    \<open>SessionKeys\<close>: what keys, commands and the mouse do to it; a handler that may panic or not return gives \<open>None\<close>.
    \<open>Startup\<close>: \<open>args.rs\<close>, the construction of the application, and \<open>event.rs\<close>.
    \<open>SessionSafety\<close>: what every operation of the session keeps. \<open>SessionProperties\<close>: from it, over every run of the
    event loop, who owns the vault and the registry (\<open>session_invariant\<close>), what a read-only session leaves alone
    (\<open>read_only_session\<close>), that a postponed lock is not lost (\<open>deferred_lock_kept\<close>) and that an unattended session locks
    (\<open>session_locks_when_idle\<close>). \<open>Desk\<close>: a small session on which they are instantiated.

  \<^bold>\<open>Not modelled.\<close> The command line crate (argument parsing by a library, prompts, printing), drawing of the
  terminal interface and its themes, the agent (a placeholder), process hardening and zeroization (no behaviour a pure model
  can see), the KDBX container format with its ciphers and XML syntax, the display strings of errors, the
  HTTP client library, and the macOS source of lock events (calls into a platform library).
\<close>

end
